(* ===== verification/Ublk_Prelude.thy ===== *)
theory Ublk_Prelude
  imports Main "HOL-Library.Word" "HOL-Library.Product_Lexorder"
begin

text \<open>
  The vocabulary the components share: bytes, the error values of the fallible operations,
  unsigned 64-bit arithmetic as Rust writes it, slices of byte buffers, and ordered maps (Rust's
  \<open>BTreeMap\<close>, also used for \<open>HashMap\<close> where only look-ups matter) as
  association lists with strictly increasing keys. The lemma collections \<open>buf_simps\<close> and
  \<open>bmap_simps\<close> carry the component proofs.
\<close>

named_theorems buf_simps
named_theorems bmap_simps

section \<open>Bytes, errors and results\<close>

type_synonym byte = "8 word"
type_synonym bytes = "8 word list"

text \<open>
  Every early return of the code is one of these values. \<open>Panic\<close> stands for a Rust panic
  (a segment out of range, a division by zero); \<open>IoErr\<close> for a failure reported by the layer
  below (the backing store, a file or a socket).
\<close>

datatype err =
    Misaligned
  | OutOfBounds
  | OverflowU64
  | BadSize
  | BadConfig
  | ShortRead
  | ReadOnlySnapshot
  | Timeout
  | Panic
  | LoopFuel
  | IoErr string

type_synonym 'a res = "err + 'a"

definition is_ok :: "'a res \<Rightarrow> bool" where
  "is_ok r = (case r of Inl _ \<Rightarrow> False | Inr _ \<Rightarrow> True)"

lemma is_ok_simps [simp]: "is_ok (Inr x)" "\<not> is_ok (Inl e)"
  by (simp_all add: is_ok_def)

lemma is_ok_ex: "is_ok r \<longleftrightarrow> (\<exists>x. r = Inr x)"
  by (cases r) (simp_all add: is_ok_def)

section \<open>Unsigned 64-bit arithmetic\<close>

definition u64_limit :: nat where
  "u64_limit = 2 ^ 64"

definition checked_add :: "nat \<Rightarrow> nat \<Rightarrow> nat option" where
  "checked_add a b = (if a + b < u64_limit then Some (a + b) else None)"

definition saturating_add :: "nat \<Rightarrow> nat \<Rightarrow> nat" where
  "saturating_add a b = min (a + b) (u64_limit - 1)"

text \<open>\<open>saturating_sub\<close> is truncated subtraction on \<open>nat\<close>.\<close>

abbreviation (input) saturating_sub :: "nat \<Rightarrow> nat \<Rightarrow> nat" where
  "saturating_sub a b \<equiv> a - b"

definition wrapping_add :: "nat \<Rightarrow> nat \<Rightarrow> nat" where
  "wrapping_add a b = (a + b) mod u64_limit"

definition is_multiple_of :: "nat \<Rightarrow> nat \<Rightarrow> bool" where
  "is_multiple_of a b = (b dvd a)"

definition div_ceil :: "nat \<Rightarrow> nat \<Rightarrow> nat" where
  "div_ceil a b = a div b + (if a mod b = 0 then 0 else 1)"

lemma u64_limit_pos [simp]: "0 < u64_limit" "u64_limit \<noteq> 0"
  by (simp_all add: u64_limit_def)

lemma checked_add_Some: "checked_add a b = Some c \<longleftrightarrow> c = a + b \<and> a + b < u64_limit"
  by (auto simp: checked_add_def)

lemma wrapping_add_small: "a + b < u64_limit \<Longrightarrow> wrapping_add a b = a + b"
  by (simp add: wrapping_add_def)

lemma div_ceil_le_iff:
  assumes "0 < b"
  shows "i < div_ceil a b \<longleftrightarrow> i * b < a"
proof
  assume i: "i < div_ceil a b"
  show "i * b < a"
  proof (cases "i < a div b")
    case True
    then have "(i + 1) * b \<le> a div b * b" by (intro mult_right_mono) auto
    also have "\<dots> \<le> a" by simp
    finally show ?thesis using assms by simp
  next
    case False
    with i have "i = a div b" and "a mod b \<noteq> 0"
      by (auto simp: div_ceil_def split: if_splits)
    moreover have "a = a div b * b + a mod b" by simp
    ultimately show ?thesis by (metis add_0_right less_add_same_cancel1 neq0_conv)
  qed
next
  assume i: "i * b < a"
  then have "i \<le> a div b"
    using assms by (simp add: less_eq_div_iff_mult_less_eq)
  moreover have "a mod b \<noteq> 0" if "i = a div b"
  proof
    assume "a mod b = 0"
    then have "a = a div b * b" by auto
    with i that show False by simp
  qed
  ultimately have "i < a div b \<or> i = a div b \<and> a mod b \<noteq> 0" by linarith
  then show "i < div_ceil a b"
    by (auto simp: div_ceil_def)
qed

section \<open>Slices of buffers\<close>

definition segment :: "nat \<Rightarrow> nat \<Rightarrow> 'a list \<Rightarrow> 'a list" where
  "segment off len xs = take len (drop off xs)"

definition overwrite :: "nat \<Rightarrow> 'a list \<Rightarrow> 'a list \<Rightarrow> 'a list" where
  "overwrite off d xs = take off xs @ d @ drop (off + length d) xs"

definition zeros :: "nat \<Rightarrow> bytes" where
  "zeros n = replicate n 0"

text \<open>Two buffers that agree except on \<open>[off, off + len)\<close>.\<close>

definition same_outside :: "nat \<Rightarrow> nat \<Rightarrow> 'a list \<Rightarrow> 'a list \<Rightarrow> bool" where
  "same_outside off len xs ys \<longleftrightarrow>
     length xs = length ys \<and>
     (\<forall>i < length xs. i < off \<or> off + len \<le> i \<longrightarrow> xs ! i = ys ! i)"

lemma length_zeros [simp]: "length (zeros n) = n"
  by (simp add: zeros_def)

lemma nth_zeros [simp]: "i < n \<Longrightarrow> zeros n ! i = 0"
  by (simp add: zeros_def)

lemma zeros_0 [simp]: "zeros 0 = []"
  by (simp add: zeros_def)

lemma set_zeros: "set (zeros n) \<subseteq> {0}"
  by (simp add: zeros_def set_replicate_conv_if)

lemma segment_zeros [buf_simps]: "off + len \<le> n \<Longrightarrow> segment off len (zeros n) = zeros len"
  by (simp add: segment_def zeros_def)

lemma length_segment [buf_simps]: "length (segment off len xs) = min len (length xs - off)"
  by (simp add: segment_def)

lemma segment_0 [simp]: "segment off 0 xs = []"
  by (simp add: segment_def)

lemma nth_segment [buf_simps]:
  "i < len \<Longrightarrow> off + i < length xs \<Longrightarrow> segment off len xs ! i = xs ! (off + i)"
  by (simp add: segment_def)

lemma segment_all: "length xs \<le> n \<Longrightarrow> segment 0 n xs = xs"
  by (simp add: segment_def)

lemma segment_add: "segment off (m + n) xs = segment off m xs @ segment (off + m) n xs"
  by (simp add: segment_def take_add add.commute)

lemma take_segment: "take n (segment off len xs) = segment off (min n len) xs"
  by (simp add: segment_def min.commute)

lemma segment_segment: "segment a m (segment b n xs) = segment (b + a) (min m (n - a)) xs"
  by (simp add: segment_def drop_take add.commute)

lemma segment_min: "segment off (min len (length xs - off)) xs = segment off len xs"
  by (simp add: segment_def min_def)

lemma length_overwrite [buf_simps]:
  "off + length d \<le> length xs \<Longrightarrow> length (overwrite off d xs) = length xs"
  by (simp add: overwrite_def)

lemma overwrite_Nil [simp]: "overwrite off [] xs = xs"
  by (simp add: overwrite_def)

lemma nth_overwrite [buf_simps]:
  assumes "off + length d \<le> length xs" and "i < length xs"
  shows "overwrite off d xs ! i =
    (if off \<le> i \<and> i < off + length d then d ! (i - off) else xs ! i)"
proof -
  have off: "off \<le> length xs" using assms(1) by simp
  consider "i < off" | "off \<le> i" "i < off + length d" | "off + length d \<le> i"
    by linarith
  then show ?thesis
  proof cases
    case 1
    then show ?thesis using off by (simp add: overwrite_def nth_append)
  next
    case 2
    then have "i - off < length d" by linarith
    then show ?thesis using off 2 by (simp add: overwrite_def nth_append)
  next
    case 3
    then have "\<not> i - off < length d" by linarith
    then show ?thesis using off 3 assms by (simp add: overwrite_def nth_append)
  qed
qed

lemma overwrite_append:
  assumes "off + length a + length b \<le> length xs"
  shows "overwrite (off + length a) b (overwrite off a xs) = overwrite off (a @ b) xs"
proof (rule nth_equalityI)
  show "length (overwrite (off + length a) b (overwrite off a xs)) = length (overwrite off (a @ b) xs)"
    using assms by (simp add: buf_simps)
next
  fix i assume "i < length (overwrite (off + length a) b (overwrite off a xs))"
  then have "i < length xs" using assms by (simp add: buf_simps)
  then show "overwrite (off + length a) b (overwrite off a xs) ! i = overwrite off (a @ b) xs ! i"
    using assms by (auto simp: buf_simps nth_append)
qed

lemma segment_overwrite_same:
  "off + length d \<le> length xs \<Longrightarrow> segment off (length d) (overwrite off d xs) = d"
  by (simp add: segment_def overwrite_def)

lemma segment_overwrite_disjoint:
  assumes "off + length d \<le> length xs" and "a + n \<le> off \<or> off + length d \<le> a"
  shows "segment a n (overwrite off d xs) = segment a n xs"
proof (rule nth_equalityI)
  show "length (segment a n (overwrite off d xs)) = length (segment a n xs)"
    using assms by (simp add: buf_simps)
next
  fix i assume "i < length (segment a n (overwrite off d xs))"
  then have "i < n" and "i < length xs - a"
    using assms by (simp_all add: buf_simps)
  then show "segment a n (overwrite off d xs) ! i = segment a n xs ! i"
    using assms by (auto simp: buf_simps)
qed

lemma overwrite_segment_id: "off + n \<le> length xs \<Longrightarrow> overwrite off (segment off n xs) xs = xs"
  by (auto intro!: nth_equalityI simp: buf_simps)

text \<open>What a write or a clear of \<open>data\<close> at \<open>off\<close> may have done to the device when it returned.\<close>

definition stored :: "nat \<Rightarrow> bytes \<Rightarrow> nat \<Rightarrow> unit res \<Rightarrow> bytes \<Rightarrow> bytes \<Rightarrow> bool" where
  "stored off data pos u V V' \<longleftrightarrow>
     (u = Inr () \<longrightarrow> V' = overwrite (off + pos) (drop pos data) V) \<and>
     (u \<noteq> Inr () \<longrightarrow> same_outside off (length data) V V')"

lemma same_outside_refl [simp]: "same_outside off len xs xs"
  by (simp add: same_outside_def)

lemma same_outside_overwrite:
  "off + length d \<le> length xs \<Longrightarrow> same_outside off (length d) xs (overwrite off d xs)"
  by (auto simp: same_outside_def buf_simps)

lemma same_outside_trans:
  "same_outside off len xs ys \<Longrightarrow> same_outside off len ys zs \<Longrightarrow> same_outside off len xs zs"
  by (auto simp: same_outside_def)

lemma same_outside_mono:
  "same_outside off len xs ys \<Longrightarrow> off' \<le> off \<Longrightarrow> off + len \<le> off' + len' \<Longrightarrow>
   same_outside off' len' xs ys"
  by (force simp: same_outside_def)

lemma same_outside_length: "same_outside off len xs ys \<Longrightarrow> length ys = length xs"
  by (simp add: same_outside_def)

lemma same_outside_segment:
  assumes "same_outside off len xs ys" and "a + n \<le> off \<or> off + len \<le> a"
  shows "segment a n ys = segment a n xs"
proof (rule nth_equalityI)
  show "length (segment a n ys) = length (segment a n xs)"
    using assms by (simp add: buf_simps same_outside_def)
next
  fix i assume "i < length (segment a n ys)"
  then show "segment a n ys ! i = segment a n xs ! i"
    using assms by (auto simp: buf_simps same_outside_def)
qed

section \<open>Ordered maps\<close>

type_synonym 'v bmap = "(nat \<times> 'v) list"

definition bm_wf :: "'v bmap \<Rightarrow> bool" where
  "bm_wf m = sorted_wrt (<) (map fst m)"

abbreviation (input) bm_get :: "'v bmap \<Rightarrow> nat \<Rightarrow> 'v option" where
  "bm_get m k \<equiv> map_of m k"

definition bm_contains :: "'v bmap \<Rightarrow> nat \<Rightarrow> bool" where
  "bm_contains m k = (map_of m k \<noteq> None)"

fun bm_insert :: "nat \<Rightarrow> 'v \<Rightarrow> 'v bmap \<Rightarrow> 'v bmap" where
  "bm_insert k v [] = [(k, v)]"
| "bm_insert k v ((k', v') # m) =
     (if k < k' then (k, v) # (k', v') # m
      else if k = k' then (k, v) # m
      else (k', v') # bm_insert k v m)"

definition bm_remove :: "nat \<Rightarrow> 'v bmap \<Rightarrow> 'v bmap" where
  "bm_remove k m = filter (\<lambda>(k', _). k' \<noteq> k) m"

lemma map_of_bm_insert [bmap_simps]: "map_of (bm_insert k v m) = (map_of m)(k \<mapsto> v)"
  by (induction k v m rule: bm_insert.induct) (auto simp: fun_eq_iff)

lemma map_of_bm_remove [bmap_simps]: "map_of (bm_remove k m) = (map_of m)(k := None)"
  by (induction m) (auto simp: bm_remove_def fun_eq_iff)

lemma fst_set_bm_insert: "fst ` set (bm_insert k v m) = insert k (fst ` set m)"
  by (induction k v m rule: bm_insert.induct) auto

lemma bm_wf_Nil [simp]: "bm_wf []"
  by (simp add: bm_wf_def)

lemma bm_wf_Cons: "bm_wf ((k, v) # m) \<longleftrightarrow> (\<forall>k' \<in> fst ` set m. k < k') \<and> bm_wf m"
  by (simp add: bm_wf_def)

lemma bm_wf_insert [bmap_simps]: "bm_wf m \<Longrightarrow> bm_wf (bm_insert k v m)"
  by (induction k v m rule: bm_insert.induct) (auto simp: bm_wf_Cons fst_set_bm_insert)

lemma bm_wf_filter: "bm_wf m \<Longrightarrow> bm_wf (filter P m)"
  unfolding bm_wf_def by (induction m) auto

lemma bm_wf_remove [bmap_simps]: "bm_wf m \<Longrightarrow> bm_wf (bm_remove k m)"
  by (simp add: bm_remove_def bm_wf_filter)

lemma bm_wf_distinct: "bm_wf m \<Longrightarrow> distinct (map fst m)"
  unfolding bm_wf_def by (metis strict_sorted_iff)

lemma bm_get_iff_mem: "bm_wf m \<Longrightarrow> map_of m k = Some v \<longleftrightarrow> (k, v) \<in> set m"
  by (simp add: bm_wf_distinct)

lemma bm_contains_iff: "bm_contains m k \<longleftrightarrow> k \<in> fst ` set m"
  by (simp add: bm_contains_def map_of_eq_None_iff)

lemma bm_contains_insert [bmap_simps]: "bm_contains (bm_insert k v m) k' \<longleftrightarrow> k' = k \<or> bm_contains m k'"
  by (auto simp: bm_contains_def map_of_bm_insert)

lemma bm_contains_remove [bmap_simps]: "bm_contains (bm_remove k m) k' \<longleftrightarrow> k' \<noteq> k \<and> bm_contains m k'"
  by (auto simp: bm_contains_def map_of_bm_remove)

lemma bm_contains_Nil [simp]: "\<not> bm_contains [] k"
  by (simp add: bm_contains_def)

lemma length_bm_remove: "length (bm_remove k m) \<le> length m"
  by (simp add: bm_remove_def)

lemma length_bm_remove_contains: "bm_contains m k \<Longrightarrow> length (bm_remove k m) < length m"
  unfolding bm_remove_def bm_contains_iff by (auto intro: length_filter_less)

lemma length_bm_remove_wf:
  "bm_wf m \<Longrightarrow> bm_contains m k \<Longrightarrow> length (bm_remove k m) = length m - 1"
proof (induction m)
  case Nil
  then show ?case by simp
next
  case (Cons a m)
  obtain k' v' where a: "a = (k', v')" by (cases a)
  show ?case
  proof (cases "k' = k")
    case True
    with Cons.prems(1) a have "\<forall>x \<in> set m. fst x \<noteq> k" by (auto simp: bm_wf_Cons)
    then have "filter (\<lambda>(k', _). k' \<noteq> k) m = m" by (auto simp: filter_id_conv)
    then show ?thesis using a True by (simp add: bm_remove_def)
  next
    case False
    with Cons.prems a have "bm_wf m" and "bm_contains m k"
      by (auto simp: bm_wf_Cons bm_contains_def)
    with Cons.IH have "length (bm_remove k m) = length m - 1" by simp
    moreover have "m \<noteq> []" using \<open>bm_contains m k\<close> by auto
    ultimately show ?thesis using a False by (cases m) (simp_all add: bm_remove_def)
  qed
qed

lemma length_bm_insert_new: "\<not> bm_contains m k \<Longrightarrow> length (bm_insert k v m) = Suc (length m)"
  by (induction k v m rule: bm_insert.induct) (auto simp: bm_contains_def split: if_splits)

end
