(* ===== verification/Blob_Backend.thy ===== *)
theory Blob_Backend
  imports Ublk_Prelude
begin

text \<open>
  The \<open>BlobBackend\<close> trait of \<open>backend/mod.rs\<close>. A backend is a record of its operations
  over an abstract state, so the layers compose as the code composes them: an operation of an
  outer layer takes the record of the layer below as an argument. The locale
  \<open>blob_backend\<close> is the contract of the trait: \<open>content\<close> is the device as a client sees it,
  \<open>durable\<close> what has reached the backing store, \<open>binv\<close> the layer's own invariant; every
  operation may fail. The locale \<open>reliable_backend\<close> adds that well-formed requests succeed.
\<close>

section \<open>The trait\<close>

record 's backend =
  b_create :: "'s \<Rightarrow> nat \<Rightarrow> unit res \<times> 's"
  b_read :: "'s \<Rightarrow> nat \<Rightarrow> nat \<Rightarrow> bytes res \<times> 's"
  b_write :: "'s \<Rightarrow> nat \<Rightarrow> bytes \<Rightarrow> unit res \<times> 's"
  b_clear :: "'s \<Rightarrow> nat \<Rightarrow> nat \<Rightarrow> unit res \<times> 's"
  b_prefetch :: "'s \<Rightarrow> nat \<Rightarrow> nat \<Rightarrow> unit res \<times> 's"
  b_data_ranges :: "'s \<Rightarrow> ((nat \<times> nat) list option) res \<times> 's"
  b_flush :: "'s \<Rightarrow> unit res \<times> 's"
  b_delete :: "'s \<Rightarrow> unit res \<times> 's"
  b_size :: "'s \<Rightarrow> nat res \<times> 's"
  b_etag :: "'s \<Rightarrow> (string option) res \<times> 's"

text \<open>\<open>MAX_PAGE_REQUEST_BYTES\<close>: 4 MiB.\<close>

definition MAX_PAGE_REQUEST_BYTES :: nat where
  "MAX_PAGE_REQUEST_BYTES = 4 * 1024 * 1024"

text \<open>
  \<open>copy_chunk_bytes\<close>; the argument is the parsed value of \<open>UBLK_COPY_CHUNK_BYTES\<close>, if the
  variable is set and parses.
\<close>

definition copy_chunk_bytes :: "nat option \<Rightarrow> nat" where
  "copy_chunk_bytes env =
     (case env of
        Some n \<Rightarrow> min MAX_PAGE_REQUEST_BYTES (max 512 (n div 512 * 512))
      | None \<Rightarrow> MAX_PAGE_REQUEST_BYTES)"

text \<open>The default methods of the trait: \<open>prefetch\<close>, \<open>data_ranges\<close> and \<open>etag\<close>.\<close>

definition default_prefetch ::
  "('s \<Rightarrow> nat \<Rightarrow> nat \<Rightarrow> bytes res \<times> 's) \<Rightarrow> 's \<Rightarrow> nat \<Rightarrow> nat \<Rightarrow> unit res \<times> 's" where
  "default_prefetch rd s off len =
     (case rd s off len of (Inl e, s') \<Rightarrow> (Inl e, s') | (Inr _, s') \<Rightarrow> (Inr (), s'))"

definition default_data_ranges :: "'s \<Rightarrow> ((nat \<times> nat) list option) res \<times> 's" where
  "default_data_ranges s = (Inr None, s)"

definition default_etag :: "'s \<Rightarrow> (string option) res \<times> 's" where
  "default_etag s = (Inr None, s)"

section \<open>Sparseness maps\<close>

text \<open>
  \<open>slice::partition_point\<close>: the number of leading elements that satisfy the predicate, which is
  what its binary search returns on a partitioned slice.
\<close>

definition partition_point :: "('a \<Rightarrow> bool) \<Rightarrow> 'a list \<Rightarrow> nat" where
  "partition_point P xs = length (takeWhile P xs)"

definition range_intersects :: "(nat \<times> nat) list \<Rightarrow> nat \<Rightarrow> nat \<Rightarrow> bool" where
  "range_intersects ranges off len =
     (if len = 0 then False
      else
        let end' = wrapping_add off len;
            idx = partition_point (\<lambda>(start, _). start < end') ranges
        in if idx = 0 then False
           else case ranges ! (idx - 1) of
                  (start, rlen) \<Rightarrow> wrapping_add start rlen > off)"

text \<open>What \<open>data_ranges\<close> promises: sorted by offset, non-overlapping, non-empty, in \<open>u64\<close>.\<close>

definition ranges_ok :: "(nat \<times> nat) list \<Rightarrow> bool" where
  "ranges_ok rs \<longleftrightarrow>
     sorted_wrt (\<lambda>(s, l) (s', l'). s + l \<le> s') rs \<and>
     (\<forall>(s, l) \<in> set rs. 0 < l \<and> s + l < u64_limit)"

section \<open>The default warm-up\<close>

text \<open>
  The scan of \<open>warmup\<close>: the number of warmed and of skipped bytes and the final state. A page
  size of zero never advances, so the loop may not return: its result is an option.
\<close>

partial_function (option) warmup_loop ::
  "('s \<Rightarrow> nat \<Rightarrow> nat \<Rightarrow> unit res \<times> 's) \<Rightarrow> (nat \<times> nat) list option \<Rightarrow> nat \<Rightarrow> nat \<Rightarrow> nat \<Rightarrow>
   's \<Rightarrow> nat \<Rightarrow> nat \<Rightarrow> nat \<Rightarrow> (nat \<times> nat \<times> 's) option" where
  "warmup_loop pf ranges dev page_size limit s off warmed skipped =
     (if \<not> off < limit then Some (warmed, skipped, s)
      else
        (let len = min page_size (dev - off);
             skip = (case ranges of None \<Rightarrow> False | Some rs \<Rightarrow> \<not> range_intersects rs off len)
         in if skip
            then warmup_loop pf ranges dev page_size limit s (off + len) warmed (skipped + len)
            else
              (case pf s off len of
                 (Inl e, s') \<Rightarrow> Some (warmed, skipped, s')
               | (Inr _, s') \<Rightarrow>
                   warmup_loop pf ranges dev page_size limit s' (off + len) (warmed + len) skipped)))"

definition default_warmup ::
  "'s backend \<Rightarrow> 's \<Rightarrow> nat \<Rightarrow> nat \<Rightarrow> nat \<Rightarrow> (nat \<times> nat \<times> 's) option" where
  "default_warmup B s dev page_size limit_bytes =
     (let limit = min limit_bytes dev in
      case b_data_ranges B s of
        (Inr ranges, s') \<Rightarrow> warmup_loop (b_prefetch B) ranges dev page_size limit s' 0 0 0
      | (Inl _, s') \<Rightarrow> warmup_loop (b_prefetch B) None dev page_size limit s' 0 0 0)"

section \<open>The contract\<close>

text \<open>What a client of a lawful backend cannot break: the invariant, the size, and, when it only reads
  and flushes, the content.\<close>

definition harmless :: "('s \<Rightarrow> bytes) \<Rightarrow> ('s \<Rightarrow> bool) \<Rightarrow> bool \<Rightarrow> 's \<Rightarrow> 's \<Rightarrow> bool" where
  "harmless content binv read_only s s' \<longleftrightarrow> binv s' \<and> length (content s') = length (content s) \<and>
     (read_only \<longrightarrow> content s' = content s)"

lemma harmless_trans:
  "harmless content binv ro s s' \<Longrightarrow> harmless content binv ro s' s'' \<Longrightarrow> harmless content binv ro s s''"
  by (auto simp: harmless_def)

text \<open>
  What a caching layer asks of the store below it: requests for a non-empty range of the device.
  A read may come back short. A device that is not provisioned has no content; a failed \<open>create\<close>
  leaves a provisioned device as it was.
\<close>

locale page_store =
  fixes B :: "'s backend"
    and content :: "'s \<Rightarrow> bytes"
    and durable :: "'s \<Rightarrow> bytes"
    and binv :: "'s \<Rightarrow> bool"
  assumes size_aligned: "binv s \<Longrightarrow> 512 dvd length (content s) \<and> length (content s) < u64_limit"
    and page_read: "binv s \<Longrightarrow> 0 < len \<Longrightarrow> off + len \<le> length (content s) \<Longrightarrow> b_read B s off len = (r, s') \<Longrightarrow>
      binv s' \<and> content s' = content s \<and>
      (\<forall>d. r = Inr d \<longrightarrow> length d = len \<longrightarrow> d = segment off len (content s))"
    and page_write: "binv s \<Longrightarrow> d \<noteq> [] \<Longrightarrow> off + length d \<le> length (content s) \<Longrightarrow> b_write B s off d = (u, s') \<Longrightarrow>
      binv s' \<and> (u = Inr () \<longrightarrow> content s' = overwrite off d (content s)) \<and>
      (u \<noteq> Inr () \<longrightarrow> same_outside off (length d) (content s) (content s'))"
    and flush_law: "binv s \<Longrightarrow> b_flush B s = (u, s') \<Longrightarrow>
      binv s' \<and> content s' = content s \<and> (u = Inr () \<longrightarrow> durable s' = content s')"
    and size_law: "binv s \<Longrightarrow> b_size B s = (z, s') \<Longrightarrow>
      binv s' \<and> content s' = content s \<and> (\<forall>n. z = Inr n \<longrightarrow> n = length (content s))"
    and create_law: "binv s \<Longrightarrow> m < u64_limit \<Longrightarrow> b_create B s m = (u, s') \<Longrightarrow>
      binv s' \<and> (u = Inr () \<longrightarrow> length (content s') = m) \<and>
      (u \<noteq> Inr () \<longrightarrow> content s \<noteq> [] \<longrightarrow> content s' = content s)"
    and ranges_law: "binv s \<Longrightarrow> b_data_ranges B s = (rs, s') \<Longrightarrow> binv s' \<and> content s' = content s"
    and etag_law: "binv s \<Longrightarrow> b_etag B s = (t, s') \<Longrightarrow>
      binv s' \<and> content s' = content s \<and> durable s' = durable s"

text \<open>
  The contract of the trait towards its clients: any range, with an error where it is not of the
  device.
\<close>

locale blob_backend = page_store +
  assumes read_law: "binv s \<Longrightarrow> off + len < u64_limit \<Longrightarrow> b_read B s off len = (r, s') \<Longrightarrow>
      binv s' \<and> content s' = content s \<and>
      (\<forall>d. r = Inr d \<longrightarrow> length d = len \<and> d = segment off len (content s))"
    and write_law: "binv s \<Longrightarrow> off + length d < u64_limit \<Longrightarrow> b_write B s off d = (u, s') \<Longrightarrow>
      binv s' \<and>
      (u = Inr () \<longrightarrow> (d = [] \<or> off + length d \<le> length (content s)) \<and>
                     content s' = overwrite off d (content s)) \<and>
      (u \<noteq> Inr () \<longrightarrow> same_outside off (length d) (content s) (content s'))"
    and clear_law: "binv s \<Longrightarrow> off + len < u64_limit \<Longrightarrow> b_clear B s off len = (u, s') \<Longrightarrow>
      binv s' \<and>
      (u = Inr () \<longrightarrow> (len = 0 \<or> off + len \<le> length (content s)) \<and>
                     content s' = overwrite off (zeros len) (content s)) \<and>
      (u \<noteq> Inr () \<longrightarrow> same_outside off len (content s) (content s'))"
    and prefetch_law: "binv s \<Longrightarrow> off + len < u64_limit \<Longrightarrow> b_prefetch B s off len = (u, s') \<Longrightarrow>
      binv s' \<and> content s' = content s"
begin

text \<open>A write that succeeded is what the next successful read of the same range returns.\<close>

lemma read_after_write:
  assumes "binv s" and "off + length d < u64_limit"
    and "b_write B s off d = (Inr (), s')" and "b_read B s' off (length d) = (Inr d', s'')"
  shows "d' = d"
proof -
  from write_law [OF assms(1,2,3)] have w: "binv s'" "d = [] \<or> off + length d \<le> length (content s)"
    "content s' = overwrite off d (content s)" by auto
  from read_law [OF w(1) assms(2,4)] have "d' = segment off (length d) (content s')" by auto
  with w show ?thesis by (auto simp: segment_overwrite_same)
qed

text \<open>A write leaves every byte outside its range as it was, whether it succeeds or not.\<close>

lemma write_frame:
  assumes "binv s" and "off + length d < u64_limit" and "b_write B s off d = (u, s')"
  shows "same_outside off (length d) (content s) (content s')"
  using write_law [OF assms] by (cases "u = Inr ()") (auto intro: same_outside_overwrite)

lemma clear_frame:
  assumes "binv s" and "off + len < u64_limit" and "b_clear B s off len = (u, s')"
  shows "same_outside off len (content s) (content s')"
  using clear_law [OF assms] same_outside_overwrite [of off "zeros len" "content s"]
  by (cases "u = Inr ()") auto

lemma harmless_refl: "binv s \<Longrightarrow> harmless content binv ro s s"
  by (simp add: harmless_def)

lemma harmless_read: "binv s \<Longrightarrow> off + len < u64_limit \<Longrightarrow> b_read B s off len = (r, s') \<Longrightarrow>
    harmless content binv ro s s'"
  using read_law by (simp add: harmless_def)

lemma harmless_flush: "binv s \<Longrightarrow> b_flush B s = (r, s') \<Longrightarrow> harmless content binv ro s s'"
  using flush_law by (simp add: harmless_def)

lemma harmless_write: "binv s \<Longrightarrow> off + length d < u64_limit \<Longrightarrow> b_write B s off d = (r, s') \<Longrightarrow>
    harmless content binv False s s'"
  using write_law [of s off d r s'] write_frame [of s off d r s'] same_outside_length
  unfolding harmless_def by blast

lemma harmless_clear: "binv s \<Longrightarrow> off + len < u64_limit \<Longrightarrow> b_clear B s off len = (r, s') \<Longrightarrow>
    harmless content binv False s s'"
  using clear_law [of s off len r s'] clear_frame [of s off len r s'] same_outside_length
  unfolding harmless_def by blast

text \<open>
  The default warm-up ends when the page size is positive, accounts every byte up to the page
  that covers the limit, and never changes what the device holds.
\<close>

lemma warmup_loop_ends:
  assumes "0 < ps" and "limit \<le> dev" and "dev < u64_limit" and "binv s" and "off \<le> dev"
  shows "\<exists>w k s'. warmup_loop (b_prefetch B) ranges dev ps limit s off warmed skipped = Some (w, k, s') \<and>
    binv s' \<and> content s' = content s \<and> w + k + off \<le> warmed + skipped + dev"
  using assms(4,5)
proof (induction "limit - off" arbitrary: off s warmed skipped rule: less_induct)
  case less
  show ?case
  proof (cases "off < limit")
    case False
    with less.prems show ?thesis by (simp add: warmup_loop.simps)
  next
    case True
    define len where "len = min ps (dev - off)"
    have len: "0 < len" "off + len \<le> dev" using True assms(1,2) by (auto simp: len_def)
    then have dec: "limit - (off + len) < limit - off" using True by simp
    show ?thesis
    proof (cases "case ranges of None \<Rightarrow> False | Some rs \<Rightarrow> \<not> range_intersects rs off len")
      case True
      have "warmup_loop (b_prefetch B) ranges dev ps limit s off warmed skipped =
          warmup_loop (b_prefetch B) ranges dev ps limit s (off + len) warmed (skipped + len)"
        using True \<open>off < limit\<close> by (subst warmup_loop.simps) (simp add: Let_def len_def [symmetric])
      moreover obtain w k s' where
        "warmup_loop (b_prefetch B) ranges dev ps limit s (off + len) warmed (skipped + len) = Some (w, k, s')"
        "binv s'" "content s' = content s" "w + k + (off + len) \<le> warmed + (skipped + len) + dev"
        using less.hyps [OF dec less.prems(1) len(2), of warmed "skipped + len"] by blast
      ultimately show ?thesis by auto
    next
      case False
      obtain u s1 where p: "b_prefetch B s off len = (u, s1)" by fastforce
      have s1: "binv s1" "content s1 = content s"
        using prefetch_law [OF less.prems(1) _ p] len(2) assms(3) by auto
      show ?thesis
      proof (cases u)
        case (Inl e)
        have "warmup_loop (b_prefetch B) ranges dev ps limit s off warmed skipped = Some (warmed, skipped, s1)"
          using False \<open>off < limit\<close> p Inl by (subst warmup_loop.simps) (simp add: Let_def len_def [symmetric])
        with s1 less.prems show ?thesis by simp
      next
        case (Inr x)
        have "warmup_loop (b_prefetch B) ranges dev ps limit s off warmed skipped =
            warmup_loop (b_prefetch B) ranges dev ps limit s1 (off + len) (warmed + len) skipped"
          using False \<open>off < limit\<close> p Inr by (subst warmup_loop.simps) (simp add: Let_def len_def [symmetric])
        moreover obtain w k s' where
          "warmup_loop (b_prefetch B) ranges dev ps limit s1 (off + len) (warmed + len) skipped = Some (w, k, s')"
          "binv s'" "content s' = content s1" "w + k + (off + len) \<le> (warmed + len) + skipped + dev"
          using less.hyps [OF dec s1(1) len(2), of "warmed + len" skipped] by blast
        ultimately show ?thesis using s1 by auto
      qed
    qed
  qed
qed

lemma default_warmup_ends:
  assumes "0 < ps" and "dev < u64_limit" and "binv s"
  shows "\<exists>w k s'. default_warmup B s dev ps limit_bytes = Some (w, k, s') \<and> binv s' \<and>
    content s' = content s \<and> w + k \<le> dev"
proof -
  obtain rs s1 where r: "b_data_ranges B s = (rs, s1)" by fastforce
  have s1: "binv s1" "content s1 = content s" using ranges_law [OF assms(3) r] by auto
  have "\<exists>w k s'. warmup_loop (b_prefetch B) ranges dev ps (min limit_bytes dev) s1 0 0 0 = Some (w, k, s') \<and>
      binv s' \<and> content s' = content s1 \<and> w + k \<le> dev" for ranges
    using warmup_loop_ends [OF assms(1) _ assms(2) s1(1), of "min limit_bytes dev" 0 ranges 0 0] by auto
  with r s1 show ?thesis by (cases rs) (simp_all add: default_warmup_def Let_def)
qed

end

locale reliable_backend = blob_backend +
  assumes read_ok: "binv s \<Longrightarrow> 512 dvd off \<Longrightarrow> 512 dvd len \<Longrightarrow> off + len \<le> length (content s) \<Longrightarrow>
      is_ok (fst (b_read B s off len))"
    and write_ok: "binv s \<Longrightarrow> 512 dvd off \<Longrightarrow> 512 dvd length d \<Longrightarrow> off + length d \<le> length (content s) \<Longrightarrow>
      is_ok (fst (b_write B s off d))"
    and clear_ok: "binv s \<Longrightarrow> 512 dvd off \<Longrightarrow> 512 dvd len \<Longrightarrow> off + len \<le> length (content s) \<Longrightarrow>
      is_ok (fst (b_clear B s off len))"
    and flush_ok: "binv s \<Longrightarrow> is_ok (fst (b_flush B s))"
    and size_ok: "binv s \<Longrightarrow> is_ok (fst (b_size B s))"
begin

text \<open>
  On a reliable backend a write followed by a read of the same range returns the data, and both
  succeed.
\<close>

lemma write_read_roundtrip:
  assumes "binv s" "512 dvd off" "512 dvd length d" "off + length d \<le> length (content s)"
  shows "\<exists>s' s''. b_write B s off d = (Inr (), s') \<and> b_read B s' off (length d) = (Inr d, s'')"
proof -
  have lim: "off + length d < u64_limit" using size_aligned [OF assms(1)] assms(4) by simp
  obtain u s' where w: "b_write B s off d = (u, s')" by fastforce
  with write_ok [OF assms] have u: "u = Inr ()" by (auto simp: is_ok_ex)
  from write_law [OF assms(1) lim w] u assms(4)
  have s': "binv s'" "length (content s') = length (content s)" by (auto simp: buf_simps)
  obtain r2 s'' where rd: "b_read B s' off (length d) = (r2, s'')" by fastforce
  from read_ok [OF s'(1) assms(2,3)] s' assms(4) rd obtain d' where "r2 = Inr d'"
    by (auto simp: is_ok_ex)
  with read_after_write [OF assms(1) lim] w u rd show ?thesis by auto
qed

end

section \<open>Facts about the free-standing functions\<close>

lemma partition_point_prefix:
  "i < partition_point P xs \<Longrightarrow> i < length xs \<and> P (xs ! i)"
  unfolding partition_point_def
  by (metis length_takeWhile_le less_le_trans nth_mem set_takeWhileD takeWhile_nth)

lemma partition_point_stop:
  "partition_point P xs < length xs \<Longrightarrow> \<not> P (xs ! partition_point P xs)"
  unfolding partition_point_def by (rule nth_length_takeWhile)

lemma partition_point_le: "partition_point P xs \<le> length xs"
  by (simp add: partition_point_def length_takeWhile_le)

text \<open>Later ranges end later: what makes the last candidate the only one to look at.\<close>

lemma ranges_ok_ends:
  assumes "ranges_ok rs" and "i \<le> j" and "j < length rs"
  shows "fst (rs ! i) \<le> fst (rs ! j) \<and> fst (rs ! i) + snd (rs ! i) \<le> fst (rs ! j) + snd (rs ! j)"
proof (cases "i = j")
  case True
  then show ?thesis by simp
next
  case False
  with assms have "fst (rs ! i) + snd (rs ! i) \<le> fst (rs ! j)"
    by (auto simp: ranges_ok_def sorted_wrt_iff_nth_less case_prod_beta)
  then show ?thesis by simp
qed

lemma range_intersects_iff_aux:
  assumes ok: "ranges_ok rs" and sum: "off + len < u64_limit" and len: "0 < len"
  defines "k \<equiv> partition_point (\<lambda>(start, _). start < off + len) rs"
  shows "(\<exists>(s, l) \<in> set rs. s < off + len \<and> off < s + l) \<longleftrightarrow>
         0 < k \<and> off < fst (rs ! (k - 1)) + snd (rs ! (k - 1))"
proof
  assume "\<exists>(s, l) \<in> set rs. s < off + len \<and> off < s + l"
  then obtain i where i: "i < length rs" "fst (rs ! i) < off + len"
    "off < fst (rs ! i) + snd (rs ! i)"
    by (auto simp: in_set_conv_nth)
  have "i < k"
  proof (rule ccontr)
    assume "\<not> i < k"
    then have "k \<le> i" by simp
    with i have "k < length rs" by simp
    then have "\<not> fst (rs ! k) < off + len"
      using partition_point_stop [of "\<lambda>(start, _). start < off + len" rs]
      by (simp add: k_def case_prod_beta)
    moreover have "fst (rs ! k) \<le> fst (rs ! i)"
      using ranges_ok_ends [OF ok \<open>k \<le> i\<close> i(1)] by simp
    ultimately show False using i(2) by simp
  qed
  moreover have "k \<le> length rs" by (simp add: k_def partition_point_le)
  ultimately have "i \<le> k - 1" "k - 1 < length rs" "0 < k" by auto
  with ranges_ok_ends [OF ok \<open>i \<le> k - 1\<close>] i(3)
  show "0 < k \<and> off < fst (rs ! (k - 1)) + snd (rs ! (k - 1))" by fastforce
next
  assume a: "0 < k \<and> off < fst (rs ! (k - 1)) + snd (rs ! (k - 1))"
  then have "k - 1 < k" by simp
  from partition_point_prefix [OF this [unfolded k_def]]
  have "k - 1 < length rs" "fst (rs ! (k - 1)) < off + len"
    by (auto simp: k_def case_prod_beta)
  with a show "\<exists>(s, l) \<in> set rs. s < off + len \<and> off < s + l"
    by (auto simp: case_prod_beta intro!: bexI [of _ "rs ! (k - 1)"])
qed

lemma range_intersects_iff:
  assumes ok: "ranges_ok rs" and sum: "off + len < u64_limit"
  shows "range_intersects rs off len \<longleftrightarrow>
         (\<exists>(s, l) \<in> set rs. \<exists>x. s \<le> x \<and> x < s + l \<and> off \<le> x \<and> x < off + len)"
proof (cases "len = 0")
  case True
  then show ?thesis by (auto simp: range_intersects_def)
next
  case False
  define k where "k = partition_point (\<lambda>(start, _). start < off + len) rs"
  have "k - 1 < length rs" if "0 < k"
    using partition_point_prefix [of "k - 1" "\<lambda>(start, _). start < off + len" rs] that
    by (simp add: k_def)
  then have wrap: "wrapping_add (fst (rs ! (k - 1))) (snd (rs ! (k - 1))) =
      fst (rs ! (k - 1)) + snd (rs ! (k - 1))" if "0 < k"
    using ok that nth_mem [of "k - 1" rs]
    by (auto simp: ranges_ok_def case_prod_beta intro!: wrapping_add_small)
  have "range_intersects rs off len \<longleftrightarrow>
      0 < k \<and> off < fst (rs ! (k - 1)) + snd (rs ! (k - 1))"
    using False sum wrap
    by (auto simp: range_intersects_def wrapping_add_small Let_def case_prod_beta k_def)
  also have "\<dots> \<longleftrightarrow> (\<exists>(s, l) \<in> set rs. s < off + len \<and> off < s + l)"
    unfolding k_def using range_intersects_iff_aux [OF ok sum] False by simp
  also have "\<dots> \<longleftrightarrow>
      (\<exists>(s, l) \<in> set rs. \<exists>x. s \<le> x \<and> x < s + l \<and> off \<le> x \<and> x < off + len)"
  proof (intro bex_cong refl)
    fix p assume "p \<in> set rs"
    then have "0 < snd p" using ok by (auto simp: ranges_ok_def)
    then show "(case p of (s, l) \<Rightarrow> s < off + len \<and> off < s + l) \<longleftrightarrow>
        (case p of (s, l) \<Rightarrow> \<exists>x. s \<le> x \<and> x < s + l \<and> off \<le> x \<and> x < off + len)"
      using False by (auto simp: case_prod_beta intro: exI [of _ "max (fst p) off"])
  qed
  finally show ?thesis .
qed

lemma copy_chunk_bytes_bounds:
  "512 dvd copy_chunk_bytes env \<and> 512 \<le> copy_chunk_bytes env \<and>
   copy_chunk_bytes env \<le> MAX_PAGE_REQUEST_BYTES"
proof -
  have "(512::nat) dvd 4 * 1024 * 1024" by simp
  then show ?thesis
    by (auto simp: copy_chunk_bytes_def MAX_PAGE_REQUEST_BYTES_def min_def max_def
        split: option.splits)
qed

end
