(* ===== verification/Cache_Lru.thy ===== *)
theory Cache_Lru
  imports Ublk_Prelude
begin

text \<open>
  The recency bookkeeping of \<open>backend/cache_lru.rs\<close>, shared by the in-memory buffer and the
  local-disk cache: a clock, the stamp of every present page, and the evictable (clean) pages
  ordered by stamp. The invariant ties the two indexes together; on top of it, eviction takes
  the least recently used clean page and never a pinned or protected one.
\<close>

record lru =
  lru_seq :: nat
  by_page :: "nat bmap"
  evictable :: "nat bmap"

definition lru_default :: lru where
  "lru_default = \<lparr>lru_seq = 0, by_page = [], evictable = []\<rparr>"

definition lru_contains :: "lru \<Rightarrow> nat \<Rightarrow> bool" where
  "lru_contains l page = bm_contains (by_page l) page"

definition touch :: "lru \<Rightarrow> nat \<Rightarrow> bool \<Rightarrow> lru" where
  "touch l page clean =
     (let ev = (case bm_get (by_page l) page of
                  Some old \<Rightarrow> bm_remove old (evictable l)
                | None \<Rightarrow> evictable l);
          s = lru_seq l + 1
      in l\<lparr>lru_seq := s,
           by_page := bm_insert page s (by_page l),
           evictable := (if clean then bm_insert s page ev else ev)\<rparr>)"

definition pop_lru :: "lru \<Rightarrow> nat option \<Rightarrow> nat option \<times> lru" where
  "pop_lru l protect =
     (case List.find (\<lambda>(_, page). Some page \<noteq> protect) (evictable l) of
        None \<Rightarrow> (None, l)
      | Some (key, _) \<Rightarrow>
          (case bm_get (evictable l) key of
             None \<Rightarrow> (None, l)
           | Some page \<Rightarrow>
               (Some page,
                l\<lparr>evictable := bm_remove key (evictable l),
                  by_page := bm_remove page (by_page l)\<rparr>)))"

definition lru_clear :: "lru \<Rightarrow> lru" where
  "lru_clear l = l\<lparr>lru_seq := 0, by_page := [], evictable := []\<rparr>"

section \<open>Invariant\<close>

definition lru_inv :: "lru \<Rightarrow> bool" where
  "lru_inv l \<longleftrightarrow>
     bm_wf (by_page l) \<and> bm_wf (evictable l) \<and>
     (\<forall>p s. map_of (by_page l) p = Some s \<longrightarrow> s \<le> lru_seq l) \<and>
     (\<forall>p q s. map_of (by_page l) p = Some s \<longrightarrow> map_of (by_page l) q = Some s \<longrightarrow> p = q) \<and>
     (\<forall>s p. map_of (evictable l) s = Some p \<longrightarrow> map_of (by_page l) p = Some s)"

text \<open>The pages a pop may return.\<close>

definition evictable_pages :: "lru \<Rightarrow> nat set" where
  "evictable_pages l = snd ` set (evictable l)"

lemma lru_inv_default [simp]: "lru_inv lru_default"
  by (simp add: lru_inv_def lru_default_def)

lemma lru_inv_clear [simp]: "lru_inv (lru_clear l)"
  by (simp add: lru_inv_def lru_clear_def)

lemma evictable_pages_iff:
  assumes "lru_inv l"
  shows "p \<in> evictable_pages l \<longleftrightarrow> (\<exists>s. map_of (evictable l) s = Some p)"
proof -
  from assms have "bm_wf (evictable l)" by (simp add: lru_inv_def)
  then show ?thesis
    by (force simp: evictable_pages_def bm_get_iff_mem image_iff)
qed

lemma evictable_contains: "lru_inv l \<Longrightarrow> p \<in> evictable_pages l \<Longrightarrow> lru_contains l p"
  by (auto simp: evictable_pages_iff lru_contains_def bm_contains_def lru_inv_def)

lemma touch_inv:
  assumes "lru_inv l"
  shows "lru_inv (touch l page clean)"
proof -
  have wf: "bm_wf (by_page l)" "bm_wf (evictable l)"
    and le: "\<And>p s. map_of (by_page l) p = Some s \<Longrightarrow> s \<le> lru_seq l"
    and inj: "\<And>p q s. map_of (by_page l) p = Some s \<Longrightarrow> map_of (by_page l) q = Some s \<Longrightarrow> p = q"
    and ev: "\<And>s p. map_of (evictable l) s = Some p \<Longrightarrow> map_of (by_page l) p = Some s"
    using assms unfolding lru_inv_def by blast+
  define ev' where "ev' = (case map_of (by_page l) page of
      Some old \<Rightarrow> bm_remove old (evictable l) | None \<Rightarrow> evictable l)"
  have ev'_wf: "bm_wf ev'"
    using wf by (auto simp: ev'_def bmap_simps split: option.splits)
  have ev'_get: "map_of ev' s = Some p \<Longrightarrow> p \<noteq> page \<and> map_of (by_page l) p = Some s" for s p
    using ev by (auto simp: ev'_def bmap_simps split: option.splits if_splits)
  have stamp: "map_of (by_page l) p = Some (Suc (lru_seq l)) \<Longrightarrow> False" for p
    using le [of p "Suc (lru_seq l)"] by simp
  show ?thesis
    using wf le inj ev'_wf ev'_get stamp
    by (auto simp: lru_inv_def touch_def bmap_simps ev'_def [symmetric] Let_def
        split: if_splits intro: le_SucI)
qed

lemma touch_contains: "lru_contains (touch l page clean) p \<longleftrightarrow> p = page \<or> lru_contains l p"
  by (auto simp: lru_contains_def touch_def Let_def bmap_simps)

lemma touch_evictable:
  assumes "lru_inv l"
  shows "evictable_pages (touch l page clean) =
         (if clean then insert page (evictable_pages l) else evictable_pages l - {page})"
proof -
  have inv': "lru_inv (touch l page clean)" using assms by (rule touch_inv)
  have le: "\<And>p s. map_of (by_page l) p = Some s \<Longrightarrow> s \<le> lru_seq l"
    and ev: "\<And>s p. map_of (evictable l) s = Some p \<Longrightarrow> map_of (by_page l) p = Some s"
    and inj: "\<And>p q s. map_of (by_page l) p = Some s \<Longrightarrow> map_of (by_page l) q = Some s \<Longrightarrow> p = q"
    using assms unfolding lru_inv_def by blast+
  have fresh: "map_of (evictable l) (Suc (lru_seq l)) = None"
    using ev le by (metis Suc_n_not_le_n not_None_eq)
  define ev' where "ev' = (case map_of (by_page l) page of
      Some old \<Rightarrow> bm_remove old (evictable l) | None \<Rightarrow> evictable l)"
  have ev': "map_of ev' s = Some p \<longleftrightarrow> p \<noteq> page \<and> map_of (evictable l) s = Some p" for s p
    using ev inj by (auto simp: ev'_def bmap_simps split: option.splits)
  have new: "map_of (evictable (touch l page clean)) s =
      (if clean \<and> s = Suc (lru_seq l) then Some page else map_of ev' s)" for s
    by (simp add: touch_def Let_def bmap_simps ev'_def)
  have ev'_fresh: "map_of ev' (Suc (lru_seq l)) = None"
    using ev' fresh by (metis not_None_eq)
  have "p \<in> evictable_pages (touch l page clean) \<longleftrightarrow>
        p = page \<and> clean \<or> p \<noteq> page \<and> p \<in> evictable_pages l" for p
    unfolding evictable_pages_iff [OF inv'] evictable_pages_iff [OF assms] new
  proof (cases clean)
    case False
    then show "(\<exists>s. (if clean \<and> s = Suc (lru_seq l) then Some page else map_of ev' s) = Some p) \<longleftrightarrow>
        p = page \<and> clean \<or> p \<noteq> page \<and> (\<exists>s. map_of (evictable l) s = Some p)"
      by (simp add: ev')
  next
    case True
    have "(\<exists>s. (if s = Suc (lru_seq l) then Some page else map_of ev' s) = Some p) \<longleftrightarrow>
        p = page \<or> (\<exists>s. map_of ev' s = Some p)"
      using ev'_fresh by (metis option.distinct(1) option.inject)
    with True show "(\<exists>s. (if clean \<and> s = Suc (lru_seq l) then Some page else map_of ev' s) = Some p) \<longleftrightarrow>
        p = page \<and> clean \<or> p \<noteq> page \<and> (\<exists>s. map_of (evictable l) s = Some p)"
      by (auto simp: ev')
  qed
  then have "\<And>p. p \<in> evictable_pages (touch l page clean) \<longleftrightarrow>
      p \<in> (if clean then insert page (evictable_pages l) else evictable_pages l - {page})"
    by (cases clean) (simp_all add: conj_commute, blast)
  then show ?thesis by (rule set_eqI)
qed

section \<open>Eviction\<close>

lemma pop_lru_None:
  assumes "lru_inv l" and "pop_lru l protect = (None, l')"
  shows "l' = l \<and> (\<forall>p \<in> evictable_pages l. Some p = protect)"
proof -
  from assms(1) have wf: "bm_wf (evictable l)" by (simp add: lru_inv_def)
  show ?thesis
  proof (cases "List.find (\<lambda>(_, page). Some page \<noteq> protect) (evictable l)")
    case None
    with assms(2) show ?thesis
      by (auto simp: pop_lru_def find_None_iff evictable_pages_def)
  next
    case (Some kp)
    obtain k p where kp: "kp = (k, p)" by (cases kp)
    from Some kp have "(k, p) \<in> set (evictable l)"
      by (auto simp: find_Some_iff) (metis nth_mem)
    with wf have "map_of (evictable l) k = Some p" by (simp add: bm_get_iff_mem)
    with Some kp assms(2) show ?thesis by (simp add: pop_lru_def)
  qed
qed

text \<open>
  A successful pop: the page was evictable and is not the protected one, it has the smallest
  stamp of all evictable unprotected pages, and only this page leaves the bookkeeping.
\<close>

lemma pop_lru_Some:
  assumes "lru_inv l" and "pop_lru l protect = (Some page, l')"
  shows "page \<in> evictable_pages l \<and> Some page \<noteq> protect \<and>
    (\<exists>key. map_of (by_page l) page = Some key \<and>
       l' = l\<lparr>evictable := bm_remove key (evictable l), by_page := bm_remove page (by_page l)\<rparr> \<and>
       (\<forall>q s. q \<in> evictable_pages l \<longrightarrow> Some q \<noteq> protect \<longrightarrow> map_of (by_page l) q = Some s \<longrightarrow>
              key \<le> s))"
proof -
  from assms(1) have wf: "bm_wf (evictable l)"
    and ev: "\<And>s p. map_of (evictable l) s = Some p \<Longrightarrow> map_of (by_page l) p = Some s"
    unfolding lru_inv_def by blast+
  from assms(2) obtain key p where
    f: "List.find (\<lambda>(_, page). Some page \<noteq> protect) (evictable l) = Some (key, p)"
    and l': "map_of (evictable l) key = Some page"
      "l' = l\<lparr>evictable := bm_remove key (evictable l), by_page := bm_remove page (by_page l)\<rparr>"
    by (auto simp: pop_lru_def split: option.splits prod.splits)
  from f obtain i where "i < length (evictable l)" "(key, p) = evictable l ! i"
    "Some (snd (evictable l ! i)) \<noteq> protect" "\<forall>j < i. Some (snd (evictable l ! j)) = protect"
    unfolding find_Some_iff case_prod_beta by blast
  then have i: "i < length (evictable l)" "evictable l ! i = (key, p)" "Some p \<noteq> protect"
    "\<forall>j < i. Some (snd (evictable l ! j)) = protect"
    by (metis snd_conv)+
  from i wf have "map_of (evictable l) key = Some p"
    by (metis bm_get_iff_mem nth_mem)
  with l'(1) have p: "p = page" by simp
  have least: "key \<le> s"
    if q: "q \<in> evictable_pages l" "Some q \<noteq> protect" "map_of (by_page l) q = Some s" for q s
  proof -
    from q(1) assms(1) obtain s' where s': "map_of (evictable l) s' = Some q"
      by (auto simp: evictable_pages_iff)
    with ev q(3) have "s' = s" by fastforce
    with s' wf obtain j where j: "j < length (evictable l)" "evictable l ! j = (s, q)"
      by (auto simp: bm_get_iff_mem in_set_conv_nth)
    have "i \<le> j"
    proof (rule ccontr)
      assume "\<not> i \<le> j"
      with i(4) have "Some (snd (evictable l ! j)) = protect" by simp
      with j q(2) show False by simp
    qed
    moreover have "key < s" if "i < j"
      using wf j i(2) that sorted_wrt_nth_less [of "(<)" "map fst (evictable l)" i j]
      by (simp add: bm_wf_def)
    moreover have "key = s" if "i = j"
      using i(2) j(2) that by simp
    ultimately show ?thesis by linarith
  qed
  have "page \<in> evictable_pages l"
    using l'(1) assms(1) by (auto simp: evictable_pages_iff)
  moreover have "map_of (by_page l) page = Some key" using ev l'(1) by simp
  ultimately show ?thesis using i(3) p l'(2) least by blast
qed

lemma pop_lru_inv: "lru_inv l \<Longrightarrow> pop_lru l protect = (r, l') \<Longrightarrow> lru_inv l'"
proof (cases r)
  case None
  assume "lru_inv l" "pop_lru l protect = (r, l')"
  with None pop_lru_None show ?thesis by metis
next
  case (Some page)
  assume inv: "lru_inv l" and p: "pop_lru l protect = (r, l')"
  with Some pop_lru_Some obtain key where k: "map_of (by_page l) page = Some key"
    "l' = l\<lparr>evictable := bm_remove key (evictable l), by_page := bm_remove page (by_page l)\<rparr>"
    by metis
  with inv show ?thesis
    by (auto simp: lru_inv_def bmap_simps split: if_splits)
qed

lemma pop_lru_contains:
  "lru_inv l \<Longrightarrow> pop_lru l protect = (Some page, l') \<Longrightarrow>
   lru_contains l' p \<longleftrightarrow> p \<noteq> page \<and> lru_contains l p"
  using pop_lru_Some [of l protect page l'] by (auto simp: lru_contains_def bmap_simps)

lemma pop_lru_evictable:
  assumes "lru_inv l" and "pop_lru l protect = (Some page, l')"
  shows "evictable_pages l' = evictable_pages l - {page}"
proof -
  have inv': "lru_inv l'" using assms by (rule pop_lru_inv)
  obtain key where k: "map_of (by_page l) page = Some key"
    "l' = l\<lparr>evictable := bm_remove key (evictable l), by_page := bm_remove page (by_page l)\<rparr>"
    using pop_lru_Some [OF assms] by blast
  have ev: "\<And>s p. map_of (evictable l) s = Some p \<Longrightarrow> map_of (by_page l) p = Some s"
    and inj: "\<And>p q s. map_of (by_page l) p = Some s \<Longrightarrow> map_of (by_page l) q = Some s \<Longrightarrow> p = q"
    using assms(1) unfolding lru_inv_def by blast+
  have "p \<in> evictable_pages l' \<longleftrightarrow> p \<in> evictable_pages l \<and> p \<noteq> page" for p
    unfolding evictable_pages_iff [OF inv'] evictable_pages_iff [OF assms(1)]
    using k ev inj by (auto simp: bmap_simps) (metis option.inject)
  then show ?thesis by auto
qed

lemma pop_lru_shrinks:
  "pop_lru l protect = (Some page, l') \<Longrightarrow> length (evictable l') < length (evictable l)"
  by (auto simp: pop_lru_def bm_contains_def split: option.splits prod.splits
      intro!: length_bm_remove_contains)

end
