(* ===== verification/Buffered.thy ===== *)
theory Buffered
  imports Blob_Backend Cache_Lru
begin

text \<open>
  The write-back buffer of \<open>backend/buffered.rs\<close>: pages of the device held in memory, dirty
  pages pinned until flushed, clean pages evicted by recency. This theory models every operation
  as it runs alone, one after the other. The state
  of the layer is the buffer state, the state of the layer below, and the clock the timestamps
  come from. The device a client sees is the resident pages laid over the content below
  (\<open>overlay\<close>).
\<close>

section \<open>State and configuration\<close>

record buf_config =
  page_size :: nat
  max_dirty_pages :: nat
  max_cached_pages :: nat
  idle_flush_secs :: nat
  force_flush_timeout_secs :: nat
  flush_io_timeout_secs :: nat
  flush_concurrency :: nat

definition buf_config_default :: buf_config where
  "buf_config_default =
     \<lparr>page_size = 4 * 1024 * 1024, max_dirty_pages = 64, max_cached_pages = 256,
      idle_flush_secs = 15, force_flush_timeout_secs = 600, flush_io_timeout_secs = 0,
      flush_concurrency = 16\<rparr>"

record page =
  pg_data :: bytes
  pg_dirty :: bool
  pg_seq :: nat

record buf_state =
  bs_pages :: "page bmap"
  bs_lru :: lru
  bs_seq_counter :: nat
  bs_dev_size :: nat
  bs_last_write :: "nat option"
  bs_last_flush :: "nat option"

text \<open>
  Besides the two states, what the environment contributes: the clock, and how many seconds each
  of the coming page uploads takes (none listed: no time at all).
\<close>

record 's buffered =
  bf_inner :: 's
  bf_state :: buf_state
  bf_clock :: nat
  bf_upload_secs :: "nat list"

definition buf_state_init :: buf_state where
  "buf_state_init =
     \<lparr>bs_pages = [], bs_lru = lru_default, bs_seq_counter = 0, bs_dev_size = 0,
      bs_last_write = None, bs_last_flush = None\<rparr>"

definition buffered_new :: "'s \<Rightarrow> buf_config \<Rightarrow> nat \<Rightarrow> nat list \<Rightarrow> 's buffered res" where
  "buffered_new inner cfg now secs =
     (if page_size cfg < 512 \<or> \<not> is_multiple_of (page_size cfg) 512 then Inl BadConfig
      else if max_dirty_pages cfg = 0 then Inl BadConfig
      else if max_cached_pages cfg \<noteq> 0 \<and> max_cached_pages cfg < max_dirty_pages cfg then Inl BadConfig
      else Inr \<lparr>bf_inner = inner, bf_state = buf_state_init, bf_clock = now,
                 bf_upload_secs = secs\<rparr>)"

section \<open>Operations\<close>

definition buf_dev_size :: "'s backend \<Rightarrow> 's buffered \<Rightarrow> nat res \<times> 's buffered" where
  "buf_dev_size B s =
     (if bs_dev_size (bf_state s) \<noteq> 0 then (Inr (bs_dev_size (bf_state s)), s)
      else
        (case b_size B (bf_inner s) of
           (Inl e, i') \<Rightarrow> (Inl e, s\<lparr>bf_inner := i'\<rparr>)
         | (Inr sz, i') \<Rightarrow>
             let st = bf_state s;
                 st' = (if bs_dev_size st = 0 then st\<lparr>bs_dev_size := sz\<rparr> else st)
             in (Inr (bs_dev_size st'), s\<lparr>bf_inner := i', bf_state := st'\<rparr>)))"

text \<open>The eviction loop of \<open>enforce_cache_limit\<close>: it ends because every pop shrinks the index.\<close>

function evict_loop ::
  "nat \<Rightarrow> nat option \<Rightarrow> page bmap \<Rightarrow> lru \<Rightarrow> page bmap \<times> lru" where
  "evict_loop mx protect ps l =
     (if mx < length ps
      then (case pop_lru l protect of
              (None, l') \<Rightarrow> (ps, l')
            | (Some victim, l') \<Rightarrow> evict_loop mx protect (bm_remove victim ps) l')
      else (ps, l))"
  by pat_completeness auto
termination
  by (relation "measure (\<lambda>(mx, protect, ps, l). length (evictable l))")
     (simp_all, metis pop_lru_shrinks)

declare evict_loop.simps [simp del]

definition enforce_cache_limit :: "buf_config \<Rightarrow> buf_state \<Rightarrow> nat option \<Rightarrow> buf_state" where
  "enforce_cache_limit cfg st protect =
     (if max_cached_pages cfg = 0 then st
      else (case evict_loop (max_cached_pages cfg) protect (bs_pages st) (bs_lru st) of
              (ps, l) \<Rightarrow> st\<lparr>bs_pages := ps, bs_lru := l\<rparr>))"

text \<open>The locked tail of \<open>ensure_resident\<close>: insert the loaded bytes unless the page appeared.\<close>

definition insert_loaded :: "buf_config \<Rightarrow> buf_state \<Rightarrow> nat \<Rightarrow> bytes \<Rightarrow> buf_state" where
  "insert_loaded cfg st idx buf =
     (if bm_contains (bs_pages st) idx then st
      else
        let sq = bs_seq_counter st + 1;
            st1 = st\<lparr>bs_seq_counter := sq,
                     bs_pages := bm_insert idx \<lparr>pg_data = buf, pg_dirty = False, pg_seq = sq\<rparr>
                                   (bs_pages st),
                     bs_lru := touch (bs_lru st) idx True\<rparr>
        in enforce_cache_limit cfg st1 (Some idx))"

definition ensure_resident ::
  "buf_config \<Rightarrow> 's backend \<Rightarrow> nat \<Rightarrow> nat \<Rightarrow> 's buffered \<Rightarrow> unit res \<times> 's buffered" where
  "ensure_resident cfg B idx dev s =
     (if bm_contains (bs_pages (bf_state s)) idx then (Inr (), s)
      else
        let off = idx * page_size cfg;
            read_len = (if 0 < dev then min (dev - off) (page_size cfg) else 0)
        in if 0 < read_len
           then (case b_read B (bf_inner s) off read_len of
                   (Inl e, i') \<Rightarrow> (Inl e, s\<lparr>bf_inner := i'\<rparr>)
                 | (Inr data, i') \<Rightarrow>
                     if length data \<noteq> read_len then (Inl ShortRead, s\<lparr>bf_inner := i'\<rparr>)
                     else (Inr (), s\<lparr>bf_inner := i',
                             bf_state := insert_loaded cfg (bf_state s) idx
                               (overwrite 0 data (zeros (page_size cfg)))\<rparr>))
           else (Inr (), s\<lparr>bf_state := insert_loaded cfg (bf_state s) idx (zeros (page_size cfg))\<rparr>))"

text \<open>The locked first part of a page flush: sequence number, offset, length and bytes.\<close>

definition flush_snapshot ::
  "buf_config \<Rightarrow> buf_state \<Rightarrow> nat \<Rightarrow> (nat \<times> nat \<times> nat \<times> bytes) option" where
  "flush_snapshot cfg st idx =
     (case bm_get (bs_pages st) idx of
        Some p \<Rightarrow>
          if pg_dirty p
          then let off = idx * page_size cfg;
                   write_len = (if 0 < bs_dev_size st
                                then min (length (pg_data p)) (bs_dev_size st - off)
                                else length (pg_data p))
               in Some (pg_seq p, off, write_len, pg_data p)
          else None
      | None \<Rightarrow> None)"

text \<open>The locked last part: clean only if the page was not written again in between.\<close>

definition flush_mark :: "buf_state \<Rightarrow> nat \<Rightarrow> nat \<Rightarrow> buf_state" where
  "flush_mark st idx sq =
     (case bm_get (bs_pages st) idx of
        Some p \<Rightarrow>
          if pg_seq p = sq
          then st\<lparr>bs_pages := bm_insert idx (p\<lparr>pg_dirty := False\<rparr>) (bs_pages st),
                  bs_lru := touch (bs_lru st) idx True\<rparr>
          else st
      | None \<Rightarrow> st)"

text \<open>An upload takes its time.\<close>

definition upload_time :: "'s buffered \<Rightarrow> nat" where
  "upload_time s = (case bf_upload_secs s of [] \<Rightarrow> 0 | t # _ \<Rightarrow> t)"

definition pass_time :: "'s buffered \<Rightarrow> 's buffered" where
  "pass_time s = s\<lparr>bf_clock := bf_clock s + upload_time s, bf_upload_secs := tl (bf_upload_secs s)\<rparr>"

text \<open>
  One page of \<open>flush_indices\<close>, and the loop over the pages. \<open>elapsed\<close> counts the seconds
  since the flush began: when they exceed \<open>flush_io_timeout_secs\<close> the flush is abandoned, the
  page whose upload was under way staying dirty. The pages run one after the other here, which is
  the code at \<open>flush_concurrency\<close> 1.
\<close>

definition flush_page ::
  "buf_config \<Rightarrow> 's backend \<Rightarrow> nat \<Rightarrow> nat \<Rightarrow> 's buffered \<Rightarrow> nat res \<times> 's buffered" where
  "flush_page cfg B elapsed idx s =
     (case flush_snapshot cfg (bf_state s) idx of
        None \<Rightarrow> (Inr elapsed, s)
      | Some (sq, off, write_len, data) \<Rightarrow>
          if 0 < write_len
          then
            (let elapsed' = elapsed + upload_time s; s' = pass_time s in
             case b_write B (bf_inner s') off (take write_len data) of
               (Inl e, i') \<Rightarrow> (Inl e, s'\<lparr>bf_inner := i'\<rparr>)
             | (Inr _, i') \<Rightarrow>
                 if 0 < flush_io_timeout_secs cfg \<and> flush_io_timeout_secs cfg < elapsed'
                 then (Inl Timeout, s'\<lparr>bf_inner := i'\<rparr>)
                 else (Inr elapsed',
                       s'\<lparr>bf_inner := i', bf_state := flush_mark (bf_state s') idx sq\<rparr>))
          else (Inr elapsed, s\<lparr>bf_state := flush_mark (bf_state s) idx sq\<rparr>))"

fun flush_pages ::
  "buf_config \<Rightarrow> 's backend \<Rightarrow> nat \<Rightarrow> nat list \<Rightarrow> 's buffered \<Rightarrow> unit res \<times> 's buffered" where
  "flush_pages cfg B elapsed [] s = (Inr (), s)"
| "flush_pages cfg B elapsed (idx # idxs) s =
     (case flush_page cfg B elapsed idx s of
        (Inl e, s') \<Rightarrow> (Inl e, s')
      | (Inr elapsed', s') \<Rightarrow> flush_pages cfg B elapsed' idxs s')"

definition flush_indices ::
  "buf_config \<Rightarrow> 's backend \<Rightarrow> nat list \<Rightarrow> 's buffered \<Rightarrow> unit res \<times> 's buffered" where
  "flush_indices cfg B idxs s = flush_pages cfg B 0 idxs s"

definition dirty_indices :: "page bmap \<Rightarrow> nat list" where
  "dirty_indices ps = map fst (filter (\<lambda>(_, p). pg_dirty p) ps)"

text \<open>The pages \<open>enforce_dirty_limit\<close> flushes: the oldest ones beyond the limit.\<close>

definition dirty_victims :: "buf_config \<Rightarrow> page bmap \<Rightarrow> nat list" where
  "dirty_victims cfg ps =
     (let dirty = filter (\<lambda>(_, p). pg_dirty p) ps;
          over = length dirty - max_dirty_pages cfg;
          by_age = sort (map (\<lambda>(idx, p). (pg_seq p, idx)) dirty)
      in map snd (take over by_age))"

definition enforce_dirty_limit ::
  "buf_config \<Rightarrow> 's backend \<Rightarrow> 's buffered \<Rightarrow> unit res \<times> 's buffered" where
  "enforce_dirty_limit cfg B s =
     (let ps = bs_pages (bf_state s) in
      if length (filter (\<lambda>(_, p). pg_dirty p) ps) \<le> max_dirty_pages cfg then (Inr (), s)
      else let victims = dirty_victims cfg ps
           in if victims \<noteq> [] then flush_indices cfg B victims s else (Inr (), s))"

definition check_in_bounds :: "nat \<Rightarrow> nat \<Rightarrow> nat \<Rightarrow> unit res" where
  "check_in_bounds off len dev =
     (case checked_add off len of
        None \<Rightarrow> Inl OverflowU64
      | Some end' \<Rightarrow> if dev < end' then Inl OutOfBounds else Inr ())"

definition buf_create ::
  "buf_config \<Rightarrow> 's backend \<Rightarrow> 's buffered \<Rightarrow> nat \<Rightarrow> unit res \<times> 's buffered" where
  "buf_create cfg B s sz =
     (case b_create B (bf_inner s) sz of
        (Inl e, i') \<Rightarrow> (Inl e, s\<lparr>bf_inner := i'\<rparr>)
      | (Inr _, i') \<Rightarrow>
          (Inr (), s\<lparr>bf_inner := i',
             bf_state := (bf_state s)\<lparr>bs_dev_size := sz, bs_pages := [],
               bs_lru := lru_clear (bs_lru (bf_state s)), bs_seq_counter := 0\<rparr>\<rparr>))"

text \<open>A chunk of the page loops below is never empty, so they make progress.\<close>

lemma chunk_progress:
  "0 < ps \<Longrightarrow> pos < len \<Longrightarrow> len - (pos + min (ps - x mod ps) (len - pos)) < len - (pos :: nat)"
  using mod_less_divisor [of ps x] by linarith

text \<open>
  One chunk of a read: make the page resident, copy the bytes out, refresh the recency. The
  \<open>continue\<close> on a page evicted between the two locks cannot happen in a run without
  interference (\<open>ensure_resident_spec\<close>); it is \<open>LoopFuel\<close> here.
\<close>

definition read_chunk ::
  "buf_config \<Rightarrow> 's backend \<Rightarrow> nat \<Rightarrow> nat \<Rightarrow> nat \<Rightarrow> nat \<Rightarrow> 's buffered \<Rightarrow> bytes res \<times> 's buffered" where
  "read_chunk cfg B idx page_off chunk_len dev s =
     (case ensure_resident cfg B idx dev s of
        (Inl e, s') \<Rightarrow> (Inl e, s')
      | (Inr _, s') \<Rightarrow>
          (case bm_get (bs_pages (bf_state s')) idx of
             None \<Rightarrow> (Inl LoopFuel, s')
           | Some p \<Rightarrow>
               let st = bf_state s';
                   st' = st\<lparr>bs_lru := touch (bs_lru st) idx (\<not> pg_dirty p)\<rparr>
               in (Inr (segment page_off chunk_len (pg_data p)),
                   s'\<lparr>bf_state := enforce_cache_limit cfg st' (Some idx)\<rparr>)))"

function read_loop ::
  "buf_config \<Rightarrow> 's backend \<Rightarrow> nat \<Rightarrow> nat \<Rightarrow> nat \<Rightarrow> nat \<Rightarrow> bytes \<Rightarrow> 's buffered \<Rightarrow>
   bytes res \<times> 's buffered" where
  "read_loop cfg B dev off len pos result s =
     (if page_size cfg = 0 then (Inl Panic, s)
      else if pos < len
      then
        (let abs_off = off + pos;
             idx = abs_off div page_size cfg;
             page_off = abs_off mod page_size cfg;
             chunk_len = min (page_size cfg - page_off) (len - pos)
         in case read_chunk cfg B idx page_off chunk_len dev s of
              (Inl e, s') \<Rightarrow> (Inl e, s')
            | (Inr chunk, s') \<Rightarrow>
                read_loop cfg B dev off len (pos + chunk_len) (overwrite pos chunk result) s')
      else (Inr result, s))"
  by pat_completeness auto
termination
  by (relation "measure (\<lambda>(cfg, B, dev, off, len, pos, result, s). len - pos)")
     (auto intro!: chunk_progress)

declare read_loop.simps [simp del]

definition buf_read ::
  "buf_config \<Rightarrow> 's backend \<Rightarrow> 's buffered \<Rightarrow> nat \<Rightarrow> nat \<Rightarrow> bytes res \<times> 's buffered" where
  "buf_read cfg B s off len =
     (if len = 0 then (Inr [], s)
      else if \<not> is_multiple_of off 512 \<or> \<not> is_multiple_of len 512 then (Inl Misaligned, s)
      else (case buf_dev_size B s of
              (Inl e, s') \<Rightarrow> (Inl e, s')
            | (Inr dev, s') \<Rightarrow>
                (case check_in_bounds off len dev of
                   Inl e \<Rightarrow> (Inl e, s')
                 | Inr _ \<Rightarrow> read_loop cfg B dev off len 0 (zeros len) s')))"

text \<open>
  One chunk of a write or a clear: make the page resident, put the bytes in, mark it dirty with
  a fresh sequence number, pin it, stamp the write time.
\<close>

definition store_chunk ::
  "buf_config \<Rightarrow> 's backend \<Rightarrow> nat \<Rightarrow> nat \<Rightarrow> bytes \<Rightarrow> nat \<Rightarrow> 's buffered \<Rightarrow> unit res \<times> 's buffered" where
  "store_chunk cfg B idx page_off chunk dev s =
     (case ensure_resident cfg B idx dev s of
        (Inl e, s') \<Rightarrow> (Inl e, s')
      | (Inr _, s') \<Rightarrow>
          (case bm_get (bs_pages (bf_state s')) idx of
             None \<Rightarrow> (Inl LoopFuel, s')
           | Some p \<Rightarrow>
               let st = bf_state s';
                   sq = bs_seq_counter st + 1;
                   p' = p\<lparr>pg_data := overwrite page_off chunk (pg_data p), pg_dirty := True,
                          pg_seq := sq\<rparr>
               in (Inr (), s'\<lparr>bf_state :=
                     st\<lparr>bs_seq_counter := sq,
                        bs_pages := bm_insert idx p' (bs_pages st),
                        bs_lru := touch (bs_lru st) idx False,
                        bs_last_write := Some (bf_clock s')\<rparr>\<rparr>)))"

function write_loop ::
  "buf_config \<Rightarrow> 's backend \<Rightarrow> nat \<Rightarrow> nat \<Rightarrow> bytes \<Rightarrow> nat \<Rightarrow> 's buffered \<Rightarrow> unit res \<times> 's buffered" where
  "write_loop cfg B dev off data pos s =
     (if page_size cfg = 0 then (Inl Panic, s)
      else if pos < length data
      then
        (let abs_off = off + pos;
             idx = abs_off div page_size cfg;
             page_off = abs_off mod page_size cfg;
             chunk_len = min (page_size cfg - page_off) (length data - pos)
         in case store_chunk cfg B idx page_off (segment pos chunk_len data) dev s of
              (Inl e, s') \<Rightarrow> (Inl e, s')
            | (Inr _, s') \<Rightarrow>
                (case enforce_dirty_limit cfg B s' of
                   (Inl e, s'') \<Rightarrow> (Inl e, s'')
                 | (Inr _, s'') \<Rightarrow> write_loop cfg B dev off data (pos + chunk_len) s''))
      else (Inr (), s))"
  by pat_completeness auto
termination
  by (relation "measure (\<lambda>(cfg, B, dev, off, data, pos, s). length data - pos)")
     (auto intro!: chunk_progress)

declare write_loop.simps [simp del]

definition buf_write ::
  "buf_config \<Rightarrow> 's backend \<Rightarrow> 's buffered \<Rightarrow> nat \<Rightarrow> bytes \<Rightarrow> unit res \<times> 's buffered" where
  "buf_write cfg B s off data =
     (if data = [] then (Inr (), s)
      else if \<not> is_multiple_of off 512 \<or> \<not> is_multiple_of (length data) 512
      then (Inl Misaligned, s)
      else (case buf_dev_size B s of
              (Inl e, s') \<Rightarrow> (Inl e, s')
            | (Inr dev, s') \<Rightarrow>
                (case check_in_bounds off (length data) dev of
                   Inl e \<Rightarrow> (Inl e, s')
                 | Inr _ \<Rightarrow> write_loop cfg B dev off data 0 s')))"

function clear_loop ::
  "buf_config \<Rightarrow> 's backend \<Rightarrow> nat \<Rightarrow> nat \<Rightarrow> nat \<Rightarrow> nat \<Rightarrow> 's buffered \<Rightarrow> unit res \<times> 's buffered" where
  "clear_loop cfg B dev off len pos s =
     (if page_size cfg = 0 then (Inl Panic, s)
      else if pos < len
      then
        (let abs_off = off + pos;
             idx = abs_off div page_size cfg;
             page_off = abs_off mod page_size cfg;
             chunk_len = min (page_size cfg - page_off) (len - pos)
         in case store_chunk cfg B idx page_off (zeros chunk_len) dev s of
              (Inl e, s') \<Rightarrow> (Inl e, s')
            | (Inr _, s') \<Rightarrow>
                (case enforce_dirty_limit cfg B s' of
                   (Inl e, s'') \<Rightarrow> (Inl e, s'')
                 | (Inr _, s'') \<Rightarrow> clear_loop cfg B dev off len (pos + chunk_len) s''))
      else (Inr (), s))"
  by pat_completeness auto
termination
  by (relation "measure (\<lambda>(cfg, B, dev, off, len, pos, s). len - pos)")
     (auto intro!: chunk_progress)

declare clear_loop.simps [simp del]

definition buf_clear ::
  "buf_config \<Rightarrow> 's backend \<Rightarrow> 's buffered \<Rightarrow> nat \<Rightarrow> nat \<Rightarrow> unit res \<times> 's buffered" where
  "buf_clear cfg B s off len =
     (if len = 0 then (Inr (), s)
      else if \<not> is_multiple_of off 512 \<or> \<not> is_multiple_of len 512 then (Inl Misaligned, s)
      else (case buf_dev_size B s of
              (Inl e, s') \<Rightarrow> (Inl e, s')
            | (Inr dev, s') \<Rightarrow>
                (case check_in_bounds off len dev of
                   Inl e \<Rightarrow> (Inl e, s')
                 | Inr _ \<Rightarrow> clear_loop cfg B dev off len 0 s')))"

definition buf_flush :: "buf_config \<Rightarrow> 's backend \<Rightarrow> 's buffered \<Rightarrow> unit res \<times> 's buffered" where
  "buf_flush cfg B s =
     (let dirty = dirty_indices (bs_pages (bf_state s));
          (r, s1) = (if dirty \<noteq> []
                     then (case flush_indices cfg B dirty s of
                             (Inl e, s') \<Rightarrow> (Inl e, s')
                           | (Inr _, s') \<Rightarrow>
                               (Inr (), s'\<lparr>bf_state := (bf_state s')\<lparr>bs_last_flush := Some (bf_clock s')\<rparr>\<rparr>))
                     else (Inr (), s))
      in case r of
           Inl e \<Rightarrow> (Inl e, s1)
         | Inr _ \<Rightarrow> (case b_flush B (bf_inner s1) of (u, i') \<Rightarrow> (u, s1\<lparr>bf_inner := i'\<rparr>)))"

definition buf_delete :: "'s backend \<Rightarrow> 's buffered \<Rightarrow> unit res \<times> 's buffered" where
  "buf_delete B s =
     (let s1 = s\<lparr>bf_state := (bf_state s)\<lparr>bs_pages := [], bs_lru := lru_clear (bs_lru (bf_state s))\<rparr>\<rparr>
      in case b_delete B (bf_inner s1) of (u, i') \<Rightarrow> (u, s1\<lparr>bf_inner := i'\<rparr>))"

definition buf_data_ranges ::
  "'s backend \<Rightarrow> 's buffered \<Rightarrow> ((nat \<times> nat) list option) res \<times> 's buffered" where
  "buf_data_ranges B s = (case b_data_ranges B (bf_inner s) of (r, i') \<Rightarrow> (r, s\<lparr>bf_inner := i'\<rparr>))"

definition buf_etag :: "'s backend \<Rightarrow> 's buffered \<Rightarrow> (string option) res \<times> 's buffered" where
  "buf_etag B s = (case b_etag B (bf_inner s) of (r, i') \<Rightarrow> (r, s\<lparr>bf_inner := i'\<rparr>))"

definition buffered_backend :: "buf_config \<Rightarrow> 's backend \<Rightarrow> 's buffered backend" where
  "buffered_backend cfg B =
     \<lparr>b_create = buf_create cfg B, b_read = buf_read cfg B, b_write = buf_write cfg B,
      b_clear = buf_clear cfg B, b_prefetch = default_prefetch (buf_read cfg B),
      b_data_ranges = buf_data_ranges B, b_flush = buf_flush cfg B, b_delete = buf_delete B,
      b_size = buf_dev_size B, b_etag = buf_etag B\<rparr>"

section \<open>The background flush task\<close>

text \<open>The interval between two checks, in seconds.\<close>

definition check_interval :: "buf_config \<Rightarrow> nat" where
  "check_interval cfg =
     (if 0 < idle_flush_secs cfg then max (idle_flush_secs cfg div 2) 1
      else max (force_flush_timeout_secs cfg div 4) 1)"

definition flush_triggers :: "buf_config \<Rightarrow> buf_state \<Rightarrow> nat \<Rightarrow> bool \<times> bool" where
  "flush_triggers cfg st now =
     (let has_dirty = list_ex (\<lambda>(_, p). pg_dirty p) (bs_pages st);
          idle = (if 0 < idle_flush_secs cfg
                  then (case bs_last_write st of
                          Some w \<Rightarrow> now - w \<ge> idle_flush_secs cfg \<and> has_dirty
                        | None \<Rightarrow> False)
                  else False);
          force = (if 0 < force_flush_timeout_secs cfg
                   then (case (bs_last_flush st, bs_last_write st) of
                           (Some f, _) \<Rightarrow> now - f \<ge> force_flush_timeout_secs cfg \<and> has_dirty
                         | (None, Some w) \<Rightarrow> now - w \<ge> force_flush_timeout_secs cfg \<and> has_dirty
                         | (None, None) \<Rightarrow> False)
                   else False)
      in (idle, force))"

text \<open>One round of the background task; a failed flush is logged and ignored.\<close>

definition background_tick :: "buf_config \<Rightarrow> 's backend \<Rightarrow> 's buffered \<Rightarrow> 's buffered" where
  "background_tick cfg B s =
     (case flush_triggers cfg (bf_state s) (bf_clock s) of
        (idle, force) \<Rightarrow> if idle \<or> force then snd (buf_flush cfg B s) else s)"

end
