(* ===== verification/Mem_Backend.thy ===== *)
theory Mem_Backend
  imports Blob_Backend
begin

text \<open>
  The in-memory backend of \<open>backend/mem.rs\<close>. Its state is the byte vector behind the mutex,
  and whether the mutex is poisoned: a panic inside a critical section (a slice whose start
  exceeds its end, after the unchecked addition of offset and length wrapped around) poisons it,
  and every later operation reports the lock error. It is the first implementation of the
  trait's contract. The wrapped addition is recognised by \<open>end' < off + len\<close>, which for
  \<open>u64\<close> arguments holds exactly when the range \<open>[off, end')\<close> starts after its end.
\<close>

record mem_state =
  mem_data :: bytes
  mem_poisoned :: bool

definition check_alignment :: "nat \<Rightarrow> nat \<Rightarrow> unit res" where
  "check_alignment value align = (if is_multiple_of value align then Inr () else Inl Misaligned)"

definition mem_new :: "nat \<Rightarrow> mem_state res" where
  "mem_new sz =
     (case check_alignment sz 512 of
        Inl e \<Rightarrow> Inl e
      | Inr _ \<Rightarrow>
          if sz = 0 then Inl BadSize
          else Inr \<lparr>mem_data = zeros sz, mem_poisoned = False\<rparr>)"

definition mem_lock :: "mem_state \<Rightarrow> unit res" where
  "mem_lock s = (if mem_poisoned s then Inl (IoErr ''lock'') else Inr ())"

definition mem_create :: "mem_state \<Rightarrow> nat \<Rightarrow> unit res \<times> mem_state" where
  "mem_create s sz =
     (case check_alignment sz 512 of
        Inl e \<Rightarrow> (Inl e, s)
      | Inr _ \<Rightarrow>
          if sz = 0 then (Inl BadSize, s)
          else (case mem_lock s of
                  Inl e \<Rightarrow> (Inl e, s)
                | Inr _ \<Rightarrow> (Inr (), s\<lparr>mem_data := zeros sz\<rparr>)))"

definition mem_read :: "mem_state \<Rightarrow> nat \<Rightarrow> nat \<Rightarrow> bytes res \<times> mem_state" where
  "mem_read s off len =
     (case check_alignment off 512 of
        Inl e \<Rightarrow> (Inl e, s)
      | Inr _ \<Rightarrow> (case check_alignment len 512 of
        Inl e \<Rightarrow> (Inl e, s)
      | Inr _ \<Rightarrow> (case mem_lock s of
        Inl e \<Rightarrow> (Inl e, s)
      | Inr _ \<Rightarrow>
          let end' = wrapping_add off len in
          if length (mem_data s) < end' then (Inl OutOfBounds, s)
          else if end' < off + len then (Inl Panic, s\<lparr>mem_poisoned := True\<rparr>)
          else (Inr (segment off len (mem_data s)), s))))"

definition mem_write :: "mem_state \<Rightarrow> nat \<Rightarrow> bytes \<Rightarrow> unit res \<times> mem_state" where
  "mem_write s off payload =
     (case check_alignment off 512 of
        Inl e \<Rightarrow> (Inl e, s)
      | Inr _ \<Rightarrow> (case check_alignment (length payload) 512 of
        Inl e \<Rightarrow> (Inl e, s)
      | Inr _ \<Rightarrow> (case mem_lock s of
        Inl e \<Rightarrow> (Inl e, s)
      | Inr _ \<Rightarrow>
          let end' = wrapping_add off (length payload) in
          if length (mem_data s) < end' then (Inl OutOfBounds, s)
          else if end' < off + length payload then (Inl Panic, s\<lparr>mem_poisoned := True\<rparr>)
          else (Inr (), s\<lparr>mem_data := overwrite off payload (mem_data s)\<rparr>))))"

definition mem_clear :: "mem_state \<Rightarrow> nat \<Rightarrow> nat \<Rightarrow> unit res \<times> mem_state" where
  "mem_clear s off len =
     (case check_alignment off 512 of
        Inl e \<Rightarrow> (Inl e, s)
      | Inr _ \<Rightarrow> (case check_alignment len 512 of
        Inl e \<Rightarrow> (Inl e, s)
      | Inr _ \<Rightarrow> (case mem_lock s of
        Inl e \<Rightarrow> (Inl e, s)
      | Inr _ \<Rightarrow>
          let end' = wrapping_add off len in
          if length (mem_data s) < end' then (Inl OutOfBounds, s)
          else if end' < off + len then (Inl Panic, s\<lparr>mem_poisoned := True\<rparr>)
          else (Inr (), s\<lparr>mem_data := overwrite off (zeros len) (mem_data s)\<rparr>))))"

definition mem_flush :: "mem_state \<Rightarrow> unit res \<times> mem_state" where
  "mem_flush s = (Inr (), s)"

definition mem_delete :: "mem_state \<Rightarrow> unit res \<times> mem_state" where
  "mem_delete s =
     (case mem_lock s of Inl e \<Rightarrow> (Inl e, s) | Inr _ \<Rightarrow> (Inr (), s\<lparr>mem_data := []\<rparr>))"

definition mem_size :: "mem_state \<Rightarrow> nat res \<times> mem_state" where
  "mem_size s =
     (case mem_lock s of Inl e \<Rightarrow> (Inl e, s) | Inr _ \<Rightarrow> (Inr (length (mem_data s)), s))"

definition mem_backend :: "mem_state backend" where
  "mem_backend =
     \<lparr>b_create = mem_create, b_read = mem_read, b_write = mem_write, b_clear = mem_clear,
      b_prefetch = default_prefetch mem_read, b_data_ranges = default_data_ranges,
      b_flush = mem_flush, b_delete = mem_delete, b_size = mem_size, b_etag = default_etag\<rparr>"

section \<open>The contract holds\<close>

text \<open>The vector's length is an aligned \<open>u64\<close> and no operation has panicked.\<close>

definition mem_inv :: "mem_state \<Rightarrow> bool" where
  "mem_inv s \<longleftrightarrow>
     512 dvd length (mem_data s) \<and> length (mem_data s) < u64_limit \<and> \<not> mem_poisoned s"

lemmas mem_defs =
  mem_create_def mem_read_def mem_write_def mem_clear_def mem_flush_def mem_delete_def
  mem_size_def mem_lock_def check_alignment_def is_multiple_of_def Let_def

lemma mem_backend_sel [simp]:
  "b_create mem_backend = mem_create" "b_read mem_backend = mem_read"
  "b_write mem_backend = mem_write" "b_clear mem_backend = mem_clear"
  "b_flush mem_backend = mem_flush" "b_delete mem_backend = mem_delete"
  "b_size mem_backend = mem_size" "b_etag mem_backend = default_etag"
  "b_data_ranges mem_backend = default_data_ranges"
  "b_prefetch mem_backend = default_prefetch mem_read"
  by (simp_all add: mem_backend_def)

interpretation mem: reliable_backend mem_backend mem_data mem_data mem_inv
  by unfold_locales
     (auto simp: mem_defs mem_inv_def buf_simps wrapping_add_small default_prefetch_def
        default_data_ranges_def default_etag_def split: if_splits)

end
