(* ===== verification/Buffered_Refines.thy ===== *)
theory Buffered_Refines
  imports Buffered Mem_Backend
begin

text \<open>
  The write-back buffer implements the trait's contract over any layer that does. The device a
  client sees is \<open>buf_view\<close>: the resident pages laid over the content below. Every operation
  keeps the invariant \<open>buf_inv\<close>, changes the view exactly as the contract says, on failure as
  well, and a successful flush makes the layer below hold the whole view.
\<close>

section \<open>Abstraction and invariant\<close>

definition overlay :: "nat \<Rightarrow> page bmap \<Rightarrow> bytes \<Rightarrow> bytes" where
  "overlay ps P C =
     map (\<lambda>j. case map_of P (j div ps) of Some p \<Rightarrow> pg_data p ! (j mod ps) | None \<Rightarrow> C ! j)
       [0 ..< length C]"

definition buf_view :: "buf_config \<Rightarrow> ('s \<Rightarrow> bytes) \<Rightarrow> 's buffered \<Rightarrow> bytes" where
  "buf_view cfg content s = overlay (page_size cfg) (bs_pages (bf_state s)) (content (bf_inner s))"

text \<open>A resident page is a full page, and a clean one agrees with the layer below.\<close>

definition page_matches :: "nat \<Rightarrow> nat \<Rightarrow> page \<Rightarrow> bytes \<Rightarrow> bool" where
  "page_matches ps k p C \<longleftrightarrow>
     (\<forall>i < ps. k * ps + i < length C \<longrightarrow> pg_data p ! i = C ! (k * ps + i))"

definition pages_ok :: "nat \<Rightarrow> page bmap \<Rightarrow> bytes \<Rightarrow> bool" where
  "pages_ok ps P C \<longleftrightarrow>
     (\<forall>k p. map_of P k = Some p \<longrightarrow>
        length (pg_data p) = ps \<and> (\<not> pg_dirty p \<longrightarrow> page_matches ps k p C))"

definition dirty_set :: "page bmap \<Rightarrow> nat set" where
  "dirty_set P = {k. \<exists>p. map_of P k = Some p \<and> pg_dirty p}"

definition clean_set :: "page bmap \<Rightarrow> nat set" where
  "clean_set P = {k. \<exists>p. map_of P k = Some p \<and> \<not> pg_dirty p}"

text \<open>The recency index follows the pages: it lists the resident ones and may evict the clean ones.\<close>

definition lru_ok :: "page bmap \<Rightarrow> lru \<Rightarrow> bool" where
  "lru_ok P l \<longleftrightarrow> lru_inv l \<and> (\<forall>k. lru_contains l k \<longleftrightarrow> bm_contains P k) \<and>
     evictable_pages l = clean_set P"

definition buf_config_ok :: "buf_config \<Rightarrow> bool" where
  "buf_config_ok cfg \<longleftrightarrow> 512 \<le> page_size cfg \<and> 512 dvd page_size cfg \<and>
     0 < max_dirty_pages cfg \<and>
     (max_cached_pages cfg \<noteq> 0 \<longrightarrow> max_dirty_pages cfg \<le> max_cached_pages cfg)"

definition st_inv :: "buf_config \<Rightarrow> buf_state \<Rightarrow> bytes \<Rightarrow> bool" where
  "st_inv cfg st C \<longleftrightarrow>
     bm_wf (bs_pages st) \<and> pages_ok (page_size cfg) (bs_pages st) C \<and>
     lru_ok (bs_pages st) (bs_lru st) \<and>
     (bs_pages st \<noteq> [] \<longrightarrow> bs_dev_size st \<noteq> 0) \<and>
     (bs_dev_size st \<noteq> 0 \<longrightarrow> bs_dev_size st = length C)"

definition buf_inv :: "buf_config \<Rightarrow> ('s \<Rightarrow> bytes) \<Rightarrow> ('s \<Rightarrow> bool) \<Rightarrow> 's buffered \<Rightarrow> bool" where
  "buf_inv cfg content binv s \<longleftrightarrow> binv (bf_inner s) \<and> st_inv cfg (bf_state s) (content (bf_inner s))"

section \<open>Pages laid over a device\<close>

lemma length_overlay [simp]: "length (overlay ps P C) = length C"
  by (simp add: overlay_def)

lemma nth_overlay:
  "j < length C \<Longrightarrow> overlay ps P C ! j =
     (case map_of P (j div ps) of Some p \<Rightarrow> pg_data p ! (j mod ps) | None \<Rightarrow> C ! j)"
  by (simp add: overlay_def nth_upt split: option.splits)

lemma overlay_Nil [simp]: "overlay ps [] C = C"
  by (rule nth_equalityI) (simp_all add: nth_overlay)

lemma pages_okD:
  "pages_ok ps P C \<Longrightarrow> map_of P k = Some p \<Longrightarrow> length (pg_data p) = ps"
  "pages_ok ps P C \<Longrightarrow> map_of P k = Some p \<Longrightarrow> \<not> pg_dirty p \<Longrightarrow> page_matches ps k p C"
  by (auto simp: pages_ok_def)

lemma in_page:
  fixes j :: nat
  assumes "0 < ps"
  shows "j = j div ps * ps + j mod ps" and "j mod ps < ps"
  using assms by simp_all

lemma page_of_range:
  fixes j :: nat
  assumes "k * ps \<le> j" "j < k * ps + ps"
  shows "j div ps = k" and "j mod ps = j - k * ps"
proof -
  show "j div ps = k"
    using assms by (intro div_nat_eqI) (simp_all add: mult.commute)
  then show "j mod ps = j - k * ps" by (metis minus_div_mult_eq_mod)
qed

lemma page_matchesD:
  assumes "page_matches ps k p C" "0 < ps" "j < length C" "j div ps = k"
  shows "pg_data p ! (j mod ps) = C ! j"
  using assms in_page [OF assms(2), of j] unfolding page_matches_def by metis

text \<open>A clean page may come and go without changing what the device shows.\<close>

lemma overlay_insert_clean:
  assumes "0 < ps" and "map_of P k = None" and "page_matches ps k p C"
  shows "overlay ps (bm_insert k p P) C = overlay ps P C"
  using assms page_matchesD [OF assms(3,1)]
  by (intro nth_equalityI) (auto simp: nth_overlay bmap_simps)

lemma overlay_remove_clean:
  assumes "0 < ps" and "pages_ok ps P C" and "k \<notin> dirty_set P"
  shows "overlay ps (bm_remove k P) C = overlay ps P C"
proof (rule nth_equalityI; simp add: nth_overlay bmap_simps)
  fix j assume "j < length C"
  then show "j div ps = k \<longrightarrow>
      C ! j = (case map_of P k of Some p \<Rightarrow> pg_data p ! (j mod ps) | None \<Rightarrow> C ! j)"
    using assms pages_okD(2) [OF assms(2), of k] page_matchesD [of ps k _ C j]
    by (auto simp: dirty_set_def split: option.splits)
qed

lemma overlay_same_data:
  assumes "map_of P k = Some p" and "pg_data p' = pg_data p"
  shows "overlay ps (bm_insert k p' P) C = overlay ps P C"
  using assms by (intro nth_equalityI) (auto simp: nth_overlay bmap_simps)

text \<open>The bytes under a resident page are not visible.\<close>

lemma overlay_base:
  assumes "same_outside (k * ps) n C C'" and "n \<le> ps" and "bm_contains P k"
  shows "overlay ps P C' = overlay ps P C"
proof (rule nth_equalityI)
  show "length (overlay ps P C') = length (overlay ps P C)"
    using assms(1) by (simp add: same_outside_def)
next
  fix j assume "j < length (overlay ps P C')"
  then have j: "j < length C'" "j < length C" using assms(1) by (auto simp: same_outside_def)
  show "overlay ps P C' ! j = overlay ps P C ! j"
  proof (cases "k * ps \<le> j \<and> j < k * ps + ps")
    case True
    then have "j div ps = k" by (simp add: page_of_range)
    with assms(3) j show ?thesis by (auto simp: nth_overlay bm_contains_def)
  next
    case False
    with assms(1,2) j have "C' ! j = C ! j" by (auto simp: same_outside_def)
    with j show ?thesis by (simp add: nth_overlay split: option.splits)
  qed
qed

lemma pages_ok_base:
  assumes "same_outside (k * ps) n C C'" and "n \<le> ps" and "k \<in> dirty_set P" and "pages_ok ps P C"
  shows "pages_ok ps P C'"
proof -
  have "page_matches ps k' p C'"
    if p: "map_of P k' = Some p" "\<not> pg_dirty p" for k' p
  proof -
    from p assms(3) have "k' \<noteq> k" by (auto simp: dirty_set_def)
    then have d: "k' * ps + ps \<le> k * ps \<or> k * ps + ps \<le> k' * ps"
      by (metis Suc_leI add.commute mult_Suc mult_le_mono1 nat_neq_iff)
    have "page_matches ps k' p C" using pages_okD(2) assms(4) p by blast
    with assms(1,2) d show ?thesis
      unfolding page_matches_def same_outside_def by fastforce
  qed
  then show ?thesis using pages_okD(1) [OF assms(4)] unfolding pages_ok_def by blast
qed

text \<open>Writing into a resident page is writing into the view.\<close>

lemma overlay_store:
  assumes "map_of P k = Some p" and "length (pg_data p) = ps" and "a + length d \<le> ps"
    and "k * ps + a + length d \<le> length C" and "pg_data p' = overwrite a d (pg_data p)" and "0 < ps"
  shows "overlay ps (bm_insert k p' P) C = overwrite (k * ps + a) d (overlay ps P C)"
proof (rule nth_equalityI)
  show "length (overlay ps (bm_insert k p' P) C) = length (overwrite (k * ps + a) d (overlay ps P C))"
    using assms by (simp add: buf_simps)
next
  fix j assume "j < length (overlay ps (bm_insert k p' P) C)"
  then have j: "j < length C" by simp
  show "overlay ps (bm_insert k p' P) C ! j = overwrite (k * ps + a) d (overlay ps P C) ! j"
  proof (cases "j div ps = k")
    case True
    with in_page [OF assms(6), of j] obtain b where b: "b < ps" "j = k * ps + b" "j mod ps = b"
      by metis
    with True j assms show ?thesis
      by (simp add: nth_overlay bmap_simps nth_overwrite)
  next
    case False
    with assms(3) have "\<not> (k * ps + a \<le> j \<and> j < k * ps + a + length d)"
      using page_of_range(1) [of k ps j] by auto
    with False j assms(4) show ?thesis
      by (auto simp: nth_overlay bmap_simps buf_simps)
  qed
qed

lemma overlay_page_segment:
  assumes "map_of P k = Some p" and "length (pg_data p) = ps" and "a + n \<le> ps"
    and "k * ps + a + n \<le> length C"
  shows "segment a n (pg_data p) = segment (k * ps + a) n (overlay ps P C)"
proof (rule nth_equalityI)
  show "length (segment a n (pg_data p)) = length (segment (k * ps + a) n (overlay ps P C))"
    using assms by (simp add: buf_simps)
next
  fix i assume "i < length (segment a n (pg_data p))"
  then have i: "i < n" by (simp add: buf_simps)
  then have "(k * ps + a + i) div ps = k" "(k * ps + a + i) mod ps = a + i"
    using page_of_range [of k ps "k * ps + a + i"] assms(3) by auto
  with i assms show "segment a n (pg_data p) ! i = segment (k * ps + a) n (overlay ps P C) ! i"
    by (simp add: buf_simps nth_overlay)
qed

lemma overlay_all_clean:
  assumes "0 < ps" and "pages_ok ps P C" and "dirty_set P = {}"
  shows "overlay ps P C = C"
proof (rule nth_equalityI; simp add: nth_overlay)
  fix j assume "j < length C"
  then show "(case map_of P (j div ps) of Some p \<Rightarrow> pg_data p ! (j mod ps) | None \<Rightarrow> C ! j) = C ! j"
    using assms pages_okD(2) [OF assms(2), of "j div ps"] page_matchesD [of ps "j div ps" _ C j]
    by (auto simp: dirty_set_def split: option.splits)
qed

section \<open>Dirty and clean pages\<close>

lemma finite_dirty_set [simp]: "finite (dirty_set P)"
  by (rule finite_subset [OF _ finite_dom_map_of [of P]]) (auto simp: dirty_set_def)

lemma set_dirty_indices: "bm_wf P \<Longrightarrow> set (dirty_indices P) = dirty_set P"
  by (force simp: dirty_indices_def dirty_set_def bm_get_iff_mem)

lemma distinct_dirty_indices: "bm_wf P \<Longrightarrow> distinct (dirty_indices P)"
  unfolding dirty_indices_def by (metis bm_wf_distinct bm_wf_filter)

lemma card_dirty_set: "bm_wf P \<Longrightarrow> card (dirty_set P) = length (filter (\<lambda>(_, p). pg_dirty p) P)"
  by (metis set_dirty_indices distinct_dirty_indices distinct_card dirty_indices_def length_map)

lemma length_bm_insert_resident: "map_of P k = Some p \<Longrightarrow> length (bm_insert k p' P) = length P"
  if "bm_wf P"
  using that
proof (induction k p' P rule: bm_insert.induct)
  case (2 k v k' v' m)
  then have "map_of m k \<noteq> Some p" if "k < k'"
    using that by (fastforce simp: bm_wf_Cons dest: map_of_SomeD)
  with 2 show ?case by (auto simp: bm_wf_Cons split: if_splits)
qed simp

lemma dirty_set_insert:
  "dirty_set (bm_insert k p P) = (if pg_dirty p then insert k (dirty_set P) else dirty_set P - {k})"
  by (auto simp: dirty_set_def bmap_simps)

lemma clean_set_insert:
  "clean_set (bm_insert k p P) = (if pg_dirty p then clean_set P - {k} else insert k (clean_set P))"
  by (auto simp: clean_set_def bmap_simps)

lemma dirty_set_remove: "dirty_set (bm_remove k P) = dirty_set P - {k}"
  by (auto simp: dirty_set_def bmap_simps split: if_splits)

lemma clean_set_remove: "clean_set (bm_remove k P) = clean_set P - {k}"
  by (auto simp: clean_set_def bmap_simps split: if_splits)

lemma clean_not_dirty: "k \<in> clean_set P \<Longrightarrow> k \<notin> dirty_set P"
  by (auto simp: clean_set_def dirty_set_def)

lemma contains_clean_dirty: "bm_contains P k \<longleftrightarrow> k \<in> clean_set P \<or> k \<in> dirty_set P"
  by (auto simp: bm_contains_def clean_set_def dirty_set_def)

lemma length_pages:
  assumes "bm_wf P"
  shows "length P = card (clean_set P) + card (dirty_set P)"
proof -
  have "length P = card (fst ` set P)"
    using bm_wf_distinct [OF assms] by (metis distinct_card length_map set_map)
  moreover have "fst ` set P = clean_set P \<union> dirty_set P"
    using contains_clean_dirty [of P] by (auto simp: bm_contains_iff)
  moreover have "finite (clean_set P)"
    by (metis calculation(2) finite_Un finite_imageI finite_set)
  moreover have "clean_set P \<inter> dirty_set P = {}" using clean_not_dirty by blast
  ultimately show ?thesis by (simp add: card_Un_disjoint)
qed

lemma pages_ok_insert:
  "pages_ok ps P C \<Longrightarrow> length (pg_data p) = ps \<Longrightarrow> (\<not> pg_dirty p \<Longrightarrow> page_matches ps k p C) \<Longrightarrow>
   pages_ok ps (bm_insert k p P) C"
  by (auto simp: pages_ok_def bmap_simps)

lemma pages_ok_remove: "pages_ok ps P C \<Longrightarrow> pages_ok ps (bm_remove k P) C"
  by (auto simp: pages_ok_def bmap_simps split: if_splits)

lemma lru_ok_touch_new:
  assumes "lru_ok P l" and "pg_dirty p = (\<not> clean)"
  shows "lru_ok (bm_insert k p P) (touch l k clean)"
  using assms by (auto simp: lru_ok_def touch_inv touch_contains touch_evictable bmap_simps clean_set_insert)

lemma lru_ok_touch_resident:
  assumes "lru_ok P l" and "map_of P k = Some p"
  shows "lru_ok P (touch l k (\<not> pg_dirty p))"
  using assms
  by (auto simp: lru_ok_def touch_inv touch_contains touch_evictable bm_contains_def clean_set_def)

lemma lru_ok_clear: "lru_ok [] (lru_clear l)"
  by (simp add: lru_ok_def lru_contains_def lru_clear_def evictable_pages_def clean_set_def lru_inv_def)

section \<open>Eviction\<close>

text \<open>
  Eviction removes clean pages only, never the protected one, and stops either at the limit or
  when no evictable page other than the protected one is left.
\<close>

lemma evict_loop_spec:
  assumes "evict_loop mx protect P l = (P', l')" and "bm_wf P" and "lru_ok P l" and "0 < ps"
    and "pages_ok ps P C"
  shows "bm_wf P' \<and> lru_ok P' l' \<and> pages_ok ps P' C \<and> overlay ps P' C = overlay ps P C \<and>
    dirty_set P' = dirty_set P \<and> clean_set P' \<subseteq> clean_set P \<and>
    (\<forall>k. Some k = protect \<longrightarrow> map_of P' k = map_of P k) \<and>
    (length P' \<le> mx \<or> (\<forall>k \<in> clean_set P'. Some k = protect))"
  using assms
proof (induction mx protect P l arbitrary: P' l' rule: evict_loop.induct)
  case (1 mx protect P l)
  show ?case
  proof (cases "mx < length P")
    case False
    with 1 show ?thesis by (simp add: evict_loop.simps)
  next
    case True
    obtain r l1 where pop: "pop_lru l protect = (r, l1)" by fastforce
    have inv: "lru_inv l" "evictable_pages l = clean_set P" using 1 by (simp_all add: lru_ok_def)
    show ?thesis
    proof (cases r)
      case None
      with pop True 1 have "P' = P" "l' = l1" by (simp_all add: evict_loop.simps)
      with pop None pop_lru_None [of l protect l1] inv 1 show ?thesis by auto
    next
      case (Some v)
      with pop True 1 have rec: "evict_loop mx protect (bm_remove v P) l1 = (P', l')"
        by (simp add: evict_loop.simps)
      have v: "v \<in> clean_set P" "Some v \<noteq> protect"
        using pop_lru_Some [OF inv(1)] pop Some inv(2) by blast+
      have lru: "lru_ok (bm_remove v P) l1"
        using pop_lru_inv [OF inv(1)] pop_lru_contains [OF inv(1)] pop_lru_evictable [OF inv(1)]
          pop Some 1 by (auto simp: lru_ok_def bmap_simps clean_set_remove)
      have ov: "overlay ps (bm_remove v P) C = overlay ps P C"
        using overlay_remove_clean [of ps P C v] clean_not_dirty [OF v(1)] 1 by simp
      have "bm_wf P' \<and> lru_ok P' l' \<and> pages_ok ps P' C \<and>
          overlay ps P' C = overlay ps (bm_remove v P) C \<and>
          dirty_set P' = dirty_set (bm_remove v P) \<and> clean_set P' \<subseteq> clean_set (bm_remove v P) \<and>
          (\<forall>k. Some k = protect \<longrightarrow> map_of P' k = map_of (bm_remove v P) k) \<and>
          (length P' \<le> mx \<or> (\<forall>k \<in> clean_set P'. Some k = protect))"
        using 1 True pop Some rec lru by (intro "1.IH") (auto simp: bmap_simps pages_ok_remove)
      with ov v clean_not_dirty [OF v(1)] show ?thesis
        by (auto simp: dirty_set_remove clean_set_remove bmap_simps)
    qed
  qed
qed

text \<open>What every internal step of the buffer keeps of the buffer state.\<close>

definition st_keeps :: "buf_config \<Rightarrow> bytes \<Rightarrow> buf_state \<Rightarrow> buf_state \<Rightarrow> bool" where
  "st_keeps cfg C st st' \<longleftrightarrow>
     st_inv cfg st' C \<and> bs_dev_size st' = bs_dev_size st \<and>
     overlay (page_size cfg) (bs_pages st') C = overlay (page_size cfg) (bs_pages st) C"

text \<open>The resident set stays within its limit, up to the one protected page.\<close>

definition cache_bounded :: "buf_config \<Rightarrow> page bmap \<Rightarrow> bool" where
  "cache_bounded cfg P \<longleftrightarrow>
     max_cached_pages cfg \<noteq> 0 \<longrightarrow> length P \<le> max (max_cached_pages cfg) (card (dirty_set P) + 1)"

text \<open>The two limits of the configuration as the code keeps them.\<close>

definition within_limits :: "buf_config \<Rightarrow> page bmap \<Rightarrow> bool" where
  "within_limits cfg P \<longleftrightarrow> card (dirty_set P) \<le> max_dirty_pages cfg \<and>
     (max_cached_pages cfg \<noteq> 0 \<longrightarrow> length P \<le> max_cached_pages cfg + 1)"

lemma within_limitsI:
  "buf_config_ok cfg \<Longrightarrow> cache_bounded cfg P \<Longrightarrow> card (dirty_set P) \<le> max_dirty_pages cfg \<Longrightarrow>
   within_limits cfg P"
  by (auto simp: within_limits_def cache_bounded_def buf_config_ok_def)

lemma card_protect: "\<forall>k \<in> S. Some k = protect \<Longrightarrow> card S \<le> 1"
  by (cases protect) (auto simp: card_le_Suc0_iff_eq [unfolded One_nat_def] card_mono
      intro: order_trans [OF card_mono [of "{the protect}" S]])

lemma enforce_cache_limit_spec:
  assumes "st_inv cfg st C" and "0 < page_size cfg"
  shows "st_keeps cfg C st (enforce_cache_limit cfg st protect) \<and>
    dirty_set (bs_pages (enforce_cache_limit cfg st protect)) = dirty_set (bs_pages st) \<and>
    (\<forall>k. Some k = protect \<longrightarrow>
       map_of (bs_pages (enforce_cache_limit cfg st protect)) k = map_of (bs_pages st) k) \<and>
    cache_bounded cfg (bs_pages (enforce_cache_limit cfg st protect))"
proof (cases "max_cached_pages cfg = 0")
  case True
  with assms show ?thesis by (simp add: enforce_cache_limit_def st_keeps_def cache_bounded_def)
next
  case False
  obtain P' l' where ev: "evict_loop (max_cached_pages cfg) protect (bs_pages st) (bs_lru st) = (P', l')"
    by fastforce
  have spec: "bm_wf P' \<and> lru_ok P' l' \<and> pages_ok (page_size cfg) P' C \<and>
      overlay (page_size cfg) P' C = overlay (page_size cfg) (bs_pages st) C \<and>
      dirty_set P' = dirty_set (bs_pages st) \<and> clean_set P' \<subseteq> clean_set (bs_pages st) \<and>
      (\<forall>k. Some k = protect \<longrightarrow> map_of P' k = map_of (bs_pages st) k) \<and>
      (length P' \<le> max_cached_pages cfg \<or> (\<forall>k \<in> clean_set P'. Some k = protect))"
    using evict_loop_spec [OF ev _ _ assms(2), of C] assms(1) by (simp add: st_inv_def)
  then have bound: "length P' \<le> max (max_cached_pages cfg) (card (dirty_set P') + 1)"
    using card_protect [of "clean_set P'" protect] length_pages [of P'] by auto
  have "P' \<noteq> [] \<longrightarrow> bs_pages st \<noteq> []"
  proof
    assume "P' \<noteq> []"
    then obtain k where "bm_contains P' k" by (cases P') (auto simp: bm_contains_iff)
    with spec have "bm_contains (bs_pages st) k" by (auto simp: contains_clean_dirty)
    then show "bs_pages st \<noteq> []" by auto
  qed
  with False ev spec bound assms(1) show ?thesis
    by (auto simp: enforce_cache_limit_def st_keeps_def cache_bounded_def st_inv_def)
qed

lemma insert_loaded_spec:
  assumes "st_inv cfg st C" and "0 < page_size cfg" and "bs_dev_size st \<noteq> 0"
    and "length buf = page_size cfg"
    and "\<And>sq. page_matches (page_size cfg) idx \<lparr>pg_data = buf, pg_dirty = False, pg_seq = sq\<rparr> C"
  shows "st_keeps cfg C st (insert_loaded cfg st idx buf) \<and>
    dirty_set (bs_pages (insert_loaded cfg st idx buf)) = dirty_set (bs_pages st) \<and>
    bm_contains (bs_pages (insert_loaded cfg st idx buf)) idx \<and>
    (bm_contains (bs_pages st) idx \<or> cache_bounded cfg (bs_pages (insert_loaded cfg st idx buf)))"
proof (cases "bm_contains (bs_pages st) idx")
  case True
  with assms(1) show ?thesis by (simp add: insert_loaded_def st_keeps_def)
next
  case False
  define sq where "sq = bs_seq_counter st + 1"
  define p where "p = \<lparr>pg_data = buf, pg_dirty = False, pg_seq = sq\<rparr>"
  define st1 where "st1 = st\<lparr>bs_seq_counter := sq, bs_pages := bm_insert idx p (bs_pages st),
      bs_lru := touch (bs_lru st) idx True\<rparr>"
  have eq: "insert_loaded cfg st idx buf = enforce_cache_limit cfg st1 (Some idx)"
    using False by (simp add: insert_loaded_def st1_def p_def sq_def Let_def)
  have match: "page_matches (page_size cfg) idx p C" using assms(5) by (simp add: p_def)
  have dirty: "dirty_set (bs_pages st1) = dirty_set (bs_pages st)"
    using False by (auto simp: st1_def p_def dirty_set_insert contains_clean_dirty)
  have "overlay (page_size cfg) (bs_pages st1) C = overlay (page_size cfg) (bs_pages st) C"
    using overlay_insert_clean [OF assms(2) _ match, of "bs_pages st"] False
    by (simp add: st1_def bm_contains_def)
  moreover have "st_inv cfg st1 C"
    using assms match lru_ok_touch_new [of "bs_pages st" "bs_lru st" p True idx]
    by (auto simp: st_inv_def st1_def p_def bmap_simps pages_ok_insert)
  moreover have "map_of (bs_pages st1) idx = Some p" by (simp add: st1_def bmap_simps)
  ultimately show ?thesis
    using enforce_cache_limit_spec [of cfg st1 C "Some idx"] dirty assms(2)
    unfolding eq by (auto simp: st_keeps_def bm_contains_def st1_def)
qed

text \<open>Setting new bytes into a resident page, or its dirty bit, keeps the state invariant.\<close>

lemma st_inv_store:
  assumes "st_inv cfg st C" and "map_of (bs_pages st) idx = Some p"
    and "length (pg_data p') = page_size cfg" and "pg_dirty p' = (\<not> clean)"
    and "clean \<Longrightarrow> page_matches (page_size cfg) idx p' C"
  shows "st_inv cfg (st\<lparr>bs_seq_counter := sq, bs_pages := bm_insert idx p' (bs_pages st),
      bs_lru := touch (bs_lru st) idx clean, bs_last_write := w\<rparr>) C"
  using assms lru_ok_touch_new [of "bs_pages st" "bs_lru st" p' clean idx]
  by (cases clean) (auto simp: st_inv_def bmap_simps intro!: pages_ok_insert)

section \<open>The layer over a lawful backend\<close>

text \<open>The step from \<open>s\<close> to \<open>s'\<close> keeps the invariant and the view.\<close>

definition buf_keeps ::
  "buf_config \<Rightarrow> ('s \<Rightarrow> bytes) \<Rightarrow> ('s \<Rightarrow> bool) \<Rightarrow> 's buffered \<Rightarrow> 's buffered \<Rightarrow> bool" where
  "buf_keeps cfg content binv s s' \<longleftrightarrow> buf_inv cfg content binv s' \<and> bs_dev_size (bf_state s') = bs_dev_size (bf_state s) \<and>
     buf_view cfg content s' = buf_view cfg content s"

locale buffered_layer = page_store B content durable binv
  for B :: "'s backend" and content durable binv +
  fixes cfg :: buf_config
  assumes cfg_ok: "buf_config_ok cfg"
begin

lemma ps_pos: "0 < page_size cfg" and ps_aligned: "512 dvd page_size cfg"
  using cfg_ok by (auto simp: buf_config_ok_def)

lemma keeps_refl: "buf_inv cfg content binv s \<Longrightarrow> buf_keeps cfg content binv s s"
  by (simp add: buf_keeps_def)

lemma keeps_trans: "buf_keeps cfg content binv s s' \<Longrightarrow> buf_keeps cfg content binv s' s'' \<Longrightarrow> buf_keeps cfg content binv s s''"
  by (simp add: buf_keeps_def)

lemma keeps_inner:
  "buf_inv cfg content binv s \<Longrightarrow> binv i' \<Longrightarrow> content i' = content (bf_inner s) \<Longrightarrow>
   buf_keeps cfg content binv s (s\<lparr>bf_inner := i'\<rparr>)"
  by (simp add: buf_keeps_def buf_inv_def buf_view_def)

lemma keeps_state:
  "buf_inv cfg content binv s \<Longrightarrow> binv i' \<Longrightarrow> content i' = content (bf_inner s) \<Longrightarrow>
   st_keeps cfg (content (bf_inner s)) (bf_state s) st' \<Longrightarrow>
   buf_keeps cfg content binv s (s\<lparr>bf_inner := i', bf_state := st'\<rparr>)"
  by (simp add: buf_keeps_def st_keeps_def buf_inv_def buf_view_def)

lemma buf_invD:
  assumes "buf_inv cfg content binv s"
  shows "binv (bf_inner s)" "st_inv cfg (bf_state s) (content (bf_inner s))"
    "length (content (bf_inner s)) < u64_limit" "512 dvd length (content (bf_inner s))"
  using assms size_aligned by (auto simp: buf_inv_def)

lemma length_view [simp]: "length (buf_view cfg content s) = length (content (bf_inner s))"
  by (simp add: buf_view_def)

lemma page_inv:
  assumes "buf_inv cfg content binv s" and "map_of (bs_pages (bf_state s)) k = Some p"
  shows "length (pg_data p) = page_size cfg" "bs_dev_size (bf_state s) = length (content (bf_inner s))"
    "bs_dev_size (bf_state s) \<noteq> 0"
proof -
  from assms have "bs_pages (bf_state s) \<noteq> []" by auto
  with assms show "bs_dev_size (bf_state s) \<noteq> 0"
    "bs_dev_size (bf_state s) = length (content (bf_inner s))" "length (pg_data p) = page_size cfg"
    by (auto simp: buf_inv_def st_inv_def pages_ok_def)
qed

lemma dev_size_spec:
  assumes "buf_inv cfg content binv s" and "buf_dev_size B s = (z, s')"
  shows "buf_inv cfg content binv s' \<and> buf_view cfg content s' = buf_view cfg content s \<and>
    bs_pages (bf_state s') = bs_pages (bf_state s) \<and>
    (\<forall>n. z = Inr n \<longrightarrow> n = length (buf_view cfg content s) \<and> n = bs_dev_size (bf_state s'))"
proof (cases "bs_dev_size (bf_state s) = 0")
  case False
  with assms show ?thesis by (auto simp: buf_dev_size_def buf_inv_def st_inv_def)
next
  case True
  obtain z0 i' where sz: "b_size B (bf_inner s) = (z0, i')" by fastforce
  from size_law [OF buf_invD(1) [OF assms(1)] sz] have i': "binv i'" "content i' = content (bf_inner s)"
    "\<And>n. z0 = Inr n \<Longrightarrow> n = length (content (bf_inner s))" by auto
  from True assms(1) have "bs_pages (bf_state s) = []" by (auto simp: buf_inv_def st_inv_def)
  with True assms sz i' show ?thesis
    by (auto simp: buf_dev_size_def buf_inv_def st_inv_def buf_view_def Let_def split: sum.splits)
qed

lemma loaded_page_matches:
  assumes "data = segment (k * page_size cfg) n C" and "n = min (length C - k * page_size cfg) (page_size cfg)"
    and "pg_data p = overwrite 0 data (zeros (page_size cfg))"
  shows "page_matches (page_size cfg) k p C"
  unfolding page_matches_def
proof (intro allI impI)
  fix i assume "i < page_size cfg" "k * page_size cfg + i < length C"
  with assms have "i < n" by linarith
  with assms \<open>k * page_size cfg + i < length C\<close> show "pg_data p ! i = C ! (k * page_size cfg + i)"
    by (simp add: nth_overwrite length_segment nth_segment)
qed

lemma ensure_resident_spec:
  assumes inv: "buf_inv cfg content binv s" and dev: "dev = bs_dev_size (bf_state s)" "dev \<noteq> 0"
    and r: "ensure_resident cfg B idx dev s = (r, s')"
    and idx: "idx * page_size cfg < dev"
  shows "buf_keeps cfg content binv s s' \<and> dirty_set (bs_pages (bf_state s')) = dirty_set (bs_pages (bf_state s)) \<and>
    (r = Inr () \<longrightarrow> bm_contains (bs_pages (bf_state s')) idx) \<and>
    (within_limits cfg (bs_pages (bf_state s)) \<longrightarrow> within_limits cfg (bs_pages (bf_state s')))"
proof (cases "bm_contains (bs_pages (bf_state s)) idx")
  case True
  with r inv show ?thesis by (auto simp: ensure_resident_def keeps_refl)
next
  case False
  define C where "C = content (bf_inner s)"
  define off where "off = idx * page_size cfg"
  define n where "n = min (length C - off) (page_size cfg)"
  have len: "dev = length C" using dev inv by (auto simp: buf_inv_def st_inv_def C_def)
  have n: "0 < n" using idx len ps_pos by (simp add: n_def off_def)
  obtain rd i' where rd: "b_read B (bf_inner s) off n = (rd, i')" by fastforce
  have "off + n \<le> length (content (bf_inner s))" using idx len by (simp add: n_def off_def C_def)
  from page_read [OF buf_invD(1) [OF inv] n this rd] have i': "binv i'" "content i' = C"
    and d: "\<And>d. rd = Inr d \<Longrightarrow> length d = n \<Longrightarrow> d = segment off n C" by (auto simp: C_def)
  have res: "ensure_resident cfg B idx dev s =
      (case rd of Inl e \<Rightarrow> (Inl e, s\<lparr>bf_inner := i'\<rparr>)
       | Inr data \<Rightarrow> if length data \<noteq> n then (Inl ShortRead, s\<lparr>bf_inner := i'\<rparr>)
           else (Inr (), s\<lparr>bf_inner := i', bf_state := insert_loaded cfg (bf_state s) idx
                   (overwrite 0 data (zeros (page_size cfg)))\<rparr>))"
    using False n rd dev by (simp add: ensure_resident_def Let_def n_def off_def len split: sum.splits)
  show ?thesis
  proof (cases rd)
    case (Inl e)
    with res r keeps_inner [OF inv i'(1)] i'(2) show ?thesis by (auto simp: C_def)
  next
    case (Inr data)
    define buf where "buf = overwrite 0 data (zeros (page_size cfg))"
    show ?thesis
    proof (cases "length data = n")
    case False
    with res r Inr keeps_inner [OF inv i'(1)] i'(2) show ?thesis by (auto simp: C_def)
    next
    case True
    from d [OF Inr True] True have data: "data = segment off n C" "length data = n" by auto
    then have "length buf = page_size cfg" by (simp add: buf_def length_overwrite n_def)
    moreover have "page_matches (page_size cfg) idx \<lparr>pg_data = buf, pg_dirty = False, pg_seq = sq\<rparr> C" for sq
      by (rule loaded_page_matches [OF _ n_def [unfolded off_def]]) (simp_all add: data(1) buf_def off_def)
    ultimately have st: "st_keeps cfg C (bf_state s) (insert_loaded cfg (bf_state s) idx buf)"
      "dirty_set (bs_pages (insert_loaded cfg (bf_state s) idx buf)) = dirty_set (bs_pages (bf_state s))"
      "bm_contains (bs_pages (insert_loaded cfg (bf_state s) idx buf)) idx"
      "cache_bounded cfg (bs_pages (insert_loaded cfg (bf_state s) idx buf))"
      using insert_loaded_spec [of cfg "bf_state s" C buf idx] False ps_pos buf_invD(2) [OF inv] dev
      by (auto simp: C_def)
    from res r Inr data(2) have "r = Inr ()"
      "s' = s\<lparr>bf_inner := i', bf_state := insert_loaded cfg (bf_state s) idx buf\<rparr>"
      by (auto simp: buf_def)
    with st keeps_state [OF inv i'(1)] i'(2) within_limitsI [OF cfg_ok st(4)] show ?thesis
      by (simp add: C_def within_limits_def)
    qed
  qed
qed

text \<open>
  Flushing one page: the view never changes, a failed upload leaves the page dirty, a successful
  one makes it clean.
\<close>

lemma flush_snapshot_dirty:
  assumes "buf_inv cfg content binv s" and "map_of (bs_pages (bf_state s)) idx = Some p" "pg_dirty p"
  shows "flush_snapshot cfg (bf_state s) idx =
    Some (pg_seq p, idx * page_size cfg,
      min (page_size cfg) (length (content (bf_inner s)) - idx * page_size cfg), pg_data p)"
  using assms page_inv [OF assms(1,2)] by (simp add: flush_snapshot_def Let_def)

lemma flush_failed:
  assumes inv: "buf_inv cfg content binv s" and idx: "idx \<in> dirty_set (bs_pages (bf_state s))"
    and i': "binv i'" "same_outside (idx * page_size cfg) n (content (bf_inner s)) (content i')"
      "n \<le> page_size cfg"
  shows "buf_keeps cfg content binv s (s\<lparr>bf_inner := i'\<rparr>)"
proof -
  have "pages_ok (page_size cfg) (bs_pages (bf_state s)) (content i')"
    using pages_ok_base [OF i'(2,3) idx] buf_invD(2) [OF inv] by (simp add: st_inv_def)
  moreover have "buf_view cfg content (s\<lparr>bf_inner := i'\<rparr>) = buf_view cfg content s"
    using overlay_base [OF i'(2,3)] idx by (simp add: buf_view_def contains_clean_dirty)
  ultimately show ?thesis
    using i'(1) buf_invD(2) [OF inv] same_outside_length [OF i'(2)]
    by (auto simp: buf_keeps_def buf_inv_def st_inv_def)
qed

lemma flush_marked:
  assumes inv: "buf_inv cfg content binv s"
    and p: "map_of (bs_pages (bf_state s)) idx = Some p" "pg_dirty p"
    and n: "n = min (page_size cfg) (length (content (bf_inner s)) - idx * page_size cfg)"
    and i': "binv i'" "same_outside (idx * page_size cfg) n (content (bf_inner s)) (content i')"
      "\<forall>i < n. content i' ! (idx * page_size cfg + i) = pg_data p ! i"
    and st': "st' = flush_mark (bf_state s) idx (pg_seq p)"
  shows "buf_keeps cfg content binv s (s\<lparr>bf_inner := i', bf_state := st'\<rparr>) \<and>
    length (bs_pages st') = length (bs_pages (bf_state s)) \<and>
    dirty_set (bs_pages st') = dirty_set (bs_pages (bf_state s)) - {idx}"
proof -
  define P where "P = bs_pages (bf_state s)"
  define p' where "p' = p\<lparr>pg_dirty := False\<rparr>"
  have st'': "st' = (bf_state s)\<lparr>bs_pages := bm_insert idx p' P, bs_lru := touch (bs_lru (bf_state s)) idx True\<rparr>"
    using p by (simp add: st' flush_mark_def P_def p'_def)
  have idx: "idx \<in> dirty_set P" using p by (auto simp: dirty_set_def P_def)
  note failed = flush_failed [OF inv idx [unfolded P_def] i'(1,2)]
  have len: "length (content i') = length (content (bf_inner s))" using i'(2) by (rule same_outside_length)
  have "page_matches (page_size cfg) idx p' (content i')"
    using i'(3) len by (auto simp: page_matches_def p'_def n)
  moreover from failed have "st_inv cfg (bf_state s) (content i')"
    by (simp add: n buf_keeps_def buf_inv_def)
  ultimately have "st_inv cfg st' (content i')"
    using lru_ok_touch_new [of P "bs_lru (bf_state s)" p' True idx] page_inv [OF inv p(1)]
    by (auto simp: st_inv_def st'' P_def [symmetric] p'_def bmap_simps intro!: pages_ok_insert)
  moreover have "overlay (page_size cfg) (bm_insert idx p' P) (content i') = buf_view cfg content s"
    using overlay_same_data [of P idx p p'] failed p
    by (simp add: p'_def n P_def buf_keeps_def buf_view_def)
  ultimately have "buf_keeps cfg content binv s (s\<lparr>bf_inner := i', bf_state := st'\<rparr>)"
    using i'(1) by (simp add: buf_keeps_def buf_inv_def) (simp add: buf_view_def st'')
  moreover have "bm_wf P" using buf_invD(2) [OF inv] by (simp add: st_inv_def P_def)
  ultimately show ?thesis
    using length_bm_insert_resident [of P idx p p'] p
    by (simp add: st'' P_def dirty_set_insert p'_def)
qed

lemma pass_time_sel [simp]:
  "bf_inner (pass_time s) = bf_inner s" "bf_state (pass_time s) = bf_state s"
  "buf_inv cfg content binv (pass_time s) = buf_inv cfg content binv s"
  "buf_view cfg content (pass_time s) = buf_view cfg content s"
  "buf_keeps cfg content binv (pass_time s) s' = buf_keeps cfg content binv s s'"
  by (simp_all add: pass_time_def buf_inv_def buf_view_def buf_keeps_def)

lemma flush_page_spec:
  assumes inv: "buf_inv cfg content binv s" and r: "flush_page cfg B el idx s = (u, s')"
  shows "buf_keeps cfg content binv s s' \<and>
    length (bs_pages (bf_state s')) = length (bs_pages (bf_state s)) \<and>
    dirty_set (bs_pages (bf_state s')) =
      (if is_ok u then dirty_set (bs_pages (bf_state s)) - {idx} else dirty_set (bs_pages (bf_state s)))"
proof (cases "idx \<in> dirty_set (bs_pages (bf_state s))")
  case False
  then have "flush_snapshot cfg (bf_state s) idx = None"
    by (auto simp: flush_snapshot_def dirty_set_def split: option.splits)
  with r False inv show ?thesis by (auto simp: flush_page_def keeps_refl)
next
  case True
  define s0 where "s0 = pass_time s"
  have inv0: "buf_inv cfg content binv s0" using inv by (simp add: s0_def)
  define C where "C = content (bf_inner s)"
  define off where "off = idx * page_size cfg"
  define n where "n = min (page_size cfg) (length C - off)"
  from True obtain p where p: "map_of (bs_pages (bf_state s)) idx = Some p" "pg_dirty p"
    by (auto simp: dirty_set_def)
  note snap = flush_snapshot_dirty [OF inv p, folded C_def off_def, folded n_def]
  define st' where "st' = flush_mark (bf_state s) idx (pg_seq p)"
  show ?thesis
  proof (cases "0 < n")
    case False
    with r snap have "is_ok u" "s' = s\<lparr>bf_inner := bf_inner s, bf_state := st'\<rparr>"
      by (auto simp: flush_page_def st'_def)
    with flush_marked [OF inv p n_def [unfolded C_def off_def] buf_invD(1) [OF inv] same_outside_refl _ st'_def]
      False show ?thesis by simp
  next
    case n: True
    obtain w i' where w: "b_write B (bf_inner s0) off (take n (pg_data p)) = (w, i')" by fastforce
    have d: "length (take n (pg_data p)) = n" using page_inv [OF inv p(1)] by (simp add: n_def)
    have end_le: "off + n \<le> length C" using n unfolding n_def by linarith
    then have "off + length (take n (pg_data p)) \<le> length (content (bf_inner s0))"
      using d by (simp add: C_def s0_def)
    moreover have "take n (pg_data p) \<noteq> []" using d n by auto
    ultimately have wl: "binv i' \<and> (w = Inr () \<longrightarrow> content i' = overwrite off (take n (pg_data p)) (content (bf_inner s0))) \<and>
        (w \<noteq> Inr () \<longrightarrow> same_outside off n (content (bf_inner s0)) (content i'))"
      using page_write [OF buf_invD(1) [OF inv0] _ _ w] d by simp
    have so: "same_outside off n C (content i')" and bi: "binv i'"
      using wl same_outside_overwrite [of off "take n (pg_data p)" C] d end_le
      by (cases "w = Inr ()"; simp add: C_def s0_def)+
    have kept: "buf_keeps cfg content binv s0 (s0\<lparr>bf_inner := i'\<rparr>)"
      using flush_failed [OF inv0, of idx i' n] True so bi by (simp add: s0_def C_def off_def n_def)
    have res: "flush_page cfg B el idx s =
        (case w of Inl e \<Rightarrow> (Inl e, s0\<lparr>bf_inner := i'\<rparr>)
         | Inr _ \<Rightarrow> if 0 < flush_io_timeout_secs cfg \<and> flush_io_timeout_secs cfg < el + upload_time s
             then (Inl Timeout, s0\<lparr>bf_inner := i'\<rparr>)
             else (Inr (el + upload_time s), s0\<lparr>bf_inner := i', bf_state := st'\<rparr>))"
      using snap w n by (cases w) (simp_all add: flush_page_def st'_def s0_def Let_def)
    show ?thesis
    proof (cases "is_ok u")
      case False
      then have "s' = s0\<lparr>bf_inner := i'\<rparr>" using r res by (auto split: sum.splits if_splits)
      with False kept show ?thesis by (simp add: s0_def)
    next
      case u_ok: True
      then have w_ok: "w = Inr ()" and s': "s' = s0\<lparr>bf_inner := i', bf_state := st'\<rparr>"
        using r res by (auto split: sum.splits if_splits)
      then have "content i' = overwrite off (take n (pg_data p)) C" using wl by (simp add: C_def s0_def)
      then have "\<forall>i < n. content i' ! (off + i) = pg_data p ! i"
        using d end_le by (auto simp: nth_overwrite)
      with flush_marked [OF inv0, of idx p n i' st'] p so bi u_ok s' show ?thesis
        by (simp add: s0_def C_def off_def n_def st'_def)
    qed
  qed
qed

lemma flush_pages_spec:
  assumes "buf_inv cfg content binv s" and "flush_pages cfg B el idxs s = (u, s')"
  shows "buf_keeps cfg content binv s s' \<and>
    length (bs_pages (bf_state s')) = length (bs_pages (bf_state s)) \<and>
    (u = Inr () \<longrightarrow> dirty_set (bs_pages (bf_state s')) = dirty_set (bs_pages (bf_state s)) - set idxs)"
  using assms
proof (induction idxs arbitrary: el s)
  case Nil
  then show ?case by (auto simp: keeps_refl)
next
  case (Cons idx idxs)
  obtain v s1 where f: "flush_page cfg B el idx s = (v, s1)" by fastforce
  note spec = flush_page_spec [OF Cons.prems(1) f]
  show ?case
  proof (cases v)
    case (Inl e)
    with Cons.prems(2) f have "u = Inl e" "s' = s1" by auto
    with spec show ?thesis by simp
  next
    case (Inr el')
    with Cons.prems(2) f have rest: "flush_pages cfg B el' idxs s1 = (u, s')" by simp
    from spec have "buf_inv cfg content binv s1" by (simp add: buf_keeps_def)
    from Cons.IH [OF this rest] spec Inr show ?thesis by (auto intro: keeps_trans)
  qed
qed

lemma flush_indices_Nil [simp]: "flush_indices cfg B [] s = (Inr (), s)"
  by (simp add: flush_indices_def)

lemmas flush_indices_spec = flush_pages_spec [where el = 0, folded flush_indices_def]

lemma dirty_victims_spec:
  assumes "bm_wf P"
  shows "distinct (dirty_victims cfg P)" and "set (dirty_victims cfg P) \<subseteq> dirty_set P"
    and "length (dirty_victims cfg P) = card (dirty_set P) - max_dirty_pages cfg"
proof -
  define dirty where "dirty = filter (\<lambda>(_, p). pg_dirty p) P"
  define aged where "aged = map (\<lambda>(idx, p). (pg_seq p, idx)) dirty"
  have vic: "dirty_victims cfg P = map snd (take (length dirty - max_dirty_pages cfg) (sort aged))"
    by (simp add: dirty_victims_def dirty_def aged_def Let_def)
  have snd_aged: "map snd aged = dirty_indices P"
    by (auto simp: aged_def dirty_indices_def dirty_def)
  have "distinct (map snd (sort aged))"
    using distinct_dirty_indices [OF assms] unfolding snd_aged [symmetric] distinct_map by simp
  then show "distinct (dirty_victims cfg P)"
    unfolding vic by (metis distinct_take take_map)
  have "set (map snd (sort aged)) = dirty_set P"
    using set_dirty_indices [OF assms] by (metis snd_aged set_map set_sort)
  then show "set (dirty_victims cfg P) \<subseteq> dirty_set P"
    unfolding vic by (metis set_take_subset take_map)
  show "length (dirty_victims cfg P) = card (dirty_set P) - max_dirty_pages cfg"
    using card_dirty_set [OF assms] by (simp add: vic aged_def dirty_def)
qed

lemma enforce_dirty_limit_spec:
  assumes inv: "buf_inv cfg content binv s" and r: "enforce_dirty_limit cfg B s = (u, s')"
  shows "buf_keeps cfg content binv s s' \<and>
    length (bs_pages (bf_state s')) = length (bs_pages (bf_state s)) \<and>
    (u = Inr () \<longrightarrow> card (dirty_set (bs_pages (bf_state s'))) \<le> max_dirty_pages cfg)"
proof -
  define P where "P = bs_pages (bf_state s)"
  have wf: "bm_wf P" using buf_invD(2) [OF inv] by (simp add: st_inv_def P_def)
  note vic = dirty_victims_spec [OF wf]
  show ?thesis
  proof (cases "card (dirty_set P) \<le> max_dirty_pages cfg")
    case True
    with r inv card_dirty_set [OF wf] show ?thesis
      by (auto simp: enforce_dirty_limit_def P_def Let_def keeps_refl)
  next
    case False
    with vic(3) have "dirty_victims cfg P \<noteq> []" by auto
    with False r card_dirty_set [OF wf] have "flush_indices cfg B (dirty_victims cfg P) s = (u, s')"
      by (simp add: enforce_dirty_limit_def P_def Let_def)
    note spec = flush_indices_spec [OF inv this]
    have "card (dirty_set P - set (dirty_victims cfg P)) = max_dirty_pages cfg"
      using vic False by (simp add: card_Diff_subset distinct_card)
    with spec show ?thesis by (auto simp: P_def)
  qed
qed

section \<open>Reads and writes through the buffer\<close>

lemma read_chunk_spec:
  assumes inv: "buf_inv cfg content binv s" and dev: "dev = bs_dev_size (bf_state s)" "dev \<noteq> 0"
    and r: "read_chunk cfg B idx a n dev s = (r, s')"
    and rng: "a + n \<le> page_size cfg" "idx * page_size cfg + a + n \<le> dev" "0 < n"
  shows "buf_keeps cfg content binv s s' \<and>
    (\<forall>d. r = Inr d \<longrightarrow> d = segment (idx * page_size cfg + a) n (buf_view cfg content s)) \<and>
    (within_limits cfg (bs_pages (bf_state s)) \<longrightarrow> within_limits cfg (bs_pages (bf_state s')))"
proof -
  obtain v s1 where e: "ensure_resident cfg B idx dev s = (v, s1)" by fastforce
  note er = ensure_resident_spec [OF inv dev e]
  have k: "buf_keeps cfg content binv s s1" using er rng by simp
  then have inv1: "buf_inv cfg content binv s1" by (simp add: buf_keeps_def)
  show ?thesis
  proof (cases v)
    case (Inl e')
    with r e er rng show ?thesis by (auto simp: read_chunk_def)
  next
    case (Inr x)
    with er rng obtain p where p: "map_of (bs_pages (bf_state s1)) idx = Some p"
      by (auto simp: bm_contains_def)
    define st where "st = (bf_state s1)\<lparr>bs_lru := touch (bs_lru (bf_state s1)) idx (\<not> pg_dirty p)\<rparr>"
    have r': "r = Inr (segment a n (pg_data p))"
      "s' = s1\<lparr>bf_state := enforce_cache_limit cfg st (Some idx)\<rparr>"
      using r e Inr p by (auto simp: read_chunk_def st_def Let_def)
    have "st_inv cfg st (content (bf_inner s1))"
      using buf_invD(2) [OF inv1] lru_ok_touch_resident [OF _ p] by (simp add: st_inv_def st_def)
    note ec = enforce_cache_limit_spec [OF this ps_pos, of "Some idx"]
    then have "st_keeps cfg (content (bf_inner s1)) (bf_state s1) (enforce_cache_limit cfg st (Some idx))"
      by (simp add: st_keeps_def st_def)
    from keeps_state [OF inv1 buf_invD(1) [OF inv1] refl this]
    have k2: "buf_keeps cfg content binv s1 s'" using r' by simp
    have "segment a n (pg_data p) = segment (idx * page_size cfg + a) n (buf_view cfg content s1)"
      unfolding buf_view_def
      using overlay_page_segment [OF p] page_inv [OF inv1 p] rng dev k by (simp add: buf_keeps_def)
    moreover have "within_limits cfg (bs_pages (bf_state s'))"
      if "within_limits cfg (bs_pages (bf_state s))"
    proof (rule within_limitsI [OF cfg_ok])
      show "cache_bounded cfg (bs_pages (bf_state s'))" using ec r' by simp
      show "card (dirty_set (bs_pages (bf_state s'))) \<le> max_dirty_pages cfg"
        using that er rng ec r' by (simp add: within_limits_def st_def)
    qed
    ultimately show ?thesis
      using keeps_trans [OF k k2] k r' by (simp add: buf_keeps_def)
  qed
qed

lemma store_chunk_spec:
  assumes inv: "buf_inv cfg content binv s" and dev: "dev = bs_dev_size (bf_state s)" "dev \<noteq> 0"
    and r: "store_chunk cfg B idx a d dev s = (u, s')"
    and rng: "a + length d \<le> page_size cfg" "idx * page_size cfg + a + length d \<le> dev" "d \<noteq> []"
  shows "(u = Inr () \<longrightarrow> buf_inv cfg content binv s' \<and> bs_dev_size (bf_state s') = dev \<and>
      buf_view cfg content s' = overwrite (idx * page_size cfg + a) d (buf_view cfg content s)) \<and>
    (u \<noteq> Inr () \<longrightarrow> buf_keeps cfg content binv s s') \<and>
    (within_limits cfg (bs_pages (bf_state s)) \<longrightarrow> max_cached_pages cfg \<noteq> 0 \<longrightarrow>
       length (bs_pages (bf_state s')) \<le> max_cached_pages cfg + 1)"
proof -
  obtain v s1 where e: "ensure_resident cfg B idx dev s = (v, s1)" by fastforce
  have "idx * page_size cfg < dev" using rng by (cases d) auto
  note er = ensure_resident_spec [OF inv dev e this]
  then have inv1: "buf_inv cfg content binv s1" by (simp add: buf_keeps_def)
  show ?thesis
  proof (cases v)
    case (Inl e')
    with r e er show ?thesis by (auto simp: store_chunk_def within_limits_def)
  next
    case (Inr x)
    with er obtain p where p: "map_of (bs_pages (bf_state s1)) idx = Some p"
      by (auto simp: bm_contains_def)
    define sq where "sq = bs_seq_counter (bf_state s1) + 1"
    define p' where "p' = p\<lparr>pg_data := overwrite a d (pg_data p), pg_dirty := True, pg_seq := sq\<rparr>"
    define st where "st = (bf_state s1)\<lparr>bs_seq_counter := sq,
        bs_pages := bm_insert idx p' (bs_pages (bf_state s1)),
        bs_lru := touch (bs_lru (bf_state s1)) idx False, bs_last_write := Some (bf_clock s1)\<rparr>"
    have r': "u = Inr ()" "s' = s1\<lparr>bf_state := st\<rparr>"
      using r e Inr p by (auto simp: store_chunk_def st_def p'_def sq_def Let_def)
    note pi = page_inv [OF inv1 p]
    have "st_inv cfg st (content (bf_inner s1))"
      unfolding st_def
      using pi rng by (intro st_inv_store [OF buf_invD(2) [OF inv1] p]) (simp_all add: p'_def buf_simps)
    moreover have "buf_view cfg content s' = overwrite (idx * page_size cfg + a) d (buf_view cfg content s1)"
      using overlay_store [OF p, of "page_size cfg" a d "content (bf_inner s1)" p'] pi rng ps_pos dev er
      by (simp add: buf_view_def r'(2) st_def p'_def buf_keeps_def)
    moreover have "bm_wf (bs_pages (bf_state s1))" using buf_invD(2) [OF inv1] by (simp add: st_inv_def)
    ultimately show ?thesis
      using r' er buf_invD(1) [OF inv1] dev length_bm_insert_resident [OF _ p, of p']
      by (simp add: buf_inv_def buf_keeps_def st_def within_limits_def)
  qed
qed

lemma chunk_range:
  assumes "pos < len" and "off + len \<le> dev"
    and "n = min (page_size cfg - (off + pos) mod page_size cfg) (len - pos)"
  shows "(off + pos) mod page_size cfg + n \<le> page_size cfg"
    and "(off + pos) div page_size cfg * page_size cfg + (off + pos) mod page_size cfg + n \<le> dev"
    and "0 < n" and "pos + n \<le> len"
  using assms mod_less_divisor [OF ps_pos, of "off + pos"] by auto

lemma read_loop_spec:
  assumes "read_loop cfg B dev off len pos result s = (r, s')"
    and "buf_inv cfg content binv s" and "dev = bs_dev_size (bf_state s)" "dev \<noteq> 0"
    and "off + len \<le> dev" and "pos \<le> len" and "length result = len"
  shows "buf_keeps cfg content binv s s' \<and>
    (\<forall>d. r = Inr d \<longrightarrow> d = overwrite pos (segment (off + pos) (len - pos) (buf_view cfg content s)) result) \<and>
    (within_limits cfg (bs_pages (bf_state s)) \<longrightarrow> within_limits cfg (bs_pages (bf_state s')))"
  using assms
proof (induction "len - pos" arbitrary: pos result s rule: less_induct)
  case less
  show ?case
  proof (cases "pos < len")
    case False
    with less.prems ps_pos show ?thesis by (auto simp: read_loop.simps keeps_refl)
  next
    case True
    define n where "n = min (page_size cfg - (off + pos) mod page_size cfg) (len - pos)"
    note rng = chunk_range [OF True less.prems(5) n_def]
    obtain c s1 where c: "read_chunk cfg B ((off + pos) div page_size cfg)
        ((off + pos) mod page_size cfg) n dev s = (c, s1)" by fastforce
    note spec = read_chunk_spec [OF less.prems(2,3,4) c rng(1,2,3)]
    show ?thesis
    proof (cases c)
      case (Inl e)
      with less.prems(1) True c ps_pos have "r = Inl e" "s' = s1"
        by (auto simp: read_loop.simps [of cfg B dev off len pos] n_def Let_def)
      with spec show ?thesis by simp
    next
      case (Inr chunk)
      have rec: "read_loop cfg B dev off len (pos + n) (overwrite pos chunk result) s1 = (r, s')"
        using less.prems(1) True c Inr ps_pos
        by (simp add: read_loop.simps [of cfg B dev off len pos] n_def Let_def)
      have chunk: "chunk = segment (off + pos) n (buf_view cfg content s)" using spec Inr by simp
      have len_view: "dev = length (buf_view cfg content s)"
        using less.prems(2,3,4) by (simp add: buf_inv_def st_inv_def)
      have lc: "length chunk = n" using chunk len_view less.prems(5) rng(4) by (simp add: buf_simps)
      have "len - (pos + n) < len - pos" using True rng(3) by simp
      note IH = less.hyps [OF this rec]
      have "overwrite (pos + n) (segment (off + (pos + n)) (len - (pos + n)) (buf_view cfg content s))
          (overwrite pos chunk result) =
        overwrite pos (segment (off + pos) (len - pos) (buf_view cfg content s)) result"
        using overwrite_append [of pos chunk _ result] lc chunk rng(4) less.prems(5,7) len_view
          segment_add [of "off + pos" n "len - pos - n" "buf_view cfg content s"]
        by (simp add: length_segment add.assoc)
      with IH spec less.prems rng(4) lc show ?thesis
        by (auto simp: buf_keeps_def buf_simps)
    qed
  qed
qed

lemma write_loop_spec:
  assumes "write_loop cfg B dev off data pos s = (u, s')"
    and "buf_inv cfg content binv s" and "dev = bs_dev_size (bf_state s)" "dev \<noteq> 0"
    and "off + length data \<le> dev" and "pos \<le> length data"
  shows "buf_inv cfg content binv s' \<and>
    stored off data pos u (buf_view cfg content s) (buf_view cfg content s') \<and>
    (u = Inr () \<longrightarrow> within_limits cfg (bs_pages (bf_state s)) \<longrightarrow> within_limits cfg (bs_pages (bf_state s')))"
  using assms
proof (induction "length data - pos" arbitrary: pos s rule: less_induct)
  case less
  show ?case
  proof (cases "pos < length data")
    case False
    with less.prems ps_pos show ?thesis by (auto simp: write_loop.simps stored_def)
  next
    case True
    define V where "V = buf_view cfg content s"
    define n where "n = min (page_size cfg - (off + pos) mod page_size cfg) (length data - pos)"
    define d where "d = segment pos n data"
    note rng = chunk_range [OF True less.prems(5) n_def]
    have ld: "length d = n" using rng(4) by (simp add: d_def buf_simps)
    obtain c s1 where c: "store_chunk cfg B ((off + pos) div page_size cfg)
        ((off + pos) mod page_size cfg) d dev s = (c, s1)" by fastforce
    have "d \<noteq> []" using ld rng(3) by auto
    note spec = store_chunk_spec [OF less.prems(2,3,4) c, unfolded ld, OF rng(1,2) this, folded V_def]
    have len_view: "dev = length V"
      using less.prems(2,3,4) by (simp add: buf_inv_def st_inv_def V_def)
    show ?thesis
    proof (cases c)
      case (Inl e)
      with less.prems(1) True c ps_pos have "u = Inl e" "s' = s1"
        by (auto simp: write_loop.simps [of cfg B dev off data pos] n_def d_def Let_def)
      with spec Inl show ?thesis by (simp add: stored_def V_def buf_keeps_def)
    next
      case (Inr x)
      have s1: "buf_inv cfg content binv s1" "bs_dev_size (bf_state s1) = dev"
        "buf_view cfg content s1 = overwrite (off + pos) d V"
        using spec Inr by (simp_all add: add.commute)
      have frame: "same_outside off (length data) V (overwrite (off + pos) d V)"
        by (rule same_outside_mono [OF same_outside_overwrite])
           (use ld rng(4) less.prems(5) len_view in simp_all)
      obtain l s2 where l: "enforce_dirty_limit cfg B s1 = (l, s2)" by fastforce
      note lim = enforce_dirty_limit_spec [OF s1(1) l]
      show ?thesis
      proof (cases l)
        case (Inl e)
        with less.prems(1) True c Inr l ps_pos have "u = Inl e" "s' = s2"
          by (auto simp: write_loop.simps [of cfg B dev off data pos] n_def d_def Let_def)
        with lim s1 frame show ?thesis by (simp add: stored_def V_def buf_keeps_def)
      next
        case l_ok: (Inr y)
        have rec: "write_loop cfg B dev off data (pos + n) s2 = (u, s')"
          using less.prems(1) True c Inr l l_ok ps_pos
          by (simp add: write_loop.simps [of cfg B dev off data pos] n_def d_def Let_def)
        have "length data - (pos + n) < length data - pos" using True rng(3) by simp
        note IH = less.hyps [OF this rec]
        have dr: "drop pos data = d @ drop (pos + n) data"
          by (simp add: d_def segment_def) (metis append_take_drop_id drop_drop add.commute)
        have "overwrite (off + (pos + n)) (drop (pos + n) data) (overwrite (off + pos) d V) =
            overwrite (off + pos) (drop pos data) V"
          using overwrite_append [of "off + pos" d "drop (pos + n) data" V] ld rng(4) less.prems(5) len_view
          by (simp add: dr add.assoc)
        moreover have "within_limits cfg (bs_pages (bf_state s2))"
          if "within_limits cfg (bs_pages (bf_state s))"
          using that lim l_ok spec by (simp add: within_limits_def)
        ultimately show ?thesis
          using IH lim l_ok s1 less.prems(5,4) rng(4) frame same_outside_trans
          by (auto simp: stored_def V_def [symmetric] buf_keeps_def)
      qed
    qed
  qed
qed

text \<open>A clear is a write of zeros.\<close>

lemma clear_loop_eq: "clear_loop cfg B dev off len pos s = write_loop cfg B dev off (zeros len) pos s"
proof (induction cfg B dev off len pos s rule: clear_loop.induct)
  case (1 cfg B dev off len pos s)
  define n where "n = min (page_size cfg - (off + pos) mod page_size cfg) (len - pos)"
  have "segment pos n (zeros len) = zeros n" if "pos < len"
    using that by (intro segment_zeros) (simp add: n_def)
  with 1 show ?case
    by (auto simp: clear_loop.simps [of cfg B dev off len pos]
        write_loop.simps [of cfg B dev off "zeros len" pos] Let_def n_def
        split: prod.splits sum.splits)
qed

section \<open>The contract of the trait\<close>

lemma in_bounds_ok: "check_in_bounds off len dev = Inr () \<longleftrightarrow> off + len < u64_limit \<and> off + len \<le> dev"
  by (auto simp: check_in_bounds_def checked_add_def)

lemma buf_read_spec:
  assumes inv: "buf_inv cfg content binv s" and r: "buf_read cfg B s off len = (r, s')"
  shows "buf_inv cfg content binv s' \<and> buf_view cfg content s' = buf_view cfg content s \<and>
    (\<forall>d. r = Inr d \<longrightarrow> length d = len \<and> d = segment off len (buf_view cfg content s)) \<and>
    (within_limits cfg (bs_pages (bf_state s)) \<longrightarrow> within_limits cfg (bs_pages (bf_state s')))"
proof (cases "len = 0 \<or> \<not> is_multiple_of off 512 \<or> \<not> is_multiple_of len 512")
  case True
  with r inv show ?thesis by (auto simp: buf_read_def split: if_splits)
next
  case False
  obtain z s1 where z: "buf_dev_size B s = (z, s1)" by fastforce
  note sz = dev_size_spec [OF inv z]
  show ?thesis
  proof (cases "\<exists>dev. z = Inr dev \<and> check_in_bounds off len dev = Inr ()")
    case no: False
    then have "s' = s1" "\<nexists>d. r = Inr d" using r z False
      by (auto simp: buf_read_def split: sum.splits)
    with sz show ?thesis by auto
  next
    case True
    then obtain dev where dev: "z = Inr dev" "check_in_bounds off len dev = Inr ()" by blast
    have loop: "read_loop cfg B dev off len 0 (zeros len) s1 = (r, s')"
      using r z False dev by (simp add: buf_read_def)
    have "dev = bs_dev_size (bf_state s1)" "dev \<noteq> 0" "off + len \<le> dev"
      using sz dev False by (auto simp: in_bounds_ok)
    note spec = read_loop_spec [OF loop _ this]
    have l: "length (segment off len (buf_view cfg content s)) = len"
      using sz dev by (auto simp: in_bounds_ok buf_simps)
    then have "overwrite 0 (segment off len (buf_view cfg content s)) (zeros len) =
        segment off len (buf_view cfg content s)" by (simp add: overwrite_def)
    with spec sz l show ?thesis by (auto simp: buf_keeps_def)
  qed
qed

lemma buf_write_spec:
  assumes inv: "buf_inv cfg content binv s" and r: "buf_write cfg B s off data = (u, s')"
  shows "buf_inv cfg content binv s' \<and>
    (u = Inr () \<longrightarrow> (data = [] \<or> off + length data \<le> length (buf_view cfg content s)) \<and>
       buf_view cfg content s' = overwrite off data (buf_view cfg content s)) \<and>
    (u \<noteq> Inr () \<longrightarrow> same_outside off (length data) (buf_view cfg content s) (buf_view cfg content s')) \<and>
    (u = Inr () \<longrightarrow> within_limits cfg (bs_pages (bf_state s)) \<longrightarrow> within_limits cfg (bs_pages (bf_state s')))"
proof (cases "data = [] \<or> \<not> is_multiple_of off 512 \<or> \<not> is_multiple_of (length data) 512")
  case True
  with r inv show ?thesis by (auto simp: buf_write_def split: if_splits)
next
  case False
  obtain z s1 where z: "buf_dev_size B s = (z, s1)" by fastforce
  note sz = dev_size_spec [OF inv z]
  show ?thesis
  proof (cases "\<exists>dev. z = Inr dev \<and> check_in_bounds off (length data) dev = Inr ()")
    case no: False
    then have "s' = s1" "u \<noteq> Inr ()" using r z False
      by (auto simp: buf_write_def split: sum.splits)
    with sz show ?thesis by auto
  next
    case True
    then obtain dev where dev: "z = Inr dev" "check_in_bounds off (length data) dev = Inr ()" by blast
    have loop: "write_loop cfg B dev off data 0 s1 = (u, s')"
      using r z False dev by (simp add: buf_write_def)
    have "dev = bs_dev_size (bf_state s1)" "dev \<noteq> 0" "off + length data \<le> dev"
      using sz dev False by (auto simp: in_bounds_ok)
    note spec = write_loop_spec [OF loop _ this]
    with sz dev show ?thesis by (auto simp: stored_def in_bounds_ok)
  qed
qed

lemma buf_clear_eq: "buf_clear cfg B s off len = buf_write cfg B s off (zeros len)"
  by (cases len) (auto simp: buf_clear_def buf_write_def clear_loop_eq zeros_def split: prod.splits sum.splits)

lemma last_flush_stamp:
  "buf_inv cfg content binv (s\<lparr>bf_state := (bf_state s)\<lparr>bs_last_flush := t\<rparr>\<rparr>) = buf_inv cfg content binv s"
  "buf_view cfg content (s\<lparr>bf_state := (bf_state s)\<lparr>bs_last_flush := t\<rparr>\<rparr>) = buf_view cfg content s"
  "bs_pages (bf_state (s\<lparr>bf_state := (bf_state s)\<lparr>bs_last_flush := t\<rparr>\<rparr>)) = bs_pages (bf_state s)"
  by (simp_all add: buf_inv_def st_inv_def buf_view_def)

text \<open>A successful flush leaves no dirty page, and the layer below holds the whole view durably.\<close>

lemma buf_flush_spec:
  assumes inv: "buf_inv cfg content binv s" and r: "buf_flush cfg B s = (u, s')"
  shows "buf_inv cfg content binv s' \<and> buf_view cfg content s' = buf_view cfg content s \<and>
    length (bs_pages (bf_state s')) = length (bs_pages (bf_state s)) \<and>
    (u = Inr () \<longrightarrow> dirty_set (bs_pages (bf_state s')) = {} \<and>
       content (bf_inner s') = buf_view cfg content s \<and> durable (bf_inner s') = buf_view cfg content s)"
proof -
  define P where "P = bs_pages (bf_state s)"
  have wf: "bm_wf P" using buf_invD(2) [OF inv] by (simp add: st_inv_def P_def)
  obtain v s0 where f: "flush_indices cfg B (dirty_indices P) s = (v, s0)" by fastforce
  note fs = flush_indices_spec [OF inv f]
  define s1 where "s1 = (if dirty_indices P = [] then s
      else s0\<lparr>bf_state := (bf_state s0)\<lparr>bs_last_flush := Some (bf_clock s0)\<rparr>\<rparr>)"
  show ?thesis
  proof (cases v)
    case (Inl e)
    with f have "dirty_indices P \<noteq> []" by auto
    with Inl r f have "s' = s0" "u = Inl e" by (auto simp: buf_flush_def P_def)
    with fs show ?thesis by (simp add: buf_keeps_def)
  next
    case (Inr x)
    have s1: "buf_inv cfg content binv s1" "buf_view cfg content s1 = buf_view cfg content s"
      "length (bs_pages (bf_state s1)) = length P" "dirty_set (bs_pages (bf_state s1)) = {}"
    proof -
      have "dirty_set P - set (dirty_indices P) = {}" using set_dirty_indices [OF wf] by simp
      then have s0: "buf_inv cfg content binv s0" "buf_view cfg content s0 = buf_view cfg content s"
        "length (bs_pages (bf_state s0)) = length P" "dirty_set (bs_pages (bf_state s0)) = {}"
        using fs Inr by (simp_all add: buf_keeps_def P_def)
      have "s1 = s0 \<or> s1 = s0\<lparr>bf_state := (bf_state s0)\<lparr>bs_last_flush := Some (bf_clock s0)\<rparr>\<rparr>"
        using f by (auto simp: s1_def)
      with s0 show "buf_inv cfg content binv s1" "buf_view cfg content s1 = buf_view cfg content s"
        "length (bs_pages (bf_state s1)) = length P" "dirty_set (bs_pages (bf_state s1)) = {}"
        by (elim disjE; simp only: last_flush_stamp)+
    qed
    obtain w i' where w: "b_flush B (bf_inner s1) = (w, i')" by fastforce
    note fl = flush_law [OF buf_invD(1) [OF s1(1)] w]
    have s': "u = w" "s' = s1\<lparr>bf_inner := i'\<rparr>"
      using r f Inr w by (auto simp: buf_flush_def P_def [symmetric] s1_def Let_def split: if_splits)
    have "content (bf_inner s1) = buf_view cfg content s1"
      using overlay_all_clean [OF ps_pos _ s1(4), of "content (bf_inner s1)"] buf_invD(2) [OF s1(1)]
      by (simp add: buf_view_def st_inv_def)
    moreover have "buf_keeps cfg content binv s1 s'"
      using keeps_inner [OF s1(1)] fl s' by simp
    ultimately show ?thesis
      using s1 fl s' by (simp add: buf_keeps_def P_def)
  qed
qed

lemma buf_create_spec:
  assumes inv: "buf_inv cfg content binv s" and m: "m < u64_limit"
    and r: "buf_create cfg B s m = (u, s')"
  shows "buf_inv cfg content binv s' \<and> (u = Inr () \<longrightarrow> length (buf_view cfg content s') = m) \<and>
    (u \<noteq> Inr () \<longrightarrow> buf_view cfg content s \<noteq> [] \<longrightarrow> buf_view cfg content s' = buf_view cfg content s)"
proof -
  obtain v i' where c: "b_create B (bf_inner s) m = (v, i')" by fastforce
  note cl = create_law [OF buf_invD(1) [OF inv] m c]
  show ?thesis
  proof (cases v)
    case (Inl e)
    with r c have "u = Inl e" "s' = s\<lparr>bf_inner := i'\<rparr>" by (auto simp: buf_create_def)
    moreover have "content (bf_inner s) = [] \<Longrightarrow> bs_pages (bf_state s) = [] \<and> bs_dev_size (bf_state s) = 0"
      using inv by (auto simp: buf_inv_def st_inv_def)
    ultimately show ?thesis using Inl cl inv
      by (cases "content (bf_inner s) = []") (auto simp: buf_inv_def st_inv_def pages_ok_def buf_view_def)
  next
    case (Inr x)
    with cl r c lru_ok_clear [of "bs_lru (bf_state s)"] show ?thesis
      by (auto simp: buf_create_def buf_inv_def st_inv_def buf_view_def pages_ok_def)
  qed
qed

end

lemma buffered_backend_sel [simp]:
  "b_create (buffered_backend cfg B) = buf_create cfg B" "b_read (buffered_backend cfg B) = buf_read cfg B"
  "b_write (buffered_backend cfg B) = buf_write cfg B" "b_clear (buffered_backend cfg B) = buf_clear cfg B"
  "b_flush (buffered_backend cfg B) = buf_flush cfg B" "b_delete (buffered_backend cfg B) = buf_delete B"
  "b_size (buffered_backend cfg B) = buf_dev_size B" "b_etag (buffered_backend cfg B) = buf_etag B"
  "b_data_ranges (buffered_backend cfg B) = buf_data_ranges B"
  "b_prefetch (buffered_backend cfg B) = default_prefetch (buf_read cfg B)"
  by (simp_all add: buffered_backend_def)

sublocale buffered_layer \<subseteq> buf: blob_backend "buffered_backend cfg B" "buf_view cfg content"
  "\<lambda>s. durable (bf_inner s)" "buf_inv cfg content binv"
proof (unfold_locales, goal_cases)
  case (1 s)
  then show ?case using buf_invD by simp
next
  case (2 s len off r s')
  then show ?case using buf_read_spec [of s off len r s'] by simp
next
  case (3 s d off u s')
  then show ?case using buf_write_spec [of s off d u s'] by simp
next
  case (4 s u s')
  then show ?case using buf_flush_spec [of s u s'] by simp
next
  case (5 s z s')
  then show ?case using dev_size_spec [of s z s'] by simp
next
  case (6 s m u s')
  then show ?case using buf_create_spec [of s m u s'] by simp
next
  case (7 s rs s')
  then show ?case
    using ranges_law [OF buf_invD(1) [OF 7(1)]] keeps_inner [OF 7(1)]
    by (auto simp: buf_data_ranges_def buf_keeps_def split: prod.splits)
next
  case (8 s t s')
  then show ?case
    using etag_law [OF buf_invD(1) [OF 8(1)]] keeps_inner [OF 8(1)]
    by (auto simp: buf_etag_def buf_keeps_def split: prod.splits)
next
  case (9 s off len r s')
  then show ?case using buf_read_spec by simp
next
  case (10 s off d u s')
  then show ?case using buf_write_spec [of s off d u s'] by simp
next
  case (11 s off len u s')
  then show ?case using buf_write_spec [of s off "zeros len" u s'] by (auto simp: buf_clear_eq zeros_def)
next
  case (12 s off len u s')
  obtain d s1 where rd: "buf_read cfg B s off len = (d, s1)" by fastforce
  with 12 have "s' = s1" by (auto simp: default_prefetch_def split: sum.splits)
  with buf_read_spec [OF 12(1) rd] show ?case by simp
qed

section \<open>Over a reliable layer every well-formed request succeeds\<close>

text \<open>A configured cap on the flush time can make a flush fail; without one it cannot.\<close>

locale buffered_reliable = buffered_layer B content durable binv cfg + reliable_backend B content durable binv
  for B :: "'s backend" and content durable binv cfg +
  assumes no_cap: "flush_io_timeout_secs cfg = 0"
begin

lemma page_io_aligned:
  assumes "buf_inv cfg content binv s"
  shows "512 dvd idx * page_size cfg"
    and "512 dvd min (length (content (bf_inner s)) - idx * page_size cfg) (page_size cfg)"
proof -
  show off: "512 dvd idx * page_size cfg" using ps_aligned by simp
  then have "512 dvd length (content (bf_inner s)) - idx * page_size cfg"
    using buf_invD(4) [OF assms] by (simp add: dvd_diff_nat)
  then show "512 dvd min (length (content (bf_inner s)) - idx * page_size cfg) (page_size cfg)"
    using ps_aligned by (simp add: min_def)
qed

lemma ensure_resident_ok:
  assumes inv: "buf_inv cfg content binv s" and dev: "dev = bs_dev_size (bf_state s)" "dev \<noteq> 0"
    and idx: "idx * page_size cfg < dev"
  shows "fst (ensure_resident cfg B idx dev s) = Inr ()"
proof (cases "bm_contains (bs_pages (bf_state s)) idx")
  case True
  then show ?thesis by (simp add: ensure_resident_def)
next
  case False
  define off where "off = idx * page_size cfg"
  define n where "n = min (length (content (bf_inner s)) - off) (page_size cfg)"
  have len: "dev = length (content (bf_inner s))" using dev inv by (auto simp: buf_inv_def st_inv_def)
  have n: "0 < n" "off + n \<le> length (content (bf_inner s))"
    using idx len ps_pos by (auto simp: n_def off_def)
  obtain rd i' where rd: "b_read B (bf_inner s) off n = (rd, i')" by fastforce
  have "is_ok rd"
    using read_ok [OF buf_invD(1) [OF inv] _ _ n(2)] page_io_aligned [OF inv, of idx] rd
    by (simp add: off_def n_def)
  then obtain d where d: "rd = Inr d" by (auto simp: is_ok_ex)
  have "off + n < u64_limit" using n(2) buf_invD(3) [OF inv] by simp
  from read_law [OF buf_invD(1) [OF inv] this rd] d have "length d = n" by blast
  with False n rd d dev show ?thesis
    by (simp add: ensure_resident_def Let_def off_def n_def len)
qed

lemma flush_page_ok:
  assumes inv: "buf_inv cfg content binv s"
  shows "is_ok (fst (flush_page cfg B el idx s))"
proof (cases "idx \<in> dirty_set (bs_pages (bf_state s))")
  case False
  then have "flush_snapshot cfg (bf_state s) idx = None"
    by (auto simp: flush_snapshot_def dirty_set_def split: option.splits)
  then show ?thesis by (simp add: flush_page_def)
next
  case True
  then obtain p where p: "map_of (bs_pages (bf_state s)) idx = Some p" "pg_dirty p"
    by (auto simp: dirty_set_def)
  define off where "off = idx * page_size cfg"
  define n where "n = min (page_size cfg) (length (content (bf_inner s)) - off)"
  note snap = flush_snapshot_dirty [OF inv p, folded off_def, folded n_def]
  have d: "length (take n (pg_data p)) = n" using page_inv [OF inv p(1)] by (simp add: n_def)
  have "0 < n \<Longrightarrow> off + n \<le> length (content (bf_inner s))" unfolding n_def by linarith
  then have "0 < n \<Longrightarrow> is_ok (fst (b_write B (bf_inner s) off (take n (pg_data p))))"
    using page_io_aligned [OF inv, of idx] d
    by (intro write_ok [OF buf_invD(1) [OF inv]]) (simp_all add: off_def n_def min.commute)
  then show ?thesis
    by (auto simp: flush_page_def snap is_ok_ex Let_def no_cap split: prod.splits)
qed

lemma flush_pages_ok: "buf_inv cfg content binv s \<Longrightarrow> fst (flush_pages cfg B el idxs s) = Inr ()"
proof (induction idxs arbitrary: el s)
  case (Cons idx idxs)
  obtain v s1 where f: "flush_page cfg B el idx s = (v, s1)" by fastforce
  then obtain el' where "v = Inr el'"
    using flush_page_ok [OF Cons.prems, of el idx] by (auto simp: is_ok_ex)
  moreover have "buf_inv cfg content binv s1"
    using flush_page_spec [OF Cons.prems f] by (simp add: buf_keeps_def)
  ultimately show ?case using f Cons.IH by simp
qed simp

lemmas flush_indices_ok = flush_pages_ok [where el = 0, folded flush_indices_def]

lemma enforce_dirty_limit_ok: "buf_inv cfg content binv s \<Longrightarrow> fst (enforce_dirty_limit cfg B s) = Inr ()"
  by (simp add: enforce_dirty_limit_def Let_def flush_indices_ok)

lemma read_chunk_ok:
  assumes "buf_inv cfg content binv s" and "dev = bs_dev_size (bf_state s)" "dev \<noteq> 0"
    and "idx * page_size cfg < dev"
  shows "is_ok (fst (read_chunk cfg B idx a n dev s))"
proof -
  obtain v s1 where e: "ensure_resident cfg B idx dev s = (v, s1)" by fastforce
  then have "v = Inr ()" using ensure_resident_ok [OF assms] by simp
  with ensure_resident_spec [OF assms(1,2,3) e assms(4)] e show ?thesis
    by (auto simp: read_chunk_def bm_contains_def Let_def)
qed

lemma store_chunk_ok:
  assumes "buf_inv cfg content binv s" and "dev = bs_dev_size (bf_state s)" "dev \<noteq> 0"
    and "idx * page_size cfg < dev"
  shows "fst (store_chunk cfg B idx a d dev s) = Inr ()"
proof -
  obtain v s1 where e: "ensure_resident cfg B idx dev s = (v, s1)" by fastforce
  then have "v = Inr ()" using ensure_resident_ok [OF assms] by simp
  with ensure_resident_spec [OF assms(1,2,3) e assms(4)] e show ?thesis
    by (auto simp: store_chunk_def bm_contains_def Let_def)
qed

lemma chunk_page_in_dev:
  assumes "pos < len" and "off + len \<le> dev"
  shows "(off + pos) div page_size cfg * page_size cfg < dev"
  using assms div_times_less_eq_dividend [of "off + pos" "page_size cfg"] by linarith

lemma read_loop_ok:
  assumes "buf_inv cfg content binv s" and "dev = bs_dev_size (bf_state s)" "dev \<noteq> 0"
    and "off + len \<le> dev"
  shows "is_ok (fst (read_loop cfg B dev off len pos result s))"
  using assms
proof (induction "len - pos" arbitrary: pos result s rule: less_induct)
  case less
  show ?case
  proof (cases "pos < len")
    case False
    with ps_pos show ?thesis by (simp add: read_loop.simps)
  next
    case True
    define n where "n = min (page_size cfg - (off + pos) mod page_size cfg) (len - pos)"
    note rng = chunk_range [OF True less.prems(4) n_def]
    obtain c s1 where c: "read_chunk cfg B ((off + pos) div page_size cfg)
        ((off + pos) mod page_size cfg) n dev s = (c, s1)" by fastforce
    note spec = read_chunk_spec [OF less.prems(1,2,3) c rng(1,2,3)]
    obtain chunk where chunk: "c = Inr chunk"
      using read_chunk_ok [OF less.prems(1,2,3) chunk_page_in_dev [OF True less.prems(4)]] c
      by (metis fst_conv is_ok_ex)
    have "is_ok (fst (read_loop cfg B dev off len (pos + n) (overwrite pos chunk result) s1))"
      using less.prems spec rng True by (intro less.hyps) (auto simp: buf_keeps_def)
    with True c chunk ps_pos show ?thesis
      by (simp add: read_loop.simps [of cfg B dev off len pos] n_def Let_def)
  qed
qed

lemma write_loop_ok:
  assumes "buf_inv cfg content binv s" and "dev = bs_dev_size (bf_state s)" "dev \<noteq> 0"
    and "off + length data \<le> dev"
  shows "fst (write_loop cfg B dev off data pos s) = Inr ()"
  using assms
proof (induction "length data - pos" arbitrary: pos s rule: less_induct)
  case less
  show ?case
  proof (cases "pos < length data")
    case False
    with ps_pos show ?thesis by (simp add: write_loop.simps)
  next
    case True
    define n where "n = min (page_size cfg - (off + pos) mod page_size cfg) (length data - pos)"
    define d where "d = segment pos n data"
    note rng = chunk_range [OF True less.prems(4) n_def]
    have ld: "length d = n" using rng(4) by (simp add: d_def buf_simps)
    then have dn: "d \<noteq> []" using rng(3) by auto
    obtain c s1 where c: "store_chunk cfg B ((off + pos) div page_size cfg)
        ((off + pos) mod page_size cfg) d dev s = (c, s1)" by fastforce
    have c_ok: "c = Inr ()"
      using store_chunk_ok [OF less.prems(1,2,3) chunk_page_in_dev [OF True less.prems(4)]] c
      by (metis fst_conv)
    have s1: "buf_inv cfg content binv s1" "bs_dev_size (bf_state s1) = dev"
      using store_chunk_spec [OF less.prems(1,2,3) c, unfolded ld, OF rng(1,2) dn] c_ok by auto
    obtain l s2 where l: "enforce_dirty_limit cfg B s1 = (l, s2)" by fastforce
    have l_ok: "l = Inr ()" using enforce_dirty_limit_ok [OF s1(1)] l by simp
    have "fst (write_loop cfg B dev off data (pos + n) s2) = Inr ()"
      using enforce_dirty_limit_spec [OF s1(1) l] s1 less.prems rng True
      by (intro less.hyps) (auto simp: buf_keeps_def)
    with True c c_ok l l_ok ps_pos show ?thesis
      by (simp add: write_loop.simps [of cfg B dev off data pos] n_def d_def Let_def)
  qed
qed

lemma dev_size_ok:
  assumes inv: "buf_inv cfg content binv s"
  shows "is_ok (fst (buf_dev_size B s))"
  using size_ok [OF buf_invD(1) [OF inv]]
  by (auto simp: buf_dev_size_def Let_def is_ok_ex split: prod.splits)

lemma buf_read_ok:
  assumes inv: "buf_inv cfg content binv s" and al: "512 dvd off" "512 dvd len"
    and b: "off + len \<le> length (buf_view cfg content s)"
  shows "is_ok (fst (buf_read cfg B s off len))"
proof (cases "len = 0")
  case True
  then show ?thesis by (simp add: buf_read_def)
next
  case False
  obtain dev s1 where z: "buf_dev_size B s = (Inr dev, s1)"
    using dev_size_ok [OF inv] by (metis is_ok_ex prod.collapse)
  note sz = dev_size_spec [OF inv z]
  have "check_in_bounds off len dev = Inr ()"
    using sz b buf_invD(3) [OF inv] by (simp add: in_bounds_ok)
  moreover have "is_ok (fst (read_loop cfg B dev off len 0 (zeros len) s1))"
    using sz b False by (intro read_loop_ok) auto
  ultimately show ?thesis
    using False al z by (simp add: buf_read_def is_multiple_of_def)
qed

lemma buf_write_ok:
  assumes inv: "buf_inv cfg content binv s" and al: "512 dvd off" "512 dvd length d"
    and b: "off + length d \<le> length (buf_view cfg content s)"
  shows "fst (buf_write cfg B s off d) = Inr ()"
proof (cases "d = []")
  case True
  then show ?thesis by (simp add: buf_write_def)
next
  case False
  obtain dev s1 where z: "buf_dev_size B s = (Inr dev, s1)"
    using dev_size_ok [OF inv] by (metis is_ok_ex prod.collapse)
  note sz = dev_size_spec [OF inv z]
  have "check_in_bounds off (length d) dev = Inr ()"
    using sz b buf_invD(3) [OF inv] by (simp add: in_bounds_ok)
  moreover have "0 < length (content (bf_inner s))" using b False by (cases d) auto
  ultimately show ?thesis
    using False al z sz b by (simp add: buf_write_def is_multiple_of_def write_loop_ok)
qed

lemma buf_flush_ok:
  assumes inv: "buf_inv cfg content binv s"
  shows "is_ok (fst (buf_flush cfg B s))"
proof -
  obtain v s0 where f: "flush_indices cfg B (dirty_indices (bs_pages (bf_state s))) s = (v, s0)" by fastforce
  then have "v = Inr ()" using flush_indices_ok [OF inv] by (metis fst_conv)
  moreover have "buf_inv cfg content binv s0"
    using flush_indices_spec [OF inv f] by (simp add: buf_keeps_def)
  then have "is_ok (fst (b_flush B (bf_inner s0)))" using flush_ok buf_invD(1) by blast
  moreover have "is_ok (fst (b_flush B (bf_inner s)))" using flush_ok buf_invD(1) [OF inv] by blast
  ultimately show ?thesis
    using f by (auto simp: buf_flush_def Let_def split: prod.splits)
qed

end

sublocale buffered_reliable \<subseteq> buf: reliable_backend "buffered_backend cfg B" "buf_view cfg content"
  "\<lambda>s. durable (bf_inner s)" "buf_inv cfg content binv"
proof (unfold_locales, goal_cases)
  case (1 s off len)
  then show ?case using buf_read_ok by simp
next
  case (2 s off d)
  then show ?case using buf_write_ok by simp
next
  case (3 s off len)
  then show ?case using buf_write_ok [of s off "zeros len"] by (simp add: buf_clear_eq)
next
  case (4 s)
  then show ?case using buf_flush_ok by simp
next
  case (5 s)
  then show ?case using dev_size_ok by simp
qed

context buffered_layer
begin

lemma buf_is_backend: "blob_backend (buffered_backend cfg B) (buf_view cfg content)
    (\<lambda>s. durable (bf_inner s)) (buf_inv cfg content binv)"
  by (rule buf.blob_backend_axioms)

end

context buffered_reliable
begin

lemma buf_is_reliable: "reliable_backend (buffered_backend cfg B) (buf_view cfg content)
    (\<lambda>s. durable (bf_inner s)) (buf_inv cfg content binv)"
  by (rule buf.reliable_backend_axioms)

text \<open>A background round that triggers leaves no dirty page, and never changes the view.\<close>

lemma background_tick_spec:
  assumes inv: "buf_inv cfg content binv s"
  shows "buf_inv cfg content binv (background_tick cfg B s) \<and>
    buf_view cfg content (background_tick cfg B s) = buf_view cfg content s \<and>
    (flush_triggers cfg (bf_state s) (bf_clock s) \<noteq> (False, False) \<longrightarrow>
       dirty_set (bs_pages (bf_state (background_tick cfg B s))) = {} \<and>
       durable (bf_inner (background_tick cfg B s)) = buf_view cfg content s)"
proof -
  obtain u s' where f: "buf_flush cfg B s = (u, s')" by fastforce
  have "u = Inr ()" using buf_flush_ok [OF inv] f by (auto simp: is_ok_ex)
  with buf_flush_spec [OF inv f] f inv show ?thesis
    by (auto simp: background_tick_def split: prod.splits)
qed

end

lemma buffered_layerI: "page_store B content durable binv \<Longrightarrow> buf_config_ok cfg \<Longrightarrow>
    buffered_layer B content durable binv cfg"
  by (simp add: buffered_layer_def buffered_layer_axioms_def)

lemma buffered_reliableI: "reliable_backend B content durable binv \<Longrightarrow> buf_config_ok cfg \<Longrightarrow>
    flush_io_timeout_secs cfg = 0 \<Longrightarrow> buffered_reliable B content durable binv cfg"
  by (simp add: buffered_reliable_def buffered_reliable_axioms_def buffered_layerI reliable_backend.axioms
    blob_backend.axioms(1) [OF reliable_backend.axioms(1)])

lemma buf_config_default_ok: "buf_config_ok buf_config_default"
  by (simp add: buf_config_ok_def buf_config_default_def)

interpretation buf_over_mem: buffered_reliable mem_backend mem_data mem_data mem_inv buf_config_default
  by (intro buffered_reliableI mem.reliable_backend_axioms buf_config_default_ok)
     (simp add: buf_config_default_def)

section \<open>Properties\<close>

text \<open>
  C3: the write-back buffer turns any store that serves the pages of a device, with reads that may
  come back short or fail, into a backend that obeys the contract of the trait. The view of the
  composed device is the resident pages laid over the content below: reads return it, a successful
  write or clear changes exactly its range, a failed one nothing outside its range, and a
  successful flush makes the durable content below equal to it.
\<close>

theorem buffered_refines_backend:
  assumes "page_store B content durable binv" and "buf_config_ok cfg"
  shows "blob_backend (buffered_backend cfg B) (buf_view cfg content)
    (\<lambda>s. durable (bf_inner s)) (buf_inv cfg content binv)"
  by (rule buffered_layer.buf_is_backend [OF buffered_layerI]) (rule assms)+

text \<open>A small configuration and a one-page device for the instances below.\<close>

abbreviation tiny_cfg :: buf_config where
  "tiny_cfg \<equiv> \<lparr>page_size = 512, max_dirty_pages = 1, max_cached_pages = 1, idle_flush_secs = 5,
     force_flush_timeout_secs = 0, flush_io_timeout_secs = 0, flush_concurrency = 1\<rparr>"

abbreviation tiny_mem :: mem_state where
  "tiny_mem \<equiv> \<lparr>mem_data = zeros 1024, mem_poisoned = False\<rparr>"

abbreviation tiny_buf :: "mem_state buffered" where
  "tiny_buf \<equiv> \<lparr>bf_inner = tiny_mem, bf_state = buf_state_init, bf_clock = 0, bf_upload_secs = [3]\<rparr>"

lemma tiny_cfg_ok: "buf_config_ok tiny_cfg"
  by (simp add: buf_config_ok_def)

lemma tiny_cfg_no_cap: "flush_io_timeout_secs tiny_cfg = 0"
  by simp

lemma buf_inv_init:
  "binv i \<Longrightarrow> buf_inv cfg content binv \<lparr>bf_inner = i, bf_state = buf_state_init, bf_clock = t, bf_upload_secs = ts\<rparr>"
  using lru_ok_clear [of lru_default]
  by (simp add: buf_inv_def st_inv_def buf_state_init_def pages_ok_def lru_clear_def lru_default_def)

lemma buf_view_init:
  "buf_view cfg content \<lparr>bf_inner = i, bf_state = buf_state_init, bf_clock = t, bf_upload_secs = ts\<rparr> = content i"
  by (simp add: buf_view_def buf_state_init_def)

lemma tiny_mem_inv: "mem_inv tiny_mem"
  by (simp add: mem_inv_def u64_limit_def)

lemma tiny_buf_inv: "buf_inv tiny_cfg mem_data mem_inv tiny_buf"
  by (intro buf_inv_init tiny_mem_inv)

theorem buffered_refines_backend_witness:
  "blob_backend (buffered_backend tiny_cfg mem_backend) (buf_view tiny_cfg mem_data)
     (\<lambda>s. mem_data (bf_inner s)) (buf_inv tiny_cfg mem_data mem_inv)"
  by (rule buffered_refines_backend [OF mem.page_store_axioms tiny_cfg_ok])

text \<open>
  An explicit flush of the buffer that returns success leaves no dirty page behind, and what
  the backend below then holds, durably, is exactly the device the client saw before the flush:
  no acknowledged write is lost.
\<close>

theorem buffered_flush_durable:
  assumes "page_store B content durable binv" and "buf_config_ok cfg"
    and "buf_inv cfg content binv s" and "buf_flush cfg B s = (Inr (), s')"
  shows "dirty_set (bs_pages (bf_state s')) = {} \<and> buf_view cfg content s' = buf_view cfg content s \<and>
    content (bf_inner s') = buf_view cfg content s \<and> durable (bf_inner s') = buf_view cfg content s"
  using buffered_layer.buf_flush_spec [OF buffered_layerI] assms by blast

text \<open>The concrete write the instances share: one sector of ones at the start of the device.\<close>

lemma tiny_write:
  obtains s where "buf_write tiny_cfg mem_backend tiny_buf 0 (replicate 512 1) = (Inr (), s)"
    and "buf_inv tiny_cfg mem_data mem_inv s"
    and "buf_view tiny_cfg mem_data s = overwrite 0 (replicate 512 1) (zeros 1024)"
proof -
  note rel = buffered_reliableI [OF mem.reliable_backend_axioms tiny_cfg_ok tiny_cfg_no_cap]
  note lay = buffered_layerI [OF mem.page_store_axioms tiny_cfg_ok]
  obtain u s where w: "buf_write tiny_cfg mem_backend tiny_buf 0 (replicate 512 1) = (u, s)" by fastforce
  then have "u = Inr ()"
    using buffered_reliable.buf_write_ok [OF rel tiny_buf_inv, of 0 "replicate 512 1"]
    by (simp add: buf_view_init)
  with w buffered_layer.buf_write_spec [OF lay tiny_buf_inv w] that show ?thesis
    by (simp add: buf_view_init)
qed

theorem buffered_flush_durable_witness:
  "\<exists>s s'. buf_write tiny_cfg mem_backend tiny_buf 0 (replicate 512 1) = (Inr (), s) \<and>
     buf_flush tiny_cfg mem_backend s = (Inr (), s') \<and> dirty_set (bs_pages (bf_state s')) = {} \<and>
     mem_data (bf_inner s') = overwrite 0 (replicate 512 1) (zeros 1024)"
proof -
  obtain s where s: "buf_write tiny_cfg mem_backend tiny_buf 0 (replicate 512 1) = (Inr (), s)"
    "buf_inv tiny_cfg mem_data mem_inv s"
    "buf_view tiny_cfg mem_data s = overwrite 0 (replicate 512 1) (zeros 1024)" by (rule tiny_write)
  obtain s' where f: "buf_flush tiny_cfg mem_backend s = (Inr (), s')"
    using buffered_reliable.buf_flush_ok [OF buffered_reliableI [OF mem.reliable_backend_axioms tiny_cfg_ok tiny_cfg_no_cap] s(2)]
    by (auto simp: is_ok_ex) (metis prod.collapse)
  from buffered_flush_durable [OF mem.page_store_axioms tiny_cfg_ok s(2) f] s f
  show ?thesis by metis
qed

text \<open>
  C27: over a reliable backend the memory limits hold after every operation. If at most
  \<open>max_dirty_pages\<close> pages are dirty and at most one page more than \<open>max_cached_pages\<close> is
  resident, then the same is true after a well-formed read, write or clear and after a flush.
\<close>

theorem buffered_within_limits:
  assumes "reliable_backend B content durable binv" and "buf_config_ok cfg"
    and "flush_io_timeout_secs cfg = 0"
    and "buf_inv cfg content binv s" and "within_limits cfg (bs_pages (bf_state s))"
    and "512 dvd off" "512 dvd len" "off + len \<le> length (buf_view cfg content s)" "length d = len"
  shows "within_limits cfg (bs_pages (bf_state (snd (buf_read cfg B s off len)))) \<and>
    within_limits cfg (bs_pages (bf_state (snd (buf_write cfg B s off d)))) \<and>
    within_limits cfg (bs_pages (bf_state (snd (buf_clear cfg B s off len)))) \<and>
    within_limits cfg (bs_pages (bf_state (snd (buf_flush cfg B s))))"
proof -
  note rel = buffered_reliableI [OF assms(1-3)]
  note lay = buffered_reliable.axioms(1) [OF rel]
  have wr: "within_limits cfg (bs_pages (bf_state (snd (buf_write cfg B s off e))))"
    if "length e = len" for e
    using buffered_reliable.buf_write_ok [OF rel assms(4,6), of e] that assms(5,7,8)
      buffered_layer.buf_write_spec [OF lay assms(4), of off e]
    by (metis prod.collapse)
  have "within_limits cfg (bs_pages (bf_state (snd (buf_read cfg B s off len))))"
    using buffered_layer.buf_read_spec [OF lay assms(4), of off len] assms(5) by (metis prod.collapse)
  moreover have "within_limits cfg (bs_pages (bf_state (snd (buf_flush cfg B s))))"
    using buffered_layer.buf_flush_spec [OF lay assms(4)] buffered_reliable.buf_flush_ok [OF rel assms(4)]
      assms(5) unfolding within_limits_def is_ok_ex
    by (metis card.empty old.unit.exhaust prod.collapse zero_le)
  ultimately show ?thesis
    using wr [OF assms(9)] wr [of "zeros len"] buffered_layer.buf_clear_eq [OF lay] by simp
qed

theorem buffered_within_limits_witness:
  "within_limits tiny_cfg (bs_pages (bf_state (snd (buf_write tiny_cfg mem_backend tiny_buf 0 (replicate 512 1)))))"
proof -
  have "within_limits tiny_cfg (bs_pages (bf_state tiny_buf))"
    by (simp add: within_limits_def buf_state_init_def dirty_set_def)
  from buffered_within_limits [OF mem.reliable_backend_axioms tiny_cfg_ok tiny_cfg_no_cap tiny_buf_inv this,
      of 0 512 "replicate 512 1"]
  show ?thesis by (simp add: buf_view_init)
qed

text \<open>
  The buffer is built exactly for the valid configurations, and then starts empty with the
  invariant, showing the backend's own content.
\<close>

theorem buffered_new_valid:
  assumes "binv i"
  shows "is_ok (buffered_new i cfg now ts) = buf_config_ok cfg \<and>
    (\<forall>s. buffered_new i cfg now ts = Inr s \<longrightarrow>
       buf_inv cfg content binv s \<and> buf_view cfg content s = content i)"
  using buf_inv_init [of binv i] assms
  by (auto simp: buffered_new_def buf_config_ok_def is_multiple_of_def buf_view_init not_less)

theorem buffered_new_valid_witness:
  "is_ok (buffered_new tiny_mem tiny_cfg 0 []) \<and> \<not> is_ok (buffered_new tiny_mem (tiny_cfg\<lparr>page_size := 0\<rparr>) 0 [])"
  using buffered_new_valid [of mem_inv tiny_mem tiny_cfg 0 "[]" mem_data]
    buffered_new_valid [of mem_inv tiny_mem "tiny_cfg\<lparr>page_size := 0\<rparr>" 0 "[]" mem_data] tiny_mem_inv
  by (simp add: buf_config_ok_def)

text \<open>
  Malformed requests are refused without touching anything. A misaligned read, write or clear
  reports the misalignment; on a device whose size is known, a range whose end overflows
  \<open>u64\<close> and a range past the end are reported as such; in each case the state is unchanged.
\<close>

theorem buffered_rejects:
  assumes "len \<noteq> 0" and "length d = len"
  shows "(\<not> (512 dvd off \<and> 512 dvd len) \<longrightarrow>
      buf_read cfg B s off len = (Inl Misaligned, s) \<and> buf_write cfg B s off d = (Inl Misaligned, s) \<and>
      buf_clear cfg B s off len = (Inl Misaligned, s)) \<and>
    (512 dvd off \<and> 512 dvd len \<and> bs_dev_size (bf_state s) \<noteq> 0 \<and> bs_dev_size (bf_state s) < off + len \<longrightarrow>
      (let e = (if off + len < u64_limit then OutOfBounds else OverflowU64) in
       buf_read cfg B s off len = (Inl e, s) \<and> buf_write cfg B s off d = (Inl e, s) \<and>
       buf_clear cfg B s off len = (Inl e, s)))"
  using assms
  by (auto simp: buf_read_def buf_write_def buf_clear_def is_multiple_of_def buf_dev_size_def
      check_in_bounds_def checked_add_def)

theorem buffered_rejects_witness:
  "buf_read tiny_cfg mem_backend (tiny_buf\<lparr>bf_state := buf_state_init\<lparr>bs_dev_size := 1024\<rparr>\<rparr>) 1024 512 =
     (Inl OutOfBounds, tiny_buf\<lparr>bf_state := buf_state_init\<lparr>bs_dev_size := 1024\<rparr>\<rparr>) \<and>
   buf_read tiny_cfg mem_backend tiny_buf 7 512 = (Inl Misaligned, tiny_buf)"
  using buffered_rejects [of 512 "zeros 512" 7 tiny_cfg mem_backend tiny_buf]
    buffered_rejects [of 512 "zeros 512" 1024 tiny_cfg mem_backend
      "tiny_buf\<lparr>bf_state := buf_state_init\<lparr>bs_dev_size := 1024\<rparr>\<rparr>"]
  by (simp add: u64_limit_def)



end
