(* ===== verification/Wire.thy ===== *)
theory Wire
  imports Ublk_Prelude
begin

text \<open>
  Fixed-width integers on the wire and on disk: Rust's \<open>to_be_bytes\<close>, \<open>to_le_bytes\<close> and
  their inverses, and reading from the front of a byte stream.
\<close>

fun le_bytes :: "nat \<Rightarrow> nat \<Rightarrow> bytes" where
  "le_bytes 0 v = []"
| "le_bytes (Suc n) v = word_of_nat (v mod 256) # le_bytes n (v div 256)"

fun le_val :: "bytes \<Rightarrow> nat" where
  "le_val [] = 0"
| "le_val (b # bs) = unat b + 256 * le_val bs"

definition be_bytes :: "nat \<Rightarrow> nat \<Rightarrow> bytes" where
  "be_bytes n v = rev (le_bytes n v)"

definition be_val :: "bytes \<Rightarrow> nat" where
  "be_val bs = le_val (rev bs)"

text \<open>\<open>read_exact\<close>: the next \<open>n\<close> bytes, or the end of the stream.\<close>

definition read_exact :: "nat \<Rightarrow> bytes \<Rightarrow> (bytes \<times> bytes) option" where
  "read_exact n inp = (if n \<le> length inp then Some (take n inp, drop n inp) else None)"

definition read_be :: "nat \<Rightarrow> bytes \<Rightarrow> (nat \<times> bytes) option" where
  "read_be n inp = map_option (\<lambda>(b, rest). (be_val b, rest)) (read_exact n inp)"

lemma length_le_bytes [simp]: "length (le_bytes n v) = n"
  by (induction n v rule: le_bytes.induct) simp_all

lemma length_be_bytes [simp]: "length (be_bytes n v) = n"
  by (simp add: be_bytes_def)

lemma unat_byte_mod [simp]: "unat (word_of_nat (v mod 256) :: 8 word) = v mod 256"
  by (simp add: unat_of_nat take_bit_eq_mod)

lemma byte_unat_less: "unat (b :: byte) < 256"
  using unsigned_less [of b] by simp

lemma le_val_bytes: "v < 256 ^ n \<Longrightarrow> le_val (le_bytes n v) = v"
proof (induction n v rule: le_bytes.induct)
  case (2 n v)
  then have "v div 256 < 256 ^ n" by (simp add: div_less_iff_less_mult mult.commute)
  with 2 show ?case by simp
qed simp

lemma le_bytes_val: "length bs = n \<Longrightarrow> le_bytes n (le_val bs) = bs"
proof (induction bs arbitrary: n)
  case (Cons b bs)
  have "unat b < 256" by (rule byte_unat_less)
  then have "(unat b + 256 * le_val bs) mod 256 = unat b" "(unat b + 256 * le_val bs) div 256 = le_val bs"
    by simp_all
  with Cons show ?case by (cases n) (simp_all del: le_val.simps add: le_val.simps(2))
qed simp

lemma le_val_less: "le_val bs < 256 ^ length bs"
proof (induction bs)
  case (Cons b bs)
  have "unat b < 256" by (rule byte_unat_less)
  with Cons show ?case by simp
qed simp

lemma be_val_bytes [simp]: "v < 256 ^ n \<Longrightarrow> be_val (be_bytes n v) = v"
  by (simp add: be_bytes_def be_val_def le_val_bytes)

lemma be_bytes_val: "length bs = n \<Longrightarrow> be_bytes n (be_val bs) = bs"
  by (simp add: be_bytes_def be_val_def le_bytes_val)

lemma be_val_less: "be_val bs < 256 ^ length bs"
  using le_val_less [of "rev bs"] by (simp add: be_val_def)

lemma read_exact_append [simp]: "length b = n \<Longrightarrow> read_exact n (b @ rest) = Some (b, rest)"
  by (simp add: read_exact_def)

lemma read_be_append [simp]: "v < 256 ^ n \<Longrightarrow> read_be n (be_bytes n v @ rest) = Some (v, rest)"
  by (simp add: read_be_def)

lemma read_exact_Some: "read_exact n inp = Some (b, rest) \<longleftrightarrow> inp = b @ rest \<and> length b = n"
  by (auto simp: read_exact_def)

lemma read_be_Some: "read_be n inp = Some (v, rest) \<longleftrightarrow> inp = be_bytes n v @ rest \<and> v < 256 ^ n"
proof
  assume "read_be n inp = Some (v, rest)"
  then obtain b where "inp = b @ rest" "length b = n" "v = be_val b"
    by (auto simp: read_be_def read_exact_Some)
  then show "inp = be_bytes n v @ rest \<and> v < 256 ^ n"
    using be_bytes_val [of b n] be_val_less [of b] by simp
qed auto

end
