(* ===== verification/Nbd.thy ===== *)
theory Nbd
  imports Blob_Backend Wire "HOL-Library.Monad_Syntax"
begin

unbundle bit_operations_syntax

text \<open>
  The NBD server of \<open>nbd_target.rs\<close>: the fixed newstyle handshake, option haggling, and the
  transmission phase that dispatches requests to the backend. A connection is the bytes the
  client will have sent and the bytes the server has sent; a read past the end of the input is
  the end of the connection. Replies are never refused by the peer, and connections are served
  one after the other.
\<close>

section \<open>Protocol constants\<close>

definition NBDMAGIC :: nat where "NBDMAGIC = 0x4e42444d41474943"
definition IHAVEOPT :: nat where "IHAVEOPT = 0x49484156454f5054"
definition NBD_REP_MAGIC :: nat where "NBD_REP_MAGIC = 0x0003e889045565a9"

definition NBD_FLAG_FIXED_NEWSTYLE :: "16 word" where "NBD_FLAG_FIXED_NEWSTYLE = push_bit 0 1"
definition NBD_FLAG_NO_ZEROES :: "16 word" where "NBD_FLAG_NO_ZEROES = push_bit 1 1"
definition NBD_FLAG_C_NO_ZEROES :: "32 word" where "NBD_FLAG_C_NO_ZEROES = push_bit 1 1"

definition NBD_FLAG_HAS_FLAGS :: "16 word" where "NBD_FLAG_HAS_FLAGS = push_bit 0 1"
definition NBD_FLAG_READ_ONLY :: "16 word" where "NBD_FLAG_READ_ONLY = push_bit 1 1"
definition NBD_FLAG_SEND_FLUSH :: "16 word" where "NBD_FLAG_SEND_FLUSH = push_bit 2 1"
definition NBD_FLAG_SEND_TRIM :: "16 word" where "NBD_FLAG_SEND_TRIM = push_bit 5 1"
definition NBD_FLAG_SEND_WRITE_ZEROES :: "16 word" where "NBD_FLAG_SEND_WRITE_ZEROES = push_bit 6 1"

definition NBD_OPT_EXPORT_NAME :: nat where "NBD_OPT_EXPORT_NAME = 1"
definition NBD_OPT_ABORT :: nat where "NBD_OPT_ABORT = 2"
definition NBD_OPT_LIST :: nat where "NBD_OPT_LIST = 3"
definition NBD_OPT_INFO :: nat where "NBD_OPT_INFO = 6"
definition NBD_OPT_GO :: nat where "NBD_OPT_GO = 7"

definition NBD_REP_ACK :: nat where "NBD_REP_ACK = 1"
definition NBD_REP_SERVER :: nat where "NBD_REP_SERVER = 2"
definition NBD_REP_INFO :: nat where "NBD_REP_INFO = 3"
definition NBD_REP_ERR_UNSUP :: nat where "NBD_REP_ERR_UNSUP = 0x80000001"

definition NBD_INFO_EXPORT :: nat where "NBD_INFO_EXPORT = 0"
definition NBD_INFO_BLOCK_SIZE :: nat where "NBD_INFO_BLOCK_SIZE = 3"

definition NBD_REQUEST_MAGIC :: nat where "NBD_REQUEST_MAGIC = 0x25609513"
definition NBD_SIMPLE_REPLY_MAGIC :: nat where "NBD_SIMPLE_REPLY_MAGIC = 0x67446698"

definition NBD_CMD_READ :: nat where "NBD_CMD_READ = 0"
definition NBD_CMD_WRITE :: nat where "NBD_CMD_WRITE = 1"
definition NBD_CMD_DISC :: nat where "NBD_CMD_DISC = 2"
definition NBD_CMD_FLUSH :: nat where "NBD_CMD_FLUSH = 3"
definition NBD_CMD_TRIM :: nat where "NBD_CMD_TRIM = 4"
definition NBD_CMD_WRITE_ZEROES :: nat where "NBD_CMD_WRITE_ZEROES = 6"

definition NBD_EPERM :: nat where "NBD_EPERM = 1"
definition NBD_EIO :: nat where "NBD_EIO = 5"
definition NBD_EINVAL :: nat where "NBD_EINVAL = 22"
definition NBD_ENOSPC :: nat where "NBD_ENOSPC = 28"

definition BLOCK_SIZE :: nat where "BLOCK_SIZE = 512"

text \<open>The bytes of \<open>"azblob"\<close>.\<close>

definition EXPORT_NAME :: bytes where "EXPORT_NAME = [97, 122, 98, 108, 111, 98]"

lemmas nbd_consts =
  IHAVEOPT_def NBD_REQUEST_MAGIC_def NBD_CMD_READ_def NBD_CMD_WRITE_def NBD_CMD_DISC_def
  NBD_CMD_FLUSH_def NBD_CMD_TRIM_def NBD_CMD_WRITE_ZEROES_def NBD_OPT_EXPORT_NAME_def
  NBD_OPT_ABORT_def NBD_OPT_LIST_def NBD_OPT_INFO_def NBD_OPT_GO_def BLOCK_SIZE_def
  NBD_EPERM_def NBD_EIO_def NBD_EINVAL_def NBD_ENOSPC_def

section \<open>Handshake\<close>

definition transmission_flags :: "bool \<Rightarrow> 16 word" where
  "transmission_flags read_only =
     (let flags = NBD_FLAG_HAS_FLAGS OR NBD_FLAG_SEND_FLUSH OR NBD_FLAG_SEND_TRIM
                  OR NBD_FLAG_SEND_WRITE_ZEROES
      in if read_only then flags OR NBD_FLAG_READ_ONLY else flags)"

definition send_opt_reply :: "nat \<Rightarrow> nat \<Rightarrow> bytes \<Rightarrow> bytes" where
  "send_opt_reply opt rep_type data =
     be_bytes 8 NBD_REP_MAGIC @ be_bytes 4 opt @ be_bytes 4 rep_type
     @ be_bytes 4 (length data) @ data"

definition send_export_info :: "nat \<Rightarrow> nat \<Rightarrow> bool \<Rightarrow> bytes" where
  "send_export_info opt dev_size read_only =
     (let export = be_bytes 2 NBD_INFO_EXPORT @ be_bytes 8 dev_size
                   @ be_bytes 2 (unat (transmission_flags read_only));
          bs = be_bytes 2 NBD_INFO_BLOCK_SIZE @ be_bytes 4 BLOCK_SIZE @ be_bytes 4 (BLOCK_SIZE * 8)
               @ be_bytes 4 (32 * 1024 * 1024)
      in send_opt_reply opt NBD_REP_INFO export @ send_opt_reply opt NBD_REP_INFO bs)"

text \<open>One option: its type and payload, or the reason the connection ends.\<close>

definition read_option :: "bytes \<Rightarrow> err + (nat \<times> bytes \<times> bytes)" where
  "read_option inp =
     (case read_be 8 inp of
        None \<Rightarrow> Inl (IoErr ''read option magic'')
      | Some (magic, i1) \<Rightarrow>
          if magic \<noteq> IHAVEOPT then Inl (IoErr ''bad option magic'')
          else (case do { (opt, i2) \<leftarrow> read_be 4 i1;
                          (len, i3) \<leftarrow> read_be 4 i2;
                          (data, i4) \<leftarrow> read_exact len i3;
                          Some (opt, data, i4) } of
                  None \<Rightarrow> Inl (IoErr ''read option'')
                | Some r \<Rightarrow> Inr r))"

text \<open>What an option is answered with, and whether it ends the haggling (with which result).\<close>

definition answer_option :: "nat \<Rightarrow> bool \<Rightarrow> bool \<Rightarrow> nat \<Rightarrow> bytes \<times> bool option" where
  "answer_option dev_size no_zeroes read_only opt =
     (if opt = NBD_OPT_EXPORT_NAME
      then (be_bytes 8 dev_size @ be_bytes 2 (unat (transmission_flags read_only))
            @ (if no_zeroes then [] else zeros 124), Some True)
      else if opt = NBD_OPT_INFO \<or> opt = NBD_OPT_GO
      then (send_export_info opt dev_size read_only @ send_opt_reply opt NBD_REP_ACK [],
            if opt = NBD_OPT_GO then Some True else None)
      else if opt = NBD_OPT_LIST
      then (send_opt_reply opt NBD_REP_SERVER (be_bytes 4 (length EXPORT_NAME) @ EXPORT_NAME)
            @ send_opt_reply opt NBD_REP_ACK [], None)
      else if opt = NBD_OPT_ABORT then (send_opt_reply opt NBD_REP_ACK [], Some False)
      else (send_opt_reply opt NBD_REP_ERR_UNSUP [], None))"

lemma read_option_consumes: "read_option inp = Inr (opt, data, rest) \<Longrightarrow> length rest < length inp"
  by (auto simp: read_option_def read_be_Some read_exact_Some
      split: option.splits prod.splits if_splits Option.bind_splits)

function negotiate :: "nat \<Rightarrow> bool \<Rightarrow> bool \<Rightarrow> bytes \<Rightarrow> (bool \<times> bytes) res \<times> bytes" where
  "negotiate dev_size no_zeroes read_only inp =
     (case read_option inp of
        Inl e \<Rightarrow> (Inl e, [])
      | Inr (opt, data, rest) \<Rightarrow>
          (case answer_option dev_size no_zeroes read_only opt of
             (out, Some go) \<Rightarrow> (Inr (go, rest), out)
           | (out, None) \<Rightarrow>
               (case negotiate dev_size no_zeroes read_only rest of
                  (r, out') \<Rightarrow> (r, out @ out'))))"
  by pat_completeness auto
termination
  by (relation "measure (\<lambda>(_, _, _, inp). length inp)") (auto dest: read_option_consumes)

declare negotiate.simps [simp del]

section \<open>Transmission\<close>

definition bounds_error :: "nat \<Rightarrow> nat \<Rightarrow> nat \<Rightarrow> nat option" where
  "bounds_error offset len dev_size =
     (if \<not> is_multiple_of offset BLOCK_SIZE \<or> \<not> is_multiple_of len BLOCK_SIZE then Some NBD_EINVAL
      else (case checked_add offset len of
              Some end' \<Rightarrow> if end' \<le> dev_size then None else Some NBD_ENOSPC
            | None \<Rightarrow> Some NBD_ENOSPC))"

definition simple_reply :: "nat \<Rightarrow> nat \<Rightarrow> bytes \<Rightarrow> bytes" where
  "simple_reply error handle data =
     be_bytes 4 NBD_SIMPLE_REPLY_MAGIC @ be_bytes 4 error @ be_bytes 8 handle @ data"

text \<open>How one turn of the transmission loop ends.\<close>

datatype 's nbd_turn =
    Served (turn_rest: bytes) (turn_out: bytes) (turn_state: 's)
  | Closed (turn_state: 's)
  | Failed (turn_err: err) (turn_state: 's)

definition error_code :: "unit res \<Rightarrow> nat" where
  "error_code r = (case r of Inr _ \<Rightarrow> 0 | Inl _ \<Rightarrow> NBD_EIO)"

definition read_request :: "bytes \<Rightarrow> (nat \<times> nat \<times> nat \<times> nat \<times> bytes) option" where
  "read_request inp =
     do { (flags, i1) \<leftarrow> read_be 2 inp;
          (cmd, i2) \<leftarrow> read_be 2 i1;
          (handle, i3) \<leftarrow> read_be 8 i2;
          (offset, i4) \<leftarrow> read_be 8 i3;
          (len, i5) \<leftarrow> read_be 4 i4;
          Some (cmd, handle, offset, len, i5) }"

definition serve_request ::
  "'s backend \<Rightarrow> nat \<Rightarrow> bool \<Rightarrow> nat \<Rightarrow> nat \<Rightarrow> nat \<Rightarrow> nat \<Rightarrow> bytes \<Rightarrow> 's \<Rightarrow> 's nbd_turn" where
  "serve_request B dev_size read_only cmd handle offset len rest s =
     (if cmd = NBD_CMD_DISC then Closed (snd (b_flush B s))
      else if cmd = NBD_CMD_READ then
        (case bounds_error offset len dev_size of
           Some e \<Rightarrow> Served rest (simple_reply e handle []) s
         | None \<Rightarrow>
             (case b_read B s offset len of
                (Inr data, s') \<Rightarrow>
                  if length data = len then Served rest (simple_reply 0 handle data) s'
                  else Served rest (simple_reply NBD_EIO handle []) s'
              | (Inl _, s') \<Rightarrow> Served rest (simple_reply NBD_EIO handle []) s'))
      else if cmd = NBD_CMD_WRITE then
        (case read_exact len rest of
           None \<Rightarrow> Failed (IoErr ''read write payload'') s
         | Some (buf, rest') \<Rightarrow>
             if read_only then Served rest' (simple_reply NBD_EPERM handle []) s
             else (case bounds_error offset len dev_size of
                     Some e \<Rightarrow> Served rest' (simple_reply e handle []) s
                   | None \<Rightarrow>
                       (case b_write B s offset buf of
                          (r, s') \<Rightarrow> Served rest' (simple_reply (error_code r) handle []) s')))
      else if cmd = NBD_CMD_FLUSH then
        (case b_flush B s of (r, s') \<Rightarrow> Served rest (simple_reply (error_code r) handle []) s')
      else if cmd = NBD_CMD_TRIM \<or> cmd = NBD_CMD_WRITE_ZEROES then
        (if read_only then Served rest (simple_reply NBD_EPERM handle []) s
         else (case bounds_error offset len dev_size of
                 Some e \<Rightarrow> Served rest (simple_reply e handle []) s
               | None \<Rightarrow>
                   (case b_clear B s offset len of
                      (r, s') \<Rightarrow> Served rest (simple_reply (error_code r) handle []) s')))
      else Served rest (simple_reply NBD_EINVAL handle []) s)"

definition transmission_turn :: "'s backend \<Rightarrow> nat \<Rightarrow> bool \<Rightarrow> bytes \<Rightarrow> 's \<Rightarrow> 's nbd_turn" where
  "transmission_turn B dev_size read_only inp s =
     (case read_be 4 inp of
        None \<Rightarrow> Closed s
      | Some (magic, i1) \<Rightarrow>
          if magic \<noteq> NBD_REQUEST_MAGIC then Failed (IoErr ''bad request magic'') s
          else (case read_request i1 of
                  None \<Rightarrow> Failed (IoErr ''read request'') s
                | Some (cmd, handle, offset, len, rest) \<Rightarrow>
                    serve_request B dev_size read_only cmd handle offset len rest s))"

lemma serve_request_rest:
  "serve_request B dev_size read_only cmd handle offset len rest s = Served rest' out s' \<Longrightarrow>
   length rest' \<le> length rest"
  by (auto simp: serve_request_def read_exact_Some
      split: if_splits option.splits prod.splits sum.splits)

lemma read_request_rest:
  "read_request inp = Some (cmd, handle, offset, len, rest) \<Longrightarrow> length rest \<le> length inp"
  by (auto simp: read_request_def read_be_Some split: Option.bind_splits)

lemma transmission_turn_consumes:
  "transmission_turn B dev_size read_only inp s = Served rest out s' \<Longrightarrow> length rest < length inp"
  by (auto simp: transmission_turn_def read_be_Some
      dest!: serve_request_rest read_request_rest split: if_splits option.splits prod.splits)

function transmission :: "'s backend \<Rightarrow> nat \<Rightarrow> bool \<Rightarrow> bytes \<Rightarrow> 's \<Rightarrow> unit res \<times> bytes \<times> 's" where
  "transmission B dev_size read_only inp s =
     (case transmission_turn B dev_size read_only inp s of
        Closed s' \<Rightarrow> (Inr (), [], s')
      | Failed e s' \<Rightarrow> (Inl e, [], s')
      | Served rest out s' \<Rightarrow>
          (case transmission B dev_size read_only rest s' of
             (r, out', s'') \<Rightarrow> (r, out @ out', s'')))"
  by pat_completeness auto
termination
  by (relation "measure (\<lambda>(_, _, _, inp, _). length inp)") (auto dest: transmission_turn_consumes)

declare transmission.simps [simp del]

section \<open>Connections and the server\<close>

definition serve_connection ::
  "'s backend \<Rightarrow> nat \<Rightarrow> bool \<Rightarrow> bytes \<Rightarrow> 's \<Rightarrow> unit res \<times> bytes \<times> 's" where
  "serve_connection B dev_size read_only inp s =
     (let hello = be_bytes 8 NBDMAGIC @ be_bytes 8 IHAVEOPT
                  @ be_bytes 2 (unat (NBD_FLAG_FIXED_NEWSTYLE OR NBD_FLAG_NO_ZEROES))
      in case read_be 4 inp of
           None \<Rightarrow> (Inl (IoErr ''read client flags''), hello, s)
         | Some (client_flags, i1) \<Rightarrow>
             let no_zeroes = (word_of_nat client_flags AND NBD_FLAG_C_NO_ZEROES \<noteq> 0)
             in case negotiate dev_size no_zeroes read_only i1 of
                  (Inl e, out) \<Rightarrow> (Inl e, hello @ out, s)
                | (Inr (False, _), out) \<Rightarrow> (Inr (), hello @ out, s)
                | (Inr (True, i2), out) \<Rightarrow>
                    (case transmission B dev_size read_only i2 s of
                       (r, out', s') \<Rightarrow> (r, hello @ out @ out', s')))"

text \<open>
  The accept loop: \<open>None\<close> is a failed accept, \<open>Some inp\<close> a client that sends \<open>inp\<close>. The loop
  ends with a signal, after which everything is flushed.
\<close>

fun serve_clients :: "'s backend \<Rightarrow> nat \<Rightarrow> bool \<Rightarrow> bytes option list \<Rightarrow> 's \<Rightarrow> 's" where
  "serve_clients B dev_size read_only [] s = s"
| "serve_clients B dev_size read_only (None # conns) s = serve_clients B dev_size read_only conns s"
| "serve_clients B dev_size read_only (Some inp # conns) s =
     serve_clients B dev_size read_only conns (snd (snd (serve_connection B dev_size read_only inp s)))"

definition run_nbd_target ::
  "'s backend \<Rightarrow> nat \<Rightarrow> bool \<Rightarrow> bytes option list \<Rightarrow> 's \<Rightarrow> unit res \<times> 's" where
  "run_nbd_target B dev_size read_only conns s = b_flush B (serve_clients B dev_size read_only conns s)"

end
