(* ===== verification/Nbd_Correct.thy ===== *)
theory Nbd_Correct
  imports Nbd Mem_Backend
begin

text \<open>
  What the NBD server guarantees: whatever bytes a client sends, the backend's invariant and the
  size of the device survive, a read-only export is never modified, and for well-formed requests
  the byte-level server is the request-level one \<open>nbd_spec\<close>, with the stream in step even when a
  write is refused.
\<close>

section \<open>The request-level server\<close>

datatype nbd_request =
    NRead nat nat
  | NWrite nat bytes
  | NTrim nat nat
  | NWriteZeroes nat nat
  | NFlush
  | NUnknown nat

fun req_range :: "nbd_request \<Rightarrow> nat \<times> nat" where
  "req_range (NRead off len) = (off, len)"
| "req_range (NWrite off d) = (off, length d)"
| "req_range (NTrim off len) = (off, len)"
| "req_range (NWriteZeroes off len) = (off, len)"
| "req_range NFlush = (0, 0)"
| "req_range (NUnknown cmd) = (0, 0)"

fun req_modifies :: "nbd_request \<Rightarrow> bool" where
  "req_modifies (NWrite off d) = True"
| "req_modifies (NTrim off len) = True"
| "req_modifies (NWriteZeroes off len) = True"
| "req_modifies _ = False"

fun req_cmd :: "nbd_request \<Rightarrow> nat" where
  "req_cmd (NRead _ _) = 0"
| "req_cmd (NWrite _ _) = 1"
| "req_cmd NFlush = 3"
| "req_cmd (NTrim _ _) = 4"
| "req_cmd (NWriteZeroes _ _) = 6"
| "req_cmd (NUnknown cmd) = cmd"

fun req_payload :: "nbd_request \<Rightarrow> bytes" where
  "req_payload (NWrite off d) = d"
| "req_payload _ = []"

text \<open>What the protocol asks of a server: the error number, or the data of a read.\<close>

definition range_refused :: "nat \<Rightarrow> nbd_request \<Rightarrow> nat option" where
  "range_refused dev req =
     (case req_range req of (off, len) \<Rightarrow>
        if \<not> (512 dvd off \<and> 512 dvd len) then Some 22
        else if u64_limit \<le> off + len \<or> dev < off + len then Some 28 else None)"

definition backend_do :: "'s backend \<Rightarrow> nbd_request \<Rightarrow> 's \<Rightarrow> bytes res \<times> 's" where
  "backend_do B req s =
     (case req of
        NRead off len \<Rightarrow> b_read B s off len
      | NWrite off d \<Rightarrow> (case b_write B s off d of (r, s') \<Rightarrow> (map_sum id (\<lambda>_. []) r, s'))
      | NFlush \<Rightarrow> (case b_flush B s of (r, s') \<Rightarrow> (map_sum id (\<lambda>_. []) r, s'))
      | NTrim off len \<Rightarrow> (case b_clear B s off len of (r, s') \<Rightarrow> (map_sum id (\<lambda>_. []) r, s'))
      | NWriteZeroes off len \<Rightarrow> (case b_clear B s off len of (r, s') \<Rightarrow> (map_sum id (\<lambda>_. []) r, s'))
      | NUnknown cmd \<Rightarrow> (Inr [], s))"

definition nbd_spec ::
  "'s backend \<Rightarrow> nat \<Rightarrow> bool \<Rightarrow> nbd_request \<Rightarrow> 's \<Rightarrow> (nat \<times> bytes) \<times> 's" where
  "nbd_spec B dev read_only req s =
     (if \<exists>cmd. req = NUnknown cmd then ((22, []), s)
      else if read_only \<and> req_modifies req then ((1, []), s)
      else (case range_refused dev req of
              Some e \<Rightarrow> ((e, []), s)
            | None \<Rightarrow>
                (case backend_do B req s of
                   (Inr d, s') \<Rightarrow>
                     (if length d = (case req of NRead _ len \<Rightarrow> len | _ \<Rightarrow> 0) then (0, d) else (5, []), s')
                 | (Inl _, s') \<Rightarrow> ((5, []), s'))))"

text \<open>How a client puts a request on the wire, and what a correct client sends.\<close>

definition encode_request :: "nat \<Rightarrow> nbd_request \<Rightarrow> bytes" where
  "encode_request handle req =
     be_bytes 4 NBD_REQUEST_MAGIC @ be_bytes 2 0 @ be_bytes 2 (req_cmd req) @ be_bytes 8 handle
     @ be_bytes 8 (fst (req_range req)) @ be_bytes 4 (snd (req_range req)) @ req_payload req"

definition sendable :: "nat \<times> nbd_request \<Rightarrow> bool" where
  "sendable hr = (case hr of (handle, req) \<Rightarrow>
     handle < 2 ^ 64 \<and> fst (req_range req) < 2 ^ 64 \<and> snd (req_range req) < 2 ^ 32 \<and>
     (\<forall>cmd. req = NUnknown cmd \<longrightarrow> cmd < 2 ^ 16 \<and> cmd \<notin> {0, 1, 2, 3, 4, 6}))"

fun nbd_run :: "'s backend \<Rightarrow> nat \<Rightarrow> bool \<Rightarrow> (nat \<times> nbd_request) list \<Rightarrow> 's \<Rightarrow> bytes \<times> 's" where
  "nbd_run B dev read_only [] s = ([], s)"
| "nbd_run B dev read_only ((handle, req) # reqs) s =
     (case nbd_spec B dev read_only req s of
        ((e, d), s') \<Rightarrow>
          (case nbd_run B dev read_only reqs s' of
             (out, s'') \<Rightarrow> (simple_reply e handle d @ out, s'')))"

section \<open>One request\<close>

lemma bounds_error_refused:
  "bounds_error off len dev =
     (if \<not> (512 dvd off \<and> 512 dvd len) then Some 22
      else if u64_limit \<le> off + len \<or> dev < off + len then Some 28 else None)"
  by (auto simp: bounds_error_def is_multiple_of_def checked_add_def nbd_consts)

lemma serve_request_spec:
  assumes "sendable (handle, req)"
  shows "serve_request B dev read_only (req_cmd req) handle (fst (req_range req)) (snd (req_range req))
     (req_payload req @ rest) s =
    (case nbd_spec B dev read_only req s of ((e, d), s') \<Rightarrow> Served rest (simple_reply e handle d) s')"
proof (cases req)
  case (NUnknown cmd)
  with assms show ?thesis by (auto simp: serve_request_def nbd_spec_def sendable_def nbd_consts)
qed (auto simp: serve_request_def nbd_spec_def backend_do_def nbd_consts range_refused_def
      bounds_error_refused error_code_def split: prod.splits sum.splits)

lemma read_request_encode:
  assumes "sendable (handle, req)"
  shows "read_request (be_bytes 2 0 @ be_bytes 2 (req_cmd req) @ be_bytes 8 handle
     @ be_bytes 8 (fst (req_range req)) @ be_bytes 4 (snd (req_range req)) @ rest) =
     Some (req_cmd req, handle, fst (req_range req), snd (req_range req), rest)"
proof -
  have "req_cmd req < 256 ^ 2" using assms by (cases req) (auto simp: sendable_def)
  with assms show ?thesis by (simp add: read_request_def sendable_def)
qed

lemma transmission_turn_spec:
  assumes "sendable (handle, req)"
  shows "transmission_turn B dev read_only (encode_request handle req @ rest) s =
    (case nbd_spec B dev read_only req s of ((e, d), s') \<Rightarrow> Served rest (simple_reply e handle d) s')"
  using serve_request_spec [OF assms, of B dev read_only rest s]
  by (simp add: transmission_turn_def encode_request_def read_request_encode [OF assms]
      NBD_REQUEST_MAGIC_def)

lemma transmission_run:
  "list_all sendable reqs \<Longrightarrow>
   transmission B dev read_only (concat (map (\<lambda>(h, r). encode_request h r) reqs)) s =
     (case nbd_run B dev read_only reqs s of (out, s') \<Rightarrow> (Inr (), out, s'))"
proof (induction reqs arbitrary: s)
  case Nil
  then show ?case by (simp add: transmission.simps transmission_turn_def read_be_def read_exact_def)
next
  case (Cons hr reqs)
  obtain h r where hr: "hr = (h, r)" by (cases hr)
  with Cons show ?case
    by (simp add: transmission.simps [of B dev read_only "encode_request h r @ _"]
        transmission_turn_spec split: prod.splits)
qed

section \<open>Any client at all\<close>

context blob_backend
begin

lemma bounds_error_None: "bounds_error off len dev = None \<Longrightarrow> off + len < u64_limit"
  by (auto simp: bounds_error_def checked_add_def split: if_splits option.splits)

lemma serve_request_harmless:
  assumes inv: "binv s"
  shows "harmless content binv ro s
    (turn_state (serve_request B dev ro cmd handle off len rest s))"
proof -
  obtain f s3 where f: "b_flush B s = (f, s3)" by fastforce
  have hf: "harmless content binv ro s s3" by (rule harmless_flush [OF inv f])
  have hr: "harmless content binv ro s s'" if "bounds_error off len dev = None" "b_read B s off len = (r, s')" for r s'
    using harmless_read [OF inv bounds_error_None [OF that(1)] that(2)] .
  have hw: "harmless content binv ro s s'"
    if "bounds_error off len dev = None" "b_write B s off d = (r, s')" "length d = len" "\<not> ro" for r s' d
    using harmless_write [OF inv _ that(2)] bounds_error_None [OF that(1)] that(3,4) by simp
  have hc: "harmless content binv ro s s'"
    if "bounds_error off len dev = None" "b_clear B s off len = (r, s')" "\<not> ro" for r s'
    using harmless_clear [OF inv bounds_error_None [OF that(1)] that(2)] that(3) by simp
  show ?thesis
    unfolding serve_request_def f
    using hf hr hw hc harmless_refl [OF inv, of ro]
    by (auto simp: nbd_consts read_exact_def split: option.splits prod.splits sum.splits)
qed

lemma transmission_turn_harmless:
  "binv s \<Longrightarrow> harmless content binv ro s (turn_state (transmission_turn B dev ro inp s))"
  by (auto simp: transmission_turn_def serve_request_harmless harmless_refl
      split: option.splits prod.splits)

lemma transmission_harmless:
  "binv s \<Longrightarrow> harmless content binv ro s (snd (snd (transmission B dev ro inp s)))"
proof (induction "length inp" arbitrary: inp s rule: less_induct)
  case less
  note turn = transmission_turn_harmless [OF less.prems, of ro dev inp]
  show ?case
  proof (cases "transmission_turn B dev ro inp s")
    case (Served rest out s1)
    then have "length rest < length inp" by (rule transmission_turn_consumes)
    moreover have "binv s1" using turn Served by (simp add: harmless_def)
    ultimately have "harmless content binv ro s1 (snd (snd (transmission B dev ro rest s1)))"
      using less.hyps by blast
    with turn Served show ?thesis
      by (auto simp: transmission.simps [of B dev ro inp] split: prod.splits intro: harmless_trans)
  qed (use turn in \<open>simp_all add: transmission.simps [of B dev ro inp]\<close>)
qed

lemma serve_connection_harmless:
  "binv s \<Longrightarrow> harmless content binv ro s (snd (snd (serve_connection B dev ro inp s)))"
  using transmission_harmless
  by (auto simp: serve_connection_def Let_def harmless_refl split: option.splits prod.splits sum.splits bool.splits)
     (metis snd_conv)+

lemma serve_clients_harmless:
  "binv s \<Longrightarrow> harmless content binv ro s (serve_clients B dev ro conns s)"
proof (induction conns arbitrary: s)
  case (Cons c conns)
  show ?case
  proof (cases c)
    case None
    with Cons show ?thesis by simp
  next
    case (Some inp)
    have "harmless content binv ro s (snd (snd (serve_connection B dev ro inp s)))"
      using Cons.prems by (rule serve_connection_harmless)
    moreover from this have "binv (snd (snd (serve_connection B dev ro inp s)))"
      by (simp add: harmless_def)
    ultimately show ?thesis using Cons.IH Some harmless_trans by fastforce
  qed
qed (simp add: harmless_refl)

lemma run_nbd_target_spec:
  assumes "binv s" and "run_nbd_target B dev ro conns s = (r, s')"
  shows "harmless content binv ro s s' \<and> (r = Inr () \<longrightarrow> durable s' = content s')"
proof -
  define s1 where "s1 = serve_clients B dev ro conns s"
  have h: "harmless content binv ro s s1"
    using assms(1) unfolding s1_def by (rule serve_clients_harmless)
  then have inv: "binv s1" by (simp add: harmless_def)
  have f: "b_flush B s1 = (r, s')" using assms(2) by (simp add: run_nbd_target_def s1_def)
  from flush_law [OF inv f] harmless_trans [OF h harmless_flush [OF inv f]] show ?thesis by simp
qed

end

section \<open>The handshake\<close>

text \<open>An option on the wire, and the options that keep the haggling going.\<close>

definition encode_option :: "nat \<Rightarrow> bytes \<Rightarrow> bytes" where
  "encode_option opt data = be_bytes 8 IHAVEOPT @ be_bytes 4 opt @ be_bytes 4 (length data) @ data"

definition haggling :: "nat \<times> bytes \<Rightarrow> bool" where
  "haggling o' = (case o' of (opt, data) \<Rightarrow>
     opt < 2 ^ 32 \<and> length data < 2 ^ 32 \<and> opt \<notin> {NBD_OPT_EXPORT_NAME, NBD_OPT_ABORT, NBD_OPT_GO})"

lemma read_option_encode:
  "opt < 2 ^ 32 \<Longrightarrow> length data < 2 ^ 32 \<Longrightarrow>
   read_option (encode_option opt data @ rest) = Inr (opt, data, rest)"
  by (simp add: read_option_def encode_option_def IHAVEOPT_def)

lemma negotiate_haggle:
  "list_all haggling opts \<Longrightarrow>
   negotiate dev nz ro (concat (map (\<lambda>(o', d). encode_option o' d) opts) @ rest) =
     (case negotiate dev nz ro rest of
        (r, out) \<Rightarrow> (r, concat (map (\<lambda>(o', d). fst (answer_option dev nz ro o')) opts) @ out))"
proof (induction opts)
  case (Cons od opts)
  obtain opt d where od: "od = (opt, d)" by (cases od)
  with Cons.prems have "snd (answer_option dev nz ro opt) = None"
    by (auto simp: answer_option_def haggling_def)
  with od Cons show ?case
    by (cases "answer_option dev nz ro opt")
       (simp add: negotiate.simps [of dev nz ro "encode_option opt d @ _"] read_option_encode
         haggling_def split: prod.splits)
qed (simp split: prod.splits)

lemma negotiate_final:
  assumes "opt \<in> {NBD_OPT_EXPORT_NAME, NBD_OPT_GO}" and "length d < 2 ^ 32"
  shows "negotiate dev nz ro (encode_option opt d @ rest) =
    (Inr (True, rest), fst (answer_option dev nz ro opt))"
proof -
  have "opt < 2 ^ 32" using assms by (auto simp: nbd_consts)
  with assms show ?thesis
    by (auto simp: negotiate.simps [of dev nz ro "encode_option opt d @ rest"] read_option_encode
        answer_option_def nbd_consts)
qed

section \<open>Properties\<close>

text \<open>
  C9: the byte-level transmission loop is the request-level server. For every sequence of requests
  a client may legally send, of any kind, valid or not, on a writable or read-only export, the
  loop consumes exactly the bytes of the requests, answers each with one simple reply carrying its
  own handle, the error number or the data, in order, has exactly the effect of the request-level
  server on the backend, and ends cleanly at the end of the stream.
\<close>

theorem nbd_transmission_correct:
  assumes "list_all sendable reqs"
  shows "transmission B dev read_only (concat (map (\<lambda>(h, r). encode_request h r) reqs)) s =
     (case nbd_run B dev read_only reqs s of (out, s') \<Rightarrow> (Inr (), out, s'))"
  using assms by (rule transmission_run)

abbreviation one_sector :: mem_state where
  "one_sector \<equiv> \<lparr>mem_data = replicate 512 7, mem_poisoned = False\<rparr>"

theorem nbd_transmission_correct_witness:
  "transmission mem_backend 512 True (encode_request 5 (NWrite 0 (zeros 512)) @ encode_request 6 NFlush) one_sector =
     (Inr (), simple_reply 1 5 [] @ simple_reply 0 6 [], one_sector)"
  using nbd_transmission_correct [of "[(5, NWrite 0 (zeros 512)), (6, NFlush)]" mem_backend 512 True one_sector]
  by (simp add: sendable_def nbd_spec_def range_refused_def backend_do_def mem_flush_def u64_limit_def)

text \<open>
  No client can do harm. Whatever bytes the clients of the server send, and however their
  connections end, the backend's invariant holds afterwards and the device has its old size; if
  the export is read-only its content is unchanged; and when the shutdown flush succeeds, the
  content is durable.
\<close>

theorem nbd_server_harmless:
  assumes "blob_backend B content durable binv" and "binv s"
    and "run_nbd_target B dev read_only conns s = (r, s')"
  shows "binv s' \<and> length (content s') = length (content s) \<and>
    (read_only \<longrightarrow> content s' = content s) \<and> (r = Inr () \<longrightarrow> durable s' = content s')"
  using blob_backend.run_nbd_target_spec [OF assms] by (simp add: harmless_def)

theorem nbd_server_harmless_witness:
  "\<exists>r s'. run_nbd_target mem_backend 512 True [Some [1, 2, 3], None] one_sector = (r, s') \<and>
     mem_data s' = replicate 512 7"
proof -
  obtain r s' where run: "run_nbd_target mem_backend 512 True [Some [1, 2, 3], None] one_sector = (r, s')"
    by fastforce
  have "mem_inv one_sector" by (simp add: mem_inv_def u64_limit_def)
  from nbd_server_harmless [OF mem.blob_backend_axioms this run] run show ?thesis by auto
qed

text \<open>
  C29: the handshake reaches the transmission phase. After any number of informational and unknown
  options, each answered in order (an unknown one with \<open>NBD_REP_ERR_UNSUP\<close>), \<open>NBD_OPT_GO\<close> or
  the legacy \<open>NBD_OPT_EXPORT_NAME\<close> starts transmission on exactly the bytes that follow.
\<close>

theorem nbd_handshake:
  assumes "client_flags < 2 ^ 32" and "list_all haggling opts"
    and "opt \<in> {NBD_OPT_EXPORT_NAME, NBD_OPT_GO}" and "length name < 2 ^ 32"
    and "nz = (word_of_nat client_flags AND NBD_FLAG_C_NO_ZEROES \<noteq> (0 :: 32 word))"
    and "transmission B dev ro rest s = (r, out, s')"
  shows "\<exists>hello. length hello = 18 \<and>
    serve_connection B dev ro (be_bytes 4 client_flags
      @ concat (map (\<lambda>(o', d). encode_option o' d) opts) @ encode_option opt name @ rest) s =
    (r, hello @ concat (map (\<lambda>(o', d). fst (answer_option dev nz ro o')) opts)
          @ fst (answer_option dev nz ro opt) @ out, s')"
  using assms
  by (simp add: serve_connection_def Let_def negotiate_haggle negotiate_final)

theorem nbd_handshake_witness:
  "\<exists>hello. length hello = 18 \<and>
    serve_connection mem_backend 512 False (be_bytes 4 2 @ encode_option 99 [] @ encode_option 7 []) one_sector =
      (Inr (), hello @ send_opt_reply 99 NBD_REP_ERR_UNSUP []
         @ fst (answer_option 512 True False NBD_OPT_GO), one_sector)"
proof -
  have t: "transmission mem_backend 512 False [] one_sector = (Inr (), [], one_sector)"
    by (simp add: transmission.simps transmission_turn_def read_be_def read_exact_def)
  have nz: "True = (word_of_nat 2 AND NBD_FLAG_C_NO_ZEROES \<noteq> (0 :: 32 word))"
    by (simp add: NBD_FLAG_C_NO_ZEROES_def)
  from nbd_handshake [OF _ _ _ _ nz t, of "[(99, [])]" NBD_OPT_GO "[]"] show ?thesis
    by (simp add: haggling_def nbd_consts answer_option_def [of _ _ _ 99])
qed

end
