(* ===== verification/Ublk_Device.thy ===== *)
theory Ublk_Device
  imports Blob_Backend Mem_Backend
begin

text \<open>
  The kernel target of \<open>ublk_target.rs\<close>: the per-request handler of the queues, the signal
  flags, and the life of the device up to the final flush. The numbers of the kernel interface
  (operation codes, attribute bit, \<open>errno\<close> values) belong to \<open>libublk\<close> and \<open>libc\<close> and are
  a parameter, the record \<open>ublk_sys\<close>; the code relies on the operation codes being distinct.
  The queues' threads are serialised: a run is a sequence of requests, signals and polls.
\<close>

unbundle bit_operations_syntax

record ublk_config =
  uc_block_size :: nat
  uc_dev_size :: nat
  uc_nr_queues :: nat
  uc_queue_depth :: nat
  uc_id :: int
  uc_read_only :: bool

definition ublk_config_default :: ublk_config where
  "ublk_config_default = \<lparr>uc_block_size = 512, uc_dev_size = 0, uc_nr_queues = 1, uc_queue_depth = 64,
     uc_id = -1, uc_read_only = False\<rparr>"

record ublk_sys =
  OP_READ :: nat
  OP_WRITE :: nat
  OP_FLUSH :: nat
  OP_DISCARD :: nat
  OP_WRITE_ZEROES :: nat
  ATTR_READ_ONLY :: "32 word"
  EIO :: int
  EINVAL :: int

text \<open>The device parameters the target sets on top of the defaults for the size.\<close>

record ublk_params =
  up_dev_size :: nat
  up_logical_bs_shift :: nat
  up_attrs :: "32 word"

definition is_power_of_two :: "nat \<Rightarrow> bool" where
  "is_power_of_two n = list_ex (\<lambda>i. n = 2 ^ i) [0 ..< 32]"

definition check_block_size :: "nat \<Rightarrow> unit res" where
  "check_block_size bs =
     (if bs < 512 \<or> \<not> is_multiple_of bs 512 \<or> \<not> is_power_of_two bs then Inl BadConfig else Inr ())"

definition trailing_zeros :: "nat \<Rightarrow> nat" where
  "trailing_zeros n = length (takeWhile (\<lambda>i. n mod 2 ^ (i + 1) = 0) [0 ..< 32])"

text \<open>\<open>defaults\<close> is what \<open>set_default_params\<close> leaves for a device of the size.\<close>

definition tgt_init :: "(nat \<Rightarrow> ublk_params) \<Rightarrow> ublk_sys \<Rightarrow> ublk_config \<Rightarrow> ublk_params" where
  "tgt_init defaults sys cfg =
     (let p = defaults (uc_dev_size cfg);
          p1 = p\<lparr>up_logical_bs_shift := trailing_zeros (uc_block_size cfg)\<rparr>
      in if uc_read_only cfg then p1\<lparr>up_attrs := up_attrs p1 OR ATTR_READ_ONLY sys\<rparr> else p1)"

section \<open>Requests\<close>

record iod =
  op_flags :: nat
  start_sector :: nat
  nr_sectors :: nat

definition as_i32 :: "nat \<Rightarrow> int" where
  "as_i32 n = sint (word_of_nat n :: 32 word)"

text \<open>
  One request: the result code for the kernel, the request's I/O buffer afterwards, and the
  backend's state. The buffer of a request is as long as its transfer.
\<close>

definition io_handler ::
  "ublk_sys \<Rightarrow> nat \<Rightarrow> 's backend \<Rightarrow> iod \<Rightarrow> bytes \<Rightarrow> 's \<Rightarrow> int \<times> bytes \<times> 's" where
  "io_handler sys block_size B io buf s =
     (let op = op_flags io mod 256;
          off = start_sector io * block_size mod u64_limit;
          len = nr_sectors io * block_size
      in if op = OP_READ sys then
           (case b_read B s off len of
              (Inr data, s') \<Rightarrow>
                if length data \<noteq> len then (- EIO sys, buf, s')
                else (as_i32 len, overwrite 0 data buf, s')
            | (Inl _, s') \<Rightarrow> (- EIO sys, buf, s'))
         else if op = OP_WRITE sys then
           (case b_write B s off (take len buf) of
              (Inr _, s') \<Rightarrow> (as_i32 len, buf, s') | (Inl _, s') \<Rightarrow> (- EIO sys, buf, s'))
         else if op = OP_FLUSH sys then
           (case b_flush B s of (Inr _, s') \<Rightarrow> (0, buf, s') | (Inl _, s') \<Rightarrow> (- EIO sys, buf, s'))
         else if op = OP_DISCARD sys \<or> op = OP_WRITE_ZEROES sys then
           (case b_clear B s off len of
              (Inr _, s') \<Rightarrow> (0, buf, s') | (Inl _, s') \<Rightarrow> (- EIO sys, buf, s'))
         else (- EINVAL sys, buf, s))"

section \<open>Signals and the life of the device\<close>

datatype signal = SIGINT | SIGTERM | SIGUSR1 | SIGOTHER

record sig_flags =
  sf_stop :: bool
  sf_flush :: bool

definition signals_install :: sig_flags where
  "signals_install = \<lparr>sf_stop = False, sf_flush = False\<rparr>"

definition on_signal :: "signal \<Rightarrow> sig_flags \<Rightarrow> sig_flags" where
  "on_signal sg f =
     (case sg of
        SIGINT \<Rightarrow> f\<lparr>sf_stop := True\<rparr>
      | SIGTERM \<Rightarrow> f\<lparr>sf_stop := True\<rparr>
      | SIGUSR1 \<Rightarrow> f\<lparr>sf_flush := True\<rparr>
      | SIGOTHER \<Rightarrow> f)"

text \<open>
  What happens to a running device: a request completed by a queue, a signal, or one round of the
  watching loop. The loop's round is where the flags take effect.
\<close>

datatype ublk_event = EvIo iod bytes | EvSignal signal | EvPoll

record 's ublk_run =
  ur_state :: 's
  ur_flags :: sig_flags
  ur_results :: "int list"

definition poll_round :: "'s backend \<Rightarrow> 's ublk_run \<Rightarrow> bool \<times> 's ublk_run" where
  "poll_round B r =
     (if sf_stop (ur_flags r) then (True, r)
      else if sf_flush (ur_flags r)
      then (False, r\<lparr>ur_flags := (ur_flags r)\<lparr>sf_flush := False\<rparr>,
                     ur_state := snd (b_flush B (ur_state r))\<rparr>)
      else (False, r))"

definition serve_io :: "ublk_sys \<Rightarrow> nat \<Rightarrow> 's backend \<Rightarrow> iod \<Rightarrow> bytes \<Rightarrow> 's ublk_run \<Rightarrow> 's ublk_run" where
  "serve_io sys bs B io buf r =
     (case io_handler sys bs B io buf (ur_state r) of
        (res, _, s') \<Rightarrow> r\<lparr>ur_state := s', ur_results := ur_results r @ [res]\<rparr>)"

text \<open>The device runs until a round of the loop sees the stop flag; \<open>None\<close> if it never does.\<close>

fun device_run ::
  "ublk_sys \<Rightarrow> nat \<Rightarrow> 's backend \<Rightarrow> ublk_event list \<Rightarrow> 's ublk_run \<Rightarrow> ('s ublk_run) option" where
  "device_run sys bs B [] r = None"
| "device_run sys bs B (EvIo io buf # evs) r = device_run sys bs B evs (serve_io sys bs B io buf r)"
| "device_run sys bs B (EvSignal sg # evs) r =
     device_run sys bs B evs (r\<lparr>ur_flags := on_signal sg (ur_flags r)\<rparr>)"
| "device_run sys bs B (EvPoll # evs) r =
     (case poll_round B r of (True, r') \<Rightarrow> Some r' | (False, r') \<Rightarrow> device_run sys bs B evs r')"

text \<open>
  The whole target: the block size is checked after the control device is built, the device
  runs, the requests still queued (\<open>drain\<close>) complete, and the backend is flushed; a failed
  final flush is only logged.
\<close>

definition run_ublk_target_blocking ::
  "ublk_sys \<Rightarrow> ublk_config \<Rightarrow> 's backend \<Rightarrow> ublk_event list \<Rightarrow> (iod \<times> bytes) list \<Rightarrow> 's \<Rightarrow>
   (unit res \<times> 's ublk_run) option" where
  "run_ublk_target_blocking sys cfg B evs drain s =
     (let r0 = \<lparr>ur_state = s, ur_flags = signals_install, ur_results = []\<rparr> in
      case check_block_size (uc_block_size cfg) of
        Inl e \<Rightarrow> Some (Inl e, r0)
      | Inr _ \<Rightarrow>
          (case device_run sys (uc_block_size cfg) B evs r0 of
             None \<Rightarrow> None
           | Some r \<Rightarrow>
               let r' = fold (\<lambda>(io, buf). serve_io sys (uc_block_size cfg) B io buf) drain r
               in Some (Inr (), r'\<lparr>ur_state := snd (b_flush B (ur_state r'))\<rparr>)))"

section \<open>Requests behave like block I/O\<close>

definition ublk_sys_ok :: "ublk_sys \<Rightarrow> bool" where
  "ublk_sys_ok sys \<longleftrightarrow> distinct [OP_READ sys, OP_WRITE sys, OP_FLUSH sys, OP_DISCARD sys, OP_WRITE_ZEROES sys] \<and>
     0 < EIO sys \<and> 0 < EINVAL sys"

lemma as_i32_small: "n < 2 ^ 31 \<Longrightarrow> as_i32 n = int n"
  by (simp add: as_i32_def signed_of_nat signed_take_bit_int_eq_self)

text \<open>A request the kernel may issue: its range is in \<open>u64\<close> and its buffer holds the transfer.\<close>

definition io_wf :: "nat \<Rightarrow> iod \<Rightarrow> bytes \<Rightarrow> bool" where
  "io_wf bs io buf \<longleftrightarrow> start_sector io * bs + nr_sectors io * bs < u64_limit \<and>
     length buf = nr_sectors io * bs"

fun event_wf :: "nat \<Rightarrow> ublk_event \<Rightarrow> bool" where
  "event_wf bs (EvIo io buf) = io_wf bs io buf"
| "event_wf bs _ = True"

context blob_backend
begin

lemma io_handler_harmless:
  assumes inv: "binv s" and wf: "io_wf bs io buf"
  shows "harmless content binv False s (snd (snd (io_handler sys bs B io buf s)))"
proof -
  define off where "off = start_sector io * bs"
  define len where "len = nr_sectors io * bs"
  have lim: "off + len < u64_limit" and buf: "take len buf = buf" and lb: "length buf = len"
    using wf by (simp_all add: io_wf_def off_def len_def)
  have off: "start_sector io * bs mod u64_limit = off" using lim by (simp add: off_def)
  obtain rd s1 where rd: "b_read B s off len = (rd, s1)" by fastforce
  obtain w s2 where w: "b_write B s off buf = (w, s2)" by fastforce
  obtain f s3 where f: "b_flush B s = (f, s3)" by fastforce
  obtain c s4 where c: "b_clear B s off len = (c, s4)" by fastforce
  have h: "harmless content binv False s s1" "harmless content binv False s s2"
    "harmless content binv False s s3" "harmless content binv False s s4"
    using harmless_read [OF inv lim rd] harmless_write [OF inv _ w] lim lb
      harmless_flush [OF inv f] harmless_clear [OF inv lim c] by simp_all
  have "snd (snd (io_handler sys bs B io buf s)) \<in> {s, s1, s2, s3, s4}"
    unfolding io_handler_def Let_def off len_def [symmetric] buf rd w f c
    by (simp split: sum.splits)
  with h harmless_refl [OF inv] show ?thesis by auto
qed

lemma serve_io_harmless:
  assumes "binv (ur_state r)" and "io_wf bs io buf"
  shows "harmless content binv False (ur_state r) (ur_state (serve_io sys bs B io buf r))"
  using io_handler_harmless [OF assms, of sys] 
  by (cases "io_handler sys bs B io buf (ur_state r)") (simp add: serve_io_def)

lemma poll_round_harmless:
  "binv (ur_state r) \<Longrightarrow> harmless content binv False (ur_state r) (ur_state (snd (poll_round B r)))"
  using harmless_flush [of "ur_state r" "fst (b_flush B (ur_state r))" "snd (b_flush B (ur_state r))"]
  by (simp add: poll_round_def harmless_refl)

lemma device_run_harmless:
  "device_run sys bs B evs r = Some r' \<Longrightarrow> list_all (event_wf bs) evs \<Longrightarrow> binv (ur_state r) \<Longrightarrow>
   harmless content binv False (ur_state r) (ur_state r')"
proof (induction evs arbitrary: r)
  case (Cons ev evs)
  show ?case
  proof (cases ev)
    case (EvIo io buf)
    have h: "harmless content binv False (ur_state r) (ur_state (serve_io sys bs B io buf r))"
      using Cons.prems EvIo by (intro serve_io_harmless) simp_all
    then have "binv (ur_state (serve_io sys bs B io buf r))" by (simp add: harmless_def)
    with Cons EvIo h show ?thesis by (auto intro: harmless_trans)
  next
    case (EvSignal sg)
    with Cons show ?thesis by fastforce
  next
    case EvPoll
    obtain b r1 where p: "poll_round B r = (b, r1)" by fastforce
    have h: "harmless content binv False (ur_state r) (ur_state r1)"
      using poll_round_harmless [OF Cons.prems(3)] p by simp
    then have "binv (ur_state r1)" by (simp add: harmless_def)
    with Cons EvPoll p h show ?thesis by (cases b) (auto intro: harmless_trans)
  qed
qed simp

lemma drain_harmless:
  "list_all (\<lambda>(io, buf). io_wf bs io buf) drain \<Longrightarrow> binv (ur_state r) \<Longrightarrow>
   harmless content binv False (ur_state r)
     (ur_state (fold (\<lambda>(io, buf). serve_io sys bs B io buf) drain r))"
proof (induction drain arbitrary: r)
  case (Cons x drain)
  obtain io buf where x: "x = (io, buf)" by (cases x)
  have h: "harmless content binv False (ur_state r) (ur_state (serve_io sys bs B io buf r))"
    using Cons.prems x by (intro serve_io_harmless) simp_all
  then have "binv (ur_state (serve_io sys bs B io buf r))" by (simp add: harmless_def)
  with Cons x h show ?case by (auto intro: harmless_trans)
qed (simp add: harmless_refl)

lemma run_target_spec:
  assumes "run_ublk_target_blocking sys cfg B evs drain s = Some (Inr (), r)" and "binv s"
    and "list_all (event_wf (uc_block_size cfg)) evs"
    and "list_all (\<lambda>(io, buf). io_wf (uc_block_size cfg) io buf) drain"
  shows "\<exists>s0. binv s0 \<and> length (content s0) = length (content s) \<and> ur_state r = snd (b_flush B s0)"
proof -
  define r0 where "r0 = \<lparr>ur_state = s, ur_flags = signals_install, ur_results = []\<rparr>"
  obtain r1 where r1: "device_run sys (uc_block_size cfg) B evs r0 = Some r1"
    "r = (let r' = fold (\<lambda>(io, buf). serve_io sys (uc_block_size cfg) B io buf) drain r1
          in r'\<lparr>ur_state := snd (b_flush B (ur_state r'))\<rparr>)"
    using assms(1) by (auto simp: run_ublk_target_blocking_def r0_def Let_def split: sum.splits option.splits)
  have h1: "harmless content binv False s (ur_state r1)"
    using device_run_harmless [OF r1(1) assms(3)] assms(2) by (simp add: r0_def)
  then have "binv (ur_state r1)" by (simp add: harmless_def)
  from drain_harmless [OF assms(4) this, of sys] h1 r1(2) show ?thesis
    by (auto simp: Let_def harmless_def)
qed

end

section \<open>Properties\<close>

text \<open>
  C17: over a reliable backend the queue handler is a block device. A request inside the device
  succeeds: a read fills the request's buffer with the device's bytes, a write and a discard or
  write-zeroes change exactly their range, a flush makes the content durable; reads and writes
  return the transfer length, the others zero. An unknown operation is refused and changes
  nothing.
\<close>

theorem ublk_io_correct:
  assumes "reliable_backend B content durable binv" and "binv s" and "ublk_sys_ok sys"
    and "512 dvd bs" and "off = start_sector io * bs" and "len = nr_sectors io * bs"
    and "off + len \<le> length (content s)" and "len < 2 ^ 31" and "length buf = len"
    and "io_handler sys bs B io buf s = (res, buf', s')" and "op = op_flags io mod 256"
  shows "(op = OP_READ sys \<longrightarrow> res = int len \<and> buf' = segment off len (content s) \<and> content s' = content s) \<and>
    (op = OP_WRITE sys \<longrightarrow> res = int len \<and> content s' = overwrite off buf (content s)) \<and>
    (op = OP_FLUSH sys \<longrightarrow> res = 0 \<and> content s' = content s \<and> durable s' = content s) \<and>
    (op = OP_DISCARD sys \<or> op = OP_WRITE_ZEROES sys \<longrightarrow>
       res = 0 \<and> content s' = overwrite off (zeros len) (content s)) \<and>
    (op \<notin> {OP_READ sys, OP_WRITE sys, OP_FLUSH sys, OP_DISCARD sys, OP_WRITE_ZEROES sys} \<longrightarrow>
       res = - EINVAL sys \<and> s' = s)"
proof -
  note rel = reliable_backend.axioms(2) [OF assms(1)]
  note bb = reliable_backend.axioms(1) [OF assms(1)]
  have lim: "off + len < u64_limit"
    using page_store.size_aligned [OF blob_backend.axioms(1) [OF bb] assms(2)] assms(7) by linarith
  have off: "start_sector io * bs mod u64_limit = off" using lim by (simp add: assms(5))
  have al: "512 dvd off" "512 dvd len" using assms(4-6) by simp_all
  obtain rd s1 where rd: "b_read B s off len = (rd, s1)" by fastforce
  obtain w s2 where w: "b_write B s off buf = (w, s2)" by fastforce
  obtain f s3 where f: "b_flush B s = (f, s3)" by fastforce
  obtain c s4 where c: "b_clear B s off len = (c, s4)" by fastforce
  have ok: "is_ok rd" "is_ok w" "is_ok f" "is_ok c"
    using reliable_backend.read_ok [OF assms(1,2) al assms(7)] rd
      reliable_backend.write_ok [OF assms(1,2) al(1), of buf] w assms(7,9) al(2)
      reliable_backend.flush_ok [OF assms(1,2)] f
      reliable_backend.clear_ok [OF assms(1,2) al assms(7)] c by simp_all
  then obtain d where vals: "rd = Inr d" "w = Inr ()" "f = Inr ()" "c = Inr ()"
    by (auto simp: is_ok_ex)
  have d: "length d = len" "d = segment off len (content s)" "content s1 = content s"
    using blob_backend.read_law [OF bb assms(2) lim rd] vals by auto
  have laws: "content s2 = overwrite off buf (content s)"
    "content s3 = content s" "durable s3 = content s" "content s4 = overwrite off (zeros len) (content s)"
    using blob_backend.write_law [OF bb assms(2) _ w] page_store.flush_law [OF blob_backend.axioms(1) [OF bb] assms(2) f]
      blob_backend.clear_law [OF bb assms(2) lim c] vals lim assms(9) by auto
  have "overwrite 0 d buf = d" using d(1) assms(9) by (simp add: overwrite_def)
  then show ?thesis
    using assms(3,9,10,11) rd w f c vals d laws as_i32_small [OF assms(8)]
    by (auto simp: io_handler_def Let_def off assms(6) [symmetric] ublk_sys_ok_def)
qed

text \<open>The operation codes of the kernel's interface.\<close>

abbreviation linux_ublk :: ublk_sys where
  "linux_ublk \<equiv> \<lparr>OP_READ = 0, OP_WRITE = 1, OP_FLUSH = 2, OP_DISCARD = 3, OP_WRITE_ZEROES = 5,
     ATTR_READ_ONLY = 1, EIO = 5, EINVAL = 22\<rparr>"

abbreviation two_sectors :: mem_state where
  "two_sectors \<equiv> \<lparr>mem_data = zeros 1024, mem_poisoned = False\<rparr>"

lemma two_sectors_inv: "mem_inv two_sectors"
  by (simp add: mem_inv_def u64_limit_def)

theorem ublk_io_correct_witness:
  "\<exists>buf' s'. io_handler linux_ublk 512 mem_backend \<lparr>op_flags = 257, start_sector = 1, nr_sectors = 1\<rparr>
     (replicate 512 9) two_sectors = (512, buf', s') \<and>
     mem_data s' = overwrite 512 (replicate 512 9) (zeros 1024)"
proof -
  define io where "io = \<lparr>op_flags = 257, start_sector = 1, nr_sectors = 1\<rparr>"
  obtain res buf' s' where r: "io_handler linux_ublk 512 mem_backend io (replicate 512 9) two_sectors = (res, buf', s')"
    by (metis prod_cases3)
  from ublk_io_correct [OF mem.reliable_backend_axioms two_sectors_inv _ _ refl refl _ _ _ r refl]
  have "res = 512 \<and> mem_data s' = overwrite 512 (replicate 512 9) (zeros 1024)"
    by (simp add: ublk_sys_ok_def io_def)
  with r show ?thesis by (simp add: io_def)
qed



end
