(* ===== verification/Rust_Text.thy ===== *)
theory Rust_Text
  imports Ublk_Prelude
begin

text \<open>
  The string operations of Rust's standard library that the code uses: splitting, lines,
  trimming, decimal numbers, prefixes and suffixes. A string is a list of characters with code
  points below 256. The locale \<open>text_table\<close> is the contract of the line-per-record files
  (the cache budget and the cache index): what is written is what is read back.
\<close>

section \<open>Splitting\<close>

text \<open>\<open>str::split\<close> on a character: always at least one part.\<close>

fun split_on :: "char \<Rightarrow> string \<Rightarrow> string list" where
  "split_on c [] = [[]]"
| "split_on c (x # xs) =
     (if x = c then [] # split_on c xs
      else (case split_on c xs of [] \<Rightarrow> [[x]] | p # ps \<Rightarrow> (x # p) # ps))"

fun join :: "char \<Rightarrow> string list \<Rightarrow> string" where
  "join c [] = []"
| "join c [p] = p"
| "join c (p # ps) = p @ c # join c ps"

lemma split_on_nonempty [simp]: "split_on c xs \<noteq> []"
  by (induction xs) (auto split: list.splits)

lemma split_on_none: "c \<notin> set p \<Longrightarrow> split_on c p = [p]"
  by (induction p) auto

lemma split_on_append: "c \<notin> set p \<Longrightarrow> split_on c (p @ c # rest) = p # split_on c rest"
  by (induction p) auto

lemma split_on_join: "ps \<noteq> [] \<Longrightarrow> \<forall>p \<in> set ps. c \<notin> set p \<Longrightarrow> split_on c (join c ps) = ps"
  by (induction c ps rule: join.induct) (auto simp: split_on_none split_on_append)

lemma set_join: "set (join c ps) \<subseteq> \<Union> (set ` set ps) \<union> {c}"
  by (induction c ps rule: join.induct) auto

text \<open>\<open>str::split_once\<close> at the first occurrence of a character.\<close>

definition split_once :: "char \<Rightarrow> string \<Rightarrow> (string \<times> string) option" where
  "split_once c s =
     (if c \<in> set s
      then Some (takeWhile (\<lambda>x. x \<noteq> c) s, tl (dropWhile (\<lambda>x. x \<noteq> c) s))
      else None)"

lemma split_once_append: "c \<notin> set p \<Longrightarrow> split_once c (p @ c # rest) = Some (p, rest)"
  by (induction p) (auto simp: split_once_def)

definition strip_prefix :: "string \<Rightarrow> string \<Rightarrow> string option" where
  "strip_prefix p s = (if take (length p) s = p then Some (drop (length p) s) else None)"

lemma strip_prefix_append [simp]: "strip_prefix p (p @ s) = Some s"
  by (simp add: strip_prefix_def)

lemma strip_prefix_Some: "strip_prefix p s = Some r \<longleftrightarrow> s = p @ r"
  by (auto simp: strip_prefix_def) (metis append_take_drop_id)

section \<open>Searching\<close>

text \<open>\<open>str::find\<close>: the index of the first occurrence.\<close>

fun str_find :: "string \<Rightarrow> string \<Rightarrow> nat option" where
  "str_find pat [] = (if pat = [] then Some 0 else None)"
| "str_find pat (c # s) =
     (if take (length pat) (c # s) = pat then Some 0 else map_option Suc (str_find pat s))"

lemma str_find_bound: "str_find pat s = Some i \<Longrightarrow> i + length pat \<le> length s"
proof (induction pat s arbitrary: i rule: str_find.induct)
  case (1 pat)
  then show ?case by (auto split: if_splits)
next
  case (2 pat c s)
  show ?case
  proof (cases "take (length pat) (c # s) = pat")
    case True
    then have "length pat \<le> length (c # s)" by (metis length_take min.absorb_iff2 min.commute)
    with 2 True show ?thesis by simp
  next
    case False
    with "2.prems" obtain j where "str_find pat s = Some j" "i = Suc j" by auto
    with "2.IH" [OF False] show ?thesis by simp
  qed
qed

lemma str_find_here: "str_find pat (pat @ r) = Some 0"
  by (cases "pat @ r") (auto simp: append_eq_Cons_conv)

text \<open>A text in which no occurrence begins, whatever follows it.\<close>

definition skips :: "string \<Rightarrow> string \<Rightarrow> bool" where
  "skips pat a \<longleftrightarrow> (\<forall>r. str_find pat (a @ r) = map_option ((+) (length a)) (str_find pat r))"

lemma skips_Nil [simp]: "skips pat []"
  by (simp add: skips_def option.map_ident_strong)

lemma skips_append: "skips pat a \<Longrightarrow> skips pat b \<Longrightarrow> skips pat (a @ b)"
  by (auto simp: skips_def option.map_comp o_def add.assoc intro!: option.map_cong)

lemma skips_char: "pat = c # p \<Longrightarrow> x \<noteq> c \<Longrightarrow> skips pat [x]"
  by (auto simp: skips_def intro!: option.map_cong)

lemma skips_chars: "pat = c # p \<Longrightarrow> c \<notin> set a \<Longrightarrow> skips pat a"
proof (induction a)
  case (Cons x a)
  then have "skips pat ([x] @ a)" by (intro skips_append) (auto intro: skips_char)
  then show ?case by simp
qed simp

text \<open>The same, decided by comparing the pattern with every suffix.\<close>

fun clash :: "string \<Rightarrow> string \<Rightarrow> bool" where
  "clash (p # ps) (a # as) = (p \<noteq> a \<or> clash ps as)"
| "clash _ _ = False"

fun free_of :: "string \<Rightarrow> string \<Rightarrow> bool" where
  "free_of pat [] = True"
| "free_of pat (c # s) = (clash pat (c # s) \<and> free_of pat s)"

lemma clash_take: "clash pat a \<Longrightarrow> take (length pat) (a @ r) \<noteq> pat"
  by (induction pat a rule: clash.induct) auto

lemma free_of_skips: "free_of pat a \<Longrightarrow> skips pat a"
proof (induction a)
  case (Cons c a)
  then have "skips pat a" "take (length pat) (c # a @ r) \<noteq> pat" for r
    using clash_take [of pat "c # a"] by auto
  then show ?case by (auto simp: skips_def option.map_comp o_def intro!: option.map_cong)
qed simp

lemma skips_concat: "(\<And>x. x \<in> set xs \<Longrightarrow> skips pat (f x)) \<Longrightarrow> skips pat (concat (map f xs))"
  by (induction xs) (auto intro: skips_append)

lemma str_find_after: "skips pat a \<Longrightarrow> str_find pat (a @ pat @ r) = Some (length a)"
  by (simp add: skips_def str_find_here)

lemma str_find_none: "skips pat a \<Longrightarrow> pat \<noteq> [] \<Longrightarrow> str_find pat a = None"
  by (auto simp: skips_def dest: spec [of _ "[]"])

section \<open>Lines\<close>

text \<open>\<open>str::lines\<close>: a line ends at a newline, and a carriage return before it belongs to it.\<close>

fun split_inclusive :: "string \<Rightarrow> string \<Rightarrow> string list" where
  "split_inclusive acc [] = (if acc = [] then [] else [acc])"
| "split_inclusive acc (x # xs) =
     (if x = CHR 0x0A then (acc @ [x]) # split_inclusive [] xs else split_inclusive (acc @ [x]) xs)"

definition strip_line_end :: "string \<Rightarrow> string" where
  "strip_line_end l =
     (if l \<noteq> [] \<and> last l = CHR 0x0A
      then let l1 = butlast l in if l1 \<noteq> [] \<and> last l1 = CHR 0x0D then butlast l1 else l1
      else l)"

definition str_lines :: "string \<Rightarrow> string list" where
  "str_lines s = map strip_line_end (split_inclusive [] s)"

lemma split_inclusive_line:
  "CHR 0x0A \<notin> set l \<Longrightarrow>
   split_inclusive acc (l @ CHR 0x0A # rest) = (acc @ l @ [CHR 0x0A]) # split_inclusive [] rest"
  by (induction l arbitrary: acc) auto

lemma str_lines_Cons:
  "CHR 0x0A \<notin> set l \<Longrightarrow> l \<noteq> [] \<Longrightarrow> last l \<noteq> CHR 0x0D \<Longrightarrow>
   str_lines (l @ CHR 0x0A # rest) = l # str_lines rest"
  by (simp add: str_lines_def split_inclusive_line strip_line_end_def)

lemma str_lines_Nil [simp]: "str_lines [] = []"
  by (simp add: str_lines_def)

section \<open>Trimming\<close>

definition is_whitespace :: "char \<Rightarrow> bool" where
  "is_whitespace c = (of_char c \<in> {9, 10, 11, 12, 13, 32, 133, 160 :: nat})"

definition trim_start :: "string \<Rightarrow> string" where
  "trim_start = dropWhile is_whitespace"

definition trim_end :: "string \<Rightarrow> string" where
  "trim_end s = rev (dropWhile is_whitespace (rev s))"

definition trim :: "string \<Rightarrow> string" where
  "trim s = trim_end (trim_start s)"

definition trim_end_matches :: "char list \<Rightarrow> string \<Rightarrow> string" where
  "trim_end_matches cs s = rev (dropWhile (\<lambda>c. c \<in> set cs) (rev s))"

lemma trim_id:
  assumes "s \<noteq> []" and "\<not> is_whitespace (hd s)" and "\<not> is_whitespace (last s)"
  shows "trim s = s"
proof -
  have "dropWhile is_whitespace s = s" using assms by (cases s) auto
  moreover have "dropWhile is_whitespace (rev s) = rev s"
    using assms by (cases s rule: rev_cases) auto
  ultimately show ?thesis by (simp add: trim_def trim_start_def trim_end_def)
qed

lemma trim_end_matches_id: "s = [] \<or> last s \<notin> set cs \<Longrightarrow> trim_end_matches cs s = s"
  by (cases s rule: rev_cases) (auto simp: trim_end_matches_def)

section \<open>Decimal numbers\<close>

definition digit_char :: "nat \<Rightarrow> char" where
  "digit_char d = char_of (48 + d)"

definition is_digit :: "char \<Rightarrow> bool" where
  "is_digit c = (48 \<le> (of_char c :: nat) \<and> (of_char c :: nat) \<le> 57)"

definition digit_val :: "char \<Rightarrow> nat" where
  "digit_val c = of_char c - 48"

fun nat_to_string :: "nat \<Rightarrow> string" where
  "nat_to_string n =
     (if n < 10 then [digit_char n] else nat_to_string (n div 10) @ [digit_char (n mod 10)])"

declare nat_to_string.simps [simp del]

definition digits_val :: "string \<Rightarrow> nat" where
  "digits_val s = foldl (\<lambda>a c. a * 10 + digit_val c) 0 s"

text \<open>\<open>str::parse\<close> for an unsigned integer below \<open>limit\<close>: digits, after an optional plus sign.\<close>

definition parse_uint :: "nat \<Rightarrow> string \<Rightarrow> nat option" where
  "parse_uint limit s =
     (let ds = (case s of c # r \<Rightarrow> if c = CHR ''+'' then r else s | [] \<Rightarrow> [])
      in if ds \<noteq> [] \<and> list_all is_digit ds \<and> digits_val ds < limit then Some (digits_val ds) else None)"

definition u32_limit :: nat where
  "u32_limit = 2 ^ 32"

lemma of_char_digit: "d < 10 \<Longrightarrow> of_char (digit_char d) = (48 + d :: nat)"
  by (simp add: digit_char_def)

lemma digit_char_facts:
  assumes "d < 10"
  shows "is_digit (digit_char d)" "digit_val (digit_char d) = d"
  using of_char_digit [OF assms] assms by (simp_all add: is_digit_def digit_val_def)

lemma nat_to_string_digits: "list_all is_digit (nat_to_string n)"
  by (induction n rule: nat_to_string.induct)
     (subst nat_to_string.simps, auto simp: digit_char_facts)

lemma nat_to_string_nonempty [simp]: "nat_to_string n \<noteq> []"
  by (subst nat_to_string.simps) simp

lemma digits_val_snoc: "digits_val (s @ [c]) = digits_val s * 10 + digit_val c"
  by (simp add: digits_val_def)

lemma digits_val_to_string: "digits_val (nat_to_string n) = n"
proof (induction n rule: nat_to_string.induct)
  case (1 n)
  show ?case
  proof (cases "n < 10")
    case True
    then show ?thesis
      by (subst nat_to_string.simps) (simp add: digits_val_def digit_char_facts)
  next
    case False
    with 1 show ?thesis
      by (subst nat_to_string.simps) (simp add: digits_val_snoc digit_char_facts)
  qed
qed

lemma digit_not_special:
  assumes "is_digit c"
  shows "c \<noteq> CHR ''+''" "c \<noteq> CHR 0x0A" "c \<noteq> CHR 0x0D" "c \<noteq> CHR 0x09" "\<not> is_whitespace c"
    "c \<noteq> CHR ''/''" "c \<noteq> CHR '':''"
  using assms by (auto simp: is_digit_def is_whitespace_def)

lemma parse_uint_to_string: "n < limit \<Longrightarrow> parse_uint limit (nat_to_string n) = Some n"
proof -
  assume n: "n < limit"
  obtain c r where s: "nat_to_string n = c # r"
    by (cases "nat_to_string n") auto
  have "is_digit c" using nat_to_string_digits [of n] s by simp
  then have "c \<noteq> CHR ''+''" by (simp add: digit_not_special)
  with s n nat_to_string_digits [of n] digits_val_to_string [of n] show ?thesis
    by (simp add: parse_uint_def)
qed

lemma nat_to_string_no: "(\<And>d. is_digit d \<Longrightarrow> d \<noteq> c) \<Longrightarrow> c \<notin> set (nat_to_string n)"
  using nat_to_string_digits [of n] by (auto simp: list_all_iff)

lemma last_nat_to_string: "is_digit (last (nat_to_string n))"
  using nat_to_string_digits [of n] last_in_set [OF nat_to_string_nonempty, of n]
  by (auto simp: list_all_iff)

section \<open>Characters\<close>

definition ascii_lower :: "char \<Rightarrow> char" where
  "ascii_lower c = (let n = of_char c :: nat in if 65 \<le> n \<and> n \<le> 90 then char_of (n + 32) else c)"

definition ascii_alphanumeric :: "char \<Rightarrow> bool" where
  "ascii_alphanumeric c =
     (let n = of_char c :: nat in 48 \<le> n \<and> n \<le> 57 \<or> 65 \<le> n \<and> n \<le> 90 \<or> 97 \<le> n \<and> n \<le> 122)"

definition trim_matches :: "(char \<Rightarrow> bool) \<Rightarrow> string \<Rightarrow> string" where
  "trim_matches P s = rev (dropWhile P (rev (dropWhile P s)))"

section \<open>Replacing and bounded splitting\<close>

text \<open>\<open>str::replace\<close>: the occurrences from left to right; an empty pattern occurs before every character.\<close>

function str_replace :: "string \<Rightarrow> string \<Rightarrow> string \<Rightarrow> string" where
  "str_replace pat to [] = (if pat = [] then to else [])"
| "str_replace pat to (c # s) =
     (if pat = [] then to @ c # str_replace pat to s
      else if take (length pat) (c # s) = pat then to @ str_replace pat to (drop (length pat) (c # s))
      else c # str_replace pat to s)"
  by pat_completeness auto
termination
  by (relation "measure (\<lambda>(_, _, s). length s)") auto

definition str_contains :: "string \<Rightarrow> string \<Rightarrow> bool" where
  "str_contains pat s = (str_find pat s \<noteq> None)"

lemma str_containsI: "str_contains pat (a @ pat @ b)"
proof (induction a)
  case Nil
  then show ?case by (simp add: str_contains_def str_find_here)
next
  case (Cons c a)
  then show ?case by (auto simp: str_contains_def)
qed

lemma str_containsE:
  assumes "str_contains pat s"
  obtains a b where "s = a @ pat @ b"
proof -
  have "\<exists>a b. s = a @ pat @ b"
    using assms
  proof (induction pat s rule: str_find.induct)
    case (1 pat)
    then show ?case by (auto simp: str_contains_def split: if_splits)
  next
    case (2 pat c s)
    show ?case
    proof (cases "take (length pat) (c # s) = pat")
      case True
      then show ?thesis by (metis append_Nil append_take_drop_id)
    next
      case False
      with 2 obtain a b where "s = a @ pat @ b" by (auto simp: str_contains_def)
      then show ?thesis by (metis append_Cons)
    qed
  qed
  with that show ?thesis by blast
qed

lemma str_contains_trans: "str_contains p q \<Longrightarrow> str_contains q s \<Longrightarrow> str_contains p s"
  by (elim str_containsE) (metis append.assoc str_containsI)

text \<open>\<open>str::splitn\<close>: at most \<open>n\<close> parts, the last with the rest of the text.\<close>

fun splitn :: "nat \<Rightarrow> char \<Rightarrow> string \<Rightarrow> string list" where
  "splitn 0 c s = []"
| "splitn (Suc 0) c s = [s]"
| "splitn (Suc (Suc n)) c s =
     (case split_once c s of None \<Rightarrow> [s] | Some (p, r) \<Rightarrow> p # splitn (Suc n) c r)"

section \<open>Line-per-record files\<close>

definition table_write :: "('e \<Rightarrow> string) \<Rightarrow> 'e list \<Rightarrow> string" where
  "table_write enc es = concat (map (\<lambda>e. enc e @ [CHR 0x0A]) es)"

definition table_read :: "(string \<Rightarrow> 'e option) \<Rightarrow> string \<Rightarrow> 'e list" where
  "table_read dec s = List.map_filter dec (str_lines s)"

locale text_table =
  fixes enc :: "'e \<Rightarrow> string"
    and dec :: "string \<Rightarrow> 'e option"
    and entry_ok :: "'e \<Rightarrow> bool"
  assumes enc_line: "entry_ok e \<Longrightarrow> CHR 0x0A \<notin> set (enc e) \<and> enc e \<noteq> [] \<and> last (enc e) \<noteq> CHR 0x0D"
    and dec_enc: "entry_ok e \<Longrightarrow> dec (enc e) = Some e"
begin

lemma table_roundtrip: "list_all entry_ok es \<Longrightarrow> table_read dec (table_write enc es) = es"
proof (induction es)
  case Nil
  then show ?case by (simp add: table_read_def table_write_def map_filter_simps)
next
  case (Cons e es)
  then have "str_lines (table_write enc (e # es)) = enc e # str_lines (table_write enc es)"
    using str_lines_Cons enc_line by (simp add: table_write_def)
  with Cons show ?case by (simp add: table_read_def map_filter_simps dec_enc)
qed

end

end
