(* ===== verification/Cache_Budget.thy ===== *)
theory Cache_Budget
  imports Rust_Text
begin

text \<open>
  The node-wide byte budget of \<open>backend/cache_budget.rs\<close>: a text file with one line per
  owner, rewritten under an exclusive file lock. The lock makes every operation atomic, so the
  state is the file's text; the operating system contributes which processes are alive and where a
  system call fails. The file implements a ledger from owners to bytes, summed over the owners
  whose process lives.
\<close>

section \<open>The state file\<close>

record budget_entry =
  be_owner :: string
  be_pid :: nat
  be_bytes :: nat

record cache_budget =
  cb_max_bytes :: nat
  cb_owner :: string
  cb_pid :: nat

definition entry_line :: "budget_entry \<Rightarrow> string" where
  "entry_line e = join (CHR 0x09) [be_owner e, nat_to_string (be_pid e), nat_to_string (be_bytes e)]"

definition parse_entry :: "string \<Rightarrow> budget_entry option" where
  "parse_entry line =
     (let line = trim line in
      if line = [] then None
      else (case split_on (CHR 0x09) line of
              owner # pid # byts # _ \<Rightarrow>
                (case (parse_uint u32_limit pid, parse_uint u64_limit byts) of
                   (Some p, Some b) \<Rightarrow> Some \<lparr>be_owner = owner, be_pid = p, be_bytes = b\<rparr>
                 | _ \<Rightarrow> None)
            | _ \<Rightarrow> None))"

definition read_entries :: "string \<Rightarrow> budget_entry list" where
  "read_entries file = table_read parse_entry file"

definition write_entries :: "budget_entry list \<Rightarrow> string" where
  "write_entries es = table_write entry_line es"

definition total :: "budget_entry list \<Rightarrow> nat" where
  "total es = fold (\<lambda>e acc. saturating_add acc (be_bytes e)) es 0"

text \<open>\<open>upsert\<close> returns a reference to the owner's entry: the update is its argument here.\<close>

definition mine :: "string \<Rightarrow> nat \<Rightarrow> budget_entry \<Rightarrow> bool" where
  "mine owner pid e \<longleftrightarrow> be_owner e = owner \<and> be_pid e = pid"

fun upsert :: "(nat \<Rightarrow> nat) \<Rightarrow> string \<Rightarrow> nat \<Rightarrow> budget_entry list \<Rightarrow> budget_entry list" where
  "upsert f owner pid [] = [\<lparr>be_owner = owner, be_pid = pid, be_bytes = f 0\<rparr>]"
| "upsert f owner pid (e # es) =
     (if mine owner pid e then e\<lparr>be_bytes := f (be_bytes e)\<rparr> # es else e # upsert f owner pid es)"

text \<open>
  \<open>pid_alive\<close>: \<open>kill pid 0\<close> is \<open>None\<close> for success, or the error number. Everything but
  \<open>ESRCH\<close> counts as alive; process 0 does not.
\<close>

definition pid_alive :: "(nat \<Rightarrow> nat option) \<Rightarrow> nat \<Rightarrow> nat \<Rightarrow> bool" where
  "pid_alive kill ESRCH pid = (if pid = 0 then False else kill pid \<noteq> Some ESRCH)"

definition prune_dead :: "(nat \<Rightarrow> bool) \<Rightarrow> nat \<Rightarrow> budget_entry list \<Rightarrow> budget_entry list" where
  "prune_dead alive self_pid es = filter (\<lambda>e. be_pid e = self_pid \<or> alive (be_pid e)) es"

section \<open>Operations under the lock\<close>

text \<open>Where the operation's system calls fail, if they do; a write may stop after some bytes.\<close>

datatype budget_fault = FlockFails | ReadFails | TruncateFails | WriteFails nat | SyncFails

definition with_locked ::
  "budget_fault option \<Rightarrow> (nat \<Rightarrow> bool) \<Rightarrow> nat \<Rightarrow> (budget_entry list \<Rightarrow> 'r \<times> budget_entry list) \<Rightarrow>
   string \<Rightarrow> 'r res \<times> string" where
  "with_locked fault alive pid f file =
     (if fault = Some FlockFails then (Inl (IoErr ''flock''), file)
      else if fault = Some ReadFails then (Inl (IoErr ''read''), file)
      else
        (let (r, es) = f (prune_dead alive pid (read_entries file)); out = write_entries es
         in case fault of
              Some TruncateFails \<Rightarrow> (Inl (IoErr ''truncate''), file)
            | Some (WriteFails n) \<Rightarrow> (Inl (IoErr ''write''), take n out)
            | Some SyncFails \<Rightarrow> (Inl (IoErr ''flush''), out)
            | _ \<Rightarrow> (Inr r, out)))"

definition budget_open ::
  "budget_fault option \<Rightarrow> (nat \<Rightarrow> bool) \<Rightarrow> nat \<Rightarrow> string \<Rightarrow> nat \<Rightarrow> string \<Rightarrow>
   (cache_budget option) res \<times> string" where
  "budget_open fault alive pid owner max_bytes file =
     (if max_bytes = 0 then (Inr None, file)
      else if CHR 0x09 \<in> set owner \<or> CHR 0x0A \<in> set owner then (Inl BadConfig, file)
      else (case with_locked fault alive pid (\<lambda>es. ((), upsert (\<lambda>_. 0) owner pid es)) file of
              (Inl e, file') \<Rightarrow> (Inl e, file')
            | (Inr _, file') \<Rightarrow>
                (Inr (Some \<lparr>cb_max_bytes = max_bytes, cb_owner = owner, cb_pid = pid\<rparr>), file')))"

definition budget_update ::
  "(nat \<Rightarrow> nat) \<Rightarrow> cache_budget \<Rightarrow> budget_entry list \<Rightarrow> nat \<times> budget_entry list" where
  "budget_update f cb es =
     (let es' = upsert f (cb_owner cb) (cb_pid cb) es in (total es' - cb_max_bytes cb, es'))"

definition budget_reset ::
  "budget_fault option \<Rightarrow> (nat \<Rightarrow> bool) \<Rightarrow> cache_budget \<Rightarrow> nat \<Rightarrow> string \<Rightarrow> nat res \<times> string" where
  "budget_reset fault alive cb n file =
     with_locked fault alive (cb_pid cb) (budget_update (\<lambda>_. n) cb) file"

definition admit ::
  "budget_fault option \<Rightarrow> (nat \<Rightarrow> bool) \<Rightarrow> cache_budget \<Rightarrow> nat \<Rightarrow> string \<Rightarrow> nat res \<times> string" where
  "admit fault alive cb n file =
     with_locked fault alive (cb_pid cb) (budget_update (\<lambda>b. saturating_add b n) cb) file"

definition release ::
  "budget_fault option \<Rightarrow> (nat \<Rightarrow> bool) \<Rightarrow> cache_budget \<Rightarrow> nat \<Rightarrow> string \<Rightarrow> unit res \<times> string" where
  "release fault alive cb n file =
     with_locked fault alive (cb_pid cb)
       (\<lambda>es. ((), upsert (\<lambda>b. b - n) (cb_owner cb) (cb_pid cb) es)) file"

text \<open>\<open>Drop\<close>: a failure is ignored.\<close>

definition budget_drop ::
  "budget_fault option \<Rightarrow> (nat \<Rightarrow> bool) \<Rightarrow> cache_budget \<Rightarrow> string \<Rightarrow> string" where
  "budget_drop fault alive cb file =
     snd (with_locked fault alive (cb_pid cb)
            (\<lambda>es. ((), filter (\<lambda>e. \<not> mine (cb_owner cb) (cb_pid cb) e) es)) file)"

section \<open>Reading back what was written\<close>

text \<open>An entry the file can hold: the owner is a non-empty name with no separator, not indented.\<close>

definition budget_entry_ok :: "budget_entry \<Rightarrow> bool" where
  "budget_entry_ok e \<longleftrightarrow>
     be_owner e \<noteq> [] \<and> \<not> is_whitespace (hd (be_owner e)) \<and>
     CHR 0x09 \<notin> set (be_owner e) \<and> CHR 0x0A \<notin> set (be_owner e) \<and>
     be_pid e < u32_limit \<and> be_bytes e < u64_limit"

lemma entry_line_facts:
  assumes "budget_entry_ok e"
  shows "CHR 0x0A \<notin> set (entry_line e)" "entry_line e \<noteq> []" "\<not> is_whitespace (hd (entry_line e))"
    "\<not> is_whitespace (last (entry_line e))" "last (entry_line e) \<noteq> CHR 0x0D"
proof -
  have no: "CHR 0x0A \<notin> set (nat_to_string n)" for n
    by (rule nat_to_string_no) (simp add: digit_not_special)
  show "CHR 0x0A \<notin> set (entry_line e)" "entry_line e \<noteq> []"
    using assms no by (auto simp: entry_line_def budget_entry_ok_def)
  show "\<not> is_whitespace (hd (entry_line e))"
    using assms by (cases "be_owner e") (auto simp: entry_line_def budget_entry_ok_def)
  show "\<not> is_whitespace (last (entry_line e))" "last (entry_line e) \<noteq> CHR 0x0D"
    using digit_not_special [OF last_nat_to_string [of "be_bytes e"]] by (simp_all add: entry_line_def)
qed

lemma parse_entry_line:
  assumes "budget_entry_ok e"
  shows "parse_entry (entry_line e) = Some e"
proof -
  have no: "CHR 0x09 \<notin> set (nat_to_string n)" for n
    by (rule nat_to_string_no) (simp add: digit_not_special)
  have "trim (entry_line e) = entry_line e"
    using entry_line_facts [OF assms] by (intro trim_id)
  moreover have "split_on (CHR 0x09) (entry_line e) =
      [be_owner e, nat_to_string (be_pid e), nat_to_string (be_bytes e)]"
    unfolding entry_line_def using assms no by (intro split_on_join) (auto simp: budget_entry_ok_def)
  ultimately show ?thesis
    using assms entry_line_facts(2) [OF assms]
    by (simp add: parse_entry_def parse_uint_to_string budget_entry_ok_def)
qed

interpretation budget_file: text_table entry_line parse_entry budget_entry_ok
  by unfold_locales (simp_all add: entry_line_facts parse_entry_line)

lemma read_write_entries: "list_all budget_entry_ok es \<Longrightarrow> read_entries (write_entries es) = es"
  unfolding read_entries_def write_entries_def by (rule budget_file.table_roundtrip)

section \<open>The ledger\<close>

text \<open>Balances of the owners, and their sum over the live processes.\<close>

definition key :: "budget_entry \<Rightarrow> string \<times> nat" where
  "key e = (be_owner e, be_pid e)"

definition budget_inv :: "string \<Rightarrow> bool" where
  "budget_inv file \<longleftrightarrow>
     (\<exists>es. file = write_entries es \<and> list_all budget_entry_ok es \<and> distinct (map key es))"

definition balance :: "string \<Rightarrow> string \<times> nat \<Rightarrow> nat" where
  "balance file k =
     (case List.find (\<lambda>e. key e = k) (read_entries file) of Some e \<Rightarrow> be_bytes e | None \<Rightarrow> 0)"

definition live_total :: "(nat \<Rightarrow> bool) \<Rightarrow> nat \<Rightarrow> string \<Rightarrow> nat" where
  "live_total alive pid file = sum_list (map be_bytes (prune_dead alive pid (read_entries file)))"

definition alist_of :: "budget_entry list \<Rightarrow> ((string \<times> nat) \<times> nat) list" where
  "alist_of es = map (\<lambda>e. (key e, be_bytes e)) es"

lemma balance_alist:
  "balance file k = (case map_of (alist_of (read_entries file)) k of Some b \<Rightarrow> b | None \<Rightarrow> 0)"
proof -
  have "(case List.find (\<lambda>e. key e = k) es of Some e \<Rightarrow> be_bytes e | None \<Rightarrow> 0) =
      (case map_of (alist_of es) k of Some b \<Rightarrow> b | None \<Rightarrow> (0 :: nat))" for es
    by (induction es) (auto simp: alist_of_def)
  then show ?thesis by (simp add: balance_def)
qed

lemma mine_key: "mine owner pid e \<longleftrightarrow> key e = (owner, pid)"
  by (auto simp: mine_def key_def)

lemma map_of_upsert:
  "map_of (alist_of (upsert f owner pid es)) k =
     (if k = (owner, pid)
      then Some (f (case map_of (alist_of es) k of Some b \<Rightarrow> b | None \<Rightarrow> 0))
      else map_of (alist_of es) k)"
  by (induction f owner pid es rule: upsert.induct) (auto simp: alist_of_def mine_key key_def)

lemma keys_upsert: "set (map key (upsert f owner pid es)) = insert (owner, pid) (set (map key es))"
  by (induction f owner pid es rule: upsert.induct) (auto simp: mine_key key_def)

lemma distinct_upsert: "distinct (map key es) \<Longrightarrow> distinct (map key (upsert f owner pid es))"
proof (induction f owner pid es rule: upsert.induct)
  case (2 f owner pid e es)
  show ?case
  proof (cases "mine owner pid e")
    case True
    with 2 show ?thesis by (simp add: key_def)
  next
    case False
    then have "key e \<noteq> (owner, pid)" by (simp add: mine_key)
    with 2 False keys_upsert [of f owner pid es] show ?thesis by auto
  qed
qed simp

lemma upsert_ok:
  assumes "list_all budget_entry_ok es"
    and "budget_entry_ok \<lparr>be_owner = owner, be_pid = pid, be_bytes = 0\<rparr>"
    and "\<And>b. b < u64_limit \<Longrightarrow> f b < u64_limit"
  shows "list_all budget_entry_ok (upsert f owner pid es)"
  using assms by (induction f owner pid es rule: upsert.induct) (auto simp: budget_entry_ok_def)

lemma sum_upsert:
  "sum_list (map be_bytes (upsert f owner pid es)) +
     (case map_of (alist_of es) (owner, pid) of Some b \<Rightarrow> b | None \<Rightarrow> 0) =
   sum_list (map be_bytes es) +
     f (case map_of (alist_of es) (owner, pid) of Some b \<Rightarrow> b | None \<Rightarrow> 0)"
  by (induction f owner pid es rule: upsert.induct) (auto simp: alist_of_def mine_key)

lemma map_of_prune:
  "map_of (alist_of (prune_dead alive pid es)) (o', p) =
     (if p = pid \<or> alive p then map_of (alist_of es) (o', p) else None)"
  by (induction es) (auto simp: alist_of_def prune_dead_def key_def)

lemma distinct_prune: "distinct (map key es) \<Longrightarrow> distinct (map key (prune_dead alive pid es))"
  by (simp add: prune_dead_def distinct_map_filter)

lemma total_sum: "total es = min (sum_list (map be_bytes es)) (u64_limit - 1)"
proof -
  have "fold (\<lambda>e acc. saturating_add acc (be_bytes e)) es a =
      min (a + sum_list (map be_bytes es)) (u64_limit - 1)" if "a < u64_limit" for a
    using that
  proof (induction es arbitrary: a)
    case (Cons e es)
    have "saturating_add a (be_bytes e) < u64_limit"
      using u64_limit_pos(1) unfolding saturating_add_def by linarith
    from Cons.IH [OF this] have "fold (\<lambda>e acc. saturating_add acc (be_bytes e)) (e # es) a =
        min (min (a + be_bytes e) (u64_limit - 1) + sum_list (map be_bytes es)) (u64_limit - 1)"
      by (simp add: saturating_add_def)
    also have "\<dots> = min (a + sum_list (map be_bytes (e # es))) (u64_limit - 1)"
      unfolding list.map sum_list.Cons by linarith
    finally show ?case .
  qed (simp add: min_def)
  then show ?thesis by (simp add: total_def)
qed

lemma saturating_add_less: "saturating_add a b < u64_limit"
  using u64_limit_pos(1) unfolding saturating_add_def by linarith

text \<open>The owner of a budget handle can be written to the file.\<close>

definition handle_ok :: "cache_budget \<Rightarrow> bool" where
  "handle_ok cb \<longleftrightarrow> budget_entry_ok \<lparr>be_owner = cb_owner cb, be_pid = cb_pid cb, be_bytes = 0\<rparr>"

text \<open>
  The effect of a locked update on the ledger: the owner's balance changes as asked, the live
  owners keep theirs, the dead ones are gone.
\<close>

definition ledger_step ::
  "(nat \<Rightarrow> bool) \<Rightarrow> cache_budget \<Rightarrow> (nat \<Rightarrow> nat) \<Rightarrow> string \<Rightarrow> string \<Rightarrow> bool" where
  "ledger_step alive cb f file file' \<longleftrightarrow>
     budget_inv file' \<and>
     balance file' (cb_owner cb, cb_pid cb) = f (balance file (cb_owner cb, cb_pid cb)) \<and>
     (\<forall>o' p. (o', p) \<noteq> (cb_owner cb, cb_pid cb) \<longrightarrow>
        balance file' (o', p) = (if p = cb_pid cb \<or> alive p then balance file (o', p) else 0))"

lemma locked_upsert:
  assumes "budget_inv file" and "handle_ok cb" and "\<And>b. b < u64_limit \<Longrightarrow> f b < u64_limit"
    and "es' = upsert f (cb_owner cb) (cb_pid cb) (prune_dead alive (cb_pid cb) (read_entries file))"
  shows "ledger_step alive cb f file (write_entries es')"
    and "read_entries (write_entries es') = es'"
    and "total es' = min (live_total alive (cb_pid cb) (write_entries es')) (u64_limit - 1)"
proof -
  obtain es where es: "file = write_entries es" "list_all budget_entry_ok es" "distinct (map key es)"
    using assms(1) by (auto simp: budget_inv_def)
  then have rd: "read_entries file = es" by (simp add: read_write_entries)
  define ps where "ps = prune_dead alive (cb_pid cb) es"
  have ps: "list_all budget_entry_ok ps" "distinct (map key ps)"
    using es by (simp_all add: ps_def distinct_prune) (simp add: prune_dead_def list_all_iff)
  have es': "es' = upsert f (cb_owner cb) (cb_pid cb) ps" using assms(4) rd by (simp add: ps_def)
  have ok: "list_all budget_entry_ok es'" and dist: "distinct (map key es')"
    unfolding es' using ps assms(2,3) by (simp_all add: upsert_ok handle_ok_def distinct_upsert)
  show rd': "read_entries (write_entries es') = es'" using ok by (rule read_write_entries)
  show "ledger_step alive cb f file (write_entries es')"
    using ok dist
    by (auto simp: ledger_step_def budget_inv_def balance_alist rd rd') 
       (simp_all add: es' map_of_upsert ps_def map_of_prune)
  have "prune_dead alive (cb_pid cb) es' = es'"
  proof -
    have "be_pid e = cb_pid cb \<or> alive (be_pid e)" if "e \<in> set es'" for e
    proof -
      have "key e \<in> insert (cb_owner cb, cb_pid cb) (set (map key ps))"
        using that keys_upsert [of f "cb_owner cb" "cb_pid cb" ps] by (auto simp: es')
      then show ?thesis by (auto simp: ps_def prune_dead_def key_def)
    qed
    then show ?thesis by (simp add: prune_dead_def filter_id_conv)
  qed
  then show "total es' = min (live_total alive (cb_pid cb) (write_entries es')) (u64_limit - 1)"
    by (simp add: total_sum live_total_def rd')
qed

lemma budget_update_spec:
  assumes "budget_inv file" and "handle_ok cb" and "\<And>b. b < u64_limit \<Longrightarrow> f b < u64_limit"
    and "with_locked None alive (cb_pid cb) (budget_update f cb) file = (r, file')"
  shows "ledger_step alive cb f file file' \<and>
    r = Inr (min (live_total alive (cb_pid cb) file') (u64_limit - 1) - cb_max_bytes cb)"
  using assms(4) locked_upsert [OF assms(1-3) refl, where alive = alive]
  by (auto simp: with_locked_def budget_update_def Let_def)

section \<open>Properties\<close>

text \<open>
  C19: the budget file is a crash-safe ledger. On a well-formed file, \<open>admit\<close> raises exactly the
  caller's balance (saturating at the top of \<open>u64\<close>), keeps every live owner's balance,
  drops what dead processes left behind, leaves a well-formed file, and returns by how much the
  sum over the live owners exceeds the limit.
\<close>

theorem budget_admit_correct:
  assumes "budget_inv file" and "handle_ok cb" and "admit None alive cb n file = (r, file')"
  shows "ledger_step alive cb (\<lambda>b. saturating_add b n) file file' \<and>
    r = Inr (min (live_total alive (cb_pid cb) file') (u64_limit - 1) - cb_max_bytes cb)"
  using budget_update_spec [OF assms(1,2), of "\<lambda>b. saturating_add b n" alive] assms(3)
  by (simp add: admit_def saturating_add_less)

lemma budget_inv_empty: "budget_inv []"
  unfolding budget_inv_def by (intro exI [of _ "[]"]) (simp add: write_entries_def table_write_def)

abbreviation vol_budget :: cache_budget where
  "vol_budget \<equiv> \<lparr>cb_max_bytes = 100, cb_owner = ''vol'', cb_pid = 7\<rparr>"

lemma vol_budget_ok: "handle_ok vol_budget"
  by (simp add: handle_ok_def budget_entry_ok_def is_whitespace_def u32_limit_def)

theorem budget_admit_correct_witness:
  "\<exists>r file'. admit None (\<lambda>_. False) vol_budget 150 [] = (r, file') \<and>
     balance file' (''vol'', 7) = 150 \<and> budget_inv file'"
proof -
  obtain r file' where a: "admit None (\<lambda>_. False) vol_budget 150 [] = (r, file')" by fastforce
  have "balance [] k = 0" for k
    by (simp add: balance_def read_entries_def table_read_def map_filter_simps)
  with a budget_admit_correct [OF budget_inv_empty vol_budget_ok a] show ?thesis
    by (simp add: ledger_step_def saturating_add_def u64_limit_def)
qed

text \<open>
  What was admitted can be given back. Over a well-formed file whose balances leave room in
  \<open>u64\<close>, admitting some bytes and releasing the same number restores the caller's balance and
  leaves every other live owner's as it was; dropping the handle leaves no balance of the caller.
\<close>

theorem budget_release_undoes_admit:
  assumes "budget_inv file" and "handle_ok cb"
    and "balance file (cb_owner cb, cb_pid cb) + n < u64_limit"
    and "admit None alive cb n file = (r, file1)" and "release None alive cb n file1 = (r', file2)"
  shows "r' = Inr () \<and> ledger_step alive cb (\<lambda>b. b) file file2 \<and>
    balance (budget_drop None alive cb file2) (cb_owner cb, cb_pid cb) = 0"
proof -
  define es' where "es' = upsert (\<lambda>b. b - n) (cb_owner cb) (cb_pid cb)
    (prune_dead alive (cb_pid cb) (read_entries file1))"
  have step1: "ledger_step alive cb (\<lambda>b. saturating_add b n) file file1"
    using budget_update_spec [OF assms(1,2), of "\<lambda>b. saturating_add b n" alive] assms(4)
    by (simp add: admit_def saturating_add_less)
  then have inv1: "budget_inv file1" by (simp add: ledger_step_def)
  note up = locked_upsert [OF inv1 assms(2) _ es'_def]
  have r': "r' = Inr ()" "file2 = write_entries es'"
    using assms(5) by (auto simp: release_def with_locked_def es'_def Let_def)
  have step2: "ledger_step alive cb (\<lambda>b. b - n) file1 file2" using up(1) r' by simp
  have "saturating_add (balance file (cb_owner cb, cb_pid cb)) n - n = balance file (cb_owner cb, cb_pid cb)"
    using assms(3) unfolding saturating_add_def by linarith
  then have "ledger_step alive cb (\<lambda>b. b) file file2"
    using step1 step2 by (auto simp: ledger_step_def)
  moreover have "balance (budget_drop None alive cb file2) (cb_owner cb, cb_pid cb) = 0"
  proof -
    obtain es where es: "file2 = write_entries es" "list_all budget_entry_ok es"
      using step2 by (auto simp: ledger_step_def budget_inv_def)
    define ds where "ds = filter (\<lambda>e. \<not> mine (cb_owner cb) (cb_pid cb) e) (prune_dead alive (cb_pid cb) es)"
    have "list_all budget_entry_ok ds" using es by (simp add: ds_def prune_dead_def list_all_iff)
    then have "read_entries (budget_drop None alive cb file2) = ds"
      using es by (simp add: budget_drop_def with_locked_def Let_def read_write_entries ds_def)
    moreover have "List.find (\<lambda>e. key e = (cb_owner cb, cb_pid cb)) ds = None"
      by (auto simp: ds_def find_None_iff mine_key)
    ultimately show ?thesis by (simp add: balance_def)
  qed
  ultimately show ?thesis using r' by simp
qed

theorem budget_release_undoes_admit_witness:
  "\<exists>r file1 file2. admit None (\<lambda>_. False) vol_budget 150 [] = (r, file1) \<and>
     release None (\<lambda>_. False) vol_budget 150 file1 = (Inr (), file2) \<and>
     balance file2 (''vol'', 7) = 0"
proof -
  obtain r file1 where a: "admit None (\<lambda>_. False) vol_budget 150 [] = (r, file1)" by fastforce
  obtain r' file2 where b: "release None (\<lambda>_. False) vol_budget 150 file1 = (r', file2)" by fastforce
  have z: "balance [] k = 0" for k
    by (simp add: balance_def read_entries_def table_read_def map_filter_simps)
  have "balance [] (cb_owner vol_budget, cb_pid vol_budget) + 150 < u64_limit"
    by (simp add: z u64_limit_def)
  from budget_release_undoes_admit [OF budget_inv_empty vol_budget_ok this a b] a b z show ?thesis
    by (simp add: ledger_step_def)
qed

text \<open>
  An owner name with leading white space passes the check of \<open>open\<close> but is never found
  again: the line is trimmed when it is read, so the recorded owner is a different one and a
  later operation starts from a fresh zero balance.
\<close>

theorem budget_indented_owner_lost:
  "fst (budget_open None (\<lambda>_. True) 7 '' vol'' 100 []) =
     Inr (Some \<lparr>cb_max_bytes = 100, cb_owner = '' vol'', cb_pid = 7\<rparr>) \<and>
   balance (snd (admit None (\<lambda>_. True) \<lparr>cb_max_bytes = 100, cb_owner = '' vol'', cb_pid = 7\<rparr> 42 []))
     ('' vol'', 7) = 0"
proof -
  define e where "e = \<lparr>be_owner = '' vol'', be_pid = 7, be_bytes = 42\<rparr>"
  have line: "entry_line e = '' vol'' @ [CHR 0x09] @ ''7'' @ [CHR 0x09] @ ''42''"
    by (simp add: entry_line_def e_def nat_to_string.simps digit_char_def char_of_def bit_0)
  have fl: "snd (admit None (\<lambda>_. True) \<lparr>cb_max_bytes = 100, cb_owner = '' vol'', cb_pid = 7\<rparr> 42 []) =
      write_entries [e]"
    by (simp add: admit_def with_locked_def read_entries_def table_read_def map_filter_simps
        prune_dead_def budget_update_def Let_def saturating_add_def u64_limit_def e_def)
  have "str_lines (write_entries [e]) = [entry_line e]"
    using str_lines_Cons [of "entry_line e" "[]"] by (simp add: write_entries_def table_write_def line)
  moreover have "parse_entry (entry_line e) = Some (e\<lparr>be_owner := ''vol''\<rparr>)"
    unfolding parse_entry_def line
    by (simp add: trim_def trim_start_def trim_end_def is_whitespace_def parse_uint_def is_digit_def digits_val_def digit_val_def u32_limit_def u64_limit_def e_def)
  ultimately have "balance (write_entries [e]) ('' vol'', 7) = 0"
    by (simp add: balance_def read_entries_def table_read_def map_filter_simps key_def e_def)
  then show ?thesis
    by (simp add: fl) (simp add: budget_open_def with_locked_def)
qed

end
