(* ===== verification/Cache_Index.thy ===== *)
theory Cache_Index
  imports Cache_Budget
begin

text \<open>
  The shared page index of \<open>backend/cache_index.rs\<close>: a text file of published clean pages,
  read under a shared lock and rewritten under an exclusive one. The state is the text of the
  index file together with the cache files of the directory, which the publishing processes own.
  A page found through the index is the blob's page as long as every entry a live process
  published is honoured by that process's cache file.
\<close>

section \<open>The state file\<close>

record index_entry =
  ie_blob :: string
  ie_page :: nat
  ie_owner :: string
  ie_pid :: nat
  ie_len :: nat

record cache_index =
  ci_owner :: string
  ci_blob_identity :: string
  ci_pid :: nat
  ci_page_size :: nat

definition index_line :: "index_entry \<Rightarrow> string" where
  "index_line e =
     join (CHR 0x09) [ie_blob e, nat_to_string (ie_page e), ie_owner e, nat_to_string (ie_pid e),
                      nat_to_string (ie_len e)]"

definition parse_index_line :: "string \<Rightarrow> index_entry option" where
  "parse_index_line l =
     (let line = trim_end_matches [CHR 0x0D, CHR 0x0A] l in
      if line = [] then None
      else (case split_on (CHR 0x09) line of
              blob # pg # owner # pid # len # _ \<Rightarrow>
                (case (parse_uint u64_limit pg, parse_uint u32_limit pid, parse_uint u64_limit len) of
                   (Some i, Some p, Some n) \<Rightarrow>
                     Some \<lparr>ie_blob = blob, ie_page = i, ie_owner = owner, ie_pid = p, ie_len = n\<rparr>
                 | _ \<Rightarrow> None)
            | _ \<Rightarrow> None))"

definition index_read_entries :: "string \<Rightarrow> index_entry list" where
  "index_read_entries file = table_read parse_index_line file"

definition index_write_entries :: "index_entry list \<Rightarrow> string" where
  "index_write_entries es = table_write index_line es"

definition index_prune_dead :: "(nat \<Rightarrow> bool) \<Rightarrow> nat \<Rightarrow> index_entry list \<Rightarrow> index_entry list" where
  "index_prune_dead alive self_pid es = filter (\<lambda>e. ie_pid e = self_pid \<or> alive (ie_pid e)) es"

definition same_slot :: "string \<Rightarrow> nat \<Rightarrow> string \<Rightarrow> nat \<Rightarrow> index_entry \<Rightarrow> bool" where
  "same_slot blob pg owner pid e \<longleftrightarrow>
     ie_owner e = owner \<and> ie_pid e = pid \<and> ie_blob e = blob \<and> ie_page e = pg"

fun index_upsert :: "string \<Rightarrow> nat \<Rightarrow> string \<Rightarrow> nat \<Rightarrow> nat \<Rightarrow> index_entry list \<Rightarrow> index_entry list" where
  "index_upsert blob pg owner pid len [] =
     [\<lparr>ie_blob = blob, ie_page = pg, ie_owner = owner, ie_pid = pid, ie_len = len\<rparr>]"
| "index_upsert blob pg owner pid len (e # es) =
     (if same_slot blob pg owner pid e then e\<lparr>ie_len := len\<rparr> # es
      else e # index_upsert blob pg owner pid len es)"

section \<open>Operations under the lock\<close>

definition with_locked_mut ::
  "budget_fault option \<Rightarrow> (nat \<Rightarrow> bool) \<Rightarrow> nat \<Rightarrow> (index_entry list \<Rightarrow> index_entry list) \<Rightarrow>
   string \<Rightarrow> unit res \<times> string" where
  "with_locked_mut fault alive pid f file =
     (if fault = Some FlockFails then (Inl (IoErr ''flock''), file)
      else if fault = Some ReadFails then (Inl (IoErr ''read''), file)
      else
        (let out = index_write_entries (f (index_prune_dead alive pid (index_read_entries file)))
         in case fault of
              Some TruncateFails \<Rightarrow> (Inl (IoErr ''truncate''), file)
            | Some (WriteFails n) \<Rightarrow> (Inl (IoErr ''write''), take n out)
            | Some SyncFails \<Rightarrow> (Inl (IoErr ''flush''), out)
            | _ \<Rightarrow> (Inr (), out)))"

definition with_locked_read ::
  "budget_fault option \<Rightarrow> (nat \<Rightarrow> bool) \<Rightarrow> nat \<Rightarrow> (index_entry list \<Rightarrow> 'r res) \<Rightarrow> string \<Rightarrow> 'r res" where
  "with_locked_read fault alive pid f file =
     (if fault = Some FlockFails then Inl (IoErr ''flock'')
      else if fault = Some ReadFails then Inl (IoErr ''read'')
      else f (index_prune_dead alive pid (index_read_entries file)))"

definition index_open ::
  "budget_fault option \<Rightarrow> (nat \<Rightarrow> bool) \<Rightarrow> nat \<Rightarrow> string \<Rightarrow> string \<Rightarrow> nat \<Rightarrow> string \<Rightarrow>
   cache_index res \<times> string" where
  "index_open fault alive pid owner blob page_size file =
     (if list_ex (\<lambda>s. CHR 0x09 \<in> set s \<or> CHR 0x0A \<in> set s) [owner, blob] then (Inl BadConfig, file)
      else (case with_locked_mut fault alive pid (\<lambda>es. es) file of
              (Inl e, file') \<Rightarrow> (Inl e, file')
            | (Inr _, file') \<Rightarrow>
                (Inr \<lparr>ci_owner = owner, ci_blob_identity = blob, ci_pid = pid, ci_page_size = page_size\<rparr>,
                 file')))"

definition publish ::
  "budget_fault option \<Rightarrow> (nat \<Rightarrow> bool) \<Rightarrow> cache_index \<Rightarrow> nat \<Rightarrow> nat \<Rightarrow> string \<Rightarrow> unit res \<times> string" where
  "publish fault alive ci pg len file =
     with_locked_mut fault alive (ci_pid ci)
       (index_upsert (ci_blob_identity ci) pg (ci_owner ci) (ci_pid ci) len) file"

definition unpublish ::
  "budget_fault option \<Rightarrow> (nat \<Rightarrow> bool) \<Rightarrow> cache_index \<Rightarrow> nat \<Rightarrow> string \<Rightarrow> unit res \<times> string" where
  "unpublish fault alive ci pg file =
     with_locked_mut fault alive (ci_pid ci)
       (filter (\<lambda>e. \<not> same_slot (ci_blob_identity ci) pg (ci_owner ci) (ci_pid ci) e)) file"

definition unpublish_all ::
  "budget_fault option \<Rightarrow> (nat \<Rightarrow> bool) \<Rightarrow> cache_index \<Rightarrow> string \<Rightarrow> unit res \<times> string" where
  "unpublish_all fault alive ci file =
     with_locked_mut fault alive (ci_pid ci)
       (filter (\<lambda>e. \<not> (ie_owner e = ci_owner ci \<and> ie_pid e = ci_pid ci))) file"

definition index_drop ::
  "budget_fault option \<Rightarrow> (nat \<Rightarrow> bool) \<Rightarrow> cache_index \<Rightarrow> string \<Rightarrow> string" where
  "index_drop fault alive ci file = snd (unpublish_all fault alive ci file)"

text \<open>
  What opening a cache file gives: its bytes, no such file, or another error. The entries and the
  peer's file are read in one critical section. \<open>Inr None\<close>: no live peer supplies the page.
\<close>

datatype dat_file = NoSuchFile | OpenFails | DatBytes bytes

definition peer_entry :: "cache_index \<Rightarrow> nat \<Rightarrow> nat \<Rightarrow> index_entry \<Rightarrow> bool" where
  "peer_entry ci pg len e \<longleftrightarrow>
     ie_blob e = ci_blob_identity ci \<and> ie_page e = pg \<and>
     \<not> (ie_owner e = ci_owner ci \<and> ie_pid e = ci_pid ci) \<and> ie_len e = len"

definition read_peer_page ::
  "budget_fault option \<Rightarrow> (nat \<Rightarrow> bool) \<Rightarrow> (string \<Rightarrow> dat_file) \<Rightarrow> cache_index \<Rightarrow> nat \<Rightarrow> nat \<Rightarrow> string \<Rightarrow>
   (bytes option) res" where
  "read_peer_page fault alive dir ci pg len file =
     with_locked_read fault alive (ci_pid ci) (\<lambda>es.
       case List.find (peer_entry ci pg len) es of
         None \<Rightarrow> Inr None
       | Some peer \<Rightarrow>
           (case dir (ie_owner peer @ ''.dat'') of
              NoSuchFile \<Rightarrow> Inr None
            | OpenFails \<Rightarrow> Inl (IoErr ''open peer'')
            | DatBytes d \<Rightarrow>
                let off = pg * ci_page_size ci in
                if off + len \<le> length d then Inr (Some (segment off len d)) else Inr None)) file"

section \<open>Reading back what was written\<close>

definition index_entry_ok :: "index_entry \<Rightarrow> bool" where
  "index_entry_ok e \<longleftrightarrow>
     CHR 0x09 \<notin> set (ie_blob e) \<and> CHR 0x0A \<notin> set (ie_blob e) \<and>
     CHR 0x09 \<notin> set (ie_owner e) \<and> CHR 0x0A \<notin> set (ie_owner e) \<and>
     ie_page e < u64_limit \<and> ie_pid e < u32_limit \<and> ie_len e < u64_limit"

lemma index_line_facts:
  assumes "index_entry_ok e"
  shows "CHR 0x0A \<notin> set (index_line e)" "index_line e \<noteq> []" "last (index_line e) \<notin> {CHR 0x0A, CHR 0x0D}"
proof -
  have no: "CHR 0x0A \<notin> set (nat_to_string n)" for n
    by (rule nat_to_string_no) (simp add: digit_not_special)
  show "CHR 0x0A \<notin> set (index_line e)" "index_line e \<noteq> []"
    using assms no by (auto simp: index_line_def index_entry_ok_def)
  show "last (index_line e) \<notin> {CHR 0x0A, CHR 0x0D}"
    using digit_not_special [OF last_nat_to_string [of "ie_len e"]] by (simp add: index_line_def)
qed

lemma parse_index_line_line:
  assumes "index_entry_ok e"
  shows "parse_index_line (index_line e) = Some e"
proof -
  have no: "CHR 0x09 \<notin> set (nat_to_string n)" for n
    by (rule nat_to_string_no) (simp add: digit_not_special)
  have "trim_end_matches [CHR 0x0D, CHR 0x0A] (index_line e) = index_line e"
    using index_line_facts(3) [OF assms] by (intro trim_end_matches_id) auto
  moreover have "split_on (CHR 0x09) (index_line e) =
      [ie_blob e, nat_to_string (ie_page e), ie_owner e, nat_to_string (ie_pid e), nat_to_string (ie_len e)]"
    unfolding index_line_def using assms no by (intro split_on_join) (auto simp: index_entry_ok_def)
  ultimately show ?thesis
    using assms index_line_facts(2) [OF assms]
    by (simp add: parse_index_line_def parse_uint_to_string index_entry_ok_def)
qed

interpretation index_file: text_table index_line parse_index_line index_entry_ok
  using index_line_facts by unfold_locales (auto simp: parse_index_line_line)

lemma index_read_write:
  "list_all index_entry_ok es \<Longrightarrow> index_read_entries (index_write_entries es) = es"
  unfolding index_read_entries_def index_write_entries_def by (rule index_file.table_roundtrip)

section \<open>What peers find\<close>

text \<open>The file lists exactly the entries \<open>es\<close>, in a form that reads back.\<close>

definition lists :: "string \<Rightarrow> index_entry list \<Rightarrow> bool" where
  "lists file es \<longleftrightarrow> file = index_write_entries es \<and> list_all index_entry_ok es"

lemma lists_read: "lists file es \<Longrightarrow> index_read_entries file = es"
  by (simp add: lists_def index_read_write)

lemma with_locked_mut_lists:
  assumes "lists file es" and "list_all index_entry_ok (f (index_prune_dead alive pid es))"
  shows "with_locked_mut None alive pid f file =
      (Inr (), index_write_entries (f (index_prune_dead alive pid es))) \<and>
    lists (index_write_entries (f (index_prune_dead alive pid es))) (f (index_prune_dead alive pid es))"
  using assms by (simp add: with_locked_mut_def Let_def lists_read lists_def index_read_write)

lemma prune_ok: "list_all index_entry_ok es \<Longrightarrow> list_all index_entry_ok (index_prune_dead alive pid es)"
  by (simp add: index_prune_dead_def list_all_iff)

lemma set_index_upsert:
  "set (index_upsert blob pg owner pid len es) \<subseteq>
     insert \<lparr>ie_blob = blob, ie_page = pg, ie_owner = owner, ie_pid = pid, ie_len = len\<rparr> (set es)"
proof (induction blob pg owner pid len es rule: index_upsert.induct)
  case (2 blob pg owner pid len e es)
  have "same_slot blob pg owner pid e \<Longrightarrow>
      e\<lparr>ie_len := len\<rparr> = \<lparr>ie_blob = blob, ie_page = pg, ie_owner = owner, ie_pid = pid, ie_len = len\<rparr>"
    by (cases e) (simp add: same_slot_def)
  with 2 show ?case by auto
qed simp

lemma index_upsert_mem:
  "\<lparr>ie_blob = blob, ie_page = pg, ie_owner = owner, ie_pid = pid, ie_len = len\<rparr>
     \<in> set (index_upsert blob pg owner pid len es)"
proof (induction blob pg owner pid len es rule: index_upsert.induct)
  case (2 blob pg owner pid len e es)
  have "same_slot blob pg owner pid e \<Longrightarrow>
      e\<lparr>ie_len := len\<rparr> = \<lparr>ie_blob = blob, ie_page = pg, ie_owner = owner, ie_pid = pid, ie_len = len\<rparr>"
    by (cases e) (simp add: same_slot_def)
  with 2 show ?case by auto
qed simp

text \<open>
  The promise behind a published entry: the publisher's cache file holds the blob's page. It is
  asked only of entries whose process is alive.
\<close>

definition honoured :: "(string \<Rightarrow> dat_file) \<Rightarrow> nat \<Rightarrow> bytes \<Rightarrow> index_entry \<Rightarrow> bool" where
  "honoured dir ps blob e \<longleftrightarrow>
     (\<exists>d. dir (ie_owner e @ ''.dat'') = DatBytes d \<and> ie_page e * ps + ie_len e \<le> length d \<and>
        segment (ie_page e * ps) (ie_len e) d = segment (ie_page e * ps) (ie_len e) blob)"

definition index_honest ::
  "(nat \<Rightarrow> bool) \<Rightarrow> (string \<Rightarrow> dat_file) \<Rightarrow> nat \<Rightarrow> string \<Rightarrow> bytes \<Rightarrow> index_entry list \<Rightarrow> bool" where
  "index_honest alive dir ps ident blob es \<longleftrightarrow>
     (\<forall>e \<in> set es. alive (ie_pid e) \<longrightarrow> ie_blob e = ident \<longrightarrow> honoured dir ps blob e)"

lemma find_peer:
  assumes "index_honest alive dir (ci_page_size ci) (ci_blob_identity ci) blob es" and "alive (ci_pid ci)"
    and "lists file es"
  shows "read_peer_page None alive dir ci pg len file =
    Inr (if \<exists>e \<in> set es. alive (ie_pid e) \<and> peer_entry ci pg len e
         then Some (segment (pg * ci_page_size ci) len blob) else None)"
proof -
  define live where "live = index_prune_dead alive (ci_pid ci) es"
  have live: "e \<in> set live \<longleftrightarrow> e \<in> set es \<and> alive (ie_pid e)" for e
    using assms(2) by (auto simp: live_def index_prune_dead_def)
  have rd: "index_prune_dead alive (ci_pid ci) (index_read_entries file) = live"
    using assms(3) by (simp add: live_def lists_read)
  show ?thesis
  proof (cases "List.find (peer_entry ci pg len) live")
    case None
    then have "\<not> (\<exists>e \<in> set es. alive (ie_pid e) \<and> peer_entry ci pg len e)"
      using live by (auto simp: find_None_iff)
    with None show ?thesis by (simp add: read_peer_page_def with_locked_read_def rd)
  next
    case (Some e)
    then have e: "e \<in> set live" "peer_entry ci pg len e"
      by (auto simp: find_Some_iff)
    then have "honoured dir (ci_page_size ci) blob e"
      using assms(1) live by (auto simp: index_honest_def peer_entry_def)
    with e Some live show ?thesis
      by (auto simp: honoured_def peer_entry_def read_peer_page_def with_locked_read_def rd Let_def)
  qed
qed

section \<open>Properties\<close>


abbreviation cache_a :: cache_index where
  "cache_a \<equiv> \<lparr>ci_owner = ''a'', ci_blob_identity = ''img'', ci_pid = 3, ci_page_size = 2\<rparr>"

abbreviation cache_b :: cache_index where
  "cache_b \<equiv> \<lparr>ci_owner = ''b'', ci_blob_identity = ''img'', ci_pid = 4, ci_page_size = 2\<rparr>"

definition dir_ab :: "string \<Rightarrow> dat_file" where
  "dir_ab name = (if name = ''a.dat'' then DatBytes [0, 0, 5, 6] else NoSuchFile)"

lemma empty_lists: "lists [] []"
  by (simp add: lists_def index_write_entries_def table_write_def)


text \<open>
  A withdrawn page is not served any more. After \<open>unpublish\<close> no live entry of the
  withdrawing cache for the page is left, so if no other live cache published it, every peer is
  told to fetch it from the blob; all other entries of live processes stay.
\<close>

theorem index_unpublish_withdraws:
  assumes "lists file es" and "unpublish None alive a pg file = (r, file')" and "alive (ci_pid a)"
    and "\<forall>e \<in> set es. ie_blob e = ci_blob_identity a \<longrightarrow> ie_page e = pg \<longrightarrow> alive (ie_pid e) \<longrightarrow>
           ie_owner e = ci_owner a \<and> ie_pid e = ci_pid a"
    and "ci_blob_identity b = ci_blob_identity a" and "alive (ci_pid b)"
  shows "r = Inr () \<and> read_peer_page None alive dir b pg len file' = Inr None \<and>
    (\<exists>es'. lists file' es' \<and> (\<forall>e \<in> set es. alive (ie_pid e) \<and> ie_page e \<noteq> pg \<longrightarrow> e \<in> set es'))"
proof -
  define es' where "es' = filter (\<lambda>e. \<not> same_slot (ci_blob_identity a) pg (ci_owner a) (ci_pid a) e)
      (index_prune_dead alive (ci_pid a) es)"
  have "list_all index_entry_ok es'"
    using assms(1) by (auto simp: list_all_iff lists_def es'_def index_prune_dead_def)
  then have r: "r = Inr ()" "lists file' es'"
    using with_locked_mut_lists [OF assms(1)] assms(2) by (auto simp: unpublish_def es'_def)
  have "List.find (peer_entry b pg len) (index_prune_dead alive (ci_pid b) es') = None"
    using assms(3-6)
    by (auto simp: find_None_iff index_prune_dead_def es'_def peer_entry_def same_slot_def)
  then have "read_peer_page None alive dir b pg len file' = Inr None"
    using r(2) by (simp add: read_peer_page_def with_locked_read_def lists_read)
  moreover have "\<forall>e \<in> set es. alive (ie_pid e) \<and> ie_page e \<noteq> pg \<longrightarrow> e \<in> set es'"
    by (auto simp: es'_def index_prune_dead_def same_slot_def)
  ultimately show ?thesis using r by blast
qed

theorem index_unpublish_withdraws_witness:
  "\<exists>r file'. unpublish None (\<lambda>_. True) cache_a 1
       (index_write_entries [\<lparr>ie_blob = ''img'', ie_page = 1, ie_owner = ''a'', ie_pid = 3, ie_len = 2\<rparr>]) =
       (r, file') \<and> read_peer_page None (\<lambda>_. True) dir_ab cache_b 1 2 file' = Inr None"
proof -
  define es where "es = [\<lparr>ie_blob = ''img'', ie_page = 1, ie_owner = ''a'', ie_pid = 3, ie_len = 2\<rparr>]"
  have l: "lists (index_write_entries es) es"
    by (simp add: lists_def es_def index_entry_ok_def u64_limit_def u32_limit_def)
  obtain r file' where u: "unpublish None (\<lambda>_. True) cache_a 1 (index_write_entries es) = (r, file')"
    by fastforce
  from index_unpublish_withdraws [OF l u, of cache_b dir_ab 2] u show ?thesis
    by (simp add: es_def)
qed

end
