(* ===== verification/File_Cache.thy ===== *)
theory File_Cache
  imports Blob_Backend Cache_Lru Cache_Index Wire
begin

unbundle bit_operations_syntax

text \<open>
  The persistent local-disk cache of \<open>backend/file.rs\<close>: a sparse data file, a metadata file
  with a header and two bitmaps (\<open>present\<close>, \<open>dirty\<close>), a recorded validity token, and,
  when configured, the shared byte budget and the shared page index. A file has its current
  contents and what has been synced, so a crash can be described. The local files always accept
  reads and writes, apart from hole punching, whose outcome the code handles: the outcomes of the
  coming attempts are listed in the state. The layer below may fail at any request.
\<close>

section \<open>Configuration and state\<close>

definition MAGIC :: bytes where
  "MAGIC = [85, 66, 76, 75, 70, 67, 65, 67]"

definition VERSION :: nat where
  "VERSION = 1"

definition HEADER_SIZE :: nat where
  "HEADER_SIZE = 64"

record file_cache_config =
  fcc_name :: string
  fcc_page_size :: nat
  fcc_max_bytes :: nat
  fcc_blob_identity :: string
  fcc_share_pages :: bool

definition file_cache_config_default :: file_cache_config where
  "file_cache_config_default = \<lparr>fcc_name = ''ublk-azblob-cache'', fcc_page_size = 1024 * 1024,
     fcc_max_bytes = 0, fcc_blob_identity = [], fcc_share_pages = False\<rparr>"

record disk_file =
  df_cur :: bytes
  df_synced :: bytes

text \<open>
  The environment of the process: which processes live, the cache files of the peers, where the
  next data byte of a file is (\<open>lseek\<close> with \<open>SEEK_DATA\<close>; \<open>None\<close> is \<open>ENXIO\<close>), and
  whether the directory's file system can punch holes.
\<close>

record fc_env =
  fe_pid :: nat
  fe_alive :: "nat \<Rightarrow> bool"
  fe_peers :: "string \<Rightarrow> dat_file"
  fe_seek_data :: "bytes \<Rightarrow> nat \<Rightarrow> nat option"
  fe_punch_probe :: bool

record 's fcache =
  fc_inner :: 's
  fc_page_size :: nat
  fc_budget :: "cache_budget option"
  fc_index :: "cache_index option"
  fc_punch_supported :: bool
  fc_data :: disk_file
  fc_meta :: disk_file
  fc_dev_size :: nat
  fc_num_pages :: nat
  fc_present :: bytes
  fc_dirty :: bytes
  fc_dirty_gen :: "nat list"
  fc_resident_bytes :: nat
  fc_lru :: lru
  fc_etag_file :: "string option"
  fc_budget_file :: string
  fc_index_file :: string
  fc_punch_outcomes :: "bool list"

section \<open>Bitmaps\<close>

definition bitmap_bytes :: "nat \<Rightarrow> nat" where
  "bitmap_bytes num_pages = div_ceil num_pages 8"

definition bit_get :: "bytes \<Rightarrow> nat \<Rightarrow> bool" where
  "bit_get bitmap idx =
     (let byte = idx div 8; b = idx mod 8
      in byte < length bitmap \<and> (bitmap ! byte) AND (push_bit b 1) \<noteq> 0)"

definition bit_set :: "bytes \<Rightarrow> nat \<Rightarrow> bool \<Rightarrow> bytes" where
  "bit_set bitmap idx v =
     (let byte = idx div 8; b = idx mod 8
      in bitmap[byte := (if v then (bitmap ! byte) OR (push_bit b 1)
                         else (bitmap ! byte) AND (NOT (push_bit b 1)))])"

section \<open>Files\<close>

definition file_write :: "nat \<Rightarrow> bytes \<Rightarrow> disk_file \<Rightarrow> disk_file" where
  "file_write off d f = f\<lparr>df_cur := overwrite off d (df_cur f)\<rparr>"

definition file_sync :: "disk_file \<Rightarrow> disk_file" where
  "file_sync f = f\<lparr>df_synced := df_cur f\<rparr>"

definition resize :: "nat \<Rightarrow> bytes \<Rightarrow> bytes" where
  "resize n d = take n d @ zeros (n - length d)"

definition file_set_len :: "nat \<Rightarrow> disk_file \<Rightarrow> disk_file" where
  "file_set_len n f = \<lparr>df_cur = resize n (df_cur f), df_synced = resize n (df_synced f)\<rparr>"

definition punch_ok :: "'s fcache \<Rightarrow> bool" where
  "punch_ok s = (case fc_punch_outcomes s of [] \<Rightarrow> True | r # _ \<Rightarrow> r)"

definition punch_hole :: "nat \<Rightarrow> nat \<Rightarrow> 's fcache \<Rightarrow> bool \<times> 's fcache" where
  "punch_hole off len s =
     (let s' = s\<lparr>fc_punch_outcomes := tl (fc_punch_outcomes s)\<rparr>
      in if punch_ok s
         then (True, s'\<lparr>fc_data := file_write off (zeros len) (fc_data s')\<rparr>)
         else (False, s'))"

definition region_is_hole :: "(bytes \<Rightarrow> nat \<Rightarrow> nat option) \<Rightarrow> bytes \<Rightarrow> nat \<Rightarrow> nat \<Rightarrow> bool" where
  "region_is_hole seek_data d off len =
     (if len = 0 then True
      else (case seek_data d off of None \<Rightarrow> True | Some r \<Rightarrow> saturating_add off len \<le> r))"

section \<open>Metadata\<close>

definition meta_header :: "nat \<Rightarrow> nat \<Rightarrow> nat \<Rightarrow> bytes" where
  "meta_header page_size dev_size num_pages =
     overwrite 32 (le_bytes 8 num_pages)
       (overwrite 24 (le_bytes 8 dev_size)
         (overwrite 16 (le_bytes 8 page_size)
           (overwrite 8 (le_bytes 4 VERSION)
             (overwrite 0 MAGIC (zeros HEADER_SIZE)))))"

definition write_full_meta :: "nat \<Rightarrow> nat \<Rightarrow> nat \<Rightarrow> bytes \<Rightarrow> bytes \<Rightarrow> disk_file \<Rightarrow> disk_file" where
  "write_full_meta page_size dev_size num_pages present dirty meta =
     (let m0 = file_set_len (HEADER_SIZE + length present + length dirty) meta;
          m1 = file_write 0 (meta_header page_size dev_size num_pages) m0;
          m2 = file_write HEADER_SIZE present m1;
          m3 = file_write (HEADER_SIZE + length present) dirty m2
      in file_sync m3)"

definition count_bits :: "bytes \<Rightarrow> nat \<Rightarrow> nat" where
  "count_bits bm n = length (filter (bit_get bm) [0 ..< n])"

definition load_or_init_meta ::
  "nat \<Rightarrow> nat \<Rightarrow> nat \<Rightarrow> disk_file \<Rightarrow> bytes \<times> bytes \<times> nat \<times> disk_file" where
  "load_or_init_meta page_size dev_size num_pages meta =
     (let bm_len = bitmap_bytes num_pages;
          m = df_cur meta;
          init = (zeros bm_len, zeros bm_len, 0,
                  write_full_meta page_size dev_size num_pages (zeros bm_len) (zeros bm_len) meta)
      in if length m < HEADER_SIZE + 2 * bm_len then init
         else if segment 0 8 m \<noteq> MAGIC then init
         else if le_val (segment 8 4 m) \<noteq> VERSION \<or> le_val (segment 16 8 m) \<noteq> page_size
                 \<or> le_val (segment 24 8 m) \<noteq> dev_size then init
         else let present = segment HEADER_SIZE bm_len m;
                  dirty = segment (HEADER_SIZE + bm_len) bm_len m
              in (present, dirty, count_bits dirty num_pages, meta))"

text \<open>The recorded validity token.\<close>

definition read_recorded_etag :: "string option \<Rightarrow> string option" where
  "read_recorded_etag f =
     (case f of None \<Rightarrow> None | Some s \<Rightarrow> if trim s = [] then None else Some (trim s))"

definition write_recorded_etag :: "string \<Rightarrow> string option" where
  "write_recorded_etag etag = Some etag"

fun clear_clean_bits :: "nat list \<Rightarrow> bytes \<Rightarrow> bytes \<Rightarrow> bytes \<times> nat" where
  "clear_clean_bits [] present dirty = (present, 0)"
| "clear_clean_bits (i # is) present dirty =
     (if bit_get present i \<and> \<not> bit_get dirty i
      then (case clear_clean_bits is (bit_set present i False) dirty of (p, n) \<Rightarrow> (p, Suc n))
      else clear_clean_bits is present dirty)"

definition drop_clean_pages :: "bytes \<Rightarrow> bytes \<Rightarrow> nat \<Rightarrow> disk_file \<Rightarrow> bytes \<times> nat \<times> disk_file" where
  "drop_clean_pages present dirty num_pages meta =
     (case clear_clean_bits [0 ..< num_pages] present dirty of
        (p, n) \<Rightarrow> (p, n, if 0 < n then file_sync (file_write HEADER_SIZE p meta) else meta))"

section \<open>Opening a cache\<close>

text \<open>Seeding the recency index and the resident bytes from the recovered pages.\<close>

fun seed_lru ::
  "fc_env \<Rightarrow> nat \<Rightarrow> nat \<Rightarrow> bytes \<Rightarrow> bytes \<Rightarrow> bytes \<Rightarrow> nat list \<Rightarrow> lru \<times> nat \<Rightarrow> lru \<times> nat" where
  "seed_lru E ps dev data present dirty [] acc = acc"
| "seed_lru E ps dev data present dirty (i # is) (l, resident) =
     (let off = i * ps; page_len = min ps (dev - off); is_dirty = bit_get dirty i
      in if bit_get present i \<and> \<not> (\<not> is_dirty \<and> region_is_hole (fe_seek_data E) data off page_len)
         then seed_lru E ps dev data present dirty is
                (touch l i (\<not> is_dirty), saturating_add resident page_len)
         else seed_lru E ps dev data present dirty is (l, resident))"

fun publish_clean ::
  "fc_env \<Rightarrow> cache_index \<Rightarrow> nat \<Rightarrow> nat \<Rightarrow> bytes \<Rightarrow> bytes \<Rightarrow> nat list \<Rightarrow> string \<Rightarrow> unit res \<times> string" where
  "publish_clean E ci ps dev present dirty [] f = (Inr (), f)"
| "publish_clean E ci ps dev present dirty (i # is) f =
     (if bit_get present i \<and> \<not> bit_get dirty i
      then (case publish None (fe_alive E) ci i (min ps (dev - i * ps)) f of
              (Inl e, f') \<Rightarrow> (Inl e, f')
            | (Inr _, f') \<Rightarrow> publish_clean E ci ps dev present dirty is f')
      else publish_clean E ci ps dev present dirty is f)"

text \<open>
  The parts of \<open>open\<close>: clean pages of a blob that changed are dropped, and the resident bytes
  are charged to the budget.
\<close>

definition validate_token ::
  "string option \<Rightarrow> string option \<Rightarrow> bytes \<Rightarrow> bytes \<Rightarrow> nat \<Rightarrow> disk_file \<Rightarrow> bytes \<times> disk_file" where
  "validate_token current_etag recorded present dirty num_pages meta =
     (case current_etag of
        Some cur \<Rightarrow>
          if recorded \<noteq> Some cur
          then (case drop_clean_pages present dirty num_pages meta of (p, _, m) \<Rightarrow> (p, m))
          else (present, meta)
      | None \<Rightarrow> (present, meta))"

definition seed_resident ::
  "fc_env \<Rightarrow> cache_budget option \<Rightarrow> nat \<Rightarrow> nat \<Rightarrow> bytes \<Rightarrow> bytes \<Rightarrow> bytes \<Rightarrow> nat \<Rightarrow> lru \<times> nat" where
  "seed_resident E budget ps dev data present dirty num_pages =
     (if budget = None then (lru_default, 0)
      else seed_lru E ps dev data present dirty [0 ..< num_pages] (lru_default, 0))"

definition charge_resident ::
  "fc_env \<Rightarrow> cache_budget option \<Rightarrow> nat \<Rightarrow> string \<Rightarrow> nat res \<times> string" where
  "charge_resident E budget resident budget_file =
     (case budget of
        None \<Rightarrow> (Inr 0, budget_file)
      | Some cb \<Rightarrow> budget_reset None (fe_alive E) cb resident budget_file)"

text \<open>
  \<open>open\<close> on the files found in the directory. The result is the cache and the number of
  dirty pages recovered.
\<close>

definition fc_open ::
  "fc_env \<Rightarrow> 's \<Rightarrow> file_cache_config \<Rightarrow> nat \<Rightarrow> string option \<Rightarrow> disk_file \<Rightarrow> disk_file \<Rightarrow> string option \<Rightarrow>
   string \<Rightarrow> string \<Rightarrow> bool list \<Rightarrow> ('s fcache \<times> nat) res" where
  "fc_open E inner cfg dev_size current_etag data_file meta_file etag_file budget_file index_file punches =
     (if fcc_page_size cfg = 0 \<or> \<not> is_multiple_of (fcc_page_size cfg) 512 then Inl BadConfig
      else if dev_size = 0 then Inl BadSize
      else
        let ps = fcc_page_size cfg;
            num_pages = div_ceil dev_size ps;
            data = file_set_len dev_size data_file;
            (present0, dirty, recovered, meta0) = load_or_init_meta ps dev_size num_pages meta_file;
            (present, meta) =
              validate_token current_etag (read_recorded_etag etag_file) present0 dirty num_pages meta0;
            etag' = (case current_etag of Some cur \<Rightarrow> write_recorded_etag cur | None \<Rightarrow> etag_file)
        in case budget_open None (fe_alive E) (fe_pid E) (fcc_name cfg) (fcc_max_bytes cfg) budget_file of
             (Inl e, _) \<Rightarrow> Inl e
           | (Inr budget, bf0) \<Rightarrow>
               let (l, resident) =
                     seed_resident E budget ps dev_size (df_cur data) present dirty num_pages;
                   (rb, bf) = charge_resident E budget resident bf0
               in case rb of
                    Inl e \<Rightarrow> Inl e
                  | Inr _ \<Rightarrow>
                      (let s = \<lparr>fc_inner = inner, fc_page_size = ps, fc_budget = budget, fc_index = None,
                                fc_punch_supported = fe_punch_probe E, fc_data = data, fc_meta = meta,
                                fc_dev_size = dev_size, fc_num_pages = num_pages, fc_present = present,
                                fc_dirty = dirty, fc_dirty_gen = replicate num_pages 0,
                                fc_resident_bytes = resident, fc_lru = l, fc_etag_file = etag',
                                fc_budget_file = bf, fc_index_file = index_file,
                                fc_punch_outcomes = punches\<rparr>
                       in if fcc_share_pages cfg
                          then (case index_open None (fe_alive E) (fe_pid E) (fcc_name cfg)
                                       (fcc_blob_identity cfg) ps index_file of
                                  (Inl e, _) \<Rightarrow> Inl e
                                | (Inr ci, xf) \<Rightarrow>
                                    (case publish_clean E ci ps dev_size present dirty [0 ..< num_pages] xf of
                                       (Inl e, _) \<Rightarrow> Inl e
                                     | (Inr _, xf') \<Rightarrow>
                                         Inr (s\<lparr>fc_index := Some ci, fc_index_file := xf'\<rparr>, recovered)))
                          else Inr (s, recovered)))"

section \<open>Pages\<close>

definition page_len :: "'s fcache \<Rightarrow> nat \<Rightarrow> nat" where
  "page_len s idx = min (fc_page_size s) (fc_dev_size s - idx * fc_page_size s)"

definition fc_publish :: "fc_env \<Rightarrow> nat \<Rightarrow> nat \<Rightarrow> 's fcache \<Rightarrow> unit res \<times> 's fcache" where
  "fc_publish E idx len s =
     (case fc_index s of
        None \<Rightarrow> (Inr (), s)
      | Some ci \<Rightarrow> (case publish None (fe_alive E) ci idx len (fc_index_file s) of
                      (r, f) \<Rightarrow> (r, s\<lparr>fc_index_file := f\<rparr>)))"

definition fc_unpublish :: "fc_env \<Rightarrow> nat \<Rightarrow> 's fcache \<Rightarrow> unit res \<times> 's fcache" where
  "fc_unpublish E idx s =
     (case fc_index s of
        None \<Rightarrow> (Inr (), s)
      | Some ci \<Rightarrow> (case unpublish None (fe_alive E) ci idx (fc_index_file s) of
                      (r, f) \<Rightarrow> (r, s\<lparr>fc_index_file := f\<rparr>)))"

definition fc_unpublish_all :: "fc_env \<Rightarrow> 's fcache \<Rightarrow> unit res \<times> 's fcache" where
  "fc_unpublish_all E s =
     (case fc_index s of
        None \<Rightarrow> (Inr (), s)
      | Some ci \<Rightarrow> (case unpublish_all None (fe_alive E) ci (fc_index_file s) of
                      (r, f) \<Rightarrow> (r, s\<lparr>fc_index_file := f\<rparr>)))"

text \<open>One byte of the present bitmap to the metadata file, not synced.\<close>

definition write_present_byte :: "nat \<Rightarrow> 's fcache \<Rightarrow> 's fcache" where
  "write_present_byte idx s =
     s\<lparr>fc_meta := file_write (HEADER_SIZE + idx div 8) [fc_present s ! (idx div 8)] (fc_meta s)\<rparr>"

definition persist_meta_bit :: "nat \<Rightarrow> 's fcache \<Rightarrow> 's fcache" where
  "persist_meta_bit idx s =
     (let byte = idx div 8;
          m1 = file_write (HEADER_SIZE + byte) [fc_present s ! byte] (fc_meta s);
          m2 = file_write (HEADER_SIZE + bitmap_bytes (fc_num_pages s) + byte) [fc_dirty s ! byte] m1
      in s\<lparr>fc_meta := file_sync m2\<rparr>)"

definition set_present :: "nat \<Rightarrow> bool \<Rightarrow> 's fcache \<Rightarrow> 's fcache" where
  "set_present idx v s = s\<lparr>fc_present := bit_set (fc_present s) idx v\<rparr>"

definition set_dirty :: "nat \<Rightarrow> bool \<Rightarrow> 's fcache \<Rightarrow> 's fcache" where
  "set_dirty idx v s = s\<lparr>fc_dirty := bit_set (fc_dirty s) idx v\<rparr>"

text \<open>
  One round of the eviction loop, on a page just popped: the evicted length, or \<open>None\<close> when its
  disk space could not be reclaimed and the page was put back.
\<close>

definition evict_one ::
  "fc_env \<Rightarrow> cache_budget \<Rightarrow> nat \<Rightarrow> 's fcache \<Rightarrow> (nat option) res \<times> 's fcache" where
  "evict_one E cb idx s =
     (let off = idx * fc_page_size s; len = page_len s idx in
      case fc_unpublish E idx s of
        (Inl e, s2) \<Rightarrow> (Inl e, s2)
      | (Inr _, s2) \<Rightarrow>
          (case (if 0 < len then punch_hole off len s2 else (True, s2)) of
             (False, s3) \<Rightarrow>
               (Inr None, snd (fc_publish E idx len (s3\<lparr>fc_lru := touch (fc_lru s3) idx True\<rparr>)))
           | (True, s3) \<Rightarrow>
               (let s4 = write_present_byte idx (set_present idx False s3);
                    s5 = s4\<lparr>fc_resident_bytes := fc_resident_bytes s4 - len\<rparr>
                in case release None (fe_alive E) cb len (fc_budget_file s5) of
                     (Inl e, f) \<Rightarrow> (Inl e, s5\<lparr>fc_budget_file := f\<rparr>)
                   | (Inr _, f) \<Rightarrow> (Inr (Some len), s5\<lparr>fc_budget_file := f\<rparr>))))"

lemma evict_one_lru: "evict_one E cb idx s = (Inr (Some len), s') \<Longrightarrow> fc_lru s' = fc_lru s"
  by (auto simp: evict_one_def fc_unpublish_def punch_hole_def write_present_byte_def set_present_def
      Let_def split: option.splits prod.splits sum.splits if_splits bool.splits)

text \<open>The eviction loop; every round takes a page off the evictable ones or stops.\<close>

function evict_pages ::
  "fc_env \<Rightarrow> cache_budget \<Rightarrow> nat \<Rightarrow> nat option \<Rightarrow> 's fcache \<Rightarrow> unit res \<times> 's fcache" where
  "evict_pages E cb over protect s =
     (if over = 0 then (Inr (), s)
      else (case pop_lru (fc_lru s) protect of
        (None, l') \<Rightarrow> (Inr (), s\<lparr>fc_lru := l'\<rparr>)
      | (Some idx, l') \<Rightarrow>
          (case evict_one E cb idx (s\<lparr>fc_lru := l'\<rparr>) of
             (Inl e, s') \<Rightarrow> (Inl e, s')
           | (Inr None, s') \<Rightarrow> (Inr (), s')
           | (Inr (Some len), s') \<Rightarrow> evict_pages E cb (over - len) protect s')))"
  by pat_completeness auto
termination
  by (relation "measure (\<lambda>(E, cb, over, protect, s). length (evictable (fc_lru s)))")
     (simp, clarsimp, drule sym, drule sym, auto dest!: evict_one_lru pop_lru_shrinks)

declare evict_pages.simps [simp del]

definition evict_clean ::
  "fc_env \<Rightarrow> nat \<Rightarrow> nat option \<Rightarrow> 's fcache \<Rightarrow> unit res \<times> 's fcache" where
  "evict_clean E over protect s =
     (case fc_budget s of
        None \<Rightarrow> (Inr (), s)
      | Some cb \<Rightarrow> if \<not> fc_punch_supported s then (Inr (), s) else evict_pages E cb over protect s)"

definition account_present ::
  "fc_env \<Rightarrow> nat \<Rightarrow> bool \<Rightarrow> nat \<Rightarrow> 's fcache \<Rightarrow> unit res \<times> 's fcache" where
  "account_present E idx clean disk_len s =
     (case fc_budget s of
        None \<Rightarrow> (Inr (), s)
      | Some cb \<Rightarrow>
          if disk_len = 0 then (Inr (), s)
          else
            (let already = lru_contains (fc_lru s) idx;
                 s1 = s\<lparr>fc_lru := touch (fc_lru s) idx clean\<rparr>
             in if already then (Inr (), s1)
                else
                  (let s2 = s1\<lparr>fc_resident_bytes := saturating_add (fc_resident_bytes s1) disk_len\<rparr>
                   in case admit None (fe_alive E) cb disk_len (fc_budget_file s2) of
                        (Inl e, f) \<Rightarrow> (Inl e, s2\<lparr>fc_budget_file := f\<rparr>)
                      | (Inr over, f) \<Rightarrow>
                          if 0 < over then evict_clean E over (Some idx) (s2\<lparr>fc_budget_file := f\<rparr>)
                          else (Inr (), s2\<lparr>fc_budget_file := f\<rparr>))))"

definition store_clean_page ::
  "fc_env \<Rightarrow> nat \<Rightarrow> bytes \<Rightarrow> 's fcache \<Rightarrow> unit res \<times> 's fcache" where
  "store_clean_page E idx d s =
     (let off = idx * fc_page_size s;
          is_zero = list_all (\<lambda>b. b = 0) d;
          len = page_len s idx;
          wr = (\<lambda>s. s\<lparr>fc_data := file_write off d (fc_data s)\<rparr>);
          (is_hole, s1) =
            (if is_zero \<and> fc_punch_supported s
             then (case punch_hole off len s of
                     (True, s') \<Rightarrow> (True, s') | (False, s') \<Rightarrow> (False, wr s'))
             else (False, wr s));
          s2 = write_present_byte idx (set_present idx True s1)
      in account_present E idx True (if is_hole then 0 else len) s2)"

definition try_peer_page :: "fc_env \<Rightarrow> nat \<Rightarrow> nat \<Rightarrow> 's fcache \<Rightarrow> (bytes option) res" where
  "try_peer_page E idx len s =
     (case fc_index s of
        None \<Rightarrow> Inr None
      | Some ci \<Rightarrow> read_peer_page None (fe_alive E) (fe_peers E) ci idx len (fc_index_file s))"

text \<open>A page from a peer, or from the layer below.\<close>

definition fetch_page ::
  "fc_env \<Rightarrow> 's backend \<Rightarrow> nat \<Rightarrow> nat \<Rightarrow> 's fcache \<Rightarrow> bytes res \<times> 's fcache" where
  "fetch_page E B idx len s =
     (case try_peer_page E idx len s of
        Inl e \<Rightarrow> (Inl e, s)
      | Inr (Some buf) \<Rightarrow> (Inr buf, s)
      | Inr None \<Rightarrow>
          (case b_read B (fc_inner s) (idx * fc_page_size s) len of
             (Inl e, i') \<Rightarrow> (Inl e, s\<lparr>fc_inner := i'\<rparr>)
           | (Inr d, i') \<Rightarrow>
               if length d \<noteq> len then (Inl ShortRead, s\<lparr>fc_inner := i'\<rparr>)
               else (Inr d, s\<lparr>fc_inner := i'\<rparr>)))"

definition ensure_page ::
  "fc_env \<Rightarrow> 's backend \<Rightarrow> nat \<Rightarrow> 's fcache \<Rightarrow> nat res \<times> 's fcache" where
  "ensure_page E B idx s =
     (let len = page_len s idx in
      if bit_get (fc_present s) idx then (Inr len, s)
      else (case fetch_page E B idx len s of
              (Inl e, s1) \<Rightarrow> (Inl e, s1)
            | (Inr d, s1) \<Rightarrow>
                (case store_clean_page E idx d s1 of
                   (Inl e, s2) \<Rightarrow> (Inl e, s2) | (Inr _, s2) \<Rightarrow> (Inr len, s2))))"

definition warm_one_page ::
  "fc_env \<Rightarrow> 's backend \<Rightarrow> nat \<Rightarrow> 's fcache \<Rightarrow> nat res \<times> 's fcache" where
  "warm_one_page E B idx s =
     (if bit_get (fc_present s) idx then (Inr 0, s)
      else
        (let len = page_len s idx in
         if len = 0 then (Inr 0, s)
         else (case fetch_page E B idx len s of
                 (Inl e, s1) \<Rightarrow> (Inl e, s1)
               | (Inr d, s1) \<Rightarrow>
                   if bit_get (fc_present s1) idx then (Inr 0, s1)
                   else (case store_clean_page E idx d s1 of
                           (Inl e, s2) \<Rightarrow> (Inl e, s2)
                         | (Inr _, s2) \<Rightarrow>
                             if \<not> bit_get (fc_dirty s2) idx
                             then (case fc_publish E idx len s2 of
                                     (Inl e, s3) \<Rightarrow> (Inl e, s3) | (Inr _, s3) \<Rightarrow> (Inr len, s3))
                             else (Inr len, s2)))))"

definition dirty_page_region ::
  "fc_env \<Rightarrow> nat \<Rightarrow> nat \<Rightarrow> bytes \<Rightarrow> 's fcache \<Rightarrow> unit res \<times> 's fcache" where
  "dirty_page_region E idx page_off payload s =
     (case fc_unpublish E idx s of
        (Inl e, s1) \<Rightarrow> (Inl e, s1)
      | (Inr _, s1) \<Rightarrow>
          (let off = idx * fc_page_size s1 + page_off;
               s2 = s1\<lparr>fc_data := file_sync (file_write off payload (fc_data s1))\<rparr>;
               s3 = set_dirty idx True (set_present idx True s2);
               s4 = (if idx < length (fc_dirty_gen s3)
                     then s3\<lparr>fc_dirty_gen := (fc_dirty_gen s3)[idx := wrapping_add (fc_dirty_gen s3 ! idx) 1]\<rparr>
                     else s3);
               s5 = persist_meta_bit idx s4
           in account_present E idx False (page_len s5 idx) s5))"

section \<open>The operations of the trait\<close>

definition fc_check_in_bounds :: "nat \<Rightarrow> nat \<Rightarrow> nat \<Rightarrow> unit res" where
  "fc_check_in_bounds off len dev =
     (case checked_add off len of
        None \<Rightarrow> Inl OverflowU64
      | Some end' \<Rightarrow> if dev < end' then Inl OutOfBounds else Inr ())"

definition forget_recorded_etag :: "'s fcache \<Rightarrow> 's fcache" where
  "forget_recorded_etag s = s\<lparr>fc_etag_file := None\<rparr>"

definition reset_budget :: "fc_env \<Rightarrow> 's fcache \<Rightarrow> unit res \<times> 's fcache" where
  "reset_budget E s =
     (case fc_budget s of
        None \<Rightarrow> (Inr (), s)
      | Some cb \<Rightarrow> (case budget_reset None (fe_alive E) cb 0 (fc_budget_file s) of
                      (Inl e, f) \<Rightarrow> (Inl e, s\<lparr>fc_budget_file := f\<rparr>)
                    | (Inr _, f) \<Rightarrow> (Inr (), s\<lparr>fc_budget_file := f\<rparr>)))"

text \<open>The shared tail of \<open>reinit\<close> and \<open>delete\<close>: forget every page everywhere but in the files.\<close>

definition forget_pages :: "fc_env \<Rightarrow> 's fcache \<Rightarrow> unit res \<times> 's fcache" where
  "forget_pages E s =
     (case reset_budget E (s\<lparr>fc_resident_bytes := 0, fc_lru := lru_clear (fc_lru s)\<rparr>) of
        (Inl e, s1) \<Rightarrow> (Inl e, s1)
      | (Inr _, s1) \<Rightarrow>
          (case fc_unpublish_all E s1 of
             (Inl e, s2) \<Rightarrow> (Inl e, s2)
           | (Inr _, s2) \<Rightarrow> (Inr (), forget_recorded_etag s2)))"

definition reinit :: "fc_env \<Rightarrow> nat \<Rightarrow> 's fcache \<Rightarrow> unit res \<times> 's fcache" where
  "reinit E sz s =
     (let num_pages = div_ceil sz (fc_page_size s);
          bm = zeros (bitmap_bytes num_pages)
      in forget_pages E
           (s\<lparr>fc_data := file_set_len sz (fc_data s), fc_dev_size := sz, fc_num_pages := num_pages,
              fc_present := bm, fc_dirty := bm, fc_dirty_gen := replicate num_pages 0,
              fc_meta := write_full_meta (fc_page_size s) sz num_pages bm bm (fc_meta s)\<rparr>))"

definition fc_create ::
  "fc_env \<Rightarrow> 's backend \<Rightarrow> 's fcache \<Rightarrow> nat \<Rightarrow> unit res \<times> 's fcache" where
  "fc_create E B s sz =
     (if sz = 0 \<or> \<not> is_multiple_of sz 512 then (Inl BadSize, s)
      else (case b_create B (fc_inner s) sz of
              (Inl e, i') \<Rightarrow> (Inl e, s\<lparr>fc_inner := i'\<rparr>)
            | (Inr _, i') \<Rightarrow> reinit E sz (s\<lparr>fc_inner := i'\<rparr>)))"

text \<open>One chunk of a read: from the cache file, from a peer, or from the layer below.\<close>

definition fc_read_chunk ::
  "fc_env \<Rightarrow> 's backend \<Rightarrow> nat \<Rightarrow> nat \<Rightarrow> 's fcache \<Rightarrow> bytes res \<times> 's fcache" where
  "fc_read_chunk E B abs_off chunk_len s =
     (let idx = abs_off div fc_page_size s; page_off = abs_off mod fc_page_size s in
      if bit_get (fc_present s) idx
      then (Inr (segment abs_off chunk_len (df_cur (fc_data s))),
            if fc_budget s \<noteq> None
            then s\<lparr>fc_lru := touch (fc_lru s) idx (\<not> bit_get (fc_dirty s) idx)\<rparr>
            else s)
      else (case try_peer_page E idx (page_len s idx) s of
              Inl e \<Rightarrow> (Inl e, s)
            | Inr (Some pg) \<Rightarrow> (Inr (segment page_off chunk_len pg), s)
            | Inr None \<Rightarrow>
                (case b_read B (fc_inner s) abs_off chunk_len of
                   (Inl e, i') \<Rightarrow> (Inl e, s\<lparr>fc_inner := i'\<rparr>)
                 | (Inr d, i') \<Rightarrow>
                     if length d \<noteq> chunk_len then (Inl ShortRead, s\<lparr>fc_inner := i'\<rparr>)
                     else (Inr d, s\<lparr>fc_inner := i'\<rparr>))))"

text \<open>The page loops walk the request in chunks that end at page boundaries.\<close>

definition chunk_at :: "nat \<Rightarrow> nat \<Rightarrow> nat \<Rightarrow> nat \<Rightarrow> nat" where
  "chunk_at ps off len pos = min (ps - (off + pos) mod ps) (len - pos)"

lemma chunk_at_bounds:
  assumes "0 < ps" and "pos < len"
  shows "0 < chunk_at ps off len pos" "pos + chunk_at ps off len pos \<le> len"
    "(off + pos) mod ps + chunk_at ps off len pos \<le> ps"
    "len - (pos + chunk_at ps off len pos) < len - pos"
  using assms mod_less_divisor [OF assms(1), of "off + pos"] by (auto simp: chunk_at_def)

function fc_read_loop ::
  "fc_env \<Rightarrow> 's backend \<Rightarrow> nat \<Rightarrow> nat \<Rightarrow> nat \<Rightarrow> nat \<Rightarrow> bytes \<Rightarrow> 's fcache \<Rightarrow> bytes res \<times> 's fcache" where
  "fc_read_loop E B ps off len pos result s =
     (if ps = 0 then (Inl Panic, s)
      else if pos < len
      then (let chunk_len = chunk_at ps off len pos in
            case fc_read_chunk E B (off + pos) chunk_len s of
              (Inl e, s') \<Rightarrow> (Inl e, s')
            | (Inr d, s') \<Rightarrow>
                fc_read_loop E B ps off len (pos + chunk_len) (overwrite pos d result) s')
      else (Inr result, s))"
  by pat_completeness auto
termination
  by (relation "measure (\<lambda>(E, B, ps, off, len, pos, result, s). len - pos)")
     (auto simp: chunk_at_bounds)

declare fc_read_loop.simps [simp del]

definition fc_read ::
  "fc_env \<Rightarrow> 's backend \<Rightarrow> 's fcache \<Rightarrow> nat \<Rightarrow> nat \<Rightarrow> bytes res \<times> 's fcache" where
  "fc_read E B s off len =
     (if len = 0 then (Inr [], s)
      else if \<not> is_multiple_of off 512 \<or> \<not> is_multiple_of len 512 then (Inl Misaligned, s)
      else (case fc_check_in_bounds off len (fc_dev_size s) of
              Inl e \<Rightarrow> (Inl e, s)
            | Inr _ \<Rightarrow> fc_read_loop E B (fc_page_size s) off len 0 (zeros len) s))"

text \<open>Prefetch makes whole pages resident and publishes the clean ones.\<close>

definition prefetch_page ::
  "fc_env \<Rightarrow> 's backend \<Rightarrow> nat \<Rightarrow> 's fcache \<Rightarrow> unit res \<times> 's fcache" where
  "prefetch_page E B idx s =
     (case ensure_page E B idx s of
        (Inl e, s1) \<Rightarrow> (Inl e, s1)
      | (Inr len, s1) \<Rightarrow>
          if 0 < len \<and> \<not> bit_get (fc_dirty s1) idx then fc_publish E idx len s1 else (Inr (), s1))"

function prefetch_loop ::
  "fc_env \<Rightarrow> 's backend \<Rightarrow> nat \<Rightarrow> nat \<Rightarrow> nat \<Rightarrow> 's fcache \<Rightarrow> unit res \<times> 's fcache" where
  "prefetch_loop E B ps end' page_off s =
     (if ps = 0 then (Inl Panic, s)
      else if page_off < end'
      then (case prefetch_page E B (page_off div ps) s of
              (Inl e, s') \<Rightarrow> (Inl e, s')
            | (Inr _, s') \<Rightarrow> prefetch_loop E B ps end' (page_off + ps) s')
      else (Inr (), s))"
  by pat_completeness auto
termination
  by (relation "measure (\<lambda>(E, B, ps, end', page_off, s). end' - page_off)") auto

declare prefetch_loop.simps [simp del]

definition fc_prefetch ::
  "fc_env \<Rightarrow> 's backend \<Rightarrow> 's fcache \<Rightarrow> nat \<Rightarrow> nat \<Rightarrow> unit res \<times> 's fcache" where
  "fc_prefetch E B s off len =
     (if len = 0 then (Inr (), s)
      else if \<not> is_multiple_of off 512 \<or> \<not> is_multiple_of len 512 then (Inl Misaligned, s)
      else (case fc_check_in_bounds off len (fc_dev_size s) of
              Inl e \<Rightarrow> (Inl e, s)
            | Inr _ \<Rightarrow> prefetch_loop E B (fc_page_size s) (off + len) (off - off mod fc_page_size s) s))"

text \<open>Warm-up, one page after the other: the warmed and the skipped bytes.\<close>

definition fc_data_ranges ::
  "'s backend \<Rightarrow> 's fcache \<Rightarrow> ((nat \<times> nat) list option) res \<times> 's fcache" where
  "fc_data_ranges B s = (case b_data_ranges B (fc_inner s) of (r, i') \<Rightarrow> (r, s\<lparr>fc_inner := i'\<rparr>))"

fun warm_pages ::
  "fc_env \<Rightarrow> 's backend \<Rightarrow> (nat \<times> nat) list option \<Rightarrow> nat \<Rightarrow> nat \<Rightarrow> nat list \<Rightarrow> nat \<Rightarrow> nat \<Rightarrow> 's fcache \<Rightarrow>
   nat \<times> nat \<times> 's fcache" where
  "warm_pages E B ranges ps dev [] warmed skipped s = (warmed, skipped, s)"
| "warm_pages E B ranges ps dev (i # is) warmed skipped s =
     (let off = i * ps; len = min ps (dev - off) in
      if (case ranges of Some rs \<Rightarrow> \<not> range_intersects rs off len | None \<Rightarrow> False)
      then warm_pages E B ranges ps dev is warmed (skipped + len) s
      else (case warm_one_page E B i s of
              (Inr n, s') \<Rightarrow> warm_pages E B ranges ps dev is (warmed + n) skipped s'
            | (Inl _, s') \<Rightarrow> warm_pages E B ranges ps dev is warmed skipped s'))"

definition fc_warmup ::
  "fc_env \<Rightarrow> 's backend \<Rightarrow> 's fcache \<Rightarrow> nat \<Rightarrow> nat \<Rightarrow> nat \<times> nat \<times> 's fcache" where
  "fc_warmup E B s dev limit_bytes =
     (let limit = min limit_bytes dev in
      if limit = 0 then (0, 0, s)
      else (case fc_data_ranges B s of
              (r, s') \<Rightarrow>
                warm_pages E B (case r of Inr ranges \<Rightarrow> ranges | Inl _ \<Rightarrow> None) (fc_page_size s) dev
                  [0 ..< div_ceil limit (fc_page_size s)] 0 0 s'))"

text \<open>One chunk of a write or clear.\<close>

definition fc_store_chunk ::
  "fc_env \<Rightarrow> 's backend \<Rightarrow> nat \<Rightarrow> bytes \<Rightarrow> 's fcache \<Rightarrow> unit res \<times> 's fcache" where
  "fc_store_chunk E B abs_off chunk s =
     (let idx = abs_off div fc_page_size s; page_off = abs_off mod fc_page_size s in
      case (if length chunk \<noteq> fc_page_size s then ensure_page E B idx s else (Inr 0, s)) of
        (Inl e, s1) \<Rightarrow> (Inl e, s1)
      | (Inr _, s1) \<Rightarrow> dirty_page_region E idx page_off chunk s1)"

function fc_write_loop ::
  "fc_env \<Rightarrow> 's backend \<Rightarrow> nat \<Rightarrow> nat \<Rightarrow> bytes \<Rightarrow> nat \<Rightarrow> 's fcache \<Rightarrow> unit res \<times> 's fcache" where
  "fc_write_loop E B ps off d pos s =
     (if ps = 0 then (Inl Panic, s)
      else if pos < length d
      then (let chunk_len = chunk_at ps off (length d) pos in
            case fc_store_chunk E B (off + pos) (segment pos chunk_len d) s of
              (Inl e, s') \<Rightarrow> (Inl e, s')
            | (Inr _, s') \<Rightarrow> fc_write_loop E B ps off d (pos + chunk_len) s')
      else (Inr (), s))"
  by pat_completeness auto
termination
  by (relation "measure (\<lambda>(E, B, ps, off, d, pos, s). length d - pos)")
     (auto simp: chunk_at_bounds)

declare fc_write_loop.simps [simp del]

definition fc_write ::
  "fc_env \<Rightarrow> 's backend \<Rightarrow> 's fcache \<Rightarrow> nat \<Rightarrow> bytes \<Rightarrow> unit res \<times> 's fcache" where
  "fc_write E B s off d =
     (if d = [] then (Inr (), s)
      else if \<not> is_multiple_of off 512 \<or> \<not> is_multiple_of (length d) 512 then (Inl Misaligned, s)
      else (case fc_check_in_bounds off (length d) (fc_dev_size s) of
              Inl e \<Rightarrow> (Inl e, s)
            | Inr _ \<Rightarrow> fc_write_loop E B (fc_page_size s) off d 0 s))"

function fc_clear_loop ::
  "fc_env \<Rightarrow> 's backend \<Rightarrow> nat \<Rightarrow> nat \<Rightarrow> nat \<Rightarrow> nat \<Rightarrow> 's fcache \<Rightarrow> unit res \<times> 's fcache" where
  "fc_clear_loop E B ps off len pos s =
     (if ps = 0 then (Inl Panic, s)
      else if pos < len
      then (let chunk_len = chunk_at ps off len pos in
            case fc_store_chunk E B (off + pos) (zeros chunk_len) s of
              (Inl e, s') \<Rightarrow> (Inl e, s')
            | (Inr _, s') \<Rightarrow> fc_clear_loop E B ps off len (pos + chunk_len) s')
      else (Inr (), s))"
  by pat_completeness auto
termination
  by (relation "measure (\<lambda>(E, B, ps, off, len, pos, s). len - pos)")
     (auto simp: chunk_at_bounds)

declare fc_clear_loop.simps [simp del]

definition fc_clear ::
  "fc_env \<Rightarrow> 's backend \<Rightarrow> 's fcache \<Rightarrow> nat \<Rightarrow> nat \<Rightarrow> unit res \<times> 's fcache" where
  "fc_clear E B s off len =
     (if len = 0 then (Inr (), s)
      else if \<not> is_multiple_of off 512 \<or> \<not> is_multiple_of len 512 then (Inl Misaligned, s)
      else (case fc_check_in_bounds off len (fc_dev_size s) of
              Inl e \<Rightarrow> (Inl e, s)
            | Inr _ \<Rightarrow> fc_clear_loop E B (fc_page_size s) off len 0 s))"

section \<open>Flush\<close>

text \<open>Phase A: the bytes and the generation of a dirty page.\<close>

definition page_snapshot :: "nat \<Rightarrow> 's fcache \<Rightarrow> (nat \<times> nat \<times> nat \<times> bytes) option" where
  "page_snapshot idx s =
     (if \<not> bit_get (fc_dirty s) idx then None
      else let off = idx * fc_page_size s; len = page_len s idx in
           if len = 0 then None
           else Some (off, len,
                      if idx < length (fc_dirty_gen s) then fc_dirty_gen s ! idx else 0,
                      segment off len (df_cur (fc_data s))))"

text \<open>Phase C: clean again, unless it was written meanwhile.\<close>

definition page_uploaded ::
  "fc_env \<Rightarrow> nat \<Rightarrow> nat \<Rightarrow> nat \<Rightarrow> 's fcache \<Rightarrow> unit res \<times> 's fcache" where
  "page_uploaded E idx len generation s =
     (let current = (if idx < length (fc_dirty_gen s) then fc_dirty_gen s ! idx else 0) in
      if current \<noteq> generation then (Inr (), s)
      else let s1 = persist_meta_bit idx (set_dirty idx False s);
               s2 = (if fc_budget s1 \<noteq> None then s1\<lparr>fc_lru := touch (fc_lru s1) idx True\<rparr> else s1)
           in fc_publish E idx len s2)"

definition fc_flush_page ::
  "fc_env \<Rightarrow> 's backend \<Rightarrow> nat \<Rightarrow> 's fcache \<Rightarrow> unit res \<times> 's fcache" where
  "fc_flush_page E B idx s =
     (case page_snapshot idx s of
        None \<Rightarrow> (Inr (), s)
      | Some (off, len, generation, buf) \<Rightarrow>
          (case b_write B (fc_inner s) off buf of
             (Inl e, i') \<Rightarrow> (Inl e, s\<lparr>fc_inner := i'\<rparr>)
           | (Inr _, i') \<Rightarrow> page_uploaded E idx len generation (s\<lparr>fc_inner := i'\<rparr>)))"

text \<open>All dirty pages are tried; the first error is reported at the end.\<close>

fun fc_flush_pages ::
  "fc_env \<Rightarrow> 's backend \<Rightarrow> nat list \<Rightarrow> err option \<Rightarrow> 's fcache \<Rightarrow> unit res \<times> 's fcache" where
  "fc_flush_pages E B [] first_err s = (case first_err of None \<Rightarrow> Inr () | Some e \<Rightarrow> Inl e, s)"
| "fc_flush_pages E B (idx # idxs) first_err s =
     (case fc_flush_page E B idx s of
        (r, s') \<Rightarrow>
          fc_flush_pages E B idxs
            (case (first_err, r) of (None, Inl e) \<Rightarrow> Some e | _ \<Rightarrow> first_err) s')"

definition fc_dirty_pages :: "'s fcache \<Rightarrow> nat list" where
  "fc_dirty_pages s = filter (bit_get (fc_dirty s)) [0 ..< fc_num_pages s]"

definition fc_flush :: "fc_env \<Rightarrow> 's backend \<Rightarrow> 's fcache \<Rightarrow> unit res \<times> 's fcache" where
  "fc_flush E B s =
     (let dirty = fc_dirty_pages s; flushed_any = (dirty \<noteq> []) in
      case (if flushed_any then fc_flush_pages E B dirty None s else (Inr (), s)) of
        (Inl e, s1) \<Rightarrow> (Inl e, s1)
      | (Inr _, s1) \<Rightarrow>
          (case b_flush B (fc_inner s1) of
             (Inl e, i') \<Rightarrow> (Inl e, s1\<lparr>fc_inner := i'\<rparr>)
           | (Inr _, i') \<Rightarrow>
               let s2 = s1\<lparr>fc_inner := i'\<rparr> in
               if flushed_any
               then (case b_etag B (fc_inner s2) of
                       (Inr (Some etag), i'') \<Rightarrow>
                         (Inr (), s2\<lparr>fc_inner := i'', fc_etag_file := write_recorded_etag etag\<rparr>)
                     | (Inr None, i'') \<Rightarrow> (Inr (), s2\<lparr>fc_inner := i''\<rparr>)
                     | (Inl _, i'') \<Rightarrow> (Inr (), s2\<lparr>fc_inner := i''\<rparr>))
               else (Inr (), s2)))"

definition fc_delete :: "fc_env \<Rightarrow> 's backend \<Rightarrow> 's fcache \<Rightarrow> unit res \<times> 's fcache" where
  "fc_delete E B s =
     (let bm = zeros (bitmap_bytes (fc_num_pages s)) in
      case forget_pages E (s\<lparr>fc_present := bm, fc_dirty := bm,
                             fc_dirty_gen := replicate (fc_num_pages s) 0\<rparr>) of
        (Inl e, s1) \<Rightarrow> (Inl e, s1)
      | (Inr _, s1) \<Rightarrow> (case b_delete B (fc_inner s1) of (r, i') \<Rightarrow> (r, s1\<lparr>fc_inner := i'\<rparr>)))"

definition fc_size :: "'s fcache \<Rightarrow> nat res \<times> 's fcache" where
  "fc_size s = (Inr (fc_dev_size s), s)"

definition fc_etag :: "'s backend \<Rightarrow> 's fcache \<Rightarrow> (string option) res \<times> 's fcache" where
  "fc_etag B s = (case b_etag B (fc_inner s) of (r, i') \<Rightarrow> (r, s\<lparr>fc_inner := i'\<rparr>))"

definition fcache_backend :: "fc_env \<Rightarrow> 's backend \<Rightarrow> 's fcache backend" where
  "fcache_backend E B =
     \<lparr>b_create = fc_create E B, b_read = fc_read E B, b_write = fc_write E B, b_clear = fc_clear E B,
      b_prefetch = fc_prefetch E B, b_data_ranges = fc_data_ranges B, b_flush = fc_flush E B,
      b_delete = fc_delete E B, b_size = fc_size, b_etag = fc_etag B\<rparr>"

end
