(* ===== verification/File_Cache_Refines.thy ===== *)
theory File_Cache_Refines
  imports File_Cache Mem_Backend
begin

text \<open>
  The disk cache without page sharing implements the trait's contract over any layer that does.
  The device a client sees, \<open>fc_view\<close>, takes the bytes of the present pages from the cache file
  and the others from below. The invariant \<open>fc_inv\<close> says that clean pages agree with the layer
  below and that only clean pages can be evicted. Eviction for the byte budget, hole punching that
  succeeds or fails, and failures of the layer below never change the view.
\<close>

unbundle bit_operations_syntax

section \<open>Bitmaps\<close>

lemma bit_get_bit: "bit_get bm i \<longleftrightarrow> i div 8 < length bm \<and> bit (bm ! (i div 8)) (i mod 8)"
proof -
  have "(w AND push_bit n 1 \<noteq> 0) = bit w n" if "n < 8" for w :: "8 word" and n
    using that by (metis and_exp_eq_0_iff_not_bit push_bit_eq_mult mult_1)
  then show ?thesis by (simp add: bit_get_def Let_def)
qed

lemma length_bit_set [simp]: "length (bit_set bm i v) = length bm"
  by (simp add: bit_set_def Let_def)

lemma bit_get_set:
  assumes "i div 8 < length bm"
  shows "bit_get (bit_set bm i v) k = (if k = i then v else bit_get bm k)"
proof (cases "k div 8 = i div 8")
  case False
  then show ?thesis by (auto simp: bit_get_bit bit_set_def Let_def nth_list_update)
next
  case True
  have b: "i mod 8 < 8" "k mod 8 < 8" by simp_all
  have "k = i \<longleftrightarrow> k mod 8 = i mod 8" using True by (metis div_mult_mod_eq)
  with True assms b show ?thesis
    by (auto simp: bit_get_bit bit_set_def Let_def bit_or_iff bit_and_iff bit_not_iff
        bit_push_bit_iff bit_1_iff bit_exp_iff possible_bit_word)
qed

lemma bitmap_index: "i < n \<Longrightarrow> i div 8 < bitmap_bytes n"
proof -
  assume "i < n"
  then have "i div 8 * 8 < n" by (meson div_times_less_eq_dividend le_less_trans)
  then show ?thesis by (simp add: bitmap_bytes_def div_ceil_le_iff)
qed

lemma bit_get_zeros [simp]: "\<not> bit_get (zeros n) i"
  by (simp add: bit_get_bit)

section \<open>Abstraction and invariant\<close>

definition fc_view :: "('s \<Rightarrow> bytes) \<Rightarrow> 's fcache \<Rightarrow> bytes" where
  "fc_view content s =
     map (\<lambda>j. if bit_get (fc_present s) (j div fc_page_size s) then df_cur (fc_data s) ! j
              else content (fc_inner s) ! j) [0 ..< length (content (fc_inner s))]"

text \<open>The shape of the state: sizes, bitmaps, and what the recency index may hold.\<close>

definition fc_shape :: "nat \<Rightarrow> 's fcache \<Rightarrow> bool" where
  "fc_shape n s \<longleftrightarrow>
     0 < n \<and> fc_index s = None \<and> 0 < fc_page_size s \<and> 512 dvd fc_page_size s \<and> fc_dev_size s = n \<and>
     fc_num_pages s = div_ceil n (fc_page_size s) \<and>
     length (fc_present s) = bitmap_bytes (fc_num_pages s) \<and>
     length (fc_dirty s) = bitmap_bytes (fc_num_pages s) \<and>
     length (fc_dirty_gen s) = fc_num_pages s \<and> length (df_cur (fc_data s)) = n \<and>
     lru_inv (fc_lru s) \<and>
     (fc_budget s \<noteq> None \<longrightarrow>
        (\<forall>i \<in> evictable_pages (fc_lru s). i < fc_num_pages s \<and> \<not> bit_get (fc_dirty s) i))"

definition clean_match :: "bytes \<Rightarrow> 's fcache \<Rightarrow> bool" where
  "clean_match C s \<longleftrightarrow>
     (\<forall>j < length C. bit_get (fc_present s) (j div fc_page_size s) \<longrightarrow>
        \<not> bit_get (fc_dirty s) (j div fc_page_size s) \<longrightarrow> df_cur (fc_data s) ! j = C ! j)"

definition dirty_present :: "'s fcache \<Rightarrow> bool" where
  "dirty_present s \<longleftrightarrow> (\<forall>i < fc_num_pages s. bit_get (fc_dirty s) i \<longrightarrow> bit_get (fc_present s) i)"

text \<open>
  What the local files hold: the metadata file describes the state, and its synced version has the
  same dirty bitmap and marks the dirty pages present; the bytes of the dirty pages are synced.
\<close>

definition meta_ok :: "nat \<Rightarrow> nat \<Rightarrow> nat \<Rightarrow> bytes \<Rightarrow> bytes \<Rightarrow> bytes \<Rightarrow> bool" where
  "meta_ok ps dev np present dirty m \<longleftrightarrow>
     HEADER_SIZE + 2 * bitmap_bytes np \<le> length m \<and> segment 0 8 m = MAGIC \<and>
     le_val (segment 8 4 m) = VERSION \<and> le_val (segment 16 8 m) = ps \<and> le_val (segment 24 8 m) = dev \<and>
     segment HEADER_SIZE (bitmap_bytes np) m = present \<and>
     segment (HEADER_SIZE + bitmap_bytes np) (bitmap_bytes np) m = dirty"

definition local_files :: "nat \<Rightarrow> nat \<Rightarrow> nat \<Rightarrow> bytes \<Rightarrow> bytes \<Rightarrow> disk_file \<Rightarrow> disk_file \<Rightarrow> bool" where
  "local_files ps dev np present dirty data meta \<longleftrightarrow>
     meta_ok ps dev np present dirty (df_cur meta) \<and>
     length (df_synced meta) = length (df_cur meta) \<and>
     (\<exists>P. meta_ok ps dev np P dirty (df_synced meta) \<and> (\<forall>i < np. bit_get dirty i \<longrightarrow> bit_get P i)) \<and>
     length (df_synced data) = length (df_cur data) \<and>
     (\<forall>j < length (df_cur data). bit_get dirty (j div ps) \<longrightarrow> df_synced data ! j = df_cur data ! j)"

definition fc_local :: "'s fcache \<Rightarrow> bool" where
  "fc_local s \<longleftrightarrow>
     local_files (fc_page_size s) (fc_dev_size s) (fc_num_pages s) (fc_present s) (fc_dirty s) (fc_data s) (fc_meta s)"

definition fc_inv :: "('s \<Rightarrow> bytes) \<Rightarrow> ('s \<Rightarrow> bool) \<Rightarrow> 's fcache \<Rightarrow> bool" where
  "fc_inv content binv s \<longleftrightarrow>
     binv (fc_inner s) \<and> fc_shape (length (content (fc_inner s))) s \<and>
     clean_match (content (fc_inner s)) s \<and> dirty_present s \<and> fc_local s"

text \<open>
  An internal step that a client does not see: the view, the dirty bits and the sizes stay.
\<close>

definition fc_keeps :: "('s \<Rightarrow> bytes) \<Rightarrow> ('s \<Rightarrow> bool) \<Rightarrow> 's fcache \<Rightarrow> 's fcache \<Rightarrow> bool" where
  "fc_keeps content binv s s' \<longleftrightarrow>
     fc_inv content binv s' \<and> fc_view content s' = fc_view content s \<and>
     fc_page_size s' = fc_page_size s \<and> fc_dev_size s' = fc_dev_size s \<and>
     fc_dirty s' = fc_dirty s \<and> fc_budget s' = fc_budget s \<and>
     length (content (fc_inner s')) = length (content (fc_inner s))"

lemma fc_keeps_refl: "fc_inv content binv s \<Longrightarrow> fc_keeps content binv s s"
  by (simp add: fc_keeps_def)

lemma fc_keeps_trans:
  "fc_keeps content binv s s' \<Longrightarrow> fc_keeps content binv s' s'' \<Longrightarrow> fc_keeps content binv s s''"
  by (simp add: fc_keeps_def)

lemma length_fc_view [simp]: "length (fc_view content s) = length (content (fc_inner s))"
  by (simp add: fc_view_def)

lemma nth_fc_view:
  "j < length (content (fc_inner s)) \<Longrightarrow> fc_view content s ! j =
     (if bit_get (fc_present s) (j div fc_page_size s) then df_cur (fc_data s) ! j
      else content (fc_inner s) ! j)"
  by (simp add: fc_view_def nth_upt)

lemma page_in_range:
  assumes "j < n" and "0 < ps"
  shows "j div ps < div_ceil n ps"
  using assms div_ceil_le_iff [OF assms(2), of "j div ps" n]
  by (meson div_times_less_eq_dividend le_less_trans)

lemma page_start: "0 < ps \<Longrightarrow> i < div_ceil n ps \<Longrightarrow> i * ps < n"
  by (simp add: div_ceil_le_iff)

lemma in_page_iff:
  fixes j :: nat
  assumes "0 < ps"
  shows "j div ps = i \<longleftrightarrow> i * ps \<le> j \<and> j < i * ps + ps"
proof
  assume "j div ps = i"
  then have "j = i * ps + j mod ps" by (metis div_mult_mod_eq)
  with mod_less_divisor [OF assms, of j] show "i * ps \<le> j \<and> j < i * ps + ps" by linarith
next
  assume "i * ps \<le> j \<and> j < i * ps + ps"
  then show "j div ps = i" by (intro div_nat_eqI) (simp_all add: mult.commute)
qed

text \<open>
  The frame of an unseen step, byte by byte: every byte of the view is kept, and every clean
  present byte still agrees with the unchanged layer below.
\<close>

lemma fc_keepsI:
  assumes inv: "fc_inv content binv s" and shape: "fc_shape (length (content (fc_inner s))) s'"
    and same: "fc_inner s' = fc_inner s" "fc_page_size s' = fc_page_size s" "fc_dirty s' = fc_dirty s"
      "fc_budget s' = fc_budget s"
    and dp: "dirty_present s'" and loc: "fc_local s'"
    and byte: "\<And>j. j < length (content (fc_inner s)) \<Longrightarrow>
      (if bit_get (fc_present s') (j div fc_page_size s) then df_cur (fc_data s') ! j
       else content (fc_inner s) ! j) = fc_view content s ! j"
  shows "fc_keeps content binv s s'"
proof -
  define C where "C = content (fc_inner s)"
  define ps where "ps = fc_page_size s"
  have "fc_view content s' = fc_view content s"
  proof (rule nth_equalityI)
    fix j assume "j < length (fc_view content s')"
    then have j: "j < length (content (fc_inner s))" by (simp add: same)
    then have "fc_view content s' ! j = (if bit_get (fc_present s') (j div fc_page_size s)
        then df_cur (fc_data s') ! j else content (fc_inner s) ! j)"
      using nth_fc_view [of j content s'] same by simp
    with byte [OF j] show "fc_view content s' ! j = fc_view content s ! j" by simp
  qed (simp add: same)
  moreover have "clean_match C s'"
    unfolding clean_match_def
  proof (intro allI impI)
    fix j assume j: "j < length C" "bit_get (fc_present s') (j div fc_page_size s')"
      "\<not> bit_get (fc_dirty s') (j div fc_page_size s')"
    then have "df_cur (fc_data s') ! j = fc_view content s ! j"
      using byte [of j] same by (simp add: C_def)
    also have "\<dots> = C ! j"
      using inv j same by (simp add: nth_fc_view C_def fc_inv_def clean_match_def)
    finally show "df_cur (fc_data s') ! j = C ! j" .
  qed
  moreover have "fc_dev_size s' = fc_dev_size s"
    using inv shape by (simp add: fc_inv_def fc_shape_def)
  moreover have "binv (fc_inner s)" using inv by (simp add: fc_inv_def)
  ultimately show ?thesis
    unfolding fc_keeps_def fc_inv_def same using shape dp loc by (simp add: C_def)
qed

section \<open>Eviction and accounting\<close>

lemma nth_file_write:
  "off + length d \<le> length (df_cur f) \<Longrightarrow> j < length (df_cur f) \<Longrightarrow>
   df_cur (file_write off d f) ! j =
     (if off \<le> j \<and> j < off + length d then d ! (j - off) else df_cur f ! j)"
  by (simp add: file_write_def nth_overwrite)

lemma length_file_write [simp]:
  "off + length d \<le> length (df_cur f) \<Longrightarrow> length (df_cur (file_write off d f)) = length (df_cur f)"
  by (simp add: file_write_def length_overwrite)

lemma page_len_bounds:
  assumes "fc_shape n s" and "i < fc_num_pages s"
  shows "0 < page_len s i" "i * fc_page_size s + page_len s i \<le> n" "page_len s i \<le> fc_page_size s"
    "\<And>j. j < n \<Longrightarrow> j div fc_page_size s = i \<longleftrightarrow>
       i * fc_page_size s \<le> j \<and> j < i * fc_page_size s + page_len s i"
proof -
  have ps: "0 < fc_page_size s" "fc_dev_size s = n" "i * fc_page_size s < n"
    using assms page_start [of "fc_page_size s" i n] by (auto simp: fc_shape_def)
  then show "0 < page_len s i" "i * fc_page_size s + page_len s i \<le> n" "page_len s i \<le> fc_page_size s"
    by (auto simp: page_len_def)
  fix j assume "j < n"
  then show "j div fc_page_size s = i \<longleftrightarrow>
      i * fc_page_size s \<le> j \<and> j < i * fc_page_size s + page_len s i"
    using ps in_page_iff [OF ps(1), of j i] by (auto simp: page_len_def)
qed

lemma fc_shape_bits:
  "fc_shape n s \<Longrightarrow> i < fc_num_pages s \<Longrightarrow> i div 8 < length (fc_present s) \<and> i div 8 < length (fc_dirty s)"
  by (simp add: fc_shape_def bitmap_index)

lemma fc_shape_evictable:
  "fc_shape n s \<Longrightarrow> fc_budget s \<noteq> None \<Longrightarrow> k \<in> evictable_pages (fc_lru s) \<Longrightarrow> k < fc_num_pages s \<and> \<not> bit_get (fc_dirty s) k"
  unfolding fc_shape_def by blast

section \<open>The local files\<close>

lemma segment_overwrite_byte:
  assumes "off + n \<le> length m" and "k < n"
  shows "segment off n (overwrite (off + k) [b] m) = (segment off n m)[k := b]"
  by (rule nth_equalityI) (use assms in \<open>auto simp: buf_simps nth_list_update\<close>)

lemma bit_set_same: "i div 8 < length bm \<Longrightarrow> bit_set bm i (bit_get bm i) = bm"
proof -
  assume i: "i div 8 < length bm"
  have "(if bit w k then w OR push_bit k 1 else w AND NOT (push_bit k 1)) = w" for w :: "8 word" and k
    by (rule bit_eqI) (auto simp: bit_or_iff bit_and_iff bit_not_iff bit_push_bit_iff bit_1_iff bit_exp_iff
        possible_bit_word)
  with i show ?thesis by (simp add: bit_set_def bit_get_bit Let_def)
qed

lemma bit_set_byte:
  "i div 8 < length bm \<Longrightarrow> bit_set bm i v = bm[i div 8 := bit_set bm i v ! (i div 8)]"
  by (simp add: bit_set_def Let_def)

lemma meta_ok_present:
  assumes "meta_ok ps dev np p d m" and "k < bitmap_bytes np"
  shows "meta_ok ps dev np (p[k := b]) d (overwrite (HEADER_SIZE + k) [b] m)"
  using assms segment_overwrite_byte [of HEADER_SIZE "bitmap_bytes np" m k b]
  unfolding meta_ok_def by (simp add: length_overwrite segment_overwrite_disjoint HEADER_SIZE_def)

lemma meta_ok_dirty:
  assumes "meta_ok ps dev np p d m" and "k < bitmap_bytes np"
  shows "meta_ok ps dev np p (d[k := b]) (overwrite (HEADER_SIZE + bitmap_bytes np + k) [b] m)"
  using assms segment_overwrite_byte [of "HEADER_SIZE + bitmap_bytes np" "bitmap_bytes np" m k b]
  unfolding meta_ok_def by (simp add: length_overwrite segment_overwrite_disjoint HEADER_SIZE_def)

lemma meta_ok_length: "meta_ok ps dev np p d m \<Longrightarrow> HEADER_SIZE + 2 * bitmap_bytes np \<le> length m"
  by (simp add: meta_ok_def)

text \<open>A metadata file just written describes what was written, and is synced.\<close>

lemma length_meta_header [simp]: "length (meta_header ps dev np) = HEADER_SIZE"
  by (simp add: meta_header_def HEADER_SIZE_def MAGIC_def length_overwrite)

lemma segment_prefix:
  "a + n \<le> length h \<Longrightarrow> length h \<le> length m \<Longrightarrow> segment a n (overwrite 0 h m) = segment a n h"
  by (rule nth_equalityI) (auto simp: buf_simps)

lemma meta_header_fields:
  assumes "ps < u64_limit" and "dev < u64_limit"
  shows "segment 0 8 (meta_header ps dev np) = MAGIC" "le_val (segment 8 4 (meta_header ps dev np)) = VERSION"
    "le_val (segment 16 8 (meta_header ps dev np)) = ps" "le_val (segment 24 8 (meta_header ps dev np)) = dev"
proof -
  have same: "segment a (length d) (overwrite a d m) = d" if "a + length d \<le> length m" for a d and m :: bytes
    using that by (rule segment_overwrite_same)
  note s4 = same [of _ "le_bytes 4 _", simplified] and s8 = same [of _ "le_bytes 8 _", simplified]
  have lM: "length MAGIC = 8" by (simp add: MAGIC_def)
  note sM = same [of 0 MAGIC, unfolded lM]
  show "segment 0 8 (meta_header ps dev np) = MAGIC" "le_val (segment 8 4 (meta_header ps dev np)) = VERSION"
    "le_val (segment 16 8 (meta_header ps dev np)) = ps" "le_val (segment 24 8 (meta_header ps dev np)) = dev"
    using assms
    by (simp_all add: meta_header_def segment_overwrite_disjoint length_overwrite HEADER_SIZE_def s4 s8 sM
        lM
        le_val_bytes VERSION_def u64_limit_def)
qed

lemma write_full_meta_ok:
  assumes "length p = bitmap_bytes np" and "length d = bitmap_bytes np" and "ps < u64_limit" and "dev < u64_limit"
  shows "meta_ok ps dev np p d (df_cur (write_full_meta ps dev np p d meta))"
    "df_synced (write_full_meta ps dev np p d meta) = df_cur (write_full_meta ps dev np p d meta)"
proof -
  define m where "m = resize (HEADER_SIZE + 2 * bitmap_bytes np) (df_cur meta)"
  have lm: "length m = HEADER_SIZE + 2 * bitmap_bytes np" by (simp add: m_def resize_def)
  have cur: "df_cur (write_full_meta ps dev np p d meta) = overwrite (HEADER_SIZE + length p) d
      (overwrite HEADER_SIZE p (overwrite 0 (meta_header ps dev np) m))"
    using assms by (simp add: write_full_meta_def Let_def file_sync_def file_write_def file_set_len_def m_def mult_2 add.assoc)
  show "meta_ok ps dev np p d (df_cur (write_full_meta ps dev np p d meta))"
    using assms lm meta_header_fields [OF assms(3,4), of np]
      segment_overwrite_same [of HEADER_SIZE p "overwrite 0 (meta_header ps dev np) m"]
      segment_overwrite_same [of "HEADER_SIZE + length p" d "overwrite HEADER_SIZE p (overwrite 0 (meta_header ps dev np) m)"]
    unfolding meta_ok_def cur
    by (simp add: length_overwrite segment_overwrite_disjoint segment_prefix HEADER_SIZE_def)
qed (simp add: write_full_meta_def Let_def file_sync_def)

text \<open>A write to a clean page and the new present bit.\<close>

lemma local_clean_write:
  assumes loc: "fc_local s" and sh: "fc_shape n s" and i: "i < fc_num_pages s" "\<not> bit_get (fc_dirty s) i"
    and d: "length d = page_len s i"
    and s': "s' = write_present_byte i (set_present i v (s\<lparr>fc_data := file_write (i * fc_page_size s) d (fc_data s)\<rparr>))"
  shows "fc_local s'"
proof -
  note pl = page_len_bounds [OF sh i(1)]
  have k: "i div 8 < bitmap_bytes (fc_num_pages s)" using i(1) by (rule bitmap_index)
  have lenD: "length (df_cur (fc_data s)) = n" and lenP: "length (fc_present s) = bitmap_bytes (fc_num_pages s)"
    using sh by (simp_all add: fc_shape_def)
  have m: "meta_ok (fc_page_size s) (fc_dev_size s) (fc_num_pages s) (fc_present s) (fc_dirty s) (df_cur (fc_meta s))"
    using loc by (simp add: fc_local_def local_files_def)
  have "meta_ok (fc_page_size s) (fc_dev_size s) (fc_num_pages s) (bit_set (fc_present s) i v) (fc_dirty s)
      (overwrite (HEADER_SIZE + i div 8) [bit_set (fc_present s) i v ! (i div 8)] (df_cur (fc_meta s)))"
    using meta_ok_present [OF m k] bit_set_byte [of i "fc_present s" v] k lenP by metis
  moreover have "HEADER_SIZE + i div 8 + length [bit_set (fc_present s) i v ! (i div 8)] \<le> length (df_cur (fc_meta s))"
    using meta_ok_length [OF m] k by simp
  moreover have "j div fc_page_size s \<noteq> i" if "bit_get (fc_dirty s) (j div fc_page_size s)" for j using that i(2) by auto
  then have "df_cur (file_write (i * fc_page_size s) d (fc_data s)) ! j = df_cur (fc_data s) ! j"
    if "j < n" "bit_get (fc_dirty s) (j div fc_page_size s)" for j
    using that pl(2) pl(4) [OF that(1)] d lenD by (subst nth_file_write) auto
  ultimately show ?thesis
    using loc lenD pl(2) d
    by (simp add: fc_local_def local_files_def s' write_present_byte_def set_present_def file_write_def length_overwrite)
qed

text \<open>Persisting both bits of a page syncs the metadata.\<close>

lemma local_persist:
  assumes loc: "fc_local s" and sh: "fc_shape n s" and i: "i < fc_num_pages s"
    and s': "s' = persist_meta_bit i (s\<lparr>fc_data := f, fc_present := bit_set (fc_present s) i v,
      fc_dirty := bit_set (fc_dirty s) i w, fc_dirty_gen := g\<rparr>)"
    and f: "length (df_cur f) = n" "length (df_synced f) = n"
      "\<And>j. j < n \<Longrightarrow> bit_get (bit_set (fc_dirty s) i w) (j div fc_page_size s) \<Longrightarrow> df_synced f ! j = df_cur f ! j"
    and dp: "\<And>k. k < fc_num_pages s \<Longrightarrow> bit_get (bit_set (fc_dirty s) i w) k \<Longrightarrow> bit_get (bit_set (fc_present s) i v) k"
  shows "fc_local s'"
proof -
  have k: "i div 8 < bitmap_bytes (fc_num_pages s)" using i(1) by (rule bitmap_index)
  have len: "length (fc_present s) = bitmap_bytes (fc_num_pages s)" "length (fc_dirty s) = bitmap_bytes (fc_num_pages s)"
    using sh by (simp_all add: fc_shape_def)
  have m: "meta_ok (fc_page_size s) (fc_dev_size s) (fc_num_pages s) (fc_present s) (fc_dirty s) (df_cur (fc_meta s))"
    using loc by (simp add: fc_local_def local_files_def)
  have "meta_ok (fc_page_size s) (fc_dev_size s) (fc_num_pages s) (bit_set (fc_present s) i v) (fc_dirty s)
      (overwrite (HEADER_SIZE + i div 8) [bit_set (fc_present s) i v ! (i div 8)] (df_cur (fc_meta s)))"
    using meta_ok_present [OF m k] bit_set_byte [of i "fc_present s" v] k len by metis
  from meta_ok_dirty [OF this k, of "bit_set (fc_dirty s) i w ! (i div 8)"]
  have "meta_ok (fc_page_size s) (fc_dev_size s) (fc_num_pages s) (bit_set (fc_present s) i v) (bit_set (fc_dirty s) i w)
      (df_cur (fc_meta s'))"
    using bit_set_byte [of i "fc_dirty s" w] k len
    by (simp add: s' persist_meta_bit_def Let_def file_sync_def file_write_def)
  with f dp show ?thesis
    by (auto simp: fc_local_def local_files_def s' persist_meta_bit_def Let_def file_sync_def)
qed

text \<open>The fields that the accounting of the shared files touches do not matter.\<close>

lemma fc_keeps_accounting:
  assumes "fc_inv content binv s" and "lru_inv l"
    and "\<And>i. fc_budget s \<noteq> None \<Longrightarrow> i \<in> evictable_pages l \<Longrightarrow>
      i < fc_num_pages s \<and> \<not> bit_get (fc_dirty s) i"
  shows "fc_keeps content binv s (s\<lparr>fc_lru := l, fc_resident_bytes := n, fc_budget_file := f,
    fc_punch_outcomes := ps\<rparr>)"
proof (rule fc_keepsI [OF assms(1)])
  show "fc_shape (length (content (fc_inner s))) (s\<lparr>fc_lru := l, fc_resident_bytes := n,
      fc_budget_file := f, fc_punch_outcomes := ps\<rparr>)"
    using assms by (simp add: fc_inv_def fc_shape_def)
  show "fc_local (s\<lparr>fc_lru := l, fc_resident_bytes := n, fc_budget_file := f, fc_punch_outcomes := ps\<rparr>)"
    using assms(1) by (simp add: fc_inv_def fc_local_def local_files_def)
qed (use assms(1) in \<open>simp_all add: nth_fc_view fc_inv_def dirty_present_def\<close>)

lemma pop_evictable:
  assumes "fc_inv content binv s" and "pop_lru (fc_lru s) protect = (Some i, l')" and "fc_budget s \<noteq> None"
  shows "i < fc_num_pages s" "\<not> bit_get (fc_dirty s) i" "Some i \<noteq> protect"
    "fc_keeps content binv s (s\<lparr>fc_lru := l'\<rparr>)"
proof -
  have sh: "fc_shape (length (content (fc_inner s))) s" using assms(1) by (simp add: fc_inv_def)
  then have inv: "lru_inv (fc_lru s)" by (simp add: fc_shape_def)
  from pop_lru_Some [OF inv assms(2)] fc_shape_evictable [OF sh assms(3)]
  show "i < fc_num_pages s" "\<not> bit_get (fc_dirty s) i" "Some i \<noteq> protect"
    by blast+
  have ev: "k < fc_num_pages s \<and> \<not> bit_get (fc_dirty s) k" if "k \<in> evictable_pages l'" for k
    using pop_lru_evictable [OF inv assms(2)] that fc_shape_evictable [OF sh assms(3)] by blast
  show "fc_keeps content binv s (s\<lparr>fc_lru := l'\<rparr>)"
    using fc_keeps_accounting [OF assms(1) pop_lru_inv [OF inv assms(2)] ev, where n = "fc_resident_bytes s"
        and f = "fc_budget_file s" and ps = "fc_punch_outcomes s"] by simp
qed

text \<open>Dropping a clean page: its bytes come from below again.\<close>

lemma drop_page_keeps:
  assumes inv: "fc_inv content binv s" and i: "i < fc_num_pages s" "\<not> bit_get (fc_dirty s) i"
    and s': "s' = write_present_byte i (set_present i False
      (s\<lparr>fc_data := file_write (i * fc_page_size s) (zeros (page_len s i)) (fc_data s)\<rparr>))"
  shows "fc_keeps content binv s s' \<and> (\<forall>k. k \<noteq> i \<longrightarrow> bit_get (fc_present s') k = bit_get (fc_present s) k)"
proof -
  define C where "C = content (fc_inner s)"
  define ps where "ps = fc_page_size s"
  have sh: "fc_shape (length C) s" and cm: "clean_match C s" and dp: "dirty_present s"
    using inv by (simp_all add: fc_inv_def C_def)
  note pl = page_len_bounds [OF sh i(1)]
  have lenD: "length (df_cur (fc_data s)) = length C" using sh by (simp add: fc_shape_def)
  have bits: "bit_get (fc_present s') k = (k \<noteq> i \<and> bit_get (fc_present s) k)" for k
    using fc_shape_bits [OF sh i(1)]
    by (simp add: s' write_present_byte_def set_present_def bit_get_set)
  have data: "df_cur (fc_data s') ! j = df_cur (fc_data s) ! j" if "j < length C" "j div ps \<noteq> i" for j
    using that pl(2) pl(4) [of j] lenD
    by (auto simp: s' write_present_byte_def set_present_def nth_file_write ps_def)
  have "fc_keeps content binv s s'"
  proof (rule fc_keepsI [OF inv])
    show "fc_shape (length (content (fc_inner s))) s'"
      using sh pl(2) lenD
      by (auto simp: s' write_present_byte_def set_present_def fc_shape_def C_def)
    show "fc_local s'" using inv by (intro local_clean_write [OF _ sh i _ s']) (simp_all add: fc_inv_def)
    show "dirty_present s'"
      using dp i(2) bits by (auto simp: dirty_present_def s' write_present_byte_def set_present_def)
    fix j assume j: "j < length (content (fc_inner s))"
    show "(if bit_get (fc_present s') (j div fc_page_size s) then df_cur (fc_data s') ! j
        else content (fc_inner s) ! j) = fc_view content s ! j"
      using j i(2) cm bits data [of j]
      by (cases "j div fc_page_size s = i") (auto simp: nth_fc_view clean_match_def C_def ps_def)
  qed (simp_all add: s' write_present_byte_def set_present_def)
  with bits show ?thesis by simp
qed

lemma touch_keeps:
  assumes inv: "fc_inv content binv s" and i: "i < fc_num_pages s" "clean \<Longrightarrow> \<not> bit_get (fc_dirty s) i"
  shows "fc_keeps content binv s (s\<lparr>fc_lru := touch (fc_lru s) i clean, fc_resident_bytes := n,
    fc_budget_file := f, fc_punch_outcomes := ps\<rparr>)"
proof -
  have sh: "fc_shape (length (content (fc_inner s))) s" using inv by (simp add: fc_inv_def)
  then have l: "lru_inv (fc_lru s)" by (simp add: fc_shape_def)
  have "k < fc_num_pages s \<and> \<not> bit_get (fc_dirty s) k"
    if "fc_budget s \<noteq> None" "k \<in> evictable_pages (touch (fc_lru s) i clean)" for k
    using that(2) i fc_shape_evictable [OF sh that(1)] by (auto simp: touch_evictable [OF l] split: if_splits)
  from fc_keeps_accounting [OF inv touch_inv [OF l] this] show ?thesis .
qed

lemma accounting_keeps:
  assumes "fc_inv content binv s"
  shows "fc_keeps content binv s (s\<lparr>fc_resident_bytes := n, fc_budget_file := f, fc_punch_outcomes := ps\<rparr>)"
proof -
  have sh: "fc_shape (length (content (fc_inner s))) s" using assms by (simp add: fc_inv_def)
  then have "lru_inv (fc_lru s)" by (simp add: fc_shape_def)
  from fc_keeps_accounting [OF assms this fc_shape_evictable [OF sh], where n = n and f = f and ps = ps]
  show ?thesis by simp
qed

lemma evict_one_keeps:
  assumes inv: "fc_inv content binv s" and i: "i < fc_num_pages s" "\<not> bit_get (fc_dirty s) i"
    and r: "evict_one E cb i s = (r, s')"
  shows "fc_keeps content binv s s' \<and> (\<forall>k. k \<noteq> i \<longrightarrow> bit_get (fc_present s') k = bit_get (fc_present s) k)"
proof -
  have sh: "fc_shape (length (content (fc_inner s))) s" and idx: "fc_index s = None"
    using inv by (auto simp: fc_inv_def fc_shape_def)
  have len: "0 < page_len s i" using page_len_bounds(1) [OF sh i(1)] .
  define s0 where "s0 = s\<lparr>fc_punch_outcomes := tl (fc_punch_outcomes s)\<rparr>"
  have k0: "fc_keeps content binv s s0"
    using accounting_keeps [OF inv, where n = "fc_resident_bytes s" and f = "fc_budget_file s"]
    by (simp add: s0_def)
  then have inv0: "fc_inv content binv s0" by (simp add: fc_keeps_def)
  have i0: "i < fc_num_pages s0" "\<not> bit_get (fc_dirty s0) i" using i by (simp_all add: s0_def)
  show ?thesis
  proof (cases "punch_ok s")
    case False
    then have "s' = s0\<lparr>fc_lru := touch (fc_lru s0) i True\<rparr>"
      using r len idx by (auto simp: evict_one_def fc_unpublish_def fc_publish_def punch_hole_def s0_def Let_def)
    moreover have "fc_keeps content binv s0 (s0\<lparr>fc_lru := touch (fc_lru s0) i True\<rparr>)"
      using touch_keeps [OF inv0, where i = i and clean = True and n = "fc_resident_bytes s0"
        and f = "fc_budget_file s0" and ps = "fc_punch_outcomes s0"] i0 by simp
    ultimately show ?thesis using fc_keeps_trans [OF k0] by (simp add: s0_def)
  next
    case True
    define s1 where "s1 = write_present_byte i (set_present i False
      (s0\<lparr>fc_data := file_write (i * fc_page_size s0) (zeros (page_len s0 i)) (fc_data s0)\<rparr>))"
    have d: "fc_keeps content binv s0 s1" "\<forall>k. k \<noteq> i \<longrightarrow> bit_get (fc_present s1) k = bit_get (fc_present s0) k"
      using drop_page_keeps [OF inv0 _ _ s1_def] i by (simp_all add: s0_def)
    then have inv1: "fc_inv content binv s1" by (simp add: fc_keeps_def)
    obtain n f where s': "s' = s1\<lparr>fc_resident_bytes := n, fc_budget_file := f\<rparr>"
      using r len idx True
      by (auto simp: evict_one_def fc_unpublish_def punch_hole_def s0_def s1_def page_len_def Let_def
          split: prod.splits sum.splits)
    have "fc_keeps content binv s1 s'"
      using accounting_keeps [OF inv1, where n = n and f = f and ps = "fc_punch_outcomes s1"] by (simp add: s')
    with d fc_keeps_trans k0 show ?thesis by (simp add: s' s0_def) blast
  qed
qed

lemma evict_pages_keeps:
  assumes "fc_inv content binv s" and "evict_pages E cb over protect s = (r, s')" and "fc_budget s \<noteq> None"
  shows "fc_keeps content binv s s' \<and> (\<forall>k. Some k = protect \<longrightarrow> bit_get (fc_present s') k = bit_get (fc_present s) k)"
  using assms
proof (induction E cb over protect s arbitrary: s' rule: evict_pages.induct)
  case (1 E cb over protect s)
  show ?case
  proof (cases "over = 0")
    case True
    with 1 show ?thesis by (simp add: evict_pages.simps fc_keeps_refl)
  next
    case False
    obtain v l' where pop: "pop_lru (fc_lru s) protect = (v, l')" by fastforce
    show ?thesis
    proof (cases v)
      case None
      have "lru_inv (fc_lru s)" using 1 by (simp add: fc_inv_def fc_shape_def)
      with pop None have "l' = fc_lru s" using pop_lru_None by blast
      with 1 False pop None show ?thesis by (simp add: evict_pages.simps fc_keeps_refl)
    next
      case (Some i)
      define s0 where "s0 = s\<lparr>fc_lru := l'\<rparr>"
      note pe = pop_evictable [OF "1.prems"(1) pop [unfolded Some] "1.prems"(3), folded s0_def]
      then have inv0: "fc_inv content binv s0" by (simp add: fc_keeps_def)
      obtain q s1 where e: "evict_one E cb i s0 = (q, s1)" by fastforce
      have eo: "fc_keeps content binv s0 s1"
        "\<forall>k. k \<noteq> i \<longrightarrow> bit_get (fc_present s1) k = bit_get (fc_present s0) k"
        using evict_one_keeps [OF inv0 _ _ e] pe by (simp_all add: s0_def)
      have first: "fc_keeps content binv s s1 \<and>
          (\<forall>k. Some k = protect \<longrightarrow> bit_get (fc_present s1) k = bit_get (fc_present s) k)"
        using fc_keeps_trans [OF pe(4) eo(1)] eo(2) pe(3) by (auto simp: s0_def)
      show ?thesis
      proof (cases "\<exists>len. q = Inr (Some len)")
        case False
        then have "s' = s1" using "1.prems"(2) \<open>over \<noteq> 0\<close> pop Some e
          by (cases q) (auto simp: evict_pages.simps [of E cb over] s0_def split: option.splits)
        with first show ?thesis by simp
      next
        case True
        then obtain len where q: "q = Inr (Some len)" by blast
        have rec: "evict_pages E cb (over - len) protect s1 = (r, s')"
          using "1.prems"(2) \<open>over \<noteq> 0\<close> pop Some e q by (simp add: evict_pages.simps [of E cb over] s0_def)
        have "fc_inv content binv s1" "fc_budget s1 \<noteq> None"
          using first "1.prems"(3) by (simp_all add: fc_keeps_def)
        from "1.IH" [OF \<open>over \<noteq> 0\<close> pop [symmetric] Some e [unfolded s0_def, symmetric] q refl this(1) rec this(2)]
        show ?thesis using first fc_keeps_trans by auto
      qed
    qed
  qed
qed

text \<open>
  Accounting a page, relative to a state \<open>s0\<close> that the state with the page's recency updated
  keeps.
\<close>

lemma account_present_general:
  assumes plain: "fc_budget s = None \<or> n = 0 \<Longrightarrow> fc_keeps content binv s0 s"
    and touched: "\<And>m f. fc_budget s \<noteq> None \<Longrightarrow> n \<noteq> 0 \<Longrightarrow>
      fc_keeps content binv s0 (s\<lparr>fc_lru := touch (fc_lru s) i clean, fc_resident_bytes := m, fc_budget_file := f\<rparr>)"
    and r: "account_present E i clean n s = (r, s')"
  shows "fc_keeps content binv s0 s' \<and> bit_get (fc_present s') i = bit_get (fc_present s) i"
proof (cases "fc_budget s = None \<or> n = 0")
  case True
  with r plain show ?thesis by (auto simp: account_present_def split: option.splits)
next
  case False
  then obtain cb where cb: "fc_budget s = Some cb" and n: "n \<noteq> 0" by auto
  define s1 where "s1 = (\<lambda>m f. s\<lparr>fc_lru := touch (fc_lru s) i clean, fc_resident_bytes := m, fc_budget_file := f\<rparr>)"
  have k1: "fc_keeps content binv s0 (s1 m f)" "bit_get (fc_present (s1 m f)) i = bit_get (fc_present s) i" for m f
    using touched n cb by (simp_all add: s1_def)
  show ?thesis
  proof (cases "\<exists>m f. s' = s1 m f")
    case True
    with k1 show ?thesis by blast
  next
    case no: False
    obtain a f where a: "admit None (fe_alive E) cb n (fc_budget_file s) = (a, f)" by fastforce
    define m where "m = saturating_add (fc_resident_bytes s) n"
    have nc: "\<not> lru_contains (fc_lru s) i"
    proof
      assume "lru_contains (fc_lru s) i"
      then have "s' = s\<lparr>fc_lru := touch (fc_lru s) i clean\<rparr>"
        using r cb n by (simp add: account_present_def Let_def)
      also have "\<dots> = s1 (fc_resident_bytes s) (fc_budget_file s)" by (simp add: s1_def)
      finally show False using no by blast
    qed
    obtain over where ev: "evict_clean E over (Some i) (s1 m f) = (r, s')"
    proof (cases a)
      case (Inl e)
      then have "s' = s1 m f" using r cb n nc a by (simp add: account_present_def Let_def s1_def m_def)
      with no show thesis by blast
    next
      case (Inr over)
      then have "s' = s1 m f \<or> evict_clean E over (Some i) (s1 m f) = (r, s')"
        using r cb n nc a by (auto simp: account_present_def Let_def s1_def m_def split: if_splits)
      with no that show thesis by blast
    qed
    have inv1: "fc_inv content binv (s1 m f)" using k1(1) [of m f] by (simp add: fc_keeps_def)
    have "fc_punch_supported (s1 m f)"
      using ev cb no by (auto simp: evict_clean_def s1_def split: if_splits)
    then have "evict_pages E cb over (Some i) (s1 m f) = (r, s')"
      using ev cb by (simp add: evict_clean_def s1_def)
    moreover have "fc_budget (s1 m f) \<noteq> None" using cb by (simp add: s1_def)
    ultimately show ?thesis
      using evict_pages_keeps [OF inv1] k1 [of m f] fc_keeps_trans by blast
  qed
qed

lemma account_present_keeps:
  assumes inv: "fc_inv content binv s" and i: "i < fc_num_pages s" "clean \<Longrightarrow> \<not> bit_get (fc_dirty s) i"
    and r: "account_present E i clean n s = (r, s')"
  shows "fc_keeps content binv s s' \<and> bit_get (fc_present s') i = bit_get (fc_present s) i"
proof (rule account_present_general [OF _ _ r])
  show "fc_keeps content binv s s" using inv by (rule fc_keeps_refl)
  show "fc_keeps content binv s (s\<lparr>fc_lru := touch (fc_lru s) i clean, fc_resident_bytes := m, fc_budget_file := f\<rparr>)"
    for m f
    using touch_keeps [OF inv i, where n = m and f = f and ps = "fc_punch_outcomes s"] by simp
qed

section \<open>Loading pages\<close>

text \<open>The bytes below, copied over a page that was not present.\<close>

lemma load_page_keeps:
  assumes inv: "fc_inv content binv s" and i: "i < fc_num_pages s" "\<not> bit_get (fc_present s) i"
    and d: "d = segment (i * fc_page_size s) (page_len s i) (content (fc_inner s))"
    and s': "s' = write_present_byte i (set_present i True
      (s\<lparr>fc_data := file_write (i * fc_page_size s) d (fc_data s)\<rparr>))"
  shows "fc_keeps content binv s s' \<and> bit_get (fc_present s') i \<and> \<not> bit_get (fc_dirty s') i \<and>
    fc_num_pages s' = fc_num_pages s"
proof -
  define C where "C = content (fc_inner s)"
  have sh: "fc_shape (length C) s" and dp: "dirty_present s"
    using inv by (simp_all add: fc_inv_def C_def)
  note pl = page_len_bounds [OF sh i(1)]
  have lenD: "length (df_cur (fc_data s)) = length C" using sh by (simp add: fc_shape_def)
  have ld: "length d = page_len s i" using pl(2) by (simp add: d length_segment C_def)
  have bits: "bit_get (fc_present s') k = (k = i \<or> bit_get (fc_present s) k)" for k
    using fc_shape_bits [OF sh i(1)]
    by (auto simp: s' write_present_byte_def set_present_def bit_get_set)
  have data: "df_cur (fc_data s') ! j = (if j div fc_page_size s = i then C ! j else df_cur (fc_data s) ! j)"
    if j: "j < length C" for j
  proof -
    have "df_cur (fc_data s') ! j = (if j div fc_page_size s = i then d ! (j - i * fc_page_size s)
        else df_cur (fc_data s) ! j)"
      using j pl(2) pl(4) [of j] lenD ld
      by (simp add: s' write_present_byte_def set_present_def nth_file_write)
    moreover have "d ! (j - i * fc_page_size s) = C ! j" if "j div fc_page_size s = i"
    proof -
      have "i * fc_page_size s \<le> j" "j < i * fc_page_size s + page_len s i"
        using that j pl(4) [of j] by auto
      then have "j - i * fc_page_size s < page_len s i" "i * fc_page_size s + (j - i * fc_page_size s) = j"
        by linarith+
      with j show ?thesis by (simp add: d nth_segment C_def)
    qed
    ultimately show ?thesis by simp
  qed
  have nd: "\<not> bit_get (fc_dirty s) i" using dp i by (auto simp: dirty_present_def)
  have "fc_keeps content binv s s'"
  proof (rule fc_keepsI [OF inv])
    show "fc_shape (length (content (fc_inner s))) s'"
      using sh pl(2) lenD ld
      by (auto simp: s' write_present_byte_def set_present_def fc_shape_def C_def)
    show "fc_local s'" using inv ld by (intro local_clean_write [OF _ sh i(1) nd _ s']) (simp_all add: fc_inv_def)
    show "dirty_present s'"
      using dp bits by (auto simp: dirty_present_def s' write_present_byte_def set_present_def)
    fix j assume j: "j < length (content (fc_inner s))"
    show "(if bit_get (fc_present s') (j div fc_page_size s) then df_cur (fc_data s') ! j
        else content (fc_inner s) ! j) = fc_view content s ! j"
      using j i(2) bits data [of j] by (auto simp: nth_fc_view C_def)
  qed (simp_all add: s' write_present_byte_def set_present_def)
  with bits nd show ?thesis by (simp add: s' write_present_byte_def set_present_def)
qed

lemma zero_segment: "list_all (\<lambda>b. b = 0) d \<Longrightarrow> d = zeros (length d)"
  by (induction d) (auto simp: zeros_def)

lemma store_clean_page_keeps:
  fixes s :: "'s fcache"
  assumes inv: "fc_inv content binv s" and i: "i < fc_num_pages s" "\<not> bit_get (fc_present s) i"
    and d: "d = segment (i * fc_page_size s) (page_len s i) (content (fc_inner s))"
    and r: "store_clean_page E i d s = (r, s')"
  shows "fc_keeps content binv s s' \<and> bit_get (fc_present s') i"
proof -
  define off where "off = i * fc_page_size s"
  have sh: "fc_shape (length (content (fc_inner s))) s" using inv by (simp add: fc_inv_def)
  have ld: "length d = page_len s i"
    using page_len_bounds(2) [OF sh i(1)] by (simp add: d length_segment)
  define load :: "'s fcache \<Rightarrow> 's fcache" where "load = (\<lambda>t. write_present_byte i (set_present i True
      (t\<lparr>fc_data := file_write off d (fc_data t)\<rparr>)))"
  define t where "t = s\<lparr>fc_punch_outcomes := tl (fc_punch_outcomes s)\<rparr>"
  obtain n s0 where s0: "s0 = s \<or> s0 = t" and acc: "account_present E i True n (load s0) = (r, s')"
  proof -
    have z: "list_all (\<lambda>b. b = 0) d \<Longrightarrow> zeros (page_len s i) = d" using zero_segment [of d] ld by simp
    show thesis
    proof (cases "list_all (\<lambda>b. b = 0) d \<and> fc_punch_supported s")
      case False
      then have "account_present E i True (page_len s i) (load s) = (r, s')"
        using r by (auto simp: store_clean_page_def load_def off_def Let_def)
      with that show thesis by blast
    next
      case True
      then have "account_present E i True (if punch_ok s then 0 else page_len s i) (load t) = (r, s')"
        using r z
        by (cases "punch_ok s")
           (simp_all add: store_clean_page_def punch_hole_def load_def t_def off_def Let_def)
      with that show thesis by blast
    qed
  qed
  have k0: "fc_keeps content binv s s0" and f0: "fc_num_pages s0 = fc_num_pages s"
    "fc_present s0 = fc_present s" "fc_page_size s0 = fc_page_size s" "fc_inner s0 = fc_inner s"
    "page_len s0 i = page_len s i"
    using s0 accounting_keeps [OF inv, where n = "fc_resident_bytes s" and f = "fc_budget_file s"]
      fc_keeps_refl [OF inv] by (auto simp: t_def page_len_def)
  then have inv0: "fc_inv content binv s0" by (simp add: fc_keeps_def)
  have ld: "fc_keeps content binv s0 (load s0) \<and> bit_get (fc_present (load s0)) i \<and>
      \<not> bit_get (fc_dirty (load s0)) i \<and> fc_num_pages (load s0) = fc_num_pages s0"
    by (rule load_page_keeps [OF inv0]) (simp_all add: f0 i d off_def load_def)
  then have inv1: "fc_inv content binv (load s0)" by (simp add: fc_keeps_def)
  from account_present_keeps [OF inv1 _ _ acc] ld f0 i
  have "fc_keeps content binv (load s0) s' \<and> bit_get (fc_present s') i" by simp
  with k0 ld fc_keeps_trans show ?thesis by blast
qed

section \<open>Writing into a page\<close>

text \<open>
  A write into a page that is present, or that the write covers: the view changes by the written
  bytes and the page is dirty. \<open>dirtied\<close> is the state before the accounting.
\<close>

definition dirtied :: "nat \<Rightarrow> nat \<Rightarrow> bytes \<Rightarrow> 's fcache \<Rightarrow> 's fcache" where
  "dirtied i a d s =
     persist_meta_bit i
       (s\<lparr>fc_data := file_sync (file_write (i * fc_page_size s + a) d (fc_data s)),
          fc_present := bit_set (fc_present s) i True, fc_dirty := bit_set (fc_dirty s) i True,
          fc_dirty_gen := (fc_dirty_gen s)[i := wrapping_add (fc_dirty_gen s ! i) 1]\<rparr>)"

lemma dirtied_sel [simp]:
  "fc_inner (dirtied i a d s) = fc_inner s" "fc_page_size (dirtied i a d s) = fc_page_size s"
  "fc_dev_size (dirtied i a d s) = fc_dev_size s" "fc_num_pages (dirtied i a d s) = fc_num_pages s"
  "fc_budget (dirtied i a d s) = fc_budget s" "fc_index (dirtied i a d s) = fc_index s"
  "fc_lru (dirtied i a d s) = fc_lru s" "fc_present (dirtied i a d s) = bit_set (fc_present s) i True"
  "fc_dirty (dirtied i a d s) = bit_set (fc_dirty s) i True"
  "df_cur (fc_data (dirtied i a d s)) = overwrite (i * fc_page_size s + a) d (df_cur (fc_data s))"
  "length (fc_dirty_gen (dirtied i a d s)) = length (fc_dirty_gen s)"
  by (simp_all add: dirtied_def persist_meta_bit_def Let_def file_sync_def file_write_def)

lemma dirtied_inv:
  assumes inv: "fc_inv content binv s" and i: "i < fc_num_pages s" and a: "a + length d \<le> page_len s i"
    and full: "bit_get (fc_present s) i \<or> a = 0 \<and> length d = page_len s i"
    and lru: "lru_inv l" "fc_budget s \<noteq> None \<longrightarrow>
      (\<forall>k \<in> evictable_pages l. k < fc_num_pages s \<and> \<not> bit_get (fc_dirty s) k \<and> k \<noteq> i)"
  shows "fc_inv content binv ((dirtied i a d s)\<lparr>fc_lru := l\<rparr>) \<and>
    fc_view content ((dirtied i a d s)\<lparr>fc_lru := l\<rparr>) =
      overwrite (i * fc_page_size s + a) d (fc_view content s)"
proof -
  define C where "C = content (fc_inner s)"
  define off where "off = i * fc_page_size s + a"
  have sh: "fc_shape (length C) s" and cm: "clean_match C s" and dp: "dirty_present s" and bi: "binv (fc_inner s)"
    using inv by (simp_all add: fc_inv_def C_def)
  note pl = page_len_bounds [OF sh i] and bits = fc_shape_bits [OF sh i]
  have lenD: "length (df_cur (fc_data s)) = length C" using sh by (simp add: fc_shape_def)
  have le: "off + length d \<le> length C" using a pl(2) by (simp add: off_def)
  have other: "\<not> (off \<le> j \<and> j < off + length d)" if "j < length C" "j div fc_page_size s \<noteq> i" for j
    using that a pl(4) [of j] by (auto simp: off_def)
  have covered: "bit_get (fc_present s) i \<or> off \<le> j \<and> j < off + length d"
    if "j < length C" "j div fc_page_size s = i" for j
    using that full pl(4) [of j] by (auto simp: off_def)
  have "fc_view content ((dirtied i a d s)\<lparr>fc_lru := l\<rparr>) = overwrite off d (fc_view content s)"
  proof (rule nth_equalityI)
    show "length (fc_view content ((dirtied i a d s)\<lparr>fc_lru := l\<rparr>)) = length (overwrite off d (fc_view content s))"
      using le by (simp add: length_overwrite C_def)
    fix j assume "j < length (fc_view content ((dirtied i a d s)\<lparr>fc_lru := l\<rparr>))"
    then have j: "j < length C" by (simp add: C_def)
    then show "fc_view content ((dirtied i a d s)\<lparr>fc_lru := l\<rparr>) ! j = overwrite off d (fc_view content s) ! j"
      using le lenD bits other [OF j] covered [OF j]
      by (auto simp: nth_fc_view nth_overwrite C_def bit_get_set off_def [symmetric])
  qed
  moreover have "clean_match C ((dirtied i a d s)\<lparr>fc_lru := l\<rparr>)"
    unfolding clean_match_def
  proof (intro allI impI)
    fix j assume j: "j < length C" "bit_get (fc_present ((dirtied i a d s)\<lparr>fc_lru := l\<rparr>))
        (j div fc_page_size ((dirtied i a d s)\<lparr>fc_lru := l\<rparr>))"
      "\<not> bit_get (fc_dirty ((dirtied i a d s)\<lparr>fc_lru := l\<rparr>)) (j div fc_page_size ((dirtied i a d s)\<lparr>fc_lru := l\<rparr>))"
    then have k: "j div fc_page_size s \<noteq> i" using bits by (auto simp: bit_get_set)
    with j cm le lenD bits other [OF j(1) k]
    show "df_cur (fc_data ((dirtied i a d s)\<lparr>fc_lru := l\<rparr>)) ! j = C ! j"
      by (auto simp: clean_match_def nth_overwrite bit_get_set off_def [symmetric])
  qed
  moreover have "dirty_present ((dirtied i a d s)\<lparr>fc_lru := l\<rparr>)"
    using dp bits by (auto simp: dirty_present_def bit_get_set)
  moreover have "fc_shape (length C) ((dirtied i a d s)\<lparr>fc_lru := l\<rparr>)"
    using sh lru lenD le bits unfolding fc_shape_def
    by (auto simp: length_overwrite off_def [symmetric] bit_get_set)
  moreover have "fc_local (dirtied i a d s)"
  proof (rule local_persist [OF _ sh i])
    show "fc_local s" using inv by (simp add: fc_inv_def)
    show "dirtied i a d s = persist_meta_bit i (s\<lparr>fc_data := file_sync (file_write (i * fc_page_size s + a) d (fc_data s)),
        fc_present := bit_set (fc_present s) i True, fc_dirty := bit_set (fc_dirty s) i True,
        fc_dirty_gen := (fc_dirty_gen s)[i := wrapping_add (fc_dirty_gen s ! i) 1]\<rparr>)"
      by (simp add: dirtied_def)
  qed (use le lenD dp bits in \<open>auto simp: file_sync_def off_def bit_get_set dirty_present_def\<close>)
  ultimately show ?thesis using bi by (simp add: fc_inv_def off_def C_def fc_local_def local_files_def)
qed

lemma dirty_page_region_eq:
  assumes "fc_inv content binv s" and "i < fc_num_pages s"
  shows "dirty_page_region E i a d s = account_present E i False (page_len s i) (dirtied i a d s)"
proof -
  have "fc_index s = None" "length (fc_dirty_gen s) = fc_num_pages s"
    using assms by (auto simp: fc_inv_def fc_shape_def)
  with assms(2) show ?thesis
    by (simp add: dirty_page_region_def fc_unpublish_def Let_def dirtied_def set_dirty_def set_present_def
        page_len_def persist_meta_bit_def)
qed

lemma dirty_page_region_spec:
  assumes inv: "fc_inv content binv s" and i: "i < fc_num_pages s" and a: "a + length d \<le> page_len s i"
    and full: "bit_get (fc_present s) i \<or> a = 0 \<and> length d = page_len s i"
    and r: "dirty_page_region E i a d s = (r, s')"
  shows "fc_inv content binv s' \<and> fc_view content s' = overwrite (i * fc_page_size s + a) d (fc_view content s) \<and>
    fc_page_size s' = fc_page_size s \<and> fc_dev_size s' = fc_dev_size s \<and> fc_budget s' = fc_budget s \<and>
    length (content (fc_inner s')) = length (content (fc_inner s))"
proof -
  have sh: "fc_shape (length (content (fc_inner s))) s" using inv by (simp add: fc_inv_def)
  then have l: "lru_inv (fc_lru s)" by (simp add: fc_shape_def)
  define t where "t = (dirtied i a d s)\<lparr>fc_lru := touch (fc_lru s) i False\<rparr>"
  have t: "fc_inv content binv t" "fc_view content t = overwrite (i * fc_page_size s + a) d (fc_view content s)"
    using dirtied_inv [OF inv i a full touch_inv [OF l, of i False]] fc_shape_evictable [OF sh]
    by (auto simp: t_def touch_evictable [OF l])
  have "fc_keeps content binv t s' \<and> bit_get (fc_present s') i = bit_get (fc_present (dirtied i a d s)) i"
  proof (rule account_present_general [OF _ _ r [unfolded dirty_page_region_eq [OF inv i]]])
    have pl: "page_len s i \<noteq> 0" using page_len_bounds(1) [OF sh i] by simp
    assume "fc_budget (dirtied i a d s) = None \<or> page_len s i = 0"
    with pl have "fc_budget s = None" by simp
    then have "fc_inv content binv ((dirtied i a d s)\<lparr>fc_lru := fc_lru s\<rparr>) \<and>
        fc_view content ((dirtied i a d s)\<lparr>fc_lru := fc_lru s\<rparr>) = fc_view content t"
      using dirtied_inv [OF inv i a full l] t by simp
    moreover have "(dirtied i a d s)\<lparr>fc_lru := fc_lru s\<rparr> = dirtied i a d s"
      by (simp add: dirtied_def persist_meta_bit_def Let_def)
    ultimately show "fc_keeps content binv t (dirtied i a d s)"
      by (simp add: fc_keeps_def t_def)
  next
    fix m f
    show "fc_keeps content binv t ((dirtied i a d s)\<lparr>fc_lru := touch (fc_lru (dirtied i a d s)) i False,
        fc_resident_bytes := m, fc_budget_file := f\<rparr>)"
      using accounting_keeps [OF t(1), where n = m and f = f and ps = "fc_punch_outcomes t"]
      by (simp add: t_def)
  qed
  with t show ?thesis by (simp add: fc_keeps_def t_def)
qed

text \<open>The shared files are accessible, so the accounting does not fail.\<close>

lemma with_locked_ok [simp]: "with_locked None alive pid f file = (Inl e, file') \<longleftrightarrow> False"
  by (simp add: with_locked_def split: prod.splits)

lemma evict_one_ok: "fc_index s = None \<Longrightarrow> is_ok (fst (evict_one E cb i s)) \<and> fc_index (snd (evict_one E cb i s)) = None"
  by (auto simp: evict_one_def fc_unpublish_def fc_publish_def punch_hole_def write_present_byte_def set_present_def
      release_def Let_def is_ok_ex split: prod.splits sum.splits bool.splits if_splits)

lemma evict_pages_ok: "fc_index s = None \<Longrightarrow> is_ok (fst (evict_pages E cb over protect s))"
proof (induction E cb over protect s rule: evict_pages.induct)
  case (1 E cb over protect s)
  show ?case
  proof (cases "over = 0 \<or> fst (pop_lru (fc_lru s) protect) = None")
    case True
    then show ?thesis by (auto simp: evict_pages.simps split: prod.splits)
  next
    case False
    then obtain idx l' where p: "over \<noteq> 0" "pop_lru (fc_lru s) protect = (Some idx, l')" by (metis prod.collapse option.exhaust)
    obtain r s' where e: "evict_one E cb idx (s\<lparr>fc_lru := l'\<rparr>) = (Inr r, s')" "fc_index s' = None"
      using evict_one_ok [of "s\<lparr>fc_lru := l'\<rparr>" E cb idx] 1(2)
      by (cases "evict_one E cb idx (s\<lparr>fc_lru := l'\<rparr>)") (auto simp: is_ok_ex)
    with p 1 show ?thesis by (cases r) (simp_all add: evict_pages.simps [of E cb over])
  qed
qed

lemma account_present_ok: "fc_index s = None \<Longrightarrow> is_ok (fst (account_present E i clean n s))"
proof -
  assume "fc_index s = None"
  then show ?thesis
    by (auto simp: account_present_def evict_clean_def admit_def Let_def evict_pages_ok split: option.splits prod.splits sum.splits)
qed

lemma dirty_page_region_ok:
  assumes "fc_inv content binv s" and "i < fc_num_pages s" and "dirty_page_region E i a d s = (r, s')"
  shows "is_ok r"
  using account_present_ok [of "dirtied i a d s" E i False "page_len s i"] assms dirty_page_region_eq [OF assms(1,2), of E a d]
  by (auto simp: fc_inv_def fc_shape_def)

section \<open>Flushing\<close>

text \<open>An unseen step that may clean pages and change the layer below.\<close>

definition fc_cleans :: "('s \<Rightarrow> bytes) \<Rightarrow> ('s \<Rightarrow> bool) \<Rightarrow> 's fcache \<Rightarrow> 's fcache \<Rightarrow> bool" where
  "fc_cleans content binv s s' \<longleftrightarrow>
     fc_inv content binv s' \<and> fc_view content s' = fc_view content s \<and>
     fc_num_pages s' = fc_num_pages s \<and> (\<forall>i. bit_get (fc_dirty s') i \<longrightarrow> bit_get (fc_dirty s) i)"

lemma fc_cleans_refl: "fc_inv content binv s \<Longrightarrow> fc_cleans content binv s s"
  by (simp add: fc_cleans_def)

lemma fc_cleans_trans:
  "fc_cleans content binv s s' \<Longrightarrow> fc_cleans content binv s' s'' \<Longrightarrow> fc_cleans content binv s s''"
  by (simp add: fc_cleans_def)

lemma inner_shape [simp]:
  "fc_local (s\<lparr>fc_inner := i'\<rparr>) = fc_local s" "fc_shape n (s\<lparr>fc_inner := i'\<rparr>) = fc_shape n s" "dirty_present (s\<lparr>fc_inner := i'\<rparr>) = dirty_present s"
  by (simp_all add: fc_shape_def dirty_present_def fc_local_def local_files_def)

lemma etag_irrelevant [simp]:
  "fc_inv content binv (s\<lparr>fc_etag_file := x\<rparr>) = fc_inv content binv s"
  "fc_view content (s\<lparr>fc_etag_file := x\<rparr>) = fc_view content s"
  by (simp_all add: fc_inv_def fc_shape_def dirty_present_def clean_match_def fc_view_def fc_local_def local_files_def)

lemma fc_keeps_cleans: "fc_inv content binv s \<Longrightarrow> fc_keeps content binv s s' \<Longrightarrow> fc_cleans content binv s s'"
  by (auto simp: fc_keeps_def fc_cleans_def fc_inv_def fc_shape_def)

text \<open>The bytes below a dirty page do not matter.\<close>

lemma below_dirty_page:
  assumes inv: "fc_inv content binv s" and i: "i < fc_num_pages s" "bit_get (fc_dirty s) i" and b: "binv i'"
    and same: "same_outside (i * fc_page_size s) (page_len s i) (content (fc_inner s)) (content i')"
  shows "fc_cleans content binv s (s\<lparr>fc_inner := i'\<rparr>)"
proof -
  define C where "C = content (fc_inner s)"
  have sh: "fc_shape (length C) s" and cm: "clean_match C s" and dp: "dirty_present s" and loc: "fc_local s"
    using inv by (simp_all add: fc_inv_def C_def)
  note pl = page_len_bounds [OF sh i(1)]
  have len: "length (content i') = length C" using same_outside_length [OF same] by (simp add: C_def)
  have out: "content i' ! j = C ! j" if "j < length C" "j div fc_page_size s \<noteq> i" for j
    using that same pl(4) [of j] by (auto simp: same_outside_def C_def not_le not_less)
  have pres: "bit_get (fc_present s) i" using dp i by (simp add: dirty_present_def)
  have "fc_view content (s\<lparr>fc_inner := i'\<rparr>) = fc_view content s"
    by (rule nth_equalityI) (use len out pres in \<open>auto simp: nth_fc_view C_def\<close>)
  moreover have "clean_match (content i') (s\<lparr>fc_inner := i'\<rparr>)"
    unfolding clean_match_def
  proof (intro allI impI)
    fix j assume j: "j < length (content i')" and b: "\<not> bit_get (fc_dirty (s\<lparr>fc_inner := i'\<rparr>)) (j div fc_page_size (s\<lparr>fc_inner := i'\<rparr>))"
      "bit_get (fc_present (s\<lparr>fc_inner := i'\<rparr>)) (j div fc_page_size (s\<lparr>fc_inner := i'\<rparr>))"
    then have "j div fc_page_size s \<noteq> i" using i(2) by auto
    with j b len cm out show "df_cur (fc_data (s\<lparr>fc_inner := i'\<rparr>)) ! j = content i' ! j"
      by (simp add: clean_match_def)
  qed
  ultimately show ?thesis
    using sh dp b len loc by (simp add: fc_cleans_def fc_inv_def)
qed

text \<open>A dirty page whose bytes are below can be marked clean.\<close>

lemma mark_clean:
  assumes inv: "fc_inv content binv s" and i: "i < fc_num_pages s"
    and eq: "segment (i * fc_page_size s) (page_len s i) (content (fc_inner s)) =
      segment (i * fc_page_size s) (page_len s i) (df_cur (fc_data s))"
    and l: "l = fc_lru s \<or> l = touch (fc_lru s) i True"
    and m: "m = fc_meta (persist_meta_bit i (set_dirty i False s))"
  shows "fc_cleans content binv s (s\<lparr>fc_dirty := bit_set (fc_dirty s) i False, fc_lru := l, fc_meta := m\<rparr>)"
proof -
  define C where "C = content (fc_inner s)"
  define t where "t = s\<lparr>fc_dirty := bit_set (fc_dirty s) i False, fc_lru := l, fc_meta := m\<rparr>"
  have sh: "fc_shape (length C) s" and cm: "clean_match C s" and dp: "dirty_present s"
    using inv by (simp_all add: fc_inv_def C_def)
  note pl = page_len_bounds [OF sh i] and bits = fc_shape_bits [OF sh i]
  have linv: "lru_inv (fc_lru s)" and lenD: "length (df_cur (fc_data s)) = length C"
    using sh by (simp_all add: fc_shape_def)
  have dirty: "bit_get (fc_dirty t) k \<longleftrightarrow> k \<noteq> i \<and> bit_get (fc_dirty s) k" for k
    using bits by (simp add: t_def bit_get_set)
  have byte: "df_cur (fc_data s) ! j = C ! j" if "j < length C" "j div fc_page_size s = i" for j
  proof -
    have "i * fc_page_size s \<le> j \<and> j < i * fc_page_size s + page_len s i" using that pl(4) [of j] by simp
    then have "j - i * fc_page_size s < page_len s i" "i * fc_page_size s \<le> j" by linarith+
    then show ?thesis
      using arg_cong [OF eq, of "\<lambda>xs. xs ! (j - i * fc_page_size s)"] that lenD
      by (simp add: nth_segment C_def)
  qed
  have "fc_local (persist_meta_bit i (s\<lparr>fc_data := fc_data s, fc_present := bit_set (fc_present s) i (bit_get (fc_present s) i),
      fc_dirty := bit_set (fc_dirty s) i False, fc_dirty_gen := fc_dirty_gen s\<rparr>))"
  proof (rule local_persist [OF _ sh i refl])
    show "fc_local s" using inv by (simp add: fc_inv_def)
  qed (use inv lenD dp bits in \<open>auto simp: fc_inv_def fc_local_def local_files_def bit_get_set dirty_present_def split: if_splits\<close>)
  then have "fc_local t"
    by (simp add: t_def m fc_local_def local_files_def persist_meta_bit_def set_dirty_def Let_def bit_set_same bits)
  moreover have "clean_match C t"
    using cm byte dirty by (auto simp: clean_match_def t_def)
  moreover have "dirty_present t" using dp dirty by (simp add: dirty_present_def t_def)
  moreover have "lru_inv l" using l linv touch_inv by auto
  moreover have "k < fc_num_pages s \<and> \<not> bit_get (fc_dirty t) k"
    if "fc_budget s \<noteq> None" "k \<in> evictable_pages l" for k
    using l that fc_shape_evictable [OF sh that(1)] i dirty
    by (auto simp: touch_evictable [OF linv] split: if_splits)
  then have "fc_shape (length C) t" using sh \<open>lru_inv l\<close> unfolding fc_shape_def by (simp add: t_def)
  moreover have "fc_view content t = fc_view content s" by (simp add: fc_view_def t_def)
  ultimately show ?thesis
    using inv dirty by (simp add: fc_cleans_def fc_inv_def t_def [symmetric] C_def) (simp add: t_def)
qed

lemma fc_all_clean:
  assumes inv: "fc_inv content binv s" and clean: "\<And>i. i < fc_num_pages s \<Longrightarrow> \<not> bit_get (fc_dirty s) i"
  shows "fc_view content s = content (fc_inner s)"
proof (rule nth_equalityI)
  fix j assume "j < length (fc_view content s)"
  then have j: "j < length (content (fc_inner s))" by simp
  have "j div fc_page_size s < fc_num_pages s"
    using inv page_in_range [OF j] by (auto simp: fc_inv_def fc_shape_def)
  with clean inv j show "fc_view content s ! j = content (fc_inner s) ! j"
    by (auto simp: nth_fc_view fc_inv_def clean_match_def)
qed simp

section \<open>The layer over a lawful backend\<close>

locale fcache_layer = page_store B content durable binv
  for B :: "'s backend" and content durable binv +
  fixes E :: fc_env
begin

lemma fc_invD:
  assumes "fc_inv content binv s"
  shows "binv (fc_inner s)" "fc_shape (length (content (fc_inner s))) s"
    "length (content (fc_inner s)) < u64_limit" "512 dvd length (content (fc_inner s))"
    "0 < fc_page_size s" "512 dvd fc_page_size s" "fc_dev_size s = length (content (fc_inner s))"
    "fc_index s = None" "fc_num_pages s = div_ceil (length (content (fc_inner s))) (fc_page_size s)"
  using assms size_aligned [of "fc_inner s"] unfolding fc_inv_def fc_shape_def by auto

lemma inner_keeps:
  assumes "fc_inv content binv s" and "binv i'" and "content i' = content (fc_inner s)"
  shows "fc_keeps content binv s (s\<lparr>fc_inner := i'\<rparr>)"
  using assms
  by (auto simp: fc_keeps_def fc_inv_def fc_view_def fc_shape_def clean_match_def dirty_present_def)

lemma fetch_page_spec:
  assumes inv: "fc_inv content binv s" and i: "i < fc_num_pages s"
    and r: "fetch_page E B i (page_len s i) s = (r, s')"
  shows "fc_keeps content binv s s' \<and> fc_present s' = fc_present s \<and> fc_num_pages s' = fc_num_pages s \<and>
    content (fc_inner s') = content (fc_inner s) \<and>
    (\<forall>d. r = Inr d \<longrightarrow> d = segment (i * fc_page_size s) (page_len s i) (content (fc_inner s)))"
proof -
  note pl = page_len_bounds [OF fc_invD(2) [OF inv] i]
  obtain rd i' where rd: "b_read B (fc_inner s) (i * fc_page_size s) (page_len s i) = (rd, i')" by fastforce
  note rl = page_read [OF fc_invD(1) [OF inv] pl(1,2) rd]
  have s': "s' = s\<lparr>fc_inner := i'\<rparr>" "\<forall>d. r = Inr d \<longrightarrow> rd = Inr d \<and> length d = page_len s i"
    using r rd fc_invD(8) [OF inv] by (auto simp: fetch_page_def try_peer_page_def split: sum.splits if_splits)
  from inner_keeps [OF inv] rl s' show ?thesis by auto
qed

lemma ensure_page_spec:
  assumes inv: "fc_inv content binv s" and i: "i < fc_num_pages s"
    and r: "ensure_page E B i s = (r, s')"
  shows "fc_keeps content binv s s' \<and> (is_ok r \<longrightarrow> bit_get (fc_present s') i)"
proof (cases "bit_get (fc_present s) i")
  case True
  with r inv show ?thesis by (auto simp: ensure_page_def fc_keeps_refl Let_def)
next
  case False
  obtain q s1 where f: "fetch_page E B i (page_len s i) s = (q, s1)" by fastforce
  note fs = fetch_page_spec [OF inv i f]
  show ?thesis
  proof (cases q)
    case (Inl e)
    with r f False fs show ?thesis by (auto simp: ensure_page_def Let_def)
  next
    case (Inr d)
    obtain w s2 where st: "store_clean_page E i d s1 = (w, s2)" by fastforce
    have inv1: "fc_inv content binv s1" and same: "fc_page_size s1 = fc_page_size s" "page_len s1 i = page_len s i"
      using fs by (auto simp: fc_keeps_def page_len_def)
    have "fc_keeps content binv s1 s2 \<and> bit_get (fc_present s2) i"
      using fs False Inr i same by (intro store_clean_page_keeps [OF inv1 _ _ _ st]) simp_all
    moreover have "s' = s2" using r f False Inr st by (auto simp: ensure_page_def Let_def split: sum.splits)
    ultimately show ?thesis using fs fc_keeps_trans by blast
  qed
qed

text \<open>The write of one chunk: nothing visible happens unless it succeeds.\<close>

lemma fc_chunk_range:
  assumes inv: "fc_inv content binv s" and p: "pos < len" "off + len \<le> length (content (fc_inner s))"
    and n: "n = chunk_at (fc_page_size s) off len pos"
  shows "(off + pos) div fc_page_size s < fc_num_pages s"
    "(off + pos) mod fc_page_size s + n \<le> page_len s ((off + pos) div fc_page_size s)"
    "0 < n" "pos + n \<le> len" "len - (pos + n) < len - pos"
    "n = fc_page_size s \<Longrightarrow> (off + pos) mod fc_page_size s = 0"
proof -
  note b = chunk_at_bounds [OF fc_invD(5) [OF inv] p(1), of off, folded n]
  show "(off + pos) div fc_page_size s < fc_num_pages s"
    using page_in_range [of "off + pos", OF _ fc_invD(5) [OF inv]] p fc_invD(9) [OF inv] by simp
  have "(off + pos) div fc_page_size s * fc_page_size s + (off + pos) mod fc_page_size s = off + pos" by simp
  then show "(off + pos) mod fc_page_size s + n \<le> page_len s ((off + pos) div fc_page_size s)"
    using b p fc_invD(7) [OF inv] unfolding page_len_def by linarith
  show "0 < n" "pos + n \<le> len" "len - (pos + n) < len - pos" using b by simp_all
  show "n = fc_page_size s \<Longrightarrow> (off + pos) mod fc_page_size s = 0" using b by simp
qed

lemma fc_store_chunk_spec:
  assumes inv: "fc_inv content binv s" and i: "off div fc_page_size s < fc_num_pages s"
    and a: "off mod fc_page_size s + length d \<le> page_len s (off div fc_page_size s)"
    and r: "fc_store_chunk E B off d s = (r, s')"
  shows "fc_inv content binv s' \<and> fc_page_size s' = fc_page_size s \<and>
    length (content (fc_inner s')) = length (content (fc_inner s)) \<and>
    fc_view content s' = (if is_ok r then overwrite off d (fc_view content s) else fc_view content s)"
proof -
  define i where "i = off div fc_page_size s"
  obtain q s1 where e: "(if length d \<noteq> fc_page_size s then ensure_page E B i s else (Inr 0, s)) = (q, s1)" by fastforce
  have k: "fc_keeps content binv s s1 \<and> (length d \<noteq> fc_page_size s \<longrightarrow> is_ok q \<longrightarrow> bit_get (fc_present s1) i)"
    using e ensure_page_spec [OF inv i [folded i_def]] fc_keeps_refl [OF inv] by (auto split: if_splits)
  show ?thesis
  proof (cases q)
    case (Inl e')
    then have "r = Inl e'" "s' = s1"
      using r [unfolded fc_store_chunk_def Let_def] e [unfolded i_def] by simp_all
    with k show ?thesis by (simp add: fc_keeps_def)
  next
    case (Inr x)
    obtain w where w: "dirty_page_region E i (off mod fc_page_size s) d s1 = (w, s')" "r = w"
      using r [unfolded fc_store_chunk_def Let_def] e [unfolded i_def] Inr by (simp add: i_def)
    have inv1: "fc_inv content binv s1" and same: "fc_page_size s1 = fc_page_size s" "fc_dev_size s1 = fc_dev_size s"
      "fc_num_pages s1 = fc_num_pages s"
      using k inv by (auto simp: fc_keeps_def fc_inv_def fc_shape_def)
    have pl: "page_len s1 i = page_len s i" "page_len s i \<le> fc_page_size s"
      using same by (simp_all add: page_len_def)
    have full: "bit_get (fc_present s1) i \<or> off mod fc_page_size s = 0 \<and> length d = page_len s1 i"
      using k Inr a pl by (auto simp: i_def)
    have off: "i * fc_page_size s1 + off mod fc_page_size s = off" by (simp add: i_def same)
    note spec = dirty_page_region_spec [OF inv1 _ _ full w(1), unfolded off]
    have "is_ok w" using dirty_page_region_ok [OF inv1 _ w(1)] same(3) i by (simp add: i_def)
    with spec i a same k w(2) pl show ?thesis by (simp add: i_def fc_keeps_def)
  qed
qed

lemma fc_read_chunk_spec:
  assumes inv: "fc_inv content binv s" and i: "off div fc_page_size s < fc_num_pages s"
    and a: "off mod fc_page_size s + n \<le> page_len s (off div fc_page_size s)" and n: "0 < n"
    and r: "fc_read_chunk E B off n s = (r, s')"
  shows "fc_keeps content binv s s' \<and> (\<forall>d. r = Inr d \<longrightarrow> d = segment off n (fc_view content s))"
proof -
  define i where "i = off div fc_page_size s"
  define C where "C = content (fc_inner s)"
  note pl = page_len_bounds [OF fc_invD(2) [OF inv] i, folded i_def]
  have rng: "off = i * fc_page_size s + off mod fc_page_size s" by (simp add: i_def)
  have le: "off + n \<le> length C" using a pl(2) rng unfolding C_def i_def by linarith
  have pg: "(off + k) div fc_page_size s = i" if "k < n" for k
    using pl(4) [of "off + k"] le a rng that unfolding C_def i_def by linarith
  have lenD: "length (df_cur (fc_data s)) = length C" using fc_invD(2) [OF inv] by (simp add: fc_shape_def C_def)
  have seg: "segment off n (fc_view content s) =
      (if bit_get (fc_present s) i then segment off n (df_cur (fc_data s)) else segment off n C)"
    by (rule nth_equalityI) (use le lenD pg in \<open>auto simp: buf_simps nth_fc_view C_def\<close>)
  show ?thesis
  proof (cases "bit_get (fc_present s) i")
    case True
    have "fc_keeps content binv s s'"
      using r True i touch_keeps [OF inv, where i = i and clean = "\<not> bit_get (fc_dirty s) i" and
        n = "fc_resident_bytes s" and f = "fc_budget_file s" and ps = "fc_punch_outcomes s"] fc_keeps_refl [OF inv]
      by (auto simp: fc_read_chunk_def Let_def i_def)
    with r True seg show ?thesis by (auto simp: fc_read_chunk_def Let_def i_def)
  next
    case False
    obtain q i' where rd: "b_read B (fc_inner s) off n = (q, i')" by fastforce
    note rl = page_read [OF fc_invD(1) [OF inv] n le [unfolded C_def] rd]
    have "s' = s\<lparr>fc_inner := i'\<rparr>" "\<forall>d. r = Inr d \<longrightarrow> q = Inr d \<and> length d = n"
      using r rd False fc_invD(8) [OF inv]
      by (auto simp: fc_read_chunk_def try_peer_page_def i_def Let_def split: sum.splits if_splits)
    with rl inner_keeps [OF inv] seg False show ?thesis by (auto simp: C_def)
  qed
qed

lemma fc_read_loop_spec:
  assumes "fc_read_loop E B ps off len pos result s = (r, s')" and "fc_inv content binv s"
    and "ps = fc_page_size s" and "off + len \<le> length (content (fc_inner s))" and "pos \<le> len" and "length result = len"
  shows "fc_keeps content binv s s' \<and>
    (\<forall>d. r = Inr d \<longrightarrow> d = overwrite pos (segment (off + pos) (len - pos) (fc_view content s)) result)"
  using assms
proof (induction "len - pos" arbitrary: pos result s rule: less_induct)
  case less
  have ps: "0 < ps" using fc_invD(5) [OF less.prems(2)] less.prems(3) by simp
  show ?case
  proof (cases "pos < len")
    case False
    with less.prems ps show ?thesis by (auto simp: fc_read_loop.simps fc_keeps_refl)
  next
    case True
    define n where "n = chunk_at ps off len pos"
    note rng = fc_chunk_range [OF less.prems(2) True less.prems(4) n_def [unfolded less.prems(3)]]
    obtain c s1 where c: "fc_read_chunk E B (off + pos) n s = (c, s1)" by fastforce
    note spec = fc_read_chunk_spec [OF less.prems(2) rng(1,2,3) c]
    show ?thesis
    proof (cases c)
      case (Inl e)
      with less.prems(1) True c ps have "r = Inl e" "s' = s1"
        by (auto simp: fc_read_loop.simps [of E B ps off len pos] n_def Let_def)
      with spec show ?thesis by simp
    next
      case (Inr chunk)
      define V where "V = fc_view content s"
      have rec: "fc_read_loop E B ps off len (pos + n) (overwrite pos chunk result) s1 = (r, s')"
        using less.prems(1) True c Inr ps
        by (simp add: fc_read_loop.simps [of E B ps off len pos] n_def Let_def)
      have chunk: "chunk = segment (off + pos) n V" using spec Inr by (simp add: V_def)
      have lc: "length chunk = n" using chunk less.prems(4) rng(4) by (simp add: buf_simps V_def)
      note IH = less.hyps [OF rng(5) rec]
      have "overwrite (pos + n) (segment (off + (pos + n)) (len - (pos + n)) V) (overwrite pos chunk result) =
        overwrite pos (segment (off + pos) (len - pos) V) result"
        using overwrite_append [of pos chunk _ result] lc chunk rng(4) less.prems(4,6)
          segment_add [of "off + pos" n "len - pos - n" V]
        by (simp add: length_segment add.assoc V_def)
      with IH spec less.prems rng(4) lc show ?thesis
        by (auto simp: fc_keeps_def buf_simps V_def)
    qed
  qed
qed

lemma fc_write_loop_spec:
  assumes "fc_write_loop E B ps off data pos s = (u, s')" and "fc_inv content binv s"
    and "ps = fc_page_size s" and "off + length data \<le> length (content (fc_inner s))" and "pos \<le> length data"
  shows "fc_inv content binv s' \<and> stored off data pos u (fc_view content s) (fc_view content s')"
  using assms
proof (induction "length data - pos" arbitrary: pos s rule: less_induct)
  case less
  have ps: "0 < ps" using fc_invD(5) [OF less.prems(2)] less.prems(3) by simp
  show ?case
  proof (cases "pos < length data")
    case False
    with less.prems ps show ?thesis by (auto simp: fc_write_loop.simps stored_def)
  next
    case True
    define V where "V = fc_view content s"
    define n where "n = chunk_at ps off (length data) pos"
    define d where "d = segment pos n data"
    note rng = fc_chunk_range [OF less.prems(2) True less.prems(4) n_def [unfolded less.prems(3)]]
    have ld: "length d = n" using rng(4) by (simp add: d_def buf_simps)
    obtain c s1 where c: "fc_store_chunk E B (off + pos) d s = (c, s1)" by fastforce
    note spec = fc_store_chunk_spec [OF less.prems(2) rng(1) rng(2) [folded ld] c, folded V_def]
    show ?thesis
    proof (cases c)
      case (Inl e)
      with less.prems(1) True c ps have "u = Inl e" "s' = s1"
        by (auto simp: fc_write_loop.simps [of E B ps off data pos] n_def d_def Let_def)
      with spec Inl show ?thesis by (simp add: stored_def V_def)
    next
      case (Inr x)
      have frame: "same_outside off (length data) V (overwrite (off + pos) d V)"
        by (rule same_outside_mono [OF same_outside_overwrite])
           (use ld rng(4) less.prems(4) in \<open>simp_all add: V_def\<close>)
      have rec: "fc_write_loop E B ps off data (pos + n) s1 = (u, s')"
        using less.prems(1) True c Inr ps
        by (simp add: fc_write_loop.simps [of E B ps off data pos] n_def d_def Let_def)
      note IH = less.hyps [OF rng(5) rec]
      have dr: "drop pos data = d @ drop (pos + n) data"
        by (simp add: d_def segment_def) (metis append_take_drop_id drop_drop add.commute)
      have "overwrite (off + (pos + n)) (drop (pos + n) data) (overwrite (off + pos) d V) =
          overwrite (off + pos) (drop pos data) V"
        using overwrite_append [of "off + pos" d "drop (pos + n) data" V] ld rng(4) less.prems(4)
        by (simp add: dr add.assoc V_def)
      then show ?thesis
        using IH spec Inr less.prems rng(4) frame same_outside_trans
        by (auto simp: stored_def V_def [symmetric])
    qed
  qed
qed

text \<open>A clear is a write of zeros.\<close>

lemma fc_clear_loop_eq: "fc_clear_loop E B ps off len pos s = fc_write_loop E B ps off (zeros len) pos s"
proof (induction E B ps off len pos s rule: fc_clear_loop.induct)
  case (1 E B ps off len pos s)
  define n where "n = chunk_at ps off len pos"
  have "segment pos n (zeros len) = zeros n" if "pos < len"
    using that by (intro segment_zeros) (simp add: n_def chunk_at_def)
  with 1 show ?case
    by (auto simp: fc_clear_loop.simps [of E B ps off len pos]
        fc_write_loop.simps [of E B ps off "zeros len" pos] Let_def n_def
        split: prod.splits sum.splits)
qed

lemma fc_flush_page_spec:
  assumes inv: "fc_inv content binv s" and i: "i < fc_num_pages s" and r: "fc_flush_page E B i s = (r, s')"
  shows "fc_cleans content binv s s' \<and> (r = Inr () \<longrightarrow> \<not> bit_get (fc_dirty s') i)"
proof (cases "bit_get (fc_dirty s) i")
  case False
  with r inv show ?thesis by (auto simp: fc_flush_page_def page_snapshot_def fc_cleans_refl)
next
  case True
  define off where "off = i * fc_page_size s"
  define buf where "buf = segment off (page_len s i) (df_cur (fc_data s))"
  note sh = fc_invD(2) [OF inv] and pl = page_len_bounds [OF fc_invD(2) [OF inv] i]
  have lb: "length buf = page_len s i"
    using sh pl(2) by (simp add: buf_def length_segment off_def fc_shape_def)
  have gen: "length (fc_dirty_gen s) = fc_num_pages s" using sh by (simp add: fc_shape_def)
  have snap: "page_snapshot i s = Some (off, page_len s i, fc_dirty_gen s ! i, buf)"
    using True pl(1) i sh by (simp add: page_snapshot_def Let_def off_def buf_def fc_shape_def)
  obtain w i' where w: "b_write B (fc_inner s) off buf = (w, i')" by fastforce
  have lim: "buf \<noteq> []" "off + length buf \<le> length (content (fc_inner s))" using pl(1,2) lb by (auto simp: off_def)
  note wl = page_write [OF fc_invD(1) [OF inv] lim w]
  have fr: "same_outside off (length buf) (content (fc_inner s)) (content i')"
    using wl same_outside_overwrite [OF lim(2)] by (cases "w = Inr ()") auto
  define t where "t = s\<lparr>fc_inner := i'\<rparr>"
  have c1: "fc_cleans content binv s t"
    unfolding t_def using below_dirty_page [OF inv i True] wl fr lb by (simp add: off_def)
  show ?thesis
  proof (cases w)
    case (Inl e)
    with r snap w have "r = Inl e" "s' = t" by (auto simp: fc_flush_page_def t_def)
    with c1 show ?thesis by simp
  next
    case (Inr x)
    define l where "l = (if fc_budget s = None then fc_lru t else touch (fc_lru t) i True)"
    define m where "m = fc_meta (persist_meta_bit i (set_dirty i False t))"
    have l: "l = fc_lru t \<or> l = touch (fc_lru t) i True" by (simp add: l_def)
    have "r = Inr () \<and> s' = t\<lparr>fc_dirty := bit_set (fc_dirty t) i False, fc_lru := l, fc_meta := m\<rparr>"
      using r snap w Inr fc_invD(8) [OF inv] i gen
      by (cases "fc_budget s") (auto simp: fc_flush_page_def page_uploaded_def fc_publish_def set_dirty_def
          persist_meta_bit_def Let_def t_def l_def m_def)
    then have s': "r = Inr ()" "s' = t\<lparr>fc_dirty := bit_set (fc_dirty t) i False, fc_lru := l, fc_meta := m\<rparr>"
      by simp_all
    have "content i' = overwrite off buf (content (fc_inner s))" "off + length buf \<le> length (content (fc_inner s))"
      using wl Inr pl(2) lb by (auto simp: off_def)
    then have "segment off (page_len s i) (content i') = buf"
      using segment_overwrite_same [of off buf "content (fc_inner s)"] lb by simp
    then have eq: "segment (i * fc_page_size t) (page_len t i) (content (fc_inner t)) =
        segment (i * fc_page_size t) (page_len t i) (df_cur (fc_data t))"
      by (simp add: t_def buf_def off_def page_len_def)
    have inv1: "fc_inv content binv t" and it: "i < fc_num_pages t" using c1 i by (simp_all add: fc_cleans_def)
    have "fc_cleans content binv t s'"
      unfolding s'(2) by (rule mark_clean [OF inv1 it eq l m_def])
    moreover have "\<not> bit_get (fc_dirty s') i"
      using fc_shape_bits [OF fc_invD(2) [OF inv1] it] by (simp add: s'(2) bit_get_set)
    ultimately show ?thesis using c1 fc_cleans_trans by blast
  qed
qed

lemma fc_flush_pages_spec:
  assumes "fc_inv content binv s" and "\<forall>i \<in> set idxs. i < fc_num_pages s"
    and "fc_flush_pages E B idxs fe s = (r, s')"
  shows "fc_cleans content binv s s' \<and> (r = Inr () \<longrightarrow> fe = None \<and> (\<forall>i \<in> set idxs. \<not> bit_get (fc_dirty s') i))"
  using assms
proof (induction idxs arbitrary: fe s)
  case Nil
  then show ?case by (auto simp: fc_cleans_refl split: option.splits)
next
  case (Cons i idxs)
  obtain q s1 where f: "fc_flush_page E B i s = (q, s1)" by fastforce
  have spec: "fc_cleans content binv s s1 \<and> (q = Inr () \<longrightarrow> \<not> bit_get (fc_dirty s1) i)"
    using fc_flush_page_spec [OF Cons.prems(1) _ f] Cons.prems(2) by simp
  define fe' where "fe' = (case (fe, q) of (None, Inl e) \<Rightarrow> Some e | _ \<Rightarrow> fe)"
  have rec: "fc_flush_pages E B idxs fe' s1 = (r, s')" using Cons.prems(3) f by (simp add: fe'_def)
  have "fc_cleans content binv s1 s' \<and> (r = Inr () \<longrightarrow> fe' = None \<and> (\<forall>i \<in> set idxs. \<not> bit_get (fc_dirty s') i))"
    using Cons.IH [OF _ _ rec] Cons.prems(2) spec by (simp add: fc_cleans_def)
  with spec fc_cleans_trans show ?case
    by (auto simp: fc_cleans_def fe'_def split: option.splits sum.splits)
qed

lemma fc_flush_spec:
  assumes inv: "fc_inv content binv s" and r: "fc_flush E B s = (r, s')"
  shows "fc_inv content binv s' \<and> fc_view content s' = fc_view content s \<and>
    (r = Inr () \<longrightarrow> durable (fc_inner s') = fc_view content s' \<and> (\<forall>i < fc_num_pages s'. \<not> bit_get (fc_dirty s') i))"
proof -
  define ds where "ds = fc_dirty_pages s"
  obtain q s1 where f: "(if ds \<noteq> [] then fc_flush_pages E B ds None s else (Inr (), s)) = (q, s1)" by fastforce
  have ds: "\<forall>i \<in> set ds. i < fc_num_pages s" "\<forall>i < fc_num_pages s. bit_get (fc_dirty s) i \<longrightarrow> i \<in> set ds"
    by (auto simp: ds_def fc_dirty_pages_def)
  have c: "fc_cleans content binv s s1 \<and> (q = Inr () \<longrightarrow> (\<forall>i \<in> set ds. \<not> bit_get (fc_dirty s1) i))"
    using f fc_flush_pages_spec [OF inv ds(1)] inv by (auto simp: fc_cleans_refl split: if_splits)
  then have inv1: "fc_inv content binv s1" by (simp add: fc_cleans_def)
  obtain u i1 where fl: "b_flush B (fc_inner s1) = (u, i1)" by fastforce
  note fll = flush_law [OF fc_invD(1) [OF inv1] fl]
  obtain e i2 where et: "b_etag B i1 = (e, i2)" by fastforce
  have etl: "binv i2 \<and> content i2 = content i1 \<and> durable i2 = durable i1" using etag_law [OF _ et] fll by simp
  have upd: "fc_inv content binv (s1\<lparr>fc_inner := j, fc_etag_file := x\<rparr>) \<and>
      fc_view content (s1\<lparr>fc_inner := j, fc_etag_file := x\<rparr>) = fc_view content s"
    if "binv j" "content j = content (fc_inner s1)" for j x
    using inner_keeps [OF inv1 that] c by (simp add: fc_keeps_def fc_cleans_def)
  show ?thesis
  proof (cases "is_ok q \<and> is_ok u")
    case False
    with r f fl fll c upd [of i1 "fc_etag_file s1"] show ?thesis
      by (auto simp: fc_flush_def ds_def [symmetric] Let_def fc_cleans_def is_ok_ex split: sum.splits)
  next
    case True
    then obtain j x where s': "r = Inr ()" "s' = s1\<lparr>fc_inner := j, fc_etag_file := x\<rparr>" and j: "j = i1 \<or> j = i2"
    proof -
      have noop: "s1\<lparr>fc_inner := j\<rparr> = s1\<lparr>fc_inner := j, fc_etag_file := fc_etag_file s1\<rparr>" for j by simp
      have "r = Inr () \<and> (s' = s1\<lparr>fc_inner := i1\<rparr> \<or> s' = s1\<lparr>fc_inner := i2\<rparr> \<or>
          (\<exists>x. s' = s1\<lparr>fc_inner := i2, fc_etag_file := x\<rparr>))"
        using r f fl et True
        by (auto simp: fc_flush_def ds_def [symmetric] Let_def is_ok_ex split: sum.splits option.splits if_splits)
      with that noop show thesis by metis
    qed
    have bj: "binv j" "content j = content (fc_inner s1)" "durable j = content j"
      using j fll etl True by (auto simp: is_ok_ex)
    have clean: "\<not> bit_get (fc_dirty s1) i" if "i < fc_num_pages s1" for i
      using that c ds True by (auto simp: fc_cleans_def is_ok_ex)
    from upd [OF bj(1,2), of x] fc_all_clean [OF inv1 clean] bj clean c show ?thesis
      by (simp add: s' fc_cleans_def)
  qed
qed

lemma fc_bounds_ok: "fc_check_in_bounds off len dev = Inr () \<longleftrightarrow> off + len < u64_limit \<and> off + len \<le> dev"
  by (auto simp: fc_check_in_bounds_def checked_add_def)

lemma fc_read_spec:
  assumes inv: "fc_inv content binv s" and r: "fc_read E B s off len = (r, s')"
  shows "fc_keeps content binv s s' \<and>
    (\<forall>d. r = Inr d \<longrightarrow> length d = len \<and> d = segment off len (fc_view content s))"
proof (cases "len \<noteq> 0 \<and> is_multiple_of off 512 \<and> is_multiple_of len 512 \<and> fc_check_in_bounds off len (fc_dev_size s) = Inr ()")
  case False
  with r inv show ?thesis by (auto simp: fc_read_def fc_keeps_refl split: if_splits sum.splits)
next
  case True
  then have le: "off + len \<le> length (content (fc_inner s))" using fc_invD(7) [OF inv] by (simp add: fc_bounds_ok)
  have "fc_read_loop E B (fc_page_size s) off len 0 (zeros len) s = (r, s')" using r True by (simp add: fc_read_def)
  from fc_read_loop_spec [OF this inv refl le] le show ?thesis by (auto simp: overwrite_def buf_simps)
qed

lemma fc_write_spec:
  assumes inv: "fc_inv content binv s" and r: "fc_write E B s off d = (u, s')"
  shows "fc_inv content binv s' \<and>
    (u = Inr () \<longrightarrow> (d = [] \<or> off + length d \<le> length (fc_view content s)) \<and>
      fc_view content s' = overwrite off d (fc_view content s)) \<and>
    (u \<noteq> Inr () \<longrightarrow> same_outside off (length d) (fc_view content s) (fc_view content s'))"
proof (cases "d \<noteq> [] \<and> is_multiple_of off 512 \<and> is_multiple_of (length d) 512 \<and>
    fc_check_in_bounds off (length d) (fc_dev_size s) = Inr ()")
  case False
  with r inv show ?thesis by (auto simp: fc_write_def split: if_splits sum.splits)
next
  case True
  then have le: "off + length d \<le> length (content (fc_inner s))" using fc_invD(7) [OF inv] by (simp add: fc_bounds_ok)
  have "fc_write_loop E B (fc_page_size s) off d 0 s = (u, s')" using r True by (simp add: fc_write_def)
  from fc_write_loop_spec [OF this inv refl le] le show ?thesis by (auto simp: stored_def)
qed

lemma fc_clear_eq: "fc_clear E B s off len = fc_write E B s off (zeros len)"
  by (auto simp: fc_clear_def fc_write_def fc_clear_loop_eq zeros_def split: sum.splits)

lemma forget_pages_spec:
  assumes b: "binv (fc_inner s)" and idx: "fc_index s = None" and ps: "0 < fc_page_size s" "512 dvd fc_page_size s"
    and sz: "0 < fc_dev_size s" "fc_dev_size s = length (content (fc_inner s))" "fc_num_pages s = div_ceil (fc_dev_size s) (fc_page_size s)"
    and z: "fc_present s = zeros (bitmap_bytes (fc_num_pages s))" "fc_dirty s = zeros (bitmap_bytes (fc_num_pages s))"
    and len: "length (fc_dirty_gen s) = fc_num_pages s" "length (df_cur (fc_data s)) = fc_dev_size s"
    and l: "lru_inv (fc_lru s)" and loc: "fc_local s"
    and r: "forget_pages E s = (r, s')"
  shows "r = Inr () \<and> fc_inv content binv s' \<and> fc_view content s' = content (fc_inner s)"
proof -
  obtain f where s': "r = Inr ()" "s' = s\<lparr>fc_resident_bytes := 0, fc_lru := lru_clear (fc_lru s), fc_budget_file := f,
      fc_etag_file := None\<rparr>"
  proof -
    define f where "f = (case fc_budget s of None \<Rightarrow> fc_budget_file s
      | Some cb \<Rightarrow> snd (budget_reset None (fe_alive E) cb 0 (fc_budget_file s)))"
    have "r = Inr () \<and> s' = s\<lparr>fc_resident_bytes := 0, fc_lru := lru_clear (fc_lru s), fc_budget_file := f,
        fc_etag_file := None\<rparr>"
      using r idx
      by (cases "fc_budget s") (auto simp: forget_pages_def reset_budget_def fc_unpublish_all_def budget_reset_def
          forget_recorded_etag_def f_def split: prod.splits sum.splits)
    with that show thesis by blast
  qed
  have "fc_shape (length (content (fc_inner s))) s'"
    using idx ps sz z len 
    by (simp add: fc_shape_def s' lru_clear_def evictable_pages_def lru_inv_def)
  moreover have "fc_view content s' = content (fc_inner s)"
    by (rule nth_equalityI) (simp_all add: s' nth_fc_view z)
  ultimately show ?thesis
    using b loc by (simp add: fc_inv_def s' clean_match_def dirty_present_def z fc_local_def local_files_def)
qed

lemma fc_create_spec:
  assumes inv: "fc_inv content binv s" and m: "m < u64_limit" and r: "fc_create E B s m = (u, s')"
  shows "fc_inv content binv s' \<and> (u = Inr () \<longrightarrow> length (fc_view content s') = m) \<and>
    (u \<noteq> Inr () \<longrightarrow> fc_view content s \<noteq> [] \<longrightarrow> fc_view content s' = fc_view content s)"
proof (cases "m = 0 \<or> \<not> is_multiple_of m 512")
  case True
  with r inv show ?thesis by (auto simp: fc_create_def)
next
  case False
  obtain w i' where c: "b_create B (fc_inner s) m = (w, i')" by fastforce
  note cl = create_law [OF fc_invD(1) [OF inv] m c]
  show ?thesis
  proof (cases w)
    case (Inl e)
    with r c False have "u = Inl e" "s' = s\<lparr>fc_inner := i'\<rparr>" by (auto simp: fc_create_def)
    moreover have "content (fc_inner s) \<noteq> []" using fc_invD(2) [OF inv] by (auto simp: fc_shape_def)
    ultimately show ?thesis using cl Inl inner_keeps [OF inv] by (auto simp: fc_keeps_def)
  next
    case (Inr x)
    define np where "np = div_ceil m (fc_page_size s)"
    define bm where "bm = zeros (bitmap_bytes np)"
    define t where "t = s\<lparr>fc_inner := i', fc_data := file_set_len m (fc_data s), fc_dev_size := m, fc_num_pages := np,
      fc_present := bm, fc_dirty := bm, fc_dirty_gen := replicate np 0,
      fc_meta := write_full_meta (fc_page_size s) m np bm bm (fc_meta s)\<rparr>"
    have fp: "forget_pages E t = (u, s')"
      using r c False Inr by (simp add: fc_create_def reinit_def Let_def t_def bm_def np_def)
    have "fc_page_size s < u64_limit"
      using inv le_val_less [of "segment 16 8 (df_cur (fc_meta s))"]
      by (auto simp: fc_inv_def fc_local_def local_files_def meta_ok_def length_segment u64_limit_def HEADER_SIZE_def)
    note wf = write_full_meta_ok [where p = bm and d = bm and np = np and meta = "fc_meta s", OF _ _ this m]
    have "fc_local t"
      using wf by (auto simp: fc_local_def local_files_def t_def bm_def file_set_len_def resize_def)
    then have "u = Inr () \<and> fc_inv content binv s' \<and> fc_view content s' = content (fc_inner t)"
      using cl Inr fc_invD [OF inv] False
      by (intro forget_pages_spec [OF _ _ _ _ _ _ _ _ _ _ _ _ _ fp])
         (simp_all add: t_def bm_def np_def file_set_len_def resize_def fc_shape_def)
    then have "u = Inr () \<and> fc_inv content binv s' \<and> fc_view content s' = content i'" by (simp add: t_def)
    with cl Inr show ?thesis by simp
  qed
qed

lemma prefetch_loop_spec:
  assumes "prefetch_loop E B ps e off s = (u, s')" and "fc_inv content binv s" and "ps = fc_page_size s"
    and "e \<le> length (content (fc_inner s))"
  shows "fc_keeps content binv s s'"
  using assms
proof (induction "e - off" arbitrary: off s rule: less_induct)
  case less
  have ps: "0 < ps" using fc_invD(5) [OF less.prems(2)] less.prems(3) by simp
  show ?case
  proof (cases "off < e")
    case False
    with less.prems ps show ?thesis by (auto simp: prefetch_loop.simps fc_keeps_refl)
  next
    case True
    obtain r s1 where p: "ensure_page E B (off div ps) s = (r, s1)" by fastforce
    have i: "off div ps < fc_num_pages s"
      using page_in_range [OF _ fc_invD(5) [OF less.prems(2)]] True less.prems(3,4) fc_invD(9) [OF less.prems(2)] by simp
    have k: "fc_keeps content binv s s1" using ensure_page_spec [OF less.prems(2) i p] by simp
    then have inv1: "fc_inv content binv s1" by (simp add: fc_keeps_def)
    have pp: "prefetch_page E B (off div ps) s = (map_sum id (\<lambda>_. ()) r, s1)"
      using p fc_invD(8) [OF inv1] by (cases r) (simp_all add: prefetch_page_def fc_publish_def)
    show ?thesis
    proof (cases r)
      case (Inl x)
      with less.prems(1) pp True ps k show ?thesis by (simp add: prefetch_loop.simps [of E B ps e off])
    next
      case (Inr x)
      have rec: "prefetch_loop E B ps e (off + ps) s1 = (u, s')"
        using less.prems(1) pp True ps Inr by (simp add: prefetch_loop.simps [of E B ps e off])
      have dec: "e - (off + ps) < e - off" using True ps by simp
      from less.hyps [OF dec rec inv1] k less.prems(3,4) fc_keeps_trans [OF k] show ?thesis
        by (simp add: fc_keeps_def)
    qed
  qed
qed

lemma fc_prefetch_spec:
  assumes inv: "fc_inv content binv s" and r: "fc_prefetch E B s off len = (u, s')"
  shows "fc_keeps content binv s s'"
proof (cases "len \<noteq> 0 \<and> is_multiple_of off 512 \<and> is_multiple_of len 512 \<and> fc_check_in_bounds off len (fc_dev_size s) = Inr ()")
  case False
  with r inv show ?thesis by (auto simp: fc_prefetch_def fc_keeps_refl split: if_splits sum.splits)
next
  case True
  then have le: "off + len \<le> length (content (fc_inner s))" using fc_invD(7) [OF inv] by (simp add: fc_bounds_ok)
  have "prefetch_loop E B (fc_page_size s) (off + len) (off - off mod fc_page_size s) s = (u, s')"
    using r True by (simp add: fc_prefetch_def)
  from prefetch_loop_spec [OF this inv refl le] show ?thesis .
qed

end

lemma fcache_backend_sel [simp]:
  "b_create (fcache_backend E B) = fc_create E B" "b_read (fcache_backend E B) = fc_read E B"
  "b_write (fcache_backend E B) = fc_write E B" "b_clear (fcache_backend E B) = fc_clear E B"
  "b_flush (fcache_backend E B) = fc_flush E B" "b_delete (fcache_backend E B) = fc_delete E B"
  "b_size (fcache_backend E B) = fc_size" "b_etag (fcache_backend E B) = fc_etag B"
  "b_data_ranges (fcache_backend E B) = fc_data_ranges B"
  "b_prefetch (fcache_backend E B) = fc_prefetch E B"
  by (simp_all add: fcache_backend_def)

sublocale fcache_layer \<subseteq> fc: blob_backend "fcache_backend E B" "fc_view content"
  "\<lambda>s. durable (fc_inner s)" "fc_inv content binv"
proof (unfold_locales, goal_cases)
  case (1 s)
  then show ?case using fc_invD by simp
next
  case (2 s len off r s')
  then show ?case using fc_read_spec [of s off len r s'] by (simp add: fc_keeps_def)
next
  case (3 s d off u s')
  then show ?case using fc_write_spec [of s off d u s'] by simp
next
  case (4 s u s')
  then show ?case using fc_flush_spec [of s u s'] by simp
next
  case (5 s z s')
  then show ?case using fc_invD(7) by (auto simp: fc_size_def)
next
  case (6 s m u s')
  then show ?case using fc_create_spec [of s m u s'] by simp
next
  case (7 s rs s')
  then show ?case
    using ranges_law [OF fc_invD(1) [OF 7(1)]] inner_keeps [OF 7(1)]
    by (auto simp: fc_data_ranges_def fc_keeps_def split: prod.splits)
next
  case (8 s t s')
  then show ?case
    using etag_law [OF fc_invD(1) [OF 8(1)]] inner_keeps [OF 8(1)]
    by (auto simp: fc_etag_def fc_keeps_def split: prod.splits)
next
  case (9 s off len r s')
  then show ?case using fc_read_spec [of s off len r s'] by (simp add: fc_keeps_def)
next
  case (10 s off d u s')
  then show ?case using fc_write_spec [of s off d u s'] by simp
next
  case (11 s off len u s')
  then show ?case using fc_write_spec [of s off "zeros len" u s'] by (auto simp: fc_clear_eq zeros_def)
next
  case (12 s off len u s')
  then show ?case using fc_prefetch_spec [of s off len u s'] by (simp add: fc_keeps_def)
qed

section \<open>Over a reliable layer every well-formed request succeeds\<close>

locale fcache_reliable = fcache_layer B content durable binv E + reliable_backend B content durable binv
  for B :: "'s backend" and content durable binv E
begin

lemma fc_page_io:
  assumes inv: "fc_inv content binv s" and i: "i < fc_num_pages s"
  shows "512 dvd i * fc_page_size s" "512 dvd page_len s i"
    "i * fc_page_size s + page_len s i \<le> length (content (fc_inner s))"
proof -
  show dv: "512 dvd i * fc_page_size s" using fc_invD(6) [OF inv] by simp
  have "512 dvd fc_dev_size s - i * fc_page_size s" using dv fc_invD(4,7) [OF inv] by (simp add: dvd_diff_nat)
  then show "512 dvd page_len s i" using fc_invD(6) [OF inv] by (simp add: page_len_def min_def)
  show "i * fc_page_size s + page_len s i \<le> length (content (fc_inner s))"
    using page_len_bounds(2) [OF fc_invD(2) [OF inv] i] .
qed

lemma ensure_page_ok:
  assumes inv: "fc_inv content binv s" and i: "i < fc_num_pages s"
  shows "is_ok (fst (ensure_page E B i s))"
proof (cases "bit_get (fc_present s) i")
  case False
  obtain q s1 where f: "fetch_page E B i (page_len s i) s = (q, s1)" by fastforce
  note io = fc_page_io [OF inv i]
  obtain d i' where rd: "b_read B (fc_inner s) (i * fc_page_size s) (page_len s i) = (Inr d, i')"
    using read_ok [OF fc_invD(1) [OF inv] io] by (auto simp: is_ok_ex) (metis prod.collapse)
  have "i * fc_page_size s + page_len s i < u64_limit" using io(3) fc_invD(3) [OF inv] by simp
  then have "length d = page_len s i" using read_law [OF fc_invD(1) [OF inv] _ rd] by blast
  then have "q = Inr d"
    using f rd fc_invD(8) [OF inv] by (simp add: fetch_page_def try_peer_page_def)
  moreover have "is_ok (fst (store_clean_page E i d s1))"
    using fetch_page_spec [OF inv i f] fc_invD(8)
    by (auto simp: store_clean_page_def Let_def punch_hole_def write_present_byte_def set_present_def fc_keeps_def
        intro!: account_present_ok split: prod.splits)
  ultimately show ?thesis using f False by (auto simp: ensure_page_def Let_def split: prod.splits sum.splits)
qed (simp add: ensure_page_def Let_def)

lemma fc_store_chunk_ok:
  assumes inv: "fc_inv content binv s" and i: "off div fc_page_size s < fc_num_pages s"
  shows "is_ok (fst (fc_store_chunk E B off d s))"
proof -
  define i where "i = off div fc_page_size s"
  obtain q s1 where e: "(if length d \<noteq> fc_page_size s then ensure_page E B i s else (Inr 0, s)) = (q, s1)" by fastforce
  have k: "fc_keeps content binv s s1"
    using e ensure_page_spec [OF inv i [folded i_def]] fc_keeps_refl [OF inv] by (auto split: if_splits)
  have "is_ok q" using e ensure_page_ok [OF inv i [folded i_def]] by (auto split: if_splits)
  then have "fc_store_chunk E B off d s = dirty_page_region E i (off mod fc_page_size s) d s1"
    using e by (auto simp: fc_store_chunk_def i_def Let_def is_ok_ex)
  moreover have "is_ok (fst (dirty_page_region E i (off mod fc_page_size s) d s1))"
  proof -
    have inv1: "fc_inv content binv s1" using k by (simp add: fc_keeps_def)
    have "i < fc_num_pages s1" using k i fc_invD(9) [OF inv] fc_invD(9) [OF inv1] by (simp add: fc_keeps_def i_def)
    from dirty_page_region_ok [OF inv1 this] show ?thesis by (metis prod.collapse)
  qed
  ultimately show ?thesis by simp
qed

lemma fc_read_chunk_ok:
  assumes inv: "fc_inv content binv s" and "512 dvd off" "512 dvd n" "off + n \<le> length (content (fc_inner s))"
  shows "is_ok (fst (fc_read_chunk E B off n s))"
proof -
  obtain d i' where rd: "b_read B (fc_inner s) off n = (Inr d, i')"
    using read_ok [OF fc_invD(1) [OF inv] assms(2-4)] by (auto simp: is_ok_ex) (metis prod.collapse)
  have "off + n < u64_limit" using assms(4) fc_invD(3) [OF inv] by simp
  then have "length d = n" using read_law [OF fc_invD(1) [OF inv] _ rd] by blast
  then show ?thesis
    using rd fc_invD(8) [OF inv] by (simp add: fc_read_chunk_def try_peer_page_def Let_def)
qed

lemma chunk_aligned:
  assumes "512 dvd ps" "512 dvd off" "512 dvd len" "512 dvd pos"
  shows "512 dvd chunk_at ps off len pos"
  using assms by (auto simp: chunk_at_def min_def dvd_mod_iff intro!: dvd_diff_nat)

lemma fc_read_loop_ok:
  assumes "fc_inv content binv s" and "ps = fc_page_size s" and "off + len \<le> length (content (fc_inner s))"
    and "512 dvd off" "512 dvd len" "512 dvd pos"
  shows "is_ok (fst (fc_read_loop E B ps off len pos result s))"
  using assms
proof (induction "len - pos" arbitrary: pos result s rule: less_induct)
  case less
  have ps: "0 < ps" "512 dvd ps" using fc_invD(5,6) [OF less.prems(1)] less.prems(2) by simp_all
  show ?case
  proof (cases "pos < len")
    case False
    with ps show ?thesis by (simp add: fc_read_loop.simps)
  next
    case True
    define n where "n = chunk_at ps off len pos"
    note rng = fc_chunk_range [OF less.prems(1) True less.prems(3) n_def [unfolded less.prems(2)]]
    have al: "512 dvd n" "512 dvd off + pos" using chunk_aligned ps(2) less.prems(4-6) by (simp_all add: n_def)
    obtain d s1 where c: "fc_read_chunk E B (off + pos) n s = (Inr d, s1)"
      using fc_read_chunk_ok [OF less.prems(1) al(2,1)] rng(4) less.prems(3) by (auto simp: is_ok_ex) (metis prod.collapse)
    have k: "fc_keeps content binv s s1" using fc_read_chunk_spec [OF less.prems(1) rng(1,2,3) c] by simp
    have s1: "fc_inv content binv s1" "ps = fc_page_size s1" "off + len \<le> length (content (fc_inner s1))" "512 dvd pos + n"
      using k less.prems al by (simp_all add: fc_keeps_def)
    note less.hyps [OF rng(5) s1(1-3) less.prems(4,5) s1(4), of "overwrite pos d result"]
    then show ?thesis using c True ps by (simp add: fc_read_loop.simps [of E B ps off len pos] n_def Let_def)
  qed
qed

lemma fc_write_loop_ok:
  assumes "fc_inv content binv s" and "ps = fc_page_size s" and "off + length d \<le> length (content (fc_inner s))"
  shows "is_ok (fst (fc_write_loop E B ps off d pos s))"
  using assms
proof (induction "length d - pos" arbitrary: pos s rule: less_induct)
  case less
  have ps: "0 < ps" using fc_invD(5) [OF less.prems(1)] less.prems(2) by simp
  show ?case
  proof (cases "pos < length d")
    case False
    with ps show ?thesis by (simp add: fc_write_loop.simps)
  next
    case True
    define n where "n = chunk_at ps off (length d) pos"
    note rng = fc_chunk_range [OF less.prems(1) True less.prems(3) n_def [unfolded less.prems(2)]]
    have fits: "(off + pos) mod fc_page_size s + length (segment pos n d) \<le> page_len s ((off + pos) div fc_page_size s)"
      using rng(2,4) by (simp add: length_segment)
    obtain x s1 where c: "fc_store_chunk E B (off + pos) (segment pos n d) s = (Inr x, s1)"
      using fc_store_chunk_ok [OF less.prems(1) rng(1)] by (auto simp: is_ok_ex) (metis prod.collapse)
    have s1: "fc_inv content binv s1" "ps = fc_page_size s1" "off + length d \<le> length (content (fc_inner s1))"
      using fc_store_chunk_spec [OF less.prems(1) rng(1) fits c] less.prems by simp_all
    note less.hyps [OF rng(5) s1]
    then show ?thesis using c True ps by (simp add: fc_write_loop.simps [of E B ps off d pos] n_def Let_def)
  qed
qed

lemma fc_flush_page_ok:
  assumes inv: "fc_inv content binv s" and i: "i < fc_num_pages s"
  shows "fst (fc_flush_page E B i s) = Inr ()"
proof (cases "bit_get (fc_dirty s) i")
  case True
  define buf where "buf = segment (i * fc_page_size s) (page_len s i) (df_cur (fc_data s))"
  note io = fc_page_io [OF inv i]
  have sh: "length (fc_dirty_gen s) = fc_num_pages s" "length (df_cur (fc_data s)) = length (content (fc_inner s))"
    using fc_invD(2) [OF inv] by (simp_all add: fc_shape_def)
  then have "length buf = page_len s i" using io(3) by (simp add: buf_def length_segment)
  with write_ok [OF fc_invD(1) [OF inv] io(1), of buf] io
  obtain i' where "b_write B (fc_inner s) (i * fc_page_size s) buf = (Inr (), i')"
    by (auto simp: is_ok_ex) (metis prod.collapse)
  with True i sh fc_invD(8) [OF inv] page_len_bounds(1) [OF fc_invD(2) [OF inv] i] show ?thesis
    by (auto simp: fc_flush_page_def page_snapshot_def Let_def buf_def page_uploaded_def fc_publish_def
        set_dirty_def persist_meta_bit_def)
qed (simp add: fc_flush_page_def page_snapshot_def)

lemma fc_flush_pages_ok:
  assumes "fc_inv content binv s" and "\<forall>i \<in> set idxs. i < fc_num_pages s"
  shows "fst (fc_flush_pages E B idxs None s) = Inr ()"
  using assms
proof (induction idxs arbitrary: s)
  case (Cons i idxs)
  obtain s1 where f: "fc_flush_page E B i s = (Inr (), s1)"
    using fc_flush_page_ok [OF Cons.prems(1), of i] Cons.prems(2) by (metis list.set_intros(1) prod.collapse)
  from fc_flush_page_spec [OF Cons.prems(1) _ f] Cons.prems have "fc_cleans content binv s s1" by simp
  with Cons f show ?case by (simp add: fc_cleans_def)
qed simp

lemma fc_flush_ok:
  assumes inv: "fc_inv content binv s"
  shows "is_ok (fst (fc_flush E B s))"
proof -
  define ds where "ds = fc_dirty_pages s"
  have ds: "\<forall>i \<in> set ds. i < fc_num_pages s" by (auto simp: ds_def fc_dirty_pages_def)
  obtain s1 where f: "(if ds \<noteq> [] then fc_flush_pages E B ds None s else (Inr (), s)) = (Inr (), s1)"
    using fc_flush_pages_ok [OF inv ds] by (metis prod.collapse)
  then have "fc_inv content binv s1"
    using fc_flush_pages_spec [OF inv ds] inv by (auto simp: fc_cleans_def split: if_splits)
  then obtain i1 where "b_flush B (fc_inner s1) = (Inr (), i1)"
    using flush_ok [OF fc_invD(1)] by (auto simp: is_ok_ex) (metis prod.collapse)
  with f show ?thesis
    by (auto simp: fc_flush_def ds_def [symmetric] Let_def split: prod.splits sum.splits option.splits)
qed

lemma fc_read_ok:
  assumes "fc_inv content binv s" "512 dvd off" "512 dvd len" "off + len \<le> length (fc_view content s)"
  shows "is_ok (fst (fc_read E B s off len))"
  using fc_read_loop_ok [OF assms(1) refl] assms fc_invD(3,7) [OF assms(1)]
  by (auto simp: fc_read_def is_multiple_of_def fc_check_in_bounds_def checked_add_def)

lemma fc_write_ok:
  assumes "fc_inv content binv s" "512 dvd off" "512 dvd length d" "off + length d \<le> length (fc_view content s)"
  shows "is_ok (fst (fc_write E B s off d))"
  using fc_write_loop_ok [OF assms(1) refl] assms fc_invD(3,7) [OF assms(1)]
  by (auto simp: fc_write_def is_multiple_of_def fc_check_in_bounds_def checked_add_def)

end

sublocale fcache_reliable \<subseteq> fc: reliable_backend "fcache_backend E B" "fc_view content"
  "\<lambda>s. durable (fc_inner s)" "fc_inv content binv"
proof (unfold_locales, goal_cases)
  case (1 s off len)
  then show ?case using fc_read_ok by simp
next
  case (2 s off d)
  then show ?case using fc_write_ok by simp
next
  case (3 s off len)
  then show ?case using fc_write_ok [of s off "zeros len"] by (simp add: fc_clear_eq)
next
  case (4 s)
  then show ?case using fc_flush_ok by simp
next
  case (5 s)
  then show ?case by (simp add: fc_size_def)
qed

context fcache_layer
begin

lemma fc_is_backend: "blob_backend (fcache_backend E B) (fc_view content)
    (\<lambda>s. durable (fc_inner s)) (fc_inv content binv)"
  by (rule fc.blob_backend_axioms)

end

context fcache_reliable
begin

lemma fc_is_reliable: "reliable_backend (fcache_backend E B) (fc_view content)
    (\<lambda>s. durable (fc_inner s)) (fc_inv content binv)"
  by (rule fc.reliable_backend_axioms)

end

lemma fcache_layerI: "page_store B content durable binv \<Longrightarrow> fcache_layer B content durable binv"
  by (simp add: fcache_layer_def)

lemma fcache_reliableI: "reliable_backend B content durable binv \<Longrightarrow> fcache_reliable B content durable binv"
  by (simp add: fcache_reliable_def fcache_layerI reliable_backend.axioms
    blob_backend.axioms(1) [OF reliable_backend.axioms(1)])

interpretation fc_over_mem: fcache_reliable mem_backend mem_data mem_data mem_inv E for E
  by (rule fcache_reliableI [OF mem.reliable_backend_axioms])

end
