(* ===== verification/File_Cache_Recovery.thy ===== *)
theory File_Cache_Recovery
  imports File_Cache_Refines
begin

text \<open>
  What survives in the disk cache's local files. A restart on the files of a running cache, and a
  restart after a power loss that keeps, byte by byte, either the synced or the current contents,
  give back the device that clients saw, dirty pages included.
\<close>

section \<open>Opening a cache on files that describe one\<close>

lemma load_meta_ok:
  assumes "meta_ok ps dev np P D (df_cur m)"
  shows "load_or_init_meta ps dev np m = (P, D, count_bits D np, m)"
  using assms by (auto simp: load_or_init_meta_def meta_ok_def Let_def)

lemma clear_clean_bits_spec:
  assumes "clear_clean_bits is p d = (p', n)" and "\<forall>i \<in> set is. i div 8 < length p" and "distinct is"
  shows "length p' = length p \<and>
    (\<forall>k. bit_get p' k \<longleftrightarrow> bit_get p k \<and> (k \<in> set is \<longrightarrow> bit_get d k)) \<and> (n = 0 \<longrightarrow> p' = p)"
  using assms
proof (induction "is" p d arbitrary: p' n rule: clear_clean_bits.induct)
  case (2 i "is" p d)
  show ?case
  proof (cases "bit_get p i \<and> \<not> bit_get d i")
    case True
    then obtain m where "clear_clean_bits is (bit_set p i False) d = (p', m)" "n = Suc m"
      using "2.prems"(1) by (auto split: prod.splits)
    with "2.IH"(1) [OF True] "2.prems"(2,3) True show ?thesis
      by (auto simp: bit_get_set)
  next
    case False
    then have rec: "clear_clean_bits is p d = (p', n)" using "2.prems"(1) by auto
    have "length p' = length p \<and>
        (\<forall>k. bit_get p' k \<longleftrightarrow> bit_get p k \<and> (k \<in> set is \<longrightarrow> bit_get d k)) \<and> (n = 0 \<longrightarrow> p' = p)"
      using "2.IH"(2) [OF False rec] "2.prems"(2,3) by simp
    with False show ?thesis by auto
  qed
qed simp

lemma meta_ok_bitmap:
  assumes "meta_ok ps dev np P D m" and "length P' = bitmap_bytes np"
  shows "meta_ok ps dev np P' D (overwrite HEADER_SIZE P' m)"
  using assms segment_overwrite_same [of HEADER_SIZE P' m]
  unfolding meta_ok_def by (simp add: length_overwrite segment_overwrite_disjoint HEADER_SIZE_def)

lemma meta_ok_lengths:
  "meta_ok ps dev np P D m \<Longrightarrow> length P = bitmap_bytes np \<and> length D = bitmap_bytes np"
  by (auto simp: meta_ok_def length_segment)

text \<open>Dropping the clean pages leaves the dirty ones and a synced metadata file that says so.\<close>

lemma drop_clean_pages_spec:
  assumes loc: "local_files ps dev np P D data meta" and dp: "\<forall>i < np. bit_get D i \<longrightarrow> bit_get P i"
    and r: "drop_clean_pages P D np meta = (P', n, meta')"
  shows "local_files ps dev np P' D data meta' \<and> (\<forall>i < np. bit_get P' i \<longleftrightarrow> bit_get D i)"
proof -
  obtain n' where c: "clear_clean_bits [0 ..< np] P D = (P', n')"
    and m: "meta' = (if 0 < n' then file_sync (file_write HEADER_SIZE P' meta) else meta)"
    using r by (auto simp: drop_clean_pages_def split: prod.splits)
  have mk: "meta_ok ps dev np P D (df_cur meta)" using loc by (simp add: local_files_def)
  have spec: "length P' = length P" "\<forall>k. bit_get P' k \<longleftrightarrow> bit_get P k \<and> (k < np \<longrightarrow> bit_get D k)" "n' = 0 \<longrightarrow> P' = P"
    using clear_clean_bits_spec [OF c] meta_ok_lengths [OF mk] by (auto simp: bitmap_index)
  have "meta_ok ps dev np P' D (overwrite HEADER_SIZE P' (df_cur meta))"
    using meta_ok_bitmap [OF mk] spec(1) meta_ok_lengths [OF mk] by simp
  with loc spec dp show ?thesis
    by (auto simp: local_files_def m file_sync_def file_write_def)
qed

lemma seed_lru_spec:
  assumes "lru_inv l" and "seed_lru E ps dev data P D is (l, n) = (l', n')"
    and "\<forall>k \<in> evictable_pages l. k < np \<and> \<not> bit_get D k" and "\<forall>k \<in> set is. k < np"
  shows "lru_inv l' \<and> (\<forall>k \<in> evictable_pages l'. k < np \<and> \<not> bit_get D k)"
  using assms
proof (induction "is" arbitrary: l n)
  case (Cons i "is")
  define l1 where "l1 = touch l i (\<not> bit_get D i)"
  have l1: "lru_inv l1" "\<forall>k \<in> evictable_pages l1. k < np \<and> \<not> bit_get D k"
    using Cons.prems(3,4) touch_inv [OF Cons.prems(1)]
    by (simp_all add: l1_def touch_evictable [OF Cons.prems(1)])
  obtain m where "seed_lru E ps dev data P D is (l1, m) = (l', n') \<or> seed_lru E ps dev data P D is (l, m) = (l', n')"
    using Cons.prems(2) unfolding seed_lru.simps Let_def l1_def by (meson)
  with Cons.IH [OF l1(1) _ l1(2)] Cons.IH [OF Cons.prems(1) _ Cons.prems(3)] Cons.prems(4) show ?case by auto
qed simp

text \<open>
  The cache that \<open>open\<close> returns. Either the recorded token differs, and the clean pages are
  dropped, or the clean pages have to agree with the layer below.
\<close>

definition reopened_view :: "nat \<Rightarrow> bytes \<Rightarrow> bytes \<Rightarrow> bytes \<Rightarrow> bytes" where
  "reopened_view ps D data C = map (\<lambda>j. if bit_get D (j div ps) then data ! j else C ! j) [0 ..< length C]"

lemma fc_open_fields:
  assumes r: "fc_open E inner cfg dev cur data meta etag bf xf punches = Inr (t, n)" and sh: "\<not> fcc_share_pages cfg"
    and loc: "local_files ps dev np P D data meta" and np: "ps = fcc_page_size cfg" "np = div_ceil dev ps"
    and len: "length (df_cur data) = dev"
  obtains P' meta' where "fc_inner t = inner" "fc_page_size t = ps" "fc_dev_size t = dev" "fc_num_pages t = np"
    "fc_index t = None" "fc_data t = data" "fc_meta t = meta'" "fc_present t = P'" "fc_dirty t = D"
    "fc_dirty_gen t = replicate np 0" "0 < ps" "512 dvd ps" "0 < dev"
    "\<exists>l m. seed_resident E (fc_budget t) ps dev (df_cur data) P' D np = (l, m) \<and> fc_lru t = l"
    "fcc_max_bytes cfg = 0 \<longrightarrow> fc_budget t = None"
    "(\<exists>c k. cur = Some c \<and> read_recorded_etag etag \<noteq> Some c \<and> drop_clean_pages P D np meta = (P', k, meta')) \<or>
     (cur = None \<or> read_recorded_etag etag = cur) \<and> P' = P \<and> meta' = meta"
proof -
  have mk: "meta_ok ps dev np P D (df_cur meta)" using loc by (simp add: local_files_def)
  have same: "file_set_len dev data = data"
    using len loc by (cases data) (auto simp: file_set_len_def resize_def local_files_def)
  obtain P' meta' where pm: "validate_token cur (read_recorded_etag etag) P D np meta = (P', meta')" by fastforce
  have cfg: "0 < ps" "512 dvd ps" "0 < dev"
    using r np(1) by (auto simp: fc_open_def is_multiple_of_def split: if_splits)
  obtain budget bf0 where bo: "budget_open None (fe_alive E) (fe_pid E) (fcc_name cfg) (fcc_max_bytes cfg) bf = (Inr budget, bf0)"
    using r cfg np load_meta_ok [OF mk] pm
    by (cases "budget_open None (fe_alive E) (fe_pid E) (fcc_name cfg) (fcc_max_bytes cfg) bf"; cases "fst (budget_open None (fe_alive E) (fe_pid E) (fcc_name cfg) (fcc_max_bytes cfg) bf)")
       (auto simp: fc_open_def Let_def is_multiple_of_def)
  obtain l m where sl: "seed_resident E budget ps dev (df_cur data) P' D np = (l, m)" by fastforce
  obtain rb bf1 where rb: "charge_resident E budget m bf0 = (Inr rb, bf1)"
  proof (cases budget)
    case (Some cb)
    obtain x f where x: "budget_reset None (fe_alive E) cb m bf0 = (x, f)" by fastforce
    with Some that show thesis by (cases x) (auto simp: budget_reset_def charge_resident_def)
  qed (use that in \<open>simp add: charge_resident_def\<close>)
  define s where "s = \<lparr>fc_inner = inner, fc_page_size = ps, fc_budget = budget, fc_index = None,
      fc_punch_supported = fe_punch_probe E, fc_data = data, fc_meta = meta', fc_dev_size = dev, fc_num_pages = np,
      fc_present = P', fc_dirty = D, fc_dirty_gen = replicate np 0, fc_resident_bytes = m, fc_lru = l,
      fc_etag_file = (case cur of Some c \<Rightarrow> write_recorded_etag c | None \<Rightarrow> etag),
      fc_budget_file = bf1, fc_index_file = xf, fc_punch_outcomes = punches\<rparr>"
  have "t = s"
    using r sh cfg load_meta_ok [OF mk] pm bo sl rb same
    unfolding fc_open_def Let_def is_multiple_of_def s_def np by simp
  with that [of meta' P'] cfg sl pm show thesis
    using bo by (auto simp: s_def validate_token_def budget_open_def split: option.splits if_splits prod.splits)
qed

lemma fc_open_spec:
  assumes r: "fc_open E inner cfg dev cur data meta etag bf xf punches = Inr (t, n)" and sh: "\<not> fcc_share_pages cfg"
    and loc: "local_files ps dev np P D data meta" and np: "ps = fcc_page_size cfg" "np = div_ceil dev ps"
    and len: "length (df_cur data) = dev" and dp: "\<forall>i < np. bit_get D i \<longrightarrow> bit_get P i"
    and b: "binv inner" "dev = length (content inner)"
    and clean: "cur = None \<or> read_recorded_etag etag = cur \<Longrightarrow>
      \<forall>j < dev. bit_get P (j div ps) \<longrightarrow> \<not> bit_get D (j div ps) \<longrightarrow> df_cur data ! j = content inner ! j"
  shows "fc_inv content binv t \<and> fc_view content t = reopened_view ps D (df_cur data) (content inner)"
proof -
  obtain P' meta' where f: "fc_inner t = inner" "fc_page_size t = ps" "fc_dev_size t = dev" "fc_num_pages t = np"
    "fc_index t = None" "fc_data t = data" "fc_meta t = meta'" "fc_present t = P'" "fc_dirty t = D"
    "fc_dirty_gen t = replicate np 0" "0 < ps" "512 dvd ps" "0 < dev"
    and l: "\<exists>l m. seed_resident E (fc_budget t) ps dev (df_cur data) P' D np = (l, m) \<and> fc_lru t = l"
    and p: "(\<exists>c k. cur = Some c \<and> read_recorded_etag etag \<noteq> Some c \<and> drop_clean_pages P D np meta = (P', k, meta')) \<or>
     (cur = None \<or> read_recorded_etag etag = cur) \<and> P' = P \<and> meta' = meta"
    by (rule fc_open_fields [OF r sh loc np len]) blast
  have lf: "local_files ps dev np P' D data meta'" and dp': "\<forall>i < np. bit_get D i \<longrightarrow> bit_get P' i"
    and match: "\<forall>j < dev. bit_get P' (j div ps) \<longrightarrow> \<not> bit_get D (j div ps) \<longrightarrow> df_cur data ! j = content inner ! j"
    using p clean loc dp drop_clean_pages_spec [OF loc dp] page_in_range [OF _ f(11)] np(2) by auto
  have lens: "length P' = bitmap_bytes np" "length D = bitmap_bytes np"
    using lf meta_ok_lengths by (auto simp: local_files_def)
  have lru0: "lru_inv lru_default" "evictable_pages lru_default = {}"
    by (simp_all add: lru_default_def evictable_pages_def lru_inv_def)
  have seeded: "lru_inv l \<and> (\<forall>k \<in> evictable_pages l. k < np \<and> \<not> bit_get D k)"
    if "seed_lru E ps dev (df_cur data) P' D [0 ..< np] (lru_default, 0) = (l, m)" for l m
    by (rule seed_lru_spec [OF lru0(1) that]) (simp_all add: lru0)
  have "lru_inv (fc_lru t) \<and> (\<forall>k \<in> evictable_pages (fc_lru t). k < np \<and> \<not> bit_get D k)"
  proof (cases "fc_budget t = None")
    case True
    with l lru0 show ?thesis by (simp add: seed_resident_def)
  next
    case False
    with l seeded show ?thesis by (auto simp: seed_resident_def)
  qed
  then have "fc_shape dev t" using f lens len np(2) by (simp add: fc_shape_def)
  moreover have "fc_view content t = reopened_view ps D (df_cur data) (content inner)"
    unfolding fc_view_def reopened_view_def
    using match dp' page_in_range [OF _ f(11)] by (auto simp: f b np(2))
  ultimately show ?thesis
    using match dp' lf b by (simp add: fc_inv_def fc_local_def clean_match_def dirty_present_def f)
qed

section \<open>Power loss\<close>

text \<open>After a power loss every byte of a file is its last synced or its current version.\<close>

definition crash_file :: "disk_file \<Rightarrow> bytes \<Rightarrow> bool" where
  "crash_file f c \<longleftrightarrow> length c = length (df_cur f) \<and> (\<forall>j < length c. c ! j = df_cur f ! j \<or> c ! j = df_synced f ! j)"

abbreviation at_rest :: "bytes \<Rightarrow> disk_file" where
  "at_rest c \<equiv> \<lparr>df_cur = c, df_synced = c\<rparr>"

lemma crash_segment:
  assumes "crash_file f c" and "segment a n (df_cur f) = segment a n (df_synced f)"
    and "length (df_synced f) = length (df_cur f)" and "a + n \<le> length (df_cur f)"
  shows "segment a n c = segment a n (df_cur f)"
proof (rule nth_equalityI)
  show "length (segment a n c) = length (segment a n (df_cur f))" using assms by (simp add: length_segment crash_file_def)
  fix j assume "j < length (segment a n c)"
  then have j: "j < n" "a + j < length c" by (auto simp: length_segment)
  then have "df_cur f ! (a + j) = df_synced f ! (a + j)"
    using arg_cong [OF assms(2), of "\<lambda>xs. xs ! j"] assms(1,3) by (simp add: nth_segment crash_file_def)
  with j assms(1) show "segment a n c ! j = segment a n (df_cur f) ! j" by (auto simp: nth_segment crash_file_def)
qed

lemma le_val_inj: "length a = length b \<Longrightarrow> le_val a = le_val b \<Longrightarrow> a = b"
  by (metis le_bytes_val)

text \<open>The metadata after a power loss still records the dirty pages, all present.\<close>

lemma crash_meta:
  assumes loc: "local_files ps dev np P D data meta" and dp: "\<forall>i < np. bit_get D i \<longrightarrow> bit_get P i"
    and c: "crash_file meta c"
  shows "\<exists>Q. meta_ok ps dev np Q D c \<and> (\<forall>i < np. bit_get D i \<longrightarrow> bit_get Q i)"
proof -
  define H where "H = HEADER_SIZE"
  define bm where "bm = bitmap_bytes np"
  define Q where "Q = segment H bm c"
  have m: "meta_ok ps dev np P D (df_cur meta)" and lm: "length (df_synced meta) = length (df_cur meta)"
    using loc by (simp_all add: local_files_def)
  obtain R where R: "meta_ok ps dev np R D (df_synced meta)" "\<forall>i < np. bit_get D i \<longrightarrow> bit_get R i"
    using loc by (auto simp: local_files_def)
  have len: "H + 2 * bm \<le> length (df_cur meta)" "length c = length (df_cur meta)" "H = 64"
    using meta_ok_length [OF m] c by (simp_all add: H_def bm_def crash_file_def HEADER_SIZE_def)
  have eqs: "segment 0 8 (df_cur meta) = segment 0 8 (df_synced meta)"
      "segment 8 4 (df_cur meta) = segment 8 4 (df_synced meta)"
      "segment 16 8 (df_cur meta) = segment 16 8 (df_synced meta)"
      "segment 24 8 (df_cur meta) = segment 24 8 (df_synced meta)"
      "segment (H + bm) bm (df_cur meta) = segment (H + bm) bm (df_synced meta)"
    using m R(1) lm by (auto simp: meta_ok_def H_def bm_def length_segment intro!: le_val_inj)
  have "segment 0 8 c = segment 0 8 (df_cur meta)" "segment 8 4 c = segment 8 4 (df_cur meta)"
    "segment 16 8 c = segment 16 8 (df_cur meta)" "segment 24 8 c = segment 24 8 (df_cur meta)"
    "segment (H + bm) bm c = segment (H + bm) bm (df_cur meta)"
    using crash_segment [OF c _ lm] eqs len by auto
  then have "meta_ok ps dev np Q D c"
    using m len by (simp add: meta_ok_def Q_def H_def [symmetric] bm_def [symmetric])
  moreover have "bit_get Q i" if i: "i < np" "bit_get D i" for i
  proof -
    have k: "i div 8 < bm" using bitmap_index [OF i(1)] by (simp add: bm_def)
    have seg: "P = segment H bm (df_cur meta)" "R = segment H bm (df_synced meta)"
      using m R(1) by (simp_all add: meta_ok_def H_def bm_def)
    have "Q ! (i div 8) = P ! (i div 8) \<or> Q ! (i div 8) = R ! (i div 8)"
      using c k len lm by (auto simp: Q_def seg nth_segment crash_file_def)
    moreover have "bit_get P i" "bit_get R i" using dp R(2) i by simp_all
    ultimately show ?thesis using k len by (auto simp: bit_get_bit Q_def length_segment)
  qed
  ultimately show ?thesis by blast
qed

text \<open>What a client sees is the dirty pages over the layer below.\<close>

lemma fc_view_dirty:
  assumes "fc_inv content binv s"
  shows "fc_view content s = reopened_view (fc_page_size s) (fc_dirty s) (df_cur (fc_data s)) (content (fc_inner s))"
proof (rule nth_equalityI)
  fix j assume "j < length (fc_view content s)"
  then have j: "j < length (content (fc_inner s))" by simp
  have "j div fc_page_size s < fc_num_pages s"
    using assms page_in_range [OF j] by (auto simp: fc_inv_def fc_shape_def)
  with j assms show "fc_view content s ! j =
      reopened_view (fc_page_size s) (fc_dirty s) (df_cur (fc_data s)) (content (fc_inner s)) ! j"
    by (auto simp: nth_fc_view reopened_view_def fc_inv_def clean_match_def dirty_present_def)
qed (simp add: reopened_view_def)

lemma crash_files:
  assumes inv: "fc_inv content binv s" and d: "crash_file (fc_data s) d" and m: "crash_file (fc_meta s) m"
  shows "\<exists>Q. local_files (fc_page_size s) (fc_dev_size s) (fc_num_pages s) Q (fc_dirty s) (at_rest d) (at_rest m) \<and>
      (\<forall>i < fc_num_pages s. bit_get (fc_dirty s) i \<longrightarrow> bit_get Q i)"
    and "length d = fc_dev_size s"
    and "\<And>j. j < fc_dev_size s \<Longrightarrow> bit_get (fc_dirty s) (j div fc_page_size s) \<Longrightarrow> d ! j = df_cur (fc_data s) ! j"
proof -
  have loc: "local_files (fc_page_size s) (fc_dev_size s) (fc_num_pages s) (fc_present s) (fc_dirty s) (fc_data s) (fc_meta s)"
    and dp: "\<forall>i < fc_num_pages s. bit_get (fc_dirty s) i \<longrightarrow> bit_get (fc_present s) i"
    and len: "length (df_cur (fc_data s)) = fc_dev_size s"
    using inv by (auto simp: fc_inv_def fc_local_def dirty_present_def fc_shape_def)
  show "\<exists>Q. local_files (fc_page_size s) (fc_dev_size s) (fc_num_pages s) Q (fc_dirty s) (at_rest d) (at_rest m) \<and>
      (\<forall>i < fc_num_pages s. bit_get (fc_dirty s) i \<longrightarrow> bit_get Q i)"
    using crash_meta [OF loc dp m] by (fastforce simp: local_files_def)
  show "length d = fc_dev_size s" using d len by (simp add: crash_file_def)
  show "d ! j = df_cur (fc_data s) ! j" if "j < fc_dev_size s" "bit_get (fc_dirty s) (j div fc_page_size s)" for j
    using d loc that len by (auto simp: crash_file_def local_files_def)
qed

section \<open>Opening a cache for the first time\<close>

lemma count_bits_zeros [simp]: "count_bits (zeros n) k = 0"
  by (simp add: count_bits_def)

lemma fc_open_new:
  assumes m: "length (df_cur meta) < HEADER_SIZE" and ps: "fcc_page_size cfg < u64_limit" "dev < u64_limit"
  defines "np \<equiv> div_ceil dev (fcc_page_size cfg)"
  defines "bm \<equiv> zeros (bitmap_bytes np)"
  defines "meta' \<equiv> write_full_meta (fcc_page_size cfg) dev np bm bm meta"
  shows "fc_open E inner cfg dev cur data meta etag bf xf punches =
    fc_open E inner cfg dev cur (file_set_len dev data) meta' etag bf xf punches"
    and "local_files (fcc_page_size cfg) dev np bm bm (file_set_len dev data) meta'"
proof -
  have wf: "meta_ok (fcc_page_size cfg) dev np bm bm (df_cur meta')" "df_synced meta' = df_cur meta'"
    unfolding meta'_def by (rule write_full_meta_ok [OF _ _ ps]; simp add: bm_def)+
  have "load_or_init_meta (fcc_page_size cfg) dev np meta = (bm, bm, 0, meta')"
    using m by (simp add: load_or_init_meta_def Let_def bm_def meta'_def)
  moreover have "load_or_init_meta (fcc_page_size cfg) dev np meta' = (bm, bm, 0, meta')"
    using load_meta_ok [OF wf(1)] by (simp add: bm_def)
  moreover have "file_set_len dev (file_set_len dev data) = file_set_len dev data"
    by (simp add: file_set_len_def resize_def)
  ultimately show "fc_open E inner cfg dev cur data meta etag bf xf punches =
    fc_open E inner cfg dev cur (file_set_len dev data) meta' etag bf xf punches"
    by (simp add: fc_open_def np_def [symmetric] Let_def)
  show "local_files (fcc_page_size cfg) dev np bm bm (file_set_len dev data) meta'"
    using wf by (auto simp: local_files_def bm_def file_set_len_def resize_def)
qed

lemma fc_opened_new:
  assumes "length (df_cur meta) < HEADER_SIZE" and "fcc_page_size cfg < u64_limit" and "\<not> fcc_share_pages cfg"
    and "page_store B content durable binv" and "binv inner" and "dev = length (content inner)"
    and "fc_open E inner cfg dev cur data meta etag bf xf punches = Inr (t, n)"
  shows "fc_inv content binv t \<and> fc_view content t = content inner"
proof -
  have "dev < u64_limit" using page_store.size_aligned [OF assms(4,5)] assms(6) by simp
  note new = fc_open_new [OF assms(1,2) this]
  have len: "length (df_cur (file_set_len dev data)) = dev" by (simp add: file_set_len_def resize_def)
  from fc_open_spec [where content = content and binv = binv, OF assms(7) [unfolded new(1)] assms(3) new(2) refl refl len _ assms(5,6)]
  show ?thesis by (simp add: reopened_view_def assms(6) map_nth)
qed

lemma fc_open_inner:
  "fc_open E inner cfg dev cur data meta etag bf xf punches = Inr (t, n) \<Longrightarrow> fc_inner t = inner"
  by (auto simp: fc_open_def Let_def split: if_splits sum.splits prod.splits)

lemma fc_open_plain_ok:
  assumes "0 < fcc_page_size cfg" "512 dvd fcc_page_size cfg" "0 < dev" "fcc_max_bytes cfg = 0" "\<not> fcc_share_pages cfg"
  shows "\<exists>t n. fc_open E inner cfg dev cur data meta etag bf xf punches = Inr (t, n)"
  using assms
  by (auto simp: fc_open_def is_multiple_of_def budget_open_def charge_resident_def Let_def split: prod.splits)

section \<open>Properties\<close>


text \<open>A cache of two pages over two sectors of memory, and its environment.\<close>

abbreviation tiny_env :: fc_env where
  "tiny_env \<equiv> \<lparr>fe_pid = 1, fe_alive = (\<lambda>_. False), fe_peers = (\<lambda>_. NoSuchFile), fe_seek_data = (\<lambda>_ _. None), fe_punch_probe = True\<rparr>"

abbreviation tiny_fcc :: file_cache_config where
  "tiny_fcc \<equiv> \<lparr>fcc_name = ''c'', fcc_page_size = 512, fcc_max_bytes = 0, fcc_blob_identity = [], fcc_share_pages = False\<rparr>"

abbreviation blank_mem :: mem_state where
  "blank_mem \<equiv> \<lparr>mem_data = zeros 1024, mem_poisoned = False\<rparr>"

lemma blank_mem_inv: "mem_inv blank_mem"
  by (simp add: mem_inv_def u64_limit_def)


text \<open>
  A cache opened for the first time, on files with no valid header and no other validity
  token, is valid, and its client sees exactly the blob.
\<close>

theorem file_cache_open_new:
  assumes "length (df_cur meta) < HEADER_SIZE" and "fcc_page_size cfg < u64_limit" and "\<not> fcc_share_pages cfg"
    and "page_store B content durable binv" and "binv inner" and "dev = length (content inner)"
    and "fc_open E inner cfg dev cur data meta etag bf xf punches = Inr (t, n)"
  shows "fc_inv content binv t \<and> fc_view content t = content inner"
  using assms by (rule fc_opened_new)

lemma tiny_fc:
  obtains t n where "fc_open tiny_env blank_mem tiny_fcc 1024 None (at_rest []) (at_rest []) None [] [] [] = Inr (t, n)"
    and "fc_inv mem_data mem_inv t" and "fc_view mem_data t = zeros 1024" and "fc_inner t = blank_mem"
    and "fc_page_size t = 512" and "fc_dev_size t = 1024" and "fc_budget t = None"
proof -
  obtain t n where o: "fc_open tiny_env blank_mem tiny_fcc 1024 None (at_rest []) (at_rest []) None [] [] [] = Inr (t, n)"
    using fc_open_plain_ok [of tiny_fcc 1024] by fastforce
  have "length (df_cur (at_rest [])) < HEADER_SIZE" "fcc_page_size tiny_fcc < u64_limit" "(1024::nat) < u64_limit"
    by (simp_all add: u64_limit_def HEADER_SIZE_def)
  note new = fc_open_new [OF this]
  have len: "length (df_cur (file_set_len 1024 (at_rest []))) = 1024" by (simp add: file_set_len_def resize_def)
  note o' = o [unfolded new(1)]
  have s: "fc_inv mem_data mem_inv t \<and> fc_view mem_data t = reopened_view (fcc_page_size tiny_fcc) (zeros (bitmap_bytes (div_ceil 1024 (fcc_page_size tiny_fcc))))
      (df_cur (file_set_len 1024 (at_rest []))) (mem_data blank_mem)"
    by (rule fc_open_spec [where content = mem_data and binv = mem_inv, OF o' _ new(2) _ _ len _ blank_mem_inv]) simp_all
  have f: "fc_inner t = blank_mem \<and> fc_page_size t = 512 \<and> fc_dev_size t = 1024 \<and> fc_budget t = None"
    by (rule fc_open_fields [OF o' _ new(2) _ _ len]) simp_all
  have "map ((!) (zeros 1024)) [0 ..< 1024] = zeros 1024" using map_nth [of "zeros 1024"] by simp
  with that [OF o] s f show thesis by (simp add: reopened_view_def)
qed

theorem file_cache_open_new_witness:
  "\<exists>t n. fc_open tiny_env blank_mem tiny_fcc 1024 None (at_rest []) (at_rest []) None [] [] [] = Inr (t, n) \<and>
     fc_inv mem_data mem_inv t \<and> fc_view mem_data t = zeros 1024"
proof -
  obtain t n where o: "fc_open tiny_env blank_mem tiny_fcc 1024 None (at_rest []) (at_rest []) None [] [] [] = Inr (t, n)"
    by (rule tiny_fc)
  have "(0::nat) < HEADER_SIZE" "(512::nat) < u64_limit" by (simp_all add: HEADER_SIZE_def u64_limit_def)
  with file_cache_open_new [OF _ _ _ mem.page_store_axioms blank_mem_inv _ o] o show ?thesis by simp
qed

text \<open>
  A flush of the disk cache that returns success leaves no dirty page, keeps the device the
  client sees, and makes the durable contents below equal to it.
\<close>

theorem file_cache_flush_durable:
  assumes "page_store B content durable binv" and "fc_inv content binv s" and "fc_flush E B s = (Inr (), s')"
  shows "(\<forall>i < fc_num_pages s'. \<not> bit_get (fc_dirty s') i) \<and> fc_view content s' = fc_view content s \<and>
    durable (fc_inner s') = fc_view content s"
  using fcache_layer.fc_flush_spec [OF fcache_layerI [OF assms(1)] assms(2,3)] by simp

text \<open>The concrete write that the instances share.\<close>

lemma tiny_fc_write:
  obtains s where "fc_inv mem_data mem_inv s" and "fc_page_size s = 512" and "fc_dev_size s = 1024"
    and "fc_view mem_data s = overwrite 0 (replicate 512 1) (zeros 1024)" and "mem_data (fc_inner s) = zeros 1024"
proof -
  obtain t n where t: "fc_inv mem_data mem_inv t" "fc_view mem_data t = zeros 1024" "fc_inner t = blank_mem"
    "fc_page_size t = 512" "fc_dev_size t = 1024" "fc_budget t = None"
    by (rule tiny_fc)
  have np: "fc_num_pages t = 2" using t fc_over_mem.fc_invD(9) [OF t(1)] by (simp add: div_ceil_def)
  have w: "fc_write tiny_env mem_backend t 0 (replicate 512 1) = (Inr (), dirtied 0 0 (replicate 512 1) t)"
    using t np
    by (simp add: fc_write_def is_multiple_of_def fc_check_in_bounds_def checked_add_def u64_limit_def
        fc_write_loop.simps chunk_at_def fc_store_chunk_def segment_all dirty_page_region_eq [OF t(1)] account_present_def)
  with fc_over_mem.fc_write_spec [OF t(1) w] t that [of "dirtied 0 0 (replicate 512 1) t"] show thesis
    by simp
qed

theorem file_cache_flush_durable_witness:
  "\<exists>s s'. fc_view mem_data s = overwrite 0 (replicate 512 1) (zeros 1024) \<and> mem_data (fc_inner s) = zeros 1024 \<and>
     fc_flush tiny_env mem_backend s = (Inr (), s') \<and>
     mem_data (fc_inner s') = overwrite 0 (replicate 512 1) (zeros 1024)"
proof -
  obtain s where s: "fc_inv mem_data mem_inv s" "fc_view mem_data s = overwrite 0 (replicate 512 1) (zeros 1024)"
    "mem_data (fc_inner s) = zeros 1024" by (rule tiny_fc_write)
  obtain s' where f: "fc_flush tiny_env mem_backend s = (Inr (), s')"
    using fc_over_mem.fc_flush_ok [OF s(1), of tiny_env] by (auto simp: is_ok_ex) (metis prod.collapse)
  from file_cache_flush_durable [OF mem.page_store_axioms s(1) f] s f show ?thesis by auto
qed

text \<open>
  C6: the disk cache survives a power loss. Each byte of the two local files is then its last
  synced or its current version. Reopening the cache over the unchanged blob shows every byte of
  the pages that were dirty as the client last saw it, and, when the recorded validity token does
  not match, so that the clean pages are dropped, the whole device is as the client last saw it.
\<close>

theorem file_cache_power_loss:
  assumes "fc_inv content binv s"
    and "crash_file (fc_data s) d" and "crash_file (fc_meta s) m"
    and "binv inner" and "content inner = content (fc_inner s)"
    and "fcc_page_size cfg = fc_page_size s" and "\<not> fcc_share_pages cfg"
    and "fc_open E inner cfg (fc_dev_size s) cur (at_rest d) (at_rest m) etag bf xf punches = Inr (t, n)"
  shows "(\<forall>j < fc_dev_size s. bit_get (fc_dirty s) (j div fc_page_size s) \<longrightarrow>
      fc_view content t ! j = fc_view content s ! j) \<and>
    (cur \<noteq> None \<and> read_recorded_etag etag \<noteq> cur \<longrightarrow>
      fc_inv content binv t \<and> fc_view content t = fc_view content s)"
proof -
  note cf = crash_files [OF assms(1-3)]
  obtain Q where Q: "local_files (fc_page_size s) (fc_dev_size s) (fc_num_pages s) Q (fc_dirty s) (at_rest d) (at_rest m)"
    "\<forall>i < fc_num_pages s. bit_get (fc_dirty s) i \<longrightarrow> bit_get Q i" using cf(1) by blast
  have sz: "fc_dev_size s = length (content (fc_inner s))" "fc_num_pages s = div_ceil (fc_dev_size s) (fc_page_size s)"
    "0 < fc_page_size s" using assms(1) by (auto simp: fc_inv_def fc_shape_def)
  have len: "length (df_cur (at_rest d)) = fc_dev_size s" using cf(2) by simp
  note V = fc_view_dirty [OF assms(1)]
  have same: "reopened_view (fc_page_size s) (fc_dirty s) d (content inner) = fc_view content s"
    unfolding V using cf(3) by (auto simp: reopened_view_def assms(5) sz(1))
  have "fc_view content t ! j = fc_view content s ! j"
    if j: "j < fc_dev_size s" "bit_get (fc_dirty s) (j div fc_page_size s)" for j
  proof -
    have pg: "j div fc_page_size s < fc_num_pages s" using page_in_range [OF j(1) sz(3)] sz(2) by simp
    have f: "fc_inner t = inner \<and> fc_page_size t = fc_page_size s \<and> fc_data t = at_rest d \<and>
        bit_get (fc_present t) (j div fc_page_size s)"
    proof (rule fc_open_fields [OF assms(8,7) Q(1) assms(6) [symmetric] sz(2) len], goal_cases)
      case (1 P' meta')
      then show ?case
        using Q(2) drop_clean_pages_spec [OF Q(1,2)] j(2) pg by auto
    qed
    then have "fc_view content t ! j = d ! j" using j sz(1) by (simp add: nth_fc_view assms(5))
    moreover have "fc_view content s ! j = df_cur (fc_data s) ! j" unfolding V using j sz(1) by (simp add: reopened_view_def)
    ultimately show ?thesis using cf(3) [OF j] by simp
  qed
  moreover have "fc_inv content binv t \<and> fc_view content t = fc_view content s"
    if "cur \<noteq> None" "read_recorded_etag etag \<noteq> cur"
  proof -
    have "fc_inv content binv t \<and> fc_view content t =
        reopened_view (fc_page_size s) (fc_dirty s) (df_cur (at_rest d)) (content inner)"
      by (rule fc_open_spec [OF assms(8,7) Q(1) assms(6) [symmetric] sz(2) len Q(2)])
         (use assms(4,5) sz(1) that in auto)
    then show ?thesis by (simp add: same)
  qed
  ultimately show ?thesis by blast
qed

text \<open>The files as a crash without any loss leaves them.\<close>

lemma crash_file_cur: "crash_file f (df_cur f)"
  by (simp add: crash_file_def)

lemma crash_file_synced: "length (df_synced f) = length (df_cur f) \<Longrightarrow> crash_file f (df_synced f)"
  by (simp add: crash_file_def)

theorem file_cache_power_loss_witness:
  "\<exists>(s :: mem_state fcache) t n. fc_view mem_data s = overwrite 0 (replicate 512 1) (zeros 1024) \<and>
     fc_open tiny_env blank_mem tiny_fcc 1024 (Some ''b'') (at_rest (df_synced (fc_data s))) (at_rest (df_synced (fc_meta s)))
       (Some ''a'') [] [] [] = Inr (t, n) \<and>
     fc_view mem_data t = overwrite 0 (replicate 512 1) (zeros 1024)"
proof -
  obtain s where s: "fc_inv mem_data mem_inv s" "fc_page_size s = 512" "fc_dev_size s = 1024"
    "fc_view mem_data s = overwrite 0 (replicate 512 1) (zeros 1024)" "mem_data (fc_inner s) = zeros 1024"
    by (rule tiny_fc_write)
  have cr: "crash_file (fc_data s) (df_synced (fc_data s))" "crash_file (fc_meta s) (df_synced (fc_meta s))"
    using s(1) by (auto intro!: crash_file_synced simp: fc_inv_def fc_local_def local_files_def)
  obtain t n where o: "fc_open tiny_env blank_mem tiny_fcc 1024 (Some ''b'') (at_rest (df_synced (fc_data s)))
      (at_rest (df_synced (fc_meta s))) (Some ''a'') [] [] [] = Inr (t, n)"
    using fc_open_plain_ok [of tiny_fcc 1024] by fastforce
  have o': "fc_open tiny_env blank_mem tiny_fcc (fc_dev_size s) (Some ''b'') (at_rest (df_synced (fc_data s)))
      (at_rest (df_synced (fc_meta s))) (Some ''a'') [] [] [] = Inr (t, n)" using o s(3) by simp
  have "mem_data blank_mem = mem_data (fc_inner s)" "fcc_page_size tiny_fcc = fc_page_size s" "\<not> fcc_share_pages tiny_fcc"
    using s by simp_all
  from file_cache_power_loss [OF s(1) cr blank_mem_inv this o']
  have "read_recorded_etag (Some ''a'') \<noteq> Some ''b'' \<Longrightarrow> fc_view mem_data t = fc_view mem_data s" by blast
  moreover have "read_recorded_etag (Some ''a'') \<noteq> Some ''b''"
    by (simp add: read_recorded_etag_def trim_def trim_start_def trim_end_def is_whitespace_def)
  ultimately have "fc_view mem_data t = overwrite 0 (replicate 512 1) (zeros 1024)" using s(4) by simp
  with s(4) o show ?thesis by blast
qed

text \<open>
  C18: restarting the process on the files of a valid cache, over the same blob, gives a valid cache
  that shows the same device, whatever the recorded and the current validity tokens are.
\<close>

theorem file_cache_restart:
  assumes "fc_inv content binv s" and "binv inner" and "content inner = content (fc_inner s)"
    and "fcc_page_size cfg = fc_page_size s" and "\<not> fcc_share_pages cfg"
    and "fc_open E inner cfg (fc_dev_size s) cur (fc_data s) (fc_meta s) etag bf xf punches = Inr (t, n)"
  shows "fc_inv content binv t \<and> fc_view content t = fc_view content s"
proof -
  have loc: "local_files (fc_page_size s) (fc_dev_size s) (fc_num_pages s) (fc_present s) (fc_dirty s) (fc_data s) (fc_meta s)"
    and dp: "\<forall>i < fc_num_pages s. bit_get (fc_dirty s) i \<longrightarrow> bit_get (fc_present s) i"
    and sz: "length (df_cur (fc_data s)) = fc_dev_size s" "fc_dev_size s = length (content (fc_inner s))"
      "fc_num_pages s = div_ceil (fc_dev_size s) (fc_page_size s)"
    and cm: "clean_match (content (fc_inner s)) s"
    using assms(1) by (auto simp: fc_inv_def fc_local_def dirty_present_def fc_shape_def)
  have "fc_inv content binv t \<and> fc_view content t =
      reopened_view (fc_page_size s) (fc_dirty s) (df_cur (fc_data s)) (content inner)"
    by (rule fc_open_spec [where content = content and binv = binv, OF assms(6,5) loc assms(4) [symmetric] sz(3) sz(1) dp assms(2)])
       (use assms(3) sz cm in \<open>auto simp: clean_match_def\<close>)
  then show ?thesis by (simp add: fc_view_dirty [OF assms(1)] assms(3))
qed

theorem file_cache_restart_witness:
  "\<exists>(s :: mem_state fcache) t n. fc_view mem_data s = overwrite 0 (replicate 512 1) (zeros 1024) \<and>
     fc_open tiny_env blank_mem tiny_fcc 1024 (Some ''a'') (fc_data s) (fc_meta s) (Some ''a'') [] [] [] = Inr (t, n) \<and>
     fc_view mem_data t = overwrite 0 (replicate 512 1) (zeros 1024)"
proof -
  obtain s where s: "fc_inv mem_data mem_inv s" "fc_page_size s = 512" "fc_dev_size s = 1024"
    "fc_view mem_data s = overwrite 0 (replicate 512 1) (zeros 1024)" "mem_data (fc_inner s) = zeros 1024"
    by (rule tiny_fc_write)
  obtain t n where o: "fc_open tiny_env blank_mem tiny_fcc 1024 (Some ''a'') (fc_data s) (fc_meta s) (Some ''a'') [] [] [] = Inr (t, n)"
    using fc_open_plain_ok [of tiny_fcc 1024] by fastforce
  have o': "fc_open tiny_env blank_mem tiny_fcc (fc_dev_size s) (Some ''a'') (fc_data s) (fc_meta s) (Some ''a'') [] [] [] = Inr (t, n)"
    using o s(3) by simp
  have "mem_data blank_mem = mem_data (fc_inner s)" "fcc_page_size tiny_fcc = fc_page_size s" "\<not> fcc_share_pages tiny_fcc"
    using s by simp_all
  from file_cache_restart [OF s(1) blank_mem_inv this o'] s(4)
  have "fc_view mem_data t = overwrite 0 (replicate 512 1) (zeros 1024)" by simp
  with s(4) o show ?thesis by blast
qed

section \<open>Warm-up\<close>

context fcache_layer
begin

lemma warm_one_page_spec:
  assumes inv: "fc_inv content binv s" and i: "i < fc_num_pages s" and r: "warm_one_page E B i s = (r, s')"
  shows "fc_keeps content binv s s' \<and> (\<forall>n. r = Inr n \<longrightarrow> n \<le> page_len s i \<and> bit_get (fc_present s') i)"
proof (cases "bit_get (fc_present s) i")
  case True
  with r inv show ?thesis by (auto simp: warm_one_page_def fc_keeps_refl)
next
  case False
  obtain q s1 where f: "fetch_page E B i (page_len s i) s = (q, s1)" by fastforce
  note fs = fetch_page_spec [OF inv i f] and pl = page_len_bounds(1) [OF fc_invD(2) [OF inv] i]
  show ?thesis
  proof (cases q)
    case (Inl e)
    with r f False fs pl show ?thesis by (auto simp: warm_one_page_def Let_def)
  next
    case (Inr d)
    obtain w s2 where st: "store_clean_page E i d s1 = (w, s2)" by fastforce
    have inv1: "fc_inv content binv s1" and same: "fc_page_size s1 = fc_page_size s" "page_len s1 i = page_len s i"
      using fs by (auto simp: fc_keeps_def page_len_def)
    have k: "fc_keeps content binv s1 s2 \<and> bit_get (fc_present s2) i"
      using fs False Inr i same by (intro store_clean_page_keeps [OF inv1 _ _ _ st]) simp_all
    then have "fc_index s2 = None" using fc_invD(8) by (auto simp: fc_keeps_def)
    then have "s' = s2 \<and> (\<forall>n. r = Inr n \<longrightarrow> n = page_len s i)"
      using r f False Inr st pl fs
      by (auto simp: warm_one_page_def Let_def fc_publish_def split: sum.splits if_splits)
    with k fs fc_keeps_trans show ?thesis by blast
  qed
qed

lemma warm_pages_spec:
  assumes "fc_inv content binv s" and "\<forall>i \<in> set is. i < fc_num_pages s"
    and "warm_pages E B ranges (fc_page_size s) (fc_dev_size s) is a b s = (w, k, s')"
  shows "fc_keeps content binv s s' \<and> a \<le> w \<and> b \<le> k \<and> w + k \<le> a + b + sum_list (map (page_len s) is)"
  using assms
proof (induction "is" arbitrary: a b s)
  case Nil
  then show ?case by (simp add: fc_keeps_refl)
next
  case (Cons i "is")
  have pl: "min (fc_page_size s) (fc_dev_size s - i * fc_page_size s) = page_len s i" by (simp add: page_len_def)
  show ?case
  proof (cases "case ranges of Some rs \<Rightarrow> \<not> range_intersects rs (i * fc_page_size s) (page_len s i) | None \<Rightarrow> False")
    case True
    then have "warm_pages E B ranges (fc_page_size s) (fc_dev_size s) is a (b + page_len s i) s = (w, k, s')"
      using Cons.prems(3) unfolding warm_pages.simps Let_def pl by simp
    from Cons.IH [OF Cons.prems(1) _ this] Cons.prems(2) show ?thesis by simp
  next
    case False
    obtain q s1 where o: "warm_one_page E B i s = (q, s1)" by fastforce
    define a' where "a' = (case q of Inr n \<Rightarrow> a + n | Inl _ \<Rightarrow> a)"
    note os = warm_one_page_spec [OF Cons.prems(1) _ o]
    have inv1: "fc_inv content binv s1" and same: "fc_page_size s1 = fc_page_size s" "fc_dev_size s1 = fc_dev_size s"
      using os Cons.prems(2) by (auto simp: fc_keeps_def)
    have np: "fc_num_pages s1 = fc_num_pages s" and pls: "page_len s1 = page_len s"
      using same fc_invD(7,9) [OF inv1] fc_invD(7,9) [OF Cons.prems(1)] by (auto simp: page_len_def fun_eq_iff)
    have rec: "warm_pages E B ranges (fc_page_size s1) (fc_dev_size s1) is a' b s1 = (w, k, s')"
      using Cons.prems(3) False o unfolding warm_pages.simps Let_def pl by (cases q) (simp_all add: same a'_def)
    have "a \<le> a' \<and> a' \<le> a + page_len s i"
      using os Cons.prems(2) by (cases q) (auto simp: a'_def)
    moreover have "fc_keeps content binv s1 s' \<and> a' \<le> w \<and> b \<le> k \<and> w + k \<le> a' + b + sum_list (map (page_len s) is)"
      using Cons.IH [OF inv1 _ rec] Cons.prems(2) np by (simp add: pls)
    moreover have "fc_keeps content binv s s1" using os Cons.prems(2) by simp
    ultimately show ?thesis using fc_keeps_trans by (auto intro: fc_keeps_trans)
  qed
qed

end

lemma page_len_sum: "sum_list (map (page_len s) [0 ..< k]) = min (k * fc_page_size s) (fc_dev_size s)"
  by (induction k) (auto simp: page_len_def min_def)

text \<open>
  Warming the disk cache up never changes the device the client sees, whichever pages cannot be
  fetched, and the bytes it reports as warmed and as skipped are bytes of the device.
\<close>

theorem file_cache_warmup:
  assumes "page_store B content durable binv" and "fc_inv content binv s"
    and "fc_warmup E B s (fc_dev_size s) limit = (w, k, s')"
  shows "fc_inv content binv s' \<and> fc_view content s' = fc_view content s \<and> w + k \<le> fc_dev_size s"
proof (cases "min limit (fc_dev_size s) = 0")
  case True
  with assms show ?thesis by (auto simp: fc_warmup_def)
next
  case False
  note lay = fcache_layerI [OF assms(1)]
  define np where "np = div_ceil (min limit (fc_dev_size s)) (fc_page_size s)"
  obtain r i' where r: "b_data_ranges B (fc_inner s) = (r, i')" by fastforce
  define s1 where "s1 = s\<lparr>fc_inner := i'\<rparr>"
  have k1: "fc_keeps content binv s s1"
    using fcache_layer.inner_keeps [OF lay assms(2)] page_store.ranges_law [OF assms(1) _ r]
      fcache_layer.fc_invD(1) [OF lay assms(2)] by (auto simp: s1_def)
  then have inv1: "fc_inv content binv s1" by (simp add: fc_keeps_def)
  have w: "warm_pages E B (case r of Inr ranges \<Rightarrow> ranges | Inl _ \<Rightarrow> None) (fc_page_size s1) (fc_dev_size s1) [0 ..< np] 0 0 s1 = (w, k, s')"
    using assms(3) False r by (simp add: fc_warmup_def fc_data_ranges_def Let_def s1_def np_def)
  have "\<forall>i \<in> set [0 ..< np]. i < fc_num_pages s1"
    using fcache_layer.fc_invD(5,7,9) [OF lay inv1]
    by (auto simp: np_def s1_def div_ceil_le_iff)
  from fcache_layer.warm_pages_spec [OF lay inv1 this w] k1 page_len_sum [of s1 np]
  show ?thesis by (auto simp: fc_keeps_def)
qed

theorem file_cache_warmup_witness:
  "\<exists>s w k s'. fc_view mem_data s = zeros 1024 \<and>
     fc_warmup tiny_env mem_backend s 1024 512 = (w, k, s') \<and> fc_view mem_data s' = zeros 1024 \<and> w + k \<le> 1024"
proof -
  obtain t n where t: "fc_inv mem_data mem_inv t" "fc_view mem_data t = zeros 1024" "fc_dev_size t = 1024"
    by (rule tiny_fc)
  obtain w k s' where r: "fc_warmup tiny_env mem_backend t (fc_dev_size t) 512 = (w, k, s')" by (metis prod_cases3)
  from file_cache_warmup [OF mem.page_store_axioms t(1) r] t r show ?thesis by metis
qed

end
