(* ===== verification/Azure.thy ===== *)
theory Azure
  imports Blob_Backend Rust_Text
begin

text \<open>
  The Azure page-blob backend of \<open>backend/azure.rs\<close>: the retry wrapper, the operations of the
  trait, the page-range listing with its XML scanner, and the server-side copy. The storage
  service behind the SDK is a parameter, the record \<open>page_service\<close> over the state of the outside
  world; what the code relies on is the locale \<open>page_blob_service\<close>. Requests are answered by the
  service itself: the I/O gateway (theory \<open>Io_Gateway\<close>) only decides when they are sent.
\<close>

section \<open>Errors of the SDK and the retry wrapper\<close>

text \<open>An SDK error: a response with an error status, or anything else (transport, timeout, parsing).\<close>

datatype az_err =
    HttpResponse nat
  | Transport

type_synonym 'a azr = "az_err + 'a"

definition http_status :: "az_err \<Rightarrow> nat option" where
  "http_status e = (case e of HttpResponse n \<Rightarrow> Some n | Transport \<Rightarrow> None)"

text \<open>Durations are in milliseconds.\<close>

record retry_config =
  rc_attempts :: nat
  rc_base :: nat
  rc_max :: nat
  rc_codes :: "string list"

definition retry_config_default :: retry_config where
  "retry_config_default =
     \<lparr>rc_attempts = 20, rc_base = 200, rc_max = 5000, rc_codes = [''408'', ''429'', ''5*'']\<rparr>"

definition retry_config_from_env :: "(string \<Rightarrow> string option) \<Rightarrow> retry_config" where
  "retry_config_from_env get =
     (let d = retry_config_default;
          attempts = (case Option.bind (get ''UBLK_AZURE_RETRY_ATTEMPTS'') (parse_uint u32_limit) of
                        Some n \<Rightarrow> if 1 \<le> n then n else rc_attempts d
                      | None \<Rightarrow> rc_attempts d);
          base = (case Option.bind (get ''UBLK_AZURE_RETRY_BASE_MS'') (parse_uint u64_limit) of
                    Some n \<Rightarrow> n | None \<Rightarrow> rc_base d);
          mx = (case Option.bind (get ''UBLK_AZURE_RETRY_MAX_MS'') (parse_uint u64_limit) of
                  Some n \<Rightarrow> n | None \<Rightarrow> rc_max d);
          codes = (case get ''UBLK_AZURE_RETRY_CODES'' of
                     Some v \<Rightarrow>
                       (let cs = filter (\<lambda>s. s \<noteq> []) (map trim (split_on (CHR '','') v))
                        in if cs = [] then rc_codes d else cs)
                   | None \<Rightarrow> rc_codes d)
      in \<lparr>rc_attempts = attempts, rc_base = base, rc_max = mx, rc_codes = codes\<rparr>)"

text \<open>The first test of the source, for the pattern \<open>*\<close> alone, is kept.\<close>

definition code_matches :: "nat \<Rightarrow> string \<Rightarrow> bool" where
  "code_matches code pattern =
     (if pattern = ''*'' then True
      else
        (let c = nat_to_string code in
         if pattern \<noteq> [] \<and> last pattern = CHR ''*''
         then take (length (butlast pattern)) c = butlast pattern
         else c = pattern))"

definition is_retryable :: "retry_config \<Rightarrow> az_err \<Rightarrow> bool" where
  "is_retryable cfg e =
     (case e of
        HttpResponse status \<Rightarrow> list_ex (code_matches status) (rc_codes cfg)
      | Transport \<Rightarrow> True)"

text \<open>
  One request is \<open>f\<close>, from the state of the world to its answer; \<open>nanos\<close> reads the clock for the
  jitter. Returned are the answer, the final state and the backoffs slept. The attempt counter
  stays below \<open>rc_attempts\<close>, a \<open>u32\<close>, and twice a \<open>u64\<close> of milliseconds fits a \<open>Duration\<close>.
\<close>

function retry_loop ::
  "retry_config \<Rightarrow> ('z \<Rightarrow> nat) \<Rightarrow> ('z \<Rightarrow> 'a azr \<times> 'z) \<Rightarrow> nat \<Rightarrow> nat \<Rightarrow> 'z \<Rightarrow> nat list \<Rightarrow>
   'a azr \<times> 'z \<times> nat list" where
  "retry_loop cfg nanos f delay attempt z slept =
     (case f z of
        (Inr v, z') \<Rightarrow> (Inr v, z', slept)
      | (Inl e, z') \<Rightarrow>
          if rc_attempts cfg \<le> attempt + 1 \<or> \<not> is_retryable cfg e then (Inl e, z', slept)
          else
            retry_loop cfg nanos f (min (delay * 2) (rc_max cfg)) (attempt + 1) z'
              (slept @ [delay + nanos z' mod 128]))"
  by pat_completeness auto
termination
  by (relation "measure (\<lambda>(cfg, _, _, _, attempt, _, _). rc_attempts cfg - attempt)") auto

declare retry_loop.simps [simp del]

definition with_retry ::
  "retry_config \<Rightarrow> ('z \<Rightarrow> nat) \<Rightarrow> ('z \<Rightarrow> 'a azr \<times> 'z) \<Rightarrow> 'z \<Rightarrow> 'a azr \<times> 'z \<times> nat list" where
  "with_retry cfg nanos f z = retry_loop cfg nanos f (rc_base cfg) 0 z []"

subsection \<open>What the wrapper does\<close>

text \<open>The world after \<open>n\<close> calls of \<open>f\<close>, and the delay before the call number \<open>i + 1\<close>.\<close>

definition after_calls :: "('z \<Rightarrow> 'b \<times> 'z) \<Rightarrow> nat \<Rightarrow> 'z \<Rightarrow> 'z" where
  "after_calls f n z = ((snd \<circ> f) ^^ n) z"

definition nominal_delay :: "retry_config \<Rightarrow> nat \<Rightarrow> nat" where
  "nominal_delay cfg i = (if i = 0 then rc_base cfg else min (rc_base cfg * 2 ^ i) (rc_max cfg))"

lemma after_calls_0 [simp]: "after_calls f 0 z = z"
  by (simp add: after_calls_def)

lemma after_calls_Suc: "after_calls f (Suc n) z = snd (f (after_calls f n z))"
  by (simp add: after_calls_def)

lemma nominal_delay_Suc: "min (nominal_delay cfg i * 2) (rc_max cfg) = nominal_delay cfg (Suc i)"
  by (auto simp: nominal_delay_def min_def)

definition backoffs :: "retry_config \<Rightarrow> ('z \<Rightarrow> nat) \<Rightarrow> ('z \<Rightarrow> 'a azr \<times> 'z) \<Rightarrow> 'z \<Rightarrow> nat \<Rightarrow> nat list" where
  "backoffs cfg nanos f z k =
     map (\<lambda>i. nominal_delay cfg i + nanos (after_calls f (Suc i) z) mod 128) [0..<k]"

text \<open>The call number \<open>k\<close> (from zero) is the last one.\<close>

definition retry_ends :: "retry_config \<Rightarrow> ('z \<Rightarrow> 'a azr \<times> 'z) \<Rightarrow> 'z \<Rightarrow> nat \<Rightarrow> bool" where
  "retry_ends cfg f z k \<longleftrightarrow>
     (case fst (f (after_calls f k z)) of
        Inr _ \<Rightarrow> True
      | Inl e \<Rightarrow> rc_attempts cfg \<le> k + 1 \<or> \<not> is_retryable cfg e)"

lemma retry_loop_step:
  "retry_loop cfg nanos f (nominal_delay cfg i) i (after_calls f i z) (backoffs cfg nanos f z i) =
     (if retry_ends cfg f z i
      then (fst (f (after_calls f i z)), after_calls f (Suc i) z, backoffs cfg nanos f z i)
      else retry_loop cfg nanos f (nominal_delay cfg (Suc i)) (Suc i) (after_calls f (Suc i) z)
             (backoffs cfg nanos f z (Suc i)))"
  by (subst retry_loop.simps)
     (auto simp: retry_ends_def after_calls_Suc nominal_delay_Suc backoffs_def split: prod.splits sum.splits)

lemma retry_loop_result:
  assumes "\<forall>j<i. \<not> retry_ends cfg f z j"
  shows "\<exists>k. i \<le> k \<and> retry_ends cfg f z k \<and> (\<forall>j<k. \<not> retry_ends cfg f z j) \<and>
    retry_loop cfg nanos f (nominal_delay cfg i) i (after_calls f i z) (backoffs cfg nanos f z i) =
      (fst (f (after_calls f k z)), after_calls f (Suc k) z, backoffs cfg nanos f z k)"
  using assms
proof (induction "rc_attempts cfg - i" arbitrary: i rule: less_induct)
  case less
  show ?case
  proof (cases "retry_ends cfg f z i")
    case True
    with less.prems retry_loop_step [of cfg nanos f i z] show ?thesis by auto
  next
    case False
    then have "\<not> rc_attempts cfg \<le> i + 1"
      by (auto simp: retry_ends_def split: sum.splits)
    then have dec: "rc_attempts cfg - Suc i < rc_attempts cfg - i" by simp
    from less.prems False have "\<forall>j<Suc i. \<not> retry_ends cfg f z j"
      by (auto simp: less_Suc_eq)
    from less.hyps [OF dec this] obtain k where "Suc i \<le> k" "retry_ends cfg f z k"
      "\<forall>j<k. \<not> retry_ends cfg f z j"
      "retry_loop cfg nanos f (nominal_delay cfg (Suc i)) (Suc i) (after_calls f (Suc i) z)
         (backoffs cfg nanos f z (Suc i)) =
       (fst (f (after_calls f k z)), after_calls f (Suc k) z, backoffs cfg nanos f z k)"
      by blast
    with False retry_loop_step [of cfg nanos f i z] show ?thesis
      by (intro exI [of _ k]) auto
  qed
qed

lemma with_retry_result:
  obtains k where "with_retry cfg nanos f z =
      (fst (f (after_calls f k z)), after_calls f (Suc k) z, backoffs cfg nanos f z k)"
    and "retry_ends cfg f z k" and "\<forall>j<k. \<not> retry_ends cfg f z j"
  using retry_loop_result [of 0 cfg f z nanos] that
  by (auto simp: with_retry_def nominal_delay_def backoffs_def)

text \<open>
  What every attempt keeps, the wrapper keeps; and a result is the answer of one of the attempts.
\<close>

lemma with_retry_invariant:
  assumes step: "\<And>z r z'. P z \<Longrightarrow> f z = (r, z') \<Longrightarrow> P z' \<and> (\<forall>v. r = Inr v \<longrightarrow> Q v z')"
    and z: "P z" and run: "with_retry cfg nanos f z = (r, z', slept)"
  shows "P z' \<and> (\<forall>v. r = Inr v \<longrightarrow> Q v z')"
proof -
  have P: "P (after_calls f n z)" for n
    by (induction n) (auto simp: after_calls_Suc z intro: step [OF _ prod.collapse [symmetric], THEN conjunct1])
  obtain k where "with_retry cfg nanos f z =
      (fst (f (after_calls f k z)), after_calls f (Suc k) z, backoffs cfg nanos f z k)"
    by (rule with_retry_result)
  with run have "f (after_calls f k z) = (r, z')"
    by (auto simp: after_calls_Suc)
  from step [OF P this] show ?thesis .
qed

text \<open>
  C34: The retry wrapper always returns. It makes at most \<open>rc_attempts\<close> attempts (at least one),
  stops at the first success or error that is not retryable, hands back exactly the answer of the last
  attempt, and sleeps between two attempts the base delay doubled each time and
  capped, plus a jitter below 128 ms; the cap applies to neither the first delay nor the jitter.
\<close>

theorem with_retry_bounded:
  "\<exists>k < max 1 (rc_attempts cfg).
     with_retry cfg nanos f z =
       (fst (f (after_calls f k z)), after_calls f (Suc k) z, backoffs cfg nanos f z k) \<and>
     (\<forall>j<k. \<exists>e. fst (f (after_calls f j z)) = Inl e \<and> is_retryable cfg e) \<and>
     (\<forall>e. fst (f (after_calls f k z)) = Inl e \<longrightarrow> is_retryable cfg e \<longrightarrow> rc_attempts cfg \<le> k + 1) \<and>
     (\<forall>d \<in> set (backoffs cfg nanos f z k). d < max (rc_base cfg) (rc_max cfg) + 128)"
proof -
  obtain k where k: "with_retry cfg nanos f z =
      (fst (f (after_calls f k z)), after_calls f (Suc k) z, backoffs cfg nanos f z k)"
    "retry_ends cfg f z k" "\<forall>j<k. \<not> retry_ends cfg f z j"
    by (rule with_retry_result)
  have "k < max 1 (rc_attempts cfg)"
  proof (cases k)
    case (Suc j)
    with k(3) have "\<not> retry_ends cfg f z j" by simp
    then show ?thesis using Suc by (auto simp: retry_ends_def split: sum.splits)
  qed simp
  moreover have "\<forall>j<k. \<exists>e. fst (f (after_calls f j z)) = Inl e \<and> is_retryable cfg e"
    using k(3) by (fastforce simp: retry_ends_def split: sum.splits)
  moreover have "nominal_delay cfg i \<le> max (rc_base cfg) (rc_max cfg)" for i
    by (auto simp: nominal_delay_def)
  then have "\<forall>d \<in> set (backoffs cfg nanos f z k). d < max (rc_base cfg) (rc_max cfg) + 128"
    by (auto simp: backoffs_def intro!: add_le_less_mono)
  ultimately show ?thesis
    using k(1,2) by (intro exI [of _ k]) (auto simp: retry_ends_def)
qed

text \<open>A service that answers 503 three times.\<close>

definition throttled :: "nat \<Rightarrow> string azr \<times> nat" where
  "throttled n = (if n < 3 then Inl (HttpResponse 503) else Inr ''ok'', n + 1)"

theorem with_retry_bounded_witness:
  "\<exists>k < max 1 (rc_attempts retry_config_default).
     with_retry retry_config_default (\<lambda>n. 100 * n) throttled 0 =
       (fst (throttled (after_calls throttled k 0)), after_calls throttled (Suc k) 0,
        backoffs retry_config_default (\<lambda>n. 100 * n) throttled 0 k)"
  using with_retry_bounded [of retry_config_default "\<lambda>n. 100 * n" throttled 0] by blast

section \<open>The storage service\<close>

text \<open>
  The SDK clients the backend holds, bound to the container and the blob: every function is one
  request (or, for the snapshot id, the construction of a client). A page request carries the lease
  id, a read the snapshot id. The properties are the content length and the ETag, each a header that
  may be missing or malformed; a page list is the response status with its body. \<open>sv_nanos\<close> is the
  sub-second part of the system clock.
\<close>

record 'z page_service =
  sv_snapshot_ok :: "string \<Rightarrow> bool"
  sv_create_container :: "'z \<Rightarrow> unit azr \<times> 'z"
  sv_properties :: "'z \<Rightarrow> string option \<Rightarrow> (nat option azr \<times> string option azr) azr \<times> 'z"
  sv_create :: "'z \<Rightarrow> nat \<Rightarrow> string option \<Rightarrow> unit azr \<times> 'z"
  sv_download :: "'z \<Rightarrow> string option \<Rightarrow> nat \<Rightarrow> nat \<Rightarrow> bytes azr \<times> 'z"
  sv_upload :: "'z \<Rightarrow> string option \<Rightarrow> nat \<Rightarrow> bytes \<Rightarrow> string option azr \<times> 'z"
  sv_clear :: "'z \<Rightarrow> string option \<Rightarrow> nat \<Rightarrow> nat \<Rightarrow> string option azr \<times> 'z"
  sv_upload_from_url :: "'z \<Rightarrow> string option \<Rightarrow> string option \<Rightarrow> string \<Rightarrow> nat \<Rightarrow> nat \<Rightarrow> unit azr \<times> 'z"
  sv_delete :: "'z \<Rightarrow> unit azr \<times> 'z"
  sv_page_list :: "'z \<Rightarrow> string option \<Rightarrow> string option \<Rightarrow> (nat \<times> string azr) azr \<times> 'z"
  sv_nanos :: "'z \<Rightarrow> nat"

text \<open>The backend: the world behind its clients, and its own fields.\<close>

record 'z azure =
  az_world :: 'z
  az_snapshot :: "string option"
  az_lease_id :: "string option"
  az_last_etag :: "string option"
  az_page_list :: bool

definition az_new :: "'z \<Rightarrow> 'z azure" where
  "az_new z = \<lparr>az_world = z, az_snapshot = None, az_lease_id = None, az_last_etag = None,
     az_page_list = False\<rparr>"

definition with_page_list :: "'z azure \<Rightarrow> 'z azure" where
  "with_page_list a = a\<lparr>az_page_list := True\<rparr>"

definition with_snapshot :: "string \<Rightarrow> 'z azure \<Rightarrow> 'z azure" where
  "with_snapshot sid a = a\<lparr>az_snapshot := Some sid\<rparr>"

definition set_lease_id :: "'z azure \<Rightarrow> string option \<Rightarrow> 'z azure" where
  "set_lease_id a l = a\<lparr>az_lease_id := l\<rparr>"

definition record_etag :: "'z azure \<Rightarrow> string option \<Rightarrow> 'z azure" where
  "record_etag a e = a\<lparr>az_last_etag := e\<rparr>"

text \<open>\<open>blob_client\<close>: the snapshot id that read requests carry, if a client can be built for it.\<close>

definition blob_client :: "'z page_service \<Rightarrow> 'z azure \<Rightarrow> string option res" where
  "blob_client S a =
     (case az_snapshot a of
        Some sid \<Rightarrow> if sv_snapshot_ok S sid then Inr (Some sid) else Inl (IoErr ''target snapshot'')
      | None \<Rightarrow> Inr None)"

section \<open>The operations of the trait\<close>

definition az_create :: "'z page_service \<Rightarrow> 'z azure \<Rightarrow> nat \<Rightarrow> unit res \<times> 'z azure" where
  "az_create S a sz =
     (if az_snapshot a \<noteq> None then (Inl ReadOnlySnapshot, a)
      else if sz = 0 \<or> \<not> is_multiple_of sz 512 then (Inl BadSize, a)
      else
        (case sv_create_container S (az_world a) of (cr, z1) \<Rightarrow>
          let a1 = a\<lparr>az_world := z1\<rparr> in
          if (case cr of Inl e \<Rightarrow> http_status e \<noteq> Some 409 | Inr _ \<Rightarrow> False)
          then (Inl (IoErr ''create container''), a1)
          else
            (case sv_properties S z1 None of (pr, z2) \<Rightarrow>
              let a2 = a1\<lparr>az_world := z2\<rparr> in
              (case pr of
                 Inr (Inl _, _) \<Rightarrow> (Inl (IoErr ''content length''), a2)
               | Inr (Inr cl, _) \<Rightarrow>
                   if (case cl of Some n \<Rightarrow> n | None \<Rightarrow> 0) = sz then (Inr (), a2)
                   else (Inl (IoErr ''blob already exists with another size''), a2)
               | Inl e \<Rightarrow>
                   if http_status e = Some 404
                   then (case sv_create S z2 sz (az_lease_id a) of
                           (Inl _, z3) \<Rightarrow> (Inl (IoErr ''create page blob''), a2\<lparr>az_world := z3\<rparr>)
                         | (Inr _, z3) \<Rightarrow> (Inr (), a2\<lparr>az_world := z3\<rparr>))
                   else (Inl (IoErr ''check existing blob before create''), a2)))))"

definition az_read :: "retry_config \<Rightarrow> 'z page_service \<Rightarrow> 'z azure \<Rightarrow> nat \<Rightarrow> nat \<Rightarrow> bytes res \<times> 'z azure" where
  "az_read cfg S a off len =
     (if \<not> is_multiple_of off 512 then (Inl Misaligned, a)
      else if \<not> is_multiple_of len 512 then (Inl Misaligned, a)
      else
        (case blob_client S a of
           Inl e \<Rightarrow> (Inl e, a)
         | Inr snap \<Rightarrow>
             (case with_retry cfg (sv_nanos S) (\<lambda>z. sv_download S z snap off len) (az_world a) of
                (Inl _, z', _) \<Rightarrow> (Inl (IoErr ''download blob''), a\<lparr>az_world := z'\<rparr>)
              | (Inr d, z', _) \<Rightarrow> (Inr d, a\<lparr>az_world := z'\<rparr>))))"

definition az_write :: "retry_config \<Rightarrow> 'z page_service \<Rightarrow> 'z azure \<Rightarrow> nat \<Rightarrow> bytes \<Rightarrow> unit res \<times> 'z azure" where
  "az_write cfg S a off payload =
     (if az_snapshot a \<noteq> None then (Inl ReadOnlySnapshot, a)
      else if \<not> is_multiple_of off 512 then (Inl Misaligned, a)
      else if \<not> is_multiple_of (length payload) 512 then (Inl Misaligned, a)
      else
        (case with_retry cfg (sv_nanos S) (\<lambda>z. sv_upload S z (az_lease_id a) off payload) (az_world a) of
           (Inl _, z', _) \<Rightarrow> (Inl (IoErr ''upload_pages''), a\<lparr>az_world := z'\<rparr>)
         | (Inr etag, z', _) \<Rightarrow> (Inr (), record_etag (a\<lparr>az_world := z'\<rparr>) etag)))"

definition az_clear :: "retry_config \<Rightarrow> 'z page_service \<Rightarrow> 'z azure \<Rightarrow> nat \<Rightarrow> nat \<Rightarrow> unit res \<times> 'z azure" where
  "az_clear cfg S a off len =
     (if az_snapshot a \<noteq> None then (Inl ReadOnlySnapshot, a)
      else if \<not> is_multiple_of off 512 then (Inl Misaligned, a)
      else if \<not> is_multiple_of len 512 then (Inl Misaligned, a)
      else
        (case with_retry cfg (sv_nanos S) (\<lambda>z. sv_clear S z (az_lease_id a) off len) (az_world a) of
           (Inl _, z', _) \<Rightarrow> (Inl (IoErr ''clear_pages''), a\<lparr>az_world := z'\<rparr>)
         | (Inr etag, z', _) \<Rightarrow> (Inr (), record_etag (a\<lparr>az_world := z'\<rparr>) etag)))"

definition az_flush :: "'z azure \<Rightarrow> unit res \<times> 'z azure" where
  "az_flush a = (Inr (), a)"

definition az_delete :: "'z page_service \<Rightarrow> 'z azure \<Rightarrow> unit res \<times> 'z azure" where
  "az_delete S a =
     (case sv_delete S (az_world a) of
        (Inl e, z') \<Rightarrow>
          if http_status e \<noteq> Some 404 then (Inl (IoErr ''delete blob''), a\<lparr>az_world := z'\<rparr>)
          else (Inr (), a\<lparr>az_world := z'\<rparr>)
      | (Inr _, z') \<Rightarrow> (Inr (), a\<lparr>az_world := z'\<rparr>))"

definition az_size :: "'z page_service \<Rightarrow> 'z azure \<Rightarrow> nat res \<times> 'z azure" where
  "az_size S a =
     (case blob_client S a of
        Inl e \<Rightarrow> (Inl e, a)
      | Inr snap \<Rightarrow>
          (case sv_properties S (az_world a) snap of (pr, z') \<Rightarrow>
             (case pr of
                Inl _ \<Rightarrow> Inl (IoErr ''get_properties'')
              | Inr (Inl _, _) \<Rightarrow> Inl (IoErr ''content length'')
              | Inr (Inr None, _) \<Rightarrow> Inl (IoErr ''missing Content-Length'')
              | Inr (Inr (Some n), _) \<Rightarrow> Inr n,
              a\<lparr>az_world := z'\<rparr>)))"

definition az_etag :: "'z page_service \<Rightarrow> 'z azure \<Rightarrow> string option res \<times> 'z azure" where
  "az_etag S a =
     (case az_last_etag a of
        Some e \<Rightarrow> (Inr (Some e), a)
      | None \<Rightarrow>
          (case blob_client S a of
             Inl e \<Rightarrow> (Inl e, a)
           | Inr snap \<Rightarrow>
               (case sv_properties S (az_world a) snap of (pr, z') \<Rightarrow>
                  (case pr of
                     Inl _ \<Rightarrow> Inl (IoErr ''get_properties'')
                   | Inr (_, Inl _) \<Rightarrow> Inl (IoErr ''etag'')
                   | Inr (_, Inr t) \<Rightarrow> Inr t,
                   a\<lparr>az_world := z'\<rparr>))))"

section \<open>Page ranges\<close>

text \<open>The number between the tags, in the first element of that name.\<close>

definition extract_tag_u64 :: "string \<Rightarrow> string \<Rightarrow> nat res" where
  "extract_tag_u64 seg tag =
     (let op = ''<'' @ tag @ ''>''; cl = ''</'' @ tag @ ''>'' in
      case str_find op seg of
        None \<Rightarrow> Inl (IoErr ''missing opening tag'')
      | Some i \<Rightarrow>
          (let r = drop (i + length op) seg in
           case str_find cl r of
             None \<Rightarrow> Inl (IoErr ''missing closing tag'')
           | Some j \<Rightarrow>
               (case parse_uint u64_limit (trim (take j r)) of
                  None \<Rightarrow> Inl (IoErr ''parse value'')
                | Some n \<Rightarrow> Inr n)))"

text \<open>
  The scan of \<open>parse_page_ranges\<close>. The length \<open>end - start + 1\<close> is a \<open>u64\<close> that wraps around
  for the range of all offsets.
\<close>

function scan_page_ranges :: "string \<Rightarrow> (nat \<times> nat) list \<Rightarrow> (nat \<times> nat) list res" where
  "scan_page_ranges rest ranges =
     (case str_find ''<PageRange>'' rest of
        None \<Rightarrow> Inr ranges
      | Some open' \<Rightarrow>
          (let after = drop (open' + length ''<PageRange>'') rest in
           case str_find ''</PageRange>'' after of
             None \<Rightarrow> Inl (IoErr ''unterminated <PageRange>'')
           | Some close' \<Rightarrow>
               (let seg = take close' after in
                case extract_tag_u64 seg ''Start'' of
                  Inl e \<Rightarrow> Inl e
                | Inr start \<Rightarrow>
                    (case extract_tag_u64 seg ''End'' of
                       Inl e \<Rightarrow> Inl e
                     | Inr end' \<Rightarrow>
                         if end' < start then Inl (IoErr ''invalid page range'')
                         else scan_page_ranges (drop (close' + length ''</PageRange>'') after)
                                (ranges @ [(start, wrapping_add (end' - start) 1)])))))"
  by pat_completeness auto
termination
  by (relation "measure (\<lambda>(rest, _). length rest)") (auto dest!: str_find_bound)

declare scan_page_ranges.simps [simp del]

definition parse_page_ranges :: "string \<Rightarrow> (nat \<times> nat) list res" where
  "parse_page_ranges body =
     (case scan_page_ranges body [] of Inl e \<Rightarrow> Inl e | Inr ranges \<Rightarrow> Inr (sort_key fst ranges))"

definition parse_next_marker :: "string \<Rightarrow> string option" where
  "parse_next_marker body =
     (case str_find ''<NextMarker>'' body of
        None \<Rightarrow> None
      | Some i \<Rightarrow>
          (let r = drop (i + length ''<NextMarker>'') body in
           case str_find ''</NextMarker>'' r of
             None \<Rightarrow> None
           | Some j \<Rightarrow> (let marker = trim (take j r) in if marker = [] then None else Some marker)))"

text \<open>
  The loop of \<open>list_page_ranges\<close>: it ends only when the service sends no further marker, so its
  result is an option.
\<close>

partial_function (option) list_pages ::
  "'z page_service \<Rightarrow> string option \<Rightarrow> 'z \<Rightarrow> string option \<Rightarrow> (nat \<times> nat) list \<Rightarrow>
   ((nat \<times> nat) list res \<times> 'z) option" where
  "list_pages S snap z marker ranges =
     (case sv_page_list S z snap marker of
        (Inl _, z') \<Rightarrow> Some (Inl (IoErr ''Get Page Ranges''), z')
      | (Inr (status, body), z') \<Rightarrow>
          if \<not> (200 \<le> status \<and> status < 300) then Some (Inl (IoErr ''Get Page Ranges: HTTP status''), z')
          else
            (case body of
               Inl _ \<Rightarrow> Some (Inl (IoErr ''read Get Page Ranges body''), z')
             | Inr doc \<Rightarrow>
                 (case parse_page_ranges doc of
                    Inl e \<Rightarrow> Some (Inl e, z')
                  | Inr batch \<Rightarrow>
                      (case parse_next_marker doc of
                         Some m \<Rightarrow> list_pages S snap z' (Some m) (ranges @ batch)
                       | None \<Rightarrow> Some (Inr (ranges @ batch), z')))))"

text \<open>\<open>list_page_ranges\<close>, which is \<open>data_ranges\<close>; not returning is the value \<open>LoopFuel\<close>.\<close>

definition list_page_ranges ::
  "'z page_service \<Rightarrow> 'z azure \<Rightarrow> ((nat \<times> nat) list option) res \<times> 'z azure" where
  "list_page_ranges S a =
     (if \<not> az_page_list a then (Inr None, a)
      else
        (case list_pages S (az_snapshot a) (az_world a) None [] of
           None \<Rightarrow> (Inl LoopFuel, a)
         | Some (Inl e, z') \<Rightarrow> (Inl e, a\<lparr>az_world := z'\<rparr>)
         | Some (Inr ranges, z') \<Rightarrow> (Inr (Some (sort_key fst ranges)), a\<lparr>az_world := z'\<rparr>)))"

definition azure_backend :: "retry_config \<Rightarrow> 'z page_service \<Rightarrow> 'z azure backend" where
  "azure_backend cfg S =
     \<lparr>b_create = az_create S, b_read = az_read cfg S, b_write = az_write cfg S, b_clear = az_clear cfg S,
      b_prefetch = default_prefetch (az_read cfg S), b_data_ranges = list_page_ranges S,
      b_flush = az_flush, b_delete = az_delete S, b_size = az_size S, b_etag = az_etag S\<rparr>"

section \<open>Reading a page list\<close>

text \<open>The documents of the service: the data ranges of one page and the marker of the next.\<close>

definition range_xml :: "nat \<times> nat \<Rightarrow> string" where
  "range_xml p =
     ''<PageRange><Start>'' @ nat_to_string (fst p) @ ''</Start><End>'' @
     nat_to_string (fst p + snd p - 1) @ ''</End></PageRange>''"

definition page_list_xml :: "(nat \<times> nat) list \<Rightarrow> string option \<Rightarrow> string" where
  "page_list_xml rs m =
     ''<?xml version='' @ [CHR 0x22] @ ''1.0'' @ [CHR 0x22] @ '' encoding='' @ [CHR 0x22] @ ''utf-8'' @
     [CHR 0x22] @ ''?><PageList>'' @ concat (map range_xml rs) @
     (case m of None \<Rightarrow> ''<NextMarker />'' | Some t \<Rightarrow> ''<NextMarker>'' @ t @ ''</NextMarker>'') @
     ''</PageList>''"

definition range_ok :: "nat \<times> nat \<Rightarrow> bool" where
  "range_ok p \<longleftrightarrow> 0 < snd p \<and> snd p < u64_limit \<and> fst p + snd p \<le> u64_limit"

definition marker_ok :: "string \<Rightarrow> bool" where
  "marker_ok t \<longleftrightarrow> t \<noteq> [] \<and> CHR ''<'' \<notin> set t \<and> \<not> is_whitespace (hd t) \<and> \<not> is_whitespace (last t)"

lemma skips_number: "skips (CHR ''<'' # p) (nat_to_string n)"
  by (rule skips_chars [OF refl]) (rule nat_to_string_no, auto simp: is_digit_def)

lemma trim_number: "trim (nat_to_string n) = nat_to_string n"
  using nat_to_string_digits [of n] nat_to_string_nonempty [of n]
  by (intro trim_id) (auto simp: list_all_iff digit_not_special)

lemma extract_tag_u64_number:
  assumes "skips (''<'' @ tag @ ''>'') a" and "n < u64_limit"
  shows "extract_tag_u64 (a @ ''<'' @ tag @ ''>'' @ nat_to_string n @ ''</'' @ tag @ ''>'' @ r) tag = Inr n"
proof -
  have "str_find (''<'' @ tag @ ''>'') (a @ (''<'' @ tag @ ''>'') @ nat_to_string n @ ''</'' @ tag @ ''>'' @ r) =
      Some (length a)"
    by (rule str_find_after [OF assms(1)])
  moreover have "str_find (''</'' @ tag @ ''>'') (nat_to_string n @ (''</'' @ tag @ ''>'') @ r) =
      Some (length (nat_to_string n))"
    by (rule str_find_after) (simp add: skips_number)
  ultimately show ?thesis
    using assms(2) by (simp add: extract_tag_u64_def trim_number parse_uint_to_string)
qed

text \<open>The inside of a range element, and the scanner on it.\<close>

definition range_body :: "nat \<times> nat \<Rightarrow> string" where
  "range_body p =
     ''<Start>'' @ nat_to_string (fst p) @ ''</Start><End>'' @ nat_to_string (fst p + snd p - 1) @ ''</End>''"

lemma range_xml_body: "range_xml p = ''<PageRange>'' @ range_body p @ ''</PageRange>''"
  by (simp add: range_xml_def range_body_def)

lemma range_body_tags:
  assumes "range_ok p"
  shows "extract_tag_u64 (range_body p) ''Start'' = Inr (fst p)"
    and "extract_tag_u64 (range_body p) ''End'' = Inr (fst p + snd p - 1)"
proof -
  show "extract_tag_u64 (range_body p) ''Start'' = Inr (fst p)"
    using extract_tag_u64_number [of "''Start''" "[]" "fst p"
        "''<End>'' @ nat_to_string (fst p + snd p - 1) @ ''</End>''"] assms
    by (simp add: range_body_def range_ok_def)
  have "skips ''<End>'' (''<Start>'' @ nat_to_string (fst p) @ ''</Start>'')"
    by (intro skips_append skips_number) (auto intro!: free_of_skips)
  moreover have "fst p + snd p - 1 < u64_limit" using assms by (auto simp: range_ok_def)
  ultimately show "extract_tag_u64 (range_body p) ''End'' = Inr (fst p + snd p - 1)"
    using extract_tag_u64_number [of "''End''" "''<Start>'' @ nat_to_string (fst p) @ ''</Start>''"
        "fst p + snd p - 1" "[]"]
    by (simp add: range_body_def)
qed

lemma skips_range_body: "skips ''</PageRange>'' (range_body p)"
  unfolding range_body_def
  by (intro skips_append skips_number) (auto intro!: free_of_skips)

lemma scan_page_ranges_range:
  assumes "range_ok p" and "skips ''<PageRange>'' a"
  shows "scan_page_ranges (a @ range_xml p @ r) acc = scan_page_ranges r (acc @ [p])"
proof -
  have "str_find ''<PageRange>'' (a @ range_xml p @ r) = Some (length a)"
    using str_find_after [OF assms(2), of "range_body p @ ''</PageRange>'' @ r"]
    by (simp add: range_xml_body)
  moreover have "str_find ''</PageRange>'' (range_body p @ ''</PageRange>'' @ r) = Some (length (range_body p))"
    by (rule str_find_after [OF skips_range_body])
  moreover have "wrapping_add (fst p + snd p - 1 - fst p) 1 = snd p" "\<not> fst p + snd p - 1 < fst p"
    using assms(1) by (auto simp: range_ok_def wrapping_add_small)
  ultimately show ?thesis
    using range_body_tags [OF assms(1)]
    by (subst scan_page_ranges.simps) (simp add: range_xml_body Let_def)
qed

lemma scan_page_ranges_ranges:
  assumes "\<forall>p \<in> set rs. range_ok p" and "skips ''<PageRange>'' a" and "skips ''<PageRange>'' r"
  shows "scan_page_ranges (a @ concat (map range_xml rs) @ r) acc = Inr (acc @ rs)"
  using assms(1,2)
proof (induction rs arbitrary: a acc)
  case Nil
  then have "str_find ''<PageRange>'' (a @ r) = None"
    using assms(3) by (intro str_find_none skips_append) auto
  then show ?case by (subst scan_page_ranges.simps) simp
next
  case (Cons p rs)
  then show ?case
    using scan_page_ranges_range [of p a "concat (map range_xml rs) @ r" acc] Cons.IH [of "[]" "acc @ [p]"]
    by simp
qed

definition xml_head :: string where
  "xml_head = ''<?xml version='' @ [CHR 0x22] @ ''1.0'' @ [CHR 0x22] @ '' encoding='' @ [CHR 0x22] @ ''utf-8'' @
     [CHR 0x22] @ ''?><PageList>''"

definition xml_tail :: "string option \<Rightarrow> string" where
  "xml_tail m = (case m of None \<Rightarrow> ''<NextMarker />'' | Some t \<Rightarrow> ''<NextMarker>'' @ t @ ''</NextMarker>'') @
     ''</PageList>''"

lemma page_list_xml_parts: "page_list_xml rs m = xml_head @ concat (map range_xml rs) @ xml_tail m"
  by (simp add: page_list_xml_def xml_head_def xml_tail_def)

lemma skips_xml_parts:
  "skips ''<PageRange>'' xml_head" "skips ''<NextMarker>'' xml_head"
  "skips ''<NextMarker>'' (range_xml p)" "(\<And>t. m = Some t \<Longrightarrow> marker_ok t) \<Longrightarrow> skips ''<PageRange>'' (xml_tail m)"
  "skips ''<NextMarker>'' (xml_tail None)"
proof -
  show "skips ''<PageRange>'' xml_head" "skips ''<NextMarker>'' xml_head"
    unfolding xml_head_def by (auto intro!: free_of_skips)
  show "skips ''<NextMarker>'' (range_xml p)"
    unfolding range_xml_def by (intro skips_append skips_number) (auto intro!: free_of_skips)
  show "skips ''<NextMarker>'' (xml_tail None)"
    unfolding xml_tail_def by (auto intro!: free_of_skips)
  assume ok: "\<And>t. m = Some t \<Longrightarrow> marker_ok t"
  show "skips ''<PageRange>'' (xml_tail m)"
  proof (cases m)
    case None
    then show ?thesis by (auto simp: xml_tail_def intro!: free_of_skips)
  next
    case (Some t)
    then have t: "skips ''<PageRange>'' t" using ok by (intro skips_chars [OF refl]) (auto simp: marker_ok_def)
    show ?thesis unfolding xml_tail_def Some option.case
      by (intro skips_append t) (auto intro!: free_of_skips)
  qed
qed

lemma parse_page_ranges_xml:
  assumes "\<forall>p \<in> set rs. range_ok p" and "\<And>t. m = Some t \<Longrightarrow> marker_ok t"
  shows "parse_page_ranges (page_list_xml rs m) = Inr (sort_key fst rs)"
  using scan_page_ranges_ranges [OF assms(1) skips_xml_parts(1) skips_xml_parts(4), of m "[]"] assms(2)
  by (simp add: parse_page_ranges_def page_list_xml_parts)

lemma parse_next_marker_xml:
  assumes "\<And>t. m = Some t \<Longrightarrow> marker_ok t"
  shows "parse_next_marker (page_list_xml rs m) = m"
proof -
  have pre: "skips ''<NextMarker>'' (xml_head @ concat (map range_xml rs))"
    by (intro skips_append skips_concat skips_xml_parts)
  show ?thesis
  proof (cases m)
    case None
    have "str_find ''<NextMarker>'' (page_list_xml rs None) = None"
      using pre by (intro str_find_none) (auto simp: page_list_xml_parts intro!: skips_append [where a = "xml_head @ _", simplified] skips_xml_parts)
    with None show ?thesis by (simp add: parse_next_marker_def)
  next
    case (Some t)
    then have t: "marker_ok t" using assms by simp
    have "str_find ''<NextMarker>'' (page_list_xml rs m) = Some (length (xml_head @ concat (map range_xml rs)))"
      using str_find_after [OF pre, of "t @ ''</NextMarker></PageList>''"] Some
      by (simp add: page_list_xml_parts xml_tail_def)
    moreover have "drop (length (xml_head @ concat (map range_xml rs)) + length ''<NextMarker>'') (page_list_xml rs m) =
        t @ ''</NextMarker>'' @ ''</PageList>''"
      using Some by (simp add: page_list_xml_parts xml_tail_def)
    moreover have "str_find ''</NextMarker>'' (t @ ''</NextMarker>'' @ ''</PageList>'') = Some (length t)"
      by (rule str_find_after, rule skips_chars [OF refl]) (use t in \<open>simp add: marker_ok_def\<close>)
    moreover have "trim t = t" using t by (intro trim_id) (auto simp: marker_ok_def)
    ultimately show ?thesis using Some t unfolding parse_next_marker_def
      by (simp add: marker_ok_def)
  qed
qed

text \<open>
  The documents a listing of \<open>pages\<close> consists of: the request without a marker gets the first page,
  and each page but the last names the marker of the next one.
\<close>

definition page_marker :: "(string \<times> (nat \<times> nat) list) list \<Rightarrow> nat \<Rightarrow> string option" where
  "page_marker pages i = (if i = 0 then None else Some (fst (pages ! i)))"

definition page_document :: "(string \<times> (nat \<times> nat) list) list \<Rightarrow> nat \<Rightarrow> string" where
  "page_document pages i =
     page_list_xml (snd (pages ! i)) (if Suc i < length pages then page_marker pages (Suc i) else None)"

definition serves_pages :: "'z page_service \<Rightarrow> string option \<Rightarrow> (string \<times> (nat \<times> nat) list) list \<Rightarrow> bool" where
  "serves_pages S snap pages \<longleftrightarrow>
     pages \<noteq> [] \<and>
     (\<forall>p \<in> set pages. marker_ok (fst p) \<and> (\<forall>r \<in> set (snd p). range_ok r)) \<and>
     (\<forall>z. \<forall>i < length pages. \<exists>z'. sv_page_list S z snap (page_marker pages i) =
        (Inr (200, Inr (page_document pages i)), z'))"

lemma page_marker_ok:
  "serves_pages S snap pages \<Longrightarrow> i < length pages \<Longrightarrow> page_marker pages i = Some t \<Longrightarrow> marker_ok t"
  by (auto simp: serves_pages_def page_marker_def split: if_splits)

lemma page_document_parse:
  assumes "serves_pages S snap pages" and "i < length pages"
  shows "parse_page_ranges (page_document pages i) = Inr (sort_key fst (snd (pages ! i)))"
    and "parse_next_marker (page_document pages i) =
      (if Suc i < length pages then page_marker pages (Suc i) else None)"
proof -
  have m: "marker_ok t" if "(if Suc i < length pages then page_marker pages (Suc i) else None) = Some t" for t
    using that page_marker_ok [OF assms(1)] by (auto split: if_splits)
  have "\<forall>p \<in> set (snd (pages ! i)). range_ok p"
    using assms by (auto simp: serves_pages_def)
  then show "parse_page_ranges (page_document pages i) = Inr (sort_key fst (snd (pages ! i)))"
    unfolding page_document_def using m by (rule parse_page_ranges_xml)
  show "parse_next_marker (page_document pages i) =
      (if Suc i < length pages then page_marker pages (Suc i) else None)"
    unfolding page_document_def using m by (rule parse_next_marker_xml)
qed

lemma list_pages_all:
  assumes "serves_pages S snap pages" and "i < length pages"
  shows "\<exists>z'. list_pages S snap z (page_marker pages i) acc =
    Some (Inr (acc @ concat (map (\<lambda>p. sort_key fst (snd p)) (drop i pages))), z')"
  using assms(2)
proof (induction "length pages - i" arbitrary: i z acc rule: less_induct)
  case less
  obtain z1 where z1: "sv_page_list S z snap (page_marker pages i) =
      (Inr (200, Inr (page_document pages i)), z1)"
    using assms(1) less.prems unfolding serves_pages_def by blast
  have drop: "drop i pages = pages ! i # drop (Suc i) pages"
    using less.prems by (simp add: Cons_nth_drop_Suc)
  show ?case
  proof (cases "Suc i < length pages")
    case True
    then obtain m where m: "page_marker pages (Suc i) = Some m"
      by (simp add: page_marker_def)
    from True have "length pages - Suc i < length pages - i" by simp
    from less.hyps [OF this True, of z1 "acc @ sort_key fst (snd (pages ! i))"] True drop show ?thesis
      by (subst list_pages.simps) (simp add: z1 page_document_parse [OF assms(1) less.prems] m)
  next
    case False
    with drop show ?thesis
      by (subst list_pages.simps) (simp add: z1 page_document_parse [OF assms(1) less.prems])
  qed
qed

lemma sort_key_concat_sorted:
  "sorted_wrt (\<lambda>p q. fst p \<le> fst q) (concat rss) \<Longrightarrow>
   sort_key fst (concat (map (sort_key fst) rss)) = concat (rss :: (nat \<times> nat) list list)"
proof -
  assume s: "sorted_wrt (\<lambda>p q. fst p \<le> fst q) (concat rss)"
  have id: "sort_key fst rs = rs" if "sorted_wrt (\<lambda>p q. fst p \<le> fst q) rs" for rs :: "(nat \<times> nat) list"
    using that by (intro sort_key_id_if_sorted) (simp add: sorted_map)
  have "sorted_wrt (\<lambda>p q. fst p \<le> fst q) rs" if "rs \<in> set rss" for rs
    using s that by (induction rss) (auto simp: sorted_wrt_append)
  then have "map (sort_key fst) rss = rss" by (intro map_idI) (simp add: id)
  then show ?thesis using id [OF s] by simp
qed

section \<open>What the code relies on\<close>

text \<open>
  A page request was carried out: it replaced the bytes of its range in the live blob and touched no
  snapshot.
\<close>

definition pages_put ::
  "('z \<Rightarrow> string option \<Rightarrow> bytes option) \<Rightarrow> nat \<Rightarrow> bytes \<Rightarrow> 'z \<Rightarrow> 'z \<Rightarrow> bool" where
  "pages_put view off d z z' \<longleftrightarrow>
     (\<exists>c. view z None = Some c \<and> off + length d \<le> length c \<and>
          view z' = (view z)(None := Some (overwrite off d c)))"

text \<open>
  The page-blob service as documented. \<open>view z s\<close> is the content of the live blob
  (\<open>s = None\<close>) or of a snapshot, if it exists. A request that fails may still have been carried
  out (its answer was lost). Nobody else writes the blob: the lease of the coordination layer is
  what grants that.
\<close>

locale page_blob_service =
  fixes S :: "'z page_service"
    and view :: "'z \<Rightarrow> string option \<Rightarrow> bytes option"
  assumes blob_size: "view z s = Some c \<Longrightarrow> 512 dvd length c \<and> length c < u64_limit"
    and container_law: "sv_create_container S z = (u, z') \<Longrightarrow> view z' = view z"
    and properties_law: "sv_properties S z s = (p, z') \<Longrightarrow>
      view z' = view z \<and> (p = Inl (HttpResponse 404) \<longrightarrow> view z s = None) \<and>
      (\<forall>n t. p = Inr (Inr (Some n), t) \<longrightarrow> (\<exists>c. view z s = Some c \<and> n = length c))"
    and create_blob_law: "0 < sz \<Longrightarrow> 512 dvd sz \<Longrightarrow> sz < u64_limit \<Longrightarrow> sv_create S z sz l = (u, z') \<Longrightarrow>
      view z' = (view z)(None := Some (zeros sz)) \<or> u \<noteq> Inr () \<and> view z' = view z"
    and download_law: "0 < len \<Longrightarrow> 512 dvd off \<Longrightarrow> 512 dvd len \<Longrightarrow> sv_download S z s off len = (r, z') \<Longrightarrow>
      view z' = view z \<and> (\<forall>d. r = Inr d \<longrightarrow> (\<exists>c. view z s = Some c \<and> d = segment off len c))"
    and upload_law: "d \<noteq> [] \<Longrightarrow> 512 dvd off \<Longrightarrow> 512 dvd length d \<Longrightarrow> sv_upload S z l off d = (t, z') \<Longrightarrow>
      pages_put view off d z z' \<or> (\<exists>e. t = Inl e) \<and> view z' = view z"
    and clear_pages_law: "0 < len \<Longrightarrow> 512 dvd off \<Longrightarrow> 512 dvd len \<Longrightarrow> sv_clear S z l off len = (t, z') \<Longrightarrow>
      pages_put view off (zeros len) z z' \<or> (\<exists>e. t = Inl e) \<and> view z' = view z"
    and page_list_law: "sv_page_list S z s m = (pl, z') \<Longrightarrow> view z' = view z"
    and delete_blob_law: "sv_delete S z = (u, z') \<Longrightarrow>
      view z' = (view z)(None := None) \<or> u \<noteq> Inr () \<and> u \<noteq> Inl (HttpResponse 404) \<and> view z' = view z"

text \<open>The device the backend shows.\<close>

definition az_content :: "('z \<Rightarrow> string option \<Rightarrow> bytes option) \<Rightarrow> 'z azure \<Rightarrow> bytes" where
  "az_content view a = (case view (az_world a) (az_snapshot a) of Some c \<Rightarrow> c | None \<Rightarrow> [])"

text \<open>A repeated page request has the effect of one, and an unfinished one that of none or one.\<close>

definition put_or_not ::
  "('z \<Rightarrow> string option \<Rightarrow> bytes option) \<Rightarrow> nat \<Rightarrow> bytes \<Rightarrow> 'z \<Rightarrow> 'z \<Rightarrow> bool" where
  "put_or_not view off d z z' \<longleftrightarrow> pages_put view off d z z' \<or> view z' = view z"

lemma overwrite_twice:
  "off + length d \<le> length c \<Longrightarrow> overwrite off d (overwrite off d c) = overwrite off d c"
  by (rule nth_equalityI) (auto simp: buf_simps)

lemma put_or_not_put:
  "put_or_not view off d z z1 \<Longrightarrow> pages_put view off d z1 z2 \<Longrightarrow> pages_put view off d z z2"
  by (auto simp: put_or_not_def pages_put_def overwrite_twice buf_simps)

lemma put_or_not_refl [simp]: "put_or_not view off d z z"
  by (simp add: put_or_not_def)

text \<open>The retried request; \<open>f\<close> is an upload or a clear.\<close>

lemma retried_put:
  assumes law: "\<And>z t z'. f z = (t, z') \<Longrightarrow> pages_put view off d z z' \<or> (\<exists>e. t = Inl e) \<and> view z' = view z"
    and run: "with_retry cfg nanos f z = (r, z', slept)"
  shows "put_or_not view off d z z' \<and> (\<forall>v. r = Inr v \<longrightarrow> pages_put view off d z z')"
proof (rule with_retry_invariant [where P = "put_or_not view off d z" and
      Q = "\<lambda>_. pages_put view off d z", OF _ _ run])
  show "put_or_not view off d z z" by simp
  fix z1 r1 z2 assume "put_or_not view off d z z1" and "f z1 = (r1, z2)"
  with law [of z1 r1 z2] put_or_not_put [of view off d z z1 z2]
  show "put_or_not view off d z z2 \<and> (\<forall>v. r1 = Inr v \<longrightarrow> pages_put view off d z z2)"
    by (auto simp: put_or_not_def pages_put_def)
qed

lemma pages_put_content:
  assumes "pages_put view off d (az_world a) z'" and "az_snapshot a = None"
  shows "off + length d \<le> length (az_content view a)"
    and "az_content view (a\<lparr>az_world := z'\<rparr>) = overwrite off d (az_content view a)"
  using assms by (auto simp: pages_put_def az_content_def)

lemma put_or_not_content:
  assumes "put_or_not view off d (az_world a) z'" and "az_snapshot a = None"
  shows "same_outside off (length d) (az_content view a) (az_content view (a\<lparr>az_world := z'\<rparr>))"
proof (cases "pages_put view off d (az_world a) z'")
  case True
  with assms(2) show ?thesis by (simp add: pages_put_content same_outside_overwrite)
next
  case False
  with assms show ?thesis by (auto simp: put_or_not_def az_content_def)
qed

lemma az_content_record_etag [simp]:
  "az_content view (record_etag a e) = az_content view a"
  "az_content view (a\<lparr>az_last_etag := e\<rparr>) = az_content view a"
  by (simp_all add: record_etag_def az_content_def)

lemma az_content_same: "view z' = view (az_world a) \<Longrightarrow> az_content view (a\<lparr>az_world := z'\<rparr>) = az_content view a"
  by (simp add: az_content_def)

lemma list_pages_keeps:
  fixes S :: "'z page_service"
  assumes keep: "\<And>z s m pl z'. sv_page_list S z s m = (pl, z') \<Longrightarrow> f z' = f z"
    and run: "list_pages S s z m acc = Some (r, z')"
  shows "f z' = f z"
proof -
  have step: "f (snd y) = f z"
    if "\<And>snap z marker ranges y. g S snap z marker ranges = Some y \<Longrightarrow> f (snd y) = f z"
      and "sv_page_list S z snap m = (pl, z1)"
      and "(case pl of
          Inl x \<Rightarrow> Some (Inl (IoErr ''Get Page Ranges''), z1)
        | Inr (status, body) \<Rightarrow>
            if \<not> (200 \<le> status \<and> status < 300) then Some (Inl (IoErr ''Get Page Ranges: HTTP status''), z1)
            else (case body of
                    Inl x \<Rightarrow> Some (Inl (IoErr ''read Get Page Ranges body''), z1)
                  | Inr doc \<Rightarrow>
                      (case parse_page_ranges doc of
                         Inl e \<Rightarrow> Some (Inl e, z1)
                       | Inr batch \<Rightarrow>
                           (case parse_next_marker doc of
                              None \<Rightarrow> Some (Inr (acc @ batch), z1)
                            | Some m \<Rightarrow> g S snap z1 (Some m) (acc @ batch))))) = Some y"
    for g z m acc pl z1 and y :: "(nat \<times> nat) list res \<times> 'z" and snap
    using that(3) keep [OF that(2)]
    by (auto split: sum.splits if_splits option.splits prod.splits dest!: that(1))
  have "S' = S \<longrightarrow> f (snd q) = f z" if "list_pages S' s z m acc = Some q" for S' s z m acc q
  proof (rule list_pages.raw_induct [OF _ that, where P = "\<lambda>S' s z m acc q. S' = S \<longrightarrow> f (snd q) = f z"], goal_cases)
    case (1 g S' snap z marker ranges y)
    obtain pl z1 where pl: "sv_page_list S' z snap marker = (pl, z1)" by fastforce
    show ?case
    proof
      assume S': "S' = S"
      show "f (snd y) = f z"
        by (rule step [of g z snap marker pl z1 ranges y])
           (use 1 pl S' in \<open>auto split: sum.splits\<close>)
    qed
  qed
  from this [OF run] show ?thesis by simp
qed

context page_blob_service
begin

lemma az_read_law:
  assumes "0 < len" and "az_read cfg S a off len = (r, a')"
  shows "az_content view a' = az_content view a \<and> (\<forall>d. r = Inr d \<longrightarrow> d = segment off len (az_content view a))"
proof (cases "512 dvd off \<and> 512 dvd len \<and> blob_client S a = Inr (az_snapshot a)")
  case True
  obtain q z' sl where run: "with_retry cfg (sv_nanos S) (\<lambda>z. sv_download S z (az_snapshot a) off len) (az_world a) = (q, z', sl)"
    by (cases "with_retry cfg (sv_nanos S) (\<lambda>z. sv_download S z (az_snapshot a) off len) (az_world a)") auto
  have "view z' = view (az_world a) \<and> (\<forall>v. q = Inr v \<longrightarrow> (\<exists>c. view (az_world a) (az_snapshot a) = Some c \<and> v = segment off len c))"
    by (rule with_retry_invariant [where P = "\<lambda>z. view z = view (az_world a)" and
          Q = "\<lambda>v _. \<exists>c. view (az_world a) (az_snapshot a) = Some c \<and> v = segment off len c", OF _ refl run])
       (use True assms(1) download_law in metis)
  with True assms(2) run show ?thesis
    by (auto simp: az_read_def is_multiple_of_def az_content_def split: sum.splits)
next
  case False
  with assms(2) show ?thesis
    by (auto simp: az_read_def is_multiple_of_def blob_client_def split: if_splits sum.splits option.splits prod.splits)
qed

lemma az_write_law:
  assumes "d \<noteq> []" and "az_write cfg S a off d = (u, a')"
  shows "(u = Inr () \<longrightarrow> off + length d \<le> length (az_content view a) \<and>
           az_content view a' = overwrite off d (az_content view a)) \<and>
         (u \<noteq> Inr () \<longrightarrow> same_outside off (length d) (az_content view a) (az_content view a'))"
proof (cases "az_snapshot a = None \<and> 512 dvd off \<and> 512 dvd length d")
  case True
  obtain q z' sl where run: "with_retry cfg (sv_nanos S) (\<lambda>z. sv_upload S z (az_lease_id a) off d) (az_world a) = (q, z', sl)"
    by (cases "with_retry cfg (sv_nanos S) (\<lambda>z. sv_upload S z (az_lease_id a) off d) (az_world a)") auto
  have "put_or_not view off d (az_world a) z' \<and> (\<forall>v. q = Inr v \<longrightarrow> pages_put view off d (az_world a) z')"
    by (rule retried_put [OF _ run]) (use True assms(1) upload_law in blast)
  with True assms(2) run show ?thesis
    by (auto simp: az_write_def is_multiple_of_def pages_put_content put_or_not_content split: sum.splits)
next
  case False
  with assms(2) show ?thesis by (auto simp: az_write_def is_multiple_of_def split: if_splits)
qed

lemma az_clear_law:
  assumes "0 < len" and "az_clear cfg S a off len = (u, a')"
  shows "(u = Inr () \<longrightarrow> off + len \<le> length (az_content view a) \<and>
           az_content view a' = overwrite off (zeros len) (az_content view a)) \<and>
         (u \<noteq> Inr () \<longrightarrow> same_outside off len (az_content view a) (az_content view a'))"
proof (cases "az_snapshot a = None \<and> 512 dvd off \<and> 512 dvd len")
  case True
  obtain q z' sl where run: "with_retry cfg (sv_nanos S) (\<lambda>z. sv_clear S z (az_lease_id a) off len) (az_world a) = (q, z', sl)"
    by (cases "with_retry cfg (sv_nanos S) (\<lambda>z. sv_clear S z (az_lease_id a) off len) (az_world a)") auto
  have "put_or_not view off (zeros len) (az_world a) z' \<and> (\<forall>v. q = Inr v \<longrightarrow> pages_put view off (zeros len) (az_world a) z')"
    by (rule retried_put [OF _ run]) (use True assms(1) clear_pages_law in blast)
  with True assms(2) run pages_put_content [where d = "zeros len"] put_or_not_content [where d = "zeros len"]
  show ?thesis
    by (fastforce simp: az_clear_def is_multiple_of_def split: sum.splits)
next
  case False
  with assms(2) show ?thesis by (auto simp: az_clear_def is_multiple_of_def split: if_splits)
qed

lemma az_create_law:
  assumes "sz < u64_limit" and "az_create S a sz = (u, a')"
  shows "(u = Inr () \<longrightarrow> length (az_content view a') = sz) \<and>
         (u \<noteq> Inr () \<longrightarrow> az_content view a \<noteq> [] \<longrightarrow> az_content view a' = az_content view a)"
proof (cases "az_snapshot a = None \<and> 0 < sz \<and> 512 dvd sz")
  case True
  obtain cr z1 where c: "sv_create_container S (az_world a) = (cr, z1)" by fastforce
  obtain pr z2 where p: "sv_properties S z1 None = (pr, z2)" by fastforce
  obtain v z3 where v: "sv_create S z2 sz (az_lease_id a) = (v, z3)" by fastforce
  note laws = container_law [OF c] properties_law [OF p] create_blob_law [OF _ _ assms(1) v]
  from assms(2) True c p v laws show ?thesis
    by (auto simp: az_create_def is_multiple_of_def az_content_def http_status_def Let_def
        split: sum.splits if_splits option.splits prod.splits az_err.splits)
next
  case False
  with assms(2) show ?thesis by (auto simp: az_create_def is_multiple_of_def split: if_splits)
qed

lemma list_pages_view: "list_pages S s z m acc = Some (r, z') \<Longrightarrow> view z' = view z"
  by (rule list_pages_keeps [where f = view]) (rule page_list_law)

lemma list_page_ranges_law:
  "list_page_ranges S a = (rs, a') \<Longrightarrow> az_content view a' = az_content view a"
  by (auto simp: list_page_ranges_def az_content_same dest!: list_pages_view
      split: if_splits option.splits sum.splits prod.splits)

lemma az_size_law:
  "az_size S a = (n, a') \<Longrightarrow>
   az_content view a' = az_content view a \<and> (\<forall>k. n = Inr k \<longrightarrow> k = length (az_content view a))"
  using properties_law [of "az_world a" "az_snapshot a"]
  by (fastforce simp: az_size_def blob_client_def az_content_def
      split: if_splits option.splits sum.splits prod.splits)

lemma az_etag_law: "az_etag S a = (t, a') \<Longrightarrow> az_content view a' = az_content view a"
  using properties_law [of "az_world a" "az_snapshot a"]
  by (fastforce simp: az_etag_def blob_client_def az_content_def
      split: if_splits option.splits sum.splits prod.splits)

end

lemma azure_backend_sel [simp]:
  "b_create (azure_backend cfg S) = az_create S" "b_read (azure_backend cfg S) = az_read cfg S"
  "b_write (azure_backend cfg S) = az_write cfg S" "b_clear (azure_backend cfg S) = az_clear cfg S"
  "b_flush (azure_backend cfg S) = az_flush" "b_delete (azure_backend cfg S) = az_delete S"
  "b_size (azure_backend cfg S) = az_size S" "b_etag (azure_backend cfg S) = az_etag S"
  "b_data_ranges (azure_backend cfg S) = list_page_ranges S"
  "b_prefetch (azure_backend cfg S) = default_prefetch (az_read cfg S)"
  by (simp_all add: azure_backend_def)

sublocale page_blob_service \<subseteq> azure: page_store "azure_backend cfg S" "az_content view" "az_content view" "\<lambda>_. True" for cfg
proof (unfold_locales, goal_cases)
  case (1 s)
  then show ?case using blob_size by (auto simp: az_content_def split: option.splits)
next
  case (2 s len off r s')
  then show ?case using az_read_law by simp
next
  case (3 s d off u s')
  then show ?case using az_write_law by simp
next
  case (4 s u s')
  then show ?case by (auto simp: az_flush_def)
next
  case (5 s z s')
  then show ?case using az_size_law by simp
next
  case (6 s m u s')
  then show ?case using az_create_law by simp
next
  case (7 s rs s')
  then show ?case using list_page_ranges_law by simp
next
  case (8 s t s')
  then show ?case using az_etag_law by simp
qed

context page_blob_service
begin

lemma azure_is_page_store: "page_store (azure_backend cfg S) (az_content view) (az_content view) (\<lambda>_. True)"
  by (rule azure.page_store_axioms)

end

end
