(* ===== verification/Auth.thy ===== *)
theory Auth
  imports Rust_Text "HOL-Library.List_Lexorder" "HOL-Library.Char_ord"
begin

text \<open>
  The request authentication of \<open>auth.rs\<close>: the choice of credential, the shared-key signing policy
  with its canonical forms, and the policy that appends a shared access signature. Both policies
  are installed per try, so they run again on a request that is sent again. The base64 codec, the
  HMAC, the clock and the Entra token endpoint are parameters.
\<close>

section \<open>Credentials\<close>

datatype user_assigned_identity =
    ClientId string
  | ObjectId string
  | ResourceId string

datatype auth_config =
    Msi "user_assigned_identity option"
  | WorkloadIdentity "string option" "string option" "string option"
  | ServicePrincipal string string string
  | SharedKey string string
  | Sas string

text \<open>\<open>build_token_credential\<close>: whether the configuration yields an Entra credential at all.\<close>

definition has_token_credential :: "auth_config \<Rightarrow> bool" where
  "has_token_credential auth =
     (case auth of SharedKey _ _ \<Rightarrow> False | Sas _ \<Rightarrow> False | _ \<Rightarrow> True)"

text \<open>
  \<open>storage_bearer_token\<close>; \<open>get_token\<close> builds the credential and asks the token endpoint.
\<close>

definition storage_bearer_token ::
  "(auth_config \<Rightarrow> 'z \<Rightarrow> string res \<times> 'z) \<Rightarrow> auth_config \<Rightarrow> 'z \<Rightarrow> (string option) res \<times> 'z" where
  "storage_bearer_token get_token auth z =
     (if \<not> has_token_credential auth then (Inr None, z)
      else
        (case get_token auth z of
           (Inl e, z') \<Rightarrow> (Inl e, z')
         | (Inr t, z') \<Rightarrow> (Inr (Some (''Bearer '' @ t)), z')))"

section \<open>Requests\<close>

text \<open>
  A request as the policies see it: the headers with their lower-case names, each name once, and the
  URL as its path with the decoded query pairs.
\<close>

record request =
  rq_method :: string
  rq_headers :: "(string \<times> string) list"
  rq_path :: string
  rq_query :: "(string \<times> string) list"

text \<open>\<open>insert_header\<close>: the value of a name that is present is replaced.\<close>

fun header_insert :: "string \<Rightarrow> string \<Rightarrow> (string \<times> string) list \<Rightarrow> (string \<times> string) list" where
  "header_insert n v [] = [(n, v)]"
| "header_insert n v ((m, w) # hs) = (if m = n then (n, v) # hs else (m, w) # header_insert n v hs)"

definition insert_header :: "string \<Rightarrow> string \<Rightarrow> request \<Rightarrow> request" where
  "insert_header n v r = r\<lparr>rq_headers := header_insert n v (rq_headers r)\<rparr>"

text \<open>\<open>to_lowercase\<close> and \<open>to_uppercase\<close> on the code points of the model.\<close>

definition lower_char :: "char \<Rightarrow> char" where
  "lower_char c =
     (let n = of_char c :: nat in
      if 65 \<le> n \<and> n \<le> 90 \<or> 192 \<le> n \<and> n \<le> 222 \<and> n \<noteq> 215 then char_of (n + 32) else c)"

definition to_lowercase :: "string \<Rightarrow> string" where
  "to_lowercase = map lower_char"

definition upper_ascii :: "string \<Rightarrow> string" where
  "upper_ascii = map (\<lambda>c. let n = of_char c :: nat in if 97 \<le> n \<and> n \<le> 122 then char_of (n - 32) else c)"

section \<open>The shared-key policy\<close>

definition canonicalized_headers :: "(string \<times> string) list \<Rightarrow> string" where
  "canonicalized_headers headers =
     (let ms = List.map_filter
                 (\<lambda>(name, value).
                    let n = to_lowercase name in
                    if take 5 n = ''x-ms-'' then Some (n, trim value) else None)
                 headers;
          sorted_ms = sort_key fst ms
      in join (CHR 0x0A) (map (\<lambda>(k, v). k @ '':'' @ v) sorted_ms))"

text \<open>The grouping loop of \<open>canonicalized_resource\<close>: equal neighbours share an entry.\<close>

fun group_params :: "(string \<times> string list) list \<Rightarrow> (string \<times> string) list \<Rightarrow> (string \<times> string list) list" where
  "group_params grouped [] = grouped"
| "group_params grouped ((k, v) # ps) =
     (if grouped \<noteq> [] \<and> fst (last grouped) = k
      then group_params (butlast grouped @ [(k, snd (last grouped) @ [v])]) ps
      else group_params (grouped @ [(k, [v])]) ps)"

definition query_groups :: "(string \<times> string) list \<Rightarrow> (string \<times> string list) list" where
  "query_groups query = group_params [] (sort_key fst (map (\<lambda>(k, v). (to_lowercase k, v)) query))"

definition canonicalized_resource :: "string \<Rightarrow> string \<Rightarrow> (string \<times> string) list \<Rightarrow> string" where
  "canonicalized_resource account path query =
     ''/'' @ account @ path @
     concat (map (\<lambda>(k, vals). [CHR 0x0A] @ k @ '':'' @ join (CHR '','') vals) (query_groups query))"

definition get_header :: "request \<Rightarrow> string \<Rightarrow> string" where
  "get_header r name = (case map_of (rq_headers r) name of Some v \<Rightarrow> v | None \<Rightarrow> [])"

definition string_to_sign :: "string \<Rightarrow> request \<Rightarrow> string" where
  "string_to_sign account r =
     (let cl = get_header r ''content-length'';
          cl_str = (if cl = ''0'' \<or> cl = [] then [] else cl)
      in join (CHR 0x0A)
           [upper_ascii (rq_method r), get_header r ''content-encoding'', get_header r ''content-language'',
            cl_str, get_header r ''content-md5'', get_header r ''content-type'', get_header r ''date'',
            get_header r ''if-modified-since'', get_header r ''if-match'', get_header r ''if-none-match'',
            get_header r ''if-unmodified-since'', get_header r ''range'',
            canonicalized_headers (rq_headers r), canonicalized_resource account (rq_path r) (rq_query r)])"

record shared_key_policy =
  sk_account :: string
  sk_key :: bytes

definition shared_key_new :: "(string \<Rightarrow> bytes option) \<Rightarrow> string \<Rightarrow> string \<Rightarrow> shared_key_policy res" where
  "shared_key_new b64_decode account key =
     (case b64_decode key of
        None \<Rightarrow> Inl (IoErr ''decode account key'')
      | Some k \<Rightarrow> Inr \<lparr>sk_account = account, sk_key = k\<rparr>)"

text \<open>\<open>mac\<close> is the base64 of the HMAC-SHA256 of a string under a key.\<close>

definition sign :: "(string \<Rightarrow> bytes \<Rightarrow> string) \<Rightarrow> shared_key_policy \<Rightarrow> request \<Rightarrow> string" where
  "sign mac p r = ''SharedKey '' @ sk_account p @ '':'' @ mac (string_to_sign (sk_account p) r) (sk_key p)"

text \<open>The request that the policy passes down the pipeline; \<open>now\<close> is the HTTP date.\<close>

definition shared_key_send ::
  "(string \<Rightarrow> bytes \<Rightarrow> string) \<Rightarrow> shared_key_policy \<Rightarrow> string \<Rightarrow> request \<Rightarrow> request" where
  "shared_key_send mac p now r =
     (let r1 = (if map_of (rq_headers r) ''x-ms-date'' = None then insert_header ''x-ms-date'' now r else r)
      in insert_header ''authorization'' (sign mac p r1) r1)"

section \<open>The SAS policy\<close>

text \<open>\<open>query_pairs\<close> parses a query string; a token that does not parse gives no pairs.\<close>

definition sas_policy_new :: "(string \<Rightarrow> (string \<times> string) list option) \<Rightarrow> string \<Rightarrow> (string \<times> string) list" where
  "sas_policy_new query_pairs sas_token =
     (case query_pairs (dropWhile (\<lambda>c. c = CHR ''?'') sas_token) of None \<Rightarrow> [] | Some ps \<Rightarrow> ps)"

definition sas_send :: "(string \<times> string) list \<Rightarrow> request \<Rightarrow> request" where
  "sas_send pairs r =
     (let existing = map fst (rq_query r);
          to_add = filter (\<lambda>(k, _). k \<notin> set existing) pairs
      in r\<lparr>rq_query := rq_query r @ to_add\<rparr>)"

section \<open>Sending a request again\<close>

lemma map_of_header_insert: "map_of (header_insert n v hs) = (map_of hs)(n \<mapsto> v)"
  by (induction n v hs rule: header_insert.induct) (auto simp: fun_eq_iff)

lemma header_insert_again: "header_insert n v (header_insert n w hs) = header_insert n v hs"
  by (induction n w hs rule: header_insert.induct) auto

lemma insert_header_again: "insert_header n v (insert_header n w r) = insert_header n v r"
  by (simp add: insert_header_def header_insert_again)

lemma map_filter_header_insert:
  "(\<And>w. f (n, w) = None) \<Longrightarrow> List.map_filter f (header_insert n v hs) = List.map_filter f hs"
  by (induction n v hs rule: header_insert.induct) (auto simp: map_filter_simps split: option.splits)

lemma canonicalized_headers_insert:
  "take 5 (to_lowercase n) \<noteq> ''x-ms-'' \<Longrightarrow>
   canonicalized_headers (header_insert n v hs) = canonicalized_headers hs"
  by (simp add: canonicalized_headers_def map_filter_header_insert)

text \<open>The signature does not cover the authorization header it is put into.\<close>

lemma string_to_sign_authorization:
  "string_to_sign account (insert_header ''authorization'' v r) = string_to_sign account r"
proof -
  have "take 5 (to_lowercase ''authorization'') \<noteq> ''x-ms-''"
    by (simp add: to_lowercase_def lower_char_def)
  then show ?thesis
    by (simp add: string_to_sign_def insert_header_def get_header_def map_of_header_insert
        canonicalized_headers_insert)
qed

text \<open>
  Signing is stable under retries: a request that the shared-key policy has signed and that
  passes through it again, at any later time, leaves it unchanged, with the date and the
  signature of the first try.
\<close>

theorem shared_key_resend:
  "shared_key_send mac p later (shared_key_send mac p now r) = shared_key_send mac p now r"
proof -
  define r1 where "r1 = (if map_of (rq_headers r) ''x-ms-date'' = None then insert_header ''x-ms-date'' now r else r)"
  have send: "shared_key_send mac p now r = insert_header ''authorization'' (sign mac p r1) r1"
    by (simp add: shared_key_send_def r1_def Let_def)
  have "map_of (rq_headers r1) ''x-ms-date'' \<noteq> None"
    by (simp add: r1_def insert_header_def map_of_header_insert)
  then have "map_of (rq_headers (insert_header ''authorization'' (sign mac p r1) r1)) ''x-ms-date'' \<noteq> None"
    by (simp add: insert_header_def map_of_header_insert)
  then have "shared_key_send mac p later (insert_header ''authorization'' (sign mac p r1) r1) =
      insert_header ''authorization'' (sign mac p (insert_header ''authorization'' (sign mac p r1) r1))
        (insert_header ''authorization'' (sign mac p r1) r1)"
    unfolding shared_key_send_def Let_def by (simp only: if_False)
  also have "sign mac p (insert_header ''authorization'' (sign mac p r1) r1) = sign mac p r1"
    unfolding sign_def [of mac p "insert_header _ _ _"] string_to_sign_authorization
    by (simp only: sign_def)
  finally show ?thesis
    unfolding send insert_header_again .
qed

text \<open>The SAS policy: every pair of the token is present afterwards, and only missing ones are added.\<close>

lemma sas_send_keys:
  "set (map fst (rq_query (sas_send pairs r))) = set (map fst (rq_query r)) \<union> set (map fst pairs)"
  by (force simp: sas_send_def Let_def)

lemma sas_send_again: "sas_send pairs (sas_send pairs r) = sas_send pairs r"
proof -
  have "filter (\<lambda>(k, _). k \<notin> set (map fst (rq_query (sas_send pairs r)))) pairs = []"
    unfolding sas_send_keys by (force simp: filter_empty_conv)
  then show ?thesis
    unfolding sas_send_def [of pairs "sas_send pairs r"] Let_def by simp
qed

section \<open>The canonical query\<close>

lemma group_params_prefix: "gs \<noteq> [] \<Longrightarrow> group_params (g @ gs) ps = g @ group_params gs ps"
proof (induction gs ps arbitrary: g rule: group_params.induct)
  case (2 grouped k v ps)
  then show ?case by (auto simp: butlast_append simp flip: append_assoc)
qed simp

lemma group_params_run:
  "sorted (k # map fst ps) \<Longrightarrow>
   group_params [(k, vs)] ps =
     (k, vs @ map snd (filter (\<lambda>p. fst p = k) ps)) # group_params [] (filter (\<lambda>p. fst p \<noteq> k) ps)"
proof (induction ps arbitrary: vs)
  case (Cons p ps)
  obtain k' v where p: "p = (k', v)" by (cases p)
  show ?case
  proof (cases "k' = k")
    case True
    with Cons p show ?thesis by simp
  next
    case False
    with Cons.prems p have "\<forall>q \<in> set (p # ps). fst q \<noteq> k" by auto
    then have "filter (\<lambda>p. fst p = k) (p # ps) = []" "filter (\<lambda>p. fst p \<noteq> k) (p # ps) = p # ps"
      by (auto simp: filter_empty_conv filter_id_conv)
    moreover have "group_params [(k, vs), (k', [v])] ps = (k, vs) # group_params [(k', [v])] ps"
      using group_params_prefix [of "[(k', [v])]" "[(k, vs)]" ps] by simp
    ultimately show ?thesis using False p by simp
  qed
qed simp

lemma group_params_sorted:
  "sorted (map fst ps) \<Longrightarrow>
   group_params [] ps =
     map (\<lambda>k. (k, map snd (filter (\<lambda>p. fst p = k) ps))) (sorted_list_of_set (fst ` set ps))"
proof (induction ps rule: length_induct)
  case (1 ps)
  show ?case
  proof (cases ps)
    case (Cons p rest)
    obtain k v where p: "p = (k, v)" by (cases p)
    define others where "others = filter (\<lambda>p. fst p \<noteq> k) rest"
    have sorted: "sorted (k # map fst rest)" using 1 Cons p by simp
    then have "sorted (map fst others)" unfolding others_def by (auto intro: sorted_filter)
    moreover have "length others < length ps" by (simp add: others_def Cons le_imp_less_Suc)
    ultimately have IH: "group_params [] others =
        map (\<lambda>k. (k, map snd (filter (\<lambda>p. fst p = k) others))) (sorted_list_of_set (fst ` set others))"
      using 1 by blast
    have keys: "fst ` set ps = insert k (fst ` set others)" "k \<notin> fst ` set others"
      by (auto simp: others_def Cons p)
    have "sorted_list_of_set (fst ` set ps) = k # sorted_list_of_set (fst ` set others)"
      using sorted keys by (subst keys(1), subst sorted_list_of_set_insert_remove)
        (auto simp: others_def insort_is_Cons)
    moreover have "filter (\<lambda>p. fst p = j) others = filter (\<lambda>p. fst p = j) ps" if "j \<in> fst ` set others" for j
      using that keys(2) by (auto simp: others_def Cons p intro: filter_cong)
    then have "map (\<lambda>j. (j, map snd (filter (\<lambda>p. fst p = j) ps))) (sorted_list_of_set (fst ` set others)) =
        group_params [] others"
      unfolding IH by (intro map_cong) auto
    ultimately show ?thesis
      using group_params_run [OF sorted, of "[v]"] by (simp add: Cons p others_def)
  qed simp
qed

text \<open>
  The canonical query lists each parameter name once, in lower case and in ascending order, with all
  values given for it, whatever their case, in the order of the URL.
\<close>

theorem query_groups_canonical:
  "query_groups query =
     map (\<lambda>k. (k, map snd (filter (\<lambda>p. to_lowercase (fst p) = k) query)))
       (sorted_list_of_set ((\<lambda>p. to_lowercase (fst p)) ` set query))"
proof -
  define ps where "ps = map (\<lambda>(k, v). (to_lowercase k, v)) query"
  have vals: "map snd (filter (\<lambda>p. fst p = k) ps) = map snd (filter (\<lambda>p. to_lowercase (fst p) = k) query)" for k
    by (simp add: ps_def filter_map o_def case_prod_beta)
  have "query_groups query =
      map (\<lambda>k. (k, map snd (filter (\<lambda>p. fst p = k) (sort_key fst ps)))) (sorted_list_of_set (fst ` set (sort_key fst ps)))"
    unfolding query_groups_def ps_def by (rule group_params_sorted) simp
  also have "fst ` set (sort_key fst ps) = (\<lambda>p. to_lowercase (fst p)) ` set query"
    by (force simp: ps_def)
  finally show ?thesis
    by (simp add: sort_key_stable vals)
qed

end
