(* ===== verification/Azure_Copy.thy ===== *)
theory Azure_Copy
  imports Azure Auth "HOL-Library.Multiset"
begin

text \<open>
  The server-side copy of \<open>backend/azure.rs\<close> (\<open>copy_pages_from_url\<close>): the chunks of the source are
  copied by the service itself, chunks in a zero gap of the source are cleared on the destination.
  The chunks of a batch are in flight together and take effect in any order; the order is a
  parameter.
\<close>

section \<open>The copy\<close>

definition BATCH_BYTES :: nat where
  "BATCH_BYTES = 8 * 1024 * 1024 * 1024"

text \<open>
  What the copy takes from its environment: \<open>UBLK_COPY_CHUNK_BYTES\<close> as parsed, \<open>UBLK_COPY_CONCURRENCY\<close>
  as text with the number of CPUs as its default, the order in which the requests of a batch take
  effect, and the Entra token endpoint.
\<close>

record 'z copy_env =
  ce_chunk :: "nat option"
  ce_concurrency :: "string option"
  ce_cpus :: nat
  ce_order :: "nat list \<Rightarrow> nat list"
  ce_token :: "auth_config \<Rightarrow> 'z \<Rightarrow> string res \<times> 'z"

definition copy_pipeline_depth :: "string option \<Rightarrow> nat \<Rightarrow> nat" where
  "copy_pipeline_depth env cpus =
     (case Option.bind env (parse_uint u64_limit) of
        Some n \<Rightarrow> if 0 < n then n else cpus
      | None \<Rightarrow> cpus)"

definition chunks_per_batch :: "'z copy_env \<Rightarrow> nat" where
  "chunks_per_batch env =
     max (BATCH_BYTES div copy_chunk_bytes (ce_chunk env))
         (copy_pipeline_depth (ce_concurrency env) (ce_cpus env))"

text \<open>One chunk: copied when it holds source data, else cleared.\<close>

definition copy_chunk ::
  "'z page_service \<Rightarrow> nat \<Rightarrow> string option \<Rightarrow> string option \<Rightarrow> string \<Rightarrow> nat \<Rightarrow> (nat \<times> nat) list option \<Rightarrow>
   nat \<Rightarrow> 'z \<Rightarrow> unit res \<times> 'z" where
  "copy_chunk S chunk lease csa url total_size ranges i z =
     (let off = i * chunk;
          len = min chunk (total_size - off);
          is_data = (case ranges of Some rs \<Rightarrow> range_intersects rs off len | None \<Rightarrow> True)
      in if is_data
         then (case sv_upload_from_url S z lease csa url off len of
                 (Inl _, z') \<Rightarrow> (Inl (IoErr ''put page from url''), z')
               | (Inr _, z') \<Rightarrow> (Inr (), z'))
         else (case sv_clear S z lease off len of
                 (Inl _, z') \<Rightarrow> (Inl (IoErr ''clear pages''), z')
               | (Inr _, z') \<Rightarrow> (Inr (), z')))"

text \<open>The requests of a batch, up to the first that fails.\<close>

fun copy_chunks :: "(nat \<Rightarrow> 'z \<Rightarrow> unit res \<times> 'z) \<Rightarrow> nat list \<Rightarrow> 'z \<Rightarrow> unit res \<times> 'z" where
  "copy_chunks f [] z = (Inr (), z)"
| "copy_chunks f (i # js) z =
     (case f i z of (Inl e, z') \<Rightarrow> (Inl e, z') | (Inr _, z') \<Rightarrow> copy_chunks f js z')"

definition mint_copy_source ::
  "(auth_config \<Rightarrow> 'z \<Rightarrow> string res \<times> 'z) \<Rightarrow> auth_config option \<Rightarrow> 'z \<Rightarrow> (string option) res \<times> 'z" where
  "mint_copy_source get_token auth z =
     (case auth of Some cfg \<Rightarrow> storage_bearer_token get_token cfg z | None \<Rightarrow> (Inr None, z))"

lemma chunks_per_batch_pos: "0 < chunks_per_batch env"
proof -
  have "0 < BATCH_BYTES div copy_chunk_bytes (ce_chunk env)"
    using copy_chunk_bytes_bounds [of "ce_chunk env"]
    by (intro div_greater_zero_iff [THEN iffD2])
       (auto simp: BATCH_BYTES_def MAX_PAGE_REQUEST_BYTES_def)
  then show ?thesis by (simp add: chunks_per_batch_def)
qed

text \<open>
  The loop over the batches. \<open>batch_start + chunks_per_batch\<close> does not wrap around: the start is
  positive only when a batch is smaller than the number of chunks, which is at most \<open>2 ^ 55\<close>.
\<close>

function copy_batches ::
  "'z page_service \<Rightarrow> 'z copy_env \<Rightarrow> string option \<Rightarrow> string \<Rightarrow> nat \<Rightarrow> auth_config option \<Rightarrow>
   (nat \<times> nat) list option \<Rightarrow> nat \<Rightarrow> nat \<Rightarrow> 'z \<Rightarrow> unit res \<times> 'z" where
  "copy_batches S env lease url total_size auth ranges n_chunks batch_start z =
     (if batch_start < n_chunks
      then
        let batch_end = min (batch_start + chunks_per_batch env) n_chunks in
        case mint_copy_source (ce_token env) auth z of
          (Inl e, z1) \<Rightarrow> (Inl e, z1)
        | (Inr csa, z1) \<Rightarrow>
            (case copy_chunks (copy_chunk S (copy_chunk_bytes (ce_chunk env)) lease csa url total_size ranges)
                    (ce_order env [batch_start..<batch_end]) z1 of
               (Inl e, z2) \<Rightarrow> (Inl e, z2)
             | (Inr _, z2) \<Rightarrow> copy_batches S env lease url total_size auth ranges n_chunks batch_end z2)
      else (Inr (), z))"
  by pat_completeness auto
termination
  by (relation "measure (\<lambda>(_, _, _, _, _, _, _, n, b, _). n - b)")
     (auto simp: min_def chunks_per_batch_pos intro!: diff_less_mono2)

declare copy_batches.simps [simp del]

definition copy_pages_from_url ::
  "'z page_service \<Rightarrow> 'z copy_env \<Rightarrow> 'z azure \<Rightarrow> string \<Rightarrow> nat \<Rightarrow> auth_config option \<Rightarrow>
   (nat \<times> nat) list option \<Rightarrow> unit res \<times> 'z azure" where
  "copy_pages_from_url S env a url total_size auth ranges =
     (if \<not> is_multiple_of total_size 512 then (Inl Misaligned, a)
      else
        let chunk = copy_chunk_bytes (ce_chunk env);
            n_chunks = div_ceil total_size chunk
        in case copy_batches S env (az_lease_id a) url total_size auth ranges n_chunks 0 (az_world a) of
             (Inl e, z') \<Rightarrow> (Inl e, a\<lparr>az_world := z'\<rparr>)
           | (Inr _, z') \<Rightarrow> (Inr (), record_etag (a\<lparr>az_world := z'\<rparr>) None))"

section \<open>Chunks copied so far\<close>

text \<open>The chunks \<open>D\<close> hold the bytes of the source, all other bytes are as in \<open>c\<close>.\<close>

definition copied :: "nat \<Rightarrow> nat \<Rightarrow> bytes \<Rightarrow> nat set \<Rightarrow> bytes \<Rightarrow> bytes \<Rightarrow> bool" where
  "copied chunk n src D c c' \<longleftrightarrow>
     length c' = length c \<and> (\<forall>i \<in> D. min ((i + 1) * chunk) n \<le> length c) \<and>
     (\<forall>j < length c. c' ! j = (if j < n \<and> j div chunk \<in> D then src ! j else c ! j))"

lemma copied_refl: "copied chunk n src {} c c"
  by (simp add: copied_def)

lemma copied_chunk:
  assumes "copied chunk n src D c c1" and "0 < chunk" and "n \<le> length src" and "i * chunk < n"
    and "i * chunk + min chunk (n - i * chunk) \<le> length c1"
  shows "copied chunk n src (insert i D) c
           (overwrite (i * chunk) (segment (i * chunk) (min chunk (n - i * chunk)) src) c1)"
proof -
  define off len where "off = i * chunk" and "len = min chunk (n - i * chunk)"
  define d where "d = segment off len src"
  have d: "length d = len" using assms(3,4) by (auto simp: d_def buf_simps off_def len_def)
  have fits: "off + length d \<le> length c1" using assms(5) d by (simp add: off_def len_def)
  have len: "length c1 = length c" using assms(1) by (simp add: copied_def)
  have div: "j div chunk = i \<longleftrightarrow> off \<le> j \<and> j < off + chunk" for j
    using assms(2) by (metis add.commute div_nat_eqI dividend_less_times_div mult.commute mult_Suc off_def times_div_less_eq_dividend)
  have "overwrite off d c1 ! j = (if j < n \<and> j div chunk \<in> insert i D then src ! j else c ! j)"
    if j: "j < length c" for j
  proof (cases "off \<le> j \<and> j < off + len")
    case True
    then have "j div chunk = i" using div [of j] by (auto simp: len_def)
    moreover have "j < n" using True by (auto simp: len_def off_def min_def split: if_splits)
    ultimately have "j < n" "j div chunk = i" by auto
    with True j len fits d assms(3) show ?thesis by (auto simp: buf_simps d_def)
  next
    case False
    have "\<not> (j < n \<and> j div chunk = i)"
    proof
      assume a: "j < n \<and> j div chunk = i"
      then have "off \<le> j" "j < off + chunk" using div [of j] by auto
      with a False show False by (auto simp: len_def off_def)
    qed
    with False j len fits d assms(1) show ?thesis by (auto simp: buf_simps copied_def)
  qed
  moreover have "min ((i + 1) * chunk) n \<le> length c"
    using assms(4,5) len by (auto simp: min_def algebra_simps split: if_splits)
  ultimately show ?thesis
    using assms(1) fits len by (simp add: copied_def buf_simps off_def len_def d_def)
qed

lemma div_lt_div_ceil:
  assumes "0 < chunk" and "j < n"
  shows "j div chunk < div_ceil n chunk"
proof -
  have "j div chunk * chunk \<le> j" by simp
  also note assms(2)
  finally show ?thesis using assms(1) by (simp add: div_ceil_le_iff)
qed

lemma copied_all:
  assumes "copied chunk n src {0..<div_ceil n chunk} c c'" and "0 < chunk" and "n \<le> length src"
  shows "c' = overwrite 0 (take n src) c" and "n \<le> length c"
proof -
  show n: "n \<le> length c"
  proof (cases "n = 0")
    case False
    have "(n - 1) div chunk < div_ceil n chunk"
      using False by (intro div_lt_div_ceil assms(2)) simp
    with assms(1) have "min (((n - 1) div chunk + 1) * chunk) n \<le> length c" by (simp add: copied_def)
    moreover have "n \<le> ((n - 1) div chunk + 1) * chunk"
      using assms(2) False dividend_less_div_times [of chunk "n - 1"] by simp
    ultimately show ?thesis by simp
  qed simp
  have "j div chunk < div_ceil n chunk" if "j < n" for j
    using that assms(2) by (intro div_lt_div_ceil)
  then show "c' = overwrite 0 (take n src) c"
    using assms(1,3) n by (intro nth_equalityI) (auto simp: copied_def buf_simps)
qed

lemma copied_same_outside: "copied chunk n src D c c' \<Longrightarrow> same_outside 0 n c c'"
  by (auto simp: copied_def same_outside_def)

section \<open>The copy is correct\<close>

text \<open>A sparseness map is true of a blob: every byte outside its ranges is zero.\<close>

definition map_covers :: "(nat \<times> nat) list \<Rightarrow> bytes \<Rightarrow> bool" where
  "map_covers rs c \<longleftrightarrow>
     ranges_ok rs \<and> (\<forall>j < length c. c ! j \<noteq> 0 \<longrightarrow> (\<exists>(s, l) \<in> set rs. s \<le> j \<and> j < s + l))"

lemma gap_is_zero:
  assumes "map_covers rs c" and "off + len \<le> length c" and "length c < u64_limit"
    and "\<not> range_intersects rs off len"
  shows "segment off len c = zeros len"
proof (rule nth_equalityI)
  show "length (segment off len c) = length (zeros len)" using assms(2) by (simp add: buf_simps)
next
  fix k assume "k < length (segment off len c)"
  then have k: "k < len" using assms(2) by (simp add: buf_simps)
  have "\<not> (\<exists>(s, l) \<in> set rs. s \<le> off + k \<and> off + k < s + l)"
    using assms k range_intersects_iff [of rs off len] unfolding map_covers_def by fastforce
  then have "c ! (off + k) = 0"
    using assms(1,2) k unfolding map_covers_def by (meson add_less_mono1 le_less_trans nat_add_left_cancel_less less_le_trans)
  then show "segment off len c ! k = zeros len ! k" using k assms(2) by (simp add: buf_simps)
qed

text \<open>
  The service together with a source it can read at \<open>url\<close>: as long as the world is \<open>ready\<close> (the source
  still holds \<open>src\<close>), a successful \<open>Put Page From URL\<close> puts the bytes of the source. Asking for a token
  touches no blob, and the requests of the copy leave the source alone.
\<close>

locale copy_source = page_blob_service +
  fixes url :: string and src :: bytes and get_token :: "auth_config \<Rightarrow> 'a \<Rightarrow> string res \<times> 'a"
    and ready :: "'a \<Rightarrow> bool"
  assumes from_url_law: "ready z \<Longrightarrow> 0 < len \<Longrightarrow> 512 dvd off \<Longrightarrow> 512 dvd len \<Longrightarrow> off + len \<le> length src \<Longrightarrow>
      sv_upload_from_url S z l csa url off len = (u, z') \<Longrightarrow>
      pages_put view off (segment off len src) z z' \<or> (\<exists>e. u = Inl e) \<and> view z' = view z"
    and token_law: "get_token auth z = (t, z') \<Longrightarrow> view z' = view z"
    and from_url_ready: "ready z \<Longrightarrow> sv_upload_from_url S z l csa url off len = (u, z') \<Longrightarrow> ready z'"
    and clear_ready: "ready z \<Longrightarrow> sv_clear S z l off len = (c, z') \<Longrightarrow> ready z'"
    and token_ready: "ready z \<Longrightarrow> get_token auth z = (t, z') \<Longrightarrow> ready z'"
    and src_size: "length src < u64_limit"
begin

text \<open>One chunk puts its bytes, or fails having put them or not.\<close>

lemma copy_chunk_puts:
  assumes "512 dvd chunk" and "0 < chunk" and "512 dvd n" and "n \<le> length src" and "i * chunk < n"
    and "\<And>rs. ranges = Some rs \<Longrightarrow> map_covers rs src"
    and "ready z" and "copy_chunk S chunk l csa url n ranges i z = (u, z')"
  defines "d \<equiv> segment (i * chunk) (min chunk (n - i * chunk)) src"
  shows "pages_put view (i * chunk) d z z' \<or> u \<noteq> Inr () \<and> view z' = view z"
proof -
  define off len where "off = i * chunk" and "len = min chunk (n - i * chunk)"
  have al: "512 dvd off" "512 dvd len" "0 < len" "off + len \<le> length src"
    using assms(1-5) by (auto simp: off_def len_def min_def)
  have d: "d = segment off len src" by (simp add: d_def off_def len_def)
  note run = assms(8) [unfolded copy_chunk_def Let_def, folded off_def len_def, folded off_def]
  show ?thesis
  proof (cases "case ranges of Some rs \<Rightarrow> range_intersects rs off len | None \<Rightarrow> True")
    case True
    with from_url_law [OF assms(7) al(3,1,2,4), of l csa] run show ?thesis
      by (auto simp: d off_def [symmetric] split: prod.splits sum.splits)
  next
    case False
    then obtain rs where "ranges = Some rs" "\<not> range_intersects rs off len"
      by (auto split: option.splits)
    then have "d = zeros len"
      using gap_is_zero [of rs src off len] assms(6) al(4) src_size by (simp add: d)
    with False clear_pages_law [OF al(3,1,2), of z l] run show ?thesis
      by (auto simp: off_def [symmetric] split: prod.splits sum.splits)
  qed
qed

lemma copy_chunk_ready:
  "ready z \<Longrightarrow> copy_chunk S chunk l csa url n ranges i z = (u, z') \<Longrightarrow> ready z'"
  by (auto simp: copy_chunk_def Let_def dest: from_url_ready clear_ready split: if_splits prod.splits sum.splits)

text \<open>The live blob and the snapshots of the worlds a copy goes through.\<close>

definition copying :: "nat \<Rightarrow> nat \<Rightarrow> nat set \<Rightarrow> 'a \<Rightarrow> 'a \<Rightarrow> bool" where
  "copying chunk n D z z' \<longleftrightarrow> ready z' \<and>
     ((view z' = view z \<and> D = {}) \<or>
     (\<exists>c c'. view z None = Some c \<and> copied chunk n src D c c' \<and> view z' = (view z)(None := Some c')))"

lemma copying_view: "copying chunk n D z z1 \<Longrightarrow> ready z2 \<Longrightarrow> view z2 = view z1 \<Longrightarrow> copying chunk n D z z2"
  by (simp add: copying_def)

lemma copying_step:
  assumes "copying chunk n D z z1" and "0 < chunk" and "n \<le> length src" and "i * chunk < n"
    and "pages_put view (i * chunk) (segment (i * chunk) (min chunk (n - i * chunk)) src) z1 z2"
    and "ready z2"
  shows "copying chunk n (insert i D) z z2"
proof -
  have len: "length (segment (i * chunk) (min chunk (n - i * chunk)) src) = min chunk (n - i * chunk)"
    using assms(3,4) by (auto simp: buf_simps)
  obtain c1 where c1: "view z1 None = Some c1" "i * chunk + min chunk (n - i * chunk) \<le> length c1"
    "view z2 = (view z1)(None := Some (overwrite (i * chunk) (segment (i * chunk) (min chunk (n - i * chunk)) src) c1))"
    using assms(5) len unfolding pages_put_def by auto
  obtain c where c: "view z None = Some c" "copied chunk n src D c c1" "view z1 = (view z)(None := Some c1)"
    using assms(1) c1(1) copied_refl unfolding copying_def by (auto intro!: that simp: fun_upd_idem_iff)
  from copied_chunk [OF c(2) assms(2-4) c1(2)] c c1(3) assms(6) show ?thesis
    unfolding copying_def by auto
qed

lemma copy_chunks_copying:
  assumes chunk: "512 dvd chunk" "0 < chunk" and n: "512 dvd n" "n \<le> length src"
    and cov: "\<And>rs. ranges = Some rs \<Longrightarrow> map_covers rs src"
    and js: "\<forall>i \<in> set js. i * chunk < n" and "copying chunk n D z z1"
    and "copy_chunks (copy_chunk S chunk l csa url n ranges) js z1 = (u, z2)"
  shows "(u = Inr () \<longrightarrow> copying chunk n (D \<union> set js) z z2) \<and> (\<exists>D'. copying chunk n D' z z2)"
  using js assms(7,8)
proof (induction js arbitrary: D z1)
  case (Cons i js)
  obtain v z' where one: "copy_chunk S chunk l csa url n ranges i z1 = (v, z')" by fastforce
  from Cons.prems have i: "i * chunk < n" by simp
  have rdy: "ready z1" using Cons.prems(2) by (simp add: copying_def)
  note put = copy_chunk_puts [OF chunk n i cov rdy one]
  note rdy' = copy_chunk_ready [OF rdy one]
  note step = copying_step [OF Cons.prems(2) chunk(2) n(2) i _ rdy']
  show ?case
  proof (cases "v = Inr ()")
    case True
    with put step have z': "copying chunk n (insert i D) z z'" by blast
    from True one Cons.prems(3) have "copy_chunks (copy_chunk S chunk l csa url n ranges) js z' = (u, z2)" by simp
    with Cons.IH [OF _ z'] Cons.prems(1) show ?thesis by auto
  next
    case False
    with one Cons.prems(3) have "z2 = z'" "u \<noteq> Inr ()" by (auto split: sum.splits)
    with put step copying_view [OF Cons.prems(2) rdy'] show ?thesis by blast
  qed
qed auto

lemma mint_copy_source_view:
  "mint_copy_source get_token auth z = (t, z') \<Longrightarrow> view z' = view z"
  by (auto simp: mint_copy_source_def storage_bearer_token_def dest: token_law
      split: option.splits if_splits prod.splits sum.splits)

lemma mint_copy_source_ready:
  "ready z \<Longrightarrow> mint_copy_source get_token auth z = (t, z') \<Longrightarrow> ready z'"
  by (auto simp: mint_copy_source_def storage_bearer_token_def dest: token_ready
      split: option.splits if_splits prod.splits sum.splits)

lemma copy_batches_copying:
  assumes "512 dvd n" and "n \<le> length src" and "\<And>rs. ranges = Some rs \<Longrightarrow> map_covers rs src"
    and "ce_token env = get_token" and "\<And>is. mset (ce_order env is) = mset is"
    and "copying (copy_chunk_bytes (ce_chunk env)) n {0..<b} z z1"
    and "b \<le> div_ceil n (copy_chunk_bytes (ce_chunk env))"
    and "copy_batches S env l url n auth ranges (div_ceil n (copy_chunk_bytes (ce_chunk env))) b z1 = (u, z2)"
  shows "(u = Inr () \<longrightarrow>
           copying (copy_chunk_bytes (ce_chunk env)) n {0..<div_ceil n (copy_chunk_bytes (ce_chunk env))} z z2) \<and>
         (\<exists>D. copying (copy_chunk_bytes (ce_chunk env)) n D z z2)"
  using assms(6,7,8)
proof (induction "div_ceil n (copy_chunk_bytes (ce_chunk env)) - b" arbitrary: b z1 rule: less_induct)
  case less
  define chunk N where "chunk = copy_chunk_bytes (ce_chunk env)" and "N = div_ceil n chunk"
  have chunk: "512 dvd chunk" "0 < chunk"
    using copy_chunk_bytes_bounds [of "ce_chunk env"] by (auto simp: chunk_def)
  note defs = chunk_def [symmetric] N_def [symmetric]
  note prems = less.prems [unfolded defs]
  show ?case unfolding defs
  proof (cases "b < N")
    case False
    with prems show "(u = Inr () \<longrightarrow> copying chunk n {0..<N} z z2) \<and> (\<exists>D. copying chunk n D z z2)"
      by (subst (asm) copy_batches.simps) auto
  next
    case True
    define e where "e = min (b + chunks_per_batch env) N"
    have e: "b < e" "e \<le> N" using True chunks_per_batch_pos [of env] by (auto simp: e_def)
    obtain t z' where t: "mint_copy_source get_token auth z1 = (t, z')" by fastforce
    have "ready z1" using prems(1) by (simp add: copying_def)
    from copying_view [OF prems(1) mint_copy_source_ready [OF this t] mint_copy_source_view [OF t]] have z': "copying chunk n {0..<b} z z'" .
    show "(u = Inr () \<longrightarrow> copying chunk n {0..<N} z z2) \<and> (\<exists>D. copying chunk n D z z2)"
    proof (cases t)
      case (Inl x)
      with prems True t z' show ?thesis
        by (subst (asm) copy_batches.simps) (auto simp: assms(4))
    next
      case (Inr csa)
      obtain v z'' where v: "copy_chunks (copy_chunk S chunk l csa url n ranges) (ce_order env [b..<e]) z' = (v, z'')"
        by fastforce
      have set: "set (ce_order env [b..<e]) = {b..<e}"
        using assms(5) [of "[b..<e]"] by (metis set_mset_mset set_upt)
      then have "\<forall>i \<in> set (ce_order env [b..<e]). i * chunk < n"
        using e chunk(2) by (auto simp: N_def div_ceil_le_iff [symmetric])
      from copy_chunks_copying [OF chunk assms(1-3) this z' v] set e
      have z'': "v = Inr () \<longrightarrow> copying chunk n {0..<e} z z''" "\<exists>D. copying chunk n D z z''"
        by (auto simp: ivl_disj_un_two)
      have run: "(u, z2) = (case v of Inl e \<Rightarrow> (Inl e, z'') | Inr _ \<Rightarrow> copy_batches S env l url n auth ranges N e z'')"
        using prems(3) True t Inr v
        by (subst (asm) copy_batches.simps) (auto simp: assms(4) e_def [symmetric] chunk_def [symmetric] split: sum.splits)
      show ?thesis
      proof (cases v)
        case (Inl x)
        with run z''(2) show ?thesis by auto
      next
        case (Inr x)
        have "N - e < N - b" using e by simp
        from less.hyps [unfolded defs, OF this _ e(2)] z''(1) Inr run show ?thesis by auto
      qed
    qed
  qed
qed

text \<open>The whole copy: on success the destination starts with the source.\<close>

lemma copy_pages_correct:
  assumes "az_snapshot a = None" and "n \<le> length src"
    and "\<And>rs. ranges = Some rs \<Longrightarrow> map_covers rs src"
    and "ce_token env = get_token" and "\<And>is. mset (ce_order env is) = mset is"
    and "ready (az_world a)" and "copy_pages_from_url S env a url n auth ranges = (u, a')"
  shows "(u = Inr () \<longrightarrow> az_last_etag a' = None \<and> n \<le> length (az_content view a) \<and>
            az_content view a' = overwrite 0 (take n src) (az_content view a)) \<and>
         (u \<noteq> Inr () \<longrightarrow> same_outside 0 n (az_content view a) (az_content view a')) \<and>
         ready (az_world a')"
proof (cases "512 dvd n")
  case False
  with assms(6,7) show ?thesis by (auto simp: copy_pages_from_url_def is_multiple_of_def)
next
  case True
  define chunk N where "chunk = copy_chunk_bytes (ce_chunk env)" and "N = div_ceil n chunk"
  note defs = chunk_def [symmetric] N_def [symmetric]
  have chunk: "0 < chunk" using copy_chunk_bytes_bounds [of "ce_chunk env"] by (auto simp: chunk_def)
  obtain v z' where run: "copy_batches S env (az_lease_id a) url n auth ranges N 0 (az_world a) = (v, z')" by fastforce
  have "copying chunk n {0..<0} (az_world a) (az_world a)" using assms(6) by (simp add: copying_def)
  from copy_batches_copying [OF True assms(2-5) this [unfolded chunk_def] _ run [unfolded N_def chunk_def]]
  have c: "v = Inr () \<longrightarrow> copying chunk n {0..<N} (az_world a) z'" "\<exists>D. copying chunk n D (az_world a) z'"
    by (simp_all add: defs)
  have res: "u = v" "az_content view a' = az_content view (a\<lparr>az_world := z'\<rparr>)" "u = Inr () \<Longrightarrow> az_last_etag a' = None"
    "az_world a' = z'"
    using True run assms(7)
    by (auto simp: copy_pages_from_url_def is_multiple_of_def Let_def defs record_etag_def az_content_def
        split: sum.splits)
  have same: "same_outside 0 n (az_content view a) (az_content view a')"
    using c(2) assms(1) res(2) by (auto simp: copying_def az_content_def copied_same_outside)
  have "n \<le> length (az_content view a) \<and> az_content view a' = overwrite 0 (take n src) (az_content view a)"
    if ok: "u = Inr ()"
  proof (cases "n = 0")
    case True
    with same have "az_content view a' = az_content view a"
      by (auto simp: same_outside_def intro: nth_equalityI)
    with True show ?thesis by simp
  next
    case False
    then have "0 < N" using chunk by (simp add: N_def div_ceil_le_iff)
    then obtain e f where "view (az_world a) None = Some e" "copied chunk n src {0..<N} e f"
      "view z' = (view (az_world a))(None := Some f)"
      using c(1) ok res(1) by (auto simp: copying_def)
    with copied_all [of chunk n src e f] chunk assms(1,2) res(2) show ?thesis
      by (simp add: az_content_def N_def)
  qed
  with same res c(2) show ?thesis by (auto simp: copying_def)
qed

end

end
