(* ===== verification/Azure_Service.thy ===== *)
theory Azure_Service
  imports Azure_Copy
begin

text \<open>
  What the Azure backend guarantees over a page-blob service, with a concrete service to run it on:
  an in-memory page blob with snapshots that can throttle a request or lose its answer.
\<close>

section \<open>A simulated service\<close>

datatype fault =
    Throttled
  | LostReply

record sim =
  sim_blob :: "bytes option"
  sim_snaps :: "(string \<times> bytes) list"
  sim_tag :: nat
  sim_faults :: "fault option list"

definition page_aligned :: "bytes option \<Rightarrow> bytes option" where
  "page_aligned b =
     (case b of
        Some c \<Rightarrow> if 512 dvd length c \<and> length c < u64_limit then Some c else None
      | None \<Rightarrow> None)"

definition sim_view :: "sim \<Rightarrow> string option \<Rightarrow> bytes option" where
  "sim_view z s = page_aligned (case s of None \<Rightarrow> sim_blob z | Some sid \<Rightarrow> map_of (sim_snaps z) sid)"

text \<open>A request meets the next fault: it is refused, or carried out with its answer lost.\<close>

definition sim_request :: "sim \<Rightarrow> (sim \<Rightarrow> 'a azr \<times> sim) \<Rightarrow> 'a azr \<times> sim" where
  "sim_request z f =
     (case sim_faults z of
        [] \<Rightarrow> f z
      | None # fs \<Rightarrow> f (z\<lparr>sim_faults := fs\<rparr>)
      | Some Throttled # fs \<Rightarrow> (Inl (HttpResponse 503), z\<lparr>sim_faults := fs\<rparr>)
      | Some LostReply # fs \<Rightarrow> (Inl Transport, snd (f (z\<lparr>sim_faults := fs\<rparr>))))"

definition sim_put :: "nat \<Rightarrow> bytes \<Rightarrow> sim \<Rightarrow> string option azr \<times> sim" where
  "sim_put off d z =
     (case sim_view z None of
        None \<Rightarrow> (Inl (HttpResponse 404), z)
      | Some c \<Rightarrow>
          if off + length d \<le> length c
          then (Inr (Some (nat_to_string (sim_tag z + 1))),
                z\<lparr>sim_blob := Some (overwrite off d c), sim_tag := sim_tag z + 1\<rparr>)
          else (Inl (HttpResponse 416), z))"

definition sim_properties :: "string option \<Rightarrow> sim \<Rightarrow> (nat option azr \<times> string option azr) azr \<times> sim" where
  "sim_properties s z =
     (case sim_view z s of
        None \<Rightarrow> (Inl (HttpResponse 404), z)
      | Some c \<Rightarrow> (Inr (Inr (Some (length c)), Inr (Some (nat_to_string (sim_tag z)))), z))"

definition sim_download :: "string option \<Rightarrow> nat \<Rightarrow> nat \<Rightarrow> sim \<Rightarrow> bytes azr \<times> sim" where
  "sim_download s off len z =
     (case sim_view z s of
        None \<Rightarrow> (Inl (HttpResponse 404), z)
      | Some c \<Rightarrow>
          if off < length c then (Inr (segment off len c), z) else (Inl (HttpResponse 416), z))"

definition sim_from_url :: "bytes \<Rightarrow> nat \<Rightarrow> nat \<Rightarrow> sim \<Rightarrow> unit azr \<times> sim" where
  "sim_from_url src off len z =
     (case sim_put off (segment off len src) z of
        (Inl e, z') \<Rightarrow> (Inl e, z')
      | (Inr _, z') \<Rightarrow> (Inr (), z'))"

definition sim_page :: "(string \<times> (nat \<times> nat) list) list \<Rightarrow> string option \<Rightarrow> (nat \<times> string azr) azr" where
  "sim_page pages m =
     (case find (\<lambda>i. page_marker pages i = m) [0..<length pages] of
        Some i \<Rightarrow> Inr (200, Inr (page_document pages i))
      | None \<Rightarrow> Inl (HttpResponse 400))"

text \<open>The service, with the blob it copies from and the page list it answers.\<close>

definition sim_service :: "bytes \<Rightarrow> (string \<times> (nat \<times> nat) list) list \<Rightarrow> sim page_service" where
  "sim_service src pages =
     \<lparr>sv_snapshot_ok = (\<lambda>_. True),
      sv_create_container = (\<lambda>z. (Inl (HttpResponse 409), z)),
      sv_properties = (\<lambda>z s. sim_request z (sim_properties s)),
      sv_create = (\<lambda>z sz l. sim_request z (\<lambda>z. (Inr (), z\<lparr>sim_blob := Some (zeros sz)\<rparr>))),
      sv_download = (\<lambda>z s off len. sim_request z (sim_download s off len)),
      sv_upload = (\<lambda>z l off d. sim_request z (sim_put off d)),
      sv_clear = (\<lambda>z l off len. sim_request z (sim_put off (zeros len))),
      sv_upload_from_url = (\<lambda>z l csa url off len. sim_request z (sim_from_url src off len)),
      sv_delete = (\<lambda>z. sim_request z (\<lambda>z. (Inr (), z\<lparr>sim_blob := None\<rparr>))),
      sv_page_list = (\<lambda>z s m. (sim_page pages m, z)),
      sv_nanos = sim_tag\<rparr>"

lemma sim_service_sel [simp]:
  "sv_create_container (sim_service src pages) z = (Inl (HttpResponse 409), z)"
  "sv_properties (sim_service src pages) z s = sim_request z (sim_properties s)"
  "sv_create (sim_service src pages) z sz l = sim_request z (\<lambda>z. (Inr (), z\<lparr>sim_blob := Some (zeros sz)\<rparr>))"
  "sv_download (sim_service src pages) z s off len = sim_request z (sim_download s off len)"
  "sv_upload (sim_service src pages) z l off d = sim_request z (sim_put off d)"
  "sv_clear (sim_service src pages) z l off len = sim_request z (sim_put off (zeros len))"
  "sv_upload_from_url (sim_service src pages) z l csa url off len = sim_request z (sim_from_url src off len)"
  "sv_delete (sim_service src pages) z = sim_request z (\<lambda>z. (Inr (), z\<lparr>sim_blob := None\<rparr>))"
  "sv_page_list (sim_service src pages) z s m = (sim_page pages m, z)"
  "sv_snapshot_ok (sim_service src pages) sid" "sv_nanos (sim_service src pages) = sim_tag"
  by (simp_all add: sim_service_def)

lemma sim_view_faults [simp]: "sim_view (z\<lparr>sim_faults := fs\<rparr>) = sim_view z"
  "sim_view (z\<lparr>sim_tag := n\<rparr>) = sim_view z"
  by (simp_all add: sim_view_def fun_eq_iff split: option.splits)

lemma sim_view_blob: "sim_view (z\<lparr>sim_blob := b\<rparr>) = (sim_view z)(None := page_aligned b)"
  by (auto simp: sim_view_def fun_eq_iff split: option.splits)

text \<open>What a request may have done, from what it does when nothing goes wrong.\<close>

lemma sim_request_cases:
  assumes "sim_request z f = (r, z')"
  obtains z1 where "sim_view z1 = sim_view z" "f z1 = (r, z')"
  | z1 where "sim_view z1 = sim_view z" "r = Inl Transport" "z' = snd (f z1)"
  | "r = Inl (HttpResponse 503)" "sim_view z' = sim_view z"
proof (cases "sim_faults z")
  case Nil
  with assms show ?thesis by (intro that(1) [of z]) (auto simp: sim_request_def)
next
  case (Cons ft fs)
  consider "ft = None" | "ft = Some Throttled" | "ft = Some LostReply"
    by (cases ft) (auto intro: fault.exhaust)
  then show ?thesis
  proof cases
    case 1
    with assms Cons show ?thesis
      by (intro that(1) [of "z\<lparr>sim_faults := fs\<rparr>"]) (simp_all add: sim_request_def)
  next
    case 2
    with assms Cons show ?thesis by (intro that(3)) (auto simp: sim_request_def)
  next
    case 3
    with assms Cons show ?thesis
      by (intro that(2) [of "z\<lparr>sim_faults := fs\<rparr>"]) (auto simp: sim_request_def)
  qed
qed

lemma sim_put_pages:
  assumes "sim_put off d z = (t, z')"
  shows "pages_put sim_view off d z z' \<or> (\<exists>e. t = Inl e) \<and> sim_view z' = sim_view z"
proof (cases "sim_view z None")
  case (Some c)
  then have "512 dvd length c" "length c < u64_limit"
    by (auto simp: sim_view_def page_aligned_def split: option.splits if_splits)
  with assms Some show ?thesis
    by (auto simp: sim_put_def pages_put_def sim_view_blob page_aligned_def buf_simps split: if_splits)
qed (use assms in \<open>auto simp: sim_put_def\<close>)

lemma pages_put_view_cong:
  "view z1 = view z \<Longrightarrow> pages_put view off d z1 z' = pages_put view off d z z'"
  by (simp add: pages_put_def)

lemma sim_request_put:
  assumes "sim_request z f = (t, z')"
    and "\<And>z t z'. f z = (t, z') \<Longrightarrow> pages_put sim_view off d z z' \<or> (\<exists>e. t = Inl e) \<and> sim_view z' = sim_view z"
  shows "pages_put sim_view off d z z' \<or> (\<exists>e. t = Inl e) \<and> sim_view z' = sim_view z"
  using assms(1)
proof (cases rule: sim_request_cases)
  case (1 z1)
  with assms(2) [of z1 t z'] show ?thesis by (simp add: pages_put_view_cong [of sim_view z1 z])
next
  case (2 z1)
  with assms(2) [of z1 "fst (f z1)" z'] show ?thesis by (auto simp: pages_put_view_cong [of sim_view z1 z])
qed auto

lemma sim_from_url_pages:
  "sim_from_url src off len z = (t, z') \<Longrightarrow>
   pages_put sim_view off (segment off len src) z z' \<or> (\<exists>e. t = Inl e) \<and> sim_view z' = sim_view z"
  using sim_put_pages [of off "segment off len src" z]
  by (auto simp: sim_from_url_def split: prod.splits sum.splits)

interpretation sim_store: page_blob_service "sim_service src pages" sim_view
proof (unfold_locales, goal_cases)
  case (1 z s c)
  then show ?case by (auto simp: sim_view_def page_aligned_def split: option.splits if_splits)
next
  case (2 z u z')
  then show ?case by simp
next
  case (3 z s p z')
  then have "sim_request z (sim_properties s) = (p, z')" by simp
  then show ?case
    by (cases rule: sim_request_cases) (auto simp: sim_properties_def split: option.splits)
next
  case (4 sz z l u z')
  then have "sim_request z (\<lambda>z. (Inr (), z\<lparr>sim_blob := Some (zeros sz)\<rparr>)) = (u, z')" by simp
  then show ?case using 4
    by (cases rule: sim_request_cases) (auto simp: sim_view_blob page_aligned_def)
next
  case (5 len off z s r z')
  then have "sim_request z (sim_download s off len) = (r, z')" by simp
  then show ?case
    by (cases rule: sim_request_cases) (auto simp: sim_download_def split: option.splits if_splits)
next
  case (6 d off z l t z')
  then show ?case using sim_request_put [of z "sim_put off d"] sim_put_pages by simp
next
  case (7 len off z l t z')
  then show ?case using sim_request_put [of z "sim_put off (zeros len)"] sim_put_pages by simp
next
  case (8 z s m pl z')
  then show ?case by simp
next
  case (9 z u z')
  then have "sim_request z (\<lambda>z. (Inr (), z\<lparr>sim_blob := None\<rparr>)) = (u, z')" by simp
  then show ?case
    by (cases rule: sim_request_cases) (auto simp: sim_view_blob page_aligned_def)
qed

definition sim_token :: "auth_config \<Rightarrow> sim \<Rightarrow> string res \<times> sim" where
  "sim_token auth z = (Inr ''token'', z)"

text \<open>A golden image: one page of data, one page of zeros; the source is read at any URL.\<close>

definition golden_image :: bytes where
  "golden_image = replicate 512 7 @ zeros 512"

interpretation sim_copy: copy_source "sim_service golden_image pages" sim_view url golden_image sim_token "\<lambda>_. True"
  using sim_request_put [OF _ sim_from_url_pages]
  by unfold_locales (auto simp: sim_token_def golden_image_def u64_limit_def)

section \<open>The guarantees\<close>

text \<open>
  C5: The Azure backend over any page-blob service is a store for the caching layers: it reads the bytes of
  the blob, a write or a create that reports success has taken effect, one that fails has
  changed nothing outside its range, a retried request has the effect of one, everything acknowledged is
  durable, and a backend on a snapshot never changes anything.
\<close>

theorem azure_store_correct:
  assumes "page_blob_service S view"
  shows "page_store (azure_backend cfg S) (az_content view) (az_content view) (\<lambda>_. True)"
  using assms by (rule page_blob_service.azure_is_page_store)

theorem azure_store_correct_witness:
  "page_store (azure_backend retry_config_default (sim_service [] [])) (az_content sim_view)
     (az_content sim_view) (\<lambda>_. True)"
  by (rule azure_store_correct) (rule sim_store.page_blob_service_axioms)

text \<open>
  C35: The listing of the data ranges of a blob ends and is complete: whatever the number of pages the
  service splits its answer into, every range of every page is returned once, in order.
\<close>

theorem list_page_ranges_complete:
  assumes "serves_pages S (az_snapshot a) pages" and "az_page_list a"
    and "ranges_ok (concat (map snd pages))"
  shows "\<exists>z'. list_page_ranges S a = (Inr (Some (concat (map snd pages))), a\<lparr>az_world := z'\<rparr>)"
proof -
  have "0 < length pages" using assms(1) by (simp add: serves_pages_def)
  from list_pages_all [OF assms(1) this, of "az_world a" "[]"] obtain z' where
    "list_pages S (az_snapshot a) (az_world a) None [] =
       Some (Inr (concat (map (sort_key fst) (map snd pages))), z')"
    by (auto simp: page_marker_def o_def)
  moreover have "sorted_wrt (\<lambda>p q. fst p \<le> fst q) (concat (map snd pages))"
    using assms(3) unfolding ranges_ok_def
    by (auto elim!: sorted_wrt_mono_rel [rotated])
  ultimately show ?thesis
    using assms(2) sort_key_concat_sorted [of "map snd pages"]
    by (auto simp: list_page_ranges_def o_def)
qed

definition two_pages :: "(string \<times> (nat \<times> nat) list) list" where
  "two_pages = [(''-'', [(0, 512)]), (''p2'', [(1024, 512), (4096, 1024)])]"

definition blank_sim :: sim where
  "blank_sim = \<lparr>sim_blob = Some (zeros 1024), sim_snaps = [], sim_tag = 0, sim_faults = [None, Some LostReply]\<rparr>"

lemma two_pages_served: "serves_pages (sim_service src two_pages) s two_pages"
proof -
  have "i = 0 \<or> i = 1" if "i < length two_pages" for i using that by (auto simp: two_pages_def)
  then have "sim_page two_pages (page_marker two_pages i) = Inr (200, Inr (page_document two_pages i))"
    if "i < length two_pages" for i
    using that by (force simp: sim_page_def page_marker_def two_pages_def)
  then show ?thesis
    by (auto simp: serves_pages_def) (auto simp: two_pages_def marker_ok_def is_whitespace_def range_ok_def u64_limit_def)
qed

theorem list_page_ranges_complete_witness:
  "\<exists>z'. list_page_ranges (sim_service [] two_pages) (with_page_list (az_new blank_sim)) =
     (Inr (Some [(0, 512), (1024, 512), (4096, 1024)]), (with_page_list (az_new blank_sim))\<lparr>az_world := z'\<rparr>)"
  using list_page_ranges_complete [OF two_pages_served, of "with_page_list (az_new blank_sim)" "[]"]
  by (simp add: with_page_list_def az_new_def two_pages_def ranges_ok_def u64_limit_def)

text \<open>
  C16: A server-side copy that succeeds has made the destination start with the bytes of the source, whatever the
  destination held before, in whatever order the concurrent requests took effect and with
  however many chunks left to clear by a true sparseness map; a copy that fails has changed
  nothing beyond the copied length. The cached ETag is dropped.
\<close>

theorem copy_pages_from_url_correct:
  assumes "copy_source S view url src (ce_token env) ready" and "az_snapshot a = None" and "n \<le> length src"
    and "\<And>rs. ranges = Some rs \<Longrightarrow> map_covers rs src"
    and "\<And>js. mset (ce_order env js) = mset js"
    and "ready (az_world a)" and "copy_pages_from_url S env a url n auth ranges = (u, a')"
  shows "(u = Inr () \<longrightarrow> az_last_etag a' = None \<and> n \<le> length (az_content view a) \<and>
            az_content view a' = overwrite 0 (take n src) (az_content view a)) \<and>
         (u \<noteq> Inr () \<longrightarrow> same_outside 0 n (az_content view a) (az_content view a'))"
  using copy_source.copy_pages_correct [OF assms(1-4) refl assms(5-7)] by blast

definition copy_target :: "sim azure" where
  "copy_target = az_new \<lparr>sim_blob = Some (replicate 1536 9), sim_snaps = [], sim_tag = 0, sim_faults = []\<rparr>"

definition small_chunks :: "sim copy_env" where
  "small_chunks = \<lparr>ce_chunk = Some 512, ce_concurrency = Some ''2'', ce_cpus = 8, ce_order = rev, ce_token = sim_token\<rparr>"

lemma golden_map: "map_covers [(0, 512)] golden_image"
  by (auto simp: map_covers_def ranges_ok_def golden_image_def u64_limit_def nth_append split: if_splits)

lemma sim_put_ok:
  assumes "sim_faults z = []" and "sim_view z None = Some c" and "off + length d \<le> length c"
  shows "\<exists>t z' c'. sim_request z (sim_put off d) = (Inr t, z') \<and> sim_faults z' = [] \<and>
    sim_view z' None = Some c' \<and> length c' = length c"
proof -
  have "512 dvd length c" "length c < u64_limit"
    using assms(2) by (auto simp: sim_view_def page_aligned_def split: option.splits if_splits)
  with assms show ?thesis
    by (simp add: sim_request_def sim_put_def sim_view_blob page_aligned_def buf_simps)
qed

lemma copy_target_ok:
  "fst (copy_pages_from_url (sim_service golden_image []) small_chunks copy_target ''https://a/b'' 1024
     (Some (Msi None)) (Some [(0, 512)])) = Inr ()"
proof -
  define z where "z = az_world copy_target"
  have z: "sim_faults z = []" "sim_view z None = Some (replicate 1536 9)"
    by (simp_all add: z_def copy_target_def az_new_def sim_view_def page_aligned_def u64_limit_def)
  obtain t z1 c1 where z1: "sim_request z (sim_put 512 (zeros 512)) = (Inr t, z1)" "sim_faults z1 = []"
    "sim_view z1 None = Some c1" "length c1 = 1536"
    using sim_put_ok [OF z, of 512 "zeros 512"] by auto
  obtain t' z2 where z2: "sim_request z1 (sim_put 0 (segment 0 512 golden_image)) = (Inr t', z2)"
    using sim_put_ok [OF z1(2,3), of 0 "segment 0 512 golden_image"] z1(4)
    by (auto simp: buf_simps golden_image_def)
  have "sim_request z1 (sim_from_url golden_image 0 512) = (Inr (), z2)"
    using z2 z1(2) by (simp add: sim_request_def sim_from_url_def)
  moreover have "range_intersects [(0, 512)] 0 512" "\<not> range_intersects [(0, 512)] 512 512"
    by (simp_all add: range_intersects_def partition_point_def wrapping_add_def u64_limit_def)
  moreover have "copy_chunk_bytes (Some 512) = 512" "chunks_per_batch small_chunks = 16777216"
    by (simp_all add: copy_chunk_bytes_def MAX_PAGE_REQUEST_BYTES_def chunks_per_batch_def BATCH_BYTES_def
        copy_pipeline_depth_def small_chunks_def parse_uint_def digits_val_def digit_val_def is_digit_def u64_limit_def)
  moreover have "[0..<2] = [0, 1 :: nat]" by (simp add: upt_rec)
  ultimately have "copy_batches (sim_service golden_image []) small_chunks None ''https://a/b'' 1024 (Some (Msi None))
      (Some [(0, 512)]) 2 0 z = (Inr (), z2)"
    using z1(1)
    by (subst copy_batches.simps)
       (simp add: small_chunks_def mint_copy_source_def storage_bearer_token_def has_token_credential_def sim_token_def
          copy_chunk_def copy_batches.simps)
  moreover have "div_ceil 1024 512 = 2" by (simp add: div_ceil_def)
  ultimately show ?thesis
    using \<open>copy_chunk_bytes (Some 512) = 512\<close>
    by (simp add: copy_pages_from_url_def is_multiple_of_def small_chunks_def z_def copy_target_def az_new_def)
qed

theorem copy_pages_from_url_correct_witness:
  "\<exists>a'. copy_pages_from_url (sim_service golden_image []) small_chunks copy_target ''https://a/b'' 1024
          (Some (Msi None)) (Some [(0, 512)]) = (Inr (), a') \<and>
        az_content sim_view a' = overwrite 0 (take 1024 golden_image) (az_content sim_view copy_target)"
proof -
  obtain a' where a': "copy_pages_from_url (sim_service golden_image []) small_chunks copy_target ''https://a/b'' 1024
      (Some (Msi None)) (Some [(0, 512)]) = (Inr (), a')"
    using copy_target_ok by (metis prod.collapse)
  have "copy_source (sim_service golden_image []) sim_view ''https://a/b'' golden_image (ce_token small_chunks) (\<lambda>_. True)"
    using sim_copy.copy_source_axioms by (simp add: small_chunks_def)
  from copy_pages_from_url_correct [OF this _ _ _ _ _ a'] golden_map a' show ?thesis
    by (auto simp: small_chunks_def copy_target_def az_new_def golden_image_def)
qed

end
