(* ===== verification/Coordination.thy ===== *)
theory Coordination
  imports Azure
begin

text \<open>
  Cluster coordination, \<open>coordination/mod.rs\<close> and \<open>coordination/k8s.rs\<close>, with the blob lease of
  \<open>backend/azure.rs\<close>: the two locks as records of operations over the state of the outside world, the
  coordinator that takes them at start-up, renews and releases them, and the two implementations,
  over the Azure lease requests and over the Kubernetes API server, both of which are parameters.
  Times and durations are in microseconds.
\<close>

section \<open>The locks and the coordinator\<close>

definition micros :: nat where
  "micros = 1000000"

record coordination_config =
  cc_holder :: string
  cc_lease_duration :: nat
  cc_recovery_timeout :: nat
  cc_renew_interval :: nat

text \<open>\<open>CoordinationConfig::new\<close>: the lease duration in whole seconds between 15 and 60.\<close>

definition coordination_config_new :: "string \<Rightarrow> nat \<Rightarrow> nat \<Rightarrow> coordination_config" where
  "coordination_config_new holder lease_duration recovery_timeout =
     (let d = min 60 (max 15 (lease_duration div micros)) * micros
      in \<lparr>cc_holder = holder, cc_lease_duration = d, cc_recovery_timeout = recovery_timeout,
          cc_renew_interval = max (d div 3) (5 * micros)\<rparr>)"

definition lease_duration_secs :: "coordination_config \<Rightarrow> nat" where
  "lease_duration_secs c = cc_lease_duration c div micros"

datatype lock_error =
    Held
  | Other err

record 'w blob_lock =
  bl_acquire :: "'w \<Rightarrow> nat \<Rightarrow> (lock_error + string) \<times> 'w"
  bl_renew :: "'w \<Rightarrow> string \<Rightarrow> unit res \<times> 'w"
  bl_release :: "'w \<Rightarrow> string \<Rightarrow> unit res \<times> 'w"
  bl_break :: "'w \<Rightarrow> unit res \<times> 'w"

datatype cluster_acquire =
    Acquired
  | HeldByLiveHolder string nat

record 'w cluster_lease =
  cl_try_acquire :: "'w \<Rightarrow> cluster_acquire res \<times> 'w"
  cl_renew :: "'w \<Rightarrow> unit res \<times> 'w"
  cl_release :: "'w \<Rightarrow> unit res \<times> 'w"

text \<open>The first step of \<open>Coordinator::acquire\<close>: the cluster lease, if there is one.\<close>

definition acquire_cluster :: "'w cluster_lease option \<Rightarrow> 'w \<Rightarrow> unit res \<times> 'w" where
  "acquire_cluster cluster w =
     (case cluster of
        None \<Rightarrow> (Inr (), w)
      | Some C \<Rightarrow>
          (case cl_try_acquire C w of
             (Inl e, w1) \<Rightarrow> (Inl e, w1)
           | (Inr Acquired, w1) \<Rightarrow> (Inr (), w1)
           | (Inr (HeldByLiveHolder _ _), w1) \<Rightarrow> (Inl (IoErr ''cluster lease is held by a live holder''), w1)))"

text \<open>The second step: the blob lease, broken first when its dead holder left it held.\<close>

definition acquire_blob ::
  "'w cluster_lease option \<Rightarrow> 'w blob_lock \<Rightarrow> nat \<Rightarrow> 'w \<Rightarrow> string res \<times> 'w" where
  "acquire_blob cluster B secs w =
     (case bl_acquire B w secs of
        (Inr lid, w1) \<Rightarrow> (Inr lid, w1)
      | (Inl Held, w1) \<Rightarrow>
          (case cluster of
             None \<Rightarrow> (Inl (IoErr ''blob lease is already held by another process''), w1)
           | Some C \<Rightarrow>
               (case bl_break B w1 of
                  (Inl e, w2) \<Rightarrow> (Inl e, w2)
                | (Inr _, w2) \<Rightarrow>
                    (case bl_acquire B w2 secs of
                       (Inr lid, w3) \<Rightarrow> (Inr lid, w3)
                     | (Inl Held, w3) \<Rightarrow>
                         (Inl (IoErr ''blob lease is still held after breaking it''), snd (cl_release C w3))
                     | (Inl (Other e), w3) \<Rightarrow> (Inl e, snd (cl_release C w3)))))
      | (Inl (Other e), w1) \<Rightarrow>
          (Inl e, case cluster of Some C \<Rightarrow> snd (cl_release C w1) | None \<Rightarrow> w1))"

text \<open>The result is the lease id the guard holds.\<close>

definition coordinator_acquire ::
  "'w cluster_lease option \<Rightarrow> 'w blob_lock \<Rightarrow> coordination_config \<Rightarrow> 'w \<Rightarrow> string res \<times> 'w" where
  "coordinator_acquire cluster B cfg w =
     (case acquire_cluster cluster w of
        (Inl e, w1) \<Rightarrow> (Inl e, w1)
      | (Inr _, w1) \<Rightarrow> acquire_blob cluster B (lease_duration_secs cfg) w1)"

text \<open>One turn of the renewal loop; failures are only logged.\<close>

definition renew_turn :: "'w cluster_lease option \<Rightarrow> 'w blob_lock \<Rightarrow> string \<Rightarrow> 'w \<Rightarrow> 'w" where
  "renew_turn cluster B lid w =
     (let w1 = snd (bl_renew B w lid)
      in case cluster of Some C \<Rightarrow> snd (cl_renew C w1) | None \<Rightarrow> w1)"

text \<open>\<open>CoordinationGuard::release\<close>, after the renewal loop has stopped.\<close>

definition guard_release :: "'w cluster_lease option \<Rightarrow> 'w blob_lock \<Rightarrow> string \<Rightarrow> 'w \<Rightarrow> 'w" where
  "guard_release cluster B lid w =
     (let w1 = snd (bl_release B w lid)
      in case cluster of Some C \<Rightarrow> snd (cl_release C w1) | None \<Rightarrow> w1)"

section \<open>The Azure blob lease\<close>

text \<open>The lease requests of the SDK; an answer to an acquisition may lack the lease id.\<close>

record 'w lease_service =
  le_acquire :: "'w \<Rightarrow> nat \<Rightarrow> (string option azr) azr \<times> 'w"
  le_renew :: "'w \<Rightarrow> string \<Rightarrow> unit azr \<times> 'w"
  le_release :: "'w \<Rightarrow> string \<Rightarrow> unit azr \<times> 'w"
  le_break :: "'w \<Rightarrow> nat \<Rightarrow> unit azr \<times> 'w"

definition classify :: "az_err \<Rightarrow> string \<Rightarrow> lock_error" where
  "classify e what =
     (if http_status e = Some 409 \<or> http_status e = Some 412 then Held else Other (IoErr what))"

definition azlock_acquire :: "'w lease_service \<Rightarrow> 'w \<Rightarrow> nat \<Rightarrow> (lock_error + string) \<times> 'w" where
  "azlock_acquire L w secs =
     (case le_acquire L w secs of
        (Inl e, w') \<Rightarrow> (Inl (classify e ''acquire blob lease''), w')
      | (Inr (Inl e), w') \<Rightarrow> (Inl (Other (IoErr ''read lease id'')), w')
      | (Inr (Inr None), w') \<Rightarrow> (Inl (Other (IoErr ''acquire lease response missing x-ms-lease-id header'')), w')
      | (Inr (Inr (Some lid)), w') \<Rightarrow> (Inr lid, w'))"

definition unit_context :: "string \<Rightarrow> unit azr \<times> 'w \<Rightarrow> unit res \<times> 'w" where
  "unit_context what p = (case p of (Inl _, w) \<Rightarrow> (Inl (IoErr what), w) | (Inr _, w) \<Rightarrow> (Inr (), w))"

definition azlock_renew :: "'w lease_service \<Rightarrow> 'w \<Rightarrow> string \<Rightarrow> unit res \<times> 'w" where
  "azlock_renew L w lid = unit_context ''renew blob lease'' (le_renew L w lid)"

definition azlock_release :: "'w lease_service \<Rightarrow> 'w \<Rightarrow> string \<Rightarrow> unit res \<times> 'w" where
  "azlock_release L w lid = unit_context ''release blob lease'' (le_release L w lid)"

definition azlock_break :: "'w lease_service \<Rightarrow> 'w \<Rightarrow> unit res \<times> 'w" where
  "azlock_break L w = unit_context ''break blob lease'' (le_break L w 0)"

definition azure_blob_lock :: "'w lease_service \<Rightarrow> 'w blob_lock" where
  "azure_blob_lock L =
     \<lparr>bl_acquire = azlock_acquire L, bl_renew = azlock_renew L, bl_release = azlock_release L,
      bl_break = azlock_break L\<rparr>"

section \<open>The Kubernetes cluster lease\<close>

record lease_spec =
  sp_holder :: "string option"
  sp_duration :: "nat option"
  sp_acquire_time :: "int option"
  sp_renew_time :: "int option"

definition lease_spec_default :: lease_spec where
  "lease_spec_default = \<lparr>sp_holder = None, sp_duration = None, sp_acquire_time = None, sp_renew_time = None\<rparr>"

text \<open>The lease object: its specification, and the version the API server gave it.\<close>

record lease =
  ob_spec :: "lease_spec option"
  ob_version :: "string option"

record 'w k8s_api =
  api_get :: "'w \<Rightarrow> (lease option) res \<times> 'w"
  api_create :: "'w \<Rightarrow> lease_spec \<Rightarrow> unit res \<times> 'w"
  api_replace :: "'w \<Rightarrow> string option \<Rightarrow> lease_spec \<Rightarrow> unit res \<times> 'w"
  api_now :: "'w \<Rightarrow> int"

record k8s_lease =
  kl_holder :: string
  kl_lease_duration :: nat
  kl_recovery_timeout :: nat

definition owned_spec :: "k8s_lease \<Rightarrow> int \<Rightarrow> lease_spec" where
  "owned_spec k now =
     \<lparr>sp_holder = Some (kl_holder k), sp_duration = Some (kl_lease_duration k div micros),
      sp_acquire_time = Some now, sp_renew_time = Some now\<rparr>"

definition create_owned :: "'w k8s_api \<Rightarrow> k8s_lease \<Rightarrow> 'w \<Rightarrow> unit res \<times> 'w" where
  "create_owned A k w = api_create A w (owned_spec k (api_now A w))"

definition replace_owned :: "'w k8s_api \<Rightarrow> k8s_lease \<Rightarrow> lease \<Rightarrow> 'w \<Rightarrow> unit res \<times> 'w" where
  "replace_owned A k current w = api_replace A w (ob_version current) (owned_spec k (api_now A w))"

definition held_by :: "lease_spec \<Rightarrow> string \<Rightarrow> bool" where
  "held_by spec me = (sp_holder spec = Some me)"

text \<open>
  \<open>age_of\<close>: \<open>to_std\<close> fails on a negative duration, so a time in the future has no age either.
\<close>

definition age_of :: "int \<Rightarrow> int option \<Rightarrow> nat option" where
  "age_of now renew_time =
     (case renew_time of None \<Rightarrow> None | Some t \<Rightarrow> if now - t < 0 then None else Some (nat (now - t)))"

text \<open>What \<open>try_acquire\<close> decides on a lease object it has read: to claim it, or not.\<close>

definition decide :: "k8s_lease \<Rightarrow> int \<Rightarrow> lease \<Rightarrow> cluster_acquire" where
  "decide k now obj =
     (let spec = (case ob_spec obj of Some sp \<Rightarrow> sp | None \<Rightarrow> lease_spec_default);
          holder = (case sp_holder spec of Some h \<Rightarrow> h | None \<Rightarrow> [])
      in if held_by spec (kl_holder k) \<or> holder = [] then Acquired
         else
           (case age_of now (sp_renew_time spec) of
              Some age \<Rightarrow> if kl_recovery_timeout k \<le> age then Acquired else HeldByLiveHolder holder age
            | None \<Rightarrow> Acquired))"

definition k8s_try_acquire :: "'w k8s_api \<Rightarrow> k8s_lease \<Rightarrow> 'w \<Rightarrow> cluster_acquire res \<times> 'w" where
  "k8s_try_acquire A k w =
     (case api_get A w of
        (Inl e, w1) \<Rightarrow> (Inl e, w1)
      | (Inr None, w1) \<Rightarrow>
          (case create_owned A k w1 of (Inl e, w2) \<Rightarrow> (Inl e, w2) | (Inr _, w2) \<Rightarrow> (Inr Acquired, w2))
      | (Inr (Some obj), w1) \<Rightarrow>
          (case decide k (api_now A w1) obj of
             Acquired \<Rightarrow>
               (case replace_owned A k obj w1 of
                  (Inl e, w2) \<Rightarrow> (Inl e, w2)
                | (Inr _, w2) \<Rightarrow> (Inr Acquired, w2))
           | HeldByLiveHolder h age \<Rightarrow> (Inr (HeldByLiveHolder h age), w1)))"

definition spec_of :: "lease \<Rightarrow> lease_spec" where
  "spec_of obj = (case ob_spec obj of Some sp \<Rightarrow> sp | None \<Rightarrow> lease_spec_default)"

definition k8s_renew :: "'w k8s_api \<Rightarrow> k8s_lease \<Rightarrow> 'w \<Rightarrow> unit res \<times> 'w" where
  "k8s_renew A k w =
     (case api_get A w of
        (Inl e, w1) \<Rightarrow> (Inl e, w1)
      | (Inr (Some obj), w1) \<Rightarrow>
          if \<not> held_by (spec_of obj) (kl_holder k)
          then (Inl (IoErr ''cluster lease is no longer held by us''), w1)
          else replace_owned A k obj w1
      | (Inr None, w1) \<Rightarrow> create_owned A k w1)"

definition released_spec :: "lease_spec \<Rightarrow> lease_spec" where
  "released_spec sp = lease_spec_default\<lparr>sp_duration := sp_duration sp\<rparr>"

definition k8s_release :: "'w k8s_api \<Rightarrow> k8s_lease \<Rightarrow> 'w \<Rightarrow> unit res \<times> 'w" where
  "k8s_release A k w =
     (case api_get A w of
        (Inl e, w1) \<Rightarrow> (Inl e, w1)
      | (Inr None, w1) \<Rightarrow> (Inr (), w1)
      | (Inr (Some obj), w1) \<Rightarrow>
          if \<not> held_by (spec_of obj) (kl_holder k) then (Inr (), w1)
          else api_replace A w1 (ob_version obj) (released_spec (spec_of obj)))"

definition k8s_cluster_lease :: "'w k8s_api \<Rightarrow> k8s_lease \<Rightarrow> 'w cluster_lease" where
  "k8s_cluster_lease A k =
     \<lparr>cl_try_acquire = k8s_try_acquire A k, cl_renew = k8s_renew A k, cl_release = k8s_release A k\<rparr>"

text \<open>\<open>sanitize_lease_name\<close>: a Kubernetes object name from any text.\<close>

definition sanitize_lease_name :: "string \<Rightarrow> string" where
  "sanitize_lease_name raw =
     (let out = take 200
            (map (\<lambda>c. let c' = ascii_lower c in
                      if ascii_alphanumeric c' \<or> c' = CHR ''-'' \<or> c' = CHR ''.'' then c' else CHR ''-'') raw);
          trimmed = trim_matches (\<lambda>c. \<not> ascii_alphanumeric c) out
      in if trimmed = [] then ''ublk-azblob'' else trimmed)"

section \<open>First facts\<close>

text \<open>A lease is renewed at least three times in its life, and never more often than every five seconds.\<close>

lemma renew_interval_bounds:
  "5 * micros \<le> cc_renew_interval (coordination_config_new h d t)"
  "3 * cc_renew_interval (coordination_config_new h d t) \<le> cc_lease_duration (coordination_config_new h d t)"
  by (simp_all add: coordination_config_new_def Let_def micros_def)

text \<open>What a claim needs: a free lease, one's own, or a holder whose age is not below the time-out.\<close>

lemma decide_Acquired:
  "decide k now obj = Acquired \<longleftrightarrow>
     held_by (spec_of obj) (kl_holder k) \<or> sp_holder (spec_of obj) \<in> {None, Some []} \<or>
     sp_renew_time (spec_of obj) = None \<or>
     (\<exists>t. sp_renew_time (spec_of obj) = Some t \<and> (now < t \<or> int (kl_recovery_timeout k) \<le> now - t))"
  by (auto simp: decide_def spec_of_def Let_def age_of_def split: option.splits if_splits)

end
