(* ===== verification/Coordination_Safety.thy ===== *)
theory Coordination_Safety
  imports Coordination
begin

text \<open>
  What the two locks give: exclusion on the cluster lease however the API calls of the nodes interleave,
  and what \<open>Coordinator::acquire\<close> leaves behind on every path. The API server is modelled as
  documented: it numbers the versions of an object and refuses a replacement that names another
  version.
\<close>

section \<open>The API server\<close>

record cluster =
  ct_time :: int
  ct_lease :: "lease option"
  ct_next :: nat

definition store_lease :: "lease_spec \<Rightarrow> 'a cluster_scheme \<Rightarrow> 'a cluster_scheme" where
  "store_lease sp s =
     s\<lparr>ct_lease := Some \<lparr>ob_spec = Some sp, ob_version = Some (nat_to_string (ct_next s))\<rparr>,
       ct_next := ct_next s + 1\<rparr>"

definition server_create :: "'a cluster_scheme \<Rightarrow> lease_spec \<Rightarrow> unit res \<times> 'a cluster_scheme" where
  "server_create s sp =
     (case ct_lease s of
        None \<Rightarrow> (Inr (), store_lease sp s)
      | Some _ \<Rightarrow> (Inl (IoErr ''AlreadyExists''), s))"

definition server_replace ::
  "'a cluster_scheme \<Rightarrow> string option \<Rightarrow> lease_spec \<Rightarrow> unit res \<times> 'a cluster_scheme" where
  "server_replace s ver sp =
     (case ct_lease s of
        None \<Rightarrow> (Inl (IoErr ''NotFound''), s)
      | Some obj \<Rightarrow>
          if ver = None \<or> ver = ob_version obj then (Inr (), store_lease sp s)
          else (Inl (IoErr ''Conflict''), s))"

definition server_api :: "'a cluster_scheme k8s_api" where
  "server_api =
     \<lparr>api_get = (\<lambda>s. (Inr (ct_lease s), s)), api_create = server_create, api_replace = server_replace,
      api_now = ct_time\<rparr>"

section \<open>Nodes that race for the lease\<close>

text \<open>
  An operation of a node reads the lease, decides, stamps the object it writes and sends it; between
  any two of these anything may happen, and any number of operations may be in flight, also several
  of one node. A claim is the decision that \<open>try_acquire\<close>, \<open>renew\<close> and \<open>release\<close> take on what they
  read.
\<close>

datatype intent = Acquire | Renew | Release

datatype claim =
    ClaimCreate
  | ClaimReplace "string option"
  | ClaimRelease "string option" lease_spec

datatype lease_write =
    CreateLease lease_spec
  | ReplaceLease "string option" lease_spec

datatype phase =
    Saw intent "lease option"
  | Decided claim
  | Sending lease_write

definition claim_of :: "intent \<Rightarrow> k8s_lease \<Rightarrow> int \<Rightarrow> lease option \<Rightarrow> claim option" where
  "claim_of i k now seen =
     (case seen of
        None \<Rightarrow> (if i = Release then None else Some ClaimCreate)
      | Some obj \<Rightarrow>
          (case i of
             Acquire \<Rightarrow> if decide k now obj = Acquired then Some (ClaimReplace (ob_version obj)) else None
           | Renew \<Rightarrow> if held_by (spec_of obj) (kl_holder k) then Some (ClaimReplace (ob_version obj)) else None
           | Release \<Rightarrow>
               if held_by (spec_of obj) (kl_holder k)
               then Some (ClaimRelease (ob_version obj) (released_spec (spec_of obj))) else None))"

definition write_of :: "k8s_lease \<Rightarrow> int \<Rightarrow> claim \<Rightarrow> lease_write" where
  "write_of k now c =
     (case c of
        ClaimCreate \<Rightarrow> CreateLease (owned_spec k now)
      | ClaimReplace ver \<Rightarrow> ReplaceLease ver (owned_spec k now)
      | ClaimRelease ver sp \<Rightarrow> ReplaceLease ver sp)"

definition send_write :: "lease_write \<Rightarrow> 'a cluster_scheme \<Rightarrow> unit res \<times> 'a cluster_scheme" where
  "send_write wr s =
     (case wr of
        CreateLease sp \<Rightarrow> api_create server_api s sp
      | ReplaceLease ver sp \<Rightarrow> api_replace server_api s ver sp)"

text \<open>A node that runs alone takes these steps one after the other: this is \<open>k8s_try_acquire\<close> and its kin.\<close>

definition run_alone :: "intent \<Rightarrow> k8s_lease \<Rightarrow> 'a cluster_scheme \<Rightarrow> (unit res \<times> 'a cluster_scheme) option" where
  "run_alone i k s =
     map_option (\<lambda>c. send_write (write_of k (ct_time s) c) s) (claim_of i k (ct_time s) (ct_lease s))"

lemma k8s_operations_run:
  "k8s_try_acquire server_api k s =
     (case run_alone Acquire k s of
        Some (Inr _, s') \<Rightarrow> (Inr Acquired, s')
      | Some (Inl e, s') \<Rightarrow> (Inl e, s')
      | None \<Rightarrow> (Inr (decide k (ct_time s) (the (ct_lease s))), s))"
  "k8s_renew server_api k s =
     (case run_alone Renew k s of
        Some r \<Rightarrow> r
      | None \<Rightarrow> (Inl (IoErr ''cluster lease is no longer held by us''), s))"
  "k8s_release server_api k s = (case run_alone Release k s of Some r \<Rightarrow> r | None \<Rightarrow> (Inr (), s))"
  by (auto simp: k8s_try_acquire_def k8s_renew_def k8s_release_def run_alone_def claim_of_def write_of_def
      send_write_def server_api_def create_owned_def replace_owned_def
      split: option.splits prod.splits sum.splits cluster_acquire.splits)

record race = cluster +
  in_flight :: "(string \<times> phase) list"

text \<open>All nodes use the same lease duration and recovery time-out.\<close>

abbreviation (input) node :: "nat \<Rightarrow> nat \<Rightarrow> string \<Rightarrow> k8s_lease" where
  "node d T n \<equiv> \<lparr>kl_holder = n, kl_lease_duration = d, kl_recovery_timeout = T\<rparr>"

inductive race_step :: "nat \<Rightarrow> nat \<Rightarrow> race \<Rightarrow> race \<Rightarrow> bool" for d T where
  time_passes: "0 \<le> dt \<Longrightarrow> race_step d T s (s\<lparr>ct_time := ct_time s + dt\<rparr>)"
| reads: "n \<noteq> [] \<Longrightarrow> race_step d T s (s\<lparr>in_flight := (n, Saw i (ct_lease s)) # in_flight s\<rparr>)"
| decides: "in_flight s = xs @ (n, Saw i seen) # ys \<Longrightarrow> claim_of i (node d T n) (ct_time s) seen = Some c \<Longrightarrow>
    race_step d T s (s\<lparr>in_flight := xs @ (n, Decided c) # ys\<rparr>)"
| gives_up: "in_flight s = xs @ p # ys \<Longrightarrow> race_step d T s (s\<lparr>in_flight := xs @ ys\<rparr>)"
| stamps: "in_flight s = xs @ (n, Decided c) # ys \<Longrightarrow>
    race_step d T s (s\<lparr>in_flight := xs @ (n, Sending (write_of (node d T n) (ct_time s) c)) # ys\<rparr>)"
| writes: "in_flight s = xs @ (n, Sending wr) # ys \<Longrightarrow> send_write wr s = (u, s') \<Longrightarrow>
    race_step d T s (s'\<lparr>in_flight := xs @ ys\<rparr>)"

inductive race_reachable :: "nat \<Rightarrow> nat \<Rightarrow> race \<Rightarrow> bool" for d T where
  start: "race_reachable d T \<lparr>ct_time = t, ct_lease = None, ct_next = 0, in_flight = []\<rparr>"
| step: "race_reachable d T s \<Longrightarrow> race_step d T s s' \<Longrightarrow> race_reachable d T s'"

subsection \<open>The invariant\<close>

text \<open>Whether \<open>n\<close> may replace the object at this time.\<close>

definition may_claim :: "nat \<Rightarrow> string \<Rightarrow> int \<Rightarrow> lease \<Rightarrow> bool" where
  "may_claim T n now obj \<longleftrightarrow>
     sp_holder (spec_of obj) \<in> {None, Some [], Some n} \<or> sp_renew_time (spec_of obj) = None \<or>
     (\<exists>t. sp_renew_time (spec_of obj) = Some t \<and> t + int T \<le> now)"

definition stamped_before :: "int \<Rightarrow> lease_spec \<Rightarrow> bool" where
  "stamped_before now sp \<longleftrightarrow> (\<forall>t. sp_renew_time sp = Some t \<longrightarrow> t \<le> now)"

definition known_version :: "nat \<Rightarrow> string option \<Rightarrow> bool" where
  "known_version next ver \<longleftrightarrow> (\<exists>v < next. ver = Some (nat_to_string v))"

text \<open>An operation that names the current version of the lease was right about the lease.\<close>

definition right_about :: "race \<Rightarrow> string option \<Rightarrow> (lease \<Rightarrow> bool) \<Rightarrow> bool" where
  "right_about s ver P \<longleftrightarrow>
     known_version (ct_next s) ver \<and> (\<forall>obj. ct_lease s = Some obj \<longrightarrow> ob_version obj = ver \<longrightarrow> P obj)"

definition phase_ok :: "nat \<Rightarrow> race \<Rightarrow> string \<times> phase \<Rightarrow> bool" where
  "phase_ok T s p =
     (case p of
        (n, Saw i None) \<Rightarrow> True
      | (n, Saw i (Some seen)) \<Rightarrow>
          right_about s (ob_version seen) (\<lambda>obj. obj = seen) \<and> stamped_before (ct_time s) (spec_of seen)
      | (n, Decided ClaimCreate) \<Rightarrow> True
      | (n, Decided (ClaimReplace ver)) \<Rightarrow> right_about s ver (may_claim T n (ct_time s))
      | (n, Decided (ClaimRelease ver sp)) \<Rightarrow>
          right_about s ver (\<lambda>obj. sp_holder (spec_of obj) = Some n) \<and> sp_holder sp = None \<and> sp_renew_time sp = None
      | (n, Sending (CreateLease sp)) \<Rightarrow> stamped_before (ct_time s) sp
      | (n, Sending (ReplaceLease ver sp)) \<Rightarrow>
          stamped_before (ct_time s) sp \<and>
          (sp_holder sp = Some n \<and> right_about s ver (may_claim T n (ct_time s)) \<or>
           sp_holder sp = None \<and> right_about s ver (\<lambda>obj. sp_holder (spec_of obj) = Some n)))"

definition race_inv :: "nat \<Rightarrow> race \<Rightarrow> bool" where
  "race_inv T s \<longleftrightarrow>
     (\<forall>obj. ct_lease s = Some obj \<longrightarrow>
        known_version (ct_next s) (ob_version obj) \<and> stamped_before (ct_time s) (spec_of obj)) \<and>
     (\<forall>p \<in> set (in_flight s). phase_ok T s p)"

lemma nat_to_string_inj: "nat_to_string a = nat_to_string b \<longleftrightarrow> a = b"
  by (metis digits_val_to_string)

lemma may_claim_later: "may_claim T n now obj \<Longrightarrow> now \<le> now' \<Longrightarrow> may_claim T n now' obj"
  by (auto simp: may_claim_def)

lemma stamped_before_later: "stamped_before now sp \<Longrightarrow> now \<le> now' \<Longrightarrow> stamped_before now' sp"
  by (auto simp: stamped_before_def)

lemma right_about_mono:
  "right_about s ver P \<Longrightarrow> ct_lease s' = ct_lease s \<Longrightarrow> ct_next s' = ct_next s \<Longrightarrow>
   (\<And>obj. P obj \<Longrightarrow> Q obj) \<Longrightarrow> right_about s' ver Q"
  by (auto simp: right_about_def)

text \<open>The phases stay right while time passes and other operations come and go.\<close>

lemma phase_ok_later:
  assumes "phase_ok T s p" and "ct_lease s' = ct_lease s" and "ct_next s' = ct_next s" and "ct_time s \<le> ct_time s'"
  shows "phase_ok T s' p"
  using assms
  by (auto simp: phase_ok_def split: prod.splits phase.splits option.splits claim.splits lease_write.splits
      intro: right_about_mono [of s] may_claim_later stamped_before_later)

text \<open>A new version is one that no operation in flight has named.\<close>

lemma right_about_stored: "right_about s ver P \<Longrightarrow> right_about (store_lease sp s) ver Q"
  by (auto simp: right_about_def known_version_def store_lease_def nat_to_string_inj)

lemma phase_ok_stored: "phase_ok T s p \<Longrightarrow> phase_ok T (store_lease sp s) p"
  by (auto simp: phase_ok_def split: prod.splits phase.splits option.splits claim.splits lease_write.splits
      intro: right_about_stored) (auto simp: store_lease_def)

lemma phase_ok_in_flight [simp]: "phase_ok T (s\<lparr>in_flight := xs\<rparr>) p = phase_ok T s p"
  by (auto simp: phase_ok_def right_about_def split: prod.splits phase.splits option.splits claim.splits lease_write.splits)

lemma decided_ok:
  assumes "phase_ok T s (n, Saw i seen)" and "claim_of i (node d T n) (ct_time s) seen = Some c"
  shows "phase_ok T s (n, Decided c)"
proof (cases seen)
  case None
  with assms(2) show ?thesis by (auto simp: claim_of_def phase_ok_def split: if_splits)
next
  case (Some obj)
  with assms(1) have right: "right_about s (ob_version obj) (\<lambda>o'. o' = obj)"
    and stamp: "stamped_before (ct_time s) (spec_of obj)" by (auto simp: phase_ok_def)
  show ?thesis
  proof (cases i)
    case Acquire
    with assms(2) Some have c: "c = ClaimReplace (ob_version obj)" and "decide (node d T n) (ct_time s) obj = Acquired"
      by (auto simp: claim_of_def split: if_splits)
    then have "may_claim T n (ct_time s) obj"
      using stamp by (auto simp: decide_Acquired may_claim_def held_by_def stamped_before_def)
    with right c show ?thesis by (auto simp: phase_ok_def intro: right_about_mono)
  next
    case Renew
    with assms(2) Some have "c = ClaimReplace (ob_version obj)" "sp_holder (spec_of obj) = Some n"
      by (auto simp: claim_of_def held_by_def split: if_splits)
    with right show ?thesis by (auto simp: phase_ok_def may_claim_def intro: right_about_mono)
  next
    case Release
    with assms(2) Some have "c = ClaimRelease (ob_version obj) (released_spec (spec_of obj))"
      "sp_holder (spec_of obj) = Some n"
      by (auto simp: claim_of_def held_by_def split: if_splits)
    with right show ?thesis
      by (auto simp: phase_ok_def released_spec_def lease_spec_default_def intro: right_about_mono)
  qed
qed

lemma stamped_ok:
  "phase_ok T s (n, Decided c) \<Longrightarrow> phase_ok T s (n, Sending (write_of (node d T n) (ct_time s) c))"
  by (auto simp: phase_ok_def write_of_def owned_spec_def stamped_before_def split: claim.splits)

lemma send_write_cases:
  assumes "send_write wr s = (u, s')"
  obtains sp where "s' = store_lease sp s" "wr = CreateLease sp" "ct_lease s = None"
  | ver sp obj where "s' = store_lease sp s" "wr = ReplaceLease ver sp" "ct_lease s = Some obj"
      "ver = None \<or> ver = ob_version obj"
  | "s' = s"
  using assms
  by (auto simp: send_write_def server_api_def server_create_def server_replace_def
      split: lease_write.splits option.splits if_splits)

lemma race_inv_store:
  assumes "race_inv T s" and "stamped_before (ct_time s) sp" and "set xs \<subseteq> set (in_flight s)"
  shows "race_inv T ((store_lease sp s)\<lparr>in_flight := xs\<rparr>)"
proof -
  have "phase_ok T (store_lease sp s) p" if "p \<in> set xs" for p
    using that assms(1,3) by (auto simp: race_inv_def intro: phase_ok_stored)
  with assms(2) show ?thesis
    by (auto simp: race_inv_def store_lease_def known_version_def spec_of_def)
qed

lemma race_inv_step:
  assumes "race_inv T s" and "race_step d T s s'"
  shows "race_inv T s'"
  using assms(2)
proof cases
  case (time_passes dt)
  with assms(1) show ?thesis
    by (auto simp: race_inv_def intro: phase_ok_later [of T s] stamped_before_later)
next
  case (reads n i)
  have "phase_ok T s (n, Saw i (ct_lease s))"
    using assms(1) by (auto simp: race_inv_def phase_ok_def right_about_def split: option.splits)
  with assms(1) reads show ?thesis by (auto simp: race_inv_def)
next
  case (decides xs n i seen ys c)
  then have "phase_ok T s (n, Decided c)"
    using assms(1) by (intro decided_ok [of T s n i seen d]) (auto simp: race_inv_def)
  with assms(1) decides show ?thesis by (auto simp: race_inv_def)
next
  case (gives_up xs p ys)
  with assms(1) show ?thesis by (auto simp: race_inv_def)
next
  case (stamps xs n c ys)
  then have "phase_ok T s (n, Sending (write_of (node d T n) (ct_time s) c))"
    using assms(1) by (intro stamped_ok) (auto simp: race_inv_def)
  with assms(1) stamps show ?thesis by (auto simp: race_inv_def)
next
  case (writes xs n wr ys u s'')
  then have ok: "phase_ok T s (n, Sending wr)" and sub: "set (xs @ ys) \<subseteq> set (in_flight s)"
    using assms(1) by (auto simp: race_inv_def)
  from writes(3) show ?thesis
  proof (cases rule: send_write_cases)
    case (1 sp)
    with ok writes(1) race_inv_store [OF assms(1) _ sub, of sp] show ?thesis by (simp add: phase_ok_def)
  next
    case (2 ver sp obj)
    with ok writes(1) race_inv_store [OF assms(1) _ sub, of sp] show ?thesis by (simp add: phase_ok_def)
  next
    case 3
    with assms(1) writes(1,2) show ?thesis by (auto simp: race_inv_def)
  qed
qed

lemma race_inv_reachable: "race_reachable d T s \<Longrightarrow> race_inv T s"
  by (induction rule: race_reachable.induct) (auto intro: race_inv_step, simp add: race_inv_def)

subsection \<open>Exclusion\<close>

definition holder :: "race \<Rightarrow> string option" where
  "holder s = Option.bind (ct_lease s) (\<lambda>obj. sp_holder (spec_of obj))"


text \<open>Node \<open>a\<close> has acquired the lease, node \<open>b\<close> has read it before and decided nothing yet.\<close>

definition held_by_a :: race where
  "held_by_a =
     \<lparr>ct_time = 100,
      ct_lease = Some \<lparr>ob_spec = Some (owned_spec (node 30000000 120000000 ''a'') 100), ob_version = Some (nat_to_string 0)\<rparr>,
      ct_next = 1, in_flight = [(''b'', Saw Acquire None)]\<rparr>"

lemma held_by_a_reachable: "race_reachable 30000000 120000000 held_by_a"
proof -
  let ?s0 = "\<lparr>ct_time = 100, ct_lease = None, ct_next = 0, in_flight = []\<rparr> :: race"
  let ?b = "(''b'', Saw Acquire None)"
  have "race_reachable 30000000 120000000 ?s0" by (rule start)
  from step [OF this reads [of "''b''" _ _ _ Acquire]]
  have "race_reachable 30000000 120000000 (?s0\<lparr>in_flight := [?b]\<rparr>)" by simp
  from step [OF this reads [of "''a''" _ _ _ Acquire]]
  have "race_reachable 30000000 120000000 (?s0\<lparr>in_flight := [(''a'', Saw Acquire None), ?b]\<rparr>)" by simp
  from step [OF this decides [where xs = "[]" and n = "''a''" and i = Acquire and seen = None and ys = "[?b]"
        and c = ClaimCreate]]
  have "race_reachable 30000000 120000000 (?s0\<lparr>in_flight := [(''a'', Decided ClaimCreate), ?b]\<rparr>)"
    by (simp add: claim_of_def)
  from step [OF this stamps [where xs = "[]" and n = "''a''" and c = ClaimCreate and ys = "[?b]"]]
  have "race_reachable 30000000 120000000 (?s0\<lparr>in_flight :=
      [(''a'', Sending (CreateLease (owned_spec (node 30000000 120000000 ''a'') 100))), ?b]\<rparr>)"
    by (simp add: write_of_def)
  from step [OF this writes [where xs = "[]" and n = "''a''" and ys = "[?b]"
        and wr = "CreateLease (owned_spec (node 30000000 120000000 ''a'') 100)"]]
  show ?thesis
    by (simp add: send_write_def server_api_def server_create_def store_lease_def held_by_a_def)
qed


section \<open>What the coordinator leaves behind\<close>

text \<open>
  The two services as documented. \<open>active\<close> is the id of the live blob lease, \<open>obj\<close> the lease object. A
  request that fails without a definite answer may have been carried out. Break with period 0 ends the lease
  at once.
\<close>

locale lock_world =
  fixes L :: "'w lease_service" and A :: "'w k8s_api"
    and active :: "'w \<Rightarrow> string option" and obj :: "'w \<Rightarrow> lease option"
  assumes acquire_law: "le_acquire L w secs = (r, w') \<Longrightarrow> obj w' = obj w \<and>
      (\<forall>lid. r = Inr (Inr (Some lid)) \<longrightarrow> active w = None \<and> active w' = Some lid) \<and>
      (active w \<noteq> None \<longrightarrow> active w' = active w \<and> (\<exists>e. r = Inl e))"
    and break_law: "le_break L w 0 = (b, w') \<Longrightarrow> obj w' = obj w \<and>
      (b = Inr () \<longrightarrow> active w' = None) \<and> (b \<noteq> Inr () \<longrightarrow> active w' = active w \<or> active w' = None)"
    and get_law: "api_get A w = (g, w') \<Longrightarrow> obj w' = obj w \<and> active w' = active w \<and>
      (\<forall>x. g = Inr x \<longrightarrow> x = obj w)"
    and create_law: "api_create A w sp = (u, w') \<Longrightarrow> active w' = active w \<and>
      (u = Inr () \<longrightarrow> (\<exists>o'. obj w' = Some o' \<and> ob_spec o' = Some sp))"
    and replace_law: "api_replace A w ver sp = (u, w') \<Longrightarrow> active w' = active w \<and>
      (u = Inr () \<longrightarrow> (\<exists>o'. obj w' = Some o' \<and> ob_spec o' = Some sp))"
begin

text \<open>The lease object names \<open>me\<close> as its holder.\<close>

definition owned_by :: "string \<Rightarrow> 'w \<Rightarrow> bool" where
  "owned_by me w \<longleftrightarrow> (\<exists>o'. obj w = Some o' \<and> held_by (spec_of o') me)"

lemma try_acquire_law:
  assumes "k8s_try_acquire A k w = (r, w')"
  shows "active w' = active w \<and> (r = Inr Acquired \<longrightarrow> owned_by (kl_holder k) w') \<and>
    (\<forall>h age. r = Inr (HeldByLiveHolder h age) \<longrightarrow> obj w' = obj w)"
proof -
  obtain g w1 where g: "api_get A w = (g, w1)" by fastforce
  obtain u w2 where c: "create_owned A k w1 = (u, w2)" by fastforce
  note gl = get_law [OF g]
  have cl: "active w2 = active w1 \<and> (u = Inr () \<longrightarrow> owned_by (kl_holder k) w2)"
    using create_law [OF c [unfolded create_owned_def]]
    by (auto simp: owned_by_def owned_spec_def held_by_def spec_of_def)
  have rl: "active w3 = active w1 \<and> (v = Inr () \<longrightarrow> owned_by (kl_holder k) w3)"
    if "replace_owned A k o' w1 = (v, w3)" for o' v w3
    using replace_law [OF that [unfolded replace_owned_def]]
    by (auto simp: owned_by_def owned_spec_def held_by_def spec_of_def)
  from assms g c gl cl show ?thesis
    by (auto simp: k8s_try_acquire_def
        split: sum.splits option.splits prod.splits cluster_acquire.splits dest!: rl)
qed

lemma azlock_acquire_law:
  assumes "azlock_acquire L w secs = (r, w')"
  shows "obj w' = obj w \<and> (\<forall>lid. r = Inr lid \<longrightarrow> active w' = Some lid) \<and>
    (active w \<noteq> None \<longrightarrow> active w' = active w \<and> (\<exists>e. r = Inl e))"
proof -
  obtain q w1 where q: "le_acquire L w secs = (q, w1)" by fastforce
  from assms q acquire_law [OF q] show ?thesis
    by (auto simp: azlock_acquire_def split: sum.splits option.splits)
qed

lemma azlock_break_law:
  assumes "azlock_break L w = (u, w')"
  shows "obj w' = obj w \<and> (u = Inr () \<longrightarrow> active w' = None)"
proof -
  obtain q w1 where q: "le_break L w 0 = (q, w1)" by fastforce
  from assms q break_law [OF q] show ?thesis
    by (auto simp: azlock_break_def unit_context_def split: sum.splits)
qed

text \<open>A successful second step holds the blob lease and has not touched the cluster lease.\<close>

lemma acquire_blob_law:
  assumes "acquire_blob cluster (azure_blob_lock L) secs w = (Inr lid, w')"
  shows "active w' = Some lid \<and> obj w' = obj w"
proof -
  obtain r w1 where r: "azlock_acquire L w secs = (r, w1)" by fastforce
  obtain u w2 where u: "azlock_break L w1 = (u, w2)" by fastforce
  obtain q w3 where q: "azlock_acquire L w2 secs = (q, w3)" by fastforce
  from assms r u q azlock_acquire_law [OF r] azlock_break_law [OF u] azlock_acquire_law [OF q] show ?thesis
    by (auto simp: acquire_blob_def azure_blob_lock_def
        split: sum.splits option.splits lock_error.splits prod.splits)
qed

lemma coordinator_acquire_ok:
  assumes "coordinator_acquire cluster (azure_blob_lock L) cfg w = (Inr lid, w')"
    and "cluster = None \<or> cluster = Some (k8s_cluster_lease A k)"
  shows "active w' = Some lid \<and> (cluster \<noteq> None \<longrightarrow> owned_by (kl_holder k) w')"
proof -
  obtain u w1 where u: "acquire_cluster cluster w = (u, w1)" by fastforce
  with assms(1) have u': "u = Inr ()" "acquire_blob cluster (azure_blob_lock L) (lease_duration_secs cfg) w1 = (Inr lid, w')"
    by (auto simp: coordinator_acquire_def split: sum.splits)
  have "owned_by (kl_holder k) w1" if "cluster = Some (k8s_cluster_lease A k)"
    using u u'(1) that try_acquire_law [of k w]
    by (auto simp: acquire_cluster_def k8s_cluster_lease_def
        split: sum.splits prod.splits cluster_acquire.splits)
  with acquire_blob_law [OF u'(2)] assms(2) show ?thesis
    by (auto simp: owned_by_def)
qed

lemma coordinator_alone_refuses:
  assumes "active w \<noteq> None" and "coordinator_acquire None (azure_blob_lock L) cfg w = (r, w')"
  shows "(\<exists>e. r = Inl e) \<and> active w' = active w"
proof -
  obtain q w1 where q: "azlock_acquire L w (lease_duration_secs cfg) = (q, w1)" by fastforce
  from assms q azlock_acquire_law [OF q] show ?thesis
    by (auto simp: coordinator_acquire_def acquire_cluster_def acquire_blob_def azure_blob_lock_def
        split: sum.splits lock_error.splits)
qed

lemma coordinator_live_peer_refuses:
  assumes "obj w = Some o'" and "decide k (api_now A (snd (api_get A w))) o' = HeldByLiveHolder h age"
    and "coordinator_acquire (Some (k8s_cluster_lease A k)) B cfg w = (r, w')"
  shows "(\<exists>e. r = Inl e) \<and> active w' = active w \<and> obj w' = obj w"
proof -
  obtain g w1 where g: "api_get A w = (g, w1)" by fastforce
  from assms g get_law [OF g] show ?thesis
    by (cases g) (auto simp: coordinator_acquire_def acquire_cluster_def k8s_cluster_lease_def k8s_try_acquire_def)
qed

text \<open>A break that fails is the one error after which the cluster lease is not given back.\<close>

lemma coordinator_break_failure:
  assumes "k8s_try_acquire A k w = (Inr Acquired, w1)"
    and "le_acquire L w1 (lease_duration_secs cfg) = (Inl (HttpResponse 409), w2)"
    and "le_break L w2 0 = (Inl e, w3)"
  shows "coordinator_acquire (Some (k8s_cluster_lease A k)) (azure_blob_lock L) cfg w =
      (Inl (IoErr ''break blob lease''), w3) \<and> owned_by (kl_holder k) w3"
proof -
  have "owned_by (kl_holder k) w1" using try_acquire_law [OF assms(1)] by simp
  then have "owned_by (kl_holder k) w3"
    using acquire_law [OF assms(2)] break_law [OF assms(3)] by (simp add: owned_by_def)
  with assms show ?thesis
    by (simp add: coordinator_acquire_def acquire_cluster_def k8s_cluster_lease_def acquire_blob_def
        azure_blob_lock_def azlock_acquire_def classify_def http_status_def azlock_break_def unit_context_def)
qed

end

section \<open>Both locks together\<close>

text \<open>A blob lease beside the API server; breaking it can be made to fail.\<close>

record lock_sim = cluster +
  lk_active :: "string option"
  lk_ids :: nat
  lk_break_fails :: bool

definition sim_leases :: "lock_sim lease_service" where
  "sim_leases =
     \<lparr>le_acquire = (\<lambda>w secs.
        case lk_active w of
          Some _ \<Rightarrow> (Inl (HttpResponse 409), w)
        | None \<Rightarrow>
            (let lid = nat_to_string (lk_ids w)
             in (Inr (Inr (Some lid)), w\<lparr>lk_active := Some lid, lk_ids := lk_ids w + 1\<rparr>))),
      le_renew = (\<lambda>w lid. (if lk_active w = Some lid then Inr () else Inl (HttpResponse 409), w)),
      le_release = (\<lambda>w lid.
        if lk_active w = Some lid then (Inr (), w\<lparr>lk_active := None\<rparr>) else (Inl (HttpResponse 409), w)),
      le_break = (\<lambda>w period.
        if lk_break_fails w then (Inl (HttpResponse 500), w) else (Inr (), w\<lparr>lk_active := None\<rparr>))\<rparr>"

interpretation sim_locks: lock_world sim_leases server_api lk_active ct_lease
  by unfold_locales
     (auto simp: sim_leases_def server_api_def server_create_def server_replace_def store_lease_def Let_def
        split: option.splits if_splits)


text \<open>A holder that died an hour ago, with its blob lease still held.\<close>

definition dead_peer :: lock_sim where
  "dead_peer =
     \<lparr>ct_time = 3600000000,
      ct_lease = Some \<lparr>ob_spec = Some (owned_spec (node 60000000 120000000 ''dead'') 0), ob_version = Some ''7''\<rparr>,
      ct_next = 8, lk_active = Some ''stale'', lk_ids = 3, lk_break_fails = False\<rparr>"

abbreviation (input) node_b :: k8s_lease where
  "node_b \<equiv> node 60000000 120000000 ''b''"

definition cfg_b :: coordination_config where
  "cfg_b = coordination_config_new ''b'' 60000000 120000000"

lemmas takeover_simps =
  k8s_cluster_lease_def k8s_try_acquire_def server_api_def owned_spec_def held_by_def age_of_def
  azure_blob_lock_def azlock_acquire_def azlock_break_def unit_context_def sim_leases_def classify_def http_status_def
  replace_owned_def server_replace_def store_lease_def Let_def


text \<open>
  When the blob lease of a dead holder cannot be broken, the start-up fails but keeps the cluster lease it
  has just taken, although every other failure after that point gives it back.
\<close>

theorem coordinator_break_strands_lease:
  assumes "lock_world L A active obj"
    and "k8s_try_acquire A k w = (Inr Acquired, w1)"
    and "le_acquire L w1 (lease_duration_secs cfg) = (Inl (HttpResponse 409), w2)"
    and "le_break L w2 0 = (Inl e, w3)"
  shows "coordinator_acquire (Some (k8s_cluster_lease A k)) (azure_blob_lock L) cfg w =
           (Inl (IoErr ''break blob lease''), w3) \<and>
         (\<exists>o'. obj w3 = Some o' \<and> held_by (spec_of o') (kl_holder k))"
  using lock_world.coordinator_break_failure [OF assms] lock_world.owned_by_def [OF assms(1)] by blast

definition unbreakable :: lock_sim where
  "unbreakable = dead_peer\<lparr>lk_break_fails := True\<rparr>"

theorem coordinator_break_strands_lease_witness:
  "\<exists>w3. coordinator_acquire (Some (k8s_cluster_lease server_api node_b)) (azure_blob_lock sim_leases) cfg_b unbreakable =
          (Inl (IoErr ''break blob lease''), w3) \<and>
        (\<exists>o'. ct_lease w3 = Some o' \<and> held_by (spec_of o') ''b'')"
proof -
  obtain w1 where w1: "k8s_try_acquire server_api node_b unbreakable = (Inr Acquired, w1)"
    "lk_active w1 = Some ''stale''" "lk_break_fails w1"
    by (simp add: decide_def unbreakable_def dead_peer_def takeover_simps)
  have "le_acquire sim_leases w1 (lease_duration_secs cfg_b) = (Inl (HttpResponse 409), w1)"
    "le_break sim_leases w1 0 = (Inl (HttpResponse 500), w1)"
    using w1 by (simp_all add: sim_leases_def)
  from coordinator_break_strands_lease [OF sim_locks.lock_world_axioms w1(1) this] show ?thesis by auto
qed

text \<open>
  A live holder whose clock is ahead of ours is taken over at once: a renewal time in our future counts
  as no renewal time, whatever the recovery time-out.
\<close>

theorem clock_ahead_taken_over:
  assumes "ob_spec obj = Some sp" and "sp_holder sp = Some h" and "sp_renew_time sp = Some t"
    and "api_get A w = (Inr (Some obj), w1)" and "api_now A w1 < t"
    and "api_replace A w1 (ob_version obj) (owned_spec k (api_now A w1)) = (Inr (), w2)"
  shows "k8s_try_acquire A k w = (Inr Acquired, w2)"
proof -
  have "decide k (api_now A w1) obj = Acquired"
    using assms(1-3,5) by (simp add: decide_Acquired spec_of_def)
  with assms(4,6) show ?thesis by (simp add: k8s_try_acquire_def replace_owned_def)
qed

theorem clock_ahead_taken_over_witness:
  "\<exists>w2. k8s_try_acquire server_api node_b
          (dead_peer\<lparr>ct_lease := Some \<lparr>ob_spec = Some (owned_spec (node 60000000 120000000 ''live'') 3600000001),
             ob_version = Some ''7''\<rparr>\<rparr>) = (Inr Acquired, w2)"
  by (rule exI, rule clock_ahead_taken_over [where h = "''live''" and t = 3600000001])
     (auto simp: server_api_def owned_spec_def server_replace_def dead_peer_def)

end
