(* ===== verification/Device_Stack.thy ===== *)
theory Device_Stack
  imports Buffered_Refines Nbd_Correct Ublk_Device File_Cache_Recovery Azure_Service Coordination_Safety
begin

text \<open>
  The \<open>run\<close> command of \<open>main.rs\<close>: how the layers are put on top of each other, and what the whole
  device then guarantees. \<open>Arc<dyn BlobBackend>\<close> is a value of one of two backends: the optional disk
  cache leaves \<open>azure + azure fcache\<close>, the optional buffer a sum of that and the buffer over it.
\<close>

section \<open>One of two backends\<close>

definition on_either :: "('s \<Rightarrow> 'r \<times> 's) \<Rightarrow> ('t \<Rightarrow> 'r \<times> 't) \<Rightarrow> 's + 't \<Rightarrow> 'r \<times> ('s + 't)" where
  "on_either f g s =
     (case s of
        Inl a \<Rightarrow> (case f a of (r, a') \<Rightarrow> (r, Inl a'))
      | Inr b \<Rightarrow> (case g b of (r, b') \<Rightarrow> (r, Inr b')))"

definition either_backend :: "'s backend \<Rightarrow> 't backend \<Rightarrow> ('s + 't) backend" where
  "either_backend A B =
     \<lparr>b_create = (\<lambda>s n. on_either (\<lambda>a. b_create A a n) (\<lambda>b. b_create B b n) s),
      b_read = (\<lambda>s off len. on_either (\<lambda>a. b_read A a off len) (\<lambda>b. b_read B b off len) s),
      b_write = (\<lambda>s off d. on_either (\<lambda>a. b_write A a off d) (\<lambda>b. b_write B b off d) s),
      b_clear = (\<lambda>s off len. on_either (\<lambda>a. b_clear A a off len) (\<lambda>b. b_clear B b off len) s),
      b_prefetch = (\<lambda>s off len. on_either (\<lambda>a. b_prefetch A a off len) (\<lambda>b. b_prefetch B b off len) s),
      b_data_ranges = on_either (b_data_ranges A) (b_data_ranges B),
      b_flush = on_either (b_flush A) (b_flush B),
      b_delete = on_either (b_delete A) (b_delete B),
      b_size = on_either (b_size A) (b_size B),
      b_etag = on_either (b_etag A) (b_etag B)\<rparr>"

lemma on_eitherE:
  assumes "on_either f g s = (r, s')"
  obtains a a' where "s = Inl a" "f a = (r, a')" "s' = Inl a'"
  | b b' where "s = Inr b" "g b = (r, b')" "s' = Inr b'"
  using assms by (auto simp: on_either_def split: sum.splits prod.splits)

lemma either_page_store:
  assumes "page_store A ca da ia" and "page_store B cb db ib"
  shows "page_store (either_backend A B) (case_sum ca cb) (case_sum da db) (case_sum ia ib)"
proof (unfold_locales, goal_cases)
  case (1 s)
  then show ?case
    using page_store.size_aligned [OF assms(1)] page_store.size_aligned [OF assms(2)] by (cases s) auto
next
  case (2 s len off r s')
  note outer = 2 and run = 2(4) [unfolded either_backend_def backend.simps]
  from run show ?case
  proof (cases rule: on_eitherE)
    case (1 a a')
    then show ?thesis using page_store.page_read [OF assms(1), of a len off r a'] outer by simp
  next
    case (2 b b')
    then show ?thesis using page_store.page_read [OF assms(2), of b len off r b'] outer by simp
  qed
next
  case (3 s d off u s')
  note outer = 3 and run = 3(4) [unfolded either_backend_def backend.simps]
  from run show ?case
  proof (cases rule: on_eitherE)
    case (1 a a')
    then show ?thesis using page_store.page_write [OF assms(1), of a d off u a'] outer by simp
  next
    case (2 b b')
    then show ?thesis using page_store.page_write [OF assms(2), of b d off u b'] outer by simp
  qed
next
  case (4 s u s')
  note outer = 4 and run = 4(2) [unfolded either_backend_def backend.simps]
  from run show ?case
  proof (cases rule: on_eitherE)
    case (1 a a')
    then show ?thesis using page_store.flush_law [OF assms(1), of a u a'] outer by simp
  next
    case (2 b b')
    then show ?thesis using page_store.flush_law [OF assms(2), of b u b'] outer by simp
  qed
next
  case (5 s z s')
  note outer = 5 and run = 5(2) [unfolded either_backend_def backend.simps]
  from run show ?case
  proof (cases rule: on_eitherE)
    case (1 a a')
    then show ?thesis using page_store.size_law [OF assms(1), of a z a'] outer by simp
  next
    case (2 b b')
    then show ?thesis using page_store.size_law [OF assms(2), of b z b'] outer by simp
  qed
next
  case (6 s m u s')
  note outer = 6 and run = 6(3) [unfolded either_backend_def backend.simps]
  from run show ?case
  proof (cases rule: on_eitherE)
    case (1 a a')
    then show ?thesis using page_store.create_law [OF assms(1), of a m u a'] outer by simp
  next
    case (2 b b')
    then show ?thesis using page_store.create_law [OF assms(2), of b m u b'] outer by simp
  qed
next
  case (7 s rs s')
  note outer = 7 and run = 7(2) [unfolded either_backend_def backend.simps]
  from run show ?case
  proof (cases rule: on_eitherE)
    case (1 a a')
    then show ?thesis using page_store.ranges_law [OF assms(1), of a rs a'] outer by simp
  next
    case (2 b b')
    then show ?thesis using page_store.ranges_law [OF assms(2), of b rs b'] outer by simp
  qed
next
  case (8 s t s')
  note outer = 8 and run = 8(2) [unfolded either_backend_def backend.simps]
  from run show ?case
  proof (cases rule: on_eitherE)
    case (1 a a')
    then show ?thesis using page_store.etag_law [OF assms(1), of a t a'] outer by simp
  next
    case (2 b b')
    then show ?thesis using page_store.etag_law [OF assms(2), of b t b'] outer by simp
  qed
qed

lemma either_blob_backend:
  assumes "blob_backend A ca da ia" and "blob_backend B cb db ib"
  shows "blob_backend (either_backend A B) (case_sum ca cb) (case_sum da db) (case_sum ia ib)"
proof (rule blob_backend.intro [OF either_page_store [OF blob_backend.axioms(1) [OF assms(1)]
        blob_backend.axioms(1) [OF assms(2)]]], unfold_locales, goal_cases)
  case (1 s off len r s')
  note outer = 1 and run = 1(3) [unfolded either_backend_def backend.simps]
  from run show ?case
  proof (cases rule: on_eitherE)
    case (1 a a')
    then show ?thesis using blob_backend.read_law [OF assms(1), of a off len r a'] outer by simp
  next
    case (2 b b')
    then show ?thesis using blob_backend.read_law [OF assms(2), of b off len r b'] outer by simp
  qed
next
  case (2 s off d u s')
  note outer = 2 and run = 2(3) [unfolded either_backend_def backend.simps]
  from run show ?case
  proof (cases rule: on_eitherE)
    case (1 a a')
    then show ?thesis using blob_backend.write_law [OF assms(1), of a off d u a'] outer by simp
  next
    case (2 b b')
    then show ?thesis using blob_backend.write_law [OF assms(2), of b off d u b'] outer by simp
  qed
next
  case (3 s off len u s')
  note outer = 3 and run = 3(3) [unfolded either_backend_def backend.simps]
  from run show ?case
  proof (cases rule: on_eitherE)
    case (1 a a')
    then show ?thesis using blob_backend.clear_law [OF assms(1), of a off len u a'] outer by simp
  next
    case (2 b b')
    then show ?thesis using blob_backend.clear_law [OF assms(2), of b off len u b'] outer by simp
  qed
next
  case (4 s off len u s')
  note outer = 4 and run = 4(3) [unfolded either_backend_def backend.simps]
  from run show ?case
  proof (cases rule: on_eitherE)
    case (1 a a')
    then show ?thesis using blob_backend.prefetch_law [OF assms(1), of a off len u a'] outer by simp
  next
    case (2 b b')
    then show ?thesis using blob_backend.prefetch_law [OF assms(2), of b off len u b'] outer by simp
  qed
qed

text \<open>A backend that is never used obeys every contract.\<close>

lemma unused_blob_backend: "blob_backend B content durable (\<lambda>_. False)"
  by unfold_locales auto

section \<open>The layers of a device\<close>

type_synonym 'z lower = "'z azure + 'z azure fcache"
type_synonym 'z device = "'z lower + 'z lower buffered"

definition lower_backend :: "fc_env \<Rightarrow> retry_config \<Rightarrow> 'z page_service \<Rightarrow> 'z lower backend" where
  "lower_backend E rc S = either_backend (azure_backend rc S) (fcache_backend E (azure_backend rc S))"

definition device_backend ::
  "buf_config \<Rightarrow> fc_env \<Rightarrow> retry_config \<Rightarrow> 'z page_service \<Rightarrow> 'z device backend" where
  "device_backend bc E rc S =
     either_backend (lower_backend E rc S) (buffered_backend bc (lower_backend E rc S))"

text \<open>What a device shows, and the blob at the bottom of it.\<close>

definition lower_view :: "('z \<Rightarrow> string option \<Rightarrow> bytes option) \<Rightarrow> 'z lower \<Rightarrow> bytes" where
  "lower_view view = case_sum (az_content view) (fc_view (az_content view))"

definition device_view :: "buf_config \<Rightarrow> ('z \<Rightarrow> string option \<Rightarrow> bytes option) \<Rightarrow> 'z device \<Rightarrow> bytes" where
  "device_view bc view = case_sum (lower_view view) (buf_view bc (lower_view view))"

definition lower_blob :: "('z \<Rightarrow> string option \<Rightarrow> bytes option) \<Rightarrow> 'z lower \<Rightarrow> bytes" where
  "lower_blob view = case_sum (az_content view) (\<lambda>c. az_content view (fc_inner c))"

definition device_blob :: "('z \<Rightarrow> string option \<Rightarrow> bytes option) \<Rightarrow> 'z device \<Rightarrow> bytes" where
  "device_blob view = case_sum (lower_blob view) (\<lambda>b. lower_blob view (bf_inner b))"

definition lower_inv :: "('z \<Rightarrow> string option \<Rightarrow> bytes option) \<Rightarrow> 'z lower \<Rightarrow> bool" where
  "lower_inv view = case_sum (\<lambda>_. True) (fc_inv (az_content view) (\<lambda>_. True))"

text \<open>The invariant of a device with at least one of the two layers.\<close>

definition device_inv :: "buf_config \<Rightarrow> ('z \<Rightarrow> string option \<Rightarrow> bytes option) \<Rightarrow> 'z device \<Rightarrow> bool" where
  "device_inv bc view =
     case_sum (case_sum (\<lambda>_. False) (fc_inv (az_content view) (\<lambda>_. True)))
       (buf_inv bc (lower_view view) (lower_inv view))"

context page_blob_service
begin

lemma lower_page_store:
  "page_store (lower_backend E rc S) (lower_view view) (lower_blob view) (lower_inv view)"
  unfolding lower_backend_def lower_view_def lower_blob_def lower_inv_def
  by (intro either_page_store azure_is_page_store
      blob_backend.axioms(1) [OF fcache_layer.fc_is_backend [OF fcache_layerI [OF azure_is_page_store]]])

lemma device_blob_backend:
  assumes "buf_config_ok bc"
  shows "blob_backend (device_backend bc E rc S) (device_view bc view) (device_blob view) (device_inv bc view)"
proof -
  have "blob_backend (lower_backend E rc S) (lower_view view) (lower_blob view)
      (case_sum (\<lambda>_. False) (fc_inv (az_content view) (\<lambda>_. True)))"
    unfolding lower_backend_def lower_view_def lower_blob_def
    by (intro either_blob_backend unused_blob_backend
        fcache_layer.fc_is_backend [OF fcache_layerI [OF azure_is_page_store]])
  moreover have "blob_backend (buffered_backend bc (lower_backend E rc S)) (buf_view bc (lower_view view))
      (\<lambda>b. lower_blob view (bf_inner b)) (buf_inv bc (lower_view view) (lower_inv view))"
    by (rule buffered_layer.buf_is_backend [OF buffered_layerI [OF lower_page_store assms]])
  ultimately show ?thesis
    unfolding device_backend_def device_view_def device_blob_def device_inv_def
    by (rule either_blob_backend)
qed

end

section \<open>The run command\<close>

text \<open>\<open>cache_file_name\<close>: the base name of the cache files of a blob.\<close>

definition sanitize_cache_component :: "string \<Rightarrow> string" where
  "sanitize_cache_component s =
     map (\<lambda>c. if ascii_alphanumeric c \<or> c = CHR ''-'' \<or> c = CHR ''_'' then c else CHR ''_'') s"

definition cache_file_name :: "string \<Rightarrow> string \<Rightarrow> string" where
  "cache_file_name container blob = sanitize_cache_component (container @ ''-'' @ blob)"

text \<open>
  The options of \<open>run\<close>; the cache directory with the files it holds for this cache name. Page sharing
  is forced off. The background warm-up is \<open>fc_warmup\<close>, which no client can see
  (\<open>file_cache_warmup\<close>), and is not started here.
\<close>

record cache_dir =
  cd_page_size :: nat
  cd_max_bytes :: nat
  cd_identity :: "string option"
  cd_instance :: "string option"
  cd_data :: disk_file
  cd_meta :: disk_file
  cd_etag :: "string option"
  cd_budget :: string
  cd_index :: string
  cd_punches :: "bool list"

record run_options =
  ro_container :: string
  ro_blob :: string
  ro_size :: nat
  ro_create :: bool
  ro_coordination :: bool
  ro_disable_blob_lock :: bool
  ro_cache :: "cache_dir option"
  ro_buffer :: buf_config
  ro_clock :: nat
  ro_upload_secs :: "nat list"

definition run_cache_config :: "run_options \<Rightarrow> cache_dir \<Rightarrow> file_cache_config" where
  "run_cache_config opts cd =
     (let default_name = cache_file_name (ro_container opts) (ro_blob opts);
          named = (\<lambda>n. case n of Some s \<Rightarrow> sanitize_cache_component s | None \<Rightarrow> default_name)
      in \<lparr>fcc_name = named (cd_instance cd), fcc_page_size = cd_page_size cd, fcc_max_bytes = cd_max_bytes cd,
          fcc_blob_identity = named (cd_identity cd), fcc_share_pages = False\<rparr>)"

text \<open>Create on request, then the size of the blob.\<close>

definition run_provision :: "'z page_service \<Rightarrow> run_options \<Rightarrow> 'z azure \<Rightarrow> (nat \<times> 'z azure) res" where
  "run_provision S opts a =
     (let read_only = az_snapshot a \<noteq> None in
      if ro_disable_blob_lock opts \<and> ro_coordination opts then Inl BadConfig
      else if ro_create opts \<and> read_only then Inl ReadOnlySnapshot
      else
        (case (if ro_create opts then az_create S a (ro_size opts) else (Inr (), a)) of
           (Inl e, _) \<Rightarrow> Inl e
         | (Inr _, a1) \<Rightarrow>
             (case az_size S a1 of
                (Inl e, _) \<Rightarrow> Inl e
              | (Inr n, a2) \<Rightarrow> Inr (n, a2))))"

text \<open>
  The lock, when one is needed, and its lease id on every later request; \<open>acquire\<close> is
  \<open>Coordinator::acquire\<close> over the same world.
\<close>

definition run_lock ::
  "('z \<Rightarrow> string res \<times> 'z) \<Rightarrow> run_options \<Rightarrow> 'z azure \<Rightarrow> (string option \<times> 'z azure) res" where
  "run_lock acquire opts a =
     (if az_snapshot a \<noteq> None \<or> ro_disable_blob_lock opts then Inr (None, a)
      else
        (case acquire (az_world a) of
           (Inl e, _) \<Rightarrow> Inl e
         | (Inr lid, z) \<Rightarrow> Inr (Some lid, set_lease_id (a\<lparr>az_world := z\<rparr>) (Some lid))))"

text \<open>The disk cache: recovered dirty pages are written back before the device comes up.\<close>

definition run_cache ::
  "fc_env \<Rightarrow> retry_config \<Rightarrow> 'z page_service \<Rightarrow> run_options \<Rightarrow> nat \<Rightarrow> 'z azure \<Rightarrow> 'z lower res" where
  "run_cache E rc S opts n a =
     (case ro_cache opts of
        None \<Rightarrow> Inr (Inl a)
      | Some cd \<Rightarrow>
          (case az_etag S a of (et, a1) \<Rightarrow>
             let current = (case et of Inl _ \<Rightarrow> None | Inr t \<Rightarrow> t) in
             (case fc_open E a1 (run_cache_config opts cd) n current (cd_data cd) (cd_meta cd) (cd_etag cd)
                     (cd_budget cd) (cd_index cd) (cd_punches cd) of
                Inl e \<Rightarrow> Inl e
              | Inr (c, recovered) \<Rightarrow>
                  if 0 < recovered
                  then (case fc_flush E (azure_backend rc S) c of
                          (Inl e, _) \<Rightarrow> Inl e
                        | (Inr _, c1) \<Rightarrow> Inr (Inr c1))
                  else Inr (Inr c))))"

definition run_buffer :: "run_options \<Rightarrow> bool \<Rightarrow> 'z lower \<Rightarrow> 'z device res" where
  "run_buffer opts read_only low =
     (if read_only then Inr (Inl low)
      else if 0 < page_size (ro_buffer opts)
      then (case buffered_new low (ro_buffer opts) (ro_clock opts) (ro_upload_secs opts) of
              Inl e \<Rightarrow> Inl e
            | Inr b \<Rightarrow> Inr (Inr b))
      else Inr (Inl low))"

text \<open>The device, its size and the lease id its guard holds.\<close>

definition run_start ::
  "fc_env \<Rightarrow> retry_config \<Rightarrow> 'z page_service \<Rightarrow> ('z \<Rightarrow> string res \<times> 'z) \<Rightarrow> run_options \<Rightarrow> 'z azure \<Rightarrow>
   ('z device \<times> nat \<times> string option) res" where
  "run_start E rc S acquire opts a =
     (case run_provision S opts a of
        Inl e \<Rightarrow> Inl e
      | Inr (n, a1) \<Rightarrow>
          (case run_lock acquire opts a1 of
             Inl e \<Rightarrow> Inl e
           | Inr (guard, a2) \<Rightarrow>
               (case run_cache E rc S opts n a2 of
                  Inl e \<Rightarrow> Inl e
                | Inr low \<Rightarrow>
                    (case run_buffer opts (az_snapshot a \<noteq> None) low of
                       Inl e \<Rightarrow> Inl e
                     | Inr dev \<Rightarrow> Inr (dev, n, guard)))))"

section \<open>A device from start to end\<close>

text \<open>The cache directory, if any, holds no cache of this name yet.\<close>

definition fresh_cache :: "run_options \<Rightarrow> bool" where
  "fresh_cache opts \<longleftrightarrow>
     (\<forall>cd. ro_cache opts = Some cd \<longrightarrow> length (df_cur (cd_meta cd)) < HEADER_SIZE \<and> cd_page_size cd < u64_limit)"

context page_blob_service
begin

lemma run_provision_size:
  assumes "run_provision S opts a = Inr (n, a1)"
  shows "az_snapshot a1 = az_snapshot a" and "n = length (az_content view a1)"
proof -
  have snap: "az_create S b m = (u, b') \<Longrightarrow> az_snapshot b' = az_snapshot b" for b b' :: "'z azure" and m u
    by (auto simp: az_create_def Let_def split: if_splits prod.splits sum.splits)
  have "az_size S b = (z, b') \<Longrightarrow> az_snapshot b' = az_snapshot b" for b b' :: "'z azure" and z
    by (auto simp: az_size_def split: prod.splits sum.splits)
  with assms snap show "az_snapshot a1 = az_snapshot a"
    by (auto simp: run_provision_def Let_def split: if_splits prod.splits sum.splits)
  show "n = length (az_content view a1)"
    using assms az_size_law
    by (auto simp: run_provision_def Let_def split: if_splits prod.splits sum.splits)
qed

lemma run_provision_keeps:
  assumes "run_provision S opts a = Inr (n, a1)" and "\<not> ro_create opts"
  shows "az_content view a1 = az_content view a"
  using assms az_size_law
  by (auto simp: run_provision_def Let_def split: if_splits prod.splits sum.splits)

lemma run_cache_new:
  assumes "run_cache E rc S opts n a = Inr low" and "fresh_cache opts" and "n = length (az_content view a)"
  shows "lower_inv view low \<and> lower_view view low = az_content view a \<and> lower_blob view low = az_content view a \<and>
    (ro_cache opts \<noteq> None \<longrightarrow> (\<exists>c. low = Inr c))"
proof (cases "ro_cache opts")
  case None
  with assms(1) show ?thesis by (auto simp: run_cache_def lower_inv_def lower_view_def lower_blob_def)
next
  case (Some cd)
  obtain et a1 where et: "az_etag S a = (et, a1)" by fastforce
  have a1: "az_content view a1 = az_content view a" using az_etag_law [OF et] .
  define current where "current = (case et of Inl _ \<Rightarrow> None | Inr t \<Rightarrow> t)"
  obtain c r where c: "fc_open E a1 (run_cache_config opts cd) n current (cd_data cd) (cd_meta cd) (cd_etag cd)
      (cd_budget cd) (cd_index cd) (cd_punches cd) = Inr (c, r)"
    and low: "if 0 < r then \<exists>c1. fc_flush E (azure_backend rc S) c = (Inr (), c1) \<and> low = Inr c1 else low = Inr c"
    using assms(1) Some et
    by (auto simp: run_cache_def current_def Let_def split: sum.splits if_splits prod.splits)
  have "fc_inv (az_content view) (\<lambda>_. True) c \<and> fc_view (az_content view) c = az_content view a1"
    by (rule fc_opened_new [OF _ _ _ azure_is_page_store [of rc] TrueI _ c])
       (use assms(2,3) Some a1 in \<open>auto simp: fresh_cache_def run_cache_config_def Let_def\<close>)
  moreover have "fc_inv (az_content view) (\<lambda>_. True) c1 \<and> fc_view (az_content view) c1 = fc_view (az_content view) c \<and>
      az_content view (fc_inner c1) = fc_view (az_content view) c"
    if "fc_inv (az_content view) (\<lambda>_. True) c" "fc_flush E (azure_backend rc S) c = (Inr (), c1)" for c1
    using fcache_layer.fc_flush_spec [OF fcache_layerI [OF azure_is_page_store] that] by simp
  ultimately show ?thesis
    using low a1 fc_open_inner [OF c]
    by (auto simp: lower_inv_def lower_view_def lower_blob_def split: if_splits)
qed

end

lemma run_start_device:
  assumes "page_blob_service S view" and "fresh_cache opts"
    and "\<And>z r z'. acquire z = (r, z') \<Longrightarrow> view z' = view z"
    and "ro_cache opts \<noteq> None \<or> az_snapshot a = None \<and> 0 < page_size (ro_buffer opts)"
    and "run_start E rc S acquire opts a = Inr (dev, n, guard)"
  shows "device_inv (ro_buffer opts) view dev \<and> n = length (device_view (ro_buffer opts) view dev) \<and>
    device_view (ro_buffer opts) view dev = device_blob view dev \<and>
    (\<not> ro_create opts \<longrightarrow> device_view (ro_buffer opts) view dev = az_content view a)"
proof -
  from assms(5) obtain a1 a2 low where r: "run_provision S opts a = Inr (n, a1)" "run_lock acquire opts a1 = Inr (guard, a2)"
    "run_cache E rc S opts n a2 = Inr low" "run_buffer opts (az_snapshot a \<noteq> None) low = Inr dev"
    by (auto simp: run_start_def split: sum.splits prod.splits)
  have a2: "az_content view a2 = az_content view a1"
    using r(2) assms(3) [of "az_world a1"]
    by (auto simp: run_lock_def set_lease_id_def az_content_def split: if_splits sum.splits prod.splits)
  have old: "az_content view a2 = az_content view a" if "\<not> ro_create opts"
    using page_blob_service.run_provision_keeps [OF assms(1) r(1) that] a2 by simp
  have n: "n = length (az_content view a2)"
    using page_blob_service.run_provision_size(2) [OF assms(1) r(1)] a2 by simp
  from page_blob_service.run_cache_new [OF assms(1) r(3) assms(2) n]
  have low: "lower_inv view low" "lower_view view low = az_content view a2" "ro_cache opts \<noteq> None \<Longrightarrow> \<exists>c. low = Inr c"
    and blob: "lower_blob view low = az_content view a2" by auto
  show ?thesis
  proof (cases "az_snapshot a \<noteq> None \<or> page_size (ro_buffer opts) = 0")
    case True
    then have "dev = Inl low" using r(4) by (auto simp: run_buffer_def split: if_splits)
    moreover obtain c where "low = Inr c" using True assms(4) low(3) by auto
    ultimately show ?thesis
      using low n blob old by (simp add: device_inv_def device_view_def device_blob_def lower_inv_def)
  next
    case False
    then obtain b where b: "buffered_new low (ro_buffer opts) (ro_clock opts) (ro_upload_secs opts) = Inr b" "dev = Inr b"
      using r(4) by (auto simp: run_buffer_def split: if_splits sum.splits)
    then have "b = \<lparr>bf_inner = low, bf_state = buf_state_init, bf_clock = ro_clock opts, bf_upload_secs = ro_upload_secs opts\<rparr>"
      by (auto simp: buffered_new_def split: if_splits)
    with b(2) low n blob old buf_inv_init [of "lower_inv view" low "ro_buffer opts" "lower_view view"]
      buf_view_init [of "ro_buffer opts" "lower_view view" low]
    show ?thesis by (simp add: device_inv_def device_view_def device_blob_def)
  qed
qed

text \<open>
  What \<open>run\<close> brings up is the blob. Over any page-blob service, when a device is started with the disk
  cache or the buffer (or both) and no cache of its name is left from an earlier run, it comes up
  in a valid state, as large as the blob, showing the blob byte for byte.
\<close>

theorem run_start_shows_blob:
  assumes "page_blob_service S view" and "fresh_cache opts"
    and "\<And>z r z'. acquire z = (r, z') \<Longrightarrow> view z' = view z"
    and "ro_cache opts \<noteq> None \<or> az_snapshot a = None \<and> 0 < page_size (ro_buffer opts)"
    and "run_start E rc S acquire opts a = Inr (dev, n, guard)"
  shows "device_inv (ro_buffer opts) view dev \<and> n = length (device_view (ro_buffer opts) view dev) \<and>
    device_view (ro_buffer opts) view dev = device_blob view dev"
  using run_start_device [OF assms] by simp

text \<open>A buffered device over the simulated service, without a cache directory.\<close>

definition plain_run :: run_options where
  "plain_run =
     \<lparr>ro_container = ''disks'', ro_blob = ''a'', ro_size = 1024, ro_create = False, ro_coordination = False,
      ro_disable_blob_lock = False, ro_cache = None, ro_buffer = tiny_cfg, ro_clock = 0, ro_upload_secs = []\<rparr>"

definition sim_acquire :: "sim \<Rightarrow> string res \<times> sim" where
  "sim_acquire z = (Inr ''lease'', z)"

definition plain_device :: "sim device" where
  "plain_device =
     Inr \<lparr>bf_inner = Inl (set_lease_id (az_new (blank_sim\<lparr>sim_faults := [Some LostReply]\<rparr>)) (Some ''lease'')),
          bf_state = buf_state_init, bf_clock = 0, bf_upload_secs = []\<rparr>"

lemma plain_run_starts:
  "run_start tiny_env retry_config_default (sim_service [] []) sim_acquire plain_run (az_new blank_sim) =
     Inr (plain_device, 1024, Some ''lease'')"
  by (simp add: run_start_def run_provision_def plain_run_def az_new_def az_size_def blob_client_def sim_request_def
      blank_sim_def sim_properties_def sim_view_def page_aligned_def u64_limit_def run_lock_def sim_acquire_def
      set_lease_id_def run_cache_def run_buffer_def buffered_new_def is_multiple_of_def plain_device_def)

lemma plain_device_inv: "device_inv tiny_cfg sim_view plain_device"
  using buf_inv_init [of "lower_inv sim_view"]
  by (simp add: plain_device_def device_inv_def lower_inv_def)

theorem run_start_shows_blob_witness:
  "run_start tiny_env retry_config_default (sim_service [] []) sim_acquire plain_run (az_new blank_sim) =
     Inr (plain_device, 1024, Some ''lease'') \<and>
   device_view tiny_cfg sim_view plain_device = device_blob sim_view plain_device"
  using run_start_shows_blob [OF sim_store.page_blob_service_axioms _ _ _ plain_run_starts] plain_run_starts
  by (simp add: fresh_cache_def plain_run_def sim_acquire_def az_new_def)

text \<open>Two different blobs whose caches, in one directory, have the same name, and so the same files.\<close>

lemma cache_file_name_collides:
  "cache_file_name ''a'' ''b-c'' = cache_file_name ''a-b'' ''c''"
  "cache_file_name ''a'' ''x/y'' = cache_file_name ''a'' ''x_y''"
  by (simp_all add: cache_file_name_def sanitize_cache_component_def ascii_alphanumeric_def)

end
