(* ===== verification/Blob_Url.thy ===== *)
theory Blob_Url
  imports Azure_Copy
begin

text \<open>
  Blob addresses: the parsing of a full blob URL (\<open>bloburl.rs\<close>) and the clients that are built for the
  blob it names (\<open>Cli::location\<close> and \<open>build_azure_backend\<close> of \<open>main.rs\<close>). The \<open>url\<close> crate is a parameter:
  how it takes a URL apart and how it writes a query string. \<open>IpAddr::from_str\<close> is the parser of
  the standard library.
\<close>

section \<open>IP addresses\<close>

text \<open>The parsers return the rest of the text behind what they recognised.\<close>

definition is_hex_digit :: "char \<Rightarrow> bool" where
  "is_hex_digit c =
     (let n = of_char c :: nat in 48 \<le> n \<and> n \<le> 57 \<or> 65 \<le> n \<and> n \<le> 70 \<or> 97 \<le> n \<and> n \<le> 102)"

definition ipv4_octet :: "string \<Rightarrow> string option" where
  "ipv4_octet s =
     (let ds = takeWhile is_digit s in
      if ds = [] \<or> 3 < length ds \<or> 255 < digits_val ds \<or> 1 < length ds \<and> hd ds = CHR ''0'' then None
      else Some (dropWhile is_digit s))"

definition ipv6_group :: "string \<Rightarrow> string option" where
  "ipv6_group s =
     (let ds = takeWhile is_hex_digit s in
      if ds = [] \<or> 4 < length ds then None else Some (dropWhile is_hex_digit s))"

text \<open>\<open>read_separator\<close>: the separator stands before every part but the first.\<close>

definition given_char :: "char \<Rightarrow> string \<Rightarrow> string option" where
  "given_char c s = (case s of x # r \<Rightarrow> if x = c then Some r else None | [] \<Rightarrow> None)"

definition separated :: "char \<Rightarrow> nat \<Rightarrow> (string \<Rightarrow> string option) \<Rightarrow> string \<Rightarrow> string option" where
  "separated c i p s = (if i = 0 then p s else Option.bind (given_char c s) p)"

definition ipv4_addr :: "string \<Rightarrow> string option" where
  "ipv4_addr s =
     fold (\<lambda>i r. Option.bind r (separated (CHR ''.'') i ipv4_octet)) [0, 1, 2, 3] (Some s)"

text \<open>\<open>read_groups\<close>: how many groups were read, and whether they end in an IPv4 address.\<close>

function ipv6_groups :: "nat \<Rightarrow> nat \<Rightarrow> string \<Rightarrow> nat \<times> bool \<times> string" where
  "ipv6_groups limit i s =
     (if limit \<le> i then (limit, False, s)
      else
        (case (if i < limit - 1 then separated (CHR '':'') i ipv4_addr s else None) of
           Some r \<Rightarrow> (i + 2, True, r)
         | None \<Rightarrow>
             (case separated (CHR '':'') i ipv6_group s of
                Some r \<Rightarrow> ipv6_groups limit (i + 1) r
              | None \<Rightarrow> (i, False, s))))"
  by pat_completeness auto
termination
  by (relation "measure (\<lambda>(limit, i, _). limit - i)") auto

declare ipv6_groups.simps [simp del]

definition ipv6_addr :: "string \<Rightarrow> string option" where
  "ipv6_addr s =
     (case ipv6_groups 8 0 s of (head_size, head_ipv4, r) \<Rightarrow>
        if head_size = 8 then Some r
        else if head_ipv4 then None
        else
          (case Option.bind (given_char (CHR '':'') r) (given_char (CHR '':'')) of
             None \<Rightarrow> None
           | Some t \<Rightarrow> (case ipv6_groups (8 - (head_size + 1)) 0 t of (_, _, r') \<Rightarrow> Some r')))"

definition is_ip_addr :: "string \<Rightarrow> bool" where
  "is_ip_addr s =
     ((case ipv4_addr s of Some r \<Rightarrow> Some r | None \<Rightarrow> ipv6_addr s) = Some [])"

section \<open>Blob URLs\<close>

definition is_subdomain_host :: "string \<Rightarrow> bool" where
  "is_subdomain_host host =
     (let is_ip = is_ip_addr host \<or>
            host \<noteq> [] \<and> hd host = CHR ''['' \<and> last host = CHR '']''
      in \<not> is_ip \<and> CHR ''.'' \<in> set host)"

record parsed_url =
  pu_scheme :: string
  pu_host :: "string option"
  pu_port :: "nat option"
  pu_segments :: "(string list) option"
  pu_query :: "(string \<times> string) list"

record url_crate =
  uc_parse :: "string \<Rightarrow> parsed_url res"
  uc_query :: "(string \<times> string) list \<Rightarrow> string option"

record template_blob_ref =
  tb_service_url :: string
  tb_account :: string
  tb_container :: string
  tb_blob :: string
  tb_snapshot :: "string option"
  tb_sas :: "string option"

text \<open>The loop over the query pairs: the last snapshot, the other pairs, and whether one is \<open>sig\<close>.\<close>

fun split_query ::
  "(string \<times> string) list \<Rightarrow> string option \<times> (string \<times> string) list \<times> bool \<Rightarrow>
   string option \<times> (string \<times> string) list \<times> bool" where
  "split_query [] acc = acc"
| "split_query ((k, v) # kvs) (snapshot, sas_pairs, has_sig) =
     (if k = ''snapshot'' then split_query kvs (Some v, sas_pairs, has_sig)
      else split_query kvs (snapshot, sas_pairs @ [(k, v)], has_sig \<or> k = ''sig''))"

definition parse_blob_url :: "url_crate \<Rightarrow> string \<Rightarrow> template_blob_ref res" where
  "parse_blob_url U url =
     (case uc_parse U url of
        Inl e \<Rightarrow> Inl e
      | Inr parsed \<Rightarrow>
          (case pu_host parsed of
             None \<Rightarrow> Inl (IoErr ''blob URL has no host'')
           | Some host \<Rightarrow>
               (case split_query (pu_query parsed) (None, [], False) of
                  (snapshot, sas_pairs, has_sig) \<Rightarrow>
                    let sas = (if has_sig then uc_query U sas_pairs else None);
                        segments = (case pu_segments parsed of
                                      Some it \<Rightarrow> filter (\<lambda>s. s \<noteq> []) it | None \<Rightarrow> []);
                        port = (case pu_port parsed of Some p \<Rightarrow> '':'' @ nat_to_string p | None \<Rightarrow> []);
                        base = pu_scheme parsed @ ''://'' @ host @ port
                    in if is_subdomain_host host
                       then
                         (if length segments < 2 then Inl (IoErr ''blob URL missing container/blob path'')
                          else Inr \<lparr>tb_service_url = base, tb_account = hd (split_on (CHR ''.'') host),
                                    tb_container = segments ! 0, tb_blob = join (CHR ''/'') (drop 1 segments),
                                    tb_snapshot = snapshot, tb_sas = sas\<rparr>)
                       else
                         (if length segments < 3 then Inl (IoErr ''blob URL missing account/container/blob path'')
                          else Inr \<lparr>tb_service_url = base @ ''/'' @ segments ! 0, tb_account = segments ! 0,
                                    tb_container = segments ! 1, tb_blob = join (CHR ''/'') (drop 2 segments),
                                    tb_snapshot = snapshot, tb_sas = sas\<rparr>))))"

text \<open>
  The last test of the function (\<open>blob URL missing container or blob\<close>) never fails: the segments are
  not empty.
\<close>

lemma join_nonempty: "ps \<noteq> [] \<Longrightarrow> \<forall>p \<in> set ps. p \<noteq> [] \<Longrightarrow> join c ps \<noteq> []"
  by (induction c ps rule: join.induct) auto

lemma parse_blob_url_nonempty:
  assumes "parse_blob_url U url = Inr t"
  shows "tb_container t \<noteq> []" "tb_blob t \<noteq> []"
proof -
  have ne: "filter (\<lambda>s. s \<noteq> []) xs ! i \<noteq> []"
    if "\<not> length (filter (\<lambda>s. s \<noteq> []) xs) < k" "i < k" for i k :: nat and xs :: "string list"
    using nth_mem [of i "filter (\<lambda>s. s \<noteq> []) xs"] that by force
  have joins: "join c (drop i (filter (\<lambda>s. s \<noteq> []) xs)) \<noteq> []"
    if "\<not> length (filter (\<lambda>s. s \<noteq> []) xs) < k" "i < k" for c xs and i k :: nat
    using that by (intro join_nonempty) (auto dest!: in_set_dropD)
  show "tb_container t \<noteq> []" "tb_blob t \<noteq> []"
    using assms by (auto simp: parse_blob_url_def Let_def ne [of _ 2 0] ne [of _ 3 "Suc 0"] joins [of _ 2 "Suc 0"] joins [of _ 3 2]
        split: sum.splits option.splits prod.splits if_splits)
qed

section \<open>Clients\<close>

text \<open>
  The storage accounts as the SDK reaches them: \<open>build_container_client\<close> gives, for an endpoint, a
  container and a credential, the requests on each blob of the container; \<open>build_pipeline\<close> may fail.
\<close>

record 'z cloud =
  cl_container :: "string \<Rightarrow> string \<Rightarrow> auth_config \<Rightarrow> (string \<Rightarrow> 'z page_service) res"
  cl_pipeline :: "auth_config \<Rightarrow> bool"

record location =
  lo_endpoint :: string
  lo_account :: string
  lo_container :: string
  lo_blob :: string
  lo_snapshot :: "string option"
  lo_sas :: "string option"

text \<open>\<open>Cli::location\<close>; the arguments are \<open>--blob-url\<close> and \<open>--sas-token\<close>.\<close>

definition cli_location :: "url_crate \<Rightarrow> string option \<Rightarrow> string option \<Rightarrow> location res" where
  "cli_location U blob_url sas_token =
     (case blob_url of
        None \<Rightarrow> Inl (IoErr ''--blob-url (or UBLK_BLOB_URL) is required'')
      | Some url \<Rightarrow>
          (case parse_blob_url U url of
             Inl e \<Rightarrow> Inl e
           | Inr t \<Rightarrow>
               Inr \<lparr>lo_endpoint = trim_end_matches ''/'' (tb_service_url t) @ ''/'', lo_account = tb_account t,
                    lo_container = tb_container t, lo_blob = tb_blob t, lo_snapshot = tb_snapshot t,
                    lo_sas = (case sas_token of Some s \<Rightarrow> Some s | None \<Rightarrow> tb_sas t)\<rparr>))"

definition page_list_if :: "bool \<Rightarrow> 'z azure \<Rightarrow> 'z azure" where
  "page_list_if ok a = (if ok then with_page_list a else a)"

definition snapshot_if :: "string option \<Rightarrow> 'z azure \<Rightarrow> 'z azure" where
  "snapshot_if s a = (case s of Some sid \<Rightarrow> with_snapshot sid a | None \<Rightarrow> a)"

definition build_azure_backend ::
  "'z cloud \<Rightarrow> location \<Rightarrow> auth_config \<Rightarrow> 'z \<Rightarrow> ('z page_service \<times> 'z azure) res" where
  "build_azure_backend C loc auth z =
     (case cl_container C (lo_endpoint loc) (lo_container loc) auth of
        Inl e \<Rightarrow> Inl e
      | Inr client \<Rightarrow>
          Inr (client (lo_blob loc),
               snapshot_if (lo_snapshot loc) (page_list_if (cl_pipeline C auth) (az_new z))))"

lemma built_azure [simp]:
  "az_world (page_list_if ok a) = az_world a" "az_snapshot (page_list_if ok a) = az_snapshot a"
  "az_world (snapshot_if s a) = az_world a"
  "az_snapshot (snapshot_if s (page_list_if ok (az_new z))) = s"
  by (simp_all add: page_list_if_def with_page_list_def snapshot_if_def with_snapshot_def az_new_def
      split: option.splits)

lemma az_new_sel [simp]: "az_world (az_new z) = z" "az_snapshot (az_new z) = None"
  by (simp_all add: az_new_def)

end
