(* ===== verification/Csi.thy ===== *)
theory Csi
  imports Blob_Url
begin

text \<open>
  What the services of the Kubernetes CSI driver share (\<open>csi/mod.rs\<close>): volume ids, the choice of a
  credential, the clients of a volume's blob and of a template, and the copy of a template into a
  blob. A \<open>HashMap<String, String>\<close> is a map from strings to strings.
\<close>

type_synonym params = "string \<rightharpoonup> string"

section \<open>Roles and configuration\<close>

datatype role =
    Controller
  | Node
  | AllRoles

definition role_from_str :: "string \<Rightarrow> role res" where
  "role_from_str s =
     (let t = map ascii_lower s in
      if t = ''controller'' then Inr Controller
      else if t = ''node'' then Inr Node
      else if t = ''all'' then Inr AllRoles
      else Inl (IoErr ''invalid CSI role''))"

record driver_config =
  dc_account :: string
  dc_endpoint :: string
  dc_default_container :: string
  dc_account_key :: "string option"
  dc_use_msi :: bool
  dc_msi_client_id :: "string option"
  dc_use_workload_identity :: bool
  dc_workload_identity_client_id :: "string option"
  dc_workload_identity_tenant_id :: "string option"
  dc_workload_identity_token_file :: "string option"
  dc_sp_tenant_id :: "string option"
  dc_sp_client_id :: "string option"
  dc_sp_client_secret :: "string option"
  dc_use_nbd :: bool
  dc_nbd_host :: string
  dc_nbd_port_start :: nat

section \<open>Volume ids\<close>

definition make_volume_id :: "string \<Rightarrow> string \<Rightarrow> string \<Rightarrow> string" where
  "make_volume_id account container blob = account @ ''/'' @ container @ ''/'' @ blob"

definition RO_VOLUME_ID_PREFIX :: string where
  "RO_VOLUME_ID_PREFIX = ''ro:''"

definition make_volume_id_ro :: "string \<Rightarrow> string \<Rightarrow> string \<Rightarrow> string" where
  "make_volume_id_ro account container blob =
     RO_VOLUME_ID_PREFIX @ account @ ''/'' @ container @ ''/'' @ blob"

definition part :: "string list \<Rightarrow> nat \<Rightarrow> string" where
  "part ps i = (if i < length ps then ps ! i else [])"

definition parse_volume_id :: "string \<Rightarrow> (bool \<times> string \<times> string \<times> string) res" where
  "parse_volume_id volume_id =
     (let (read_only, rest) =
            (case strip_prefix RO_VOLUME_ID_PREFIX volume_id of
               Some rest \<Rightarrow> (True, rest)
             | None \<Rightarrow> (False, volume_id));
          parts = splitn 3 (CHR ''/'') rest;
          account = part parts 0; container = part parts 1; blob = part parts 2
      in if account = [] \<or> container = [] \<or> blob = [] then Inl (IoErr ''malformed volume id'')
         else Inr (read_only, account, container, blob))"

definition volume_name_ok :: "string \<Rightarrow> string \<Rightarrow> string \<Rightarrow> bool" where
  "volume_name_ok account container blob \<longleftrightarrow>
     account \<noteq> [] \<and> container \<noteq> [] \<and> blob \<noteq> [] \<and>
     CHR ''/'' \<notin> set account \<and> CHR ''/'' \<notin> set container"

lemma splitn_volume:
  assumes "CHR ''/'' \<notin> set account" and "CHR ''/'' \<notin> set container"
  shows "splitn 3 (CHR ''/'') (account @ ''/'' @ container @ ''/'' @ blob) = [account, container, blob]"
  using assms by (simp add: numeral_3_eq_3 split_once_append)

text \<open>Both kinds of id are decoded to what was encoded, whatever slashes the blob name has.\<close>

lemma parse_make_volume_id:
  assumes "volume_name_ok account container blob" and "take 3 account \<noteq> ''ro:''"
  shows "parse_volume_id (make_volume_id account container blob) = Inr (False, account, container, blob)"
proof -
  have "take 3 (make_volume_id account container blob) \<noteq> ''ro:''"
  proof
    assume a: "take 3 (make_volume_id account container blob) = ''ro:''"
    have "3 \<le> length account"
    proof (rule ccontr)
      assume "\<not> 3 \<le> length account"
      then have "''ro:'' ! length account = CHR ''/''"
        unfolding a [symmetric] by (simp add: make_volume_id_def nth_append)
      moreover have "length account = 0 \<or> length account = 1 \<or> length account = 2"
        using \<open>\<not> 3 \<le> length account\<close> by linarith
      ultimately show False by auto
    qed
    with a assms(2) show False by (simp add: make_volume_id_def)
  qed
  then have "strip_prefix RO_VOLUME_ID_PREFIX (make_volume_id account container blob) = None"
    by (simp add: strip_prefix_def RO_VOLUME_ID_PREFIX_def numeral_3_eq_3)
  with assms(1) show ?thesis
    using splitn_volume [of account container blob]
    by (simp add: parse_volume_id_def volume_name_ok_def make_volume_id_def part_def)
qed

lemma parse_make_volume_id_ro:
  assumes "volume_name_ok account container blob"
  shows "parse_volume_id (make_volume_id_ro account container blob) = Inr (True, account, container, blob)"
  using assms splitn_volume [of account container blob]
  by (simp add: parse_volume_id_def volume_name_ok_def make_volume_id_ro_def part_def)

section \<open>Sizes\<close>

text \<open>\<open>div_ceil(512) * 512\<close> in 64 bits, and at least one page.\<close>

definition round_up_512 :: "nat \<Rightarrow> nat" where
  "round_up_512 n = max (div_ceil n 512 * 512 mod u64_limit) 512"

lemma round_up_512_spec:
  assumes "n \<le> u64_limit - 512"
  shows "512 dvd round_up_512 n" "n \<le> round_up_512 n" "round_up_512 n < max (n + 512) 513"
    "round_up_512 n < u64_limit"
proof -
  define q r where "q = n div 512" and "r = n mod 512"
  have "n = q * 512 + r" "r < 512" by (simp_all add: q_def r_def)
  then have "div_ceil n 512 * 512 < n + 512" "n \<le> div_ceil n 512 * 512"
    by (simp_all add: div_ceil_def)
  then show "n \<le> round_up_512 n" "round_up_512 n < max (n + 512) 513" "round_up_512 n < u64_limit"
    "512 dvd round_up_512 n"
    using assms by (auto simp: round_up_512_def u64_limit_def max_def)
qed

lemma round_up_512_id: "512 dvd n \<Longrightarrow> 0 < n \<Longrightarrow> n < u64_limit \<Longrightarrow> round_up_512 n = n"
  by (auto simp: round_up_512_def div_ceil_def elim!: dvdE)

section \<open>Credentials and clients\<close>

definition or_else :: "'a option \<Rightarrow> 'a option \<Rightarrow> 'a option" where
  "or_else a b = (case a of Some x \<Rightarrow> Some x | None \<Rightarrow> b)"

definition select_driver_auth :: "driver_config \<Rightarrow> string \<Rightarrow> params \<Rightarrow> auth_config res" where
  "select_driver_auth cfg account secrets =
     (case or_else (secrets ''accountKey'') (dc_account_key cfg) of
        Some key \<Rightarrow> Inr (SharedKey account key)
      | None \<Rightarrow>
          if dc_use_workload_identity cfg
          then Inr (WorkloadIdentity (dc_workload_identity_client_id cfg) (dc_workload_identity_tenant_id cfg)
                      (dc_workload_identity_token_file cfg))
          else if dc_use_msi cfg \<or> dc_msi_client_id cfg \<noteq> None
          then Inr (Msi (map_option ClientId (dc_msi_client_id cfg)))
          else
            (case (or_else (secrets ''AZURE_TENANT_ID'') (dc_sp_tenant_id cfg),
                   or_else (secrets ''AZURE_CLIENT_ID'') (dc_sp_client_id cfg),
                   or_else (secrets ''AZURE_CLIENT_SECRET'') (dc_sp_client_secret cfg)) of
               (Some t, Some c, Some s) \<Rightarrow> Inr (ServicePrincipal t c s)
             | _ \<Rightarrow> Inl (IoErr ''no auth configured'')))"

definition account_endpoint :: "driver_config \<Rightarrow> string \<Rightarrow> string" where
  "account_endpoint cfg account =
     (if str_contains ''%s'' (dc_endpoint cfg) then str_replace ''%s'' account (dc_endpoint cfg)
      else ''https://'' @ account @ ''.blob.core.windows.net/'')"

text \<open>
  \<open>build_backend\<close> and \<open>build_backend_concrete\<close>: the requests on the blob, a fresh backend over them, and
  the credential.
\<close>

definition build_backend_concrete ::
  "'z cloud \<Rightarrow> driver_config \<Rightarrow> string \<Rightarrow> string \<Rightarrow> string \<Rightarrow> params \<Rightarrow> 'z \<Rightarrow>
   ('z page_service \<times> 'z azure \<times> auth_config) res" where
  "build_backend_concrete C cfg account container blob secrets z =
     (case select_driver_auth cfg account secrets of
        Inl e \<Rightarrow> Inl e
      | Inr auth \<Rightarrow>
          (case cl_container C (account_endpoint cfg account) container auth of
             Inl e \<Rightarrow> Inl e
           | Inr client \<Rightarrow> Inr (client blob, az_new z, auth)))"

definition build_backend ::
  "'z cloud \<Rightarrow> driver_config \<Rightarrow> string \<Rightarrow> string \<Rightarrow> string \<Rightarrow> params \<Rightarrow> 'z \<Rightarrow>
   ('z page_service \<times> 'z azure) res" where
  "build_backend C cfg account container blob secrets z =
     (case select_driver_auth cfg account secrets of
        Inl e \<Rightarrow> Inl e
      | Inr auth \<Rightarrow>
          (case cl_container C (account_endpoint cfg account) container auth of
             Inl e \<Rightarrow> Inl e
           | Inr client \<Rightarrow> Inr (client blob, az_new z)))"

text \<open>Where a template is read: at its own URL with a SAS, else at the driver's endpoint of its account.\<close>

definition template_client ::
  "driver_config \<Rightarrow> template_blob_ref \<Rightarrow> params \<Rightarrow> (string \<times> auth_config) res" where
  "template_client cfg tmpl secrets =
     (case tb_sas tmpl of
        Some sas \<Rightarrow> Inr (trim_end_matches ''/'' (tb_service_url tmpl) @ ''/'', Sas sas)
      | None \<Rightarrow>
          (case select_driver_auth cfg (tb_account tmpl) secrets of
             Inl e \<Rightarrow> Inl e
           | Inr auth \<Rightarrow> Inr (account_endpoint cfg (tb_account tmpl), auth)))"

definition build_template_backend ::
  "'z cloud \<Rightarrow> driver_config \<Rightarrow> template_blob_ref \<Rightarrow> params \<Rightarrow> 'z \<Rightarrow> ('z page_service \<times> 'z azure) res" where
  "build_template_backend C cfg tmpl secrets z =
     (case template_client cfg tmpl secrets of
        Inl e \<Rightarrow> Inl e
      | Inr (service_url, auth) \<Rightarrow>
          (case cl_container C service_url (tb_container tmpl) auth of
             Inl e \<Rightarrow> Inl e
           | Inr client \<Rightarrow>
               Inr (client (tb_blob tmpl),
                    snapshot_if (tb_snapshot tmpl) (page_list_if (cl_pipeline C auth) (az_new z)))))"

end
