(* ===== verification/Template_Copy.thy ===== *)
theory Template_Copy
  imports Csi
begin

text \<open>
  The copy of a golden image into a blob (\<open>copy_template\<close> and its streamed fallback in \<open>csi/mod.rs\<close>). Source
  and destination are two backends over one storage world, so the
  state of a copy is the pair of them, and a request through one of them is seen by the other.
\<close>

section \<open>Two backends over one world\<close>

type_synonym 'z two_blobs = "'z azure \<times> 'z azure"

definition at_source :: "('z azure \<Rightarrow> 'r \<times> 'z azure) \<Rightarrow> 'z two_blobs \<Rightarrow> 'r \<times> 'z two_blobs" where
  "at_source f w =
     (case w of (a, b) \<Rightarrow> (case f a of (r, a') \<Rightarrow> (r, (a', b\<lparr>az_world := az_world a'\<rparr>))))"

definition at_dest :: "('z azure \<Rightarrow> 'r \<times> 'z azure) \<Rightarrow> 'z two_blobs \<Rightarrow> 'r \<times> 'z two_blobs" where
  "at_dest f w =
     (case w of (a, b) \<Rightarrow> (case f b of (r, b') \<Rightarrow> (r, (a\<lparr>az_world := az_world b'\<rparr>, b'))))"

text \<open>What a copy uses of a source and of a destination.\<close>

record 'w copy_reader =
  rd_data_ranges :: "'w \<Rightarrow> ((nat \<times> nat) list option) res \<times> 'w"
  rd_read :: "'w \<Rightarrow> nat \<Rightarrow> nat \<Rightarrow> bytes res \<times> 'w"

record 'w copy_writer =
  wr_write :: "'w \<Rightarrow> nat \<Rightarrow> bytes \<Rightarrow> unit res \<times> 'w"
  wr_clear :: "'w \<Rightarrow> nat \<Rightarrow> nat \<Rightarrow> unit res \<times> 'w"
  wr_flush :: "'w \<Rightarrow> unit res \<times> 'w"

definition source_reader :: "'z azure backend \<Rightarrow> 'z two_blobs copy_reader" where
  "source_reader B =
     \<lparr>rd_data_ranges = at_source (b_data_ranges B),
      rd_read = (\<lambda>w off len. at_source (\<lambda>a. b_read B a off len) w)\<rparr>"

definition dest_writer :: "'z azure backend \<Rightarrow> 'z two_blobs copy_writer" where
  "dest_writer B =
     \<lparr>wr_write = (\<lambda>w off d. at_dest (\<lambda>b. b_write B b off d) w),
      wr_clear = (\<lambda>w off len. at_dest (\<lambda>b. b_clear B b off len) w),
      wr_flush = at_dest (b_flush B)\<rparr>"

section \<open>The streamed copy\<close>

lemma copy_chunk_bytes_pos [simp]: "0 < copy_chunk_bytes env"
  using copy_chunk_bytes_bounds [of env] by simp

function stream_chunks ::
  "'w copy_reader \<Rightarrow> 'w copy_writer \<Rightarrow> nat option \<Rightarrow> nat \<Rightarrow> (nat \<times> nat) list option \<Rightarrow> nat \<Rightarrow> 'w \<Rightarrow>
   unit res \<times> 'w" where
  "stream_chunks R W chunk_env total_size ranges offset w =
     (if offset < total_size
      then
        let len = min (copy_chunk_bytes chunk_env) (total_size - offset) in
        if (case ranges of Some rs \<Rightarrow> \<not> range_intersects rs offset len | None \<Rightarrow> False)
        then (case wr_clear W w offset len of
                (Inl e, w') \<Rightarrow> (Inl e, w')
              | (Inr _, w') \<Rightarrow> stream_chunks R W chunk_env total_size ranges (offset + len) w')
        else (case rd_read R w offset len of
                (Inl e, w') \<Rightarrow> (Inl e, w')
              | (Inr data, w') \<Rightarrow>
                  (case wr_write W w' offset data of
                     (Inl e, w'') \<Rightarrow> (Inl e, w'')
                   | (Inr _, w'') \<Rightarrow> stream_chunks R W chunk_env total_size ranges (offset + len) w''))
      else (Inr (), w))"
  by pat_completeness auto
termination
  by (relation "measure (\<lambda>(_, _, _, total, _, offset, _). total - offset)") (auto intro!: diff_less_mono2)

declare stream_chunks.simps [simp del]

definition copy_blob_streamed ::
  "'w copy_reader \<Rightarrow> 'w copy_writer \<Rightarrow> nat option \<Rightarrow> nat \<Rightarrow> (nat \<times> nat) list option \<Rightarrow> 'w \<Rightarrow> unit res \<times> 'w" where
  "copy_blob_streamed R W chunk_env total_size ranges w =
     (case stream_chunks R W chunk_env total_size ranges 0 w of
        (Inl e, w') \<Rightarrow> (Inl e, w')
      | (Inr _, w') \<Rightarrow> wr_flush W w')"

section \<open>The copy of a template\<close>

text \<open>
  \<open>copy_template\<close>: the sparseness map of the source (a failed query counts as none), then the server-side
  copy when the source can be authenticated, else the streamed one.
\<close>

definition copy_template ::
  "retry_config \<Rightarrow> 'z copy_env \<Rightarrow> 'z page_service \<Rightarrow> 'z page_service \<Rightarrow> string \<Rightarrow> bool \<Rightarrow> auth_config \<Rightarrow> nat \<Rightarrow>
   'z two_blobs \<Rightarrow> unit res \<times> 'z two_blobs" where
  "copy_template rc env S D source_url source_has_sas dest_auth total_size w =
     (case rd_data_ranges (source_reader (azure_backend rc S)) w of (dr, w1) \<Rightarrow>
        let data_ranges = (case dr of Inr rs \<Rightarrow> rs | Inl _ \<Rightarrow> None) in
        (case (if source_has_sas then (Inr None, w1)
               else at_dest (\<lambda>b. case storage_bearer_token (ce_token env) dest_auth (az_world b) of
                                   (t, z) \<Rightarrow> (t, b\<lparr>az_world := z\<rparr>)) w1) of
           (Inl e, w2) \<Rightarrow> (Inl e, w2)
         | (Inr entra_token, w2) \<Rightarrow>
             if source_has_sas
             then at_dest (\<lambda>b. copy_pages_from_url D env b source_url total_size None data_ranges) w2
             else if entra_token \<noteq> None
             then at_dest (\<lambda>b. copy_pages_from_url D env b source_url total_size (Some dest_auth) data_ranges) w2
             else copy_blob_streamed (source_reader (azure_backend rc S)) (dest_writer (azure_backend rc D))
                    (ce_chunk env) total_size data_ranges w2))"

section \<open>The streamed copy is correct\<close>

text \<open>
  The contract between the loop and its two ends: reading does not change anything and writing does not
  change the source, where \<open>good\<close> are the states both ends are in step.
\<close>

locale copy_pair =
  fixes R :: "'w copy_reader" and W :: "'w copy_writer"
    and csrc cdst :: "'w \<Rightarrow> bytes" and good :: "'w \<Rightarrow> bool"
  assumes src_limit: "good w \<Longrightarrow> length (csrc w) < u64_limit"
    and rd_law: "good w \<Longrightarrow> 0 < len \<Longrightarrow> 512 dvd off \<Longrightarrow> 512 dvd len \<Longrightarrow> rd_read R w off len = (r, w') \<Longrightarrow>
      good w' \<and> csrc w' = csrc w \<and> cdst w' = cdst w \<and> (\<forall>d. r = Inr d \<longrightarrow> d = segment off len (csrc w))"
    and wr_law: "good w \<Longrightarrow> d \<noteq> [] \<Longrightarrow> wr_write W w off d = (u, w') \<Longrightarrow>
      good w' \<and> csrc w' = csrc w \<and>
      (u = Inr () \<longrightarrow> off + length d \<le> length (cdst w) \<and> cdst w' = overwrite off d (cdst w)) \<and>
      (u \<noteq> Inr () \<longrightarrow> same_outside off (length d) (cdst w) (cdst w'))"
    and cl_law: "good w \<Longrightarrow> 0 < len \<Longrightarrow> wr_clear W w off len = (u, w') \<Longrightarrow>
      good w' \<and> csrc w' = csrc w \<and>
      (u = Inr () \<longrightarrow> off + len \<le> length (cdst w) \<and> cdst w' = overwrite off (zeros len) (cdst w)) \<and>
      (u \<noteq> Inr () \<longrightarrow> same_outside off len (cdst w) (cdst w'))"
    and fl_law: "good w \<Longrightarrow> wr_flush W w = (u, w') \<Longrightarrow> good w' \<and> csrc w' = csrc w \<and> cdst w' = cdst w"
begin

text \<open>The first \<open>k\<close> bytes have been copied.\<close>

definition streamed :: "nat \<Rightarrow> 'w \<Rightarrow> 'w \<Rightarrow> bool" where
  "streamed k w0 w \<longleftrightarrow> good w \<and> csrc w = csrc w0 \<and> k \<le> length (cdst w0) \<and>
     cdst w = overwrite 0 (take k (csrc w0)) (cdst w0)"

definition stream_failed :: "nat \<Rightarrow> 'w \<Rightarrow> 'w \<Rightarrow> bool" where
  "stream_failed n w0 w \<longleftrightarrow> good w \<and> csrc w = csrc w0 \<and> same_outside 0 n (cdst w0) (cdst w)"

lemma streamed_chunk:
  assumes "streamed k w0 w" and "good w'" and "csrc w' = csrc w" and "k + len \<le> length (csrc w0)"
    and "k + len \<le> length (cdst w)" and "cdst w' = overwrite k (segment k len (csrc w)) (cdst w)"
  shows "streamed (k + len) w0 w'"
proof -
  have "length (cdst w) = length (cdst w0)"
    using assms(1,4) by (simp add: streamed_def buf_simps)
  then show ?thesis
    using assms by (auto simp: streamed_def intro!: nth_equalityI) (auto simp: buf_simps)
qed

lemma streamed_failed:
  assumes "streamed k w0 w" and "good w'" and "csrc w' = csrc w" and "k + len \<le> n" and "n \<le> length (csrc w0)"
    and "same_outside k len (cdst w) (cdst w')"
  shows "stream_failed n w0 w'"
  using assms by (auto simp: streamed_def stream_failed_def same_outside_def buf_simps)

text \<open>One turn of the loop: a chunk more is copied, or the loop has stopped.\<close>

lemma stream_turn:
  assumes n: "512 dvd n" "n \<le> length (csrc w0)" and cov: "\<And>rs. ranges = Some rs \<Longrightarrow> map_covers rs (csrc w0)"
    and st: "streamed k w0 w" and k: "512 dvd k" "k < n"
    and run: "stream_chunks R W ce n ranges k w = (u, w')"
  defines "len \<equiv> min (copy_chunk_bytes ce) (n - k)"
  shows "(\<exists>w1. streamed (k + len) w0 w1 \<and> stream_chunks R W ce n ranges (k + len) w1 = (u, w')) \<or>
    u \<noteq> Inr () \<and> stream_failed n w0 w'"
proof -
  have good: "good w" and src: "csrc w = csrc w0" using st by (simp_all add: streamed_def)
  have len: "0 < len" "512 dvd len" "k + len \<le> n"
    using k n(1) copy_chunk_bytes_bounds [of ce] by (auto simp: len_def min_def)
  have fits: "k + len \<le> length (csrc w0)" using len(3) n(2) by simp
  note run' = run [unfolded stream_chunks.simps [of R W ce n ranges k w] Let_def, folded len_def]
  note failed = streamed_failed [OF st _ _ len(3) n(2)]
  note chunk = streamed_chunk [OF st _ _ fits]
  show ?thesis
  proof (cases "case ranges of Some rs \<Rightarrow> \<not> range_intersects rs k len | None \<Rightarrow> False")
    case gap: True
    then obtain rs where "ranges = Some rs" "\<not> range_intersects rs k len" by (auto split: option.splits)
    then have zero: "segment k len (csrc w) = zeros len"
      using gap_is_zero [of rs "csrc w0" k len] cov fits src_limit [OF good] src by simp
    obtain c w1 where c: "wr_clear W w k len = (c, w1)" by fastforce
    from cl_law [OF good len(1) c] run' k(2) gap c zero chunk [of w1] failed [of w1] show ?thesis
      by (cases c) auto
  next
    case data: False
    obtain r w1 where r: "rd_read R w k len = (r, w1)" by fastforce
    note rlaw = rd_law [OF good len(1) k(1) len(2) r]
    show ?thesis
    proof (cases r)
      case (Inl e)
      with run' k(2) data r rlaw failed [of w1] show ?thesis by auto
    next
      case (Inr d)
      then have d: "d = segment k len (csrc w)" "length d = len"
        using rlaw fits src by (auto simp: buf_simps)
      then have d: "d = segment k len (csrc w)" "length d = len" "d \<noteq> []" using len(1) by auto
      obtain c w2 where c: "wr_write W w1 k d = (c, w2)" by fastforce
      have w1: "good w1" "csrc w1 = csrc w" "cdst w1 = cdst w" using rlaw by simp_all
      have cont: "(u, w') = (case c of Inl e \<Rightarrow> (Inl e, w2) | Inr _ \<Rightarrow> stream_chunks R W ce n ranges (k + len) w2)"
        using run' k(2) data r Inr c by simp
      from wr_law [OF w1(1) d(3) c] w1 d(1,2) chunk [of w2] failed [of w2] cont show ?thesis
        by (cases c) auto
    qed
  qed
qed

lemma stream_chunks_copies:
  assumes n: "512 dvd n" "n \<le> length (csrc w0)" and cov: "\<And>rs. ranges = Some rs \<Longrightarrow> map_covers rs (csrc w0)"
    and "streamed k w0 w" and "512 dvd k" and "k \<le> n" and "stream_chunks R W ce n ranges k w = (u, w')"
  shows "(u = Inr () \<longrightarrow> streamed n w0 w') \<and> stream_failed n w0 w'"
  using assms(4-7)
proof (induction "n - k" arbitrary: k w rule: less_induct)
  case less
  show ?case
  proof (cases "k < n")
    case False
    with less.prems have "streamed n w0 w'" "u = Inr ()"
      by (auto simp: stream_chunks.simps [of R W ce n ranges n w])
    with streamed_failed [OF this(1) _ refl, of 0 n] n(2) show ?thesis by (simp add: streamed_def)
  next
    case True
    define len where "len = min (copy_chunk_bytes ce) (n - k)"
    have len: "0 < len" "512 dvd len" "k + len \<le> n"
      using True n(1) less.prems(2) copy_chunk_bytes_bounds [of ce] by (auto simp: len_def min_def)
    from stream_turn [OF n cov less.prems(1,2) True less.prems(4), folded len_def] show ?thesis
    proof
      assume "\<exists>w1. streamed (k + len) w0 w1 \<and> stream_chunks R W ce n ranges (k + len) w1 = (u, w')"
      then show ?thesis using less.hyps [of "k + len"] len less.prems(2) True by fastforce
    next
      assume "u \<noteq> Inr () \<and> stream_failed n w0 w'"
      then show ?thesis by simp
    qed
  qed
qed

lemma copy_blob_streamed_copies:
  assumes "512 dvd n" and "good w" and "n \<le> length (csrc w)" and "\<And>rs. ranges = Some rs \<Longrightarrow> map_covers rs (csrc w)"
    and "copy_blob_streamed R W ce n ranges w = (u, w')"
  shows "(u = Inr () \<longrightarrow> streamed n w w') \<and> stream_failed n w w'"
proof -
  obtain v w1 where run: "stream_chunks R W ce n ranges 0 w = (v, w1)" by fastforce
  have "streamed 0 w w" using assms(2) by (simp add: streamed_def)
  from stream_chunks_copies [OF assms(1,3,4) this _ _ run]
  have v: "v = Inr () \<longrightarrow> streamed n w w1" "stream_failed n w w1" by simp_all
  show ?thesis
  proof (cases v)
    case (Inl e)
    with assms(5) run v show ?thesis by (auto simp: copy_blob_streamed_def)
  next
    case (Inr x)
    with assms(5) run have fl: "wr_flush W w1 = (u, w')" by (simp add: copy_blob_streamed_def)
    from v have "good w1" by (simp add: stream_failed_def)
    from fl_law [OF this fl] v Inr show ?thesis by (simp add: streamed_def stream_failed_def)
  qed
qed

end

section \<open>Bystanders\<close>

text \<open>The requests on one blob leave something else alone: another blob, or the state of a lease.\<close>

definition keeps :: "'z page_service \<Rightarrow> ('z \<Rightarrow> 'x) \<Rightarrow> bool" where
  "keeps S f \<longleftrightarrow>
     (\<forall>z. f (snd (sv_create_container S z)) = f z) \<and>
     (\<forall>z s. f (snd (sv_properties S z s)) = f z) \<and>
     (\<forall>z n l. f (snd (sv_create S z n l)) = f z) \<and>
     (\<forall>z s off len. f (snd (sv_download S z s off len)) = f z) \<and>
     (\<forall>z l off d. f (snd (sv_upload S z l off d)) = f z) \<and>
     (\<forall>z l off len. f (snd (sv_clear S z l off len)) = f z) \<and>
     (\<forall>z l c url off len. f (snd (sv_upload_from_url S z l c url off len)) = f z) \<and>
     (\<forall>z. f (snd (sv_delete S z)) = f z) \<and>
     (\<forall>z s m. f (snd (sv_page_list S z s m)) = f z)"

lemma with_retry_keeps:
  assumes "\<And>z. f (snd (g z)) = f z" and "with_retry cfg nanos g z = (r, z', sl)"
  shows "f z' = f z"
proof -
  have "f z' = f z \<and> (\<forall>v. r = Inr v \<longrightarrow> True)"
    by (rule with_retry_invariant [where P = "\<lambda>z1. f z1 = f z" and Q = "\<lambda>_ _. True", OF _ refl assms(2)])
       (use assms(1) in \<open>metis snd_conv\<close>)
  then show ?thesis by simp
qed

text \<open>The same for the requests that only read; a service keeps its own blob there.\<close>

definition reads_keep :: "'z page_service \<Rightarrow> ('z \<Rightarrow> 'x) \<Rightarrow> bool" where
  "reads_keep S f \<longleftrightarrow>
     (\<forall>z s. f (snd (sv_properties S z s)) = f z) \<and>
     (\<forall>z s off len. 0 < len \<longrightarrow> 512 dvd off \<longrightarrow> 512 dvd len \<longrightarrow> f (snd (sv_download S z s off len)) = f z) \<and>
     (\<forall>z s m. f (snd (sv_page_list S z s m)) = f z)"

lemma keeps_reads [intro]: "keeps S f \<Longrightarrow> reads_keep S f"
  by (simp add: keeps_def reads_keep_def)

lemma own_reads:
  assumes "page_blob_service S v"
  shows "reads_keep S v"
  unfolding reads_keep_def
  using page_blob_service.properties_law [OF assms _, THEN conjunct1, OF prod.collapse [symmetric]]
    page_blob_service.download_law [OF assms _ _ _ _, THEN conjunct1, OF _ _ _ prod.collapse [symmetric]]
    page_blob_service.page_list_law [OF assms _, OF prod.collapse [symmetric]]
  by blast

lemma az_size_keeps: "reads_keep S f \<Longrightarrow> az_size S a = (n, a') \<Longrightarrow> f (az_world a') = f (az_world a)"
  by (auto simp: az_size_def reads_keep_def blob_client_def split: sum.splits option.splits prod.splits if_splits)
     (metis snd_conv)+

lemma az_read_keeps:
  "reads_keep S f \<Longrightarrow> 0 < len \<Longrightarrow> az_read rc S a off len = (r, a') \<Longrightarrow> f (az_world a') = f (az_world a)"
  by (auto simp: az_read_def reads_keep_def is_multiple_of_def elim!: with_retry_keeps [rotated]
      split: sum.splits option.splits prod.splits if_splits)

lemma az_write_keeps: "keeps S f \<Longrightarrow> az_write rc S a off d = (u, a') \<Longrightarrow> f (az_world a') = f (az_world a)"
  by (auto simp: az_write_def keeps_def record_etag_def elim!: with_retry_keeps [rotated]
      split: sum.splits option.splits prod.splits if_splits)

lemma az_clear_keeps: "keeps S f \<Longrightarrow> az_clear rc S a off len = (u, a') \<Longrightarrow> f (az_world a') = f (az_world a)"
  by (auto simp: az_clear_def keeps_def record_etag_def elim!: with_retry_keeps [rotated]
      split: sum.splits option.splits prod.splits if_splits)

lemma az_delete_keeps: "keeps S f \<Longrightarrow> az_delete S a = (u, a') \<Longrightarrow> f (az_world a') = f (az_world a)"
  by (auto simp: az_delete_def keeps_def split: sum.splits prod.splits if_splits) (metis snd_conv)+

lemma az_create_keeps: "keeps S f \<Longrightarrow> az_create S a n = (u, a') \<Longrightarrow> f (az_world a') = f (az_world a)"
  by (auto simp: az_create_def keeps_def Let_def split: sum.splits prod.splits option.splits if_splits)
     (metis snd_conv)+

lemma list_page_ranges_keeps:
  assumes "reads_keep S f" and "list_page_ranges S a = (rs, a')"
  shows "f (az_world a') = f (az_world a)"
proof -
  have "f z' = f z" if "sv_page_list S z s m = (pl, z')" for z s m pl z'
    using assms(1) that unfolding reads_keep_def by (metis snd_conv)
  then have "f z' = f z" if "list_pages S s z m acc = Some (r, z')" for s z m acc r z'
    using list_pages_keeps [where f = f, OF _ that] by blast
  then show ?thesis
    using assms(2) by (auto simp: list_page_ranges_def split: if_splits option.splits sum.splits prod.splits)
qed

section \<open>Source and destination are two blobs\<close>

lemma az_snapshot_kept:
  "az_read rc S a off len = (r, a') \<Longrightarrow> az_snapshot a' = az_snapshot a"
  "az_write rc S a off d = (u, a') \<Longrightarrow> az_snapshot a' = az_snapshot a"
  "az_clear rc S a off len = (u, a') \<Longrightarrow> az_snapshot a' = az_snapshot a"
  "list_page_ranges S a = (rs, a') \<Longrightarrow> az_snapshot a' = az_snapshot a"
  "copy_pages_from_url S env a url n auth ranges = (u, a') \<Longrightarrow> az_snapshot a' = az_snapshot a"
  "az_create S a n = (u, a') \<Longrightarrow> az_snapshot a' = az_snapshot a"
  "az_size S a = (k, a') \<Longrightarrow> az_snapshot a' = az_snapshot a"
  by (auto simp: az_read_def az_write_def az_clear_def list_page_ranges_def copy_pages_from_url_def az_create_def
      az_size_def record_etag_def Let_def split: if_splits sum.splits option.splits prod.splits)

definition in_step :: "'z two_blobs \<Rightarrow> bool" where
  "in_step w \<longleftrightarrow> az_world (fst w) = az_world (snd w) \<and> az_snapshot (snd w) = None"

locale two_services = src: page_blob_service S vs + dst: page_blob_service D vd
  for S :: "'z page_service" and vs and D :: "'z page_service" and vd +
  fixes rc :: retry_config
  assumes src_keeps: "keeps S vd" and dst_keeps: "keeps D vs"
begin

lemma at_source_law:
  assumes "in_step w" and "at_source f w = (r, w')" and "\<And>a r a'. f a = (r, a') \<Longrightarrow> vd (az_world a') = vd (az_world a)"
  obtains a' where "f (fst w) = (r, a')" "fst w' = a'" "in_step w'" "az_content vd (snd w') = az_content vd (snd w)"
proof -
  obtain a b where w: "w = (a, b)" by fastforce
  obtain x a' where f: "f a = (x, a')" by fastforce
  from assms(3) [OF f] assms(1,2) f w show ?thesis
    by (intro that [of a']) (auto simp: at_source_def in_step_def az_content_same)
qed

lemma at_dest_law:
  assumes "in_step w" and "at_dest f w = (r, w')"
    and "\<And>b r b'. f b = (r, b') \<Longrightarrow> vs (az_world b') = vs (az_world b) \<and> az_snapshot b' = az_snapshot b"
  obtains b' where "f (snd w) = (r, b')" "snd w' = b'" "in_step w'" "az_content vs (fst w') = az_content vs (fst w)"
    "az_snapshot (fst w') = az_snapshot (fst w)" "vs (az_world (fst w')) = vs (az_world (fst w))"
proof -
  obtain a b where w: "w = (a, b)" by fastforce
  obtain x b' where f: "f b = (x, b')" by fastforce
  from assms(3) [OF f] assms(1,2) f w show ?thesis
    by (intro that [of b']) (auto simp: at_dest_def in_step_def az_content_same)
qed

sublocale pair: copy_pair "source_reader (azure_backend rc S)" "dest_writer (azure_backend rc D)"
    "\<lambda>w. az_content vs (fst w)" "\<lambda>w. az_content vd (snd w)" in_step
proof (unfold_locales, goal_cases)
  case (1 w)
  show ?case using src.blob_size by (auto simp: az_content_def u64_limit_def split: option.splits)
next
  case (2 w len off r w')
  from 2(5) have "at_source (\<lambda>a. az_read rc S a off len) w = (r, w')"
    by (simp add: source_reader_def azure_backend_def)
  then show ?case
    by (rule at_source_law [OF 2(1)]) (use az_read_keeps [OF keeps_reads [OF src_keeps] 2(2)] src.az_read_law [OF 2(2)] in auto)
next
  case (3 w d off u w')
  from 3(3) have "at_dest (\<lambda>b. az_write rc D b off d) w = (u, w')"
    by (simp add: dest_writer_def azure_backend_def)
  then show ?case
    by (rule at_dest_law [OF 3(1)])
       (use az_write_keeps [OF dst_keeps] az_snapshot_kept(2) dst.az_write_law [OF 3(2)] in auto)
next
  case (4 w len off u w')
  from 4(3) have "at_dest (\<lambda>b. az_clear rc D b off len) w = (u, w')"
    by (simp add: dest_writer_def azure_backend_def)
  then show ?case
    by (rule at_dest_law [OF 4(1)])
       (use az_clear_keeps [OF dst_keeps] az_snapshot_kept(3) dst.az_clear_law [OF 4(2)] in auto)
next
  case (5 w u w')
  then show ?case
    by (auto simp: dest_writer_def azure_backend_def at_dest_def az_flush_def in_step_def az_content_same split: prod.splits)
qed

end

section \<open>The copy of a template is correct\<close>

text \<open>
  What the copy relies on: the storage service reads at \<open>url\<close> what the source backend reads, and asking
  for a token touches neither blob.
\<close>

locale template_service = two_services +
  fixes url :: string and snap :: "string option" and get_token :: "auth_config \<Rightarrow> 'a \<Rightarrow> string res \<times> 'a"
  assumes url_law: "vs z snap = Some c \<Longrightarrow> 0 < len \<Longrightarrow> 512 dvd off \<Longrightarrow> 512 dvd len \<Longrightarrow> off + len \<le> length c \<Longrightarrow>
      sv_upload_from_url D z l csa url off len = (u, z') \<Longrightarrow>
      pages_put vd off (segment off len c) z z' \<or> (\<exists>e. u = Inl e) \<and> vd z' = vd z"
    and token_keeps: "get_token auth z = (t, z') \<Longrightarrow> vs z' = vs z \<and> vd z' = vd z"
begin

lemma source_at_url:
  assumes "length c < u64_limit"
  shows "copy_source D vd url c get_token (\<lambda>z. vs z snap = Some c)"
proof (unfold_locales, goal_cases)
  case (1 z len off l csa u z')
  then show ?case by (rule url_law)
next
  case (2 auth z t z')
  then show ?case using token_keeps by blast
next
  case (3 z l csa off len u z')
  then show ?case using dst_keeps unfolding keeps_def by (metis snd_conv)
next
  case (4 z l off len u z')
  then show ?case using dst_keeps unfolding keeps_def by (metis snd_conv)
next
  case (5 z auth t z')
  then show ?case using token_keeps by metis
qed (rule assms)

definition template_copied :: "nat \<Rightarrow> 'a two_blobs \<Rightarrow> unit res \<Rightarrow> 'a two_blobs \<Rightarrow> bool" where
  "template_copied n w u w' \<longleftrightarrow>
     in_step w' \<and> az_content vs (fst w') = az_content vs (fst w) \<and>
     (u = Inr () \<longrightarrow> n \<le> length (az_content vd (snd w)) \<and>
        az_content vd (snd w') = overwrite 0 (take n (az_content vs (fst w))) (az_content vd (snd w))) \<and>
     same_outside 0 n (az_content vd (snd w)) (az_content vd (snd w'))"

lemma server_copy:
  assumes "in_step w" and "az_snapshot (fst w) = snap" and "vs (az_world (fst w)) snap = Some c"
    and "n \<le> length c" and "\<And>rs. ranges = Some rs \<Longrightarrow> map_covers rs c"
    and "\<And>js. mset (ce_order env js) = mset js" and "ce_token env = get_token"
    and "at_dest (\<lambda>b. copy_pages_from_url D env b url n auth ranges) w = (u, w')"
  shows "template_copied n w u w'"
proof -
  obtain a b where w: "w = (a, b)" by fastforce
  have c: "length c < u64_limit" using src.blob_size [OF assms(3)] by simp
  note ready = assms(1,3) [unfolded w in_step_def]
  obtain b' where b': "copy_pages_from_url D env b url n auth ranges = (u, b')" "w' = (a\<lparr>az_world := az_world b'\<rparr>, b')"
    using assms(8) by (auto simp: w at_dest_def split: prod.splits)
  have b: "az_snapshot b = None" "vs (az_world b) snap = Some c" using ready by simp_all
  from copy_source.copy_pages_correct [OF source_at_url [OF c] b(1) assms(4,5,7,6) b(2) b'(1)]
  have eff: "u = Inr () \<longrightarrow> n \<le> length (az_content vd b) \<and> az_content vd b' = overwrite 0 (take n c) (az_content vd b)"
    "u \<noteq> Inr () \<longrightarrow> same_outside 0 n (az_content vd b) (az_content vd b')" "vs (az_world b') snap = Some c" by auto
  have "same_outside 0 n (az_content vd b) (az_content vd b')"
    using eff(1,2) assms(4) same_outside_overwrite [of 0 "take n c" "az_content vd b"] by (cases "u = Inr ()") auto
  moreover have "az_snapshot b' = None" using az_snapshot_kept(5) [OF b'(1)] b(1) by simp
  ultimately show ?thesis
    using eff b'(2) assms(2,3) w by (auto simp: template_copied_def in_step_def az_content_def)
qed

text \<open>The steps before the copy change nothing.\<close>

lemma ranges_query:
  assumes "in_step w" and "rd_data_ranges (source_reader (azure_backend rc S)) w = (dr, w1)"
  shows "in_step w1 \<and> az_content vs (fst w1) = az_content vs (fst w) \<and> az_content vd (snd w1) = az_content vd (snd w) \<and>
    az_snapshot (fst w1) = az_snapshot (fst w) \<and> vs (az_world (fst w1)) = vs (az_world (fst w)) \<and>
    (\<exists>a'. list_page_ranges S (fst w) = (dr, a'))"
proof -
  have "at_source (list_page_ranges S) w = (dr, w1)"
    using assms(2) by (simp add: source_reader_def azure_backend_def)
  then obtain a' where a': "list_page_ranges S (fst w) = (dr, a')" "fst w1 = a'" "in_step w1"
    "az_content vd (snd w1) = az_content vd (snd w)"
    by (rule at_source_law [OF assms(1)]) (use list_page_ranges_keeps [OF keeps_reads [OF src_keeps]] in auto)
  moreover have "vs (az_world a') = vs (az_world (fst w))"
    using a'(1) by (auto simp: list_page_ranges_def dest!: src.list_pages_view
        split: if_splits option.splits sum.splits prod.splits)
  ultimately show ?thesis using az_snapshot_kept(4) [OF a'(1)] by (simp add: az_content_def)
qed

lemma token_query:
  assumes "in_step w"
    and "at_dest (\<lambda>b. case storage_bearer_token get_token auth (az_world b) of (t, z) \<Rightarrow> (t, b\<lparr>az_world := z\<rparr>)) w = (r, w1)"
  shows "in_step w1 \<and> az_content vs (fst w1) = az_content vs (fst w) \<and> az_content vd (snd w1) = az_content vd (snd w) \<and>
    az_snapshot (fst w1) = az_snapshot (fst w) \<and> vs (az_world (fst w1)) = vs (az_world (fst w))"
proof -
  obtain t z where t: "storage_bearer_token get_token auth (az_world (snd w)) = (t, z)" by fastforce
  then have "vs z = vs (az_world (snd w))" "vd z = vd (az_world (snd w))"
    by (auto simp: storage_bearer_token_def dest: token_keeps split: if_splits prod.splits sum.splits)
  with assms t show ?thesis
    by (auto simp: at_dest_def in_step_def az_content_same split: prod.splits)
qed

lemma streamed_copy:
  assumes "in_step w" and "512 dvd n" and "n \<le> length (az_content vs (fst w))"
    and "\<And>rs. ranges = Some rs \<Longrightarrow> map_covers rs (az_content vs (fst w))"
    and "copy_blob_streamed (source_reader (azure_backend rc S)) (dest_writer (azure_backend rc D)) ce n ranges w = (u, w')"
  shows "template_copied n w u w'"
  using pair.copy_blob_streamed_copies [OF assms(2,1,3-5)]
  by (auto simp: template_copied_def pair.streamed_def pair.stream_failed_def)

lemma copy_template_copies:
  assumes "in_step w" and "az_snapshot (fst w) = snap" and "vs (az_world (fst w)) snap = Some c" and "n = length c"
    and maps: "\<And>rs a'. list_page_ranges S (fst w) = (Inr (Some rs), a') \<Longrightarrow> map_covers rs c"
    and "\<And>js. mset (ce_order env js) = mset js" and "ce_token env = get_token"
    and "copy_template rc env S D url has_sas auth n w = (u, w')"
  shows "template_copied n w u w'"
proof -
  obtain dr w1 where dr: "rd_data_ranges (source_reader (azure_backend rc S)) w = (dr, w1)" by (metis surj_pair)
  define ranges where "ranges = (case dr of Inr rs \<Rightarrow> rs | Inl _ \<Rightarrow> None)"
  note q = ranges_query [OF assms(1) dr]
  have cov: "map_covers rs c" if "ranges = Some rs" for rs
    using that maps q by (auto simp: ranges_def split: sum.splits)
  define probe where "probe = (if has_sas then (Inr None, w1)
      else at_dest (\<lambda>b. case storage_bearer_token (ce_token env) auth (az_world b) of (t, z) \<Rightarrow> (t, b\<lparr>az_world := z\<rparr>)) w1)"
  obtain t w2 where t: "probe = (t, w2)" by (metis surj_pair)
  have tq: "in_step w2 \<and> az_content vs (fst w2) = az_content vs (fst w) \<and> az_content vd (snd w2) = az_content vd (snd w) \<and>
    az_snapshot (fst w2) = snap \<and> vs (az_world (fst w2)) snap = Some c"
    using t q token_query [of w1 auth t w2] assms(2,3,7) by (auto simp: probe_def split: if_splits)
  have c: "az_content vs (fst w2) = c" "512 dvd n" using tq src.blob_size [of _ snap c] assms(4) by (auto simp: az_content_def)
  have eq: "template_copied n w2 u w' \<Longrightarrow> template_copied n w u w'" using tq by (simp add: template_copied_def)
  note run = assms(8) [unfolded copy_template_def dr prod.case Let_def, folded ranges_def probe_def, unfolded t prod.case]
  show ?thesis
  proof (cases t)
    case (Inl e)
    with run tq show ?thesis by (auto simp: template_copied_def)
  next
    case (Inr tok)
    consider "has_sas" | "\<not> has_sas" "tok \<noteq> None" | "\<not> has_sas" "tok = None" by blast
    then show ?thesis
    proof cases
      case 1
      with run Inr have "at_dest (\<lambda>b. copy_pages_from_url D env b url n None ranges) w2 = (u, w')" by simp
      from eq [OF server_copy [OF _ _ _ _ cov assms(6,7) this]] tq assms(4) show ?thesis by simp
    next
      case 2
      with run Inr have "at_dest (\<lambda>b. copy_pages_from_url D env b url n (Some auth) ranges) w2 = (u, w')" by simp
      from eq [OF server_copy [OF _ _ _ _ cov assms(6,7) this]] tq assms(4) show ?thesis by simp
    next
      case 3
      with run Inr have "copy_blob_streamed (source_reader (azure_backend rc S)) (dest_writer (azure_backend rc D))
          (ce_chunk env) n ranges w2 = (u, w')" by simp
      from eq [OF streamed_copy [OF _ c(2) _ _ this]] tq c(1) cov assms(4) show ?thesis by simp
    qed
  qed
qed

end

section \<open>Other blobs are left alone\<close>

lemma keeps_sel:
  assumes "keeps S f"
  shows "sv_clear S z l off len = (t, z') \<Longrightarrow> f z' = f z"
    and "sv_upload_from_url S z l c url off len = (u, z') \<Longrightarrow> f z' = f z"
  using assms unfolding keeps_def by (metis snd_conv)+

lemma copy_chunk_keeps:
  "keeps S f \<Longrightarrow> copy_chunk S chunk l csa url n ranges i z = (u, z') \<Longrightarrow> f z' = f z"
  by (auto simp: copy_chunk_def Let_def dest: keeps_sel split: if_splits prod.splits sum.splits)

lemma copy_chunks_keeps:
  assumes "keeps S f" and "copy_chunks (copy_chunk S chunk l csa url n ranges) js z = (u, z')"
  shows "f z' = f z"
  using assms(2)
  by (induction js arbitrary: z) (auto split: prod.splits sum.splits dest: copy_chunk_keeps [OF assms(1)])

lemma bearer_token_keeps:
  "(\<And>auth z t z'. get_token auth z = (t, z') \<Longrightarrow> f z' = f z) \<Longrightarrow>
   storage_bearer_token get_token auth z = (r, z1) \<Longrightarrow> f z1 = f z"
  by (auto simp: storage_bearer_token_def split: if_splits prod.splits sum.splits)

lemma copy_batches_keeps:
  assumes S: "keeps S f" and tok: "\<And>auth z t z'. ce_token env auth z = (t, z') \<Longrightarrow> f z' = f z"
    and "copy_batches S env l url n auth ranges N b z = (u, z')"
  shows "f z' = f z"
  using assms(3)
proof (induction "N - b" arbitrary: b z rule: less_induct)
  case less
  show ?case
  proof (cases "b < N")
    case True
    obtain t z1 where t: "mint_copy_source (ce_token env) auth z = (t, z1)" by fastforce
    have "f z1 = f z" if "storage_bearer_token (ce_token env) cfg z = (r, z1)" for cfg r z1
      using bearer_token_keeps [OF _ that, where f = f] tok by blast
    with t have z1: "f z1 = f z" by (auto simp: mint_copy_source_def split: option.splits)
    show ?thesis
    proof (cases t)
      case (Inl e)
      with less.prems True t z1 show ?thesis by (subst (asm) copy_batches.simps) (simp add: Let_def)
    next
      case (Inr csa)
      define e where "e = min (b + chunks_per_batch env) N"
      have e: "N - e < N - b" using True chunks_per_batch_pos [of env] by (auto simp: e_def)
      obtain v z2 where v: "copy_chunks (copy_chunk S (copy_chunk_bytes (ce_chunk env)) l csa url n ranges)
          (ce_order env [b..<e]) z1 = (v, z2)" by fastforce
      have "(u, z') = (case v of Inl x \<Rightarrow> (Inl x, z2) | Inr _ \<Rightarrow> copy_batches S env l url n auth ranges N e z2)"
        using less.prems True t Inr v
        by (subst (asm) copy_batches.simps) (auto simp: Let_def e_def split: sum.splits)
      with less.hyps [OF e, of z2] copy_chunks_keeps [OF S v] z1 show ?thesis by (cases v) auto
    qed
  next
    case False
    with less.prems show ?thesis by (subst (asm) copy_batches.simps) simp
  qed
qed

lemma copy_pages_from_url_keeps:
  assumes "keeps S f" and "\<And>auth z t z'. ce_token env auth z = (t, z') \<Longrightarrow> f z' = f z"
    and "copy_pages_from_url S env a url n auth ranges = (u, a')"
  shows "f (az_world a') = f (az_world a)"
proof -
  have "f z' = f z" if "copy_batches S env l url n auth ranges N b z = (v, z')" for l N b z v z'
    using copy_batches_keeps [OF assms(1) _ that] assms(2) by blast
  with assms(3) show ?thesis
    by (auto simp: copy_pages_from_url_def Let_def record_etag_def split: if_splits prod.splits sum.splits)
qed

text \<open>A step of either side, seen by a third blob.\<close>

definition unseen :: "('z \<Rightarrow> 'x) \<Rightarrow> 'x \<Rightarrow> 'z two_blobs \<Rightarrow> bool" where
  "unseen f x w \<longleftrightarrow> f (az_world (snd w)) = x \<and> az_world (fst w) = az_world (snd w)"

lemma at_source_unseen:
  "unseen f x w \<Longrightarrow> (\<And>a r a'. g a = (r, a') \<Longrightarrow> f (az_world a') = f (az_world a)) \<Longrightarrow>
   at_source g w = (r, w') \<Longrightarrow> unseen f x w'"
  by (auto simp: at_source_def unseen_def split: prod.splits)

lemma at_dest_unseen:
  "unseen f x w \<Longrightarrow> (\<And>b r b'. g b = (r, b') \<Longrightarrow> f (az_world b') = f (az_world b)) \<Longrightarrow>
   at_dest g w = (r, w') \<Longrightarrow> unseen f x w'"
  by (auto simp: at_dest_def unseen_def split: prod.splits)

lemma stream_chunks_invariant:
  assumes rd: "\<And>w off len r w'. P w \<Longrightarrow> 0 < len \<Longrightarrow> rd_read R w off len = (r, w') \<Longrightarrow> P w'"
    and wr: "\<And>w off d u w'. P w \<Longrightarrow> wr_write W w off d = (u, w') \<Longrightarrow> P w'"
    and cl: "\<And>w off len u w'. P w \<Longrightarrow> wr_clear W w off len = (u, w') \<Longrightarrow> P w'"
    and "P w" and "stream_chunks R W ce n ranges k w = (u, w')"
  shows "P w'"
  using assms(4,5)
proof (induction "n - k" arbitrary: k w rule: less_induct)
  case less
  define len where "len = min (copy_chunk_bytes ce) (n - k)"
  note run = less.prems(2) [unfolded stream_chunks.simps [of R W ce n ranges k w] Let_def, folded len_def]
  show ?case
  proof (cases "k < n")
    case True
    then have len: "0 < len" by (simp add: len_def)
    with True have "n - (k + len) < n - k" by simp
    note next' = less.hyps [OF this]
    obtain c w1 where c: "wr_clear W w k len = (c, w1)" by fastforce
    obtain r w2 where r: "rd_read R w k len = (r, w2)" by fastforce
    obtain v w3 where v: "wr_write W w2 k (projr r) = (v, w3)" by fastforce
    have P: "P w1" "P w2" "P w3"
      using cl [OF less.prems(1) c] rd [OF less.prems(1) len r] wr [OF _ v] by simp_all
    show ?thesis
    proof (cases "case ranges of Some rs \<Rightarrow> \<not> range_intersects rs k len | None \<Rightarrow> False")
      case gap: True
      with run True c P next' [of w1] show ?thesis by (cases c) auto
    next
      case False
      with run True r v P next' [of w3] show ?thesis by (cases r; cases v) auto
    qed
  qed (use run less.prems(1) in simp)
qed

lemma copy_blob_streamed_unseen:
  assumes S: "reads_keep S f" and D: "keeps D f" and "unseen f x w"
    and "copy_blob_streamed (source_reader (azure_backend rc S)) (dest_writer (azure_backend rc D)) ce n ranges w = (u, w')"
  shows "unseen f x w'"
proof -
  have fl: "unseen f x w2" if "unseen f x w1" "at_dest az_flush w1 = (v, w2)" for w1 v w2
    using at_dest_unseen [OF that(1) _ that(2)] by (simp add: az_flush_def)
  have "unseen f x w1"
    if "stream_chunks (source_reader (azure_backend rc S)) (dest_writer (azure_backend rc D)) ce n ranges 0 w = (v, w1)" for v w1
  proof (rule stream_chunks_invariant [where P = "unseen f x", OF _ _ _ assms(3) that], goal_cases)
    case (1 w off len r w')
    then have "at_source (\<lambda>a. az_read rc S a off len) w = (r, w')"
      by (simp add: source_reader_def azure_backend_def)
    from at_source_unseen [OF 1(1) _ this] az_read_keeps [OF S 1(2)] show ?case by blast
  next
    case (2 w off d u w')
    then have "at_dest (\<lambda>b. az_write rc D b off d) w = (u, w')"
      by (simp add: dest_writer_def azure_backend_def)
    from at_dest_unseen [OF 2(1) _ this] az_write_keeps [OF D] show ?case by blast
  next
    case (3 w off len u w')
    then have "at_dest (\<lambda>b. az_clear rc D b off len) w = (u, w')"
      by (simp add: dest_writer_def azure_backend_def)
    from at_dest_unseen [OF 3(1) _ this] az_clear_keeps [OF D] show ?case by blast
  qed
  with assms(4) fl show ?thesis
    by (auto simp: copy_blob_streamed_def dest_writer_def azure_backend_def split: prod.splits sum.splits)
qed

lemma copy_template_unseen:
  assumes S: "reads_keep S f" and D: "keeps D f" and "unseen f x w"
    and tok: "\<And>auth z t z'. ce_token env auth z = (t, z') \<Longrightarrow> f z' = f z"
    and run: "copy_template rc env S D url has_sas auth n w = (u, w')"
  shows "unseen f x w'"
proof -
  have ranges: "unseen f x w1" if "rd_data_ranges (source_reader (azure_backend rc S)) w = (dr, w1)" for dr w1
    using that at_source_unseen [OF assms(3), of "list_page_ranges S"] list_page_ranges_keeps [OF S]
    by (auto simp: source_reader_def azure_backend_def)
  have token: "unseen f x w2" if "unseen f x w1" and
    "at_dest (\<lambda>b. case storage_bearer_token (ce_token env) auth (az_world b) of (t, z) \<Rightarrow> (t, b\<lparr>az_world := z\<rparr>)) w1 = (t, w2)"
    for w1 t w2
    by (rule at_dest_unseen [OF that(1) _ that(2)])
       (use bearer_token_keeps [of "ce_token env" f] tok in \<open>auto split: prod.splits\<close>)
  have copy: "unseen f x w2" if "unseen f x w1" and
    "at_dest (\<lambda>b. copy_pages_from_url D env b url n a rs) w1 = (v, w2)" for w1 a rs v w2
    by (rule at_dest_unseen [OF that(1) _ that(2)])
       (use copy_pages_from_url_keeps [OF D, of env] tok in blast)
  from run show ?thesis
    by (auto simp: copy_template_def Let_def split: prod.splits sum.splits if_splits
        dest!: ranges dest: token copy copy_blob_streamed_unseen [OF S D])
qed

end
