(* ===== verification/Csi_Controller.thy ===== *)
theory Csi_Controller
  imports Template_Copy
begin

text \<open>
  The controller service of the CSI driver (\<open>csi/controller.rs\<close>): \<open>CreateVolume\<close> provisions the page blob
  of a volume, from nothing, as a copy of a template, or by pointing at a snapshot; \<open>DeleteVolume\<close>
  removes it. The storage accounts are a \<open>cloud\<close> (the clients that can be built).
\<close>

section \<open>Requests and responses\<close>

datatype csi_status =
    InvalidArgument string
  | FailedPrecondition string
  | Internal string
  | Unimplemented string

record create_volume_request =
  cr_name :: string
  cr_required_bytes :: "int option"
  cr_parameters :: params
  cr_secrets :: params

record volume =
  vo_capacity_bytes :: int
  vo_id :: string
  vo_context :: params

text \<open>\<open>u64 as i64\<close>.\<close>

definition as_i64 :: "nat \<Rightarrow> int" where
  "as_i64 n = (let m = n mod u64_limit in if m < 2 ^ 63 then int m else int m - 2 ^ 64)"

section \<open>Parameters\<close>

definition TUNING_PARAMS :: "(string \<times> string) list" where
  "TUNING_PARAMS =
     [(''ioConcurrency'', ''UBLK_IO_CONCURRENCY''),
      (''downloadConcurrency'', ''UBLK_DOWNLOAD_CONCURRENCY''),
      (''uploadConcurrency'', ''UBLK_UPLOAD_CONCURRENCY''),
      (''downloadBandwidth'', ''UBLK_DOWNLOAD_BANDWIDTH''),
      (''uploadBandwidth'', ''UBLK_UPLOAD_BANDWIDTH''),
      (''pageSize'', ''UBLK_PAGE_SIZE''),
      (''maxDirtyPages'', ''UBLK_MAX_DIRTY_PAGES''),
      (''maxCachedPages'', ''UBLK_MAX_CACHED_PAGES''),
      (''idleFlushSecs'', ''UBLK_IDLE_FLUSH_SECS''),
      (''forceFlushTimeoutSecs'', ''UBLK_FORCE_FLUSH_TIMEOUT_SECS''),
      (''flushIoTimeoutSecs'', ''UBLK_FLUSH_IO_TIMEOUT_SECS''),
      (''flushConcurrency'', ''UBLK_FLUSH_CONCURRENCY''),
      (''cacheDir'', ''UBLK_CACHE_DIR''),
      (''cachePageSize'', ''UBLK_CACHE_PAGE_SIZE''),
      (''cacheMaxBytes'', ''UBLK_CACHE_MAX_BYTES''),
      (''cacheSharePages'', ''UBLK_CACHE_SHARE_PAGES''),
      (''cacheBlobIdentity'', ''UBLK_CACHE_BLOB_IDENTITY''),
      (''cacheWarmup'', ''UBLK_CACHE_WARMUP''),
      (''cacheWarmupBytes'', ''UBLK_CACHE_WARMUP_BYTES''),
      (''cacheWarmupConcurrency'', ''UBLK_CACHE_WARMUP_CONCURRENCY'')]"

fun forward_params :: "params \<Rightarrow> string list \<Rightarrow> params \<Rightarrow> params" where
  "forward_params ps [] ctx = ctx"
| "forward_params ps (k # ks) ctx =
     forward_params ps ks (case ps k of Some v \<Rightarrow> ctx(k \<mapsto> v) | None \<Rightarrow> ctx)"

definition forward_tuning :: "params \<Rightarrow> params \<Rightarrow> params" where
  "forward_tuning ps ctx = forward_params ps (map fst TUNING_PARAMS) ctx"

definition expand_template :: "string \<Rightarrow> string \<Rightarrow> string \<Rightarrow> string \<Rightarrow> string" where
  "expand_template template pvc_name pvc_namespace pv_name =
     str_replace ''${pv.name}'' pv_name
       (str_replace ''${pvc.namespace}'' pvc_namespace (str_replace ''${pvc.name}'' pvc_name template))"

definition sanitize_path :: "string \<Rightarrow> string" where
  "sanitize_path path =
     join (CHR ''/'') (filter (\<lambda>s. s \<noteq> [])
       (split_on (CHR ''/'') (trim_end_matches ''/'' (dropWhile (\<lambda>c. c = CHR ''/'') (trim path)))))"

text \<open>The StorageClass parameter, else the secret, else the driver's default.\<close>

definition storage_account_for ::
  "driver_config \<Rightarrow> params \<Rightarrow> params \<Rightarrow> string \<Rightarrow> string \<Rightarrow> string \<Rightarrow> string" where
  "storage_account_for cfg ps secrets pvc_name pvc_namespace pv_name =
     (case ps ''storageAccount'' of
        Some template \<Rightarrow> expand_template template pvc_name pvc_namespace pv_name
      | None \<Rightarrow> (case secrets ''AZURE_STORAGE_ACCOUNT'' of Some account \<Rightarrow> account | None \<Rightarrow> dc_account cfg))"

definition container_for ::
  "driver_config \<Rightarrow> params \<Rightarrow> params \<Rightarrow> string \<Rightarrow> string \<Rightarrow> string \<Rightarrow> string" where
  "container_for cfg ps secrets pvc_name pvc_namespace pv_name =
     (case ps ''container'' of
        Some template \<Rightarrow> expand_template template pvc_name pvc_namespace pv_name
      | None \<Rightarrow>
          (case secrets ''AZURE_STORAGE_CONTAINER'' of
             Some container \<Rightarrow> container | None \<Rightarrow> dc_default_container cfg))"

definition param_or :: "params \<Rightarrow> string \<Rightarrow> string \<Rightarrow> string" where
  "param_or ps k d = (case ps k of Some v \<Rightarrow> v | None \<Rightarrow> d)"

definition DEFAULT_BLOB_PATH_TEMPLATE :: string where
  "DEFAULT_BLOB_PATH_TEMPLATE = ''ublk-azblob-disk/${pv.name}''"

text \<open>The account, the container and the blob of the volume of a request.\<close>

definition volume_address :: "driver_config \<Rightarrow> create_volume_request \<Rightarrow> string \<times> string \<times> string" where
  "volume_address cfg req =
     (let ps = cr_parameters req;
          pvc_name = param_or ps ''csi.storage.k8s.io/pvc/name'' [];
          pvc_namespace = param_or ps ''csi.storage.k8s.io/pvc/namespace'' [];
          pv_name = cr_name req
      in (storage_account_for cfg ps (cr_secrets req) pvc_name pvc_namespace pv_name,
          container_for cfg ps (cr_secrets req) pvc_name pvc_namespace pv_name,
          sanitize_path (expand_template (param_or ps ''blobPathTemplate'' DEFAULT_BLOB_PATH_TEMPLATE)
            pvc_name pvc_namespace pv_name)))"

definition requested_size :: "create_volume_request \<Rightarrow> nat" where
  "requested_size req =
     round_up_512 (nat (max (case cr_required_bytes req of Some n \<Rightarrow> n | None \<Rightarrow> 0) 0))"

section \<open>Volume contexts\<close>

text \<open>The context of a volume that mounts the snapshot of a template.\<close>

definition snapshot_context :: "template_blob_ref \<Rightarrow> params \<Rightarrow> nat \<Rightarrow> params" where
  "snapshot_context tmpl ps source_bytes =
     (let ctx = [''account'' \<mapsto> tb_account tmpl, ''container'' \<mapsto> tb_container tmpl, ''blob'' \<mapsto> tb_blob tmpl,
                 ''endpoint'' \<mapsto> trim_end_matches ''/'' (tb_service_url tmpl) @ ''/'',
                 ''size'' \<mapsto> nat_to_string source_bytes];
          ctx = (case tb_snapshot tmpl of Some s \<Rightarrow> ctx(''snapshot'' \<mapsto> s) | None \<Rightarrow> ctx);
          ctx = (case tb_sas tmpl of Some s \<Rightarrow> ctx(''sasToken'' \<mapsto> s) | None \<Rightarrow> ctx)
      in forward_tuning ps
           (forward_params ps
              [''newBlobFsType'', ''templateBlobFsType'', ''templateBlobMountArgsOverwrite'', ''overlay'',
               ''overlayScratchDir''] ctx))"

text \<open>The context of a volume with a blob of its own.\<close>

definition volume_context :: "driver_config \<Rightarrow> string \<times> string \<times> string \<Rightarrow> params \<Rightarrow> nat \<Rightarrow> bool \<Rightarrow> params" where
  "volume_context cfg addr ps sz from_template =
     (case addr of (account, container, blob) \<Rightarrow>
       let ctx = [''container'' \<mapsto> container, ''blob'' \<mapsto> blob, ''account'' \<mapsto> account,
                  ''endpoint'' \<mapsto> account_endpoint cfg account, ''size'' \<mapsto> nat_to_string sz];
           ctx = (if from_template then ctx(''fromTemplate'' \<mapsto> ''true'') else ctx);
           ctx = forward_params ps [''newBlobFsType''] ctx;
           ctx = (if from_template
                  then forward_params ps [''templateBlobFsType'', ''templateBlobMountArgsOverwrite''] ctx else ctx)
       in forward_tuning ps
            (forward_params ps [''coordination'', ''leaseNamespace'', ''recoveryTimeoutSecs'', ''leaseDurationSecs''] ctx))"

section \<open>CreateVolume and DeleteVolume\<close>

type_synonym 'a rpc = "csi_status + 'a"

text \<open>The read-write template: a blob large enough for image and request, then the copy.\<close>

definition provision_copy ::
  "'z cloud \<Rightarrow> driver_config \<Rightarrow> retry_config \<Rightarrow> 'z copy_env \<Rightarrow> create_volume_request \<Rightarrow> string \<Rightarrow> template_blob_ref \<Rightarrow>
   'z page_service \<Rightarrow> nat \<Rightarrow> 'z azure \<Rightarrow> nat rpc \<times> 'z" where
  "provision_copy C cfg rc env req template_url tmpl S source_bytes source =
     (case volume_address cfg req of (account, container, blob) \<Rightarrow>
        let sz = round_up_512 (max source_bytes (requested_size req)) in
        (case build_backend_concrete C cfg account container blob (cr_secrets req) (az_world source) of
           Inl _ \<Rightarrow> (Inl (Internal ''build backend''), az_world source)
         | Inr (D, dest, dest_auth) \<Rightarrow>
             (case az_create D dest sz of
                (Inl _, dest1) \<Rightarrow> (Inl (Internal ''create page blob''), az_world dest1)
              | (Inr _, dest1) \<Rightarrow>
                  (case copy_template rc env S D template_url (tb_sas tmpl \<noteq> None) dest_auth source_bytes
                          (source\<lparr>az_world := az_world dest1\<rparr>, dest1) of
                     (Inl _, w) \<Rightarrow> (Inl (Internal ''copy template blob''), az_world (snd w))
                   | (Inr _, w) \<Rightarrow> (Inr sz, az_world (snd w))))))"

text \<open>The end of the handler, once the blob exists or when it is still to be created.\<close>

definition finish_volume ::
  "'z cloud \<Rightarrow> driver_config \<Rightarrow> create_volume_request \<Rightarrow> nat \<Rightarrow> bool \<Rightarrow> 'z \<Rightarrow> volume rpc \<times> 'z" where
  "finish_volume C cfg req sz from_template z =
     (case volume_address cfg req of (account, container, blob) \<Rightarrow>
        (case build_backend C cfg account container blob (cr_secrets req) z of
           Inl _ \<Rightarrow> (Inl (Internal ''build backend''), z)
         | Inr (D, dest) \<Rightarrow>
             (case (if from_template then (Inr (), dest) else az_create D dest sz) of
                (Inl _, dest1) \<Rightarrow> (Inl (Internal ''create page blob''), az_world dest1)
              | (Inr _, dest1) \<Rightarrow>
                  (Inr \<lparr>vo_capacity_bytes = as_i64 sz, vo_id = make_volume_id account container blob,
                        vo_context = volume_context cfg (account, container, blob) (cr_parameters req) sz from_template\<rparr>,
                   az_world dest1))))"

definition create_volume ::
  "'z cloud \<Rightarrow> url_crate \<Rightarrow> driver_config \<Rightarrow> retry_config \<Rightarrow> 'z copy_env \<Rightarrow> create_volume_request \<Rightarrow> 'z \<Rightarrow>
   volume rpc \<times> 'z" where
  "create_volume C U cfg rc env req z =
     (if cr_name req = [] then (Inl (InvalidArgument ''volume name is required''), z)
      else
        (case cr_parameters req ''templateBlobUrl'' of
           None \<Rightarrow> finish_volume C cfg req (requested_size req) False z
         | Some template_url \<Rightarrow>
             if template_url = [] then finish_volume C cfg req (requested_size req) False z
             else
               (case parse_blob_url U template_url of
                  Inl _ \<Rightarrow> (Inl (InvalidArgument ''templateBlobUrl''), z)
                | Inr tmpl \<Rightarrow>
                    (case build_template_backend C cfg tmpl (cr_secrets req) z of
                       Inl _ \<Rightarrow> (Inl (Internal ''build template backend''), z)
                     | Inr (S, source) \<Rightarrow>
                         (case az_size S source of
                            (Inl _, source1) \<Rightarrow> (Inl (Internal ''stat template blob''), az_world source1)
                          | (Inr source_bytes, source1) \<Rightarrow>
                              if tb_snapshot tmpl \<noteq> None
                              then
                                (Inr \<lparr>vo_capacity_bytes = as_i64 source_bytes,
                                      vo_id = make_volume_id_ro (tb_account tmpl) (tb_container tmpl) (tb_blob tmpl),
                                      vo_context = snapshot_context tmpl (cr_parameters req) source_bytes\<rparr>,
                                 az_world source1)
                              else
                                (case provision_copy C cfg rc env req template_url tmpl S source_bytes source1 of
                                   (Inl e, z2) \<Rightarrow> (Inl e, z2)
                                 | (Inr sz, z2) \<Rightarrow> finish_volume C cfg req sz True z2))))))"

definition delete_volume ::
  "'z cloud \<Rightarrow> driver_config \<Rightarrow> string \<Rightarrow> params \<Rightarrow> 'z \<Rightarrow> unit rpc \<times> 'z" where
  "delete_volume C cfg volume_id secrets z =
     (if volume_id = [] then (Inl (InvalidArgument ''volume id is required''), z)
      else
        (case parse_volume_id volume_id of
           Inl _ \<Rightarrow> (Inl (InvalidArgument ''malformed volume id''), z)
         | Inr (read_only, account, container, blob) \<Rightarrow>
             if read_only then (Inr (), z)
             else
               (case build_backend C cfg account container blob secrets z of
                  Inl _ \<Rightarrow> (Inl (Internal ''build backend''), z)
                | Inr (S, a) \<Rightarrow>
                    (case az_delete S a of
                       (Inl _, a1) \<Rightarrow> (Inl (Internal ''delete page blob''), az_world a1)
                     | (Inr _, a1) \<Rightarrow> (Inr (), az_world a1)))))"

section \<open>What the controller relies on\<close>

text \<open>
  The storage accounts as documented: the client of a blob serves this blob, different addresses
  (endpoint, container, name) are different blobs, and the page ranges of a blob cover its data.
\<close>

type_synonym address = "string \<times> string \<times> string"

locale blob_cloud =
  fixes C :: "'z cloud" and view :: "'z \<Rightarrow> address \<Rightarrow> string option \<Rightarrow> bytes option"
  assumes client_service: "cl_container C ep ct auth = Inr client \<Longrightarrow>
      page_blob_service (client bl) (\<lambda>z. view z (ep, ct, bl))"
    and client_keeps: "cl_container C ep ct auth = Inr client \<Longrightarrow> ad \<noteq> (ep, ct, bl) \<Longrightarrow>
      keeps (client bl) (\<lambda>z. view z ad)"
    and ranges_cover: "cl_container C ep ct auth = Inr client \<Longrightarrow>
      list_page_ranges (client bl) a = (Inr (Some rs), a') \<Longrightarrow> view (az_world a) (ep, ct, bl) (az_snapshot a) = Some c \<Longrightarrow>
      map_covers rs c"

text \<open>The storage service reads at \<open>url\<close> the blob (or snapshot) at an address.\<close>

definition url_reads ::
  "'z cloud \<Rightarrow> ('z \<Rightarrow> address \<Rightarrow> string option \<Rightarrow> bytes option) \<Rightarrow> string \<Rightarrow> address \<Rightarrow> string option \<Rightarrow> bool" where
  "url_reads C view url ad s \<longleftrightarrow>
     (\<forall>ep ct auth client bl z c off len l csa u z'.
        cl_container C ep ct auth = Inr client \<longrightarrow> ad \<noteq> (ep, ct, bl) \<longrightarrow> view z ad s = Some c \<longrightarrow>
        0 < len \<longrightarrow> 512 dvd off \<longrightarrow> 512 dvd len \<longrightarrow> off + len \<le> length c \<longrightarrow>
        sv_upload_from_url (client bl) z l csa url off len = (u, z') \<longrightarrow>
        pages_put (\<lambda>z. view z (ep, ct, bl)) off (segment off len c) z z' \<or>
        (\<exists>e. u = Inl e) \<and> view z' (ep, ct, bl) = view z (ep, ct, bl))"

lemma url_readsD:
  assumes "url_reads C view url ad s" and "cl_container C ep ct auth = Inr client" and "ad \<noteq> (ep, ct, bl)"
    and "view z ad s = Some c" and "0 < len" and "512 dvd off" and "512 dvd len" and "off + len \<le> length c"
    and "sv_upload_from_url (client bl) z l csa url off len = (u, z')"
  shows "pages_put (\<lambda>z. view z (ep, ct, bl)) off (segment off len c) z z' \<or>
    (\<exists>e. u = Inl e) \<and> view z' (ep, ct, bl) = view z (ep, ct, bl)"
  using assms(1) [unfolded url_reads_def, rule_format, OF assms(2-9)] .

text \<open>Where the blob of a volume is, and where its template is read.\<close>

definition blob_address :: "driver_config \<Rightarrow> string \<times> string \<times> string \<Rightarrow> address" where
  "blob_address cfg v = (case v of (account, container, blob) \<Rightarrow> (account_endpoint cfg account, container, blob))"

definition template_address :: "driver_config \<Rightarrow> template_blob_ref \<Rightarrow> params \<Rightarrow> address option" where
  "template_address cfg tmpl secrets =
     (case template_client cfg tmpl secrets of
        Inl _ \<Rightarrow> None
      | Inr (ep, _) \<Rightarrow> Some (ep, tb_container tmpl, tb_blob tmpl))"

text \<open>One blob changed, all others did not.\<close>

definition only_changes :: "('z \<Rightarrow> address \<Rightarrow> string option \<Rightarrow> bytes option) \<Rightarrow> address \<Rightarrow> 'z \<Rightarrow> 'z \<Rightarrow> bool" where
  "only_changes view ad z z' \<longleftrightarrow> (\<forall>ad'. ad' \<noteq> ad \<longrightarrow> view z' ad' = view z ad')"

lemma only_changes_trans:
  "only_changes view ad z z1 \<Longrightarrow> only_changes view ad z1 z2 \<Longrightarrow> only_changes view ad z z2"
  by (simp add: only_changes_def)

lemma only_changesD: "only_changes view ad z z' \<Longrightarrow> ad' \<noteq> ad \<Longrightarrow> view z' ad' = view z ad'"
  unfolding only_changes_def by blast

lemma only_changesI: "(\<And>ad'. ad' \<noteq> ad \<Longrightarrow> view z' ad' = view z ad') \<Longrightarrow> only_changes view ad z z'"
  unfolding only_changes_def by blast

text \<open>
  The size in a request is an \<open>i64\<close>; the requests of a batch are all sent, and the token endpoint
  touches no blob.
\<close>

definition i64_request :: "create_volume_request \<Rightarrow> bool" where
  "i64_request req \<longleftrightarrow> (case cr_required_bytes req of Some n \<Rightarrow> n < 2 ^ 63 | None \<Rightarrow> True)"

definition copy_env_ok :: "('z \<Rightarrow> 'v) \<Rightarrow> 'z copy_env \<Rightarrow> bool" where
  "copy_env_ok view env \<longleftrightarrow>
     (\<forall>js. mset (ce_order env js) = mset js) \<and> (\<forall>auth z t z'. ce_token env auth z = (t, z') \<longrightarrow> view z' = view z)"

text \<open>A template that is a live blob elsewhere, read by the storage service at its URL.\<close>

definition live_template ::
  "'z cloud \<Rightarrow> ('z \<Rightarrow> address \<Rightarrow> string option \<Rightarrow> bytes option) \<Rightarrow> url_crate \<Rightarrow> driver_config \<Rightarrow> create_volume_request \<Rightarrow> 'z \<Rightarrow> string \<Rightarrow> address \<Rightarrow> bytes \<Rightarrow> bool" where
  "live_template C view U cfg req z url sad src \<longleftrightarrow>
     (\<exists>tmpl. parse_blob_url U url = Inr tmpl \<and> tb_snapshot tmpl = None \<and>
        template_address cfg tmpl (cr_secrets req) = Some sad) \<and>
     sad \<noteq> blob_address cfg (volume_address cfg req) \<and> view z sad None = Some src \<and>
     length src \<le> u64_limit - 512 \<and> url_reads C view url sad None"

lemma requested_size_bounds:
  assumes "i64_request req"
  shows "0 < requested_size req" "requested_size req \<le> 2 ^ 63 + 512"
    "cr_required_bytes req = Some k \<Longrightarrow> k \<le> int (requested_size req)"
proof -
  define m where "m = max (case cr_required_bytes req of Some n \<Rightarrow> n | None \<Rightarrow> 0) 0"
  have "m < 2 ^ 63" using assms by (auto simp: m_def i64_request_def split: option.splits)
  then have n: "nat m < 2 ^ 63" by (simp add: nat_less_iff)
  then have "nat m \<le> u64_limit - 512" by (simp add: u64_limit_def)
  note r = round_up_512_spec [OF this, folded requested_size_def m_def]
  have sz: "requested_size req = round_up_512 (nat m)" by (simp add: requested_size_def m_def)
  show "0 < requested_size req" by (simp add: sz round_up_512_def)
  show "requested_size req \<le> 2 ^ 63 + 512" using r(3) n by (simp add: sz max_def split: if_splits)
  show "k \<le> int (requested_size req)" if "cr_required_bytes req = Some k"
    using r(2) that by (simp add: sz m_def)
qed

text \<open>What a volume made from a template looks like.\<close>

definition cloned ::
  "('z \<Rightarrow> address \<Rightarrow> string option \<Rightarrow> bytes option) \<Rightarrow> driver_config \<Rightarrow> create_volume_request \<Rightarrow> bytes \<Rightarrow> 'z \<Rightarrow> volume rpc \<Rightarrow> 'z \<Rightarrow> bool" where
  "cloned view cfg req src z r z' \<longleftrightarrow>
     (let ad = blob_address cfg (volume_address cfg req);
          sz = round_up_512 (max (length src) (requested_size req))
      in only_changes view ad z z' \<and>
         (\<forall>vol. r = Inr vol \<longrightarrow> vo_capacity_bytes vol = as_i64 sz \<and>
            vo_id vol = (case volume_address cfg req of (account, container, blob) \<Rightarrow> make_volume_id account container blob) \<and>
            vo_context vol = volume_context cfg (volume_address cfg req) (cr_parameters req) sz True \<and>
            (\<exists>c. view z' ad None = Some c \<and> length c = sz \<and> take (length src) c = src)))"

context blob_cloud
begin

lemma build_backend_service:
  assumes "build_backend C cfg account container blob secrets z = Inr (D, a)"
  defines "ad \<equiv> blob_address cfg (account, container, blob)"
  shows "a = az_new z" "page_blob_service D (\<lambda>z. view z ad)" "ad' \<noteq> ad \<Longrightarrow> keeps D (\<lambda>z. view z ad')"
  using assms
  by (auto simp: build_backend_def blob_address_def intro: client_service client_keeps split: sum.splits)

lemma build_concrete_service:
  assumes "build_backend_concrete C cfg account container blob secrets z = Inr (D, a, auth)"
  defines "ad \<equiv> blob_address cfg (account, container, blob)"
  shows "a = az_new z" "page_blob_service D (\<lambda>z. view z ad)" "ad' \<noteq> ad \<Longrightarrow> keeps D (\<lambda>z. view z ad')"
    "\<exists>client. D = client blob \<and> cl_container C (account_endpoint cfg account) container auth = Inr client"
  using assms
  by (auto simp: build_backend_concrete_def blob_address_def intro: client_service client_keeps split: sum.splits)

lemma build_template_service:
  assumes "build_template_backend C cfg tmpl secrets z = Inr (S, a)"
  obtains ad where "template_address cfg tmpl secrets = Some ad" "az_world a = z" "az_snapshot a = tb_snapshot tmpl"
    "page_blob_service S (\<lambda>z. view z ad)" "\<And>ad'. ad' \<noteq> ad \<Longrightarrow> keeps S (\<lambda>z. view z ad')"
    "\<And>a rs a' c. list_page_ranges S a = (Inr (Some rs), a') \<Longrightarrow> view (az_world a) ad (az_snapshot a) = Some c \<Longrightarrow> map_covers rs c"
proof -
  obtain ep auth where t: "template_client cfg tmpl secrets = Inr (ep, auth)"
    using assms by (auto simp: build_template_backend_def split: sum.splits)
  with assms obtain client where c: "cl_container C ep (tb_container tmpl) auth = Inr client"
    by (auto simp: build_template_backend_def split: sum.splits)
  with assms t have "S = client (tb_blob tmpl)"
    "a = snapshot_if (tb_snapshot tmpl) (page_list_if (cl_pipeline C auth) (az_new z))"
    by (auto simp: build_template_backend_def)
  with t c show ?thesis
    by (intro that [of "(ep, tb_container tmpl, tb_blob tmpl)"])
       (auto simp: template_address_def intro: client_service client_keeps ranges_cover)
qed

lemma created_blob:
  assumes D: "page_blob_service D (\<lambda>z. view z ad)" "\<And>ad'. ad' \<noteq> ad \<Longrightarrow> keeps D (\<lambda>z. view z ad')"
    and sz: "0 < sz" "sz < u64_limit" and b: "az_snapshot b = None" "az_world b = z"
    and run: "az_create D b sz = (u, a)"
  shows "only_changes view ad z (az_world a) \<and> az_snapshot a = None \<and>
    (u = Inr () \<longrightarrow> (\<exists>c. view (az_world a) ad None = Some c \<and> length c = sz))"
proof -
  have "az_snapshot a = None" using az_snapshot_kept(6) [OF run] b by simp
  moreover have "only_changes view ad z (az_world a)"
    using az_create_keeps [OF D(2) run] b(2) by (simp add: only_changes_def)
  ultimately show ?thesis
    using page_blob_service.az_create_law [OF D(1) sz(2) run] sz(1)
    by (auto simp: az_content_def split: option.splits)
qed

text \<open>The two ends of a copy from one blob to another.\<close>

lemma copy_services:
  assumes S: "page_blob_service S (\<lambda>z. view z sad)" "\<And>ad'. ad' \<noteq> sad \<Longrightarrow> keeps S (\<lambda>z. view z ad')"
    and client: "cl_container C ep ct auth = Inr client"
    and ne: "sad \<noteq> (ep, ct, bl)" and url: "url_reads C view url sad snap"
    and tok: "\<And>auth z t z'. get_token auth z = (t, z') \<Longrightarrow> view z' = view z"
  shows "template_service S (\<lambda>z. view z sad) (client bl) (\<lambda>z. view z (ep, ct, bl)) url snap get_token"
proof (intro template_service.intro two_services.intro two_services_axioms.intro template_service_axioms.intro
    S(1) client_service [OF client], goal_cases)
  case 1
  show ?case using S(2) [of "(ep, ct, bl)"] ne by auto
next
  case 2
  show ?case using client_keeps [OF client ne] .
next
  case (3 z c len off l csa u z')
  with url_readsD [OF url client ne] show ?case by blast
next
  case (4 auth z t z')
  then show ?case using tok by simp
qed

text \<open>The copy into a fresh blob: it holds the template, and no other blob has changed.\<close>

lemma create_and_copy:
  assumes S: "page_blob_service S (\<lambda>z. view z sad)" "\<And>ad'. ad' \<noteq> sad \<Longrightarrow> keeps S (\<lambda>z. view z ad')"
    and maps: "\<And>a rs a' c. list_page_ranges S a = (Inr (Some rs), a') \<Longrightarrow> view (az_world a) sad (az_snapshot a) = Some c \<Longrightarrow>
      map_covers rs c"
    and a: "az_snapshot a = snap" "view (az_world a) sad snap = Some c" "n = length c"
    and client: "cl_container C ep ct auth = Inr client" and ne: "sad \<noteq> (ep, ct, bl)" and url: "url_reads C view url sad snap"
    and env: "\<And>js. mset (ce_order env js) = mset js" "\<And>auth z t z'. ce_token env auth z = (t, z') \<Longrightarrow> view z' = view z"
    and sz: "0 < sz" "sz < u64_limit" "n \<le> sz" and b: "az_snapshot b = None" "az_world b = az_world a"
    and create: "az_create (client bl) b sz = (u, b1)"
    and copy: "copy_template rc env S (client bl) url has_sas dest_auth n (a\<lparr>az_world := az_world b1\<rparr>, b1) = (v, w')"
  defines "ad \<equiv> (ep, ct, bl)"
  shows "only_changes view ad (az_world a) (az_world b1) \<and>
    (u = Inr () \<longrightarrow> only_changes view ad (az_world a) (az_world (snd w')) \<and>
       (v = Inr () \<longrightarrow> (\<exists>d. view (az_world (snd w')) ad None = Some d \<and> length d = sz \<and> take n d = c)))"
proof -
  note D = client_service [OF client, of bl, folded ad_def] client_keeps [OF client, of _ bl, folded ad_def]
  define w where "w = (a\<lparr>az_world := az_world b1\<rparr>, b1)"
  have cr: "only_changes view ad (az_world a) (az_world b1) \<and> az_snapshot b1 = None \<and>
    (u = Inr () \<longrightarrow> (\<exists>c. view (az_world b1) ad None = Some c \<and> length c = sz))"
    by (rule created_blob [OF D(1) _ sz(1,2) b create]) (rule D(2))
  have ts: "template_service S (\<lambda>z. view z sad) (client bl) (\<lambda>z. view z ad) url snap (ce_token env)"
    unfolding ad_def by (rule copy_services [OF S(1) _ client ne url]) (use S(2) env(2) in auto)
  have "view (az_world b1) sad = view (az_world a) sad"
    using only_changesD [OF conjunct1 [OF cr]] ne by (simp add: ad_def)
  then have w: "in_step w" "az_snapshot (fst w) = snap" "view (az_world (fst w)) sad snap = Some c"
    using cr a(1,2) by (auto simp: w_def in_step_def)
  have cov: "map_covers rs c" if "list_page_ranges S (fst w) = (Inr (Some rs), x)" for rs x
    using maps [OF that] w by simp
  have copied: "template_service.template_copied (\<lambda>z. view z sad) (\<lambda>z. view z ad) n w v w'"
    by (rule template_service.copy_template_copies [OF ts w a(3) _ _ refl copy [folded w_def]]) (use cov env(1) in auto)
  have seen: "unseen (\<lambda>z. view z ad') (view (az_world b1) ad') w'" if "ad' \<noteq> ad" for ad'
  proof (rule copy_template_unseen [OF _ D(2) [OF that] _ _ copy])
    show "reads_keep S (\<lambda>z. view z ad')" using S(2) [of ad'] own_reads [OF S(1)] by (cases "ad' = sad") auto
    show "unseen (\<lambda>z. view z ad') (view (az_world b1) ad') (a\<lparr>az_world := az_world b1\<rparr>, b1)" by (simp add: unseen_def)
  qed (use env(2) in auto)
  have "only_changes view ad (az_world a) (az_world (snd w'))"
    using seen cr by (intro only_changesI) (auto simp: unseen_def dest: only_changesD)
  moreover have "\<exists>d. view (az_world (snd w')) ad None = Some d \<and> length d = sz \<and> take n d = c"
    if created: "u = Inr ()" and ok: "v = Inr ()"
  proof -
    obtain d0 where d0: "view (az_world b1) ad None = Some d0" "length d0 = sz" using cr created by auto
    have "az_content (\<lambda>z. view z ad) (snd w) = d0" "az_content (\<lambda>z. view z sad) (fst w) = c"
      using d0 cr w by (auto simp: az_content_def w_def)
    with copied ok have "in_step w'" "az_content (\<lambda>z. view z ad) (snd w') = overwrite 0 (take n c) d0"
      unfolding template_service.template_copied_def [OF ts] by simp_all
    then have "view (az_world (snd w')) ad None = Some (overwrite 0 c d0)"
      using sz(1) d0(2) a(3) by (auto simp: az_content_def in_step_def overwrite_def split: option.splits)
    then show ?thesis using sz(3) d0(2) a(3) by (auto simp: buf_simps overwrite_def)
  qed
  ultimately show ?thesis using cr by blast
qed

lemma provision_copy_spec:
  assumes "volume_address cfg req = (account, container, blob)"
    and S: "page_blob_service S (\<lambda>z. view z sad)" "\<And>ad'. ad' \<noteq> sad \<Longrightarrow> keeps S (\<lambda>z. view z ad')"
    and maps: "\<And>a rs a' c. list_page_ranges S a = (Inr (Some rs), a') \<Longrightarrow> view (az_world a) sad (az_snapshot a) = Some c \<Longrightarrow>
      map_covers rs c"
    and a: "az_snapshot a = None" "view (az_world a) sad None = Some c" "n = length c"
    and sad: "sad \<noteq> blob_address cfg (account, container, blob)" and url: "url_reads C view url sad None"
    and env: "\<And>js. mset (ce_order env js) = mset js" "\<And>auth z t z'. ce_token env auth z = (t, z') \<Longrightarrow> view z' = view z"
    and n: "max n (requested_size req) \<le> u64_limit - 512"
    and run: "provision_copy C cfg rc env req url tmpl S n a = (r, z')"
  defines "ad \<equiv> blob_address cfg (account, container, blob)"
  shows "only_changes view ad (az_world a) z' \<and>
    (\<forall>sz. r = Inr sz \<longrightarrow> (\<exists>d. view z' ad None = Some d \<and> length d = sz \<and> sz = round_up_512 (max n (requested_size req)) \<and>
      take n d = c))"
proof (cases "build_backend_concrete C cfg account container blob (cr_secrets req) (az_world a)")
  case (Inl e)
  with run assms(1) show ?thesis by (auto simp: provision_copy_def only_changes_def)
next
  case (Inr built)
  obtain D b auth where b: "build_backend_concrete C cfg account container blob (cr_secrets req) (az_world a) = Inr (D, b, auth)"
    using Inr by (cases built) auto
  obtain client where client: "D = client blob" "cl_container C (account_endpoint cfg account) container auth = Inr client"
    and new: "b = az_new (az_world a)"
    using build_concrete_service [OF b] by blast
  define sz where "sz = round_up_512 (max n (requested_size req))"
  have sz: "0 < sz" "sz < u64_limit" "n \<le> sz" using round_up_512_spec [OF n] by (auto simp: sz_def round_up_512_def)
  obtain u b1 where u: "az_create (client blob) b sz = (u, b1)" by fastforce
  obtain v w' where v: "copy_template rc env S (client blob) url (tb_sas tmpl \<noteq> None) auth n (a\<lparr>az_world := az_world b1\<rparr>, b1) = (v, w')"
    by (metis surj_pair)
  have "only_changes view ad (az_world a) (az_world b1) \<and>
    (u = Inr () \<longrightarrow> only_changes view ad (az_world a) (az_world (snd w')) \<and>
       (v = Inr () \<longrightarrow> (\<exists>d. view (az_world (snd w')) ad None = Some d \<and> length d = sz \<and> take n d = c)))"
    unfolding ad_def blob_address_def prod.case
    by (rule create_and_copy [OF S(1) _ _ a client(2) _ url env sz _ _ u v])
       (use S(2) maps sad new in \<open>auto simp: blob_address_def\<close>)
  moreover have "(r, z') = (case u of Inl _ \<Rightarrow> (Inl (Internal ''create page blob''), az_world b1)
      | Inr _ \<Rightarrow> (case v of Inl _ \<Rightarrow> Inl (Internal ''copy template blob'') | Inr _ \<Rightarrow> Inr sz, az_world (snd w')))"
    using run assms(1) b u v client(1)
    by (auto simp: provision_copy_def sz_def [symmetric] split: sum.splits)
  ultimately show ?thesis by (cases u; cases v) (auto simp: sz_def)
qed

lemma finish_volume_spec:
  assumes "volume_address cfg req = (account, container, blob)" and "0 < sz" and "sz < u64_limit"
    and run: "finish_volume C cfg req sz from_template z = (r, z')"
  defines "ad \<equiv> blob_address cfg (account, container, blob)"
  shows "only_changes view ad z z' \<and> (from_template \<longrightarrow> z' = z) \<and>
    (\<forall>vol. r = Inr vol \<longrightarrow> vo_capacity_bytes vol = as_i64 sz \<and> vo_id vol = make_volume_id account container blob \<and>
       vo_context vol = volume_context cfg (account, container, blob) (cr_parameters req) sz from_template \<and>
       (from_template \<or> (\<exists>c. view z' ad None = Some c \<and> length c = sz)))"
proof (cases "build_backend C cfg account container blob (cr_secrets req) z")
  case (Inl e)
  with run assms(1) show ?thesis by (auto simp: finish_volume_def only_changes_def)
next
  case (Inr built)
  obtain D b where b: "build_backend C cfg account container blob (cr_secrets req) z = Inr (D, b)"
    using Inr by (cases built) auto
  note D = build_backend_service [OF b, folded ad_def]
  obtain u b1 where u: "az_create D (az_new z) sz = (u, b1)" by fastforce
  have "only_changes view ad z (az_world b1) \<and> az_snapshot b1 = None \<and>
    (u = Inr () \<longrightarrow> (\<exists>c. view (az_world b1) ad None = Some c \<and> length c = sz))"
    by (rule created_blob [OF D(2) _ assms(2,3) _ _ u]) (simp_all add: D(3))
  with run assms(1) b u D(1) show ?thesis
    by (cases u) (auto simp: finish_volume_def only_changes_def split: if_splits)
qed

lemma copy_then_finish:
  assumes S: "page_blob_service S (\<lambda>z. view z sad)" "\<And>ad'. ad' \<noteq> sad \<Longrightarrow> keeps S (\<lambda>z. view z ad')"
    and maps: "\<And>a rs a' c. list_page_ranges S a = (Inr (Some rs), a') \<Longrightarrow> view (az_world a) sad (az_snapshot a) = Some c \<Longrightarrow>
      map_covers rs c"
    and a: "az_snapshot a = None" "view (az_world a) = view z"
    and live: "live_template C view U cfg req z url sad src" and env: "copy_env_ok view env" and req: "i64_request req"
    and run: "(case provision_copy C cfg rc env req url tmpl S (length src) a of
        (Inl e, z2) \<Rightarrow> (Inl e, z2) | (Inr sz, z2) \<Rightarrow> finish_volume C cfg req sz True z2) = (r, z')"
  shows "cloned view cfg req src z r z'"
proof -
  obtain account container blob where v: "volume_address cfg req = (account, container, blob)"
    by (metis prod_cases3)
  define ad where "ad = blob_address cfg (account, container, blob)"
  define sz where "sz = round_up_512 (max (length src) (requested_size req))"
  have sad: "sad \<noteq> blob_address cfg (account, container, blob)" "view (az_world a) sad None = Some src"
    "length src \<le> u64_limit - 512" "url_reads C view url sad None"
    using live v a(2) unfolding live_template_def by auto
  have n: "max (length src) (requested_size req) \<le> u64_limit - 512"
    using sad(3) requested_size_bounds(2) [OF req] by (simp add: u64_limit_def)
  have sz: "0 < sz" "sz < u64_limit" using round_up_512_spec [OF n] by (auto simp: sz_def round_up_512_def)
  obtain q z2 where q: "provision_copy C cfg rc env req url tmpl S (length src) a = (q, z2)" by (metis surj_pair)
  have prov: "only_changes view ad z z2 \<and> (\<forall>k. q = Inr k \<longrightarrow>
      (\<exists>d. view z2 ad None = Some d \<and> length d = k \<and> k = sz \<and> take (length src) d = src))"
    using provision_copy_spec [OF v S maps a(1) sad(2) refl sad(1,4) _ _ n q] env a(2)
    unfolding copy_env_ok_def ad_def sz_def only_changes_def by simp
  show ?thesis
  proof (cases q)
    case (Inl e)
    with run q prov show ?thesis by (auto simp: cloned_def v ad_def)
  next
    case (Inr k)
    then have k: "k = sz" using prov by auto
    with run q Inr have fin: "finish_volume C cfg req sz True z2 = (r, z')" by simp
    from finish_volume_spec [OF v sz fin] have "z' = z2" by simp
    with finish_volume_spec [OF v sz fin] prov Inr k show ?thesis
      by (auto simp: cloned_def v ad_def [symmetric] sz_def [symmetric] Let_def)
  qed
qed

lemma create_from_template:
  assumes url: "cr_parameters req ''templateBlobUrl'' = Some url" "url \<noteq> []"
    and live: "live_template C view U cfg req z url sad src" and env: "copy_env_ok view env" and req: "i64_request req"
    and run: "create_volume C U cfg rc env req z = (r, z')"
  shows "cloned view cfg req src z r z'"
proof -
  obtain tmpl where t: "parse_blob_url U url = Inr tmpl" "tb_snapshot tmpl = None"
    "template_address cfg tmpl (cr_secrets req) = Some sad"
    using live unfolding live_template_def by blast
  have src: "view z sad None = Some src" using live unfolding live_template_def by blast
  have idle: "cloned view cfg req src z (Inl e) z1" if "view z1 = view z" for e z1
    using that by (simp add: cloned_def Let_def only_changes_def)
  note body = run [unfolded create_volume_def url(1) option.case t(1) sum.case if_not_P [OF url(2)]]
  show ?thesis
  proof (cases "cr_name req = []")
    case True
    with body idle show ?thesis by auto
  next
    case named: False
    show ?thesis
    proof (cases "build_template_backend C cfg tmpl (cr_secrets req) z")
      case (Inl e)
      with body named idle show ?thesis by auto
    next
      case (Inr built)
      obtain S a where b: "build_template_backend C cfg tmpl (cr_secrets req) z = Inr (S, a)"
        using Inr by (cases built) auto
      obtain k a1 where k: "az_size S a = (k, a1)" by fastforce
      from b show ?thesis
      proof (rule build_template_service, goal_cases)
        case (1 sad')
        with t have [simp]: "sad' = sad" by simp
        note S = 1 [simplified]
        have "view (az_world a1) ad' = view z ad'" for ad'
          using az_size_keeps [OF _ k, of "\<lambda>z. view z ad'"] S(5) [of ad'] own_reads [OF S(4)] S(2)
          by (cases "ad' = sad") auto
        then have a1: "az_snapshot a1 = None" "view (az_world a1) = view z"
          using az_snapshot_kept(7) [OF k] S(3) t(2) by auto
        show ?case
        proof (cases k)
          case (Inl e)
          with body named b k a1(2) idle show ?thesis by auto
        next
          case (Inr n)
          then have n: "n = length src"
            using page_blob_service.az_size_law [OF S(4) k] S(2,3) t(2) src by (simp add: az_content_def)
          show ?thesis
          proof (rule copy_then_finish [OF S(4) _ _ a1 live env req])
            show "(case provision_copy C cfg rc env req url tmpl S (length src) a1 of
                (Inl e, z2) \<Rightarrow> (Inl e, z2) | (Inr sz, z2) \<Rightarrow> finish_volume C cfg req sz True z2) = (r, z')"
              using body named b k Inr n t(2) by simp
          qed (use S(5,6) in auto)
        qed
      qed
    qed
  qed
qed

text \<open>A volume of its own, a volume on a snapshot, and the end of a volume.\<close>

lemma create_blank:
  assumes "cr_parameters req ''templateBlobUrl'' \<in> {None, Some []}" and req: "i64_request req"
    and v: "volume_address cfg req = (account, container, blob)"
    and run: "create_volume C U cfg rc env req z = (r, z')"
  defines "ad \<equiv> blob_address cfg (account, container, blob)"
  shows "only_changes view ad z z' \<and>
    (\<forall>vol. r = Inr vol \<longrightarrow> vo_capacity_bytes vol = as_i64 (requested_size req) \<and>
       vo_id vol = make_volume_id account container blob \<and>
       vo_context vol = volume_context cfg (account, container, blob) (cr_parameters req) (requested_size req) False \<and>
       (\<exists>c. view z' ad None = Some c \<and> length c = requested_size req))"
proof -
  have sz: "0 < requested_size req" "requested_size req < u64_limit"
    using requested_size_bounds [OF req] by (simp_all add: u64_limit_def)
  show ?thesis
  proof (cases "cr_name req = []")
    case True
    with run show ?thesis by (auto simp: create_volume_def only_changes_def)
  next
    case False
    with run assms(1) have "finish_volume C cfg req (requested_size req) False z = (r, z')"
      by (auto simp: create_volume_def)
    from finish_volume_spec [OF v sz this] show ?thesis by (simp add: ad_def)
  qed
qed

lemma create_on_snapshot:
  assumes url: "cr_parameters req ''templateBlobUrl'' = Some url" "url \<noteq> []"
    and t: "parse_blob_url U url = Inr tmpl" "tb_snapshot tmpl \<noteq> None"
    and run: "create_volume C U cfg rc env req z = (r, z')"
  shows "view z' = view z \<and>
    (\<forall>vol. r = Inr vol \<longrightarrow> vo_id vol = make_volume_id_ro (tb_account tmpl) (tb_container tmpl) (tb_blob tmpl) \<and>
       (\<exists>sad c. template_address cfg tmpl (cr_secrets req) = Some sad \<and> view z sad (tb_snapshot tmpl) = Some c \<and>
          vo_capacity_bytes vol = as_i64 (length c)))"
proof (cases "cr_name req = [] \<or> (\<exists>e. build_template_backend C cfg tmpl (cr_secrets req) z = Inl e)")
  case True
  with run [unfolded create_volume_def url(1) option.case t(1) sum.case if_not_P [OF url(2)]] show ?thesis
    by (auto split: if_splits)
next
  case False
  then obtain S a where named: "cr_name req \<noteq> []" and b: "build_template_backend C cfg tmpl (cr_secrets req) z = Inr (S, a)"
    by (metis old.prod.exhaust sum.exhaust)
  obtain k a1 where k: "az_size S a = (k, a1)" by fastforce
  from b show ?thesis
  proof (rule build_template_service, goal_cases)
    case (1 sad)
    have "view (az_world a1) ad' = view z ad'" for ad'
      using az_size_keeps [OF _ k, of "\<lambda>z. view z ad'"] 1(5) [of ad'] own_reads [OF 1(4)] 1(2)
      by (cases "ad' = sad") auto
    moreover have "n = length c \<and> view z sad (tb_snapshot tmpl) = Some c"
      if "k = Inr n" "c = az_content (\<lambda>z. view z sad) a" for n c
      using that k page_blob_service.properties_law [OF 1(4), of z "az_snapshot a"] 1(2,3)
      by (auto simp: az_size_def az_content_def blob_client_def split: sum.splits option.splits prod.splits if_splits)
    moreover have "(r, z') = (case k of Inl _ \<Rightarrow> (Inl (Internal ''stat template blob''), az_world a1)
        | Inr n \<Rightarrow> (Inr \<lparr>vo_capacity_bytes = as_i64 n,
            vo_id = make_volume_id_ro (tb_account tmpl) (tb_container tmpl) (tb_blob tmpl),
            vo_context = snapshot_context tmpl (cr_parameters req) n\<rparr>, az_world a1))"
      using run [unfolded create_volume_def url(1) option.case t(1) sum.case if_not_P [OF url(2)]] named b k t(2)
      by (auto split: sum.splits)
    ultimately show ?case using 1(1) by (cases k) auto
  qed
qed

lemma delete_own_volume:
  assumes "volume_name_ok account container blob" and "take 3 account \<noteq> ''ro:''"
    and run: "delete_volume C cfg (make_volume_id account container blob) secrets z = (r, z')"
  defines "ad \<equiv> blob_address cfg (account, container, blob)"
  shows "only_changes view ad z z' \<and> (r = Inr () \<longrightarrow> view z' ad None = None)"
proof -
  note id = parse_make_volume_id [OF assms(1,2)]
  have "make_volume_id account container blob \<noteq> []" by (simp add: make_volume_id_def)
  note body = run [unfolded delete_volume_def if_not_P [OF this] id]
  show ?thesis
  proof (cases "build_backend C cfg account container blob secrets z")
    case (Inl e)
    with body show ?thesis by (auto simp: only_changes_def)
  next
    case (Inr built)
    obtain D b where b: "build_backend C cfg account container blob secrets z = Inr (D, b)"
      using Inr by (cases built) auto
    note D = build_backend_service [OF b, folded ad_def]
    obtain u b1 where u: "az_delete D b = (u, b1)" by fastforce
    have "only_changes view ad z (az_world b1)"
      using az_delete_keeps [OF D(3) u] D(1) by (intro only_changesI) simp
    moreover have "view (az_world b1) ad None = None" if "u = Inr ()"
      using u that D(1) page_blob_service.delete_blob_law [OF D(2), of z]
      by (auto simp: az_delete_def http_status_def split: sum.splits prod.splits if_splits az_err.splits)
    ultimately show ?thesis using body b u by (auto split: sum.splits)
  qed
qed

lemma delete_snapshot_volume:
  assumes "volume_name_ok account container blob"
  shows "delete_volume C cfg (make_volume_id_ro account container blob) secrets z = (Inr (), z)"
  using parse_make_volume_id_ro [OF assms] by (simp add: delete_volume_def make_volume_id_ro_def RO_VOLUME_ID_PREFIX_def)

end

end
