(* ===== verification/Csi_Volumes.thy ===== *)
theory Csi_Volumes
  imports Csi_Controller Azure_Service
begin

text \<open>
  What the controller guarantees, with storage accounts to run it on: a map from addresses to simulated
  blobs, where the service resolves a copy source through a table of URLs.
\<close>

section \<open>Simulated storage accounts\<close>

type_synonym cloud_sim = "address \<Rightarrow> sim"

definition sim_at :: "address \<Rightarrow> (sim \<Rightarrow> 'r \<times> sim) \<Rightarrow> cloud_sim \<Rightarrow> 'r \<times> cloud_sim" where
  "sim_at ad f z = (case f (z ad) of (r, s) \<Rightarrow> (r, z(ad := s)))"

definition cloud_view :: "cloud_sim \<Rightarrow> address \<Rightarrow> string option \<Rightarrow> bytes option" where
  "cloud_view z ad = sim_view (z ad)"

definition sim_from_cloud ::
  "(string \<Rightarrow> address \<times> string option) \<Rightarrow> address \<Rightarrow> string \<Rightarrow> nat \<Rightarrow> nat \<Rightarrow> cloud_sim \<Rightarrow> unit azr \<times> cloud_sim" where
  "sim_from_cloud locate ad url off len z =
     (case locate url of (sad, s) \<Rightarrow>
        (case cloud_view z sad s of
           None \<Rightarrow> (Inl (HttpResponse 404), z)
         | Some c \<Rightarrow> sim_at ad (\<lambda>x. sim_request x (sim_from_url c off len)) z))"

definition sim_base :: "sim page_service" where
  "sim_base = sim_service [] []"

lemma sim_base_service: "page_blob_service sim_base sim_view"
  unfolding sim_base_def by (rule sim_store.page_blob_service_axioms)

definition sim_blob_client :: "(string \<Rightarrow> address \<times> string option) \<Rightarrow> address \<Rightarrow> cloud_sim page_service" where
  "sim_blob_client locate ad =
     \<lparr>sv_snapshot_ok = sv_snapshot_ok sim_base,
      sv_create_container = sim_at ad (sv_create_container sim_base),
      sv_properties = (\<lambda>z s. sim_at ad (\<lambda>x. sv_properties sim_base x s) z),
      sv_create = (\<lambda>z n l. sim_at ad (\<lambda>x. sv_create sim_base x n l) z),
      sv_download = (\<lambda>z s off len. sim_at ad (\<lambda>x. sv_download sim_base x s off len) z),
      sv_upload = (\<lambda>z l off d. sim_at ad (\<lambda>x. sv_upload sim_base x l off d) z),
      sv_clear = (\<lambda>z l off len. sim_at ad (\<lambda>x. sv_clear sim_base x l off len) z),
      sv_upload_from_url = (\<lambda>z l c url off len. sim_from_cloud locate ad url off len z),
      sv_delete = sim_at ad (sv_delete sim_base),
      sv_page_list = (\<lambda>z s m. sim_at ad (\<lambda>x. sv_page_list sim_base x s m) z),
      sv_nanos = (\<lambda>z. sv_nanos sim_base (z ad))\<rparr>"

definition sim_cloud :: "(string \<Rightarrow> address \<times> string option) \<Rightarrow> cloud_sim cloud" where
  "sim_cloud locate =
     \<lparr>cl_container = (\<lambda>ep ct auth. Inr (\<lambda>bl. sim_blob_client locate (ep, ct, bl))), cl_pipeline = (\<lambda>_. True)\<rparr>"

lemma sim_atE:
  assumes "sim_at ad f z = (r, z')"
  obtains s where "f (z ad) = (r, s)" "z' = z(ad := s)"
  using assms by (auto simp: sim_at_def split: prod.splits)

lemma cloud_view_upd [simp]: "cloud_view (z(ad := s)) ad = sim_view s" "ad' \<noteq> ad \<Longrightarrow> cloud_view (z(ad := s)) ad' = cloud_view z ad'"
  by (simp_all add: cloud_view_def)

lemma sim_at_keeps: "ad' \<noteq> ad \<Longrightarrow> cloud_view (snd (sim_at ad f z)) ad' = cloud_view z ad'"
  by (auto simp: sim_at_def split: prod.splits)

lemma pages_put_cloud:
  "pages_put sim_view off d (z ad) s \<Longrightarrow> pages_put (\<lambda>z. sim_view (z ad)) off d z (z(ad := s))"
  by (auto simp: pages_put_def)

lemma sim_client_service: "page_blob_service (sim_blob_client locate ad) (\<lambda>z. cloud_view z ad)"
proof (unfold_locales, goal_cases)
  case (1 z s c)
  then show ?case using page_blob_service.blob_size [OF sim_base_service, of "z ad"] by (simp add: cloud_view_def)
next
  case (2 z u z')
  then show ?case
    using page_blob_service.container_law [OF sim_base_service, of "z ad"]
    by (auto simp: sim_blob_client_def cloud_view_def elim!: sim_atE)
next
  case (3 z s p z')
  then show ?case
    using page_blob_service.properties_law [OF sim_base_service, of "z ad" s]
    by (auto simp: sim_blob_client_def cloud_view_def elim!: sim_atE)
next
  case (4 sz z l u z')
  then show ?case
    using page_blob_service.create_blob_law [OF sim_base_service, of sz "z ad" l]
    by (auto simp: sim_blob_client_def cloud_view_def elim!: sim_atE)
next
  case (5 len off z s r z')
  then show ?case
    using page_blob_service.download_law [OF sim_base_service, of len off "z ad" s]
    by (auto simp: sim_blob_client_def cloud_view_def elim!: sim_atE)
next
  case (6 d off z l t z')
  then obtain s where s: "sv_upload sim_base (z ad) l off d = (t, s)" "z' = z(ad := s)"
    by (auto simp: sim_blob_client_def elim!: sim_atE)
  from page_blob_service.upload_law [OF sim_base_service 6(1-3) s(1)] s(2) show ?case
    by (auto intro: pages_put_cloud simp: cloud_view_def)
next
  case (7 len off z l t z')
  then obtain s where s: "sv_clear sim_base (z ad) l off len = (t, s)" "z' = z(ad := s)"
    by (auto simp: sim_blob_client_def elim!: sim_atE)
  from page_blob_service.clear_pages_law [OF sim_base_service 7(1-3) s(1)] s(2) show ?case
    by (auto intro: pages_put_cloud simp: cloud_view_def)
next
  case (8 z s m pl z')
  then show ?case
    using page_blob_service.page_list_law [OF sim_base_service, of "z ad" s m]
    by (auto simp: sim_blob_client_def cloud_view_def elim!: sim_atE)
next
  case (9 z u z')
  then show ?case
    using page_blob_service.delete_blob_law [OF sim_base_service, of "z ad"]
    by (auto simp: sim_blob_client_def cloud_view_def elim!: sim_atE)
qed

lemma sim_client_keeps:
  assumes "ad' \<noteq> ad"
  shows "keeps (sim_blob_client locate ad) (\<lambda>z. cloud_view z ad')"
proof -
  note kept = sim_at_keeps [OF assms]
  have "cloud_view (snd (sim_from_cloud locate ad url off len z)) ad' = cloud_view z ad'" for url off len z
    by (auto simp: sim_from_cloud_def kept split: prod.splits option.splits)
  then show ?thesis by (simp add: keeps_def sim_blob_client_def kept)
qed

lemma sim_client_no_ranges: "list_page_ranges (sim_blob_client locate ad) a \<noteq> (Inr (Some rs), a')"
proof -
  have "sv_page_list (sim_blob_client locate ad) z s None = (Inl (HttpResponse 400), z)" for z s
    by (simp add: sim_blob_client_def sim_base_def sim_at_def sim_page_def)
  then show ?thesis
    by (simp add: list_page_ranges_def list_pages.simps)
qed

interpretation sim_accounts: blob_cloud "sim_cloud locate" cloud_view
proof (rule blob_cloud.intro, goal_cases)
  case (1 ep ct auth client bl)
  then show ?case using sim_client_service by (auto simp: sim_cloud_def)
next
  case (2 ep ct auth client ad bl)
  then show ?case by (auto simp: sim_cloud_def intro!: sim_client_keeps)
next
  case (3 ep ct auth client bl a rs a' c)
  then show ?case using sim_client_no_ranges by (auto simp: sim_cloud_def)
qed

text \<open>A copy source is read where the table of URLs says.\<close>

lemma sim_url_reads:
  assumes "locate url = (sad, s)"
  shows "url_reads (sim_cloud locate) cloud_view url sad s"
  unfolding url_reads_def
proof (intro allI impI, goal_cases)
  case (1 ep ct auth client bl z c off len l csa u z')
  let ?ad = "(ep, ct, bl)"
  have "client bl = sim_blob_client locate ?ad" using 1(1) by (auto simp: sim_cloud_def)
  with 1 assms have "sim_at ?ad (\<lambda>x. sim_request x (sim_from_url c off len)) z = (u, z')"
    by (simp add: sim_blob_client_def sim_from_cloud_def)
  then obtain x where x: "sim_request (z ?ad) (sim_from_url c off len) = (u, x)" "z' = z(?ad := x)"
    by (rule sim_atE)
  from sim_request_put [OF x(1) sim_from_url_pages] x(2) show ?case
    by (auto intro: pages_put_cloud simp: cloud_view_def)
qed

section \<open>Guarantees of the controller\<close>

lemma forward_params_other: "k \<notin> set ks \<Longrightarrow> forward_params ps ks ctx k = ctx k"
  by (induction ps ks ctx rule: forward_params.induct) (auto split: option.splits)

text \<open>No parameter of a storage class can change where the node finds the blob.\<close>

lemma volume_context_address:
  "volume_context cfg (account, container, blob) ps n ft ''account'' = Some account"
  "volume_context cfg (account, container, blob) ps n ft ''container'' = Some container"
  "volume_context cfg (account, container, blob) ps n ft ''blob'' = Some blob"
  "volume_context cfg (account, container, blob) ps n ft ''endpoint'' = Some (account_endpoint cfg account)"
  "volume_context cfg (account, container, blob) ps n ft ''size'' = Some (nat_to_string n)"
  by (simp_all add: volume_context_def forward_tuning_def TUNING_PARAMS_def forward_params_other Let_def del: forward_params.simps)

lemma volume_context_from_template:
  "volume_context cfg addr ps n ft ''fromTemplate'' = (if ft then Some ''true'' else None)"
  by (cases addr) (simp add: volume_context_def forward_tuning_def TUNING_PARAMS_def forward_params_other Let_def
      del: forward_params.simps)


text \<open>A driver with a shared key, a request, and a golden image in another account.\<close>

definition demo_driver :: driver_config where
  "demo_driver = \<lparr>dc_account = ''acct'', dc_endpoint = ''https://%s.store/'', dc_default_container = ''vols'',
     dc_account_key = Some ''key'', dc_use_msi = False, dc_msi_client_id = None, dc_use_workload_identity = False,
     dc_workload_identity_client_id = None, dc_workload_identity_tenant_id = None, dc_workload_identity_token_file = None,
     dc_sp_tenant_id = None, dc_sp_client_id = None, dc_sp_client_secret = None, dc_use_nbd = False, dc_nbd_host = [],
     dc_nbd_port_start = 0\<rparr>"

definition demo_request :: create_volume_request where
  "demo_request = \<lparr>cr_name = ''pv1'', cr_required_bytes = Some 1000,
     cr_parameters = [''templateBlobUrl'' \<mapsto> ''https://gold.store/images/base''], cr_secrets = Map.empty\<rparr>"

definition demo_url :: url_crate where
  "demo_url = \<lparr>uc_parse = (\<lambda>_. Inr \<lparr>pu_scheme = ''https'', pu_host = Some ''gold.store'', pu_port = None,
     pu_segments = Some [''images'', ''base''], pu_query = []\<rparr>), uc_query = (\<lambda>_. None)\<rparr>"

abbreviation gold_address :: address where
  "gold_address \<equiv> (''https://gold.store/'', ''images'', ''base'')"

abbreviation pv_address :: address where
  "pv_address \<equiv> (''https://acct.store/'', ''vols'', ''ublk-azblob-disk/pv1'')"

definition no_blob :: sim where
  "no_blob = \<lparr>sim_blob = None, sim_snaps = [], sim_tag = 0, sim_faults = []\<rparr>"

definition demo_world :: cloud_sim where
  "demo_world = (\<lambda>_. no_blob)(gold_address := no_blob\<lparr>sim_blob := Some golden_image\<rparr>)"

definition demo_cloud :: "cloud_sim cloud" where
  "demo_cloud = sim_cloud (\<lambda>_. (gold_address, None))"

definition demo_env :: "cloud_sim copy_env" where
  "demo_env = \<lparr>ce_chunk = None, ce_concurrency = None, ce_cpus = 8, ce_order = id, ce_token = (\<lambda>_ z. (Inl Panic, z))\<rparr>"

text \<open>The two ends of the copy from the image to the volume.\<close>

interpretation demo_pair: template_service "sim_blob_client (\<lambda>_. (gold_address, None)) gold_address" "\<lambda>z. cloud_view z gold_address"
    "sim_blob_client (\<lambda>_. (gold_address, None)) pv_address" "\<lambda>z. cloud_view z pv_address" rc url None "ce_token demo_env"
  for rc url
  by (rule sim_accounts.copy_services [OF sim_client_service _ _ _ sim_url_reads])
     (auto simp: sim_cloud_def demo_env_def intro: sim_client_keeps)

lemma demo_address: "volume_address demo_driver demo_request = (''acct'', ''vols'', ''ublk-azblob-disk/pv1'')"
  by code_simp

lemma demo_endpoint: "account_endpoint demo_driver ''acct'' = ''https://acct.store/''"
  "account_endpoint demo_driver ''gold'' = ''https://gold.store/''"
  by code_simp+

lemma demo_parse: "parse_blob_url demo_url ''https://gold.store/images/base'' =
    Inr \<lparr>tb_service_url = ''https://gold.store'', tb_account = ''gold'', tb_container = ''images'', tb_blob = ''base'',
         tb_snapshot = None, tb_sas = None\<rparr>"
  by code_simp

definition demo_created :: cloud_sim where
  "demo_created = demo_world(pv_address := no_blob\<lparr>sim_blob := Some (zeros 1024)\<rparr>)"

lemma golden_length [simp]: "length golden_image = 1024"
  by (simp add: golden_image_def)

lemma demo_blobs:
  "demo_world gold_address = no_blob\<lparr>sim_blob := Some golden_image\<rparr>" "demo_world pv_address = no_blob"
  "demo_created gold_address = no_blob\<lparr>sim_blob := Some golden_image\<rparr>"
  "demo_created pv_address = no_blob\<lparr>sim_blob := Some (zeros 1024)\<rparr>"
  by (simp_all add: demo_world_def demo_created_def)

lemma sim_view_demo:
  "sim_view (no_blob\<lparr>sim_blob := Some c\<rparr>) None = page_aligned (Some c)" "sim_view no_blob s = None"
  "sim_faults no_blob = []" "sim_faults (no_blob\<lparr>sim_blob := b\<rparr>) = []"
  by (auto simp: no_blob_def sim_view_def page_aligned_def split: option.splits)

lemma demo_size:
  "az_size (sim_blob_client locate gold_address) (page_list_if ok (az_new demo_world)) =
     (Inr 1024, page_list_if ok (az_new demo_world))"
  by (simp add: az_size_def blob_client_def sim_blob_client_def sim_base_def sim_at_def sim_request_def demo_blobs
      sim_properties_def sim_view_demo page_aligned_def u64_limit_def fun_upd_idem)

lemma demo_create:
  "az_create (sim_blob_client locate pv_address) (az_new demo_world) 1024 = (Inr (), az_new demo_created)"
  by (simp add: az_create_def is_multiple_of_def sim_blob_client_def sim_base_def sim_at_def sim_request_def demo_blobs
      sim_properties_def sim_view_demo http_status_def fun_upd_idem az_new_def demo_created_def)

lemma with_retry_at_once: "f z = (Inr v, z') \<Longrightarrow> with_retry cfg nanos f z = (Inr v, z', [])"
  by (simp add: with_retry_def retry_loop.simps)

definition demo_source :: "cloud_sim azure" where
  "demo_source = (page_list_if True (az_new demo_world))\<lparr>az_world := demo_created\<rparr>"

lemma demo_ranges: "\<exists>e. list_page_ranges (sim_blob_client locate gold_address) demo_source = (Inl e, demo_source)"
  by (simp add: list_page_ranges_def demo_source_def page_list_if_def with_page_list_def list_pages.simps
      sim_blob_client_def sim_base_def sim_at_def sim_page_def demo_blobs fun_upd_idem)

lemma demo_read:
  "az_read rc (sim_blob_client locate gold_address) demo_source 0 1024 = (Inr golden_image, demo_source)"
proof -
  have "sv_download (sim_blob_client locate gold_address) demo_created None 0 1024 = (Inr golden_image, demo_created)"
    by (simp add: sim_blob_client_def sim_base_def sim_at_def sim_request_def sim_download_def demo_blobs sim_view_demo
        page_aligned_def u64_limit_def fun_upd_idem segment_def)
  from with_retry_at_once [of "\<lambda>z. sv_download (sim_blob_client locate gold_address) z None 0 1024", OF this]
  show ?thesis
    by (simp add: az_read_def is_multiple_of_def blob_client_def demo_source_def)
qed

definition demo_copied :: cloud_sim where
  "demo_copied = demo_created(pv_address := no_blob\<lparr>sim_blob := Some golden_image, sim_tag := 1\<rparr>)"

lemma demo_write:
  "\<exists>t. az_write rc (sim_blob_client locate pv_address) (az_new demo_created) 0 golden_image =
     (Inr (), (az_new demo_copied)\<lparr>az_last_etag := t\<rparr>)"
proof -
  have "sim_tag no_blob = 0" by (simp add: no_blob_def)
  then have "\<exists>t. sv_upload (sim_blob_client locate pv_address) demo_created None 0 golden_image = (Inr t, demo_copied)"
    by (simp add: sim_blob_client_def sim_base_def sim_at_def sim_request_def sim_put_def demo_blobs sim_view_demo
        page_aligned_def u64_limit_def demo_copied_def overwrite_def)
  then obtain t where "sv_upload (sim_blob_client locate pv_address) demo_created None 0 golden_image = (Inr t, demo_copied)" ..
  from with_retry_at_once [of "\<lambda>z. sv_upload (sim_blob_client locate pv_address) z None 0 golden_image", OF this]
  show ?thesis
    by (auto simp: az_write_def is_multiple_of_def record_etag_def az_new_def)
qed

lemma demo_copy:
  "\<exists>w. copy_template rc demo_env (sim_blob_client locate gold_address) (sim_blob_client locate pv_address) url False
     (SharedKey a k) 1024 (demo_source, az_new demo_created) = (Inr (), w)"
proof -
  obtain e where e: "list_page_ranges (sim_blob_client locate gold_address) demo_source = (Inl e, demo_source)"
    using demo_ranges by blast
  obtain t where t: "az_write rc (sim_blob_client locate pv_address) (az_new demo_created) 0 golden_image =
     (Inr (), (az_new demo_copied)\<lparr>az_last_etag := t\<rparr>)" using demo_write by blast
  have w: "az_world demo_source = demo_created" by (simp add: demo_source_def)
  have same: "(az_new demo_created)\<lparr>az_world := demo_created\<rparr> = az_new demo_created"
    "demo_source\<lparr>az_world := demo_created\<rparr> = demo_source" by (simp_all add: az_new_def demo_source_def)
  have big: "min (copy_chunk_bytes None) 1024 = 1024" by (simp add: copy_chunk_bytes_def MAX_PAGE_REQUEST_BYTES_def)
  show ?thesis
    by (simp add: copy_template_def source_reader_def dest_writer_def azure_backend_def at_source_def at_dest_def e w same
        storage_bearer_token_def has_token_credential_def copy_blob_streamed_def stream_chunks.simps big demo_env_def
        demo_read t az_flush_def)
qed

lemma demo_auth:
  "select_driver_auth demo_driver account Map.empty = Inr (SharedKey account ''key'')"
  by (simp add: select_driver_auth_def demo_driver_def or_else_def)

lemma demo_requested: "requested_size demo_request = 1024" "i64_request demo_request"
  by (simp_all add: requested_size_def demo_request_def i64_request_def round_up_512_def div_ceil_def u64_limit_def)

lemma demo_succeeds: "\<exists>vol z'. create_volume demo_cloud demo_url demo_driver rc demo_env demo_request demo_world = (Inr vol, z')"
proof -
  have req: "cr_name demo_request = ''pv1''" "cr_secrets demo_request = Map.empty"
    "cr_parameters demo_request ''templateBlobUrl'' = Some ''https://gold.store/images/base''"
    by (simp_all add: demo_request_def)
  have sz: "round_up_512 1024 = 1024" by (simp add: round_up_512_def div_ceil_def u64_limit_def)
  obtain w where "copy_template rc demo_env (sim_blob_client (\<lambda>_. (gold_address, None)) gold_address)
      (sim_blob_client (\<lambda>_. (gold_address, None)) pv_address) ''https://gold.store/images/base'' False
      (SharedKey ''acct'' ''key'') 1024 (demo_source, az_new demo_created) = (Inr (), w)"
    using demo_copy by blast
  then show ?thesis
    by (simp add: create_volume_def req demo_parse build_template_backend_def template_client_def demo_auth demo_endpoint
        demo_cloud_def sim_cloud_def snapshot_if_def demo_size provision_copy_def demo_address demo_requested sz
        build_backend_concrete_def demo_create demo_source_def finish_volume_def build_backend_def)
qed


section \<open>The life of a volume\<close>

text \<open>The snapshot template of a request, if it has one.\<close>

definition mounted_snapshot :: "url_crate \<Rightarrow> create_volume_request \<Rightarrow> template_blob_ref option" where
  "mounted_snapshot U req =
     (case cr_parameters req ''templateBlobUrl'' of
        None \<Rightarrow> None
      | Some url \<Rightarrow>
          if url = [] then None
          else (case parse_blob_url U url of
                  Inl _ \<Rightarrow> None
                | Inr t \<Rightarrow> if tb_snapshot t \<noteq> None then Some t else None))"

lemma finish_volume_id:
  "finish_volume C cfg req sz ft z = (Inr vol, z') \<Longrightarrow> volume_address cfg req = (account, container, blob) \<Longrightarrow>
   vo_id vol = make_volume_id account container blob"
  by (auto simp: finish_volume_def split: sum.splits prod.splits if_splits)

lemma create_volume_id:
  assumes "create_volume C U cfg rc env req z = (Inr vol, z')" and "volume_address cfg req = (account, container, blob)"
  shows "vo_id vol = (case mounted_snapshot U req of
      Some t \<Rightarrow> make_volume_id_ro (tb_account t) (tb_container t) (tb_blob t)
    | None \<Rightarrow> make_volume_id account container blob)"
  using assms
  by (auto simp: create_volume_def mounted_snapshot_def finish_volume_id
      split: sum.splits prod.splits if_splits option.splits)

text \<open>
  C22: Deleting a volume by the id it was given when it was created hits exactly what was created: a volume on a shared
  snapshot is left as it is, and else the blob of the volume is gone when the call succeeds and no
  other blob changes in any case. The names must not be empty, nor contain a slash (account and
  container), nor begin with the marker of a read-only volume.
\<close>

theorem delete_volume_exact:
  assumes "blob_cloud C view" and "create_volume C U cfg rc env req z0 = (Inr vol, z1)"
    and "volume_address cfg req = (account, container, blob)"
    and "case mounted_snapshot U req of
           Some t \<Rightarrow> volume_name_ok (tb_account t) (tb_container t) (tb_blob t)
         | None \<Rightarrow> volume_name_ok account container blob \<and> take 3 account \<noteq> ''ro:''"
    and "delete_volume C cfg (vo_id vol) secrets z = (r, z')"
    and "ad = blob_address cfg (account, container, blob)"
  shows "if mounted_snapshot U req \<noteq> None then r = Inr () \<and> z' = z
    else only_changes view ad z z' \<and> (r = Inr () \<longrightarrow> view z' ad None = None)"
proof (cases "mounted_snapshot U req")
  case (Some t)
  with create_volume_id [OF assms(2,3)] assms(4,5) blob_cloud.delete_snapshot_volume [OF assms(1)] show ?thesis
    by auto
next
  case None
  with create_volume_id [OF assms(2,3)] assms(4,5)
    blob_cloud.delete_own_volume [OF assms(1), of account container blob cfg secrets z r z'] assms(6)
  show ?thesis by auto
qed

theorem delete_volume_exact_witness:
  "\<exists>vol z1 r z2. create_volume demo_cloud demo_url demo_driver retry_config_default demo_env demo_request demo_world = (Inr vol, z1) \<and>
     delete_volume demo_cloud demo_driver (vo_id vol) Map.empty z1 = (r, z2) \<and>
     only_changes cloud_view pv_address z1 z2"
proof -
  obtain vol z1 where run: "create_volume demo_cloud demo_url demo_driver retry_config_default demo_env demo_request demo_world = (Inr vol, z1)"
    using demo_succeeds by blast
  obtain r z2 where del: "delete_volume demo_cloud demo_driver (vo_id vol) Map.empty z1 = (r, z2)"
    by (metis surj_pair)
  have cloud: "blob_cloud demo_cloud cloud_view"
    unfolding demo_cloud_def by (rule sim_accounts.blob_cloud_axioms)
  have own: "mounted_snapshot demo_url demo_request = None"
    by (simp add: mounted_snapshot_def demo_request_def demo_parse)
  have ad: "blob_address demo_driver (''acct'', ''vols'', ''ublk-azblob-disk/pv1'') = pv_address"
    by (simp add: blob_address_def demo_endpoint)
  from delete_volume_exact [OF cloud run demo_address _ del ad [symmetric]] own run del show ?thesis
    by (auto simp: volume_name_ok_def)
qed

end
