(* ===== verification/Csi_Mount.thy ===== *)
theory Csi_Mount
  imports Csi_Controller
begin

text \<open>
  The node-side helpers of the CSI driver (\<open>csi/mount.rs\<close>): device discovery, formatting, checking,
  mounting and unmounting, the overlay directories, and the record of a published volume that a
  restarted plugin reads back. The operating system (commands, processes, files, the clock) is the
  parameter \<open>os\<close>; a polling loop is a \<open>partial_function\<close> whose value \<open>None\<close> means that it never ends.
\<close>

section \<open>The operating system\<close>

record cmd_output =
  co_code :: "int option"
  co_stdout :: string
  co_stderr :: string

definition cmd_success :: "cmd_output \<Rightarrow> bool" where
  "cmd_success out = (co_code out = Some 0)"

text \<open>
  What the plugin asks of the system, over a state \<open>'o\<close>. Times are in milliseconds. \<open>os_hash_next\<close> is the
  element a hash set yields first, \<open>os_try_wait\<close> is \<open>Child::try_wait\<close> (a status once the child has
  exited), \<open>os_kill\<close> is \<open>kill(2)\<close>, \<open>os_command\<close> runs a program to its end.
\<close>

record 'o os =
  os_now :: "'o \<Rightarrow> nat"
  os_sleep :: "nat \<Rightarrow> 'o \<Rightarrow> 'o"
  os_var :: "string \<Rightarrow> 'o \<Rightarrow> string option"
  os_hash_next :: "string list \<Rightarrow> 'o \<Rightarrow> string option"
  os_bind :: "string \<Rightarrow> nat \<Rightarrow> 'o \<Rightarrow> bool"
  os_resolve :: "string \<Rightarrow> nat \<Rightarrow> 'o \<Rightarrow> (string list) res"
  os_connect :: "string \<Rightarrow> 'o \<Rightarrow> bool \<times> 'o"
  os_read_dir :: "string \<Rightarrow> 'o \<Rightarrow> (string list) res"
  os_exists :: "string \<Rightarrow> 'o \<Rightarrow> bool"
  os_is_dir :: "string \<Rightarrow> 'o \<Rightarrow> bool res"
  os_create_dir_all :: "string \<Rightarrow> 'o \<Rightarrow> unit res \<times> 'o"
  os_remove_dir_all :: "string \<Rightarrow> 'o \<Rightarrow> unit res \<times> 'o"
  os_read_to_string :: "string \<Rightarrow> 'o \<Rightarrow> string res"
  os_write :: "string \<Rightarrow> string \<Rightarrow> 'o \<Rightarrow> unit res \<times> 'o"
  os_rename :: "string \<Rightarrow> string \<Rightarrow> 'o \<Rightarrow> unit res \<times> 'o"
  os_remove_file :: "string \<Rightarrow> 'o \<Rightarrow> unit res \<times> 'o"
  os_spawn :: "string list \<Rightarrow> (string \<times> string) list \<Rightarrow> 'o \<Rightarrow> nat res \<times> 'o"
  os_try_wait :: "nat \<Rightarrow> 'o \<Rightarrow> (int option) option res \<times> 'o"
  os_wait :: "nat \<Rightarrow> 'o \<Rightarrow> (int option) res \<times> 'o"
  os_kill :: "nat \<Rightarrow> nat \<Rightarrow> 'o \<Rightarrow> bool \<times> 'o"
  os_command :: "string \<Rightarrow> string list \<Rightarrow> 'o \<Rightarrow> cmd_output res \<times> 'o"

text \<open>The operator \<open>?\<close> on an effectful result.\<close>

definition try_then :: "'a res \<times> 'o \<Rightarrow> ('a \<Rightarrow> 'o \<Rightarrow> 'b res \<times> 'o) \<Rightarrow> 'b res \<times> 'o" where
  "try_then r f = (case r of (Inl e, w) \<Rightarrow> (Inl e, w) | (Inr x, w) \<Rightarrow> f x w)"

lemma try_then_simps [simp]:
  "try_then (Inl e, w) f = (Inl e, w)" "try_then (Inr x, w) f = f x w"
  by (simp_all add: try_then_def)

lemma try_then_Inr:
  "try_then r f = (Inr y, w') \<longleftrightarrow> (\<exists>x w. r = (Inr x, w) \<and> f x w = (Inr y, w'))"
  by (auto simp: try_then_def split: prod.splits sum.splits)

section \<open>Paths\<close>

text \<open>
  \<open>Path::parent\<close> returns a prefix of the path: the last component goes, and with it trailing
  separators and \<open>.\<close> components, except a leading \<open>.\<close> of a relative path.
\<close>

definition strip_tail :: "bool \<Rightarrow> string list \<Rightarrow> string list" where
  "strip_tail absolute segs =
     (if absolute then rev (dropWhile (\<lambda>s. s = [] \<or> s = ''.'') (rev segs))
      else (case segs of
              [] \<Rightarrow> []
            | s # ss \<Rightarrow>
                (case rev (dropWhile (\<lambda>s. s = [] \<or> s = ''.'') (rev ss)) of
                   [] \<Rightarrow> (if s = [] then [] else [s])
                 | ss' \<Rightarrow> s # ss')))"

definition path_parent :: "string \<Rightarrow> string option" where
  "path_parent p =
     (let absolute = (p \<noteq> [] \<and> hd p = CHR ''/'');
          segs = strip_tail absolute (if absolute then tl (split_on (CHR ''/'') p) else split_on (CHR ''/'') p)
      in if segs = [] then None
         else Some ((if absolute then ''/'' else []) @ join (CHR ''/'') (strip_tail absolute (butlast segs))))"

text \<open>\<open>Path::join\<close>.\<close>

definition path_join :: "string \<Rightarrow> string \<Rightarrow> string" where
  "path_join base name =
     (if name \<noteq> [] \<and> hd name = CHR ''/'' then name
      else if base = [] \<or> last base = CHR ''/'' then base @ name
      else base @ ''/'' @ name)"

definition parent_or_root :: "string \<Rightarrow> string" where
  "parent_or_root p = (case path_parent p of Some d \<Rightarrow> d | None \<Rightarrow> ''/'')"

section \<open>Ports and devices\<close>

fun probe_ports :: "(nat \<Rightarrow> bool) \<Rightarrow> nat \<Rightarrow> nat \<Rightarrow> nat \<Rightarrow> nat option" where
  "probe_ports free start offset 0 = None"
| "probe_ports free start offset (Suc left) =
     (if \<not> start + offset < 65536 then None
      else if free (start + offset) then Some (start + offset)
      else probe_ports free start (offset + 1) left)"

definition find_free_port :: "'o os \<Rightarrow> string \<Rightarrow> nat \<Rightarrow> nat \<Rightarrow> 'o \<Rightarrow> nat res" where
  "find_free_port OS host start span w =
     (case probe_ports (\<lambda>port. os_bind OS host port w) start 0 span of
        Some port \<Rightarrow> Inr port
      | None \<Rightarrow> Inl (IoErr ''no free NBD port''))"

definition numbered :: "string \<Rightarrow> string \<Rightarrow> bool" where
  "numbered pre name =
     (case strip_prefix pre name of
        Some rest \<Rightarrow> rest \<noteq> [] \<and> list_all is_digit rest
      | None \<Rightarrow> False)"

definition list_ublk_devices :: "'o os \<Rightarrow> 'o \<Rightarrow> string list" where
  "list_ublk_devices OS w =
     (case os_read_dir OS ''/dev'' w of
        Inr names \<Rightarrow> map (\<lambda>name. ''/dev/'' @ name) (filter (numbered ''ublkb'') names)
      | Inl _ \<Rightarrow> [])"

definition list_available_nbd_devices :: "'o os \<Rightarrow> 'o \<Rightarrow> string list" where
  "list_available_nbd_devices OS w =
     (case os_read_dir OS ''/dev'' w of
        Inr names \<Rightarrow>
          map (\<lambda>name. ''/dev/'' @ name)
            (filter (\<lambda>name. numbered ''nbd'' name \<and> \<not> os_exists OS (''/sys/block/'' @ name @ ''/pid'') w) names)
      | Inl _ \<Rightarrow> [])"

definition spawn_device ::
  "'o os \<Rightarrow> nat \<Rightarrow> (string \<times> string) list \<Rightarrow> string option \<Rightarrow> 'o \<Rightarrow> nat res \<times> 'o" where
  "spawn_device OS size_bytes env nbd_listen w =
     os_spawn OS ([''run'', ''--size'', nat_to_string size_bytes] @
                  (case nbd_listen of Some listen \<Rightarrow> [''--nbd'', listen] | None \<Rightarrow> [])) env w"

partial_function (option) poll_new_device ::
  "'o os \<Rightarrow> string list \<Rightarrow> nat \<Rightarrow> nat \<Rightarrow> 'o \<Rightarrow> (string res \<times> 'o) option" where
  "poll_new_device OS before child deadline w =
     (if \<not> os_now OS w < deadline then Some (Inl Timeout, w)
      else
        (case os_hash_next OS (filter (\<lambda>d. d \<notin> set before) (list_ublk_devices OS w)) w of
           Some dev \<Rightarrow> Some (Inr dev, w)
         | None \<Rightarrow>
             (case os_try_wait OS child w of
                (Inr (Some status), w') \<Rightarrow> Some (Inl (IoErr ''ublk-azblob exited before a device appeared''), w')
              | (_, w') \<Rightarrow> poll_new_device OS before child deadline (os_sleep OS 250 w'))))"

definition wait_for_new_device ::
  "'o os \<Rightarrow> string list \<Rightarrow> nat \<Rightarrow> nat \<Rightarrow> 'o \<Rightarrow> (string res \<times> 'o) option" where
  "wait_for_new_device OS before child timeout w =
     poll_new_device OS before child (os_now OS w + timeout) w"

text \<open>The readiness loop ends without an error when the deadline passes.\<close>

partial_function (option) poll_nbd_server ::
  "'o os \<Rightarrow> string \<Rightarrow> nat \<Rightarrow> nat \<Rightarrow> 'o \<Rightarrow> (unit res \<times> 'o) option" where
  "poll_nbd_server OS addr child deadline w =
     (if \<not> os_now OS w < deadline then Some (Inr (), w)
      else
        (case os_try_wait OS child (os_sleep OS 200 w) of
           (Inr (Some status), w') \<Rightarrow>
             Some (Inl (IoErr ''ublk-azblob NBD server exited before connecting''), w')
         | (_, w') \<Rightarrow>
             (case os_connect OS addr w' of
                (ready, w'') \<Rightarrow>
                  if ready then Some (Inr (), w'') else poll_nbd_server OS addr child deadline w'')))"

definition nbd_device_size :: "'o os \<Rightarrow> string \<Rightarrow> 'o \<Rightarrow> nat \<times> 'o" where
  "nbd_device_size OS dev w =
     (if os_exists OS dev w
      then (case os_command OS ''blockdev'' [''--getsize64'', dev] w of
              (Inr out, w') \<Rightarrow>
                (if cmd_success out
                 then ((case parse_uint u64_limit (trim (co_stdout out)) of Some n \<Rightarrow> n | None \<Rightarrow> 0), w')
                 else (0, w'))
            | (Inl _, w') \<Rightarrow> (0, w'))
      else (0, w))"

partial_function (option) poll_nbd_size ::
  "'o os \<Rightarrow> string \<Rightarrow> nat \<Rightarrow> 'o \<Rightarrow> (string res \<times> 'o) option" where
  "poll_nbd_size OS dev deadline w =
     (if \<not> os_now OS w < deadline then Some (Inl Timeout, w)
      else
        (case nbd_device_size OS dev w of
           (n, w') \<Rightarrow>
             if 0 < n then Some (Inr dev, w')
             else poll_nbd_size OS dev deadline (os_sleep OS 250 w')))"

text \<open>The address of the server: one host, one port, resolved.\<close>

definition nbd_address :: "'o os \<Rightarrow> string \<Rightarrow> 'o \<Rightarrow> (string \<times> string \<times> string) res" where
  "nbd_address OS nbd_listen w =
     (case split_on (CHR '':'') nbd_listen of
        [host, port] \<Rightarrow>
          (case parse_uint 65536 port of
             None \<Rightarrow> Inl (IoErr ''invalid NBD port in listen address'')
           | Some port_num \<Rightarrow>
               (case os_resolve OS host port_num w of
                  Inl e \<Rightarrow> Inl (IoErr ''resolve NBD listen address'')
                | Inr [] \<Rightarrow> Inl (IoErr ''no address resolved for NBD listen address'')
                | Inr (addr # _) \<Rightarrow> Inr (host, port, addr)))
      | _ \<Rightarrow> Inl (IoErr ''invalid NBD listen address''))"

definition connect_nbd_device ::
  "'o os \<Rightarrow> string \<Rightarrow> string \<Rightarrow> nat \<Rightarrow> nat \<Rightarrow> 'o \<Rightarrow> (string res \<times> 'o) option" where
  "connect_nbd_device OS host port child deadline w =
     (case os_try_wait OS child w of
        (Inr (Some status), w') \<Rightarrow>
          Some (Inl (IoErr ''ublk-azblob NBD server exited before connecting''), w')
      | (_, w') \<Rightarrow>
          (case os_hash_next OS (list_available_nbd_devices OS w') w' of
             None \<Rightarrow> Some (Inl (IoErr ''no available /dev/nbd* devices''), w')
           | Some nbd_dev \<Rightarrow>
               (case os_command OS ''nbd-client'' [host, port, nbd_dev, ''-L''] w' of
                  (Inl e, w'') \<Rightarrow> Some (Inl (IoErr ''failed to run nbd-client''), w'')
                | (Inr out, w'') \<Rightarrow>
                    if \<not> cmd_success out then Some (Inl (IoErr ''nbd-client failed''), w'')
                    else poll_nbd_size OS nbd_dev deadline w'')))"

definition wait_and_connect_nbd ::
  "'o os \<Rightarrow> string \<Rightarrow> nat \<Rightarrow> nat \<Rightarrow> 'o \<Rightarrow> (string res \<times> 'o) option" where
  "wait_and_connect_nbd OS nbd_listen child timeout w =
     (case nbd_address OS nbd_listen w of
        Inl e \<Rightarrow> Some (Inl e, w)
      | Inr (host, port, addr) \<Rightarrow>
          (let deadline = os_now OS w + timeout in
           case poll_nbd_server OS addr child deadline w of
             None \<Rightarrow> None
           | Some (Inl e, w') \<Rightarrow> Some (Inl e, w')
           | Some (Inr _, w') \<Rightarrow> connect_nbd_device OS host port child deadline w'))"

partial_function (option) poll_pid_exit ::
  "'o os \<Rightarrow> nat \<Rightarrow> nat \<Rightarrow> 'o \<Rightarrow> (bool \<times> 'o) option" where
  "poll_pid_exit OS pid deadline w =
     (if \<not> os_now OS w < deadline then Some (case os_kill OS pid 0 w of (alive, w') \<Rightarrow> (\<not> alive, w'))
      else
        (case os_kill OS pid 0 w of
           (alive, w') \<Rightarrow>
             if \<not> alive then Some (True, w') else poll_pid_exit OS pid deadline (os_sleep OS 100 w')))"

definition wait_pid_exit :: "'o os \<Rightarrow> nat \<Rightarrow> nat \<Rightarrow> 'o \<Rightarrow> (bool \<times> 'o) option" where
  "wait_pid_exit OS pid timeout w = poll_pid_exit OS pid (os_now OS w + timeout) w"

definition SIGINT :: nat where
  "SIGINT = 2"

definition signal_pid :: "'o os \<Rightarrow> nat \<Rightarrow> nat \<Rightarrow> 'o \<Rightarrow> 'o" where
  "signal_pid OS pid sig w = snd (os_kill OS pid sig w)"

section \<open>Running commands\<close>

definition run_cmd :: "'o os \<Rightarrow> string \<Rightarrow> string list \<Rightarrow> 'o \<Rightarrow> unit res \<times> 'o" where
  "run_cmd OS cmd args w =
     try_then (os_command OS cmd args w)
       (\<lambda>out w'. if cmd_success out then (Inr (), w') else (Inl (IoErr ''command failed''), w'))"

definition has_filesystem :: "'o os \<Rightarrow> string \<Rightarrow> 'o \<Rightarrow> bool \<times> 'o" where
  "has_filesystem OS dev w =
     (case os_command OS ''blkid'' [dev] w of
        (Inr out, w') \<Rightarrow> (cmd_success out, w')
      | (Inl _, w') \<Rightarrow> (False, w'))"

record fs_profile_t =
  mkfs_options :: "(string list) option"
  mount_options :: "string list"

definition fs_profile :: "string \<Rightarrow> fs_profile_t" where
  "fs_profile fs_type =
     (if fs_type \<in> {''ext2'', ''ext3'', ''ext4''}
      then \<lparr>mkfs_options = Some [''-F'', ''-E'', ''nodiscard,lazy_itable_init=1,lazy_journal_init=1''],
             mount_options = []\<rparr>
      else if fs_type = ''xfs'' then \<lparr>mkfs_options = Some [''-f''], mount_options = []\<rparr>
      else if fs_type = ''btrfs'' then \<lparr>mkfs_options = Some [''-f''], mount_options = []\<rparr>
      else if fs_type \<in> {''squashfs'', ''zfs'', ''ntfs''} then \<lparr>mkfs_options = None, mount_options = []\<rparr>
      else \<lparr>mkfs_options = None, mount_options = []\<rparr>)"

definition mkfs :: "'o os \<Rightarrow> string \<Rightarrow> string \<Rightarrow> 'o \<Rightarrow> unit res \<times> 'o" where
  "mkfs OS dev fs_type w =
     (case mkfs_options (fs_profile fs_type) of
        None \<Rightarrow> (Inl (IoErr ''filesystem type does not support mkfs''), w)
      | Some options \<Rightarrow> run_cmd OS (''mkfs.'' @ fs_type) (options @ [dev]) w)"

datatype fsck_mode =
    FsckOff
  | FsckPreen
  | FsckForce

definition fsck_mode_parse :: "string \<Rightarrow> fsck_mode res" where
  "fsck_mode_parse text =
     (let v = map ascii_lower (trim text) in
      if v \<in> {[], ''false'', ''off'', ''no'', ''none'', ''0''} then Inr FsckOff
      else if v \<in> {''true'', ''auto'', ''preen'', ''yes'', ''on'', ''1''} then Inr FsckPreen
      else if v \<in> {''force'', ''full''} then Inr FsckForce
      else Inl (IoErr ''invalid fsck value''))"

definition fsck :: "'o os \<Rightarrow> string \<Rightarrow> string \<Rightarrow> fsck_mode \<Rightarrow> 'o \<Rightarrow> unit res \<times> 'o" where
  "fsck OS dev fs_type mode w =
     (let check = (\<lambda>args. try_then (os_command OS ''fsck'' args w)
            (\<lambda>out w'. if co_code out = Some 0 \<or> co_code out = Some 1 then (Inr (), w')
                      else (Inl (IoErr ''fsck failed''), w')))
      in case mode of
           FsckOff \<Rightarrow> (Inr (), w)
         | FsckPreen \<Rightarrow> check [''-t'', fs_type, ''-a'', dev]
         | FsckForce \<Rightarrow> check [''-t'', fs_type, ''-f'', ''-y'', dev])"

section \<open>Mounting\<close>

definition mount_args :: "string \<Rightarrow> string \<Rightarrow> string \<Rightarrow> string list \<Rightarrow> bool \<Rightarrow> string list" where
  "mount_args dev target fs_type mount_flags readonly =
     (let options = mount_flags;
          options = (if readonly
                     then (let options = options @ [''ro''] in
                           if fs_type \<in> {''ext2'', ''ext3'', ''ext4''} \<and> ''noload'' \<notin> set options
                           then options @ [''noload''] else options)
                     else options)
      in [''-t'', fs_type] @ (if options \<noteq> [] then [''-o'', join (CHR '','') options] else []) @ [dev, target])"

definition mount :: "'o os \<Rightarrow> string \<Rightarrow> string \<Rightarrow> string \<Rightarrow> string list \<Rightarrow> bool \<Rightarrow> 'o \<Rightarrow> unit res \<times> 'o" where
  "mount OS dev target fs_type mount_flags readonly w =
     try_then (os_create_dir_all OS target w)
       (\<lambda>_ w'. run_cmd OS ''mount'' (mount_args dev target fs_type mount_flags readonly) w')"

definition umount :: "'o os \<Rightarrow> string \<Rightarrow> 'o \<Rightarrow> unit res \<times> 'o" where
  "umount OS target w =
     (if \<not> os_exists OS target w then (Inr (), w)
      else try_then (os_command OS ''umount'' [target] w)
             (\<lambda>out w'. if cmd_success out then (Inr (), w')
                       else if str_contains ''not mounted'' (co_stderr out) \<or>
                               str_contains ''not currently mounted'' (co_stderr out)
                       then (Inr (), w')
                       else (Inl (IoErr ''umount failed''), w')))"

record overlay_dirs_t =
  od_lower :: string
  od_upper :: string
  od_work :: string
  od_scratch_root :: "string option"

definition sanitize_component :: "string \<Rightarrow> string" where
  "sanitize_component s =
     map (\<lambda>ch. if ascii_alphanumeric ch \<or> ch = CHR ''-'' \<or> ch = CHR ''_'' then ch else CHR ''_'') s"

definition overlay_dirs :: "string \<Rightarrow> string option \<Rightarrow> string \<Rightarrow> overlay_dirs_t" where
  "overlay_dirs target scratch_base volume_id =
     (let sibling = (\<lambda>name. path_join (parent_or_root target) name);
          lower = sibling ''.ublk-overlay-lower''
      in case scratch_base of
           Some base \<Rightarrow>
             (let root = path_join base (sanitize_component volume_id)
              in \<lparr>od_lower = lower, od_upper = path_join root ''upper'', od_work = path_join root ''work'',
                  od_scratch_root = Some root\<rparr>)
         | None \<Rightarrow>
             \<lparr>od_lower = lower, od_upper = sibling ''.ublk-overlay-upper'',
              od_work = sibling ''.ublk-overlay-work'', od_scratch_root = None\<rparr>)"

text \<open>Removals whose outcome is ignored (\<open>let _ =\<close>, or a warning).\<close>

fun remove_dirs :: "'o os \<Rightarrow> string list \<Rightarrow> 'o \<Rightarrow> 'o" where
  "remove_dirs OS [] w = w"
| "remove_dirs OS (d # ds) w = remove_dirs OS ds (snd (os_remove_dir_all OS d w))"

fun create_dirs :: "'o os \<Rightarrow> string list \<Rightarrow> 'o \<Rightarrow> unit res \<times> 'o" where
  "create_dirs OS [] w = (Inr (), w)"
| "create_dirs OS (d # ds) w = try_then (os_create_dir_all OS d w) (\<lambda>_ w'. create_dirs OS ds w')"

definition overlay_opts :: "overlay_dirs_t \<Rightarrow> string" where
  "overlay_opts dirs =
     ''lowerdir='' @ od_lower dirs @ '',upperdir='' @ od_upper dirs @ '',workdir='' @ od_work dirs"

definition mount_overlay ::
  "'o os \<Rightarrow> string \<Rightarrow> string \<Rightarrow> string \<Rightarrow> string list \<Rightarrow> overlay_dirs_t \<Rightarrow> 'o \<Rightarrow> unit res \<times> 'o" where
  "mount_overlay OS dev target fs_type mount_flags dirs w =
     try_then (create_dirs OS [od_lower dirs, od_upper dirs, od_work dirs]
                 (remove_dirs OS [od_upper dirs, od_work dirs] w))
       (\<lambda>_ w. try_then (mount OS dev (od_lower dirs) fs_type mount_flags True w)
         (\<lambda>_ w. try_then (os_create_dir_all OS target w)
           (\<lambda>_ w. case run_cmd OS ''mount'' [''-t'', ''overlay'', ''overlay'', ''-o'', overlay_opts dirs, target] w of
                     (Inl e, w') \<Rightarrow> (Inl e, snd (umount OS (od_lower dirs) w'))
                   | (Inr _, w') \<Rightarrow> (Inr (), w'))))"

definition umount_overlay :: "'o os \<Rightarrow> string \<Rightarrow> overlay_dirs_t \<Rightarrow> 'o \<Rightarrow> unit res \<times> 'o" where
  "umount_overlay OS target dirs w =
     try_then (umount OS target w)
       (\<lambda>_ w. try_then (umount OS (od_lower dirs) w)
         (\<lambda>_ w. (Inr (), remove_dirs OS ([od_upper dirs, od_work dirs, od_lower dirs] @
                              (case od_scratch_root dirs of Some root \<Rightarrow> [root] | None \<Rightarrow> [])) w)))"

section \<open>The record of a published volume\<close>

record volume_meta =
  vm_volume_id :: string
  vm_device :: string
  vm_pid :: nat
  vm_nbd :: bool
  vm_overlay :: "overlay_dirs_t option"

definition VOLUME_META_NAME :: string where
  "VOLUME_META_NAME = ''.ublk-volume-meta''"

definition meta_path :: "string \<Rightarrow> string" where
  "meta_path target = path_join (parent_or_root target) VOLUME_META_NAME"

text \<open>\<open>with_extension\<close> appends: the name has no dot but the leading one, which starts no extension.\<close>

definition meta_tmp_path :: "string \<Rightarrow> string" where
  "meta_tmp_path target = meta_path target @ ''.tmp''"

definition meta_line :: "string \<Rightarrow> string \<Rightarrow> string" where
  "meta_line k v = k @ [CHR 0x09] @ v @ [CHR 0x0A]"

definition bool_text :: "bool \<Rightarrow> string" where
  "bool_text b = (if b then ''true'' else ''false'')"

definition volume_meta_serialize :: "volume_meta \<Rightarrow> string" where
  "volume_meta_serialize m =
     meta_line ''volume_id'' (vm_volume_id m) @ meta_line ''device'' (vm_device m) @
     meta_line ''pid'' (nat_to_string (vm_pid m)) @ meta_line ''nbd'' (bool_text (vm_nbd m)) @
     (case vm_overlay m of
        Some ov \<Rightarrow>
          meta_line ''overlay'' ''true'' @ meta_line ''lower'' (od_lower ov) @
          meta_line ''upper'' (od_upper ov) @ meta_line ''work'' (od_work ov) @
          (case od_scratch_root ov of Some root \<Rightarrow> meta_line ''scratch_root'' root | None \<Rightarrow> [])
      | None \<Rightarrow> meta_line ''overlay'' ''false'')"

fun meta_fields :: "string list \<Rightarrow> params \<Rightarrow> params" where
  "meta_fields [] m = m"
| "meta_fields (line # ls) m =
     meta_fields ls (case split_once (CHR 0x09) line of Some (k, v) \<Rightarrow> m(trim k \<mapsto> v) | None \<Rightarrow> m)"

definition parse_overlay :: "params \<Rightarrow> overlay_dirs_t option option" where
  "parse_overlay m =
     (if m ''overlay'' = Some ''true''
      then (case (m ''lower'', m ''upper'', m ''work'') of
              (Some lower, Some upper, Some work) \<Rightarrow>
                Some (Some \<lparr>od_lower = lower, od_upper = upper, od_work = work,
                            od_scratch_root = m ''scratch_root''\<rparr>)
            | _ \<Rightarrow> None)
      else Some None)"

definition volume_meta_parse :: "string \<Rightarrow> volume_meta option" where
  "volume_meta_parse text =
     (let m = meta_fields (str_lines text) Map.empty in
      case (m ''volume_id'', m ''device'', Option.bind (m ''pid'') (parse_uint u32_limit)) of
        (Some volume_id, Some device, Some pid) \<Rightarrow>
          map_option (\<lambda>overlay. \<lparr>vm_volume_id = volume_id, vm_device = device, vm_pid = pid,
                                 vm_nbd = (m ''nbd'' = Some ''true''), vm_overlay = overlay\<rparr>)
            (parse_overlay m)
      | _ \<Rightarrow> None)"

definition write_volume_meta :: "'o os \<Rightarrow> string \<Rightarrow> volume_meta \<Rightarrow> 'o \<Rightarrow> unit res \<times> 'o" where
  "write_volume_meta OS target m w =
     try_then (os_write OS (meta_tmp_path target) (volume_meta_serialize m) w)
       (\<lambda>_ w'. os_rename OS (meta_tmp_path target) (meta_path target) w')"

definition read_volume_meta :: "'o os \<Rightarrow> string \<Rightarrow> 'o \<Rightarrow> volume_meta option" where
  "read_volume_meta OS target w =
     (case os_read_to_string OS (meta_path target) w of
        Inr text \<Rightarrow> volume_meta_parse text
      | Inl _ \<Rightarrow> None)"

definition remove_volume_meta :: "'o os \<Rightarrow> string \<Rightarrow> 'o \<Rightarrow> 'o" where
  "remove_volume_meta OS target w = snd (os_remove_file OS (meta_path target) w)"

section \<open>The mount table\<close>

record mount_entry =
  me_mountpoint :: string
  me_fstype :: string
  me_source :: string
  me_super_opts :: string

text \<open>\<open>str::split_whitespace\<close>.\<close>

fun white_tokens :: "string \<Rightarrow> string \<Rightarrow> string list" where
  "white_tokens acc [] = (if acc = [] then [] else [acc])"
| "white_tokens acc (c # s) =
     (if is_whitespace c then (if acc = [] then white_tokens [] s else acc # white_tokens [] s)
      else white_tokens (acc @ [c]) s)"

definition split_whitespace :: "string \<Rightarrow> string list" where
  "split_whitespace s = white_tokens [] s"

fun position :: "'a \<Rightarrow> 'a list \<Rightarrow> nat option" where
  "position x [] = None"
| "position x (y # ys) = (if y = x then Some 0 else map_option Suc (position x ys))"

definition parse_mount_line :: "string \<Rightarrow> mount_entry option" where
  "parse_mount_line line =
     (let toks = split_whitespace line in
      case position ''-'' toks of
        None \<Rightarrow> None
      | Some sep \<Rightarrow>
          if length toks < 5 \<or> sep + 3 \<ge> length toks then None
          else Some \<lparr>me_mountpoint = toks ! 4, me_fstype = toks ! (sep + 1), me_source = toks ! (sep + 2),
                     me_super_opts = toks ! (sep + 3)\<rparr>)"

definition parse_mountinfo :: "string \<Rightarrow> mount_entry list" where
  "parse_mountinfo content = List.map_filter parse_mount_line (str_lines content)"

definition ends_with :: "string \<Rightarrow> string \<Rightarrow> bool" where
  "ends_with suf s = (length suf \<le> length s \<and> drop (length s - length suf) s = suf)"

definition starts_with :: "string \<Rightarrow> string \<Rightarrow> bool" where
  "starts_with pre s = (take (length pre) s = pre)"

definition is_our_target :: "mount_entry \<Rightarrow> bool" where
  "is_our_target e =
     (\<not> ends_with ''/.ublk-overlay-lower'' (me_mountpoint e) \<and>
      (me_fstype e = ''overlay'' \<and> str_contains ''/.ublk-overlay-lower'' (me_super_opts e) \<or>
       starts_with ''/dev/nbd'' (me_source e) \<or> starts_with ''/dev/ublkb'' (me_source e)))"

definition our_target_mounts :: "mount_entry list \<Rightarrow> string list" where
  "our_target_mounts es = map me_mountpoint (filter is_our_target es)"

definition scan_our_targets :: "'o os \<Rightarrow> 'o \<Rightarrow> string list" where
  "scan_our_targets OS w =
     (case os_read_to_string OS ''/proc/self/mountinfo'' w of
        Inr content \<Rightarrow> our_target_mounts (parse_mountinfo content)
      | Inl _ \<Rightarrow> [])"

end
