(* ===== verification/Csi_Node.thy ===== *)
theory Csi_Node
  imports Csi_Mount
begin

text \<open>
  The node service of the CSI driver (\<open>csi/node.rs\<close>): \<open>NodePublishVolume\<close> starts the process that serves
  the device of a volume, formats the device when it is blank and mounts it; \<open>NodeUnpublishVolume\<close>
  unmounts it and stops the process; \<open>recover\<close> finds the volumes again after a restart of the plugin.
  The environment of the process carries the address and the credentials of the blob.
\<close>

section \<open>Context values\<close>

definition nonempty_opt :: "string option \<Rightarrow> string option" where
  "nonempty_opt v = (case v of Some s \<Rightarrow> if s = [] then None else Some s | None \<Rightarrow> None)"

definition truthy :: "string \<Rightarrow> bool" where
  "truthy v = (map ascii_lower v \<in> {''true'', ''1'', ''yes''})"

definition ctx_flag :: "params \<Rightarrow> string \<Rightarrow> bool" where
  "ctx_flag ctx k = (case ctx k of Some v \<Rightarrow> truthy v | None \<Rightarrow> False)"

definition DEFAULT_FS_TYPE :: string where
  "DEFAULT_FS_TYPE = ''ext4''"

definition DEVICE_TIMEOUT :: nat where
  "DEVICE_TIMEOUT = 60000"

fun split_any :: "char set \<Rightarrow> string \<Rightarrow> string list" where
  "split_any cs [] = [[]]"
| "split_any cs (x # xs) =
     (if x \<in> cs then [] # split_any cs xs
      else (case split_any cs xs of [] \<Rightarrow> [[x]] | p # ps \<Rightarrow> (x # p) # ps))"

definition split_opts :: "string \<Rightarrow> string list" where
  "split_opts opts =
     filter (\<lambda>s. s \<noteq> []) (map trim (split_any {CHR '','', CHR '' '', CHR 0x09, CHR 0x0A} opts))"

definition tuning_env :: "params \<Rightarrow> (string \<times> string) list" where
  "tuning_env ctx =
     List.map_filter (\<lambda>(ctx_key, env_key). map_option (\<lambda>v. (env_key, v)) (nonempty_opt (ctx ctx_key))) TUNING_PARAMS"

definition cache_share_pages :: "params \<Rightarrow> string option \<Rightarrow> bool" where
  "cache_share_pages ctx inherited =
     (case or_else (nonempty_opt (ctx ''cacheSharePages'')) (nonempty_opt inherited) of
        Some v \<Rightarrow> truthy v | None \<Rightarrow> False)"

section \<open>The environment of the device process\<close>

definition child_blob_url ::
  "url_crate \<Rightarrow> string \<Rightarrow> string \<Rightarrow> string \<Rightarrow> string \<Rightarrow> string option \<Rightarrow> string" where
  "child_blob_url U endpoint account container blob snapshot =
     (let base = trim_end_matches ''/'' (str_replace ''%s'' account endpoint);
          account_in_host =
            (case uc_parse U (base @ ''/'') of
               Inr u \<Rightarrow> (case pu_host u of Some h \<Rightarrow> is_subdomain_host h | None \<Rightarrow> False)
             | Inl _ \<Rightarrow> False);
          account_in_path = account \<in> set (split_on (CHR ''/'') base);
          url = (if account_in_host \<or> account_in_path then base @ ''/'' @ container @ ''/'' @ blob
                 else base @ ''/'' @ account @ ''/'' @ container @ ''/'' @ blob)
      in case snapshot of Some s \<Rightarrow> url @ ''?snapshot='' @ s | None \<Rightarrow> url)"

definition opt_env :: "string \<Rightarrow> string option \<Rightarrow> (string \<times> string) list" where
  "opt_env k v = (case v of Some x \<Rightarrow> [(k, x)] | None \<Rightarrow> [])"

definition auth_env :: "driver_config \<Rightarrow> params \<Rightarrow> ((string \<times> string) list) res" where
  "auth_env cfg secrets =
     (case or_else (secrets ''accountKey'') (dc_account_key cfg) of
        Some key \<Rightarrow> Inr [(''AZURE_STORAGE_KEY'', key)]
      | None \<Rightarrow>
          if dc_use_workload_identity cfg
          then Inr ([(''AZURE_USE_WORKLOAD_IDENTITY'', ''1'')] @
                    opt_env ''AZURE_CLIENT_ID'' (dc_workload_identity_client_id cfg) @
                    opt_env ''AZURE_TENANT_ID'' (dc_workload_identity_tenant_id cfg) @
                    opt_env ''AZURE_FEDERATED_TOKEN_FILE'' (dc_workload_identity_token_file cfg))
          else if dc_use_msi cfg \<or> dc_msi_client_id cfg \<noteq> None
          then Inr ([(''AZURE_USE_MSI'', ''1'')] @ opt_env ''AZURE_MSI_CLIENT_ID'' (dc_msi_client_id cfg))
          else
            (case (or_else (secrets ''AZURE_TENANT_ID'') (dc_sp_tenant_id cfg),
                   or_else (secrets ''AZURE_CLIENT_ID'') (dc_sp_client_id cfg),
                   or_else (secrets ''AZURE_CLIENT_SECRET'') (dc_sp_client_secret cfg)) of
               (Some tenant, Some client, Some secret) \<Rightarrow>
                 Inr [(''AZURE_TENANT_ID'', tenant), (''AZURE_CLIENT_ID'', client), (''AZURE_CLIENT_SECRET'', secret)]
             | _ \<Rightarrow> Inl (IoErr ''no auth configured for node publish'')))"

definition coordination_env :: "string \<Rightarrow> params \<Rightarrow> string option \<Rightarrow> (string \<times> string) list" where
  "coordination_env node_id ctx pod_namespace =
     (if ctx_flag ctx ''coordination''
      then [(''UBLK_COORDINATION'', ''1''), (''UBLK_LEASE_HOLDER'', node_id)] @
           opt_env ''UBLK_LEASE_NAMESPACE'' (nonempty_opt (or_else (ctx ''leaseNamespace'') pod_namespace)) @
           opt_env ''UBLK_RECOVERY_TIMEOUT_SECS'' (nonempty_opt (ctx ''recoveryTimeoutSecs'')) @
           opt_env ''UBLK_LEASE_DURATION_SECS'' (nonempty_opt (ctx ''leaseDurationSecs''))
      else [])"

text \<open>\<open>getenv\<close> reads the plugin's own environment.\<close>

definition child_env ::
  "url_crate \<Rightarrow> string \<Rightarrow> driver_config \<Rightarrow> (string \<Rightarrow> string option) \<Rightarrow> params \<Rightarrow> params \<Rightarrow> string \<Rightarrow>
   ((string \<times> string) list) res" where
  "child_env U node_id cfg getenv ctx secrets volume_id =
     (let account = param_or ctx ''account'' (dc_account cfg);
          endpoint = param_or ctx ''endpoint'' (dc_endpoint cfg);
          container = param_or ctx ''container'' (dc_default_container cfg)
      in case ctx ''blob'' of
           None \<Rightarrow> Inl (IoErr ''volume context missing blob'')
         | Some blob \<Rightarrow>
             (let blob_url = child_blob_url U endpoint account container blob (nonempty_opt (ctx ''snapshot''))
              in case auth_env cfg secrets of
                   Inl e \<Rightarrow> Inl e
                 | Inr auth \<Rightarrow>
                     Inr ([(''UBLK_BLOB_URL'', blob_url)] @ auth @
                          coordination_env node_id ctx (getenv ''POD_NAMESPACE'') @
                          opt_env ''AZURE_STORAGE_SAS'' (nonempty_opt (ctx ''sasToken'')) @
                          tuning_env ctx @
                          (if cache_share_pages ctx (getenv ''UBLK_CACHE_SHARE_PAGES'')
                           then [(''UBLK_CACHE_INSTANCE'', volume_id)] else []))))"

section \<open>State and recovery\<close>

record published =
  pb_child :: "nat option"
  pb_pid :: nat
  pb_device :: string
  pb_target :: string
  pb_overlay :: "overlay_dirs_t option"

type_synonym volumes = "string \<rightharpoonup> published"

record node_service =
  ns_node_id :: string
  ns_config :: driver_config
  ns_volumes :: volumes

definition node_new :: "string \<Rightarrow> driver_config \<Rightarrow> node_service" where
  "node_new node_id cfg = \<lparr>ns_node_id = node_id, ns_config = cfg, ns_volumes = Map.empty\<rparr>"

fun readopt_targets :: "'o os \<Rightarrow> string list \<Rightarrow> 'o \<Rightarrow> volumes \<times> nat \<Rightarrow> volumes \<times> nat" where
  "readopt_targets OS [] w (vols, adopted) = (vols, adopted)"
| "readopt_targets OS (target # ts) w (vols, adopted) =
     (case read_volume_meta OS target w of
        None \<Rightarrow> readopt_targets OS ts w (vols, adopted)
      | Some m \<Rightarrow>
          if vols (vm_volume_id m) \<noteq> None then readopt_targets OS ts w (vols, adopted)
          else readopt_targets OS ts w
                 (vols(vm_volume_id m \<mapsto>
                    \<lparr>pb_child = None, pb_pid = vm_pid m, pb_device = vm_device m, pb_target = target,
                     pb_overlay = vm_overlay m\<rparr>), adopted + 1))"

definition recover :: "'o os \<Rightarrow> 'o \<Rightarrow> node_service \<Rightarrow> node_service" where
  "recover OS w ns =
     (let targets = scan_our_targets OS w in
      if targets = [] then ns
      else ns\<lparr>ns_volumes := fst (readopt_targets OS targets w (ns_volumes ns, 0))\<rparr>)"

section \<open>NodePublishVolume\<close>

datatype access_type =
    MountAccess string "string list"
  | BlockAccess

record publish_request =
  pr_volume_id :: string
  pr_target_path :: string
  pr_context :: params
  pr_secrets :: params
  pr_capability :: "access_type option option"
  pr_readonly :: bool

record publish_plan =
  pp_fs_type :: string
  pp_mount_flags :: "string list"
  pp_size :: nat
  pp_env :: "(string \<times> string) list"
  pp_readonly :: bool
  pp_overlay :: "overlay_dirs_t option"
  pp_from_template :: bool
  pp_fsck :: fsck_mode

definition context_fs_type :: "params \<Rightarrow> string" where
  "context_fs_type ctx =
     (case or_else (nonempty_opt (ctx ''templateBlobFsType''))
             (or_else (nonempty_opt (ctx ''newBlobFsType'')) (nonempty_opt (ctx ''fsType''))) of
        Some t \<Rightarrow> t | None \<Rightarrow> DEFAULT_FS_TYPE)"

text \<open>The filesystem and the mount flags of a request.\<close>

definition fs_and_flags :: "publish_request \<Rightarrow> csi_status + string \<times> string list" where
  "fs_and_flags req =
     (let ctx = pr_context req; fs_type = context_fs_type ctx;
          requested =
            (case pr_capability req of
               Some (Some (MountAccess m_fs m_flags)) \<Rightarrow> Inr (if m_fs \<noteq> [] then m_fs else fs_type, m_flags)
             | Some (Some BlockAccess) \<Rightarrow> Inl (InvalidArgument ''raw block volumes are not supported'')
             | _ \<Rightarrow> Inr (fs_type, []))
      in case requested of
           Inl s \<Rightarrow> Inl s
         | Inr (fs, flags) \<Rightarrow>
             (let over = (case ctx ''templateBlobMountArgsOverwrite'' of Some opts \<Rightarrow> split_opts opts | None \<Rightarrow> [])
              in Inr (fs, flags @ (if over \<noteq> [] then over else mount_options (fs_profile fs)))))"

definition device_read_only :: "publish_request \<Rightarrow> bool" where
  "device_read_only req = (nonempty_opt (pr_context req ''snapshot'') \<noteq> None)"

definition plan_overlay :: "'o os \<Rightarrow> 'o \<Rightarrow> publish_request \<Rightarrow> csi_status + overlay_dirs_t option" where
  "plan_overlay OS w req =
     (let ctx = pr_context req in
      if ctx_flag ctx ''overlay'' \<and> \<not> device_read_only req
      then Inl (InvalidArgument ''overlay is only supported for read-only snapshot volumes'')
      else if ctx_flag ctx ''overlay''
      then (let scratch_base = nonempty_opt (ctx ''overlayScratchDir'') in
            case scratch_base of
              None \<Rightarrow> Inr (Some (overlay_dirs (pr_target_path req) None (pr_volume_id req)))
            | Some base \<Rightarrow>
                (case os_is_dir OS base w of
                   Inl _ \<Rightarrow> Inl (InvalidArgument ''overlayScratchDir is not accessible on this node'')
                 | Inr False \<Rightarrow> Inl (InvalidArgument ''overlayScratchDir is not a directory'')
                 | Inr True \<Rightarrow> Inr (Some (overlay_dirs (pr_target_path req) (Some base) (pr_volume_id req)))))
      else Inr None)"

definition make_plan ::
  "url_crate \<Rightarrow> 'o os \<Rightarrow> node_service \<Rightarrow> publish_request \<Rightarrow> 'o \<Rightarrow> csi_status + publish_plan" where
  "make_plan U OS ns req w =
     (let ctx = pr_context req in
      case fs_and_flags req of
        Inl s \<Rightarrow> Inl s
      | Inr (fs_type, flags) \<Rightarrow>
          (case child_env U (ns_node_id ns) (ns_config ns) (\<lambda>k. os_var OS k w) ctx (pr_secrets req)
                  (pr_volume_id req) of
             Inl e \<Rightarrow> Inl (InvalidArgument ''child environment'')
           | Inr env \<Rightarrow>
               (case plan_overlay OS w req of
                  Inl s \<Rightarrow> Inl s
                | Inr overlay \<Rightarrow>
                    (case fsck_mode_parse (param_or ctx ''fsck'' []) of
                       Inl e \<Rightarrow> Inl (InvalidArgument ''invalid fsck value'')
                     | Inr mode \<Rightarrow>
                         Inr \<lparr>pp_fs_type = fs_type, pp_mount_flags = flags,
                              pp_size = (case Option.bind (ctx ''size'') (parse_uint u64_limit) of
                                           Some n \<Rightarrow> n | None \<Rightarrow> 0),
                              pp_env = env, pp_readonly = (pr_readonly req \<or> device_read_only req),
                              pp_overlay = overlay, pp_from_template = ctx_flag ctx ''fromTemplate'',
                              pp_fsck = mode\<rparr>))))"

definition stop_child :: "'o os \<Rightarrow> nat \<Rightarrow> 'o \<Rightarrow> 'o" where
  "stop_child OS pid w = snd (os_wait OS pid (signal_pid OS pid SIGINT w))"

text \<open>The part under the publish lock: the process is started and its device found.\<close>

definition attach_device ::
  "'o os \<Rightarrow> driver_config \<Rightarrow> publish_plan \<Rightarrow> 'o \<Rightarrow> ((nat \<times> string) res \<times> 'o) option" where
  "attach_device OS cfg plan w =
     (case (if dc_use_nbd cfg
            then (case find_free_port OS (dc_nbd_host cfg) (dc_nbd_port_start cfg) 1024 w of
                    Inl e \<Rightarrow> Inl e
                  | Inr port \<Rightarrow> Inr (Some (dc_nbd_host cfg @ '':'' @ nat_to_string port)))
            else Inr None) of
        Inl e \<Rightarrow> Some (Inl e, w)
      | Inr nbd_listen \<Rightarrow>
          (let ublk_before = (if nbd_listen = None then list_ublk_devices OS w else []) in
           case spawn_device OS (pp_size plan) (pp_env plan) nbd_listen w of
             (Inl e, w) \<Rightarrow> Some (Inl e, w)
           | (Inr child, w) \<Rightarrow>
               (case (case nbd_listen of
                        Some listen_addr \<Rightarrow> wait_and_connect_nbd OS listen_addr child DEVICE_TIMEOUT w
                      | None \<Rightarrow> wait_for_new_device OS ublk_before child DEVICE_TIMEOUT w) of
                  None \<Rightarrow> None
                | Some (Inl e, w) \<Rightarrow> Some (Inl e, stop_child OS child w)
                | Some (Inr device, w) \<Rightarrow> Some (Inr (child, device), w))))"

text \<open>A filesystem is made on a blank device only; the result says whether it was.\<close>

definition ensure_filesystem :: "'o os \<Rightarrow> publish_plan \<Rightarrow> string \<Rightarrow> 'o \<Rightarrow> bool res \<times> 'o" where
  "ensure_filesystem OS plan device w =
     (case has_filesystem OS device w of
        (True, w) \<Rightarrow> (Inr False, w)
      | (False, w) \<Rightarrow>
          if pp_from_template plan then (Inr False, w)
          else if pp_readonly plan then (Inl (IoErr ''device is read-only and has no filesystem''), w)
          else try_then (mkfs OS device (pp_fs_type plan) w) (\<lambda>_ w. (Inr True, w)))"

definition mount_device :: "'o os \<Rightarrow> publish_plan \<Rightarrow> string \<Rightarrow> string \<Rightarrow> 'o \<Rightarrow> unit res \<times> 'o" where
  "mount_device OS plan device target w =
     try_then (ensure_filesystem OS plan device w)
       (\<lambda>formatted w.
          try_then (if pp_fsck plan \<noteq> FsckOff \<and> \<not> formatted \<and> \<not> pp_readonly plan
                    then fsck OS device (pp_fs_type plan) (pp_fsck plan) w else (Inr (), w))
            (\<lambda>_ w. case pp_overlay plan of
                     Some dirs \<Rightarrow> mount_overlay OS device target (pp_fs_type plan) (pp_mount_flags plan) dirs w
                   | None \<Rightarrow> mount OS device target (pp_fs_type plan) (pp_mount_flags plan) (pp_readonly plan) w))"

definition meta_of :: "string \<Rightarrow> string \<Rightarrow> nat \<Rightarrow> overlay_dirs_t option \<Rightarrow> volume_meta" where
  "meta_of volume_id device pid overlay =
     \<lparr>vm_volume_id = volume_id, vm_device = device, vm_pid = pid, vm_nbd = starts_with ''/dev/nbd'' device,
      vm_overlay = overlay\<rparr>"

text \<open>The blocking task: the volume to enter in the table.\<close>

definition publish_device ::
  "'o os \<Rightarrow> driver_config \<Rightarrow> publish_plan \<Rightarrow> string \<Rightarrow> string \<Rightarrow> 'o \<Rightarrow> (published res \<times> 'o) option" where
  "publish_device OS cfg plan volume_id target w =
     (case attach_device OS cfg plan w of
        None \<Rightarrow> None
      | Some (Inl e, w) \<Rightarrow> Some (Inl e, w)
      | Some (Inr (child, device), w) \<Rightarrow>
          (case mount_device OS plan device target w of
             (Inl e, w) \<Rightarrow>
               (let w = (case pp_overlay plan of
                           Some dirs \<Rightarrow> snd (umount_overlay OS target dirs w) | None \<Rightarrow> w)
                in Some (Inl e, stop_child OS child w))
           | (Inr _, w) \<Rightarrow>
               (let w = snd (write_volume_meta OS target (meta_of volume_id device child (pp_overlay plan)) w)
                in Some (Inr \<lparr>pb_child = Some child, pb_pid = child, pb_device = device, pb_target = target,
                             pb_overlay = pp_overlay plan\<rparr>, w))))"

definition node_publish_volume ::
  "url_crate \<Rightarrow> 'o os \<Rightarrow> publish_request \<Rightarrow> node_service \<Rightarrow> 'o \<Rightarrow>
   ((csi_status + unit) \<times> node_service \<times> 'o) option" where
  "node_publish_volume U OS req ns w =
     (if pr_volume_id req = [] then Some (Inl (InvalidArgument ''volume id is required''), ns, w)
      else if pr_target_path req = [] then Some (Inl (InvalidArgument ''target path is required''), ns, w)
      else
        (case ns_volumes ns (pr_volume_id req) of
           Some existing \<Rightarrow>
             if pb_target existing = pr_target_path req then Some (Inr (), ns, w)
             else Some (Inl (FailedPrecondition ''volume already published at a different target path''), ns, w)
         | None \<Rightarrow>
             (case make_plan U OS ns req w of
                Inl s \<Rightarrow> Some (Inl s, ns, w)
              | Inr plan \<Rightarrow>
                  (case publish_device OS (ns_config ns) plan (pr_volume_id req) (pr_target_path req) w of
                     None \<Rightarrow> None
                   | Some (Inl e, w) \<Rightarrow> Some (Inl (Internal ''publish failed''), ns, w)
                   | Some (Inr p, w) \<Rightarrow>
                       Some (Inr (), ns\<lparr>ns_volumes := (ns_volumes ns)(pr_volume_id req \<mapsto> p)\<rparr>, w)))))"

section \<open>NodeUnpublishVolume\<close>

definition UNPUBLISH_TIMEOUT :: nat where
  "UNPUBLISH_TIMEOUT = 30000"

definition teardown :: "'o os \<Rightarrow> string \<Rightarrow> published \<Rightarrow> 'o \<Rightarrow> 'o option" where
  "teardown OS target p w =
     (let w = (case pb_overlay p of Some dirs \<Rightarrow> snd (umount_overlay OS target dirs w) | None \<Rightarrow> w);
          w = signal_pid OS (pb_pid p) SIGINT w
      in case pb_child p of
           Some child \<Rightarrow> Some (snd (os_wait OS child w))
         | None \<Rightarrow> map_option snd (wait_pid_exit OS (pb_pid p) UNPUBLISH_TIMEOUT w))"

definition node_unpublish_volume ::
  "'o os \<Rightarrow> string \<Rightarrow> string \<Rightarrow> node_service \<Rightarrow> 'o \<Rightarrow> ((csi_status + unit) \<times> node_service \<times> 'o) option" where
  "node_unpublish_volume OS volume_id target ns w =
     (if volume_id = [] then Some (Inl (InvalidArgument ''volume id is required''), ns, w)
      else if target = [] then Some (Inl (InvalidArgument ''target path is required''), ns, w)
      else
        (let ns' = ns\<lparr>ns_volumes := (ns_volumes ns)(volume_id := None)\<rparr> in
         case umount OS target w of
           (Inl e, w) \<Rightarrow> Some (Inl (Internal ''umount failed''), ns', w)
         | (Inr _, w) \<Rightarrow>
             (case (case ns_volumes ns volume_id of Some p \<Rightarrow> teardown OS target p w | None \<Rightarrow> Some w) of
                None \<Rightarrow> None
              | Some w \<Rightarrow> Some (Inr (), ns', remove_volume_meta OS target w))))"

end
