(* ===== verification/Csi_Host.thy ===== *)
theory Csi_Host
  imports Csi_Node
begin

text \<open>
  What the node service relies on from its host, as the locales \<open>mount_table\<close> (the text of
  \<open>/proc/self/mountinfo\<close>) and \<open>node_host\<close> (the clock, child processes, files, \<open>mount\<close> and \<open>umount\<close>), and what
  follows for the helpers of \<open>csi/mount.rs\<close>: the polling loops end, the record of a volume and the mount
  table are read back as written, and every helper changes only what it says.
\<close>

section \<open>Records read back\<close>

text \<open>A value that fits on a line.\<close>

definition line_ok :: "string \<Rightarrow> bool" where
  "line_ok v \<longleftrightarrow> CHR 0x0A \<notin> set v \<and> (v = [] \<or> last v \<noteq> CHR 0x0D)"

definition overlay_ok :: "overlay_dirs_t \<Rightarrow> bool" where
  "overlay_ok ov \<longleftrightarrow> line_ok (od_lower ov) \<and> line_ok (od_upper ov) \<and> line_ok (od_work ov) \<and>
     (case od_scratch_root ov of Some root \<Rightarrow> line_ok root | None \<Rightarrow> True)"

definition vmeta_ok :: "volume_meta \<Rightarrow> bool" where
  "vmeta_ok m \<longleftrightarrow> line_ok (vm_volume_id m) \<and> line_ok (vm_device m) \<and> vm_pid m < u32_limit \<and>
     (case vm_overlay m of Some ov \<Rightarrow> overlay_ok ov | None \<Rightarrow> True)"

definition key_ok :: "string \<Rightarrow> bool" where
  "key_ok k \<longleftrightarrow> CHR 0x09 \<notin> set k \<and> CHR 0x0A \<notin> set k \<and> trim k = k"

lemma meta_fields_line:
  assumes "key_ok k" and "line_ok v"
  shows "meta_fields (str_lines (meta_line k v @ rest)) m = meta_fields (str_lines rest) (m(k \<mapsto> v))"
proof -
  have "CHR 0x0A \<notin> set (k @ [CHR 0x09] @ v)" "last (k @ [CHR 0x09] @ v) \<noteq> CHR 0x0D"
    using assms by (auto simp: key_ok_def line_ok_def last_append)
  then have "str_lines ((k @ [CHR 0x09] @ v) @ CHR 0x0A # rest) = (k @ [CHR 0x09] @ v) # str_lines rest"
    by (intro str_lines_Cons) auto
  moreover have "split_once (CHR 0x09) (k @ CHR 0x09 # v) = Some (k, v)"
    using assms by (intro split_once_append) (simp add: key_ok_def)
  ultimately show ?thesis using assms by (simp add: meta_line_def key_ok_def)
qed

lemma meta_keys_ok:
  "key_ok ''volume_id''" "key_ok ''device''" "key_ok ''pid''" "key_ok ''nbd''" "key_ok ''overlay''"
  "key_ok ''lower''" "key_ok ''upper''" "key_ok ''work''" "key_ok ''scratch_root''"
  by (simp_all add: key_ok_def trim_id is_whitespace_def)

lemma line_ok_texts [simp]:
  "line_ok (nat_to_string n)" "line_ok (bool_text b)" "line_ok ''true''" "line_ok ''false''"
  using last_nat_to_string [of n] digit_not_special
  by (auto simp: line_ok_def bool_text_def intro!: nat_to_string_no)

lemma bool_text_true [simp]: "bool_text b = ''true'' \<longleftrightarrow> b"
  by (simp add: bool_text_def)

lemmas meta_reads = meta_fields_line [OF meta_keys_ok(1)] meta_fields_line [OF meta_keys_ok(2)]
  meta_fields_line [OF meta_keys_ok(3)] meta_fields_line [OF meta_keys_ok(4)]
  meta_fields_line [OF meta_keys_ok(5)] meta_fields_line [OF meta_keys_ok(6)]
  meta_fields_line [OF meta_keys_ok(7)] meta_fields_line [OF meta_keys_ok(8)]
  meta_fields_line [OF meta_keys_ok(9)] meta_fields_line [OF meta_keys_ok(9), where rest = "[]", simplified]
  meta_fields_line [OF meta_keys_ok(8), where rest = "[]", simplified]
  meta_fields_line [OF meta_keys_ok(5), where rest = "[]", simplified]

lemma volume_meta_read_back: "vmeta_ok m \<Longrightarrow> volume_meta_parse (volume_meta_serialize m) = Some m"
  by (cases "vm_overlay m"; cases "od_scratch_root (the (vm_overlay m))")
     (auto simp: volume_meta_parse_def volume_meta_serialize_def vmeta_ok_def overlay_ok_def meta_reads
        parse_overlay_def parse_uint_to_string)

text \<open>A word of the mount table.\<close>

definition token :: "string \<Rightarrow> bool" where
  "token t \<longleftrightarrow> t \<noteq> [] \<and> list_all (\<lambda>c. \<not> is_whitespace c) t"

lemma white_tokens_token:
  "list_all (\<lambda>c. \<not> is_whitespace c) t \<Longrightarrow> white_tokens acc (t @ rest) = white_tokens (acc @ t) rest"
  by (induction t arbitrary: acc) auto

lemma split_whitespace_join: "list_all token ts \<Longrightarrow> split_whitespace (join (CHR '' '') ts) = ts"
proof (induction "CHR '' ''" ts rule: join.induct)
  case (2 p)
  then show ?case
    using white_tokens_token [of p "[]" "[]"] by (simp add: split_whitespace_def token_def)
next
  case (3 p q ps)
  have "is_whitespace (CHR '' '')" by (simp add: is_whitespace_def)
  with 3 white_tokens_token [of p "[]" "CHR '' '' # join (CHR '' '') (q # ps)"] show ?case
    by (simp add: split_whitespace_def token_def)
qed (simp add: split_whitespace_def)

lemma position_append: "x \<notin> set xs \<Longrightarrow> position x (xs @ x # ys) = Some (length xs)"
  by (induction xs) auto

definition entry_ok :: "mount_entry \<Rightarrow> bool" where
  "entry_ok e \<longleftrightarrow> token (me_mountpoint e) \<and> me_mountpoint e \<noteq> ''-'' \<and> token (me_fstype e) \<and>
     token (me_source e) \<and> token (me_super_opts e)"

text \<open>
  A line of the mount table: four words (two ids, the device numbers and the root), the mount point, the
  options and the optional fields, a lone hyphen, and the last three words.
\<close>

definition mount_words ::
  "(mount_entry \<Rightarrow> string list) \<Rightarrow> (mount_entry \<Rightarrow> string list) \<Rightarrow> mount_entry \<Rightarrow> string list" where
  "mount_words front opts e =
     (front e @ [me_mountpoint e] @ opts e) @ ''-'' # [me_fstype e, me_source e, me_super_opts e]"

definition mount_line ::
  "(mount_entry \<Rightarrow> string list) \<Rightarrow> (mount_entry \<Rightarrow> string list) \<Rightarrow> mount_entry \<Rightarrow> string" where
  "mount_line front opts e = join (CHR '' '') (mount_words front opts e)"

locale mount_table =
  fixes front opts :: "mount_entry \<Rightarrow> string list"
  assumes front_length: "length (front e) = 4"
    and front_words: "list_all (\<lambda>t. token t \<and> t \<noteq> ''-'') (front e)"
    and opts_words: "list_all (\<lambda>t. token t \<and> t \<noteq> ''-'') (opts e)"
begin

lemma mount_words_tokens: "entry_ok e \<Longrightarrow> list_all token (mount_words front opts e)"
  using front_words [of e] opts_words [of e]
  by (auto simp: mount_words_def entry_ok_def list_all_iff token_def is_whitespace_def)

lemma parse_mount_line_words:
  assumes "entry_ok e"
  shows "parse_mount_line (mount_line front opts e) = Some e"
proof -
  let ?pre = "front e @ [me_mountpoint e] @ opts e"
  have "''-'' \<notin> set ?pre"
    using assms front_words [of e] opts_words [of e] by (auto simp: entry_ok_def list_all_iff)
  then have "position ''-'' (mount_words front opts e) = Some (length ?pre)"
    unfolding mount_words_def by (rule position_append)
  moreover have "split_whitespace (mount_line front opts e) = mount_words front opts e"
    unfolding mount_line_def by (rule split_whitespace_join [OF mount_words_tokens [OF assms]])
  moreover have "mount_words front opts e ! 4 = me_mountpoint e"
    using front_length [of e] by (simp add: mount_words_def nth_append)
  ultimately show ?thesis
    using front_length [of e] by (simp add: parse_mount_line_def mount_words_def nth_append nth_Cons')
qed

lemma mount_line_ok:
  assumes "entry_ok e"
  shows "CHR 0x0A \<notin> set (mount_line front opts e) \<and> mount_line front opts e \<noteq> [] \<and>
    last (mount_line front opts e) \<noteq> CHR 0x0D"
proof -
  have ws: "\<forall>c \<in> set t. \<not> is_whitespace c" if "t \<in> set (mount_words front opts e)" for t
    using mount_words_tokens [OF assms] that by (auto simp: list_all_iff token_def)
  have "c = CHR '' '' \<or> \<not> is_whitespace c" if "c \<in> set (mount_line front opts e)" for c
    using that ws set_join [of "CHR '' ''" "mount_words front opts e"] unfolding mount_line_def by blast
  then have no: "CHR 0x0A \<notin> set (mount_line front opts e)" "CHR 0x0D \<notin> set (mount_line front opts e)"
    by (force simp: is_whitespace_def)+
  have "mount_line front opts e \<noteq> []"
    using mount_words_tokens [OF assms] unfolding mount_line_def
    by (intro join_nonempty) (auto simp: mount_words_def list_all_iff token_def)
  with no show ?thesis by (metis last_in_set)
qed

end

sublocale mount_table \<subseteq> lines: text_table "mount_line front opts" parse_mount_line entry_ok
  by unfold_locales (rule mount_line_ok parse_mount_line_words; assumption)+

context mount_table
begin

lemma parse_mountinfo_text:
  "list_all entry_ok es \<Longrightarrow> parse_mountinfo (table_write (mount_line front opts) es) = es"
  using lines.table_roundtrip by (simp add: parse_mountinfo_def table_read_def)

end

section \<open>The host\<close>

text \<open>What the laws speak of: mounted filesystems, live child processes, text files and the clock.\<close>

record host_view =
  hv_mounts :: "mount_entry list"
  hv_children :: "nat set"
  hv_texts :: "string \<rightharpoonup> string"
  hv_clock :: nat

text \<open>Time passes and a child may exit; \<open>calm\<close>: nothing else happens.\<close>

definition quiet :: "host_view \<Rightarrow> host_view \<Rightarrow> bool" where
  "quiet v v' \<longleftrightarrow> hv_children v' \<subseteq> hv_children v \<and> hv_clock v \<le> hv_clock v'"

definition calm :: "host_view \<Rightarrow> host_view \<Rightarrow> bool" where
  "calm v v' \<longleftrightarrow> quiet v v' \<and> hv_mounts v' = hv_mounts v \<and> hv_texts v' = hv_texts v"

lemma quiet_refl [simp]: "quiet v v" and calm_refl [simp]: "calm v v"
  by (simp_all add: quiet_def calm_def)

lemma quiet_trans: "quiet v v' \<Longrightarrow> quiet v' v'' \<Longrightarrow> quiet v v''"
  by (auto simp: quiet_def)

lemma calm_trans: "calm v v' \<Longrightarrow> calm v' v'' \<Longrightarrow> calm v v''"
  by (auto simp: calm_def intro: quiet_trans)

lemma calm_quiet: "calm v v' \<Longrightarrow> quiet v v'"
  by (simp add: calm_def)

definition mounted :: "host_view \<Rightarrow> string \<Rightarrow> bool" where
  "mounted v t \<longleftrightarrow> t \<in> me_mountpoint ` set (hv_mounts v)"

fun drop_mount :: "string \<Rightarrow> mount_entry list \<Rightarrow> mount_entry list" where
  "drop_mount t [] = []"
| "drop_mount t (e # es) = (if me_mountpoint e = t then es else e # drop_mount t es)"

text \<open>The latest mount at a path goes first.\<close>

definition unmount_top :: "string \<Rightarrow> mount_entry list \<Rightarrow> mount_entry list" where
  "unmount_top t es = rev (drop_mount t (rev es))"

text \<open>The arguments of \<open>mount\<close>(8): the options \<open>-t\<close> and \<open>-o\<close> take a value, the source and the target remain.\<close>

fun scan_mount_args :: "string list \<Rightarrow> string \<Rightarrow> string \<Rightarrow> string list \<Rightarrow> string \<times> string \<times> string list" where
  "scan_mount_args [] fs op pos = (fs, op, pos)"
| "scan_mount_args [a] fs op pos = (fs, op, pos @ [a])"
| "scan_mount_args (a # b # as) fs op pos =
     (if a = ''-t'' then scan_mount_args as b op pos
      else if a = ''-o'' then scan_mount_args as fs b pos
      else scan_mount_args (b # as) fs op (pos @ [a]))"

definition mount_request :: "string list \<Rightarrow> string \<times> string \<times> string list" where
  "mount_request args = scan_mount_args args [] [] []"

definition cmd_ok :: "cmd_output res \<Rightarrow> bool" where
  "cmd_ok r = (case r of Inr out \<Rightarrow> cmd_success out | Inl _ \<Rightarrow> False)"

definition below :: "string \<Rightarrow> string \<Rightarrow> bool" where
  "below d p \<longleftrightarrow> p = d \<or> starts_with (d @ ''/'') p"

definition device_ok :: "string \<Rightarrow> bool" where
  "device_ok dev \<longleftrightarrow> token dev \<and> line_ok dev \<and> (starts_with ''/dev/nbd'' dev \<or> starts_with ''/dev/ublkb'' dev)"

lemma numbered_dev:
  assumes "numbered pre name" and "list_all (\<lambda>c. \<not> is_whitespace c) pre"
  shows "token (''/dev/'' @ name)" "starts_with (''/dev/'' @ pre) (''/dev/'' @ name)"
    "line_ok pre \<Longrightarrow> line_ok (''/dev/'' @ name)"
proof -
  obtain ds where ds: "name = pre @ ds" "list_all is_digit ds" "ds \<noteq> []"
    using assms(1) by (auto simp: numbered_def strip_prefix_Some split: option.splits)
  show "token (''/dev/'' @ name)"
    using ds assms(2) digit_not_special(5) by (auto simp: token_def list_all_iff is_whitespace_def)
  show "starts_with (''/dev/'' @ pre) (''/dev/'' @ name)"
    using ds(1) by (simp add: starts_with_def)
  show "line_ok (''/dev/'' @ name)" if "line_ok pre"
    using that ds digit_not_special(2,3) last_in_set [OF ds(3)] by (auto simp: line_ok_def list_all_iff)
qed

lemma device_ok_hd: "device_ok dev \<Longrightarrow> hd dev = CHR ''/''"
  by (cases dev) (auto simp: device_ok_def starts_with_def)

definition mounts_added :: "host_view \<Rightarrow> mount_entry list \<Rightarrow> host_view \<Rightarrow> bool" where
  "mounts_added v es v' \<longleftrightarrow>
     quiet v v' \<and> hv_texts v' = hv_texts v \<and> hv_mounts v' = hv_mounts v @ es"

lemma mounts_added_after: "mounts_added v1 es v2 \<Longrightarrow> calm v v1 \<Longrightarrow> mounts_added v es v2"
  by (auto simp: mounts_added_def calm_def intro: quiet_trans)

text \<open>Files below the directories may be gone, nothing else has changed.\<close>

definition dirs_removed :: "host_view \<Rightarrow> string list \<Rightarrow> host_view \<Rightarrow> bool" where
  "dirs_removed v ds v' \<longleftrightarrow> quiet v v' \<and> hv_mounts v' = hv_mounts v \<and>
     (\<forall>q. hv_texts v' q = hv_texts v q \<or> (\<exists>d \<in> set ds. below d q) \<and> hv_texts v' q = None)"

lemma mount_request_args:
  assumes "hd dev = CHR ''/''" and "hd target = CHR ''/''"
  shows "\<exists>op. mount_request (mount_args dev target fs flags ro) = (fs, op, [dev, target])"
proof -
  have "dev \<noteq> ''-t''" "dev \<noteq> ''-o''" using assms(1) by auto
  then show ?thesis by (simp add: mount_request_def mount_args_def Let_def)
qed

text \<open>
  The laws. \<open>direct\<close> are the paths the kernel reports as they are given: absolute, without symbolic links,
  \<open>.\<close> or \<open>..\<close>, and without characters it escapes.
\<close>

locale node_host = mount_table front opts
  for front opts :: "mount_entry \<Rightarrow> string list" +
  fixes OS :: "'o os"
    and view :: "'o \<Rightarrow> host_view"
    and direct :: "string \<Rightarrow> bool"
  assumes now: "os_now OS w = hv_clock (view w)"
    and sleep: "calm (view w) (view (os_sleep OS d w)) \<and>
          hv_clock (view w) + d \<le> hv_clock (view (os_sleep OS d w))"
    and hash_next: "os_hash_next OS xs w = Some x \<Longrightarrow> x \<in> set xs"
    and direct_token: "direct p \<Longrightarrow> token p \<and> hd p = CHR ''/''"
    and connect: "os_connect OS addr w = (r1, w') \<Longrightarrow> calm (view w) (view w')"
    and create_dir_all: "os_create_dir_all OS p w = (r2, w') \<Longrightarrow> calm (view w) (view w')"
    and try_wait: "os_try_wait OS pid w = (r3, w') \<Longrightarrow> calm (view w) (view w')"
    and kill: "os_kill OS pid sig w = (r4, w') \<Longrightarrow>
          calm (view w) (view w') \<and> (sig = 0 \<and> \<not> r4 \<longrightarrow> pid \<notin> hv_children (view w'))"
    and wait: "os_wait OS pid w = (r5, w') \<Longrightarrow>
          calm (view w) (view w') \<and> pid \<notin> hv_children (view w')"
    and spawn: "os_spawn OS args env w = (r6, w') \<Longrightarrow>
          (case r6 of
             Inl _ \<Rightarrow> calm (view w) (view w')
           | Inr pid \<Rightarrow> calm ((view w)\<lparr>hv_children := insert pid (hv_children (view w))\<rparr>) (view w') \<and>
                        pid < u32_limit)"
    and command: "os_command OS cmd args w = (r7, w') \<Longrightarrow>
          quiet (view w) (view w') \<and> hv_texts (view w') = hv_texts (view w) \<and>
          (cmd_ok r7 \<and> cmd \<in> {''mount'', ''umount''} \<or> hv_mounts (view w') = hv_mounts (view w))"
    and mounts: "os_command OS ''mount'' args w = (r7, w') \<Longrightarrow> cmd_ok r7 \<Longrightarrow>
          mount_request args = (fs, op, [src, target]) \<Longrightarrow> direct target \<Longrightarrow> token src \<Longrightarrow>
          \<exists>e. hv_mounts (view w') = hv_mounts (view w) @ [e] \<and> me_mountpoint e = target \<and> me_source e = src \<and>
              (fs = ''overlay'' \<and> token op \<longrightarrow> me_fstype e = ''overlay'' \<and> str_contains op (me_super_opts e))"
    and umounts: "os_command OS ''umount'' [target] w = (r7, w') \<Longrightarrow> cmd_ok r7 \<Longrightarrow> direct target \<Longrightarrow>
          hv_mounts (view w') = unmount_top target (hv_mounts (view w))"
    and umount_none: "os_command OS ''umount'' [target] w = (Inr out, w') \<Longrightarrow> \<not> cmd_success out \<Longrightarrow>
          direct target \<Longrightarrow>
          str_contains ''not mounted'' (co_stderr out) \<or> str_contains ''not currently mounted'' (co_stderr out) \<Longrightarrow>
          \<not> mounted (view w) target"
    and mount_exists: "direct target \<Longrightarrow> mounted (view w) target \<Longrightarrow> os_exists OS target w"
    and mountinfo: "os_read_to_string OS ''/proc/self/mountinfo'' w =
          Inr (table_write (mount_line front opts) (hv_mounts (view w)))"
    and mounts_ok: "list_all entry_ok (hv_mounts (view w))"
    and read_text: "p \<noteq> ''/proc/self/mountinfo'' \<Longrightarrow>
          (os_read_to_string OS p w = Inr s \<longleftrightarrow> hv_texts (view w) p = Some s)"
    and write_text: "os_write OS p s w = (r8, w') \<Longrightarrow>
          quiet (view w) (view w') \<and> hv_mounts (view w') = hv_mounts (view w) \<and>
          (if is_ok r8 then hv_texts (view w') = (hv_texts (view w))(p \<mapsto> s)
           else \<forall>q. q \<noteq> p \<longrightarrow> hv_texts (view w') q = hv_texts (view w) q)"
    and rename: "os_rename OS p q w = (r8, w') \<Longrightarrow> p \<noteq> q \<Longrightarrow>
          quiet (view w) (view w') \<and> hv_mounts (view w') = hv_mounts (view w) \<and>
          hv_texts (view w') =
            (if is_ok r8 then (hv_texts (view w))(q := hv_texts (view w) p, p := None) else hv_texts (view w))"
    and remove_file: "os_remove_file OS p w = (r8, w') \<Longrightarrow>
          quiet (view w) (view w') \<and> hv_mounts (view w') = hv_mounts (view w) \<and>
          hv_texts (view w') = (if is_ok r8 then (hv_texts (view w))(p := None) else hv_texts (view w))"
    and remove_dir_all: "os_remove_dir_all OS p w = (r8, w') \<Longrightarrow>
          quiet (view w) (view w') \<and> hv_mounts (view w') = hv_mounts (view w) \<and>
          (\<forall>q. hv_texts (view w') q = hv_texts (view w) q \<or> below p q \<and> hv_texts (view w') q = None)"
begin

lemma sleep_calm: "calm (view w) (view (os_sleep OS d w))"
  and sleep_clock: "hv_clock (view w) + d \<le> hv_clock (view (os_sleep OS d w))"
  using sleep by blast+

lemma kill_calm: "os_kill OS pid sig w = (r, w') \<Longrightarrow> calm (view w) (view w')"
  and kill_gone: "os_kill OS pid 0 w = (False, w') \<Longrightarrow> pid \<notin> hv_children (view w')"
  using kill by blast+

lemma tool_calm:
  "os_command OS cmd args w = (r, w') \<Longrightarrow> cmd \<notin> {''mount'', ''umount''} \<Longrightarrow> calm (view w) (view w')"
  using command [of cmd args w r w'] by (auto simp: calm_def)

text \<open>A turn of a loop that sleeps leaves less time to the deadline.\<close>

lemma turn_left:
  assumes "calm (view w) (view w1)" and "hv_clock (view w1) + d \<le> hv_clock (view w2)" and "0 < d"
    and "hv_clock (view w) < deadline"
  shows "deadline - hv_clock (view w2) < deadline - hv_clock (view w)"
  using assms by (auto simp: calm_def quiet_def)

lemma listed_device_ok:
  "dev \<in> set (list_ublk_devices OS w) \<Longrightarrow> device_ok dev"
  "dev \<in> set (list_available_nbd_devices OS w) \<Longrightarrow> device_ok dev"
  using numbered_dev [of "''ublkb''"] numbered_dev [of "''nbd''"]
  by (auto simp: list_ublk_devices_def list_available_nbd_devices_def device_ok_def is_whitespace_def line_ok_def
      split: sum.splits)

lemma poll_new_device_returns:
  "\<exists>r w'. poll_new_device OS before child deadline w = Some (r, w') \<and> calm (view w) (view w') \<and>
     (\<forall>dev. r = Inr dev \<longrightarrow> device_ok dev \<and> dev \<notin> set before)"
proof (induction "deadline - hv_clock (view w)" arbitrary: w rule: less_induct)
  case less
  show ?case
  proof (cases "hv_clock (view w) < deadline")
    case False
    then show ?thesis by (subst poll_new_device.simps) (simp add: now)
  next
    case early: True
    let ?new = "os_hash_next OS (filter (\<lambda>d. d \<notin> set before) (list_ublk_devices OS w)) w"
    show ?thesis
    proof (cases ?new)
      case (Some dev)
      with hash_next [OF Some] early show ?thesis
        by (subst poll_new_device.simps) (auto simp: now dest: listed_device_ok)
    next
      case None
      obtain r1 w1 where w1: "os_try_wait OS child w = (r1, w1)" by (metis surj_pair)
      have c: "calm (view w) (view w1)" by (rule try_wait [OF w1])
      have "calm (view w) (view (os_sleep OS 250 w1))" by (rule calm_trans [OF c sleep_calm])
      moreover have "deadline - hv_clock (view (os_sleep OS 250 w1)) < deadline - hv_clock (view w)"
        by (rule turn_left [OF c sleep_clock _ early]) simp
      ultimately obtain r w' where
        "poll_new_device OS before child deadline (os_sleep OS 250 w1) = Some (r, w')" "calm (view w) (view w')"
        "\<forall>dev. r = Inr dev \<longrightarrow> device_ok dev \<and> dev \<notin> set before"
        using less calm_trans by blast
      with None early w1 c show ?thesis
        by (subst poll_new_device.simps) (auto simp: now split: sum.splits option.splits)
    qed
  qed
qed

lemma poll_nbd_server_returns:
  "\<exists>r w'. poll_nbd_server OS addr child deadline w = Some (r, w') \<and> calm (view w) (view w')"
proof (induction "deadline - hv_clock (view w)" arbitrary: w rule: less_induct)
  case less
  show ?case
  proof (cases "hv_clock (view w) < deadline")
    case False
    then show ?thesis by (subst poll_nbd_server.simps) (simp add: now)
  next
    case early: True
    obtain r1 w1 where w1: "os_try_wait OS child (os_sleep OS 200 w) = (r1, w1)" by (metis surj_pair)
    obtain r2 w2 where w2: "os_connect OS addr w1 = (r2, w2)" by (metis surj_pair)
    have c1: "calm (view (os_sleep OS 200 w)) (view w1)" and c2: "calm (view w1) (view w2)"
      by (rule try_wait [OF w1], rule connect [OF w2])
    have c: "calm (view w) (view w1)" "calm (view w) (view w2)"
      using calm_trans sleep_calm c1 c2 by blast+
    have "hv_clock (view w) + 200 \<le> hv_clock (view w2)"
      using sleep_clock [of w 200] c1 c2 by (auto simp: calm_def quiet_def)
    then have "deadline - hv_clock (view w2) < deadline - hv_clock (view w)"
      by (rule turn_left [OF calm_refl _ _ early]) simp
    then obtain r w' where
      "poll_nbd_server OS addr child deadline w2 = Some (r, w')" "calm (view w) (view w')"
      using less c calm_trans by blast
    with early w1 w2 c show ?thesis
      by (subst poll_nbd_server.simps) (auto simp: now split: sum.splits option.splits)
  qed
qed

lemma nbd_device_size_calm: "nbd_device_size OS dev w = (n, w') \<Longrightarrow> calm (view w) (view w')"
  by (auto simp: nbd_device_size_def split: if_splits prod.splits sum.splits dest!: tool_calm)

lemma poll_nbd_size_returns:
  "\<exists>r w'. poll_nbd_size OS dev deadline w = Some (r, w') \<and> calm (view w) (view w') \<and>
     (\<forall>d. r = Inr d \<longrightarrow> d = dev)"
proof (induction "deadline - hv_clock (view w)" arbitrary: w rule: less_induct)
  case less
  show ?case
  proof (cases "hv_clock (view w) < deadline")
    case False
    then show ?thesis by (subst poll_nbd_size.simps) (simp add: now)
  next
    case early: True
    obtain n w1 where w1: "nbd_device_size OS dev w = (n, w1)" by (metis surj_pair)
    have c: "calm (view w) (view w1)" by (rule nbd_device_size_calm [OF w1])
    have "calm (view w) (view (os_sleep OS 250 w1))" by (rule calm_trans [OF c sleep_calm])
    moreover have "deadline - hv_clock (view (os_sleep OS 250 w1)) < deadline - hv_clock (view w)"
      by (rule turn_left [OF c sleep_clock _ early]) simp
    ultimately obtain r w' where
      "poll_nbd_size OS dev deadline (os_sleep OS 250 w1) = Some (r, w')" "calm (view w) (view w')"
      "\<forall>d. r = Inr d \<longrightarrow> d = dev"
      using less calm_trans by blast
    with early w1 c show ?thesis by (subst poll_nbd_size.simps) (auto simp: now)
  qed
qed

lemma connect_nbd_device_returns:
  "\<exists>r w'. connect_nbd_device OS host port child deadline w = Some (r, w') \<and> calm (view w) (view w') \<and>
     (\<forall>dev. r = Inr dev \<longrightarrow> device_ok dev)"
proof -
  obtain r1 w1 where w1: "os_try_wait OS child w = (r1, w1)" by (metis surj_pair)
  have c1: "calm (view w) (view w1)" by (rule try_wait [OF w1])
  show ?thesis
  proof (cases "os_hash_next OS (list_available_nbd_devices OS w1) w1")
    case None
    with w1 c1 show ?thesis by (auto simp: connect_nbd_device_def split: sum.splits option.splits)
  next
    case (Some dev)
    have dev: "device_ok dev" by (rule listed_device_ok(2) [OF hash_next [OF Some]])
    obtain r2 w2 where w2: "os_command OS ''nbd-client'' [host, port, dev, ''-L''] w1 = (r2, w2)"
      by (metis surj_pair)
    have c2: "calm (view w) (view w2)" using calm_trans [OF c1 tool_calm [OF w2]] by simp
    obtain r3 w3 where "poll_nbd_size OS dev deadline w2 = Some (r3, w3)" "calm (view w) (view w3)"
      "\<forall>d. r3 = Inr d \<longrightarrow> d = dev"
      using poll_nbd_size_returns [of dev deadline w2] c2 calm_trans by blast
    with Some w1 w2 c1 c2 dev show ?thesis
      by (auto simp: connect_nbd_device_def split: sum.splits option.splits)
  qed
qed

lemma wait_and_connect_nbd_returns:
  "\<exists>r w'. wait_and_connect_nbd OS listen child timeout w = Some (r, w') \<and> calm (view w) (view w') \<and>
     (\<forall>dev. r = Inr dev \<longrightarrow> device_ok dev)"
proof (cases "nbd_address OS listen w")
  case (Inr a)
  obtain host port addr where a: "a = (host, port, addr)" by (cases a)
  let ?deadline = "os_now OS w + timeout"
  obtain r1 w1 where w1: "poll_nbd_server OS addr child ?deadline w = Some (r1, w1)" "calm (view w) (view w1)"
    using poll_nbd_server_returns by blast
  obtain r2 w2 where "connect_nbd_device OS host port child ?deadline w1 = Some (r2, w2)"
    "calm (view w1) (view w2)" "\<forall>dev. r2 = Inr dev \<longrightarrow> device_ok dev"
    using connect_nbd_device_returns by blast
  with Inr a w1 show ?thesis
    by (cases r1) (auto simp: wait_and_connect_nbd_def intro: calm_trans)
qed (simp add: wait_and_connect_nbd_def)

lemma poll_pid_exit_returns:
  "\<exists>gone w'. poll_pid_exit OS pid deadline w = Some (gone, w') \<and> calm (view w) (view w') \<and>
     (gone \<and> pid \<notin> hv_children (view w') \<or> \<not> gone \<and> deadline \<le> hv_clock (view w'))"
proof (induction "deadline - hv_clock (view w)" arbitrary: w rule: less_induct)
  case less
  obtain alive w1 where w1: "os_kill OS pid 0 w = (alive, w1)" by (metis surj_pair)
  have c: "calm (view w) (view w1)" by (rule kill_calm [OF w1])
  have gone: "\<not> alive \<Longrightarrow> pid \<notin> hv_children (view w1)" using w1 kill_gone by simp
  show ?case
  proof (cases "hv_clock (view w) < deadline")
    case False
    with w1 c gone show ?thesis
      by (subst poll_pid_exit.simps) (auto simp: now calm_def quiet_def)
  next
    case early: True
    have "calm (view w) (view (os_sleep OS 100 w1))" by (rule calm_trans [OF c sleep_calm])
    moreover have "deadline - hv_clock (view (os_sleep OS 100 w1)) < deadline - hv_clock (view w)"
      by (rule turn_left [OF c sleep_clock _ early]) simp
    ultimately obtain r w' where
      "poll_pid_exit OS pid deadline (os_sleep OS 100 w1) = Some (r, w')" "calm (view w) (view w')"
      "r \<and> pid \<notin> hv_children (view w') \<or> \<not> r \<and> deadline \<le> hv_clock (view w')"
      using less calm_trans by blast
    with early w1 c gone show ?thesis by (subst poll_pid_exit.simps) (auto simp: now)
  qed
qed

lemma stop_child_calm:
  "calm (view w) (view (stop_child OS pid w))" "pid \<notin> hv_children (view (stop_child OS pid w))"
proof -
  obtain r1 w1 where w1: "os_kill OS pid SIGINT w = (r1, w1)" by (metis surj_pair)
  obtain r2 w2 where w2: "os_wait OS pid w1 = (r2, w2)" by (metis surj_pair)
  show "calm (view w) (view (stop_child OS pid w))" "pid \<notin> hv_children (view (stop_child OS pid w))"
    using calm_trans [OF kill_calm [OF w1]] wait [OF w2] w1 w2
    by (simp_all add: stop_child_def signal_pid_def)
qed

lemma attach_device_returns:
  "\<exists>r w'. attach_device OS cfg plan w = Some (r, w') \<and>
     (case r of
        Inl _ \<Rightarrow> calm (view w) (view w')
      | Inr (pid, dev) \<Rightarrow>
          calm ((view w)\<lparr>hv_children := insert pid (hv_children (view w))\<rparr>) (view w') \<and> pid < u32_limit \<and> device_ok dev)"
  (is "\<exists>r w'. _ = Some (r, w') \<and> ?good r w'")
proof -
  define listen where "listen = (if dc_use_nbd cfg
    then (case find_free_port OS (dc_nbd_host cfg) (dc_nbd_port_start cfg) 1024 w of
            Inl e \<Rightarrow> Inl e
          | Inr port \<Rightarrow> Inr (Some (dc_nbd_host cfg @ '':'' @ nat_to_string port)))
    else Inr None)"
  show ?thesis
  proof (cases listen)
    case (Inl e)
    then show ?thesis by (simp add: attach_device_def listen_def [symmetric])
  next
    case listen: (Inr l)
    obtain r1 w1 where w1: "spawn_device OS (pp_size plan) (pp_env plan) l w = (r1, w1)" by (metis surj_pair)
    note spawned = spawn [OF w1 [unfolded spawn_device_def]]
    show ?thesis
    proof (cases r1)
      case (Inl e)
      with listen w1 spawned show ?thesis by (simp add: attach_device_def listen_def [symmetric])
    next
      case (Inr pid)
      let ?wait = "case l of Some a \<Rightarrow> wait_and_connect_nbd OS a pid DEVICE_TIMEOUT w1
        | None \<Rightarrow> wait_for_new_device OS (if l = None then list_ublk_devices OS w else []) pid DEVICE_TIMEOUT w1"
      have "\<exists>r w'. ?wait = Some (r, w') \<and> calm (view w1) (view w') \<and> (\<forall>dev. r = Inr dev \<longrightarrow> device_ok dev)"
        using wait_and_connect_nbd_returns poll_new_device_returns
        by (cases l) (auto simp: wait_for_new_device_def, blast)
      then obtain r2 w2 where w2: "?wait = Some (r2, w2)" "calm (view w1) (view w2)"
        "\<forall>dev. r2 = Inr dev \<longrightarrow> device_ok dev"
        by blast
      show ?thesis
      proof (cases r2)
        case (Inl e)
        let ?w = "stop_child OS pid w2"
        have "calm (view w1) (view ?w)" "pid \<notin> hv_children (view ?w)"
          using calm_trans [OF w2(2) stop_child_calm(1)] stop_child_calm(2) by blast+
        then have "calm (view w) (view ?w)"
          using spawned Inr by (auto simp: calm_def quiet_def)
        with listen w1 w2 Inr Inl show ?thesis
          by (simp add: attach_device_def listen_def [symmetric])
      next
        case dev: (Inr dev)
        have "calm ((view w)\<lparr>hv_children := insert pid (hv_children (view w))\<rparr>) (view w2)" "pid < u32_limit"
          using spawned Inr calm_trans [OF _ w2(2)] by auto
        with listen w1 w2 Inr dev show ?thesis
          by (simp add: attach_device_def listen_def [symmetric])
      qed
    qed
  qed
qed

subsection \<open>Mounting\<close>

lemma run_cmd_result:
  "run_cmd OS cmd args w = (r, w') \<Longrightarrow> \<exists>r7. os_command OS cmd args w = (r7, w') \<and> (is_ok r \<longleftrightarrow> cmd_ok r7)"
  by (cases "os_command OS cmd args w"; cases "fst (os_command OS cmd args w)")
     (auto simp: run_cmd_def cmd_ok_def split: if_splits)

lemma run_tool_calm:
  "run_cmd OS cmd args w = (r, w') \<Longrightarrow> cmd \<notin> {''mount'', ''umount''} \<Longrightarrow> calm (view w) (view w')"
  using run_cmd_result tool_calm by blast

lemma run_mount:
  assumes "run_cmd OS ''mount'' args w = (r, w')" and "mount_request args = (fs, op, [src, target])"
    and "direct target" and "token src"
  shows "case r of
      Inl _ \<Rightarrow> calm (view w) (view w')
    | Inr _ \<Rightarrow> \<exists>e. mounts_added (view w) [e] (view w') \<and> me_mountpoint e = target \<and> me_source e = src \<and>
        (fs = ''overlay'' \<and> token op \<longrightarrow> me_fstype e = ''overlay'' \<and> str_contains op (me_super_opts e))"
proof -
  obtain r7 where r7: "os_command OS ''mount'' args w = (r7, w')" "is_ok r \<longleftrightarrow> cmd_ok r7"
    using run_cmd_result [OF assms(1)] by blast
  show ?thesis
    using command [OF r7(1)] mounts [OF r7(1) _ assms(2-4)] r7(2)
    by (cases r) (auto simp: calm_def mounts_added_def)
qed

lemma mount_result:
  assumes "mount OS dev target fs flags ro w = (r, w')" and "direct target" and "device_ok dev"
  shows "case r of
      Inl _ \<Rightarrow> calm (view w) (view w')
    | Inr _ \<Rightarrow> \<exists>e. mounts_added (view w) [e] (view w') \<and> me_mountpoint e = target \<and> me_source e = dev"
proof -
  obtain r1 w1 where w1: "os_create_dir_all OS target w = (r1, w1)" by (metis surj_pair)
  note c = create_dir_all [OF w1]
  show ?thesis
  proof (cases r1)
    case (Inl e)
    with assms(1) w1 c show ?thesis by (auto simp: mount_def)
  next
    case (Inr u)
    have "hd target = CHR ''/''" "token dev" using direct_token [OF assms(2)] assms(3) by (auto simp: device_ok_def)
    then obtain op where op: "mount_request (mount_args dev target fs flags ro) = (fs, op, [dev, target])"
      using mount_request_args [OF device_ok_hd [OF assms(3)]] by blast
    have "run_cmd OS ''mount'' (mount_args dev target fs flags ro) w1 = (r, w')"
      using assms(1) w1 Inr by (simp add: mount_def)
    note ran = run_mount [OF this op assms(2) \<open>token dev\<close>]
    show ?thesis
      using ran calm_trans [OF c] mounts_added_after [OF _ c]
      by (cases r) (simp_all, blast)
  qed
qed

lemma create_dirs_calm: "create_dirs OS ds w = (r, w') \<Longrightarrow> calm (view w) (view w')"
proof (induction ds arbitrary: w)
  case (Cons d ds)
  obtain r1 w1 where w1: "os_create_dir_all OS d w = (r1, w1)" by (metis surj_pair)
  show ?case
  proof (cases r1)
    case (Inl e)
    with Cons w1 show ?thesis by (auto dest: create_dir_all)
  next
    case (Inr u)
    with Cons.prems w1 have "create_dirs OS ds w1 = (r, w')" by simp
    from calm_trans [OF create_dir_all [OF w1] Cons.IH [OF this]] show ?thesis .
  qed
qed simp

lemma remove_dirs_effect: "dirs_removed (view w) ds (view (remove_dirs OS ds w))"
proof (induction ds arbitrary: w)
  case Nil
  then show ?case by (simp add: dirs_removed_def)
next
  case (Cons d ds)
  obtain r1 w1 where w1: "os_remove_dir_all OS d w = (r1, w1)" by (metis surj_pair)
  show ?case
    using Cons [of w1] remove_dir_all [OF w1] w1 quiet_trans
    unfolding dirs_removed_def by simp (metis (full_types))
qed

lemma umount_result:
  assumes "umount OS target w = (r, w')" and "direct target"
  shows "quiet (view w) (view w')" "hv_texts (view w') = hv_texts (view w)"
    "hv_mounts (view w') = hv_mounts (view w) \<and> (is_ok r \<longrightarrow> \<not> mounted (view w) target) \<or>
     is_ok r \<and> hv_mounts (view w') = unmount_top target (hv_mounts (view w))"
proof -
  obtain r1 w1 where w1: "os_command OS ''umount'' [target] w = (r1, w1)" by (metis surj_pair)
  note cmd = command [OF w1] and popped = umounts [OF w1 _ assms(2)]
  have none: "\<not> mounted (view w) target" if "r1 = Inr out" "\<not> cmd_success out"
    "str_contains ''not mounted'' (co_stderr out) \<or> str_contains ''not currently mounted'' (co_stderr out)" for out
    using umount_none [of target w out w1] w1 that assms(2) by blast
  have absent: "\<not> os_exists OS target w \<Longrightarrow> \<not> mounted (view w) target"
    using mount_exists [OF assms(2)] by blast
  show "quiet (view w) (view w')" "hv_texts (view w') = hv_texts (view w)"
    using assms(1) w1 cmd by (auto simp: umount_def try_then_def split: sum.splits if_splits)
  show "hv_mounts (view w') = hv_mounts (view w) \<and> (is_ok r \<longrightarrow> \<not> mounted (view w) target) \<or>
     is_ok r \<and> hv_mounts (view w') = unmount_top target (hv_mounts (view w))"
    using assms(1) w1 cmd popped none absent
    by (auto simp: umount_def try_then_def cmd_ok_def split: sum.splits if_splits)
qed

end

end
