(* ===== verification/Csi_Sim_Host.thy ===== *)
theory Csi_Sim_Host
  imports Csi_Host
begin

text \<open>
  A small host that keeps the laws of \<open>node_host\<close>: processes whose device appears as soon as they run and
  that exit on a signal, a mount table, text files and the set of formatted devices. It is the instance the witnesses
  of the node service run on.
\<close>

record sim_host =
  si_mounts :: "mount_entry list"
  si_children :: "nat list"
  si_texts :: params
  si_clock :: nat
  si_formatted :: "string list"

definition sim_mounts :: "sim_host \<Rightarrow> mount_entry list" where
  "sim_mounts w = filter entry_ok (si_mounts w)"

definition simhost_view :: "sim_host \<Rightarrow> host_view" where
  "simhost_view w = \<lparr>hv_mounts = sim_mounts w, hv_children = set (si_children w), hv_texts = si_texts w,
                 hv_clock = si_clock w\<rparr>"

definition sim_direct :: "string \<Rightarrow> bool" where
  "sim_direct p \<longleftrightarrow> token p \<and> hd p = CHR ''/''"

definition sim_front :: "mount_entry \<Rightarrow> string list" where
  "sim_front e = [''21'', ''1'', ''0:30'', ''/'']"

definition sim_opts :: "mount_entry \<Rightarrow> string list" where
  "sim_opts e = [''rw'', ''shared:1'']"

definition sim_exit :: "int \<Rightarrow> string \<Rightarrow> string \<Rightarrow> cmd_output" where
  "sim_exit code out msg = \<lparr>co_code = Some code, co_stdout = out, co_stderr = msg\<rparr>"

definition sim_entry :: "string \<Rightarrow> string \<Rightarrow> string \<Rightarrow> string \<Rightarrow> mount_entry" where
  "sim_entry fs op src target =
     \<lparr>me_mountpoint = target, me_fstype = fs, me_source = src, me_super_opts = (if token op then op else ''rw'')\<rparr>"

definition sim_mount :: "string list \<Rightarrow> sim_host \<Rightarrow> cmd_output res \<times> sim_host" where
  "sim_mount args w =
     (case mount_request args of
        (fs, op, [src, target]) \<Rightarrow>
          if token fs \<and> token src \<and> sim_direct target
          then (Inr (sim_exit 0 [] []),
                w\<lparr>si_mounts := sim_mounts w @ [sim_entry fs op src target]\<rparr>)
          else (Inr (sim_exit 32 [] ''bad mount''), w)
      | _ \<Rightarrow> (Inr (sim_exit 1 [] ''bad usage''), w))"

definition sim_umount :: "string \<Rightarrow> sim_host \<Rightarrow> cmd_output res \<times> sim_host" where
  "sim_umount target w =
     (if target \<in> me_mountpoint ` set (sim_mounts w)
      then (Inr (sim_exit 0 [] []), w\<lparr>si_mounts := unmount_top target (sim_mounts w)\<rparr>)
      else (Inr (sim_exit 32 [] ''umount: not mounted''), w))"

definition sim_command :: "string \<Rightarrow> string list \<Rightarrow> sim_host \<Rightarrow> cmd_output res \<times> sim_host" where
  "sim_command cmd args w =
     (if cmd = ''mount'' then sim_mount args w
      else if cmd = ''umount'' then (case args of [t] \<Rightarrow> sim_umount t w | _ \<Rightarrow> (Inr (sim_exit 1 [] []), w))
      else if cmd = ''blkid''
      then (Inr (sim_exit (if set args \<subseteq> set (si_formatted w) then 0 else 2) [] []), w)
      else if starts_with ''mkfs.'' cmd
      then (Inr (sim_exit 0 [] []), w\<lparr>si_formatted := last args # si_formatted w\<rparr>)
      else (Inr (sim_exit 0 ''4096'' []), w))"

definition sim_spawn :: "sim_host \<Rightarrow> nat res \<times> sim_host" where
  "sim_spawn w =
     (let pid = Suc (foldr max (si_children w) 0) in
      if pid < u32_limit then (Inr pid, w\<lparr>si_children := pid # si_children w\<rparr>)
      else (Inl (IoErr ''no process''), w))"

definition sim_stop :: "nat \<Rightarrow> sim_host \<Rightarrow> sim_host" where
  "sim_stop pid w = w\<lparr>si_children := filter (\<lambda>c. c \<noteq> pid) (si_children w)\<rparr>"

definition sim_os :: "sim_host os" where
  "sim_os = \<lparr>
     os_now = si_clock,
     os_sleep = (\<lambda>d w. w\<lparr>si_clock := si_clock w + d\<rparr>),
     os_var = (\<lambda>k w. None),
     os_hash_next = (\<lambda>xs w. case xs of [] \<Rightarrow> None | x # _ \<Rightarrow> Some x),
     os_bind = (\<lambda>h p w. True),
     os_resolve = (\<lambda>h p w. Inr [h]),
     os_connect = (\<lambda>a w. (True, w)),
     os_read_dir = (\<lambda>d w. Inr (map (\<lambda>pid. ''ublkb'' @ nat_to_string pid) (si_children w))),
     os_exists = (\<lambda>p w. True),
     os_is_dir = (\<lambda>p w. Inr True),
     os_create_dir_all = (\<lambda>p w. (Inr (), w)),
     os_remove_dir_all = (\<lambda>p w. (Inr (), w\<lparr>si_texts := (\<lambda>q. if below p q then None else si_texts w q)\<rparr>)),
     os_read_to_string = (\<lambda>p w.
       if p = ''/proc/self/mountinfo'' then Inr (table_write (mount_line sim_front sim_opts) (sim_mounts w))
       else (case si_texts w p of Some s \<Rightarrow> Inr s | None \<Rightarrow> Inl (IoErr ''not found''))),
     os_write = (\<lambda>p s w. (Inr (), w\<lparr>si_texts := (si_texts w)(p \<mapsto> s)\<rparr>)),
     os_rename = (\<lambda>p q w. (Inr (), w\<lparr>si_texts := (si_texts w)(q := si_texts w p, p := None)\<rparr>)),
     os_remove_file = (\<lambda>p w. (Inr (), w\<lparr>si_texts := (si_texts w)(p := None)\<rparr>)),
     os_spawn = (\<lambda>args env w. sim_spawn w),
     os_try_wait = (\<lambda>pid w. (Inr (if pid \<in> set (si_children w) then None else Some (Some 0)), w)),
     os_wait = (\<lambda>pid w. (Inr (Some 0), sim_stop pid w)),
     os_kill = (\<lambda>pid sig w. (pid \<in> set (si_children w), if sig = 0 then w else sim_stop pid w)),
     os_command = sim_command\<rparr>"

lemma sim_os_sel [simp]:
  "os_now sim_os = si_clock"
  "os_sleep sim_os = (\<lambda>d w. w\<lparr>si_clock := si_clock w + d\<rparr>)"
  "os_var sim_os = (\<lambda>k w. None)"
  "os_hash_next sim_os = (\<lambda>xs w. case xs of [] \<Rightarrow> None | x # _ \<Rightarrow> Some x)"
  "os_bind sim_os = (\<lambda>h p w. True)"
  "os_resolve sim_os = (\<lambda>h p w. Inr [h])"
  "os_connect sim_os = (\<lambda>a w. (True, w))"
  "os_read_dir sim_os = (\<lambda>d w. Inr (map (\<lambda>pid. ''ublkb'' @ nat_to_string pid) (si_children w)))"
  "os_exists sim_os = (\<lambda>p w. True)"
  "os_is_dir sim_os = (\<lambda>p w. Inr True)"
  "os_create_dir_all sim_os = (\<lambda>p w. (Inr (), w))"
  "os_remove_dir_all sim_os = (\<lambda>p w. (Inr (), w\<lparr>si_texts := (\<lambda>q. if below p q then None else si_texts w q)\<rparr>))"
  "os_read_to_string sim_os = (\<lambda>p w.
     if p = ''/proc/self/mountinfo'' then Inr (table_write (mount_line sim_front sim_opts) (sim_mounts w))
     else (case si_texts w p of Some s \<Rightarrow> Inr s | None \<Rightarrow> Inl (IoErr ''not found'')))"
  "os_write sim_os = (\<lambda>p s w. (Inr (), w\<lparr>si_texts := (si_texts w)(p \<mapsto> s)\<rparr>))"
  "os_rename sim_os = (\<lambda>p q w. (Inr (), w\<lparr>si_texts := (si_texts w)(q := si_texts w p, p := None)\<rparr>))"
  "os_remove_file sim_os = (\<lambda>p w. (Inr (), w\<lparr>si_texts := (si_texts w)(p := None)\<rparr>))"
  "os_spawn sim_os = (\<lambda>args env w. sim_spawn w)"
  "os_try_wait sim_os = (\<lambda>pid w. (Inr (if pid \<in> set (si_children w) then None else Some (Some 0)), w))"
  "os_wait sim_os = (\<lambda>pid w. (Inr (Some 0), sim_stop pid w))"
  "os_kill sim_os = (\<lambda>pid sig w. (pid \<in> set (si_children w), if sig = 0 then w else sim_stop pid w))"
  "os_command sim_os = sim_command"
  by (simp_all add: sim_os_def)

lemma simhost_view_sel [simp]:
  "hv_mounts (simhost_view w) = sim_mounts w" "hv_children (simhost_view w) = set (si_children w)"
  "hv_texts (simhost_view w) = si_texts w" "hv_clock (simhost_view w) = si_clock w"
  by (simp_all add: simhost_view_def)

lemma sim_mounts_same [simp]:
  "sim_mounts (w\<lparr>si_children := c\<rparr>) = sim_mounts w" "sim_mounts (w\<lparr>si_texts := t\<rparr>) = sim_mounts w"
  "sim_mounts (w\<lparr>si_clock := n\<rparr>) = sim_mounts w" "sim_mounts (w\<lparr>si_formatted := f\<rparr>) = sim_mounts w"
  by (simp_all add: sim_mounts_def)

lemma sim_mounts_all_ok: "list_all entry_ok (sim_mounts w)"
  by (auto simp: sim_mounts_def list_all_iff)

lemma sim_mounts_set: "list_all entry_ok es \<Longrightarrow> sim_mounts (w\<lparr>si_mounts := es\<rparr>) = es"
  by (simp add: sim_mounts_def filter_id_conv list_all_iff)

lemma drop_mount_list_all: "list_all P es \<Longrightarrow> list_all P (drop_mount t es)"
  by (induction es) auto

lemma sim_unmount [simp]:
  "sim_mounts (w\<lparr>si_mounts := unmount_top t (sim_mounts w)\<rparr>) = unmount_top t (sim_mounts w)"
  using drop_mount_list_all [of entry_ok "rev (sim_mounts w)" t] sim_mounts_all_ok [of w]
  by (intro sim_mounts_set) (simp add: unmount_top_def)

lemma sim_mount_appends:
  assumes "token fs" and "token src" and "sim_direct target"
  shows "sim_mounts (w\<lparr>si_mounts := sim_mounts w @ [sim_entry fs op src target]\<rparr>) =
    sim_mounts w @ [sim_entry fs op src target]"
  using assms sim_mounts_all_ok [of w]
  by (intro sim_mounts_set) (auto simp: sim_entry_def entry_ok_def sim_direct_def token_def is_whitespace_def)

lemma sim_entry_sel [simp]:
  "me_mountpoint (sim_entry fs op src target) = target" "me_source (sim_entry fs op src target) = src"
  "me_fstype (sim_entry fs op src target) = fs" "token op \<Longrightarrow> me_super_opts (sim_entry fs op src target) = op"
  by (simp_all add: sim_entry_def)

lemma sim_mount_cases:
  assumes "sim_mount args w = (r, w')"
  shows "quiet (simhost_view w) (simhost_view w') \<and> si_texts w' = si_texts w \<and>
    (cmd_ok r \<or> sim_mounts w' = sim_mounts w)"
    "cmd_ok r \<Longrightarrow> mount_request args = (fs, op, [src, target]) \<Longrightarrow>
     \<exists>e. sim_mounts w' = sim_mounts w @ [e] \<and> me_mountpoint e = target \<and> me_source e = src \<and> me_fstype e = fs \<and>
       (token op \<longrightarrow> me_super_opts e = op)"
  using assms sim_mount_appends
  by (auto simp: sim_mount_def cmd_ok_def cmd_success_def sim_exit_def quiet_def
      split: prod.splits list.splits if_splits)

lemma sim_umount_cases:
  assumes "sim_umount target w = (r, w')"
  shows "quiet (simhost_view w) (simhost_view w') \<and> si_texts w' = si_texts w"
    "cmd_ok r \<Longrightarrow> sim_mounts w' = unmount_top target (sim_mounts w)"
    "\<not> cmd_ok r \<Longrightarrow> sim_mounts w' = sim_mounts w \<and> target \<notin> me_mountpoint ` set (sim_mounts w)"
  using assms by (auto simp: sim_umount_def cmd_ok_def cmd_success_def sim_exit_def quiet_def split: if_splits)

lemma sim_command_frame:
  assumes "sim_command cmd args w = (r, w')"
  shows "quiet (simhost_view w) (simhost_view w') \<and> si_texts w' = si_texts w \<and>
    (cmd_ok r \<and> cmd \<in> {''mount'', ''umount''} \<or> sim_mounts w' = sim_mounts w)"
proof -
  consider "cmd = ''mount''" | t where "cmd = ''umount''" "args = [t]"
    | "cmd \<noteq> ''mount''" "cmd = ''umount'' \<longrightarrow> (\<forall>t. args \<noteq> [t])"
    by blast
  then show ?thesis
  proof cases
    case 1
    with assms sim_mount_cases(1) [of args w r w'] show ?thesis by (simp add: sim_command_def)
  next
    case (2 t)
    with assms sim_umount_cases [of t w r w'] show ?thesis by (auto simp: sim_command_def)
  next
    case 3
    then have "sim_mounts w' = sim_mounts w \<and> si_children w' = si_children w \<and> si_texts w' = si_texts w \<and> si_clock w' = si_clock w"
      using assms by (auto simp: sim_command_def split: if_splits list.splits)
    then show ?thesis by (simp add: quiet_def)
  qed
qed

lemma sim_spawn_law:
  "sim_spawn w = (r, w') \<Longrightarrow>
   (case r of
      Inl _ \<Rightarrow> calm (simhost_view w) (simhost_view w')
    | Inr pid \<Rightarrow> calm ((simhost_view w)\<lparr>hv_children := insert pid (hv_children (simhost_view w))\<rparr>) (simhost_view w') \<and> pid < u32_limit)"
  by (auto simp: sim_spawn_def Let_def calm_def quiet_def split: if_splits)

lemma sim_stop_law: "calm (simhost_view w) (simhost_view (sim_stop pid w)) \<and> pid \<notin> hv_children (simhost_view (sim_stop pid w))"
  by (auto simp: sim_stop_def calm_def quiet_def)

interpretation sim: node_host sim_front sim_opts sim_os simhost_view sim_direct
proof (unfold_locales, goal_cases)
  case (11 pid w r w')
  then show ?case using sim_stop_law by (auto split: if_splits)
next
  case (12 pid w r w')
  then show ?case using sim_stop_law by auto
next
  case (13 args env w r w')
  then show ?case using sim_spawn_law by simp
next
  case (14 cmd args w r w')
  then show ?case using sim_command_frame by simp
next
  case (15 args w r w' fs op src target)
  then have "sim_mount args w = (r, w')" by (simp add: sim_command_def)
  from sim_mount_cases(2) [OF this 15(2,3)] show ?case using str_containsI [of op "[]" "[]"] by auto
next
  case (16 target w r w')
  then have "sim_umount target w = (r, w')" by (simp add: sim_command_def)
  from sim_umount_cases(2) [OF this 16(2)] show ?case by simp
next
  case (17 target w out w')
  then have "sim_umount target w = (Inr out, w')" by (simp add: sim_command_def)
  from sim_umount_cases(3) [OF this] 17(2) show ?case by (simp add: cmd_ok_def mounted_def)
qed (auto simp: sim_front_def sim_opts_def token_def is_whitespace_def sim_direct_def calm_def quiet_def sim_mounts_all_ok
    split: list.splits option.splits)

end
