(* ===== verification/Csi_Published.thy ===== *)
theory Csi_Published
  imports Csi_Sim_Host
begin

text \<open>
  What the node service promises on a lawful host (\<open>csi/node.rs\<close>): a publish mounts and tracks the volume
  or leaves no process behind, it always returns, a restarted plugin finds the volume again, and an
  unpublish tears it down.
\<close>

section \<open>Mount tables\<close>

text \<open>Some files may be gone, none is new.\<close>

definition texts_cut :: "host_view \<Rightarrow> host_view \<Rightarrow> bool" where
  "texts_cut v v' \<longleftrightarrow> (\<forall>q. hv_texts v' q = hv_texts v q \<or> hv_texts v' q = None)"

lemma texts_cut_trans: "texts_cut v v' \<Longrightarrow> texts_cut v' v'' \<Longrightarrow> texts_cut v v''"
  unfolding texts_cut_def by metis

lemma texts_cut_same: "hv_texts v' = hv_texts v \<Longrightarrow> texts_cut v v'"
  by (simp add: texts_cut_def)

lemma drop_mount_subset: "set (drop_mount t es) \<subseteq> set es"
  by (induction es) auto

lemma drop_mount_keeps: "e \<in> set es \<Longrightarrow> me_mountpoint e \<noteq> t \<Longrightarrow> e \<in> set (drop_mount t es)"
  by (induction es) auto

lemma drop_mount_once:
  "length (filter (\<lambda>e. me_mountpoint e = t) es) \<le> 1 \<Longrightarrow> t \<notin> me_mountpoint ` set (drop_mount t es)"
  by (induction es) (auto simp: filter_empty_conv)

lemma unmount_top_facts:
  "set (unmount_top t es) \<subseteq> set es"
  "e \<in> set es \<Longrightarrow> me_mountpoint e \<noteq> t \<Longrightarrow> e \<in> set (unmount_top t es)"
  "length (filter (\<lambda>e. me_mountpoint e = t) es) \<le> 1 \<Longrightarrow> t \<notin> me_mountpoint ` set (unmount_top t es)"
  using drop_mount_subset [of t "rev es"] drop_mount_keeps [of e "rev es" t] drop_mount_once [of t "rev es"]
  by (auto simp: unmount_top_def rev_filter [symmetric])

lemma parent_join_contains:
  assumes "hd (path_join d ''.ublk-overlay-lower'') = CHR ''/''"
  shows "str_contains ''/.ublk-overlay-lower'' (path_join d ''.ublk-overlay-lower'')"
proof (cases "d = []")
  case True
  with assms show ?thesis by (simp add: path_join_def)
next
  case False
  then have "\<exists>a. path_join d ''.ublk-overlay-lower'' = a @ ''/.ublk-overlay-lower'' @ []"
    by (cases d rule: rev_cases) (auto simp: path_join_def)
  then show ?thesis by (metis str_containsI)
qed

lemma overlay_opts_contains:
  assumes "dirs = overlay_dirs target b vid" and "hd (od_lower dirs) = CHR ''/''"
  shows "str_contains ''/.ublk-overlay-lower'' (overlay_opts dirs)"
proof -
  have "od_lower dirs = path_join (parent_or_root target) ''.ublk-overlay-lower''"
    using assms(1) by (cases b) (simp_all add: overlay_dirs_def Let_def)
  then have "str_contains ''/.ublk-overlay-lower'' (od_lower dirs)"
    using parent_join_contains assms(2) by metis
  moreover have "str_contains (od_lower dirs) (overlay_opts dirs)"
    using str_containsI [of "od_lower dirs" "''lowerdir=''"] by (simp add: overlay_opts_def)
  ultimately show ?thesis by (rule str_contains_trans)
qed

section \<open>Publishing\<close>

text \<open>
  The paths of a request are reported by the kernel as they are, on one line, and the target is not named
  like an overlay's lower directory.
\<close>

definition overlay_plan_ok :: "(string \<Rightarrow> bool) \<Rightarrow> string \<Rightarrow> overlay_dirs_t option \<Rightarrow> bool" where
  "overlay_plan_ok direct target overlay \<longleftrightarrow>
     (case overlay of
        None \<Rightarrow> True
      | Some dirs \<Rightarrow> direct (od_lower dirs) \<and> token (overlay_opts dirs) \<and> overlay_ok dirs \<and>
          (\<exists>b vid. dirs = overlay_dirs target b vid))"

definition publish_paths :: "(string \<Rightarrow> bool) \<Rightarrow> publish_request \<Rightarrow> bool" where
  "publish_paths direct req \<longleftrightarrow>
     direct (pr_target_path req) \<and> \<not> ends_with ''/.ublk-overlay-lower'' (pr_target_path req) \<and>
     (let dirs = overlay_dirs (pr_target_path req) (nonempty_opt (pr_context req ''overlayScratchDir''))
                   (pr_volume_id req)
      in direct (od_lower dirs) \<and> token (overlay_opts dirs) \<and> overlay_ok dirs)"

text \<open>What a successful publish leaves on the host.\<close>

definition newly_published ::
  "string \<Rightarrow> string \<Rightarrow> overlay_dirs_t option \<Rightarrow> host_view \<Rightarrow> host_view \<Rightarrow> published \<Rightarrow> bool" where
  "newly_published vid target overlay v v' p \<longleftrightarrow>
     pb_child p = Some (pb_pid p) \<and> pb_target p = target \<and> pb_overlay p = overlay \<and>
     pb_pid p < u32_limit \<and> device_ok (pb_device p) \<and>
     hv_children v' \<subseteq> insert (pb_pid p) (hv_children v) \<and>
     (\<exists>es e. hv_mounts v' = hv_mounts v @ es @ [e] \<and> me_mountpoint e = target \<and> is_our_target e) \<and>
     hv_texts v' (meta_path target) \<in>
       {hv_texts v (meta_path target), None,
        Some (volume_meta_serialize (meta_of vid (pb_device p) (pb_pid p) overlay))}"

context node_host
begin

lemma mount_overlay_result:
  assumes "mount_overlay OS dev target fs flags dirs w = (r, w')" and "direct target"
    and "direct (od_lower dirs)" and "device_ok dev" and "token (overlay_opts dirs)"
  shows "quiet (view w) (view w') \<and> texts_cut (view w) (view w') \<and>
    (is_ok r \<longrightarrow> (\<exists>e1 e2. hv_mounts (view w') = hv_mounts (view w) @ [e1, e2] \<and>
       me_mountpoint e2 = target \<and> me_fstype e2 = ''overlay'' \<and>
       str_contains (overlay_opts dirs) (me_super_opts e2)))"
proof -
  let ?lower = "od_lower dirs" and ?w0 = "remove_dirs OS [od_upper dirs, od_work dirs] w"
  have r0: "quiet (view w) (view ?w0)" "texts_cut (view w) (view ?w0)" "hv_mounts (view ?w0) = hv_mounts (view w)"
    using remove_dirs_effect [of w "[od_upper dirs, od_work dirs]"]
    by (auto simp: dirs_removed_def texts_cut_def)
  obtain r1 w1 where w1: "create_dirs OS [?lower, od_upper dirs, od_work dirs] ?w0 = (r1, w1)"
    by (metis surj_pair)
  obtain r2 w2 where w2: "mount OS dev ?lower fs flags True w1 = (r2, w2)" by (metis surj_pair)
  obtain r3 w3 where w3: "os_create_dir_all OS target w2 = (r3, w3)" by (metis surj_pair)
  obtain r4 w4 where w4: "run_cmd OS ''mount'' [''-t'', ''overlay'', ''overlay'', ''-o'', overlay_opts dirs, target] w3
    = (r4, w4)" by (metis surj_pair)
  obtain r5 w5 where w5: "umount OS ?lower w4 = (r5, w5)" by (metis surj_pair)
  have req: "mount_request [''-t'', ''overlay'', ''overlay'', ''-o'', overlay_opts dirs, target] =
      (''overlay'', overlay_opts dirs, [''overlay'', target])"
    by (simp add: mount_request_def)
  have tok: "token ''overlay''" by (simp add: token_def is_whitespace_def)
  note c1 = create_dirs_calm [OF w1] and m2 = mount_result [OF w2 assms(3,4)]
    and c3 = create_dir_all [OF w3] and m4 = run_mount [OF w4 req assms(2) tok]
    and u5 = umount_result [OF w5 assms(3)]
  have q2: "quiet (view w1) (view w2)" "hv_texts (view w2) = hv_texts (view w1)"
    and q4: "quiet (view w3) (view w4)" "hv_texts (view w4) = hv_texts (view w3)"
    using m2 m4 by (cases r2; cases r4; auto simp: calm_def mounts_added_def)+
  note q = calm_quiet [OF c1] calm_quiet [OF c3] q2(1) q4(1) u5(1) r0(1)
  have quiet: "quiet (view w) (view w1)" "quiet (view w) (view w2)" "quiet (view w) (view w3)"
    "quiet (view w) (view w4)" "quiet (view w) (view w5)"
    using q quiet_trans by blast+
  have texts: "texts_cut (view w) (view w1)" "texts_cut (view w) (view w2)" "texts_cut (view w) (view w3)"
    "texts_cut (view w) (view w4)" "texts_cut (view w) (view w5)"
    using r0(2) c1 c3 q2(2) q4(2) u5(2) by (simp_all add: texts_cut_def calm_def)
  have ends: "w' \<in> {w1, w2, w3, w4, w5}"
    using assms(1) w1 w2 w3 w4 w5
    by (cases r1; cases r2; cases r3; cases r4) (auto simp: mount_overlay_def)
  have "\<exists>e1 e2. hv_mounts (view w') = hv_mounts (view w) @ [e1, e2] \<and>
       me_mountpoint e2 = target \<and> me_fstype e2 = ''overlay'' \<and>
       str_contains (overlay_opts dirs) (me_super_opts e2)" if "is_ok r"
    using that assms(1) w1 w2 w3 w4 w5 r0(3) c1 m2 c3 m4 assms(5)
    by (cases r1; cases r2; cases r3; cases r4)
       (auto simp: mount_overlay_def calm_def mounts_added_def)
  with ends quiet texts show ?thesis by blast
qed

lemma umount_mounts:
  assumes "umount OS target w = (r, w')" and "direct target"
  shows "set (hv_mounts (view w')) \<subseteq> set (hv_mounts (view w))"
    "e \<in> set (hv_mounts (view w)) \<Longrightarrow> me_mountpoint e \<noteq> target \<Longrightarrow> e \<in> set (hv_mounts (view w'))"
    "is_ok r \<Longrightarrow> length (filter (\<lambda>e. me_mountpoint e = target) (hv_mounts (view w))) \<le> 1 \<Longrightarrow>
     \<not> mounted (view w') target"
  using umount_result(3) [OF assms] unmount_top_facts(1,3) [of target "hv_mounts (view w)"]
    unmount_top_facts(2) [of e "hv_mounts (view w)" target]
  by (auto simp: mounted_def)

lemma umount_overlay_result:
  assumes "umount_overlay OS target dirs w = (r, w')" and "direct target" and "direct (od_lower dirs)"
  shows "quiet (view w) (view w')" "texts_cut (view w) (view w')"
    "set (hv_mounts (view w')) \<subseteq> set (hv_mounts (view w))"
    "e \<in> set (hv_mounts (view w)) \<Longrightarrow> me_mountpoint e \<notin> {target, od_lower dirs} \<Longrightarrow> e \<in> set (hv_mounts (view w'))"
proof -
  obtain r1 w1 where w1: "umount OS target w = (r1, w1)" by (metis surj_pair)
  obtain r2 w2 where w2: "umount OS (od_lower dirs) w1 = (r2, w2)" by (metis surj_pair)
  note u1 = umount_result [OF w1 assms(2)] and u2 = umount_result [OF w2 assms(3)]
  define ds where "ds = [od_upper dirs, od_work dirs, od_lower dirs] @
    (case od_scratch_root dirs of Some root \<Rightarrow> [root] | None \<Rightarrow> [])"
  let ?w3 = "remove_dirs OS ds w2"
  have d: "quiet (view w2) (view ?w3)" "texts_cut (view w2) (view ?w3)" "hv_mounts (view ?w3) = hv_mounts (view w2)"
    using remove_dirs_effect [of w2 ds] by (auto simp: dirs_removed_def texts_cut_def)
  have ends: "w' \<in> {w1, w2, ?w3}"
    using assms(1) w1 w2 by (cases r1; cases r2) (auto simp: umount_overlay_def ds_def)
  have q: "quiet (view w) (view w2)" "quiet (view w) (view ?w3)"
    using u1(1) u2(1) d(1) quiet_trans by blast+
  show "quiet (view w) (view w')" using ends u1(1) q by auto
  show "texts_cut (view w) (view w')"
    using ends u1(2) u2(2) d(2) by (auto simp: texts_cut_def)
  have sub: "set (hv_mounts (view w1)) \<subseteq> set (hv_mounts (view w))"
    "set (hv_mounts (view w2)) \<subseteq> set (hv_mounts (view w1))"
    using umount_mounts(1) [OF w1 assms(2)] umount_mounts(1) [OF w2 assms(3)] by auto
  then show "set (hv_mounts (view w')) \<subseteq> set (hv_mounts (view w))"
    using ends d(3) by auto
  show "e \<in> set (hv_mounts (view w'))"
    if "e \<in> set (hv_mounts (view w))" "me_mountpoint e \<notin> {target, od_lower dirs}"
  proof -
    have e1: "e \<in> set (hv_mounts (view w1))" using that umount_mounts(2) [OF w1 assms(2)] by auto
    have "e \<in> set (hv_mounts (view w2))" using that e1 umount_mounts(2) [OF w2 assms(3)] by auto
    with e1 show ?thesis using ends d(3) by auto
  qed
qed

lemma ensure_filesystem_calm: "ensure_filesystem OS plan dev w = (r, w') \<Longrightarrow> calm (view w) (view w')"
proof -
  assume a: "ensure_filesystem OS plan dev w = (r, w')"
  obtain b w1 where w1: "has_filesystem OS dev w = (b, w1)" by (metis surj_pair)
  have c1: "calm (view w) (view w1)"
    using w1 by (auto simp: has_filesystem_def split: prod.splits sum.splits dest!: tool_calm)
  obtain r2 w2 where w2: "mkfs OS dev (pp_fs_type plan) w1 = (r2, w2)" by (metis surj_pair)
  have c2: "calm (view w1) (view w2)"
    using w2 by (auto simp: mkfs_def split: option.splits dest!: run_tool_calm)
  show ?thesis
    using a w1 w2 c1 calm_trans [OF c1 c2]
    by (cases b; cases r2) (auto simp: ensure_filesystem_def split: if_splits)
qed

lemma fsck_calm: "fsck OS dev fs mode w = (r, w') \<Longrightarrow> calm (view w) (view w')"
  by (cases mode) (auto simp: fsck_def Let_def try_then_def split: prod.splits sum.splits if_splits dest!: tool_calm)

lemma checked_calm:
  assumes "ensure_filesystem OS plan dev w = (Inr formatted, w1)"
    and "(if b then fsck OS dev fs mode w1 else (Inr (), w1)) = (r, w2)"
  shows "calm (view w) (view w2)"
  using calm_trans [OF ensure_filesystem_calm [OF assms(1)]] fsck_calm assms(2) by (auto split: if_splits)

text \<open>
  Mounting the device: on success the last mount is the target's and recognisably ours; a failed plain mount
  changes nothing.
\<close>

lemma mount_device_result:
  assumes "mount_device OS plan dev target w = (r, w')" and "direct target" and "device_ok dev"
    and "\<not> ends_with ''/.ublk-overlay-lower'' target" and "overlay_plan_ok direct target (pp_overlay plan)"
  shows "quiet (view w) (view w') \<and> texts_cut (view w) (view w') \<and>
    (is_ok r \<longrightarrow> (\<exists>es e. hv_mounts (view w') = hv_mounts (view w) @ es @ [e] \<and>
       me_mountpoint e = target \<and> is_our_target e)) \<and>
    (\<not> is_ok r \<and> pp_overlay plan = None \<longrightarrow> calm (view w) (view w'))"
proof -
  obtain r1 w1 where w1: "ensure_filesystem OS plan dev w = (r1, w1)" by (metis surj_pair)
  show ?thesis
  proof (cases r1)
    case (Inl e)
    with w1 assms(1) ensure_filesystem_calm [OF w1] show ?thesis
      by (auto simp: mount_device_def calm_def texts_cut_same)
  next
    case r1: (Inr formatted)
    let ?check = "if pp_fsck plan \<noteq> FsckOff \<and> \<not> formatted \<and> \<not> pp_readonly plan
      then fsck OS dev (pp_fs_type plan) (pp_fsck plan) w1 else (Inr (), w1)"
    obtain r2 w2 where w2: "?check = (r2, w2)" by (metis surj_pair)
    have c: "calm (view w) (view w2)" by (rule checked_calm [OF w1 [unfolded r1] w2])
    show ?thesis
    proof (cases r2)
      case (Inl e)
      with w1 r1 w2 c assms(1) show ?thesis by (auto simp: mount_device_def calm_def texts_cut_same)
    next
      case r2: (Inr u)
      show ?thesis
      proof (cases "pp_overlay plan")
        case None
        then have "mount OS dev target (pp_fs_type plan) (pp_mount_flags plan) (pp_readonly plan) w2 = (r, w')"
          using assms(1) w1 r1 w2 r2 by (simp add: mount_device_def)
        note m = mount_result [OF this assms(2,3)]
        show ?thesis
        proof (cases r)
          case (Inl e)
          with m c show ?thesis by (auto simp: calm_def texts_cut_same intro: quiet_trans)
        next
          case (Inr u)
          with m obtain e where e: "mounts_added (view w2) [e] (view w')" "me_mountpoint e = target" "me_source e = dev"
            by auto
          then have "is_our_target e" using assms(3,4) by (auto simp: is_our_target_def device_ok_def)
          moreover have "mounts_added (view w) [e] (view w')" by (rule mounts_added_after [OF e(1) c])
          ultimately show ?thesis using Inr e(2) by (auto simp: mounts_added_def texts_cut_same)
        qed
      next
        case (Some dirs)
        with assms(5) obtain b vid where dirs: "direct (od_lower dirs)" "token (overlay_opts dirs)"
          "dirs = overlay_dirs target b vid"
          by (auto simp: overlay_plan_ok_def)
        have "mount_overlay OS dev target (pp_fs_type plan) (pp_mount_flags plan) dirs w2 = (r, w')"
          using assms(1) w1 r1 w2 r2 Some by (simp add: mount_device_def)
        note m = mount_overlay_result [OF this assms(2) dirs(1) assms(3) dirs(2)]
        have "is_our_target e" if "me_mountpoint e = target" "me_fstype e = ''overlay''"
          "str_contains (overlay_opts dirs) (me_super_opts e)" for e
          using that assms(4) str_contains_trans [OF overlay_opts_contains [OF dirs(3)]] direct_token [OF dirs(1)]
          by (auto simp: is_our_target_def)
        then have "is_ok r \<longrightarrow> (\<exists>es e. hv_mounts (view w') = hv_mounts (view w) @ es @ [e] \<and>
            me_mountpoint e = target \<and> is_our_target e)"
          using m c by (auto simp: calm_def)
        then show ?thesis
          using m c Some quiet_trans by (auto simp: calm_def texts_cut_def)
      qed
    qed
  qed
qed

lemma write_volume_meta_result:
  assumes "write_volume_meta OS target m w = (r, w')"
  shows "quiet (view w) (view w') \<and> hv_mounts (view w') = hv_mounts (view w) \<and>
    hv_texts (view w') (meta_path target) \<in>
      {hv_texts (view w) (meta_path target), Some (volume_meta_serialize m)}"
proof -
  have ne: "meta_tmp_path target \<noteq> meta_path target" by (simp add: meta_tmp_path_def)
  obtain r1 w1 where w1: "os_write OS (meta_tmp_path target) (volume_meta_serialize m) w = (r1, w1)"
    by (metis surj_pair)
  obtain r2 w2 where w2: "os_rename OS (meta_tmp_path target) (meta_path target) w1 = (r2, w2)"
    by (metis surj_pair)
  show ?thesis
    using assms w1 w2 write_text [OF w1] rename [OF w2 ne] ne quiet_trans
    by (cases r1; cases r2) (auto simp: write_volume_meta_def split: if_splits)
qed

lemma publish_device_returns:
  assumes "direct target" and "\<not> ends_with ''/.ublk-overlay-lower'' target"
    and "overlay_plan_ok direct target (pp_overlay plan)"
  shows "\<exists>r w'. publish_device OS cfg plan vid target w = Some (r, w') \<and>
    (case r of
       Inl _ \<Rightarrow> quiet (view w) (view w') \<and> (pp_overlay plan = None \<longrightarrow> calm (view w) (view w'))
     | Inr p \<Rightarrow> newly_published vid target (pp_overlay plan) (view w) (view w') p)"
  (is "\<exists>r w'. _ = Some (r, w') \<and> ?good r w'")
proof -
  obtain r1 w1 where w1: "attach_device OS cfg plan w = Some (r1, w1)"
    and a: "case r1 of Inl _ \<Rightarrow> calm (view w) (view w1)
      | Inr (pid, dev) \<Rightarrow> calm ((view w)\<lparr>hv_children := insert pid (hv_children (view w))\<rparr>) (view w1) \<and>
          pid < u32_limit \<and> device_ok dev"
    using attach_device_returns by blast
  show ?thesis
  proof (cases r1)
    case (Inl e)
    with w1 a show ?thesis by (auto simp: publish_device_def calm_def)
  next
    case (Inr pd)
    then obtain pid dev where r1: "r1 = Inr (pid, dev)" by (cases pd) simp
    with a have c: "calm ((view w)\<lparr>hv_children := insert pid (hv_children (view w))\<rparr>) (view w1)"
      and pid: "pid < u32_limit" and dev: "device_ok dev"
      by auto
    obtain r2 w2 where w2: "mount_device OS plan dev target w1 = (r2, w2)" by (metis surj_pair)
    note m = mount_device_result [OF w2 assms(1) dev assms(2,3)]
    show ?thesis
    proof (cases r2)
      case (Inl e)
      define w3 where "w3 = (case pp_overlay plan of
        Some dirs \<Rightarrow> snd (umount_overlay OS target dirs w2) | None \<Rightarrow> w2)"
      have q3: "quiet (view w1) (view w3)" "pp_overlay plan = None \<Longrightarrow> calm (view w1) (view w3)"
      proof -
        show "quiet (view w1) (view w3)"
        proof (cases "pp_overlay plan")
          case None
          with m show ?thesis by (simp add: w3_def)
        next
          case (Some dirs)
          then have "direct (od_lower dirs)" using assms(3) by (simp add: overlay_plan_ok_def)
          from umount_overlay_result(1) [OF prod.collapse [symmetric] assms(1) this]
          have "quiet (view w2) (view (snd (umount_overlay OS target dirs w2)))" .
          with m Some show ?thesis using quiet_trans by (auto simp: w3_def)
        qed
        show "calm (view w1) (view w3)" if "pp_overlay plan = None"
          using m that Inl by (simp add: w3_def)
      qed
      let ?w4 = "stop_child OS pid w3"
      have s: "calm (view w3) (view ?w4)" "pid \<notin> hv_children (view ?w4)" by (rule stop_child_calm)+
      have "publish_device OS cfg plan vid target w = Some (Inl e, ?w4)"
        using w1 r1 w2 Inl by (simp add: publish_device_def w3_def)
      moreover have "quiet (view w) (view ?w4)"
        using c q3(1) s by (auto simp: calm_def quiet_def)
      moreover have "calm (view w) (view ?w4)" if "pp_overlay plan = None"
        using c q3(2) [OF that] s by (auto simp: calm_def quiet_def)
      ultimately show ?thesis by auto
    next
      case (Inr u)
      let ?m = "meta_of vid dev pid (pp_overlay plan)"
      obtain r3 w3 where w3: "write_volume_meta OS target ?m w2 = (r3, w3)" by (metis surj_pair)
      note wm = write_volume_meta_result [OF w3]
      obtain es e where e: "hv_mounts (view w2) = hv_mounts (view w1) @ es @ [e]" "me_mountpoint e = target"
        "is_our_target e"
        using m Inr by auto
      have "publish_device OS cfg plan vid target w = Some (Inr \<lparr>pb_child = Some pid, pb_pid = pid,
          pb_device = dev, pb_target = target, pb_overlay = pp_overlay plan\<rparr>, w3)"
        using w1 r1 w2 Inr w3 by (simp add: publish_device_def)
      moreover have "hv_children (view w3) \<subseteq> insert pid (hv_children (view w))"
        using c m wm by (auto simp: calm_def quiet_def)
      moreover have "hv_mounts (view w3) = hv_mounts (view w) @ es @ [e]"
        using wm e(1) c by (simp add: calm_def)
      moreover have "hv_texts (view w3) (meta_path target) \<in>
          {hv_texts (view w) (meta_path target), None, Some (volume_meta_serialize ?m)}"
        using wm m c unfolding texts_cut_def calm_def by auto
      ultimately show ?thesis using pid dev e(2,3) by (auto simp: newly_published_def)
    qed
  qed
qed

end

lemma plan_overlay_dirs:
  "plan_overlay OS w req = Inr ov \<Longrightarrow>
   ov = (if ctx_flag (pr_context req) ''overlay''
         then Some (overlay_dirs (pr_target_path req) (nonempty_opt (pr_context req ''overlayScratchDir''))
                      (pr_volume_id req))
         else None)"
  by (auto simp: plan_overlay_def Let_def split: if_splits option.splits sum.splits bool.splits)

lemma make_plan_facts:
  assumes "make_plan U OS ns req w = Inr plan"
  shows "plan_overlay OS w req = Inr (pp_overlay plan)"
    "pp_readonly plan = (pr_readonly req \<or> device_read_only req)"
    "pp_from_template plan = ctx_flag (pr_context req) ''fromTemplate''"
  using assms by (auto simp: make_plan_def Let_def split: sum.splits prod.splits)

lemma make_plan_overlay:
  assumes "make_plan U OS ns req w = Inr plan"
  shows "publish_paths direct req \<Longrightarrow> overlay_plan_ok direct (pr_target_path req) (pp_overlay plan)"
    "pp_overlay plan \<noteq> None \<longleftrightarrow> ctx_flag (pr_context req) ''overlay''"
  using plan_overlay_dirs [OF make_plan_facts(1) [OF assms]]
  by (auto simp: publish_paths_def overlay_plan_ok_def Let_def)


section \<open>Recovery\<close>

lemma readopt_keeps: "vols v = Some p \<Longrightarrow> fst (readopt_targets OS ts w (vols, n)) v = Some p"
proof (induction ts arbitrary: vols n)
  case (Cons t ts)
  show ?case
  proof (cases "read_volume_meta OS t w")
    case None
    with Cons show ?thesis by simp
  next
    case (Some m)
    with Cons show ?thesis by (cases "vols (vm_volume_id m)"; cases "v = vm_volume_id m") auto
  qed
qed simp

definition readopted :: "string \<Rightarrow> volume_meta \<Rightarrow> published" where
  "readopted target m =
     \<lparr>pb_child = None, pb_pid = vm_pid m, pb_device = vm_device m, pb_target = target, pb_overlay = vm_overlay m\<rparr>"

lemma readopt_finds:
  assumes "target \<in> set ts" and "read_volume_meta OS target w = Some m"
    and "\<forall>t \<in> set ts. \<forall>m'. read_volume_meta OS t w = Some m' \<and> vm_volume_id m' = vm_volume_id m \<longrightarrow> t = target"
    and "vols (vm_volume_id m) = None"
  shows "fst (readopt_targets OS ts w (vols, n)) (vm_volume_id m) = Some (readopted target m)"
  using assms
proof (induction ts arbitrary: vols n)
  case (Cons t ts)
  show ?case
  proof (cases "t = target")
    case True
    with Cons.prems(2,4) show ?thesis by (simp add: readopt_keeps readopted_def)
  next
    case False
    then have other: "vm_volume_id m' \<noteq> vm_volume_id m" if "read_volume_meta OS t w = Some m'" for m'
      using Cons.prems(3) that by auto
    have skip: "\<exists>vols' n'. readopt_targets OS (t # ts) w (vols, n) = readopt_targets OS ts w (vols', n') \<and>
        vols' (vm_volume_id m) = None"
    proof (cases "read_volume_meta OS t w")
      case None
      then show ?thesis using Cons.prems(4) by auto
    next
      case (Some m')
      then show ?thesis using Cons.prems(4) other [OF Some] by auto
    qed
    have "target \<in> set ts" "\<forall>t \<in> set ts. \<forall>m'. read_volume_meta OS t w = Some m' \<and>
        vm_volume_id m' = vm_volume_id m \<longrightarrow> t = target"
      using Cons.prems(1,3) False by auto
    from Cons.IH [OF this(1) Cons.prems(2) this(2)] skip show ?thesis by metis
  qed
qed simp

lemma meta_path_not_mountinfo: "meta_path target \<noteq> ''/proc/self/mountinfo''"
proof -
  have "last (meta_path target) = CHR ''a''" by (simp add: meta_path_def path_join_def VOLUME_META_NAME_def)
  then show ?thesis by auto
qed

context node_host
begin

lemma scan_finds:
  assumes "e \<in> set (hv_mounts (view w))" and "is_our_target e"
  shows "me_mountpoint e \<in> set (scan_our_targets OS w)"
  using assms parse_mountinfo_text [OF mounts_ok] by (auto simp: scan_our_targets_def mountinfo our_target_mounts_def)

lemma recover_finds:
  assumes "e \<in> set (hv_mounts (view w))" and "is_our_target e" and "vmeta_ok m"
    and "hv_texts (view w) (meta_path (me_mountpoint e)) = Some (volume_meta_serialize m)"
    and "\<forall>t \<in> set (scan_our_targets OS w). \<forall>m'. read_volume_meta OS t w = Some m' \<and>
           vm_volume_id m' = vm_volume_id m \<longrightarrow> t = me_mountpoint e"
    and "ns_volumes ns (vm_volume_id m) = None"
  shows "ns_volumes (recover OS w ns) (vm_volume_id m) = Some (readopted (me_mountpoint e) m)"
proof -
  have t: "me_mountpoint e \<in> set (scan_our_targets OS w)" by (rule scan_finds [OF assms(1,2)])
  have "os_read_to_string OS (meta_path (me_mountpoint e)) w = Inr (volume_meta_serialize m)"
    using read_text [OF meta_path_not_mountinfo] assms(4) by blast
  then have "read_volume_meta OS (me_mountpoint e) w = Some m"
    by (simp add: read_volume_meta_def volume_meta_read_back [OF assms(3)])
  from readopt_finds [where vols = "ns_volumes ns" and n = 0, OF t this assms(5,6)] t show ?thesis
    by (auto simp: recover_def Let_def)
qed

end

text \<open>
  C20. A volume that was published, and whose record was written, survives a restart of the plugin: as long as its
  mount and its record are still there, and no other mount has a record with its id, the table that
  recovery builds from nothing has the volume with the same process, device, target and overlay.
\<close>

theorem published_survives_restart:
  assumes "node_host front opts OS view direct"
    and "publish_paths direct req" and "line_ok (pr_volume_id req)"
    and "ns_volumes ns (pr_volume_id req) = None"
    and "node_publish_volume U OS req ns w = Some (Inr (), ns1, w1)"
    and "hv_texts (view w) (meta_path (pr_target_path req)) = None"
    and "hv_texts (view w1) (meta_path (pr_target_path req)) \<noteq> None"
    and "set (hv_mounts (view w1)) \<subseteq> set (hv_mounts (view w2))"
    and "hv_texts (view w2) (meta_path (pr_target_path req)) = hv_texts (view w1) (meta_path (pr_target_path req))"
    and "\<forall>t \<in> set (scan_our_targets OS w2). \<forall>m. read_volume_meta OS t w2 = Some m \<and>
           vm_volume_id m = pr_volume_id req \<longrightarrow> t = pr_target_path req"
  shows "ns_volumes (recover OS w2 (node_new node_id cfg)) (pr_volume_id req) =
    map_option (\<lambda>p. p\<lparr>pb_child := None\<rparr>) (ns_volumes ns1 (pr_volume_id req))"
proof -
  obtain plan where plan: "make_plan U OS ns req w = Inr plan"
    using assms(4,5) by (auto simp: node_publish_volume_def split: if_splits sum.splits)
  have ok: "overlay_plan_ok direct (pr_target_path req) (pp_overlay plan)"
    by (rule make_plan_overlay(1) [OF plan assms(2)])
  obtain p where dev: "publish_device OS (ns_config ns) plan (pr_volume_id req) (pr_target_path req) w = Some (Inr p, w1)"
    and ns1: "ns_volumes ns1 (pr_volume_id req) = Some p"
    using assms(4,5) plan by (auto simp: node_publish_volume_def split: if_splits option.splits sum.splits)
  have new: "newly_published (pr_volume_id req) (pr_target_path req) (pp_overlay plan) (view w) (view w1) p"
    using node_host.publish_device_returns [OF assms(1) _ _ ok, where cfg = "ns_config ns" and vid = "pr_volume_id req" and w = w]
      assms(2) dev by (auto simp: publish_paths_def)
  let ?m = "meta_of (pr_volume_id req) (pb_device p) (pb_pid p) (pp_overlay plan)"
  obtain e where e: "e \<in> set (hv_mounts (view w2))" "is_our_target e" "me_mountpoint e = pr_target_path req"
    using new assms(8) by (auto simp: newly_published_def)
  have "vmeta_ok ?m"
    using new assms(3) ok
    by (auto simp: newly_published_def meta_of_def vmeta_ok_def device_ok_def overlay_plan_ok_def split: option.splits)
  moreover have "hv_texts (view w2) (meta_path (me_mountpoint e)) = Some (volume_meta_serialize ?m)"
    using new assms(6,7,9) e(3) by (auto simp: newly_published_def)
  moreover have "vm_volume_id ?m = pr_volume_id req" by (simp add: meta_of_def)
  ultimately have "ns_volumes (recover OS w2 (node_new node_id cfg)) (pr_volume_id req) =
      Some (readopted (pr_target_path req) ?m)"
    using node_host.recover_finds [OF assms(1) e(1,2), of ?m "node_new node_id cfg"] assms(10) e(3)
    by (simp add: node_new_def)
  moreover have "readopted (pr_target_path req) ?m = p\<lparr>pb_child := None\<rparr>"
    using new by (cases p) (simp add: readopted_def meta_of_def newly_published_def)
  ultimately show ?thesis using ns1 by simp
qed

section \<open>An example\<close>

definition example_driver :: driver_config where
  "example_driver =
     \<lparr>dc_account = ''acct'', dc_endpoint = ''https://%s.blob.core.windows.net/'', dc_default_container = ''disks'',
      dc_account_key = Some ''a2V5'', dc_use_msi = False, dc_msi_client_id = None, dc_use_workload_identity = False,
      dc_workload_identity_client_id = None, dc_workload_identity_tenant_id = None,
      dc_workload_identity_token_file = None, dc_sp_tenant_id = None, dc_sp_client_id = None,
      dc_sp_client_secret = None, dc_use_nbd = False, dc_nbd_host = ''127.0.0.1'', dc_nbd_port_start = 10809\<rparr>"

definition example_request :: publish_request where
  "example_request =
     \<lparr>pr_volume_id = ''v'', pr_target_path = ''/p/m'', pr_context = [''blob'' \<mapsto> ''b''], pr_secrets = Map.empty,
      pr_capability = None, pr_readonly = False\<rparr>"

definition example_urls :: url_crate where
  "example_urls = \<lparr>uc_parse = (\<lambda>s. Inl BadConfig), uc_query = (\<lambda>q. None)\<rparr>"

definition example_host :: sim_host where
  "example_host = \<lparr>si_mounts = [], si_children = [], si_texts = Map.empty, si_clock = 0, si_formatted = []\<rparr>"

definition example_node :: node_service where
  "example_node = node_new ''node'' example_driver"

definition example_published :: published where
  "example_published =
     \<lparr>pb_child = Some 1, pb_pid = 1, pb_device = ''/dev/ublkb1'', pb_target = ''/p/m'', pb_overlay = None\<rparr>"

definition example_mounted :: sim_host where
  "example_mounted =
     \<lparr>si_mounts = [sim_entry ''ext4'' [] ''/dev/ublkb1'' ''/p/m''], si_children = [1],
      si_texts = Map.empty(''/p/.ublk-volume-meta'' \<mapsto>
        volume_meta_serialize (meta_of ''v'' ''/dev/ublkb1'' 1 None)),
      si_clock = 0, si_formatted = [''/dev/ublkb1'']\<rparr>"

lemma example_paths: "publish_paths sim_direct example_request"
  by (simp add: publish_paths_def example_request_def sim_direct_def token_def is_whitespace_def ends_with_def
      overlay_dirs_def parent_or_root_def path_parent_def strip_tail_def path_join_def overlay_opts_def overlay_ok_def
      line_ok_def nonempty_opt_def Let_def)

lemma nat_to_string_one: "nat_to_string 1 = ''1''"
proof -
  have "char_of (49 :: nat) = CHR ''1''" by code_simp
  then show ?thesis by (subst nat_to_string.simps) (simp add: digit_char_def)
qed

lemma example_attach:
  "attach_device sim_os example_driver plan example_host =
   Some (Inr (1, ''/dev/ublkb1''), example_host\<lparr>si_children := [1]\<rparr>)"
proof -
  have one: "nat_to_string (Suc 0) = ''1''" using nat_to_string_one by simp
  show ?thesis
    by (simp add: attach_device_def example_driver_def spawn_device_def sim_spawn_def example_host_def u32_limit_def
        wait_for_new_device_def list_ublk_devices_def DEVICE_TIMEOUT_def)
       (subst poll_new_device.simps,
        simp add: list_ublk_devices_def numbered_def strip_prefix_def is_digit_def one)
qed

definition example_plan :: publish_plan where
  "example_plan =
     \<lparr>pp_fs_type = ''ext4'', pp_mount_flags = [], pp_size = 0,
      pp_env = [(''UBLK_BLOB_URL'', child_blob_url example_urls ''https://%s.blob.core.windows.net/'' ''acct'' ''disks'' ''b'' None),
                (''AZURE_STORAGE_KEY'', ''a2V5'')],
      pp_readonly = False, pp_overlay = None, pp_from_template = False, pp_fsck = FsckOff\<rparr>"

lemma example_make_plan:
  "(\<And>k. os_var OS k w = None) \<Longrightarrow> make_plan example_urls OS example_node example_request w = Inr example_plan"
  by (simp add: make_plan_def example_request_def fs_and_flags_def context_fs_type_def nonempty_opt_def or_else_def
      DEFAULT_FS_TYPE_def fs_profile_def example_node_def node_new_def example_driver_def child_env_def param_or_def
      auth_env_def coordination_env_def ctx_flag_def opt_env_def tuning_env_def TUNING_PARAMS_def map_filter_simps
      cache_share_pages_def plan_overlay_def fsck_mode_parse_def trim_def trim_start_def trim_end_def
      device_read_only_def example_plan_def Let_def)

lemma example_meta_path: "meta_path ''/p/m'' = ''/p/.ublk-volume-meta''"
  by (simp add: meta_path_def parent_or_root_def path_parent_def strip_tail_def path_join_def VOLUME_META_NAME_def)

lemma example_mount:
  "mount_device sim_os example_plan ''/dev/ublkb1'' ''/p/m'' (example_host\<lparr>si_children := [1]\<rparr>) =
   (Inr (), example_mounted\<lparr>si_texts := Map.empty\<rparr>)"
  by (simp add: mount_device_def example_plan_def ensure_filesystem_def has_filesystem_def sim_command_def
      example_host_def sim_exit_def cmd_success_def mkfs_def fs_profile_def run_cmd_def starts_with_def mount_def
      sim_mount_def mount_args_def mount_request_def sim_direct_def token_def is_whitespace_def example_mounted_def
      sim_mounts_def)

lemma example_publish:
  "node_publish_volume example_urls sim_os example_request example_node example_host =
   Some (Inr (), example_node\<lparr>ns_volumes := [''v'' \<mapsto> example_published]\<rparr>, example_mounted)"
  using example_attach [of example_plan] example_mount example_make_plan [of sim_os example_host]
  by (simp add: node_publish_volume_def publish_device_def example_node_def node_new_def example_request_def
      example_published_def write_volume_meta_def meta_tmp_path_def example_meta_path)
     (simp add: example_mounted_def example_plan_def fun_eq_iff)


theorem published_survives_restart_witness:
  "ns_volumes (recover sim_os example_mounted (node_new ''node'' example_driver)) ''v'' =
     Some (example_published\<lparr>pb_child := None\<rparr>)"
proof -
  have one: "scan_our_targets sim_os example_mounted = [''/p/m'']"
    using sim.parse_mountinfo_text [of "[sim_entry ''ext4'' [] ''/dev/ublkb1'' ''/p/m'']"]
    by (simp add: scan_our_targets_def example_mounted_def sim_mounts_def entry_ok_def sim_entry_def token_def
        is_whitespace_def our_target_mounts_def is_our_target_def ends_with_def starts_with_def)
  show ?thesis
    using published_survives_restart [OF sim.node_host_axioms example_paths _ _ example_publish, of example_mounted
        "''node''" example_driver] one
    by (simp add: example_request_def line_ok_def example_node_def node_new_def example_host_def example_meta_path)
       (simp add: example_mounted_def)
qed

end
