(* ===== verification/Csi_Unpublish.thy ===== *)
theory Csi_Unpublish
  imports Csi_Published
begin

text \<open>
  \<open>NodeUnpublishVolume\<close> on a lawful host (\<open>csi/node.rs\<close>), and two facts on the calls the node service makes,
  on any host at all: a device is formatted only when it is blank and may be, and a failed unmount makes the
  service forget the process of the volume. The calls are recorded by \<open>traced\<close>, a host that writes a log.
\<close>

section \<open>Tearing down\<close>

context node_host
begin

lemma teardown_returns:
  assumes "direct target" and "pb_child p \<in> {None, Some (pb_pid p)}"
    and "\<forall>dirs. pb_overlay p = Some dirs \<longrightarrow> direct (od_lower dirs)"
  shows "\<exists>w'. teardown OS target p w = Some w' \<and> quiet (view w) (view w') \<and>
    (pb_pid p \<notin> hv_children (view w') \<or>
     pb_child p = None \<and> hv_clock (view w) + UNPUBLISH_TIMEOUT \<le> hv_clock (view w')) \<and>
    set (hv_mounts (view w')) \<subseteq> set (hv_mounts (view w)) \<and>
    (\<forall>e \<in> set (hv_mounts (view w)).
       me_mountpoint e \<notin> insert target (od_lower ` set_option (pb_overlay p)) \<longrightarrow> e \<in> set (hv_mounts (view w')))"
proof -
  define w1 where "w1 = (case pb_overlay p of
    Some dirs \<Rightarrow> snd (umount_overlay OS target dirs w) | None \<Rightarrow> w)"
  have q1: "quiet (view w) (view w1) \<and> set (hv_mounts (view w1)) \<subseteq> set (hv_mounts (view w)) \<and>
    (\<forall>e \<in> set (hv_mounts (view w)).
       me_mountpoint e \<notin> insert target (od_lower ` set_option (pb_overlay p)) \<longrightarrow> e \<in> set (hv_mounts (view w1)))"
  proof (cases "pb_overlay p")
    case (Some dirs)
    with assms(3) have "direct (od_lower dirs)" by blast
    obtain r w' where w': "umount_overlay OS target dirs w = (r, w')" by (metis surj_pair)
    show ?thesis
      using umount_overlay_result [OF w' assms(1) \<open>direct (od_lower dirs)\<close>] Some w' by (auto simp: w1_def)
  qed (simp add: w1_def)
  define w2 where "w2 = signal_pid OS (pb_pid p) SIGINT w1"
  have c2: "calm (view w1) (view w2)"
    using kill_calm [OF prod.collapse [symmetric]] by (simp add: w2_def signal_pid_def)
  show ?thesis
  proof (cases "pb_child p")
    case (Some pid)
    obtain r3 w3 where w3: "os_wait OS pid w2 = (r3, w3)" by (metis surj_pair)
    have "teardown OS target p w = Some w3"
      using Some w3 by (simp add: teardown_def w1_def w2_def)
    then show ?thesis
      using q1 c2 wait [OF w3] Some assms(2) quiet_trans by (auto simp: calm_def)
  next
    case None
    obtain gone w3 where w3: "wait_pid_exit OS (pb_pid p) UNPUBLISH_TIMEOUT w2 = Some (gone, w3)"
      and c3: "calm (view w2) (view w3)"
      and fin: "gone \<and> pb_pid p \<notin> hv_children (view w3) \<or>
        \<not> gone \<and> hv_clock (view w2) + UNPUBLISH_TIMEOUT \<le> hv_clock (view w3)"
      using poll_pid_exit_returns by (metis wait_pid_exit_def now)
    have "teardown OS target p w = Some w3"
      using None w3 by (simp add: teardown_def w1_def w2_def)
    moreover have "quiet (view w) (view w3)" using q1 c2 c3 quiet_trans unfolding calm_def by blast
    moreover have "hv_clock (view w) \<le> hv_clock (view w2)"
      using q1 c2 by (auto simp: calm_def quiet_def)
    ultimately show ?thesis
      using q1 c2 c3 fin None by (auto simp: calm_def)
  qed
qed

lemma remove_volume_meta_result:
  "quiet (view w) (view (remove_volume_meta OS target w)) \<and>
   hv_mounts (view (remove_volume_meta OS target w)) = hv_mounts (view w)"
  using remove_file [OF prod.collapse [symmetric]] by (auto simp: remove_volume_meta_def)

end



section \<open>The calls made\<close>

datatype call =
    RanCommand string "string list" bool
  | Killed nat nat
  | OtherCall

definition lift_call ::
  "('r \<Rightarrow> call) \<Rightarrow> ('o \<Rightarrow> 'r \<times> 'o) \<Rightarrow> 'o \<times> call list \<Rightarrow> 'r \<times> 'o \<times> call list" where
  "lift_call c f s = (case f (fst s) of (r, w) \<Rightarrow> (r, w, snd s @ [c r]))"

definition traced :: "'o os \<Rightarrow> ('o \<times> call list) os" where
  "traced OS = \<lparr>
     os_now = (\<lambda>s. os_now OS (fst s)),
     os_sleep = (\<lambda>d s. (os_sleep OS d (fst s), snd s)),
     os_var = (\<lambda>k s. os_var OS k (fst s)),
     os_hash_next = (\<lambda>xs s. os_hash_next OS xs (fst s)),
     os_bind = (\<lambda>h p s. os_bind OS h p (fst s)),
     os_resolve = (\<lambda>h p s. os_resolve OS h p (fst s)),
     os_connect = (\<lambda>a. lift_call (\<lambda>_. OtherCall) (os_connect OS a)),
     os_read_dir = (\<lambda>d s. os_read_dir OS d (fst s)),
     os_exists = (\<lambda>p s. os_exists OS p (fst s)),
     os_is_dir = (\<lambda>p s. os_is_dir OS p (fst s)),
     os_create_dir_all = (\<lambda>p. lift_call (\<lambda>_. OtherCall) (os_create_dir_all OS p)),
     os_remove_dir_all = (\<lambda>p. lift_call (\<lambda>_. OtherCall) (os_remove_dir_all OS p)),
     os_read_to_string = (\<lambda>p s. os_read_to_string OS p (fst s)),
     os_write = (\<lambda>p t. lift_call (\<lambda>_. OtherCall) (os_write OS p t)),
     os_rename = (\<lambda>p q. lift_call (\<lambda>_. OtherCall) (os_rename OS p q)),
     os_remove_file = (\<lambda>p. lift_call (\<lambda>_. OtherCall) (os_remove_file OS p)),
     os_spawn = (\<lambda>args env. lift_call (\<lambda>_. OtherCall) (os_spawn OS args env)),
     os_try_wait = (\<lambda>pid. lift_call (\<lambda>_. OtherCall) (os_try_wait OS pid)),
     os_wait = (\<lambda>pid. lift_call (\<lambda>_. OtherCall) (os_wait OS pid)),
     os_kill = (\<lambda>pid sig. lift_call (\<lambda>_. Killed pid sig) (os_kill OS pid sig)),
     os_command = (\<lambda>cmd args. lift_call (\<lambda>r. RanCommand cmd args (cmd_ok r)) (os_command OS cmd args))\<rparr>"

lemma traced_sel [simp]:
  "os_now (traced OS) = (\<lambda>s. os_now OS (fst s))"
  "os_sleep (traced OS) = (\<lambda>d s. (os_sleep OS d (fst s), snd s))"
  "os_var (traced OS) = (\<lambda>k s. os_var OS k (fst s))"
  "os_exists (traced OS) = (\<lambda>p s. os_exists OS p (fst s))"
  "os_connect (traced OS) = (\<lambda>a. lift_call (\<lambda>_. OtherCall) (os_connect OS a))"
  "os_create_dir_all (traced OS) = (\<lambda>p. lift_call (\<lambda>_. OtherCall) (os_create_dir_all OS p))"
  "os_remove_dir_all (traced OS) = (\<lambda>p. lift_call (\<lambda>_. OtherCall) (os_remove_dir_all OS p))"
  "os_write (traced OS) = (\<lambda>p t. lift_call (\<lambda>_. OtherCall) (os_write OS p t))"
  "os_rename (traced OS) = (\<lambda>p q. lift_call (\<lambda>_. OtherCall) (os_rename OS p q))"
  "os_remove_file (traced OS) = (\<lambda>p. lift_call (\<lambda>_. OtherCall) (os_remove_file OS p))"
  "os_spawn (traced OS) = (\<lambda>args env. lift_call (\<lambda>_. OtherCall) (os_spawn OS args env))"
  "os_try_wait (traced OS) = (\<lambda>pid. lift_call (\<lambda>_. OtherCall) (os_try_wait OS pid))"
  "os_wait (traced OS) = (\<lambda>pid. lift_call (\<lambda>_. OtherCall) (os_wait OS pid))"
  "os_kill (traced OS) = (\<lambda>pid sig. lift_call (\<lambda>_. Killed pid sig) (os_kill OS pid sig))"
  "os_command (traced OS) = (\<lambda>cmd args. lift_call (\<lambda>r. RanCommand cmd args (cmd_ok r)) (os_command OS cmd args))"
  by (simp_all add: traced_def)

text \<open>The log grows by calls of a kind.\<close>

definition grows :: "(call \<Rightarrow> bool) \<Rightarrow> 'o \<times> call list \<Rightarrow> 'o \<times> call list \<Rightarrow> bool" where
  "grows good s s' \<longleftrightarrow> (\<exists>new. snd s' = snd s @ new \<and> list_all good new)"

lemma grows_refl [simp]: "grows good s s"
  by (simp add: grows_def)

lemma grows_trans [trans]: "grows good s s' \<Longrightarrow> grows good s' s'' \<Longrightarrow> grows good s s''"
  by (fastforce simp: grows_def)

lemma grows_log: "grows good s (w, snd s)"
  by (simp add: grows_def)

lemma lift_call_grows: "lift_call c f s = (r, s') \<Longrightarrow> (\<And>r. good (c r)) \<Longrightarrow> grows good s s'"
  by (auto simp: lift_call_def grows_def split: prod.splits)

definition formats :: "call \<Rightarrow> bool" where
  "formats c = (case c of RanCommand cmd args ok \<Rightarrow> starts_with ''mkfs.'' cmd | _ \<Rightarrow> False)"

abbreviation plain :: "call \<Rightarrow> bool" where
  "plain c \<equiv> \<not> formats c"

lemma lift_plain:
  "lift_call (\<lambda>_. OtherCall) f s = (r1, s') \<Longrightarrow> grows plain s s'"
  "lift_call (\<lambda>_. Killed pid sig) f2 s = (r2, s') \<Longrightarrow> grows plain s s'"
  "lift_call (\<lambda>r. RanCommand cmd args (g r)) f3 s = (r3, s') \<Longrightarrow> \<not> starts_with ''mkfs.'' cmd \<Longrightarrow> grows plain s s'"
  by (erule lift_call_grows, simp add: formats_def)+

text \<open>A relation that every call but the formatting keeps.\<close>

locale steady =
  fixes OS :: "'o os"
    and R :: "'o \<Rightarrow> 'o \<Rightarrow> bool"
  assumes R_refl: "R w w"
    and R_trans: "R w w1 \<Longrightarrow> R w1 w2 \<Longrightarrow> R w w2"
    and R_sleep: "R w (os_sleep OS d w)"
    and R_try_wait: "os_try_wait OS pid w = (r1, w') \<Longrightarrow> R w w'"
    and R_connect: "os_connect OS a w = (r2, w') \<Longrightarrow> R w w'"
    and R_spawn: "os_spawn OS args env w = (r3, w') \<Longrightarrow> R w w'"
    and R_kill: "os_kill OS pid sig w = (r4, w') \<Longrightarrow> R w w'"
    and R_wait: "os_wait OS pid w = (r5, w') \<Longrightarrow> R w w'"
    and R_create_dir: "os_create_dir_all OS p w = (r7, w') \<Longrightarrow> R w w'"
    and R_remove_dir: "os_remove_dir_all OS p w = (r7, w') \<Longrightarrow> R w w'"
    and R_write: "os_write OS p t w = (r7, w') \<Longrightarrow> R w w'"
    and R_rename: "os_rename OS p q w = (r7, w') \<Longrightarrow> R w w'"
    and R_tool: "os_command OS cmd args w = (r6, w') \<Longrightarrow>
          cmd \<in> {''nbd-client'', ''blockdev'', ''fsck'', ''mount'', ''umount''} \<Longrightarrow> R w w'"
begin

lemma poll_new_device_keeps:
  assumes "poll_new_device OS before child deadline w = Some (r, w')"
  shows "R w w'"
proof -
  let ?P = "\<lambda>OS' before child deadline w y. OS' = OS \<longrightarrow> R w (snd y)"
  have "?P OS before child deadline w (r, w')"
  proof (rule poll_new_device.raw_induct [where P = ?P, OF _ assms], intro impI, goal_cases)
    case (1 poll OS' before child deadline w y)
    obtain r1 w1 where w1: "os_try_wait OS child w = (r1, w1)" by (metis surj_pair)
    note g = R_try_wait [OF w1] and IH = 1(1) [rule_format, OF _ refl] and body = 1(2) [unfolded 1(3)]
    have again: "R w (snd y)" if "poll OS before child deadline (os_sleep OS 250 w1) = Some y"
      by (rule R_trans [OF R_trans [OF g R_sleep] IH [OF that]])
    show ?case
      using body w1 g again R_refl [of w] by (auto split: if_splits option.splits sum.splits)
  qed
  then show ?thesis by simp
qed

lemma poll_nbd_server_keeps:
  assumes "poll_nbd_server OS addr child deadline w = Some (r, w')"
  shows "R w w'"
proof -
  let ?P = "\<lambda>OS' addr child deadline w y. OS' = OS \<longrightarrow> R w (snd y)"
  have "?P OS addr child deadline w (r, w')"
  proof (rule poll_nbd_server.raw_induct [where P = ?P, OF _ assms], intro impI, goal_cases)
    case (1 poll OS' addr child deadline w y)
    obtain r1 w1 where w1: "os_try_wait OS child (os_sleep OS 200 w) = (r1, w1)" by (metis surj_pair)
    obtain r2 w2 where w2: "os_connect OS addr w1 = (r2, w2)" by (metis surj_pair)
    have g1: "R w w1" by (rule R_trans [OF R_sleep R_try_wait [OF w1]])
    have g2: "R w w2" by (rule R_trans [OF g1 R_connect [OF w2]])
    note IH = 1(1) [rule_format, OF _ refl] and body = 1(2) [unfolded 1(3)]
    have again: "R w (snd y)" if "poll OS addr child deadline w2 = Some y"
      by (rule R_trans [OF g2 IH [OF that]])
    show ?case
      using body w1 w2 g1 g2 again R_refl [of w] by (auto split: if_splits option.splits sum.splits)
  qed
  then show ?thesis by simp
qed

lemma nbd_device_size_keeps: "nbd_device_size OS dev w = (n, w') \<Longrightarrow> R w w'"
  using R_refl by (auto simp: nbd_device_size_def split: if_splits prod.splits sum.splits dest!: R_tool)

lemma poll_nbd_size_keeps:
  assumes "poll_nbd_size OS dev deadline w = Some (r, w')"
  shows "R w w'"
proof -
  let ?P = "\<lambda>OS' dev deadline w y. OS' = OS \<longrightarrow> R w (snd y)"
  have "?P OS dev deadline w (r, w')"
  proof (rule poll_nbd_size.raw_induct [where P = ?P, OF _ assms], intro impI, goal_cases)
    case (1 poll OS' dev deadline w y)
    obtain n w1 where w1: "nbd_device_size OS dev w = (n, w1)" by (metis surj_pair)
    note g = nbd_device_size_keeps [OF w1]
    note IH = 1(1) [rule_format, OF _ refl] and body = 1(2) [unfolded 1(3)]
    have again: "R w (snd y)" if "poll OS dev deadline (os_sleep OS 250 w1) = Some y"
      by (rule R_trans [OF R_trans [OF g R_sleep] IH [OF that]])
    show ?case
      using body w1 g again R_refl [of w] by (auto split: if_splits)
  qed
  then show ?thesis by simp
qed

lemma connect_nbd_device_keeps:
  assumes "connect_nbd_device OS h port child deadline w = Some (r, w')"
  shows "R w w'"
proof -
  obtain r1 w1 where w1: "os_try_wait OS child w = (r1, w1)" by (metis surj_pair)
  note g1 = R_try_wait [OF w1]
  have step: "R w w'" if "os_command OS ''nbd-client'' args w1 = (r2, w2)"
      "w' = w2 \<or> poll_nbd_size OS dev deadline w2 = Some (r3, w')" for args r2 w2 r3 dev
  proof -
    have g2: "R w w2" using R_trans [OF g1 R_tool [OF that(1)]] by simp
    with that(2) show ?thesis using R_trans [OF g2 poll_nbd_size_keeps] by auto
  qed
  show ?thesis
    using assms w1 g1 step
    by (fastforce simp: connect_nbd_device_def split: sum.splits option.splits prod.splits if_splits)
qed

lemma wait_and_connect_nbd_keeps:
  assumes "wait_and_connect_nbd OS listen child timeout w = Some (r, w')"
  shows "R w w'"
proof (cases "nbd_address OS listen w")
  case (Inl e)
  with assms R_refl show ?thesis by (simp add: wait_and_connect_nbd_def)
next
  case (Inr a)
  obtain h port addr where a: "a = (h, port, addr)" by (cases a)
  obtain r1 w1 where w1: "poll_nbd_server OS addr child (os_now OS w + timeout) w = Some (r1, w1)"
    using assms Inr a by (auto simp: wait_and_connect_nbd_def Let_def split: option.splits)
  note g1 = poll_nbd_server_keeps [OF w1]
  show ?thesis
    using assms Inr a w1 g1 R_trans [OF g1 connect_nbd_device_keeps]
    by (cases r1) (auto simp: wait_and_connect_nbd_def Let_def)
qed

lemma stop_child_keeps: "R w (stop_child OS pid w)"
  unfolding stop_child_def signal_pid_def
  by (rule R_trans [OF R_kill [OF prod.collapse [symmetric]] R_wait [OF prod.collapse [symmetric]]])

lemma attach_device_keeps:
  assumes "attach_device OS cfg plan w = Some (r, w')"
  shows "R w w'"
proof -
  define listen where "listen = (if dc_use_nbd cfg
    then (case find_free_port OS (dc_nbd_host cfg) (dc_nbd_port_start cfg) 1024 w of
            Inl e \<Rightarrow> Inl e
          | Inr port \<Rightarrow> Inr (Some (dc_nbd_host cfg @ '':'' @ nat_to_string port)))
    else Inr None)"
  note at = assms [unfolded attach_device_def, folded listen_def]
  show ?thesis
  proof (cases listen)
    case (Inl e)
    with at R_refl show ?thesis by simp
  next
    case listen: (Inr l)
    obtain r1 w1 where w1: "spawn_device OS (pp_size plan) (pp_env plan) l w = (r1, w1)" by (metis surj_pair)
    have g1: "R w w1" using R_spawn w1 by (simp add: spawn_device_def)
    show ?thesis
    proof (cases r1)
      case (Inl e)
      with at listen w1 g1 show ?thesis by simp
    next
      case (Inr pid)
      let ?wait = "case l of Some a \<Rightarrow> wait_and_connect_nbd OS a pid DEVICE_TIMEOUT w1
        | None \<Rightarrow> wait_for_new_device OS (if l = None then list_ublk_devices OS w else []) pid DEVICE_TIMEOUT w1"
      obtain r2 w2 where w2: "?wait = Some (r2, w2)"
        using at listen w1 Inr by (cases ?wait) auto
      have "R w1 w2"
        using w2 wait_and_connect_nbd_keeps poll_new_device_keeps
        by (cases l) (auto simp: wait_for_new_device_def)
      note g2 = R_trans [OF g1 this]
      show ?thesis
        using at listen w1 Inr w2 g2 R_trans [OF g2 stop_child_keeps] by (cases r2) auto
    qed
  qed
qed

lemma try_then_keeps:
  assumes "try_then m f = (r, w')" and "\<And>r1 w1. m = (r1, w1) \<Longrightarrow> R w w1"
    and "\<And>x w1. m = (Inr x, w1) \<Longrightarrow> f x w1 = (r, w') \<Longrightarrow> R w1 w'"
  shows "R w w'"
proof -
  obtain r1 w1 where m: "m = (r1, w1)" by (cases m)
  show ?thesis
  proof (cases r1)
    case (Inl e)
    with assms(1,2) m show ?thesis by simp
  next
    case (Inr x)
    with assms(1) m have "f x w1 = (r, w')" by simp
    from R_trans [OF assms(2) [OF m] assms(3) [OF m [unfolded Inr] this]] show ?thesis .
  qed
qed

lemma run_cmd_keeps:
  "run_cmd OS cmd args w = (r, w') \<Longrightarrow> cmd \<in> {''fsck'', ''mount'', ''umount''} \<Longrightarrow> R w w'"
  unfolding run_cmd_def by (erule try_then_keeps) (auto simp: R_refl dest!: R_tool split: if_splits)

lemma fsck_keeps: "fsck OS dev fs mode w = (r, w') \<Longrightarrow> R w w'"
  by (cases mode)
     (auto simp: fsck_def Let_def R_refl elim!: try_then_keeps dest!: R_tool split: if_splits)

lemma mount_keeps: "mount OS dev target fs flags ro w = (r, w') \<Longrightarrow> R w w'"
  unfolding mount_def by (erule try_then_keeps) (auto dest: R_create_dir run_cmd_keeps)

lemma umount_keeps: "umount OS target w = (r, w') \<Longrightarrow> R w w'"
  unfolding umount_def
  by (auto simp: R_refl elim!: try_then_keeps dest!: R_tool split: if_splits)

lemma remove_dirs_keeps: "R w (remove_dirs OS ds w)"
proof (induction ds arbitrary: w)
  case (Cons d ds)
  show ?case
    using R_trans [OF R_remove_dir [OF prod.collapse [symmetric]] Cons] by simp
qed (simp add: R_refl)

lemma create_dirs_keeps: "create_dirs OS ds w = (r, w') \<Longrightarrow> R w w'"
proof (induction ds arbitrary: w)
  case (Cons d ds)
  from Cons.prems show ?case
    by (auto elim!: try_then_keeps dest: R_create_dir Cons.IH)
qed (simp add: R_refl)

lemma overlay_mount_keeps:
  assumes "(case run_cmd OS ''mount'' args w of
      (Inl e, w1) \<Rightarrow> (Inl e, snd (umount OS t w1)) | (Inr u, w1) \<Rightarrow> (Inr (), w1)) = (r, w')"
  shows "R w w'"
proof -
  obtain r1 w1 where w1: "run_cmd OS ''mount'' args w = (r1, w1)" by (metis surj_pair)
  have g: "R w w1" by (rule run_cmd_keeps [OF w1]) simp
  show ?thesis
    using assms w1 g R_trans [OF g umount_keeps [OF prod.collapse [symmetric]]] by (cases r1) auto
qed

lemma mount_overlay_keeps: "mount_overlay OS dev target fs flags dirs w = (r, w') \<Longrightarrow> R w w'"
  unfolding mount_overlay_def
proof (erule try_then_keeps, goal_cases)
  case (1 r1 w1)
  then show ?case by (rule R_trans [OF remove_dirs_keeps create_dirs_keeps])
next
  case (2 x w1)
  from 2(2) show ?case
  proof (rule try_then_keeps, goal_cases)
    case (2 x w2)
    from 2(2) show ?case
      by (rule try_then_keeps) (auto dest: R_create_dir overlay_mount_keeps)
  qed (rule mount_keeps)
qed

lemma umount_overlay_keeps: "umount_overlay OS target dirs w = (r, w') \<Longrightarrow> R w w'"
  unfolding umount_overlay_def
proof (erule try_then_keeps, goal_cases)
  case (2 x w1)
  from 2(2) show ?case
    by (rule try_then_keeps)
       (auto simp del: remove_dirs.simps append.simps dest: umount_keeps intro: remove_dirs_keeps)
qed (rule umount_keeps)

lemma write_volume_meta_keeps: "write_volume_meta OS target m w = (r, w') \<Longrightarrow> R w w'"
  unfolding write_volume_meta_def by (erule try_then_keeps) (auto dest: R_write R_rename)

end

interpretation trace_plain: steady "traced OS" "grows plain"
  by unfold_locales
     (auto simp: grows_log starts_with_def intro: grows_trans dest!: lift_plain)

text \<open>A device is formatted right after \<open>blkid\<close> found nothing on it, if the plan allows it.\<close>

definition one_format :: "call list \<Rightarrow> bool" where
  "one_format new \<longleftrightarrow>
     (\<exists>a dev cmd options ok b. new = a @ [RanCommand ''blkid'' [dev] False, RanCommand cmd (options @ [dev]) ok] @ b \<and>
        list_all plain a \<and> list_all plain b)"

definition careful :: "bool \<Rightarrow> 'o \<times> call list \<Rightarrow> 'o \<times> call list \<Rightarrow> bool" where
  "careful allowed s s' \<longleftrightarrow> grows plain s s' \<or> allowed \<and> (\<exists>new. snd s' = snd s @ new \<and> one_format new)"

lemma one_formatI:
  "list_all plain a \<Longrightarrow> list_all plain b \<Longrightarrow>
   one_format (a @ [RanCommand ''blkid'' [dev] False, RanCommand cmd (options @ [dev]) ok] @ b)"
  unfolding one_format_def by blast

lemma one_format_wrap:
  assumes "one_format new" and "list_all plain n1" and "list_all plain n2"
  shows "one_format (n1 @ new @ n2)"
proof -
  obtain a dev cmd options ok b where new: "new = a @ [RanCommand ''blkid'' [dev] False, RanCommand cmd (options @ [dev]) ok] @ b"
    and "list_all plain a" "list_all plain b"
    using assms(1) unfolding one_format_def by blast
  then have "one_format ((n1 @ a) @ [RanCommand ''blkid'' [dev] False, RanCommand cmd (options @ [dev]) ok] @ (b @ n2))"
    using assms(2,3) by (intro one_formatI) simp_all
  with new show ?thesis by simp
qed

lemma careful_before: "grows plain s s1 \<Longrightarrow> careful allowed s1 s2 \<Longrightarrow> careful allowed s s2"
proof -
  assume g: "grows plain s s1" and c: "careful allowed s1 s2"
  obtain n1 where n1: "snd s1 = snd s @ n1" "list_all plain n1" using g by (auto simp: grows_def)
  have "one_format (n1 @ new)" if "one_format new" for new
    using one_format_wrap [OF that n1(2), of "[]"] by simp
  then show ?thesis
    using c n1 grows_trans [OF g, of s2] by (auto simp: careful_def)
qed

lemma careful_after: "careful allowed s s1 \<Longrightarrow> grows plain s1 s2 \<Longrightarrow> careful allowed s s2"
proof -
  assume c: "careful allowed s s1" and g: "grows plain s1 s2"
  obtain n2 where n2: "snd s2 = snd s1 @ n2" "list_all plain n2" using g by (auto simp: grows_def)
  have "one_format (new @ n2)" if "one_format new" for new
    using one_format_wrap [OF that _ n2(2), of "[]"] by simp
  then show ?thesis
    using c n2 grows_trans [OF _ g, of s] by (auto simp: careful_def)
qed

lemma ensure_filesystem_careful:
  assumes "ensure_filesystem (traced OS) plan dev s = (r, s')"
  shows "careful (\<not> pp_from_template plan \<and> \<not> pp_readonly plan) s s'"
proof -
  obtain r1 w1 where w1: "os_command OS ''blkid'' [dev] (fst s) = (r1, w1)" by (metis surj_pair)
  let ?s1 = "(w1, snd s @ [RanCommand ''blkid'' [dev] (cmd_ok r1)])"
  have blk: "has_filesystem (traced OS) dev s = (cmd_ok r1, ?s1)"
    using w1 by (cases r1) (auto simp: has_filesystem_def lift_call_def cmd_ok_def)
  have plain1: "grows plain s ?s1" by (simp add: grows_def formats_def starts_with_def)
  show ?thesis
  proof (cases "cmd_ok r1 \<or> pp_from_template plan \<or> pp_readonly plan")
    case True
    then have "s' = ?s1"
      using assms blk by (auto simp: ensure_filesystem_def split: if_splits bool.splits)
    with plain1 show ?thesis by (simp add: careful_def)
  next
    case False
    then have s': "s' = snd (mkfs (traced OS) dev (pp_fs_type plan) ?s1)"
      using assms blk
      by (cases "mkfs (traced OS) dev (pp_fs_type plan) ?s1"; cases "fst (mkfs (traced OS) dev (pp_fs_type plan) ?s1)")
         (auto simp: ensure_filesystem_def)
    show ?thesis
    proof (cases "mkfs_options (fs_profile (pp_fs_type plan))")
      case None
      with s' plain1 show ?thesis by (simp add: mkfs_def careful_def)
    next
      case (Some options)
      let ?cmd = "''mkfs.'' @ pp_fs_type plan"
      obtain r2 w2 where w2: "os_command OS ?cmd (options @ [dev]) w1 = (r2, w2)" by (metis surj_pair)
      have "snd s' = snd s @ [RanCommand ''blkid'' [dev] False, RanCommand ?cmd (options @ [dev]) (cmd_ok r2)]"
        using s' Some w2 False by (cases r2) (auto simp: mkfs_def run_cmd_def lift_call_def)
      with False one_formatI [of "[]" "[]" dev ?cmd options "cmd_ok r2"] show ?thesis
        by (auto simp: careful_def)
    qed
  qed
qed

lemma mount_device_careful:
  assumes "mount_device (traced OS) plan dev target s = (r, s')"
  shows "careful (\<not> pp_from_template plan \<and> \<not> pp_readonly plan) s s'"
proof -
  obtain r1 s1 where s1: "ensure_filesystem (traced OS) plan dev s = (r1, s1)" by (metis surj_pair)
  note c1 = ensure_filesystem_careful [OF s1]
  show ?thesis
  proof (cases r1)
    case (Inl e)
    with assms s1 c1 show ?thesis by (simp add: mount_device_def)
  next
    case (Inr formatted)
    let ?check = "if pp_fsck plan \<noteq> FsckOff \<and> \<not> formatted \<and> \<not> pp_readonly plan
      then fsck (traced OS) dev (pp_fs_type plan) (pp_fsck plan) s1 else (Inr (), s1)"
    have rest: "try_then ?check
      (\<lambda>_ w. case pp_overlay plan of
          Some dirs \<Rightarrow> mount_overlay (traced OS) dev target (pp_fs_type plan) (pp_mount_flags plan) dirs w
        | None \<Rightarrow> mount (traced OS) dev target (pp_fs_type plan) (pp_mount_flags plan) (pp_readonly plan) w) = (r, s')"
      using assms s1 Inr by (simp add: mount_device_def)
    have "grows plain s1 s'"
      using rest
      by (rule trace_plain.try_then_keeps)
         (auto split: if_splits option.splits dest: trace_plain.fsck_keeps trace_plain.mount_overlay_keeps
            trace_plain.mount_keeps)
    with c1 show ?thesis by (rule careful_after)
  qed
qed

lemma publish_device_careful:
  assumes "publish_device (traced OS) cfg plan vid target s = Some (r, s')"
  shows "careful (\<not> pp_from_template plan \<and> \<not> pp_readonly plan) s s'"
proof -
  obtain r1 s1 where s1: "attach_device (traced OS) cfg plan s = Some (r1, s1)"
    using assms by (auto simp: publish_device_def split: option.splits)
  note g1 = trace_plain.attach_device_keeps [OF s1]
  show ?thesis
  proof (cases r1)
    case (Inl e)
    with assms s1 g1 show ?thesis by (simp add: publish_device_def careful_def)
  next
    case (Inr pd)
    then obtain pid dev where r1: "r1 = Inr (pid, dev)" by (cases pd) simp
    obtain r2 s2 where s2: "mount_device (traced OS) plan dev target s1 = (r2, s2)" by (metis surj_pair)
    note c2 = careful_before [OF g1 mount_device_careful [OF s2]]
    define s3 where "s3 = (case pp_overlay plan of
      Some dirs \<Rightarrow> snd (umount_overlay (traced OS) target dirs s2) | None \<Rightarrow> s2)"
    have "grows plain s2 s3"
      by (cases "pp_overlay plan")
         (auto simp: s3_def intro: trace_plain.umount_overlay_keeps [OF prod.collapse [symmetric]]
           simp del: split_paired_All)
    from grows_trans [OF this trace_plain.stop_child_keeps] have undo: "grows plain s2 (stop_child (traced OS) pid s3)" .
    have finish: "grows plain s2 (snd (write_volume_meta (traced OS) target m s2))" for m
      by (rule trace_plain.write_volume_meta_keeps [OF prod.collapse [symmetric]])
    have "grows plain s2 s'"
      using assms s1 r1 s2 undo finish by (cases r2) (auto simp: publish_device_def s3_def)
    with c2 show ?thesis by (rule careful_after)
  qed
qed

lemma example_attach_traced:
  "attach_device (traced sim_os) example_driver plan (example_host, []) =
   Some (Inr (1, ''/dev/ublkb1''), example_host\<lparr>si_children := [1]\<rparr>, [OtherCall])"
proof -
  have one: "nat_to_string (Suc 0) = ''1''" using nat_to_string_one by simp
  show ?thesis
    by (simp add: attach_device_def example_driver_def spawn_device_def sim_spawn_def example_host_def u32_limit_def
        wait_for_new_device_def list_ublk_devices_def DEVICE_TIMEOUT_def lift_call_def)
       (subst poll_new_device.simps,
        simp add: traced_def list_ublk_devices_def numbered_def strip_prefix_def is_digit_def one)
qed

lemma example_mount_traced:
  "mount_device (traced sim_os) example_plan ''/dev/ublkb1'' ''/p/m'' (example_host\<lparr>si_children := [1]\<rparr>, l) =
   (Inr (), example_mounted\<lparr>si_texts := Map.empty\<rparr>,
    l @ [RanCommand ''blkid'' [''/dev/ublkb1''] False,
         RanCommand ''mkfs.ext4'' ([''-F'', ''-E'', ''nodiscard,lazy_itable_init=1,lazy_journal_init=1''] @ [''/dev/ublkb1'']) True,
         OtherCall, RanCommand ''mount'' [''-t'', ''ext4'', ''/dev/ublkb1'', ''/p/m''] True])"
  by (simp add: mount_device_def example_plan_def ensure_filesystem_def has_filesystem_def sim_command_def
      example_host_def sim_exit_def cmd_success_def mkfs_def fs_profile_def run_cmd_def starts_with_def mount_def
      sim_mount_def mount_args_def mount_request_def sim_direct_def token_def is_whitespace_def example_mounted_def
      sim_mounts_def lift_call_def cmd_ok_def)



text \<open>
  When the unmount fails, \<open>NodeUnpublishVolume\<close> has already dropped the volume from the table: neither this
  call nor a later successful one sends the device process any signal, whatever the host does.
\<close>

theorem failed_unmount_strands_process:
  assumes "vid \<noteq> []" and "target \<noteq> []"
    and "node_unpublish_volume (traced OS) vid target ns s = Some (Inl e, ns1, s1)"
    and "node_unpublish_volume (traced OS) vid target ns1 (w2, snd s1) = Some (Inr (), ns2, s2)"
  shows "\<exists>new. snd s2 = snd s @ new \<and> (\<forall>pid sig. Killed pid sig \<notin> set new)"
proof -
  let ?good = "\<lambda>c. \<forall>pid sig. c \<noteq> Killed pid sig"
  have um: "grows ?good s (snd (umount (traced OS) target s))" for s
    by (cases "os_command OS ''umount'' [target] (fst s)"; cases "fst (os_command OS ''umount'' [target] (fst s))")
       (auto simp: umount_def lift_call_def grows_def)
  have s1: "s1 = snd (umount (traced OS) target s)" and ns1: "ns_volumes ns1 vid = None"
    using assms(1-3)
    by (cases "umount (traced OS) target s";
        auto simp: node_unpublish_volume_def Let_def split: sum.splits option.splits)+
  have "s2 = remove_volume_meta (traced OS) target (snd (umount (traced OS) target (w2, snd s1)))"
    using assms(1,2,4) ns1
    by (cases "umount (traced OS) target (w2, snd s1)")
       (auto simp: node_unpublish_volume_def Let_def split: sum.splits option.splits)
  moreover have "grows ?good s (remove_volume_meta (traced OS) target s)" for s
    by (rule lift_call_grows [where r = "fst (os_remove_file (traced OS) (meta_path target) s)" and c = "\<lambda>_. OtherCall"])
       (auto simp: remove_volume_meta_def)
  ultimately have "grows ?good (w2, snd s1) s2" using um grows_trans by blast
  moreover have "grows ?good s (w2, snd s1)" using um [of s] s1 by (simp add: grows_def)
  ultimately have "grows ?good s s2" using grows_trans by blast
  then show ?thesis by (auto simp: grows_def list_all_iff)
qed

text \<open>A host on which unmounting fails once, because the filesystem is busy at time zero.\<close>

definition busy_os :: "sim_host os" where
  "busy_os = sim_os\<lparr>os_command := (\<lambda>cmd args w.
     if cmd = ''umount'' \<and> si_clock w = 0 then (Inr (sim_exit 32 [] ''target is busy''), w) else sim_command cmd args w)\<rparr>"

theorem failed_unmount_strands_process_witness:
  "\<exists>ns1 s1 ns2 s2.
     node_unpublish_volume (traced busy_os) ''v'' ''/p/m'' (example_node\<lparr>ns_volumes := [''v'' \<mapsto> example_published]\<rparr>)
       (example_mounted, []) = Some (Inl (Internal ''umount failed''), ns1, s1) \<and>
     node_unpublish_volume (traced busy_os) ''v'' ''/p/m'' ns1 (example_mounted\<lparr>si_clock := 1\<rparr>, snd s1) =
       Some (Inr (), ns2, s2) \<and>
     (\<forall>pid sig. Killed pid sig \<notin> set (snd s2)) \<and> 1 \<in> set (si_children (fst s2))"
proof -
  let ?ns = "example_node\<lparr>ns_volumes := [''v'' \<mapsto> example_published]\<rparr>"
    and ?l = "[RanCommand ''umount'' [''/p/m''] False]"
  have first: "node_unpublish_volume (traced busy_os) ''v'' ''/p/m'' ?ns (example_mounted, []) =
      Some (Inl (Internal ''umount failed''), example_node, example_mounted, ?l)"
    by (simp add: node_unpublish_volume_def umount_def busy_os_def lift_call_def example_mounted_def sim_exit_def
        cmd_success_def cmd_ok_def str_contains_def example_node_def node_new_def)
  obtain s2 where second: "node_unpublish_volume (traced busy_os) ''v'' ''/p/m'' example_node
      (example_mounted\<lparr>si_clock := 1\<rparr>, ?l) = Some (Inr (), example_node, s2)" and alive: "1 \<in> set (si_children (fst s2))"
    by (simp add: node_unpublish_volume_def umount_def busy_os_def lift_call_def sim_command_def sim_umount_def
        example_mounted_def sim_mounts_def entry_ok_def sim_entry_def token_def is_whitespace_def sim_exit_def
        cmd_success_def cmd_ok_def example_node_def node_new_def remove_volume_meta_def)
  have "\<exists>new. snd s2 = snd (example_mounted, []) @ new \<and> (\<forall>pid sig. Killed pid sig \<notin> set new)"
    by (rule failed_unmount_strands_process [where s = "(example_mounted, [])", OF _ _ first]) (use second in simp_all)
  then show ?thesis using first second alive by (cases s2) simp
qed

end
