(* ===== verification/Csi_Device_Url.thy ===== *)
theory Csi_Device_Url
  imports Csi_Volumes Csi_Unpublish
begin

text \<open>
  The way from the controller to the device process: the context of a created volume, the URL the node puts
  into the environment of the process, and the blob the process finds behind it. The \<open>url\<close> crate enters through
  the locale \<open>plain_urls\<close>: a URL of plain parts is taken apart as it is written.
\<close>

section \<open>Plain URLs\<close>

definition url_char :: "char \<Rightarrow> bool" where
  "url_char c \<longleftrightarrow> ascii_alphanumeric c \<or> c = CHR ''-'' \<or> c = CHR ''_'' \<or> c = CHR ''.''"

definition seg_ok :: "string \<Rightarrow> bool" where
  "seg_ok s \<longleftrightarrow> list_all url_char s \<and> s \<noteq> ''.'' \<and> s \<noteq> ''..''"

definition query_ok :: "string \<Rightarrow> bool" where
  "query_ok v \<longleftrightarrow> list_all (\<lambda>c. url_char c \<or> c = CHR '':'') v"

definition port_text :: "nat option \<Rightarrow> string" where
  "port_text port = (case port of Some p \<Rightarrow> '':'' @ nat_to_string p | None \<Rightarrow> [])"

definition base_text :: "string \<Rightarrow> string \<Rightarrow> nat option \<Rightarrow> string" where
  "base_text scheme h port = scheme @ ''://'' @ h @ port_text port"

definition url_text :: "string \<Rightarrow> string \<Rightarrow> nat option \<Rightarrow> string list \<Rightarrow> string option \<Rightarrow> string" where
  "url_text scheme h port segs snap =
     base_text scheme h port @ ''/'' @ join (CHR ''/'') segs @
     (case snap of Some s \<Rightarrow> ''?snapshot='' @ s | None \<Rightarrow> [])"

definition base_ok :: "(string \<Rightarrow> bool) \<Rightarrow> string \<Rightarrow> string \<Rightarrow> nat option \<Rightarrow> bool" where
  "base_ok plain_host scheme h port \<longleftrightarrow> scheme \<in> {''http'', ''https''} \<and> plain_host h \<and>
     (case port of Some p \<Rightarrow> p < 65536 \<and> p \<noteq> 80 \<and> p \<noteq> 443 | None \<Rightarrow> True)"

text \<open>\<open>plain_host\<close> are the hosts the crate returns as they are given: lower case, and no number it rewrites.\<close>

locale plain_urls =
  fixes U :: url_crate
    and plain_host :: "string \<Rightarrow> bool"
  assumes plain_host_chars: "plain_host h \<Longrightarrow> h \<noteq> [] \<and> list_all url_char h"
    and parse_plain: "base_ok plain_host scheme h port \<Longrightarrow> segs \<noteq> [] \<Longrightarrow> list_all seg_ok segs \<Longrightarrow>
      (case snap of Some s \<Rightarrow> query_ok s | None \<Rightarrow> True) \<Longrightarrow>
      uc_parse U (url_text scheme h port segs snap) =
        Inr \<lparr>pu_scheme = scheme, pu_host = Some h, pu_port = port, pu_segments = Some segs,
             pu_query = (case snap of Some s \<Rightarrow> [(''snapshot'', s)] | None \<Rightarrow> [])\<rparr>"

section \<open>The URL of the device process\<close>

lemma url_char_not_sep: "url_char c \<Longrightarrow> c \<noteq> CHR ''/'' \<and> c \<noteq> CHR '':'' \<and> c \<noteq> CHR ''?''"
  by (auto simp: url_char_def ascii_alphanumeric_def Let_def)

lemma seg_ok_no_slash: "seg_ok s \<Longrightarrow> CHR ''/'' \<notin> set s"
  using url_char_not_sep by (auto simp: seg_ok_def list_all_iff)

lemma port_text_no_slash: "CHR ''/'' \<notin> set (port_text port)"
  using digit_not_special(6) by (auto simp: port_text_def split: option.splits dest!: nat_to_string_no [THEN notE, rotated])

text \<open>The account, container and blob of a volume, as URL parts.\<close>

definition names_ok :: "string \<Rightarrow> string \<Rightarrow> string list \<Rightarrow> bool" where
  "names_ok account container bs \<longleftrightarrow>
     account \<noteq> [] \<and> seg_ok account \<and> CHR ''.'' \<notin> set account \<and> container \<noteq> [] \<and> seg_ok container \<and>
     bs \<noteq> [] \<and> list_all (\<lambda>b. b \<noteq> [] \<and> seg_ok b) bs"

text \<open>
  The account is the first label of the host, or the last part of the endpoint's path, or in neither, and the
  host is not itself called like the account.
\<close>

definition style_ok :: "string \<Rightarrow> string \<Rightarrow> nat option \<Rightarrow> bool \<Rightarrow> bool" where
  "style_ok account h port in_path \<longleftrightarrow>
     (if is_subdomain_host h then \<not> in_path \<and> (\<exists>rest. h = account @ ''.'' @ rest)
      else in_path \<or> h @ port_text port \<noteq> account)"

lemma join_Cons: "ps \<noteq> [] \<Longrightarrow> join c (p # ps) = p @ c # join c ps"
  by (cases ps) simp_all

context plain_urls
begin

lemma split_base:
  assumes "base_ok plain_host scheme h port"
  shows "split_on (CHR ''/'') (base_text scheme h port) = [scheme @ '':'', [], h @ port_text port]"
    "split_on (CHR ''/'') (base_text scheme h port @ ''/'' @ rest) =
       [scheme @ '':'', [], h @ port_text port] @ split_on (CHR ''/'') rest"
proof -
  have h: "CHR ''/'' \<notin> set (h @ port_text port)"
    using assms plain_host_chars [of h] url_char_not_sep port_text_no_slash
    by (auto simp: base_ok_def list_all_iff)
  have s: "CHR ''/'' \<notin> set (scheme @ '':'')" using assms by (auto simp: base_ok_def)
  have "split_on (CHR ''/'') ((scheme @ '':'') @ CHR ''/'' # [] @ CHR ''/'' # (h @ port_text port)) =
      [scheme @ '':'', [], h @ port_text port]"
    using split_on_append [OF s] split_on_append [of "CHR ''/''" "[]"] split_on_none [OF h] by simp
  then show "split_on (CHR ''/'') (base_text scheme h port) = [scheme @ '':'', [], h @ port_text port]"
    by (simp add: base_text_def)
  have "split_on (CHR ''/'') ((scheme @ '':'') @ CHR ''/'' # [] @ CHR ''/'' # (h @ port_text port) @ CHR ''/'' # rest) =
      [scheme @ '':'', [], h @ port_text port] @ split_on (CHR ''/'') rest"
    using split_on_append [OF s] split_on_append [of "CHR ''/''" "[]"] split_on_append [OF h] by simp
  then show "split_on (CHR ''/'') (base_text scheme h port @ ''/'' @ rest) =
      [scheme @ '':'', [], h @ port_text port] @ split_on (CHR ''/'') rest"
    by (simp add: base_text_def)
qed

text \<open>The path of the URL holds the account exactly when the host does not.\<close>

lemma child_url_text:
  assumes base: "base_ok plain_host scheme h port"
    and ep: "trim_end_matches ''/'' (str_replace ''%s'' account endpoint) =
      base_text scheme h port @ (if in_path then ''/'' @ account else [])"
    and style: "style_ok account h port in_path" and names: "names_ok account container bs"
  shows "child_blob_url U endpoint account container (join (CHR ''/'') bs) snapshot =
    url_text scheme h port ((if is_subdomain_host h then [] else [account]) @ container # bs) snapshot"
proof -
  let ?b = "base_text scheme h port @ (if in_path then ''/'' @ account else [])"
  have acc: "CHR ''/'' \<notin> set account" "CHR '':'' \<notin> set account" "account \<noteq> []"
    using names url_char_not_sep by (auto simp: names_ok_def seg_ok_def list_all_iff)
  have "?b @ ''/'' = url_text scheme h port (if in_path then [account, []] else [[]]) None"
    by (simp add: url_text_def)
  then have "uc_parse U (?b @ ''/'') = Inr \<lparr>pu_scheme = scheme, pu_host = Some h, pu_port = port,
      pu_segments = Some (if in_path then [account, []] else [[]]), pu_query = []\<rparr>"
    using parse_plain [OF base, of "if in_path then [account, []] else [[]]" None] names
    by (simp add: names_ok_def seg_ok_def)
  moreover have "account \<in> set (split_on (CHR ''/'') ?b) \<longleftrightarrow> in_path \<or> h @ port_text port = account"
    using split_base [OF base] split_on_none [OF acc(1)] acc by auto
  moreover have "join (CHR ''/'') (container # bs) = container @ ''/'' @ join (CHR ''/'') bs"
    "join (CHR ''/'') (account # container # bs) = account @ ''/'' @ container @ ''/'' @ join (CHR ''/'') bs"
    using names by (simp_all add: names_ok_def join_Cons)
  ultimately show ?thesis
    using ep style by (auto simp: child_blob_url_def Let_def url_text_def style_ok_def split: option.splits)
qed

lemma parse_url_text:
  assumes base: "base_ok plain_host scheme h port" and names: "names_ok account container bs"
    and style: "style_ok account h port in_path"
    and snap: "case snapshot of Some s \<Rightarrow> query_ok s | None \<Rightarrow> True"
  shows "parse_blob_url U (url_text scheme h port ((if is_subdomain_host h then [] else [account]) @ container # bs) snapshot) =
    Inr \<lparr>tb_service_url = base_text scheme h port @ (if is_subdomain_host h then [] else ''/'' @ account),
         tb_account = account, tb_container = container, tb_blob = join (CHR ''/'') bs, tb_snapshot = snapshot,
         tb_sas = None\<rparr>"
proof -
  let ?segs = "(if is_subdomain_host h then [] else [account]) @ container # bs"
  have segs: "list_all seg_ok ?segs" "filter (\<lambda>s. s \<noteq> []) ?segs = ?segs" "bs \<noteq> []"
    using names by (auto simp: names_ok_def list_all_iff)
  have label: "is_subdomain_host h \<Longrightarrow> hd (split_on (CHR ''.'') h) = account"
    using style names split_on_append [of "CHR ''.''" account] by (auto simp: style_ok_def names_ok_def)
  have parsed: "uc_parse U (url_text scheme h port ?segs snapshot) =
      Inr \<lparr>pu_scheme = scheme, pu_host = Some h, pu_port = port, pu_segments = Some ?segs,
           pu_query = (case snapshot of Some s \<Rightarrow> [(''snapshot'', s)] | None \<Rightarrow> [])\<rparr>"
    by (rule parse_plain [OF base _ segs(1) snap]) simp
  have len: "\<not> length (container # bs) < 2" "\<not> length (account # container # bs) < 3"
    using segs(3) by (simp_all add: Suc_le_eq not_less)
  show ?thesis
    using parsed segs(2) label len
    by (cases "is_subdomain_host h"; cases snapshot)
       (simp_all add: parse_blob_url_def Let_def base_text_def port_text_def numeral_2_eq_2 numeral_3_eq_3 del: length_Cons)
qed

end

lemma str_replace_absent: "pat = c # p \<Longrightarrow> c \<notin> set s \<Longrightarrow> str_replace pat to s = s"
  by (induction s) auto

section \<open>The environment\<close>

text \<open>A variable set twice in the environment of a command keeps its last value.\<close>

definition env_value :: "(string \<times> string) list \<Rightarrow> string \<Rightarrow> string option" where
  "env_value env k = map_of (rev env) k"

lemma env_value_first: "k \<notin> fst ` set env \<Longrightarrow> env_value ((k, v) # env) k = Some v"
  by (simp add: env_value_def map_add_def map_of_eq_None_iff [THEN iffD2])

lemma tuning_env_keys: "fst ` set (tuning_env ctx) \<subseteq> snd ` set TUNING_PARAMS"
  by (force simp: tuning_env_def map_filter_def nonempty_opt_def split: option.splits)

lemma child_env_url:
  assumes "child_env U node_id cfg getenv ctx secrets vid = Inr env"
  shows "env_value env ''UBLK_BLOB_URL'' =
    Some (child_blob_url U (param_or ctx ''endpoint'' (dc_endpoint cfg)) (param_or ctx ''account'' (dc_account cfg))
      (param_or ctx ''container'' (dc_default_container cfg)) (the (ctx ''blob'')) (nonempty_opt (ctx ''snapshot'')))"
proof -
  obtain blob auth where blob: "ctx ''blob'' = Some blob" and auth: "auth_env cfg secrets = Inr auth"
    using assms by (auto simp: child_env_def Let_def split: option.splits sum.splits)
  have a: "''UBLK_BLOB_URL'' \<notin> fst ` set auth"
    using auth by (auto simp: auth_env_def opt_env_def split: option.splits if_splits)
  have t: "''UBLK_BLOB_URL'' \<notin> fst ` set (tuning_env ctx)"
  proof
    assume "''UBLK_BLOB_URL'' \<in> fst ` set (tuning_env ctx)"
    then have "''UBLK_BLOB_URL'' \<in> snd ` set TUNING_PARAMS" using tuning_env_keys by blast
    then show False by (simp add: TUNING_PARAMS_def)
  qed
  have c: "''UBLK_BLOB_URL'' \<notin> fst ` set (coordination_env node_id ctx ns)" for ns
    by (auto simp: coordination_env_def opt_env_def split: option.splits)
  have k: "''UBLK_BLOB_URL'' \<notin> fst ` set (opt_env ''AZURE_STORAGE_SAS'' v)" for v
    by (auto simp: opt_env_def split: option.splits)
  let ?rest = "auth @ coordination_env node_id ctx (getenv ''POD_NAMESPACE'') @
    opt_env ''AZURE_STORAGE_SAS'' (nonempty_opt (ctx ''sasToken'')) @ tuning_env ctx @
    (if cache_share_pages ctx (getenv ''UBLK_CACHE_SHARE_PAGES'') then [(''UBLK_CACHE_INSTANCE'', vid)] else [])"
  have "''UBLK_BLOB_URL'' \<notin> fst ` set ?rest"
    using a t c k by (auto simp: image_Un)
  moreover have "env = (''UBLK_BLOB_URL'', child_blob_url U (param_or ctx ''endpoint'' (dc_endpoint cfg))
      (param_or ctx ''account'' (dc_account cfg)) (param_or ctx ''container'' (dc_default_container cfg)) blob
      (nonempty_opt (ctx ''snapshot''))) # ?rest"
    using assms blob auth by (simp add: child_env_def Let_def)
  ultimately show ?thesis using blob env_value_first by simp
qed

section \<open>The blob the process serves\<close>

definition plain_endpoint :: "(string \<Rightarrow> bool) \<Rightarrow> string \<Rightarrow> string \<Rightarrow> bool" where
  "plain_endpoint plain_host account endpoint \<longleftrightarrow>
     (\<exists>scheme h port in_path. base_ok plain_host scheme h port \<and> style_ok account h port in_path \<and>
        (is_subdomain_host h \<or> in_path) \<and>
        endpoint = base_text scheme h port @ (if in_path then ''/'' @ account else []) @ ''/'')"

lemma trim_one_slash: "s \<noteq> [] \<Longrightarrow> last s \<noteq> CHR ''/'' \<Longrightarrow> trim_end_matches ''/'' (s @ ''/'') = s"
  by (cases s rule: rev_cases) (auto simp: trim_end_matches_def)

lemma base_text_chars:
  assumes "plain_urls U plain_host" and "base_ok plain_host scheme h port"
  shows "CHR ''%'' \<notin> set (base_text scheme h port)" "base_text scheme h port \<noteq> []"
    "last (base_text scheme h port) \<noteq> CHR ''/''"
proof -
  have h: "h \<noteq> []" "\<forall>c \<in> set h. url_char c"
    using plain_urls.plain_host_chars [OF assms(1)] assms(2) by (auto simp: base_ok_def list_all_iff)
  have d: "\<forall>c \<in> set (port_text port). c = CHR '':'' \<or> is_digit c"
    using nat_to_string_digits by (auto simp: port_text_def list_all_iff split: option.splits)
  have percent: "\<not> url_char (CHR ''%'')" "\<not> is_digit (CHR ''%'')"
    by (simp_all add: url_char_def ascii_alphanumeric_def is_digit_def)
  have "CHR ''%'' \<notin> set h" "CHR ''%'' \<notin> set (port_text port)"
    using h(2) d percent by fastforce+
  then show "CHR ''%'' \<notin> set (base_text scheme h port)"
    using assms(2) by (auto simp: base_text_def base_ok_def)
  show "base_text scheme h port \<noteq> []" by (simp add: base_text_def)
  have "last (base_text scheme h port) \<in> set (h @ port_text port)"
    using h(1) last_in_set [of "h @ port_text port"] by (simp add: base_text_def)
  moreover have "CHR ''/'' \<notin> set h" "CHR ''/'' \<notin> set (port_text port)"
    using h(2) url_char_not_sep port_text_no_slash by auto
  ultimately show "last (base_text scheme h port) \<noteq> CHR ''/''" by auto
qed

lemma child_location:
  assumes "plain_urls U plain_host" and "plain_endpoint plain_host account endpoint"
    and "names_ok account container bs" and "case snapshot of Some s \<Rightarrow> query_ok s | None \<Rightarrow> True"
  shows "cli_location U (Some (child_blob_url U endpoint account container (join (CHR ''/'') bs) snapshot)) sas =
    Inr \<lparr>lo_endpoint = endpoint, lo_account = account, lo_container = container, lo_blob = join (CHR ''/'') bs,
         lo_snapshot = snapshot, lo_sas = sas\<rparr>"
proof -
  obtain scheme h port in_path where base: "base_ok plain_host scheme h port" and style: "style_ok account h port in_path"
    and kind: "is_subdomain_host h \<or> in_path"
    and ep: "endpoint = base_text scheme h port @ (if in_path then ''/'' @ account else []) @ ''/''"
    using assms(2) by (auto simp: plain_endpoint_def)
  have kind': "is_subdomain_host h \<longleftrightarrow> \<not> in_path" using kind style by (auto simp: style_ok_def)
  have acc: "account \<noteq> []" "CHR ''%'' \<notin> set account" "CHR ''/'' \<notin> set account"
    using assms(3) by (auto simp: names_ok_def seg_ok_def list_all_iff url_char_def ascii_alphanumeric_def Let_def)
  let ?b = "base_text scheme h port @ (if in_path then ''/'' @ account else [])"
  note chars = base_text_chars [OF assms(1) base]
  have "last account \<noteq> CHR ''/''" using acc(3) last_in_set [OF acc(1)] by metis
  then have b: "?b \<noteq> []" "last ?b \<noteq> CHR ''/''" using chars(2,3) acc(1) by auto
  have "str_replace ''%s'' account endpoint = endpoint"
    using chars(1) acc(2) by (intro str_replace_absent) (auto simp: ep)
  then have trimmed: "trim_end_matches ''/'' (str_replace ''%s'' account endpoint) = ?b"
    using trim_one_slash [OF b] by (simp add: ep)
  have "parse_blob_url U (child_blob_url U endpoint account container (join (CHR ''/'') bs) snapshot) =
      Inr \<lparr>tb_service_url = ?b, tb_account = account, tb_container = container, tb_blob = join (CHR ''/'') bs,
           tb_snapshot = snapshot, tb_sas = None\<rparr>"
    using plain_urls.child_url_text [OF assms(1) base trimmed style assms(3)]
      plain_urls.parse_url_text [OF assms(1) base assms(3) style assms(4)] kind' by simp
  then show ?thesis
    using trim_end_matches_id [of ?b "''/''"] b ep by (simp add: cli_location_def split: option.splits)
qed


section \<open>A parser of plain URLs\<close>

definition simple_authority :: "string \<Rightarrow> (string \<times> nat option) option" where
  "simple_authority t =
     (case split_once (CHR '':'') t of
        None \<Rightarrow> Some (t, None)
      | Some (h, p) \<Rightarrow> map_option (\<lambda>n. (h, Some n)) (parse_uint 65536 p))"

definition simple_parse :: "string \<Rightarrow> string \<Rightarrow> parsed_url res" where
  "simple_parse scheme rest =
     (let (path, query) =
            (let pq = drop 1 (dropWhile (\<lambda>c. c \<noteq> CHR ''/'') rest) in
             (takeWhile (\<lambda>c. c \<noteq> CHR ''?'') pq, dropWhile (\<lambda>c. c \<noteq> CHR ''?'') pq))
      in case simple_authority (takeWhile (\<lambda>c. c \<noteq> CHR ''/'') rest) of
           None \<Rightarrow> Inl BadConfig
         | Some (h, port) \<Rightarrow>
             Inr \<lparr>pu_scheme = scheme, pu_host = Some h, pu_port = port, pu_segments = Some (split_on (CHR ''/'') path),
                  pu_query = (case strip_prefix ''?snapshot='' query of Some s \<Rightarrow> [(''snapshot'', s)] | None \<Rightarrow> [])\<rparr>)"

definition simple_urls :: url_crate where
  "simple_urls = \<lparr>
     uc_parse = (\<lambda>s. case strip_prefix ''https://'' s of
                       Some rest \<Rightarrow> simple_parse ''https'' rest
                     | None \<Rightarrow>
                         (case strip_prefix ''http://'' s of
                            Some rest \<Rightarrow> simple_parse ''http'' rest
                          | None \<Rightarrow> Inl BadConfig)),
     uc_query = (\<lambda>q. None)\<rparr>"

definition simple_host :: "string \<Rightarrow> bool" where
  "simple_host h \<longleftrightarrow> h \<noteq> [] \<and> list_all url_char h"

lemma simple_authority_text:
  assumes "simple_host h" and "case port of Some p \<Rightarrow> p < 65536 | None \<Rightarrow> True"
  shows "simple_authority (h @ port_text port) = Some (h, port)"
proof -
  have h: "CHR '':'' \<notin> set h" using assms(1) url_char_not_sep by (auto simp: simple_host_def list_all_iff)
  show ?thesis
  proof (cases port)
    case None
    with h show ?thesis by (simp add: simple_authority_def port_text_def split_once_def)
  next
    case (Some p)
    with assms(2) split_once_append [OF h] show ?thesis
      by (simp add: simple_authority_def port_text_def parse_uint_to_string)
  qed
qed

lemma simple_parse_text:
  assumes "simple_host h" and "case port of Some p \<Rightarrow> p < 65536 | None \<Rightarrow> True" and "segs \<noteq> []"
    and "list_all seg_ok segs"
  shows "simple_parse scheme (h @ port_text port @ ''/'' @ join (CHR ''/'') segs @
      (case snap of Some s \<Rightarrow> ''?snapshot='' @ s | None \<Rightarrow> [])) =
    Inr \<lparr>pu_scheme = scheme, pu_host = Some h, pu_port = port, pu_segments = Some segs,
         pu_query = (case snap of Some s \<Rightarrow> [(''snapshot'', s)] | None \<Rightarrow> [])\<rparr>"
proof -
  let ?q = "case snap of Some s \<Rightarrow> ''?snapshot='' @ s | None \<Rightarrow> []" and ?j = "join (CHR ''/'') segs"
  have hp: "\<forall>c \<in> set (h @ port_text port). c \<noteq> CHR ''/''"
    using assms(1) url_char_not_sep port_text_no_slash by (auto simp: simple_host_def list_all_iff)
  have seg: "\<forall>p \<in> set segs. CHR ''/'' \<notin> set p" "\<forall>p \<in> set segs. CHR ''?'' \<notin> set p"
    using assms(4) url_char_not_sep by (auto simp: seg_ok_def list_all_iff)
  have j: "\<forall>c \<in> set ?j. c \<noteq> CHR ''?''"
  proof
    fix c assume "c \<in> set ?j"
    then have "c \<in> \<Union> (set ` set segs) \<union> {CHR ''/''}" using set_join by blast
    then show "c \<noteq> CHR ''?''" using seg(2) by auto
  qed
  have "takeWhile (\<lambda>c. c \<noteq> CHR ''/'') ((h @ port_text port) @ ''/'' @ ?j @ ?q) = h @ port_text port"
    "dropWhile (\<lambda>c. c \<noteq> CHR ''/'') ((h @ port_text port) @ ''/'' @ ?j @ ?q) = ''/'' @ ?j @ ?q"
    using hp by (subst takeWhile_append2 dropWhile_append2; simp)+
  moreover have "takeWhile (\<lambda>c. c \<noteq> CHR ''?'') (?j @ ?q) = ?j" "dropWhile (\<lambda>c. c \<noteq> CHR ''?'') (?j @ ?q) = ?q"
    using j by (subst takeWhile_append2 dropWhile_append2; simp split: option.splits)+
  moreover have "split_on (CHR ''/'') ?j = segs" by (rule split_on_join [OF assms(3) seg(1)])
  moreover have "strip_prefix ''?snapshot='' ?q = snap"
    using strip_prefix_append [of "''?snapshot=''"] by (cases snap) (simp_all add: strip_prefix_def)
  ultimately show ?thesis
    using simple_authority_text [OF assms(1,2)] by (simp add: simple_parse_def Let_def)
qed

interpretation simple: plain_urls simple_urls simple_host
proof
  show "h \<noteq> [] \<and> list_all url_char h" if "simple_host h" for h
    using that by (simp add: simple_host_def)
next
  fix scheme h port segs and snap :: "string option"
  assume base: "base_ok simple_host scheme h port" and segs: "segs \<noteq> []" "list_all seg_ok segs"
  let ?r = "h @ port_text port @ ''/'' @ join (CHR ''/'') segs @
      (case snap of Some s \<Rightarrow> ''?snapshot='' @ s | None \<Rightarrow> [])"
  have "uc_parse simple_urls (url_text scheme h port segs snap) = simple_parse scheme ?r"
    using base by (auto simp: simple_urls_def url_text_def base_text_def base_ok_def strip_prefix_def)
  moreover have "simple_host h" "case port of Some p \<Rightarrow> p < 65536 | None \<Rightarrow> True"
    using base by (auto simp: base_ok_def split: option.splits)
  ultimately show "uc_parse simple_urls (url_text scheme h port segs snap) =
      Inr \<lparr>pu_scheme = scheme, pu_host = Some h, pu_port = port, pu_segments = Some segs,
           pu_query = (case snap of Some s \<Rightarrow> [(''snapshot'', s)] | None \<Rightarrow> [])\<rparr>"
    using simple_parse_text [OF _ _ segs] by metis
qed

lemma demo_plain:
  "plain_endpoint simple_host ''acct'' (account_endpoint demo_driver ''acct'')"
  "names_ok ''acct'' ''vols'' [''ublk-azblob-disk'', ''pv1'']"
proof -
  have sub: "is_subdomain_host ''acct.store''" by code_simp
  have base: "base_ok simple_host ''https'' ''acct.store'' None" by code_simp
  have style: "style_ok ''acct'' ''acct.store'' None False" using sub by (simp add: style_ok_def)
  have ep: "account_endpoint demo_driver ''acct'' =
      base_text ''https'' ''acct.store'' None @ (if False then ''/'' @ ''acct'' else []) @ ''/''"
    by (simp add: demo_endpoint base_text_def port_text_def)
  show "plain_endpoint simple_host ''acct'' (account_endpoint demo_driver ''acct'')"
    unfolding plain_endpoint_def by (intro exI conjI, rule base, rule style, rule disjI1, rule sub, rule ep)
  show "names_ok ''acct'' ''vols'' [''ublk-azblob-disk'', ''pv1'']" by code_simp
qed


end
