(* ===== verification/Io_Gateway.thy ===== *)
theory Io_Gateway
  imports Blob_Backend Rust_Text "HOL-Library.Multiset"
begin

text \<open>
  The I/O gateway of \<open>backend/io_gateway.rs\<close>: every request to the blob service is a job in one of
  two pipelines (downloads and uploads), each a priority queue drained by workers that pay for the
  job's bytes at the pipeline's rate limiter, take a permit from the budget the two pipelines share,
  and run the job. The interleaving of producers and workers is a sequence of actions. The rate
  limiter (\<open>leaky_bucket\<close>) is a parameter with the laws it documents; the priority channel hands
  out some job of the highest priority, the semaphore counts permits.
\<close>

section \<open>Classes and configuration\<close>

datatype io_class = ForegroundRead | Flush | Copy | Warmup

fun priority :: "io_class \<Rightarrow> nat" where
  "priority ForegroundRead = 3"
| "priority Flush = 2"
| "priority Copy = 1"
| "priority Warmup = 0"

record io_gateway_config =
  gc_concurrency :: nat
  gc_download_concurrency :: nat
  gc_upload_concurrency :: nat
  gc_download_bandwidth_bps :: nat
  gc_upload_bandwidth_bps :: nat

definition parse_pos_usize :: "string option \<Rightarrow> nat option" where
  "parse_pos_usize val =
     (case val of
        None \<Rightarrow> None
      | Some s \<Rightarrow> (case parse_uint u64_limit s of Some n \<Rightarrow> if 0 < n then Some n else None | None \<Rightarrow> None))"

definition parse_u64 :: "string option \<Rightarrow> nat option" where
  "parse_u64 val = (case val of None \<Rightarrow> None | Some s \<Rightarrow> parse_uint u64_limit s)"

definition unwrap_or :: "'a option \<Rightarrow> 'a \<Rightarrow> 'a" where
  "unwrap_or opt d = (case opt of Some v \<Rightarrow> v | None \<Rightarrow> d)"

definition gateway_config_from_env :: "nat \<Rightarrow> (string \<Rightarrow> string option) \<Rightarrow> io_gateway_config" where
  "gateway_config_from_env cpu_count get =
     (let cpu = max cpu_count 1;
          concurrency = unwrap_or (parse_pos_usize (get ''UBLK_IO_CONCURRENCY'')) cpu
      in \<lparr>gc_concurrency = concurrency,
          gc_download_concurrency = unwrap_or (parse_pos_usize (get ''UBLK_DOWNLOAD_CONCURRENCY'')) concurrency,
          gc_upload_concurrency = unwrap_or (parse_pos_usize (get ''UBLK_UPLOAD_CONCURRENCY'')) concurrency,
          gc_download_bandwidth_bps = unwrap_or (parse_u64 (get ''UBLK_DOWNLOAD_BANDWIDTH'')) 0,
          gc_upload_bandwidth_bps = unwrap_or (parse_u64 (get ''UBLK_UPLOAD_BANDWIDTH'')) 0\<rparr>)"

section \<open>State\<close>

text \<open>The rate limiter: built full, asked for tokens, refilled at each interval.\<close>

record 'l limiter_ops =
  lo_build :: "nat \<Rightarrow> nat \<Rightarrow> 'l"
  lo_max :: "'l \<Rightarrow> nat"
  lo_acquire :: "'l \<Rightarrow> nat \<Rightarrow> 'l option"
  lo_tick :: "'l \<Rightarrow> 'l"

record job =
  j_id :: nat
  j_class :: io_class
  j_bytes :: nat

record 'l pipeline =
  pl_queue :: "job list"
  pl_idle :: nat
  pl_paying :: "(job \<times> nat) list"
  pl_waiting :: "job list"
  pl_running :: "job list"
  pl_limiter :: "'l option"

datatype direction = Download | Upload

record 'l gateway =
  gw_download :: "'l pipeline"
  gw_upload :: "'l pipeline"
  gw_permits :: nat
  gw_cancelled :: "nat list"
  gw_delivered :: "nat list"
  gw_dropped :: "nat list"

definition build_limiter :: "'l limiter_ops \<Rightarrow> nat \<Rightarrow> 'l option" where
  "build_limiter L bandwidth_bps =
     (if bandwidth_bps = 0 then None
      else Some (lo_build L (max (bandwidth_bps div 10) 1) (max bandwidth_bps MAX_PAGE_REQUEST_BYTES)))"

definition pipeline_new :: "'l limiter_ops \<Rightarrow> nat \<Rightarrow> nat \<Rightarrow> 'l pipeline" where
  "pipeline_new L workers bandwidth_bps =
     \<lparr>pl_queue = [], pl_idle = max workers 1, pl_paying = [], pl_waiting = [], pl_running = [],
      pl_limiter = build_limiter L bandwidth_bps\<rparr>"

definition clamp :: "nat \<Rightarrow> nat \<Rightarrow> nat \<Rightarrow> nat" where
  "clamp lo hi n = (if n < lo then lo else if hi < n then hi else n)"

definition gateway_new :: "'l limiter_ops \<Rightarrow> io_gateway_config \<Rightarrow> 'l gateway" where
  "gateway_new L cfg =
     (let total = max (gc_concurrency cfg) 1
      in \<lparr>gw_download = pipeline_new L (clamp 1 total (gc_download_concurrency cfg)) (gc_download_bandwidth_bps cfg),
          gw_upload = pipeline_new L (clamp 1 total (gc_upload_concurrency cfg)) (gc_upload_bandwidth_bps cfg),
          gw_permits = total, gw_cancelled = [], gw_delivered = [], gw_dropped = []\<rparr>)"

section \<open>Actions\<close>

text \<open>
  \<open>Submit\<close> enqueues a job and \<open>Cancel\<close> drops its receiver; the others are what a worker does
  with a job, and the passing of one refill interval.
\<close>

datatype action =
    Submit direction job
  | Cancel nat
  | Recv direction job
  | Pay direction job nat
  | Acquire direction job
  | Complete direction job
  | Refill direction

fun pipe :: "direction \<Rightarrow> 'l gateway \<Rightarrow> 'l pipeline" where
  "pipe Download g = gw_download g"
| "pipe Upload g = gw_upload g"

fun set_pipe :: "direction \<Rightarrow> 'l pipeline \<Rightarrow> 'l gateway \<Rightarrow> 'l gateway" where
  "set_pipe Download p g = g\<lparr>gw_download := p\<rparr>"
| "set_pipe Upload p g = g\<lparr>gw_upload := p\<rparr>"

definition submit :: "direction \<Rightarrow> job \<Rightarrow> 'l gateway \<Rightarrow> 'l gateway" where
  "submit d j g = set_pipe d ((pipe d g)\<lparr>pl_queue := pl_queue (pipe d g) @ [j]\<rparr>) g"

text \<open>\<open>rx.recv\<close> by an idle worker, then the payment, unless there is nothing to pay.\<close>

definition recv :: "direction \<Rightarrow> job \<Rightarrow> 'l gateway \<Rightarrow> 'l gateway option" where
  "recv d j g =
     (let p = pipe d g in
      if 0 < pl_idle p \<and> j \<in> set (pl_queue p) \<and>
         list_all (\<lambda>k. priority (j_class k) \<le> priority (j_class j)) (pl_queue p)
      then let p' = p\<lparr>pl_queue := remove1 j (pl_queue p), pl_idle := pl_idle p - 1\<rparr>
           in Some (set_pipe d
                (if pl_limiter p = None \<or> j_bytes j = 0 then p'\<lparr>pl_waiting := j # pl_waiting p\<rparr>
                 else p'\<lparr>pl_paying := (j, j_bytes j) # pl_paying p\<rparr>) g)
      else None)"

text \<open>One round of the payment loop.\<close>

definition pay :: "'l limiter_ops \<Rightarrow> direction \<Rightarrow> job \<Rightarrow> nat \<Rightarrow> 'l gateway \<Rightarrow> 'l gateway option" where
  "pay L d j remaining g =
     (let p = pipe d g in
      case pl_limiter p of
        None \<Rightarrow> None
      | Some rl \<Rightarrow>
          if (j, remaining) \<in> set (pl_paying p)
          then let chunk = min remaining (lo_max L rl)
               in (case lo_acquire L rl chunk of
                     None \<Rightarrow> None
                   | Some rl' \<Rightarrow>
                       let rest = remaining - chunk;
                           p' = p\<lparr>pl_paying := remove1 (j, remaining) (pl_paying p), pl_limiter := Some rl'\<rparr>
                       in Some (set_pipe d
                            (if 0 < rest then p'\<lparr>pl_paying := (j, rest) # pl_paying p'\<rparr>
                             else p'\<lparr>pl_waiting := j # pl_waiting p'\<rparr>) g))
          else None)"

definition acquire_permit :: "direction \<Rightarrow> job \<Rightarrow> 'l gateway \<Rightarrow> 'l gateway option" where
  "acquire_permit d j g =
     (let p = pipe d g in
      if 0 < gw_permits g \<and> j \<in> set (pl_waiting p)
      then Some ((set_pipe d (p\<lparr>pl_waiting := remove1 j (pl_waiting p), pl_running := j # pl_running p\<rparr>) g)
                 \<lparr>gw_permits := gw_permits g - 1\<rparr>)
      else None)"

text \<open>
  The job's future ends, with its result or because its submitter is gone; the result is sent when
  the receiver still exists, the permit is released, and the worker is idle again.
\<close>

definition complete :: "direction \<Rightarrow> job \<Rightarrow> 'l gateway \<Rightarrow> 'l gateway option" where
  "complete d j g =
     (let p = pipe d g in
      if j \<in> set (pl_running p)
      then let g' = (set_pipe d (p\<lparr>pl_running := remove1 j (pl_running p), pl_idle := pl_idle p + 1\<rparr>) g)
                      \<lparr>gw_permits := gw_permits g + 1\<rparr>
           in Some (if j_id j \<in> set (gw_cancelled g)
                    then g'\<lparr>gw_dropped := j_id j # gw_dropped g\<rparr>
                    else g'\<lparr>gw_delivered := j_id j # gw_delivered g\<rparr>)
      else None)"

definition refill :: "'l limiter_ops \<Rightarrow> direction \<Rightarrow> 'l gateway \<Rightarrow> 'l gateway" where
  "refill L d g = set_pipe d ((pipe d g)\<lparr>pl_limiter := map_option (lo_tick L) (pl_limiter (pipe d g))\<rparr>) g"

fun gw_act :: "'l limiter_ops \<Rightarrow> action \<Rightarrow> 'l gateway \<Rightarrow> 'l gateway option" where
  "gw_act L (Submit d j) g = Some (submit d j g)"
| "gw_act L (Cancel i) g = Some (g\<lparr>gw_cancelled := i # gw_cancelled g\<rparr>)"
| "gw_act L (Recv d j) g = recv d j g"
| "gw_act L (Pay d j n) g = pay L d j n g"
| "gw_act L (Acquire d j) g = acquire_permit d j g"
| "gw_act L (Complete d j) g = complete d j g"
| "gw_act L (Refill d) g = Some (refill L d g)"

fun gw_run :: "'l limiter_ops \<Rightarrow> action list \<Rightarrow> 'l gateway \<Rightarrow> 'l gateway option" where
  "gw_run L [] g = Some g"
| "gw_run L (a # as) g = (case gw_act L a g of None \<Rightarrow> None | Some g' \<Rightarrow> gw_run L as g')"

lemma gw_run_append: "gw_run L (as @ bs) g = (case gw_run L as g of None \<Rightarrow> None | Some g' \<Rightarrow> gw_run L bs g')"
  by (induction "as" arbitrary: g) (auto split: option.splits)

section \<open>The rate limiter's contract\<close>

locale rate_limiter =
  fixes L :: "'l limiter_ops"
    and level :: "'l \<Rightarrow> nat"
    and rate :: "'l \<Rightarrow> nat"
  assumes built: "lo_max L (lo_build L r m) = m" "rate (lo_build L r m) = r" "level (lo_build L r m) \<le> m"
    and acquired: "lo_acquire L l n = Some l' \<Longrightarrow>
      level l' + n \<le> level l \<and> lo_max L l' = lo_max L l \<and> rate l' = rate l"
    and ticked: "level (lo_tick L l) \<le> level l + rate l" "lo_max L (lo_tick L l) = lo_max L l"
      "rate (lo_tick L l) = rate l"
    and granted: "0 < rate l \<Longrightarrow> n \<le> lo_max L l \<Longrightarrow> \<exists>k l'. lo_acquire L ((lo_tick L ^^ k) l) n = Some l'"
begin

lemma ticks_same: "lo_max L ((lo_tick L ^^ k) l) = lo_max L l" "rate ((lo_tick L ^^ k) l) = rate l"
  by (induction k) (simp_all add: ticked)

end

text \<open>A token bucket obeys it.\<close>

record bucket =
  bk_level :: nat
  bk_max :: nat
  bk_refill :: nat

definition bucket_ops :: "bucket limiter_ops" where
  "bucket_ops =
     \<lparr>lo_build = (\<lambda>r m. \<lparr>bk_level = m, bk_max = m, bk_refill = r\<rparr>), lo_max = bk_max,
      lo_acquire = (\<lambda>b n. if n \<le> bk_level b then Some (b\<lparr>bk_level := bk_level b - n\<rparr>) else None),
      lo_tick = (\<lambda>b. b\<lparr>bk_level := min (bk_max b) (bk_level b + bk_refill b)\<rparr>)\<rparr>"

lemma bucket_ticks:
  "(lo_tick bucket_ops ^^ k) b = (if k = 0 then b else b\<lparr>bk_level := min (bk_max b) (bk_level b + k * bk_refill b)\<rparr>)"
  by (induction k) (auto simp: bucket_ops_def)

interpretation token_bucket: rate_limiter bucket_ops bk_level bk_refill
proof (unfold_locales, goal_cases)
  case (8 l n)
  have "\<exists>k. n \<le> bk_level ((lo_tick bucket_ops ^^ k) l)"
  proof (rule exI [of _ "Suc n"])
    have "n \<le> Suc n * bk_refill l" using 8(1) by (cases "bk_refill l") auto
    then show "n \<le> bk_level ((lo_tick bucket_ops ^^ Suc n) l)"
      using 8(2) by (subst bucket_ticks) (simp add: bucket_ops_def)
  qed
  then obtain k where "n \<le> bk_level ((lo_tick bucket_ops ^^ k) l)" by blast
  then show ?case by (intro exI [of _ k]) (simp add: bucket_ops_def)
qed (auto simp: bucket_ops_def split: if_splits)

section \<open>Budget and conservation\<close>

lemma pipe_set_pipe [simp]: "pipe d (set_pipe e p g) = (if d = e then p else pipe d g)"
  by (cases d; cases e) simp_all

lemma set_pipe_sel [simp]:
  "gw_permits (set_pipe e p g) = gw_permits g" "gw_cancelled (set_pipe e p g) = gw_cancelled g"
  "gw_delivered (set_pipe e p g) = gw_delivered g" "gw_dropped (set_pipe e p g) = gw_dropped g"
  by (cases e; simp)+

lemma pipe_upd [simp]:
  "pipe d (g\<lparr>gw_permits := n\<rparr>) = pipe d g" "pipe d (g\<lparr>gw_cancelled := xs\<rparr>) = pipe d g"
  "pipe d (g\<lparr>gw_delivered := xs\<rparr>) = pipe d g" "pipe d (g\<lparr>gw_dropped := xs\<rparr>) = pipe d g"
  by (cases d; simp)+

definition pipe_ok :: "'l limiter_ops \<Rightarrow> ('l \<Rightarrow> nat) \<Rightarrow> nat \<Rightarrow> 'l pipeline \<Rightarrow> bool" where
  "pipe_ok L rate workers p \<longleftrightarrow>
     pl_idle p + length (pl_paying p) + length (pl_waiting p) + length (pl_running p) = workers \<and> 0 < workers \<and>
     (\<forall>(j, r) \<in> set (pl_paying p). 0 < r \<and> r \<le> j_bytes j) \<and> (pl_paying p \<noteq> [] \<longrightarrow> pl_limiter p \<noteq> None) \<and>
     (\<forall>l. pl_limiter p = Some l \<longrightarrow> 0 < lo_max L l \<and> 0 < rate l)"

definition gw_ok :: "'l limiter_ops \<Rightarrow> ('l \<Rightarrow> nat) \<Rightarrow> nat \<Rightarrow> (direction \<Rightarrow> nat) \<Rightarrow> 'l gateway \<Rightarrow> bool" where
  "gw_ok L rate budget workers g \<longleftrightarrow>
     0 < budget \<and>
     gw_permits g + length (pl_running (pipe Download g)) + length (pl_running (pipe Upload g)) = budget \<and>
     (\<forall>d. pipe_ok L rate (workers d) (pipe d g))"

lemma gw_ok_upd [simp]:
  "gw_ok L rate budget workers (g\<lparr>gw_delivered := xs\<rparr>) = gw_ok L rate budget workers g"
  "gw_ok L rate budget workers (g\<lparr>gw_dropped := xs\<rparr>) = gw_ok L rate budget workers g"
  by (simp_all add: gw_ok_def)

text \<open>The jobs in the gateway, by identity, and the jobs it has let go.\<close>

definition pipe_ids :: "'l pipeline \<Rightarrow> nat multiset" where
  "pipe_ids p = image_mset j_id (mset (pl_queue p) + mset (map fst (pl_paying p)) + mset (pl_waiting p) + mset (pl_running p))"

definition all_ids :: "'l gateway \<Rightarrow> nat multiset" where
  "all_ids g = pipe_ids (gw_download g) + pipe_ids (gw_upload g) + mset (gw_delivered g) + mset (gw_dropped g)"

fun submitted :: "action \<Rightarrow> nat list" where
  "submitted (Submit d j) = [j_id j]"
| "submitted _ = []"

fun internal :: "action \<Rightarrow> bool" where
  "internal (Submit d j) = False"
| "internal (Cancel i) = False"
| "internal _ = True"

definition workers_of :: "io_gateway_config \<Rightarrow> direction \<Rightarrow> nat" where
  "workers_of cfg d = (let total = max (gc_concurrency cfg) 1 in
     case d of Download \<Rightarrow> clamp 1 total (gc_download_concurrency cfg)
             | Upload \<Rightarrow> clamp 1 total (gc_upload_concurrency cfg))"

lemma all_dirs: "(\<forall>d. P d) \<longleftrightarrow> P Download \<and> P Upload"
  by (metis direction.exhaust)

lemma remove1_length: "x \<in> set xs \<Longrightarrow> Suc (length (remove1 x xs)) = length xs"
  by (simp add: length_remove1) (metis Suc_pred length_pos_if_in_set)

lemma sum_remove1: "x \<in> set xs \<Longrightarrow> f x + sum_list (map f (remove1 x xs)) = sum_list (map f xs)" for f :: "'a \<Rightarrow> nat"
  by (induction xs) auto

text \<open>What each action of a worker requires and does.\<close>

lemma recvE:
  assumes "recv d j g = Some g'"
  obtains q where "j \<in> set (pl_queue (pipe d g))" "0 < pl_idle (pipe d g)"
    "\<forall>k \<in> set (pl_queue (pipe d g)). priority (j_class k) \<le> priority (j_class j)"
    "g' = set_pipe d q g"
    "q = (pipe d g)\<lparr>pl_queue := remove1 j (pl_queue (pipe d g)), pl_idle := pl_idle (pipe d g) - 1,
       pl_waiting := j # pl_waiting (pipe d g)\<rparr> \<and> (pl_limiter (pipe d g) = None \<or> j_bytes j = 0) \<or>
     q = (pipe d g)\<lparr>pl_queue := remove1 j (pl_queue (pipe d g)), pl_idle := pl_idle (pipe d g) - 1,
       pl_paying := (j, j_bytes j) # pl_paying (pipe d g)\<rparr> \<and> pl_limiter (pipe d g) \<noteq> None \<and> 0 < j_bytes j"
  using assms by (auto simp: recv_def Let_def list_all_iff split: if_splits)

lemma payE:
  assumes "pay L d j n g = Some g'"
  obtains rl rl' c q where "pl_limiter (pipe d g) = Some rl" "(j, n) \<in> set (pl_paying (pipe d g))"
    "c = min n (lo_max L rl)" "lo_acquire L rl c = Some rl'" "g' = set_pipe d q g"
    "q = (pipe d g)\<lparr>pl_limiter := Some rl', pl_paying := (j, n - c) # remove1 (j, n) (pl_paying (pipe d g))\<rparr> \<and> c < n \<or>
     q = (pipe d g)\<lparr>pl_paying := remove1 (j, n) (pl_paying (pipe d g)), pl_limiter := Some rl',
       pl_waiting := j # pl_waiting (pipe d g)\<rparr> \<and> c = n"
proof -
  obtain rl where rl: "pl_limiter (pipe d g) = Some rl" "(j, n) \<in> set (pl_paying (pipe d g))"
    using assms by (auto simp: pay_def Let_def split: option.splits if_splits)
  define c where "c = min n (lo_max L rl)"
  obtain rl' where rl': "lo_acquire L rl c = Some rl'"
    using assms rl by (auto simp: pay_def Let_def c_def split: option.splits if_splits)
  have "c < n \<or> c = n" by (auto simp: c_def)
  then show thesis
  proof
    assume "c < n"
    with assms rl rl' have "g' = set_pipe d ((pipe d g)\<lparr>pl_limiter := Some rl',
        pl_paying := (j, n - c) # remove1 (j, n) (pl_paying (pipe d g))\<rparr>) g"
      by (simp add: pay_def Let_def flip: c_def)
    with that rl rl' c_def \<open>c < n\<close> show thesis by blast
  next
    assume "c = n"
    with assms rl rl' have "g' = set_pipe d ((pipe d g)\<lparr>pl_paying := remove1 (j, n) (pl_paying (pipe d g)),
        pl_limiter := Some rl', pl_waiting := j # pl_waiting (pipe d g)\<rparr>) g"
      by (simp add: pay_def Let_def flip: c_def)
    with that rl rl' c_def \<open>c = n\<close> show thesis by blast
  qed
qed

lemma acquireE:
  assumes "acquire_permit d j g = Some g'"
  obtains q where "j \<in> set (pl_waiting (pipe d g))" "0 < gw_permits g" "g' = (set_pipe d q g)\<lparr>gw_permits := gw_permits g - 1\<rparr>"
    "q = (pipe d g)\<lparr>pl_waiting := remove1 j (pl_waiting (pipe d g)), pl_running := j # pl_running (pipe d g)\<rparr>"
  using assms by (auto simp: acquire_permit_def Let_def split: if_splits)

lemma completeE:
  assumes "complete d j g = Some g'"
  obtains q g1 where "j \<in> set (pl_running (pipe d g))" "g1 = (set_pipe d q g)\<lparr>gw_permits := gw_permits g + 1\<rparr>"
    "q = (pipe d g)\<lparr>pl_running := remove1 j (pl_running (pipe d g)), pl_idle := pl_idle (pipe d g) + 1\<rparr>"
    "g' = g1\<lparr>gw_dropped := j_id j # gw_dropped g1\<rparr> \<or> g' = g1\<lparr>gw_delivered := j_id j # gw_delivered g1\<rparr>"
  using assms by (auto simp: complete_def Let_def split: if_splits)

context rate_limiter
begin

lemma gateway_new_ok: "gw_ok L rate (max (gc_concurrency cfg) 1) (workers_of cfg) (gateway_new L cfg)"
  by (auto simp: gw_ok_def gateway_new_def pipeline_new_def pipe_ok_def all_dirs workers_of_def clamp_def
      build_limiter_def built MAX_PAGE_REQUEST_BYTES_def Let_def split: if_splits)

lemma act_ok:
  assumes "gw_ok L rate budget workers g" and "gw_act L a g = Some g'"
  shows "gw_ok L rate budget workers g'"
proof -
  have upd: "gw_ok L rate budget workers (set_pipe d p g)"
    if "pipe_ok L rate (workers d) p" "length (pl_running p) = length (pl_running (pipe d g))" for d p
    using assms(1) that by (cases d) (auto simp: gw_ok_def all_dirs)
  have p: "pipe_ok L rate (workers d) (pipe d g)" for d using assms(1) by (simp add: gw_ok_def)
  show ?thesis
  proof (cases a)
    case (Submit d j)
    with assms p [of d] show ?thesis by (auto intro!: upd simp: submit_def pipe_ok_def)
  next
    case (Cancel i)
    with assms show ?thesis by (auto simp: gw_ok_def)
  next
    case (Recv d j)
    with assms have "recv d j g = Some g'" by simp
    then show ?thesis using p [of d] by (elim recvE) (auto intro!: upd simp: pipe_ok_def)
  next
    case (Pay d j n)
    with assms have "pay L d j n g = Some g'" by simp
    then show ?thesis
    proof (rule payE, goal_cases)
      case (1 rl rl' c q)
      have all: "\<forall>(j, r) \<in> set (pl_paying (pipe d g)). 0 < r \<and> r \<le> j_bytes j" using p [of d] by (simp add: pipe_ok_def)
      then have "\<forall>(j, r) \<in> set (remove1 (j, n) (pl_paying (pipe d g))). 0 < r \<and> r \<le> j_bytes j"
        using set_remove1_subset by fast
      then have "pipe_ok L rate (workers d) q"
        using 1 p [of d] all remove1_length [OF 1(2)] acquired [OF 1(4)] by (elim disjE) (auto simp: pipe_ok_def)
      then show ?case using 1 by (auto intro!: upd)
    qed
  next
    case (Acquire d j)
    with assms have "acquire_permit d j g = Some g'" by simp
    then show ?thesis
    proof (rule acquireE, goal_cases)
      case (1 q)
      then show ?case using remove1_length [OF 1(1)] assms(1) by (cases d) (auto simp: gw_ok_def pipe_ok_def all_dirs)
    qed
  next
    case (Complete d j)
    with assms have "complete d j g = Some g'" by simp
    then show ?thesis
    proof (rule completeE, goal_cases)
      case (1 q g1)
      have "gw_ok L rate budget workers g1"
        using 1 remove1_length [OF 1(1)] assms(1) by (cases d) (auto simp: gw_ok_def pipe_ok_def all_dirs)
      with 1(4) show ?case by (elim disjE) simp_all
    qed
  next
    case (Refill d)
    with assms p [of d] show ?thesis by (auto intro!: upd simp: refill_def pipe_ok_def ticked)
  qed
qed

lemma run_ok: "gw_ok L rate budget workers g \<Longrightarrow> gw_run L as g = Some g' \<Longrightarrow> gw_ok L rate budget workers g'"
  by (induction "as" arbitrary: g) (auto dest: act_ok split: option.splits)

end

lemma image_remove1: "x \<in> set xs \<Longrightarrow> image_mset f (mset xs) = add_mset (f x) (image_mset f (mset (remove1 x xs)))"
  by (induction xs) auto

lemma all_ids_set_pipe: "all_ids (set_pipe d p g) + pipe_ids (pipe d g) = all_ids g + pipe_ids p"
  by (cases d) (simp_all add: all_ids_def)

lemma all_ids_upd [simp]:
  "all_ids (g\<lparr>gw_permits := n\<rparr>) = all_ids g" "all_ids (g\<lparr>gw_cancelled := xs\<rparr>) = all_ids g"
  "all_ids (g\<lparr>gw_delivered := i # gw_delivered g\<rparr>) = add_mset i (all_ids g)"
  "all_ids (g\<lparr>gw_dropped := i # gw_dropped g\<rparr>) = add_mset i (all_ids g)"
  by (simp_all add: all_ids_def)

lemma act_ids:
  assumes "gw_act L a g = Some g'"
  shows "all_ids g' = all_ids g + mset (submitted a)"
proof (cases a)
  case (Submit d j)
  with assms all_ids_set_pipe [of d "(pipe d g)\<lparr>pl_queue := pl_queue (pipe d g) @ [j]\<rparr>" g] show ?thesis
    by (auto simp: submit_def pipe_ids_def)
next
  case (Recv d j)
  with assms have "recv d j g = Some g'" by simp
  then show ?thesis
  proof (rule recvE, goal_cases)
    case (1 q)
    have "pipe_ids q = pipe_ids (pipe d g)"
      using 1(5) by (elim disjE) (simp_all add: pipe_ids_def image_remove1 [OF 1(1)] del: mset_remove1)
    with all_ids_set_pipe [of d q g] 1(4) Recv show ?case by simp
  qed
next
  case (Pay d j n)
  with assms have "pay L d j n g = Some g'" by simp
  then show ?thesis
  proof (rule payE, goal_cases)
    case (1 rl rl' c q)
    have "pipe_ids q = pipe_ids (pipe d g)"
      using 1(6) by (elim disjE)
        (simp_all add: pipe_ids_def image_remove1 [OF 1(2)] image_mset.compositionality del: mset_remove1)
    with all_ids_set_pipe [of d q g] 1(5) Pay show ?case by simp
  qed
next
  case (Acquire d j)
  with assms have "acquire_permit d j g = Some g'" by simp
  then show ?thesis
  proof (rule acquireE, goal_cases)
    case (1 q)
    have "pipe_ids q = pipe_ids (pipe d g)" using 1(4) by (simp add: pipe_ids_def image_remove1 [OF 1(1)] del: mset_remove1)
    with all_ids_set_pipe [of d q g] 1(3) Acquire show ?case by simp
  qed
next
  case (Complete d j)
  with assms have "complete d j g = Some g'" by simp
  then show ?thesis
  proof (rule completeE, goal_cases)
    case (1 q g1)
    have "add_mset (j_id j) (pipe_ids q) = pipe_ids (pipe d g)"
      using 1(3) by (simp add: pipe_ids_def image_remove1 [OF 1(1)] del: mset_remove1)
    then have "all_ids (set_pipe d q g) + add_mset (j_id j) (pipe_ids q) = all_ids g + pipe_ids q"
      using all_ids_set_pipe [of d q g] by simp
    then have "add_mset (j_id j) (all_ids (set_pipe d q g)) = all_ids g" by simp
    then have "add_mset (j_id j) (all_ids g1) = all_ids g" using 1(2) by simp
    with 1(4) Complete show ?case by (elim disjE) simp_all
  qed
next
  case (Refill d)
  with assms all_ids_set_pipe [of d "(pipe d g)\<lparr>pl_limiter := map_option (lo_tick L) (pl_limiter (pipe d g))\<rparr>" g]
  show ?thesis by (simp add: refill_def pipe_ids_def)
qed (use assms in auto)

lemma run_ids: "gw_run L as g = Some g' \<Longrightarrow> all_ids g' = all_ids g + mset (concat (map submitted as))"
  by (induction "as" arbitrary: g) (auto split: option.splits dest!: act_ids)

section \<open>Draining\<close>

text \<open>The steps that are left for the jobs in the gateway.\<close>

definition pipe_work :: "'l pipeline \<Rightarrow> nat" where
  "pipe_work p = sum_list (map (\<lambda>j. j_bytes j + 3) (pl_queue p)) + sum_list (map (\<lambda>(j, r). r + 2) (pl_paying p)) +
     2 * length (pl_waiting p) + length (pl_running p)"

definition gw_work :: "'l gateway \<Rightarrow> nat" where
  "gw_work g = pipe_work (pipe Download g) + pipe_work (pipe Upload g)"

lemma gw_work_set_pipe: "gw_work (set_pipe d p g) + pipe_work (pipe d g) = gw_work g + pipe_work p"
  by (cases d) (simp_all add: gw_work_def)

lemma gw_work_upd [simp]:
  "gw_work (g\<lparr>gw_permits := n\<rparr>) = gw_work g" "gw_work (g\<lparr>gw_delivered := xs\<rparr>) = gw_work g"
  "gw_work (g\<lparr>gw_dropped := xs\<rparr>) = gw_work g"
  by (simp_all add: gw_work_def)

lemma pipe_work_0: "pipe_work p = 0 \<longleftrightarrow> pl_queue p = [] \<and> pl_paying p = [] \<and> pl_waiting p = [] \<and> pl_running p = []"
  by (cases "pl_queue p"; cases "pl_paying p") (auto simp: pipe_work_def split: prod.splits)

lemma recv_work: "recv d j g = Some g' \<Longrightarrow> gw_work g' < gw_work g"
proof (erule recvE, goal_cases)
  case (1 q)
  have "pipe_work q < pipe_work (pipe d g)"
    using 1(5) sum_remove1 [OF 1(1), of "\<lambda>j. j_bytes j + 3"] by (elim disjE) (simp_all add: pipe_work_def)
  with gw_work_set_pipe [of d q g] 1(4) show ?case by simp
qed

lemma acquire_work: "acquire_permit d j g = Some g' \<Longrightarrow> gw_work g' < gw_work g"
proof (erule acquireE, goal_cases)
  case (1 q)
  have "pipe_work q < pipe_work (pipe d g)" using 1(4) remove1_length [OF 1(1)] by (simp add: pipe_work_def)
  with gw_work_set_pipe [of d q g] 1(3) show ?case by simp
qed

lemma complete_work: "complete d j g = Some g' \<Longrightarrow> gw_work g' < gw_work g"
proof (erule completeE, goal_cases)
  case (1 q g1)
  have "pipe_work q < pipe_work (pipe d g)" using 1(3) remove1_length [OF 1(1)] by (simp add: pipe_work_def)
  with gw_work_set_pipe [of d q g] 1(2,4) show ?case by auto
qed

lemma pay_work: "pay L d j n g = Some g' \<Longrightarrow> 0 < n \<Longrightarrow> (\<And>l. pl_limiter (pipe d g) = Some l \<Longrightarrow> 0 < lo_max L l) \<Longrightarrow> gw_work g' < gw_work g"
proof (erule payE, goal_cases)
  case (1 rl rl' c q)
  have "pipe_work q < pipe_work (pipe d g)"
    using 1(8) 1(1,2,3,5) sum_remove1 [OF 1(4), of "\<lambda>(j, r). r + 2"] by (elim disjE) (auto simp: pipe_work_def)
  with gw_work_set_pipe [of d q g] 1(7) show ?case by simp
qed

lemma max_priority_ex:
  "js \<noteq> [] \<Longrightarrow> \<exists>j \<in> set js. \<forall>k \<in> set js. priority (j_class k) \<le> priority (j_class j)"
proof (induction js)
  case (Cons a js)
  show ?case
  proof (cases "js = []")
    case False
    then obtain j where "j \<in> set js" "\<forall>k \<in> set js. priority (j_class k) \<le> priority (j_class j)" using Cons.IH by blast
    then show ?thesis by (cases "priority (j_class a) \<le> priority (j_class j)") (auto intro: order.trans)
  qed simp
qed simp

context rate_limiter
begin

lemma refills_run:
  "gw_run L (replicate k (Refill d)) g =
     Some (set_pipe d ((pipe d g)\<lparr>pl_limiter := map_option (lo_tick L ^^ k) (pl_limiter (pipe d g))\<rparr>) g)"
proof (induction k arbitrary: g)
  case 0
  have "set_pipe d ((pipe d g)\<lparr>pl_limiter := pl_limiter (pipe d g)\<rparr>) g = g" by (cases d) simp_all
  then show ?case by (simp add: option.map_ident)
next
  case (Suc k)
  have "set_pipe d p (set_pipe d q g) = set_pipe d p g" for p q by (cases d) simp_all
  with Suc show ?case by (simp add: refill_def option.map_comp o_def funpow_swap1)
qed

lemma refills_work:
  "gw_run L (replicate k (Refill d)) g = Some g' \<Longrightarrow> gw_work g' = gw_work g"
  unfolding refills_run
  using gw_work_set_pipe [of d "(pipe d g)\<lparr>pl_limiter := map_option (lo_tick L ^^ k) (pl_limiter (pipe d g))\<rparr>" g]
  by (auto simp: pipe_work_def)

text \<open>While there is work, some worker can make progress, after waiting for tokens at most.\<close>

lemma progress:
  assumes ok: "gw_ok L rate budget workers g" and work: "0 < gw_work g"
  shows "\<exists>as g'. list_all internal as \<and> gw_run L as g = Some g' \<and> gw_work g' < gw_work g"
proof -
  have pk: "pipe_ok L rate (workers d) (pipe d g)" for d using ok by (simp add: gw_ok_def)
  have one: "\<exists>as g'. list_all internal as \<and> gw_run L as g = Some g' \<and> gw_work g' < gw_work g"
    if "internal a" "gw_act L a g = Some g'" "gw_work g' < gw_work g" for a g'
    using that by (intro exI [of _ "[a]"]) simp
  have "pipe_work (pipe Download g) \<noteq> 0 \<or> pipe_work (pipe Upload g) \<noteq> 0" using work by (simp add: gw_work_def)
  then obtain d0 where d0: "pipe_work (pipe d0 g) \<noteq> 0" by blast
  consider (running) d where "pl_running (pipe d g) \<noteq> []"
    | (waiting) d where "\<forall>d. pl_running (pipe d g) = []" "pl_waiting (pipe d g) \<noteq> []"
    | (paying) d where "pl_paying (pipe d g) \<noteq> []"
    | (queued) d where "pl_running (pipe d g) = []" "pl_waiting (pipe d g) = []" "pl_paying (pipe d g) = []" "pl_queue (pipe d g) \<noteq> []"
    using d0 [unfolded pipe_work_0] by blast
  then show ?thesis
  proof cases
    case running
    then obtain j where "j \<in> set (pl_running (pipe d g))" by (meson last_in_set)
    then obtain g' where "complete d j g = Some g'" by (simp add: complete_def Let_def)
    then show ?thesis by (intro one [of "Complete d j" g']) (simp_all add: complete_work)
  next
    case waiting
    then obtain j where "j \<in> set (pl_waiting (pipe d g))" by (meson last_in_set)
    moreover have "0 < gw_permits g" using ok waiting(1) by (auto simp: gw_ok_def) (metis pipe.simps list.size(3) add_0_right)+
    ultimately obtain g' where "acquire_permit d j g = Some g'" by (simp add: acquire_permit_def Let_def)
    then show ?thesis by (intro one [of "Acquire d j" g']) (simp_all add: acquire_work)
  next
    case paying
    then obtain j n where jn: "(j, n) \<in> set (pl_paying (pipe d g))" by (metis last_in_set surj_pair)
    obtain rl where rl: "pl_limiter (pipe d g) = Some rl" "0 < lo_max L rl" "0 < rate rl" "0 < n"
      using pk [of d] paying jn by (auto simp: pipe_ok_def)
    obtain k rl' where k: "lo_acquire L ((lo_tick L ^^ k) rl) (min n (lo_max L rl)) = Some rl'"
      using granted [OF rl(3), of "min n (lo_max L rl)"] by auto
    define g1 where "g1 = set_pipe d ((pipe d g)\<lparr>pl_limiter := Some ((lo_tick L ^^ k) rl)\<rparr>) g"
    have r1: "gw_run L (replicate k (Refill d)) g = Some g1" by (simp add: refills_run g1_def rl)
    obtain g2 where g2: "pay L d j n g1 = Some g2"
      using jn k by (auto simp: pay_def g1_def ticks_same Let_def)
    have "gw_work g2 < gw_work g1" using pay_work [OF g2 rl(4)] rl(2) by (simp add: g1_def ticks_same)
    then show ?thesis using refills_work [OF r1] r1 g2
      by (intro exI [of _ "replicate k (Refill d) @ [Pay d j n]"] exI [of _ g2])
         (simp add: gw_run_append list_all_iff)
  next
    case queued
    then obtain j where j: "j \<in> set (pl_queue (pipe d g))" "\<forall>k \<in> set (pl_queue (pipe d g)). priority (j_class k) \<le> priority (j_class j)"
      using max_priority_ex by blast
    moreover have "0 < pl_idle (pipe d g)" using pk [of d] queued by (simp add: pipe_ok_def)
    ultimately obtain g' where "recv d j g = Some g'" by (auto simp: recv_def Let_def list_all_iff)
    then show ?thesis by (intro one [of "Recv d j" g']) (simp_all add: recv_work)
  qed
qed

lemma drains:
  assumes "gw_ok L rate budget workers g"
  shows "\<exists>as g'. list_all internal as \<and> gw_run L as g = Some g' \<and> gw_work g' = 0"
  using assms
proof (induction "gw_work g" arbitrary: g rule: less_induct)
  case less
  show ?case
  proof (cases "gw_work g = 0")
    case True
    then show ?thesis by (intro exI [of _ "[]"]) simp
  next
    case False
    then obtain as1 g1 where a1: "list_all internal as1" "gw_run L as1 g = Some g1" "gw_work g1 < gw_work g"
      using progress [OF less.prems] by auto
    from less.hyps [OF a1(3) run_ok [OF less.prems a1(2)]]
    obtain as2 g2 where "list_all internal as2" "gw_run L as2 g1 = Some g2" "gw_work g2 = 0" by blast
    with a1 show ?thesis by (intro exI [of _ "as1 @ as2"]) (simp add: gw_run_append list_all_append)
  qed
qed

end

section \<open>Bandwidth\<close>

text \<open>The bytes of the jobs that a direction has started, and its refill intervals.\<close>

fun started :: "direction \<Rightarrow> action \<Rightarrow> nat" where
  "started d (Acquire e j) = (if d = e then j_bytes j else 0)"
| "started d _ = 0"

fun refills :: "direction \<Rightarrow> action \<Rightarrow> nat" where
  "refills d (Refill e) = (if d = e then 1 else 0)"
| "refills d _ = 0"

definition bandwidth_of :: "io_gateway_config \<Rightarrow> direction \<Rightarrow> nat" where
  "bandwidth_of cfg d = (case d of Download \<Rightarrow> gc_download_bandwidth_bps cfg | Upload \<Rightarrow> gc_upload_bandwidth_bps cfg)"

text \<open>Tokens at hand, and tokens paid for jobs that have not started.\<close>

definition credit :: "('l \<Rightarrow> nat) \<Rightarrow> 'l pipeline \<Rightarrow> nat" where
  "credit level p = (case pl_limiter p of None \<Rightarrow> 0 | Some l \<Rightarrow> level l) + sum_list (map j_bytes (pl_waiting p)) +
     sum_list (map (\<lambda>(j, r). j_bytes j - r) (pl_paying p))"

definition limited :: "('l \<Rightarrow> nat) \<Rightarrow> nat \<Rightarrow> 'l pipeline \<Rightarrow> bool" where
  "limited rate r p \<longleftrightarrow> (\<exists>l. pl_limiter p = Some l \<and> rate l = r)"

lemma queue_irrelevant [simp]:
  "credit level (p\<lparr>pl_queue := q\<rparr>) = credit level p" "limited rate r (p\<lparr>pl_queue := q\<rparr>) = limited rate r p"
  by (simp_all add: credit_def limited_def)

context rate_limiter
begin

lemma act_credit:
  assumes ok: "gw_ok L rate budget workers g" and lim: "limited rate r (pipe d g)" and a: "gw_act L a g = Some g'"
  shows "limited rate r (pipe d g') \<and>
    credit level (pipe d g') + started d a \<le> credit level (pipe d g) + r * refills d a"
proof (cases a)
  case (Submit e j)
  with a lim show ?thesis by (auto simp: submit_def)
next
  case (Cancel i)
  with a lim show ?thesis by auto
next
  case (Recv e j)
  with a have "recv e j g = Some g'" by simp
  then show ?thesis
  proof (rule recvE, goal_cases)
    case (1 q)
    have "e = d \<Longrightarrow> limited rate r q \<and> credit level q \<le> credit level (pipe d g)"
      using 1(5) lim by (elim disjE) (auto simp: limited_def credit_def)
    with 1(4) lim Recv show ?case by auto
  qed
next
  case (Pay e j n)
  with a have "pay L e j n g = Some g'" by simp
  then show ?thesis
  proof (rule payE, goal_cases)
    case (1 rl rl' c q)
    have n: "0 < n" "n \<le> j_bytes j" using ok 1(2) by (auto simp: gw_ok_def pipe_ok_def)
    have "e = d \<Longrightarrow> limited rate r q \<and> credit level q \<le> credit level (pipe d g)"
      using 1(6) 1(1,3) lim acquired [OF 1(4)] n sum_remove1 [OF 1(2), of "\<lambda>(j, r). j_bytes j - r"]
      by (elim disjE) (auto simp: limited_def credit_def)
    with 1(5) lim Pay show ?case by auto
  qed
next
  case (Acquire e j)
  with a have "acquire_permit e j g = Some g'" by simp
  then show ?thesis
  proof (rule acquireE, goal_cases)
    case (1 q)
    have "e = d \<Longrightarrow> limited rate r q \<and> credit level q + j_bytes j = credit level (pipe d g)"
      using 1(4) lim sum_remove1 [OF 1(1), of j_bytes] by (auto simp: limited_def credit_def)
    with 1(3) lim Acquire show ?case by auto
  qed
next
  case (Complete e j)
  with a have "complete e j g = Some g'" by simp
  then show ?thesis
  proof (rule completeE, goal_cases)
    case (1 q g1)
    have "e = d \<Longrightarrow> limited rate r q \<and> credit level q = credit level (pipe d g)"
      using 1(3) lim by (auto simp: limited_def credit_def)
    with 1(2,4) lim Complete show ?case by (elim disjE) auto
  qed
next
  case (Refill e)
  with a lim ticked(1) show ?thesis
    by (auto simp: refill_def limited_def credit_def ticked(2,3))
qed

lemma run_credit:
  assumes "gw_ok L rate budget workers g" and "limited rate r (pipe d g)" and "gw_run L as g = Some g'"
  shows "credit level (pipe d g') + sum_list (map (started d) as) \<le> credit level (pipe d g) + r * sum_list (map (refills d) as)"
  using assms
proof (induction "as" arbitrary: g)
  case (Cons a "as")
  then obtain g1 where g1: "gw_act L a g = Some g1" "gw_run L as g1 = Some g'" by (auto split: option.splits)
  note step = act_credit [OF Cons.prems(1,2) g1(1)]
  from Cons.IH [OF act_ok [OF Cons.prems(1) g1(1)] _ g1(2)] step show ?case by (auto simp: algebra_simps)
qed simp

lemma new_limited:
  assumes "0 < bandwidth_of cfg d"
  shows "limited rate (max (bandwidth_of cfg d div 10) 1) (pipe d (gateway_new L cfg)) \<and>
    credit level (pipe d (gateway_new L cfg)) \<le> max (bandwidth_of cfg d) MAX_PAGE_REQUEST_BYTES"
  using assms built
  by (cases d) (auto simp: bandwidth_of_def gateway_new_def pipeline_new_def build_limiter_def limited_def credit_def Let_def)

end

section \<open>Properties\<close>

text \<open>
  C15: however producers and workers interleave, the requests in flight in both directions together
  never exceed the configured concurrency, a direction never has more in flight than its own
  ceiling, and every permit is accounted for.
\<close>

theorem gateway_in_flight_bounded:
  assumes "rate_limiter L level rate" and "gw_run L as (gateway_new L cfg) = Some g"
  shows "gw_permits g + length (pl_running (gw_download g)) + length (pl_running (gw_upload g)) = max (gc_concurrency cfg) 1 \<and>
    length (pl_running (gw_download g)) \<le> max (gc_download_concurrency cfg) 1 \<and>
    length (pl_running (gw_upload g)) \<le> max (gc_upload_concurrency cfg) 1"
proof -
  have ok: "gw_ok L rate (max (gc_concurrency cfg) 1) (workers_of cfg) g"
    using rate_limiter.run_ok [OF assms(1) rate_limiter.gateway_new_ok [OF assms(1)] assms(2)] .
  have "workers_of cfg Download \<le> max (gc_download_concurrency cfg) 1" "workers_of cfg Upload \<le> max (gc_upload_concurrency cfg) 1"
    by (auto simp: workers_of_def clamp_def Let_def)
  with ok show ?thesis by (auto simp: gw_ok_def pipe_ok_def all_dirs)
qed

text \<open>A gateway with one permit, a limited download direction, and two jobs.\<close>

abbreviation tiny_gc :: io_gateway_config where
  "tiny_gc \<equiv> \<lparr>gc_concurrency = 1, gc_download_concurrency = 2, gc_upload_concurrency = 0, gc_download_bandwidth_bps = 100,
     gc_upload_bandwidth_bps = 0\<rparr>"

abbreviation warm_job :: job where
  "warm_job \<equiv> \<lparr>j_id = 1, j_class = Warmup, j_bytes = 5000000\<rparr>"

abbreviation read_job :: job where
  "read_job \<equiv> \<lparr>j_id = 2, j_class = ForegroundRead, j_bytes = 512\<rparr>"

abbreviation tiny_acts :: "action list" where
  "tiny_acts \<equiv> [Submit Download warm_job, Submit Download read_job, Recv Download read_job, Pay Download read_job 512,
     Acquire Download read_job]"

lemma tiny_acts_run: "\<exists>g. gw_run bucket_ops tiny_acts (gateway_new bucket_ops tiny_gc) = Some g"
  by (simp add: gateway_new_def pipeline_new_def build_limiter_def clamp_def bucket_ops_def submit_def recv_def pay_def
      acquire_permit_def MAX_PAGE_REQUEST_BYTES_def Let_def)

theorem gateway_in_flight_bounded_witness:
  "\<exists>g. gw_run bucket_ops tiny_acts (gateway_new bucket_ops tiny_gc) = Some g \<and>
     gw_permits g + length (pl_running (gw_download g)) + length (pl_running (gw_upload g)) = 1"
proof -
  obtain g where g: "gw_run bucket_ops tiny_acts (gateway_new bucket_ops tiny_gc) = Some g" using tiny_acts_run by blast
  from gateway_in_flight_bounded [OF token_bucket.rate_limiter_axioms g] g show ?thesis by (intro exI [of _ g]) simp
qed

text \<open>
  C32: with a bandwidth limit, the bytes of all requests a direction has started after \<open>k\<close> refill
  intervals are at most one burst plus \<open>k\<close> refills, requests above the burst size included.
\<close>

theorem gateway_bandwidth_bounded:
  assumes "rate_limiter L level rate" and "0 < bandwidth_of cfg d" and "gw_run L as (gateway_new L cfg) = Some g"
  shows "sum_list (map (started d) as) \<le> max (bandwidth_of cfg d) MAX_PAGE_REQUEST_BYTES +
    max (bandwidth_of cfg d div 10) 1 * sum_list (map (refills d) as)"
  using rate_limiter.run_credit [OF assms(1) rate_limiter.gateway_new_ok [OF assms(1)] conjunct1 [OF rate_limiter.new_limited [OF assms(1,2)]] assms(3)]
    rate_limiter.new_limited [OF assms(1,2)] by linarith

theorem gateway_bandwidth_bounded_witness:
  "sum_list (map (started Download) tiny_acts) \<le> max 100 MAX_PAGE_REQUEST_BYTES + 10 * sum_list (map (refills Download) tiny_acts)"
proof -
  obtain g where g: "gw_run bucket_ops tiny_acts (gateway_new bucket_ops tiny_gc) = Some g" using tiny_acts_run by blast
  have "0 < bandwidth_of tiny_gc Download" by (simp add: bandwidth_of_def)
  from gateway_bandwidth_bounded [OF token_bucket.rate_limiter_axioms this g] show ?thesis by (simp add: bandwidth_of_def)
qed

text \<open>
  C23: no request is lost and the gateway does not deadlock. From every state that a run reaches, the
  workers can finish everything on their own; then the requests delivered to their submitters and
  those dropped because the submitter was gone are exactly the submitted ones, each once.
\<close>

theorem gateway_drains:
  assumes "rate_limiter L level rate" and "gw_run L as (gateway_new L cfg) = Some g"
  shows "\<exists>bs g'. list_all internal bs \<and> gw_run L bs g = Some g' \<and> pipe_ids (gw_download g') = {#} \<and>
    pipe_ids (gw_upload g') = {#} \<and> mset (gw_delivered g') + mset (gw_dropped g') = mset (concat (map submitted as))"
proof -
  have ok: "gw_ok L rate (max (gc_concurrency cfg) 1) (workers_of cfg) g"
    using rate_limiter.run_ok [OF assms(1) rate_limiter.gateway_new_ok [OF assms(1)] assms(2)] .
  obtain bs g' where d: "list_all internal bs" "gw_run L bs g = Some g'" "gw_work g' = 0"
    using rate_limiter.drains [OF assms(1) ok] by blast
  have new: "all_ids (gateway_new L cfg) = {#}"
    by (simp add: all_ids_def pipe_ids_def gateway_new_def pipeline_new_def Let_def)
  have none: "concat (map submitted bs) = []"
  proof -
    have "submitted a = []" if "internal a" for a using that by (cases a) simp_all
    with d(1) show ?thesis by (auto simp: list_all_iff)
  qed
  have "all_ids g' = mset (concat (map submitted as))"
    using run_ids [OF d(2)] run_ids [OF assms(2)] by (simp add: none new)
  moreover have "pipe_ids (gw_download g') = {#}" "pipe_ids (gw_upload g') = {#}"
    using d(3) by (simp_all add: gw_work_def pipe_work_0 pipe_ids_def)
  ultimately show ?thesis using d(1,2) by (auto simp: all_ids_def)
qed

theorem gateway_drains_witness:
  "\<exists>g bs g'. gw_run bucket_ops tiny_acts (gateway_new bucket_ops tiny_gc) = Some g \<and> gw_run bucket_ops bs g = Some g' \<and>
     mset (gw_delivered g') + mset (gw_dropped g') = {#1, 2#}"
proof -
  obtain g where g: "gw_run bucket_ops tiny_acts (gateway_new bucket_ops tiny_gc) = Some g" using tiny_acts_run by blast
  have "mset (concat (map submitted tiny_acts)) = {#1, 2#}" by simp
  with gateway_drains [OF token_bucket.rate_limiter_axioms g] g show ?thesis by metis
qed

lemma queued_stays:
  assumes "gw_act L a g = Some g'" and "j \<in> set (pl_queue (pipe d g))" and "a \<noteq> Recv d j"
  shows "j \<in> set (pl_queue (pipe d g'))"
proof (cases a)
  case (Recv e k)
  with assms(1) have "recv e k g = Some g'" by simp
  then show ?thesis
  proof (rule recvE, goal_cases)
    case (1 q)
    have "e = d \<Longrightarrow> j \<in> set (pl_queue q)" using 1(5) assms(2,3) Recv by (elim disjE) (auto simp: in_set_remove1)
    with 1(4) assms(2) show ?case by auto
  qed
next
  case (Pay e k n)
  with assms(1) have "pay L e k n g = Some g'" by simp
  then show ?thesis using assms(2) by (elim payE) (auto split: if_splits)
next
  case (Acquire e k)
  with assms(1) have "acquire_permit e k g = Some g'" by simp
  then show ?thesis using assms(2) by (elim acquireE) auto
next
  case (Complete e k)
  with assms(1) have "complete e k g = Some g'" by simp
  then show ?thesis using assms(2) by (elim completeE disjE) auto
qed (use assms in \<open>auto simp: submit_def refill_def\<close>)



end
