(* ===== verification/Cli.thy ===== *)
theory Cli
  imports Csi_Device_Url Io_Gateway
begin

text \<open>
  The command line of \<open>main.rs\<close>: the credentials and the I/O limits as they come from options and environment
  variables, the credential a command uses (\<open>build_auth\<close>), and the configuration of the CSI driver. What
  \<open>clap\<close> does with the text of a boolean variable is a parameter; the declared conflicts and the variable names
  are those of the source.
\<close>

section \<open>Options and environment variables\<close>

text \<open>\<open>ca_flag\<close> is the parser of a boolean flag that is set by its variable; an option wins over its variable.\<close>

record clap =
  ca_flag :: "string \<Rightarrow> bool option"

record cli_auth =
  cli_blob_url :: "string option"
  cli_account_key :: "string option"
  cli_sas_token :: "string option"
  cli_msi :: bool
  cli_msi_client_id :: "string option"
  cli_msi_object_id :: "string option"
  cli_msi_resource_id :: "string option"
  cli_workload_identity :: bool
  cli_azure_client_id :: "string option"
  cli_azure_tenant_id :: "string option"
  cli_azure_federated_token_file :: "string option"
  cli_azure_client_secret :: "string option"

definition setting :: "(string \<Rightarrow> string option) \<Rightarrow> (string \<Rightarrow> string option) \<Rightarrow> string \<Rightarrow> string \<Rightarrow> string option" where
  "setting arg getenv long var = or_else (arg long) (getenv var)"

text \<open>A flag on the command line has no value and counts as true.\<close>

definition flag_value :: "clap \<Rightarrow> string option \<Rightarrow> string option \<Rightarrow> bool res" where
  "flag_value P given v =
     (if given \<noteq> None then Inr True
      else
        (case v of
           None \<Rightarrow> Inr False
         | Some s \<Rightarrow> (case ca_flag P s of Some b \<Rightarrow> Inr b | None \<Rightarrow> Inl (IoErr ''invalid value for a flag''))))"

text \<open>The options that \<open>conflicts_with_all\<close> excludes from each other, by what is given of them.\<close>

definition auth_conflict :: "(string \<Rightarrow> string option) \<Rightarrow> (string \<Rightarrow> string option) \<Rightarrow> bool" where
  "auth_conflict arg getenv \<longleftrightarrow>
     (let key = setting arg getenv ''account-key'' ''AZURE_STORAGE_KEY'' \<noteq> None;
          msi = setting arg getenv ''msi'' ''AZURE_USE_MSI'' \<noteq> None;
          msi_client_id = setting arg getenv ''msi-client-id'' ''AZURE_MSI_CLIENT_ID'' \<noteq> None;
          msi_object_id = setting arg getenv ''msi-object-id'' ''AZURE_MSI_OBJECT_ID'' \<noteq> None;
          msi_resource_id = setting arg getenv ''msi-resource-id'' ''AZURE_MSI_RESOURCE_ID'' \<noteq> None;
          workload_identity = setting arg getenv ''workload-identity'' ''AZURE_USE_WORKLOAD_IDENTITY'' \<noteq> None;
          client_secret = setting arg getenv ''azure-client-secret'' ''AZURE_CLIENT_SECRET'' \<noteq> None;
          any_msi = msi \<or> msi_client_id \<or> msi_object_id \<or> msi_resource_id
      in key \<and> (any_msi \<or> workload_identity) \<or>
         msi_client_id \<and> (msi_object_id \<or> msi_resource_id) \<or>
         msi_object_id \<and> msi_resource_id \<or>
         workload_identity \<and> (key \<or> any_msi) \<or>
         client_secret \<and> (key \<or> any_msi))"

definition cli_auth_parse ::
  "clap \<Rightarrow> (string \<Rightarrow> string option) \<Rightarrow> (string \<Rightarrow> string option) \<Rightarrow> cli_auth res" where
  "cli_auth_parse P arg getenv =
     (case flag_value P (arg ''msi'') (getenv ''AZURE_USE_MSI'') of
        Inl e \<Rightarrow> Inl e
      | Inr msi \<Rightarrow>
          (case flag_value P (arg ''workload-identity'') (getenv ''AZURE_USE_WORKLOAD_IDENTITY'') of
             Inl e \<Rightarrow> Inl e
           | Inr workload_identity \<Rightarrow>
               if auth_conflict arg getenv then Inl BadConfig
               else
                 Inr \<lparr>cli_blob_url = setting arg getenv ''blob-url'' ''UBLK_BLOB_URL'',
                      cli_account_key = setting arg getenv ''account-key'' ''AZURE_STORAGE_KEY'',
                      cli_sas_token = setting arg getenv ''sas-token'' ''AZURE_STORAGE_SAS'',
                      cli_msi = msi,
                      cli_msi_client_id = setting arg getenv ''msi-client-id'' ''AZURE_MSI_CLIENT_ID'',
                      cli_msi_object_id = setting arg getenv ''msi-object-id'' ''AZURE_MSI_OBJECT_ID'',
                      cli_msi_resource_id = setting arg getenv ''msi-resource-id'' ''AZURE_MSI_RESOURCE_ID'',
                      cli_workload_identity = workload_identity,
                      cli_azure_client_id = setting arg getenv ''azure-client-id'' ''AZURE_CLIENT_ID'',
                      cli_azure_tenant_id = setting arg getenv ''azure-tenant-id'' ''AZURE_TENANT_ID'',
                      cli_azure_federated_token_file =
                        setting arg getenv ''azure-federated-token-file'' ''AZURE_FEDERATED_TOKEN_FILE'',
                      cli_azure_client_secret = setting arg getenv ''azure-client-secret'' ''AZURE_CLIENT_SECRET''\<rparr>))"

section \<open>The credential of a command\<close>

definition build_auth :: "cli_auth \<Rightarrow> string \<Rightarrow> string option \<Rightarrow> auth_config res" where
  "build_auth cli account sas =
     (case sas of
        Some t \<Rightarrow> Inr (Sas t)
      | None \<Rightarrow>
          (case cli_account_key cli of
             Some key \<Rightarrow> Inr (SharedKey account key)
           | None \<Rightarrow>
               if cli_workload_identity cli
               then Inr (WorkloadIdentity (cli_azure_client_id cli) (cli_azure_tenant_id cli)
                           (cli_azure_federated_token_file cli))
               else
                 (let user_assigned =
                        or_else (or_else (map_option ClientId (cli_msi_client_id cli))
                                   (map_option ObjectId (cli_msi_object_id cli)))
                          (map_option ResourceId (cli_msi_resource_id cli))
                  in if user_assigned \<noteq> None \<or> cli_msi cli then Inr (Msi user_assigned)
                     else
                       (case (cli_azure_tenant_id cli, cli_azure_client_id cli, cli_azure_client_secret cli) of
                          (Some tenant, Some client, Some secret) \<Rightarrow> Inr (ServicePrincipal tenant client secret)
                        | _ \<Rightarrow> Inl (IoErr ''No auth method specified'')))))"

section \<open>The gateway\<close>

record cli_io =
  cli_io_concurrency :: nat
  cli_download_concurrency :: nat
  cli_upload_concurrency :: nat
  cli_download_bandwidth :: nat
  cli_upload_bandwidth :: nat

definition number_value :: "string option \<Rightarrow> nat res" where
  "number_value v =
     (case v of
        None \<Rightarrow> Inr 0
      | Some s \<Rightarrow> (case parse_uint u64_limit s of Some n \<Rightarrow> Inr n | None \<Rightarrow> Inl (IoErr ''invalid value for a number'')))"

definition cli_io_parse :: "(string \<Rightarrow> string option) \<Rightarrow> (string \<Rightarrow> string option) \<Rightarrow> cli_io res" where
  "cli_io_parse arg getenv =
     (case number_value (setting arg getenv ''io-concurrency'' ''UBLK_IO_CONCURRENCY'') of
        Inl e \<Rightarrow> Inl e
      | Inr io \<Rightarrow>
     (case number_value (setting arg getenv ''download-concurrency'' ''UBLK_DOWNLOAD_CONCURRENCY'') of
        Inl e \<Rightarrow> Inl e
      | Inr dc \<Rightarrow>
     (case number_value (setting arg getenv ''upload-concurrency'' ''UBLK_UPLOAD_CONCURRENCY'') of
        Inl e \<Rightarrow> Inl e
      | Inr uc \<Rightarrow>
     (case number_value (setting arg getenv ''download-bandwidth'' ''UBLK_DOWNLOAD_BANDWIDTH'') of
        Inl e \<Rightarrow> Inl e
      | Inr db \<Rightarrow>
     (case number_value (setting arg getenv ''upload-bandwidth'' ''UBLK_UPLOAD_BANDWIDTH'') of
        Inl e \<Rightarrow> Inl e
      | Inr ub \<Rightarrow>
          Inr \<lparr>cli_io_concurrency = io, cli_download_concurrency = dc, cli_upload_concurrency = uc,
               cli_download_bandwidth = db, cli_upload_bandwidth = ub\<rparr>)))))"

text \<open>The start of \<open>main\<close>: the environment's defaults, then what is given explicitly.\<close>

definition main_gateway_config :: "nat \<Rightarrow> (string \<Rightarrow> string option) \<Rightarrow> cli_io \<Rightarrow> io_gateway_config" where
  "main_gateway_config cpu_count getenv cli =
     (let c0 = gateway_config_from_env cpu_count getenv;
          c1 = (if 0 < cli_io_concurrency cli
                then c0\<lparr>gc_concurrency := cli_io_concurrency cli,
                        gc_download_concurrency := cli_io_concurrency cli,
                        gc_upload_concurrency := cli_io_concurrency cli\<rparr>
                else c0);
          c2 = (if 0 < cli_download_concurrency cli
                then c1\<lparr>gc_download_concurrency := cli_download_concurrency cli\<rparr> else c1);
          c3 = (if 0 < cli_upload_concurrency cli
                then c2\<lparr>gc_upload_concurrency := cli_upload_concurrency cli\<rparr> else c2)
      in c3\<lparr>gc_download_bandwidth_bps := cli_download_bandwidth cli,
            gc_upload_bandwidth_bps := cli_upload_bandwidth cli\<rparr>)"

section \<open>The CSI driver\<close>

record csi_options =
  co_account :: string
  co_container :: string
  co_endpoint :: "string option"
  co_use_nbd :: bool
  co_nbd_host :: string
  co_nbd_port_start :: nat

definition csi_endpoint_template :: "csi_options \<Rightarrow> string" where
  "csi_endpoint_template o' =
     (case co_endpoint o' of
        Some e \<Rightarrow> e
      | None \<Rightarrow>
          if co_account o' = [] then ''https://blob.core.windows.net/''
          else ''https://'' @ co_account o' @ ''.blob.core.windows.net/'')"

definition csi_driver_config :: "cli_auth \<Rightarrow> csi_options \<Rightarrow> driver_config" where
  "csi_driver_config cli o' =
     \<lparr>dc_account = co_account o', dc_endpoint = csi_endpoint_template o', dc_default_container = co_container o',
      dc_account_key = cli_account_key cli,
      dc_use_msi = (cli_msi cli \<or> cli_msi_client_id cli \<noteq> None \<or> cli_msi_object_id cli \<noteq> None \<or>
                    cli_msi_resource_id cli \<noteq> None),
      dc_msi_client_id = cli_msi_client_id cli,
      dc_use_workload_identity = cli_workload_identity cli,
      dc_workload_identity_client_id = cli_azure_client_id cli,
      dc_workload_identity_tenant_id = cli_azure_tenant_id cli,
      dc_workload_identity_token_file = cli_azure_federated_token_file cli,
      dc_sp_tenant_id = cli_azure_tenant_id cli, dc_sp_client_id = cli_azure_client_id cli,
      dc_sp_client_secret = cli_azure_client_secret cli,
      dc_use_nbd = co_use_nbd o', dc_nbd_host = co_nbd_host o', dc_nbd_port_start = co_nbd_port_start o'\<rparr>"

definition hostname :: "(string \<Rightarrow> string option) \<Rightarrow> string" where
  "hostname getenv = (case nonempty_opt (getenv ''HOSTNAME'') of Some h \<Rightarrow> h | None \<Rightarrow> ''unknown-node'')"

definition csi_node_id :: "(string \<Rightarrow> string option) \<Rightarrow> string \<Rightarrow> string" where
  "csi_node_id getenv node_id = (if node_id = [] then hostname getenv else node_id)"

end
