(* ===== verification/Run_Command.thy ===== *)
theory Run_Command
  imports Device_Stack Cli
begin

text \<open>
  The \<open>run\<close> command of \<open>main.rs\<close> from the command line to its exit: the blob behind \<open>--blob-url\<close>, the credential, the
  lock (\<open>acquire_lock\<close>, \<open>connect_cluster_lease\<close>), the device of \<open>Device_Stack\<close>, the front end that serves it, and
  the release of the lock. A container client gives the lease requests of each of its blobs, and the Kubernetes
  client the API on one lease object; both are parameters.
\<close>

section \<open>The lock\<close>

record 'z lock_cloud =
  lc_leases :: "string \<Rightarrow> string \<Rightarrow> auth_config \<Rightarrow> (string \<Rightarrow> 'z lease_service) res"
  lc_kubernetes :: "string \<Rightarrow> string \<Rightarrow> 'z k8s_api res"

record lock_options =
  lk_recovery_timeout_secs :: nat
  lk_lease_duration_secs :: nat
  lk_lease_namespace :: "string option"
  lk_lease_name :: "string option"
  lk_lease_holder :: "string option"

definition lease_holder :: "(string \<Rightarrow> string option) \<Rightarrow> lock_options \<Rightarrow> string" where
  "lease_holder getenv lk =
     (case or_else (nonempty_opt (lk_lease_holder lk)) (nonempty_opt (getenv ''HOSTNAME'')) of
        Some h \<Rightarrow> h | None \<Rightarrow> ''unknown-node'')"

text \<open>\<open>feature\<close> says whether the program is built with the \<open>coordination\<close> feature.\<close>

definition connect_cluster_lease ::
  "bool \<Rightarrow> 'z lock_cloud \<Rightarrow> (string \<Rightarrow> string option) \<Rightarrow> location \<Rightarrow> string \<Rightarrow> lock_options \<Rightarrow> coordination_config \<Rightarrow>
   ('z k8s_api \<times> k8s_lease) res" where
  "connect_cluster_lease feature LC getenv loc me lk cfg =
     (if \<not> feature then Inl (IoErr ''--coordination requires the `coordination` build feature'')
      else
        (let namespace =
               (case or_else (nonempty_opt (lk_lease_namespace lk)) (nonempty_opt (getenv ''POD_NAMESPACE'')) of
                  Some n \<Rightarrow> n | None \<Rightarrow> ''default'');
             name =
               (case nonempty_opt (lk_lease_name lk) of
                  Some n \<Rightarrow> n | None \<Rightarrow> sanitize_lease_name (lo_container loc @ ''-'' @ lo_blob loc))
         in case lc_kubernetes LC namespace name of
              Inl e \<Rightarrow> Inl e
            | Inr A \<Rightarrow>
                Inr (A, \<lparr>kl_holder = me, kl_lease_duration = cc_lease_duration cfg,
                         kl_recovery_timeout = cc_recovery_timeout cfg\<rparr>)))"

text \<open>What \<open>acquire_lock\<close> hands to the coordinator: the cluster lease, if any, the blob lock and the configuration.\<close>

definition lock_setup ::
  "bool \<Rightarrow> 'z lock_cloud \<Rightarrow> (string \<Rightarrow> string option) \<Rightarrow> location \<Rightarrow> auth_config \<Rightarrow> bool \<Rightarrow> lock_options \<Rightarrow>
   ('z cluster_lease option \<times> 'z blob_lock \<times> coordination_config) res" where
  "lock_setup feature LC getenv loc auth coordination lk =
     (case lc_leases LC (lo_endpoint loc) (lo_container loc) auth of
        Inl e \<Rightarrow> Inl e
      | Inr client \<Rightarrow>
          (let B = azure_blob_lock (client (lo_blob loc));
               me = lease_holder getenv lk;
               cfg = coordination_config_new me (lk_lease_duration_secs lk * micros)
                       (lk_recovery_timeout_secs lk * micros)
           in if coordination
              then (case connect_cluster_lease feature LC getenv loc me lk cfg of
                      Inl e \<Rightarrow> Inl e
                    | Inr (A, k) \<Rightarrow> Inr (Some (k8s_cluster_lease A k), B, cfg))
              else Inr (None, B, cfg)))"

definition acquire_lock ::
  "('z cluster_lease option \<times> 'z blob_lock \<times> coordination_config) res \<Rightarrow> 'z \<Rightarrow> string res \<times> 'z" where
  "acquire_lock setup z =
     (case setup of
        Inl e \<Rightarrow> (Inl e, z)
      | Inr (cluster, B, cfg) \<Rightarrow> coordinator_acquire cluster B cfg z)"

definition release_lock ::
  "('z cluster_lease option \<times> 'z blob_lock \<times> coordination_config) res \<Rightarrow> string option \<Rightarrow> 'z \<Rightarrow> 'z" where
  "release_lock setup guard z =
     (case (setup, guard) of
        (Inr (cluster, B, _), Some lid) \<Rightarrow> guard_release cluster B lid z
      | _ \<Rightarrow> z)"

section \<open>The front end\<close>

text \<open>A run of a front end: the connections an NBD server sees, or the events of the kernel's queues.\<close>

datatype frontend =
    NbdFrontend "bytes option list"
  | UblkFrontend ublk_sys nat nat int "ublk_event list" "(iod \<times> bytes) list"

definition serve_device :: "'s backend \<Rightarrow> frontend \<Rightarrow> nat \<Rightarrow> bool \<Rightarrow> 's \<Rightarrow> (unit res \<times> 's) option" where
  "serve_device B front n read_only dev =
     (case front of
        NbdFrontend conns \<Rightarrow> Some (run_nbd_target B n read_only conns dev)
      | UblkFrontend sys nr_queues queue_depth dev_id evs drain \<Rightarrow>
          map_option (\<lambda>(r, u). (r, ur_state u))
            (run_ublk_target_blocking sys
               \<lparr>uc_block_size = 512, uc_dev_size = n, uc_nr_queues = nr_queues, uc_queue_depth = queue_depth,
                uc_id = dev_id, uc_read_only = read_only\<rparr> B evs drain dev))"

definition device_azure :: "'z device \<Rightarrow> 'z azure" where
  "device_azure dev =
     (let at_bottom = case_sum id fc_inner in case dev of Inl low \<Rightarrow> at_bottom low | Inr b \<Rightarrow> at_bottom (bf_inner b))"

section \<open>The command\<close>

text \<open>
  \<open>None\<close> is a device that is never told to stop. A start that fails is \<open>Inl\<close>; else the result of the front end,
  the device as it was left, and the world after the release.
\<close>

definition run_command ::
  "url_crate \<Rightarrow> 'z cloud \<Rightarrow> bool \<Rightarrow> 'z lock_cloud \<Rightarrow> fc_env \<Rightarrow> retry_config \<Rightarrow> (string \<Rightarrow> string option) \<Rightarrow> cli_auth \<Rightarrow>
   run_options \<Rightarrow> lock_options \<Rightarrow> frontend \<Rightarrow> 'z \<Rightarrow> ((unit res \<times> 'z device \<times> 'z) res) option" where
  "run_command U C feature LC E rc getenv cli opts lk front z =
     (case cli_location U (cli_blob_url cli) (cli_sas_token cli) of
        Inl e \<Rightarrow> Some (Inl e)
      | Inr loc \<Rightarrow>
          (case build_auth cli (lo_account loc) (lo_sas loc) of
             Inl e \<Rightarrow> Some (Inl e)
           | Inr auth \<Rightarrow>
               if ro_disable_blob_lock opts \<and> ro_coordination opts then Some (Inl BadConfig)
               else
                 (case build_azure_backend C loc auth z of
                    Inl e \<Rightarrow> Some (Inl e)
                  | Inr (S, a) \<Rightarrow>
                      (let opts' = opts\<lparr>ro_container := lo_container loc, ro_blob := lo_blob loc\<rparr>;
                           setup = lock_setup feature LC getenv loc auth (ro_coordination opts) lk
                       in case run_start E rc S (acquire_lock setup) opts' a of
                            Inl e \<Rightarrow> Some (Inl e)
                          | Inr (dev, n, guard) \<Rightarrow>
                              map_option (\<lambda>(r, dev'). Inr (r, dev', release_lock setup guard (az_world (device_azure dev'))))
                                (serve_device (device_backend (ro_buffer opts) E rc S) front n
                                   (lo_snapshot loc \<noteq> None) dev)))))"

section \<open>Locks and blobs\<close>

text \<open>Lease requests and the Kubernetes API leave the blobs alone.\<close>

definition leases_keep :: "('z \<Rightarrow> 'v) \<Rightarrow> 'z lease_service \<Rightarrow> bool" where
  "leases_keep view L \<longleftrightarrow>
     (\<forall>z secs. view (snd (le_acquire L z secs)) = view z) \<and> (\<forall>z lid. view (snd (le_renew L z lid)) = view z) \<and>
     (\<forall>z lid. view (snd (le_release L z lid)) = view z) \<and> (\<forall>z p. view (snd (le_break L z p)) = view z)"

definition api_keeps :: "('z \<Rightarrow> 'v) \<Rightarrow> 'z k8s_api \<Rightarrow> bool" where
  "api_keeps view A \<longleftrightarrow>
     (\<forall>z. view (snd (api_get A z)) = view z) \<and> (\<forall>z sp. view (snd (api_create A z sp)) = view z) \<and>
     (\<forall>z ver sp. view (snd (api_replace A z ver sp)) = view z)"

definition locks_keep :: "('z \<Rightarrow> 'v) \<Rightarrow> 'z lock_cloud \<Rightarrow> bool" where
  "locks_keep view LC \<longleftrightarrow>
     (\<forall>ep ct auth client b. lc_leases LC ep ct auth = Inr client \<longrightarrow> leases_keep view (client b)) \<and>
     (\<forall>ns name A. lc_kubernetes LC ns name = Inr A \<longrightarrow> api_keeps view A)"

definition blob_lock_keeps :: "('z \<Rightarrow> 'v) \<Rightarrow> 'z blob_lock \<Rightarrow> bool" where
  "blob_lock_keeps view B \<longleftrightarrow>
     (\<forall>z secs. view (snd (bl_acquire B z secs)) = view z) \<and> (\<forall>z lid. view (snd (bl_release B z lid)) = view z) \<and>
     (\<forall>z. view (snd (bl_break B z)) = view z)"

definition cluster_keeps :: "('z \<Rightarrow> 'v) \<Rightarrow> 'z cluster_lease \<Rightarrow> bool" where
  "cluster_keeps view C \<longleftrightarrow> (\<forall>z. view (snd (cl_try_acquire C z)) = view z) \<and> (\<forall>z. view (snd (cl_release C z)) = view z)"

lemma azure_blob_lock_keeps:
  assumes "leases_keep view L" shows "blob_lock_keeps view (azure_blob_lock L)"
proof -
  have "view w = view z" if "le_acquire L z secs = (q, w)" for z secs q w
    using assms that by (metis leases_keep_def snd_conv)
  then have "view (snd (azlock_acquire L z secs)) = view z" for z secs
    by (auto simp: azlock_acquire_def split: sum.splits option.splits prod.splits)
  moreover have "view (snd (unit_context what p)) = view (snd p)" for what and p :: "unit azr \<times> 'a"
    by (auto simp: unit_context_def split: prod.splits sum.splits)
  ultimately show ?thesis
    using assms by (simp add: blob_lock_keeps_def azure_blob_lock_def azlock_release_def azlock_break_def leases_keep_def)
qed

lemma k8s_cluster_lease_keeps:
  assumes "api_keeps view A" shows "cluster_keeps view (k8s_cluster_lease A k)"
proof -
  have get: "view w1 = view z" if "api_get A z = (g, w1)" for z g w1
    using assms that by (metis api_keeps_def snd_conv)
  have create: "view w1 = view z" if "api_create A z sp = (u, w1)" for z sp u w1
    using assms that by (metis api_keeps_def snd_conv)
  have replace: "view w1 = view z" if "api_replace A z ver sp = (u, w1)" for z ver sp u w1
    using assms that by (metis api_keeps_def snd_conv)
  have replaced: "view (snd (api_replace A z ver sp)) = view z" for z ver sp
    using assms by (simp add: api_keeps_def)
  show ?thesis
    unfolding cluster_keeps_def k8s_cluster_lease_def
    by (auto simp: replaced k8s_try_acquire_def k8s_release_def create_owned_def replace_owned_def
        split: prod.splits sum.splits option.splits cluster_acquire.splits dest!: get create replace)
qed

lemma coordinator_acquire_keeps:
  assumes "blob_lock_keeps view B" and "\<And>C. cluster = Some C \<Longrightarrow> cluster_keeps view C"
    and "coordinator_acquire cluster B cfg z = (r, z')"
  shows "view z' = view z"
proof -
  have acquire: "view w1 = view w" if "bl_acquire B w secs = (g, w1)" for w secs g w1
    using assms(1) that by (metis blob_lock_keeps_def snd_conv)
  have break: "view w1 = view w" if "bl_break B w = (g, w1)" for w g w1
    using assms(1) that by (metis blob_lock_keeps_def snd_conv)
  have attempt: "view w1 = view w" if "cluster = Some C" "cl_try_acquire C w = (g, w1)" for C w g w1
    using assms(2) that by (metis cluster_keeps_def snd_conv)
  have rel: "view (snd (cl_release C w)) = view w" if "cluster = Some C" for C w
    using assms(2) [OF that] by (simp add: cluster_keeps_def)
  have first: "view w1 = view w" if "acquire_cluster cluster w = (g, w1)" for w g w1
    using that attempt by (auto simp: acquire_cluster_def split: option.splits prod.splits sum.splits cluster_acquire.splits)
  have second: "view w1 = view w" if "acquire_blob cluster B secs w = (g, w1)" for w secs g w1
    using that by (auto simp: acquire_blob_def rel split: option.splits prod.splits sum.splits lock_error.splits
        dest!: acquire break)
  show ?thesis
    using assms(3) by (auto simp: coordinator_acquire_def split: prod.splits sum.splits dest!: first second)
qed

lemma lock_setup_keeps:
  assumes "locks_keep view LC" and "lock_setup feature LC getenv loc auth co lk = Inr (cluster, B, cfg)"
  shows "blob_lock_keeps view B" and "\<And>C. cluster = Some C \<Longrightarrow> cluster_keeps view C"
  using assms azure_blob_lock_keeps [of view] k8s_cluster_lease_keeps [of view]
  by (auto simp: lock_setup_def locks_keep_def connect_cluster_lease_def Let_def split: sum.splits if_splits)

lemma acquire_lock_keeps:
  assumes "locks_keep view LC" and "acquire_lock (lock_setup feature LC getenv loc auth co lk) z = (r, z')"
  shows "view z' = view z"
proof (cases "lock_setup feature LC getenv loc auth co lk")
  case (Inr t)
  then obtain cluster B cfg where t: "lock_setup feature LC getenv loc auth co lk = Inr (cluster, B, cfg)"
    by (cases t) auto
  with assms(2) have "coordinator_acquire cluster B cfg z = (r, z')" by (simp add: acquire_lock_def)
  then show ?thesis using coordinator_acquire_keeps [of view B cluster] lock_setup_keeps [OF assms(1) t] by blast
qed (use assms(2) in \<open>simp add: acquire_lock_def\<close>)

lemma release_lock_keeps:
  assumes "locks_keep view LC"
  shows "view (release_lock (lock_setup feature LC getenv loc auth co lk) guard z) = view z"
proof (cases "\<exists>cluster B cfg lid. lock_setup feature LC getenv loc auth co lk = Inr (cluster, B, cfg) \<and> guard = Some lid")
  case True
  then obtain cluster B cfg lid where s: "lock_setup feature LC getenv loc auth co lk = Inr (cluster, B, cfg)" "guard = Some lid"
    by blast
  note k = lock_setup_keeps [OF assms s(1)]
  have "view (snd (bl_release B z lid)) = view z" using k(1) by (simp add: blob_lock_keeps_def)
  with k(2) s show ?thesis by (auto simp: release_lock_def guard_release_def Let_def cluster_keeps_def split: option.splits)
next
  case False
  then show ?thesis by (auto simp: release_lock_def split: sum.splits option.splits)
qed

section \<open>From the command line to the exit\<close>

text \<open>The parts of a run that came up.\<close>

lemma run_commandE:
  assumes "run_command U C feature LC E rc getenv cli opts lk front z = Some (Inr (r, dev, z'))"
    and "cli_location U (cli_blob_url cli) (cli_sas_token cli) = Inr loc"
  obtains auth client ok dev0 n guard where
    "cl_container C (lo_endpoint loc) (lo_container loc) auth = Inr client"
    "run_start E rc (client (lo_blob loc)) (acquire_lock (lock_setup feature LC getenv loc auth (ro_coordination opts) lk))
       (opts\<lparr>ro_container := lo_container loc, ro_blob := lo_blob loc\<rparr>)
       (snapshot_if (lo_snapshot loc) (page_list_if ok (az_new z))) = Inr (dev0, n, guard)"
    "serve_device (device_backend (ro_buffer opts) E rc (client (lo_blob loc))) front n (lo_snapshot loc \<noteq> None) dev0 =
       Some (r, dev)"
    "z' = release_lock (lock_setup feature LC getenv loc auth (ro_coordination opts) lk) guard (az_world (device_azure dev))"
  using assms
  by (auto simp: run_command_def build_azure_backend_def Let_def split: sum.splits if_splits prod.splits)

lemma device_blob_azure: "device_blob view dev = az_content view (device_azure dev)"
  by (simp add: device_blob_def lower_blob_def device_azure_def split: sum.splits)

text \<open>A start on a snapshot creates nothing.\<close>

lemma run_start_snapshot:
  "run_start E rc S acquire opts a = Inr x \<Longrightarrow> az_snapshot a \<noteq> None \<Longrightarrow> \<not> ro_create opts"
  by (auto simp: run_start_def run_provision_def Let_def split: sum.splits if_splits prod.splits)


text \<open>
  C40: A blob whose lease is held by another process is not served: without coordination the command
  ends with an error, whatever front end and cache it is given, and no device exists.
\<close>

theorem run_refuses_locked_blob:
  assumes "cli_location U (cli_blob_url cli) (cli_sas_token cli) = Inr loc" and "lo_snapshot loc = None"
    and "\<And>auth client. lc_leases LC (lo_endpoint loc) (lo_container loc) auth = Inr client \<Longrightarrow>
           lock_world (client (lo_blob loc)) A active obj"
    and "\<And>auth client a n a'. cl_container C (lo_endpoint loc) (lo_container loc) auth = Inr client \<Longrightarrow>
           az_size (client (lo_blob loc)) a = (n, a') \<Longrightarrow> active (az_world a') = active (az_world a)"
    and "active z \<noteq> None" and "\<not> ro_disable_blob_lock opts" and "\<not> ro_coordination opts" and "\<not> ro_create opts"
  shows "\<exists>e. run_command U C feature LC E rc getenv cli opts lk front z = Some (Inl e)"
proof (rule ccontr)
  assume "\<not> ?thesis"
  then obtain auth client ok lks x where
    svc: "cl_container C (lo_endpoint loc) (lo_container loc) auth = Inr client"
    and lks: "lks = lock_setup feature LC getenv loc auth (ro_coordination opts) lk"
    and start: "run_start E rc (client (lo_blob loc)) (acquire_lock lks)
       (opts\<lparr>ro_container := lo_container loc, ro_blob := lo_blob loc\<rparr>)
       (snapshot_if (lo_snapshot loc) (page_list_if ok (az_new z))) = Inr x"
    using assms(1) by (auto simp: run_command_def build_azure_backend_def Let_def split: sum.splits if_splits)
  define opts' where "opts' = opts\<lparr>ro_container := lo_container loc, ro_blob := lo_blob loc\<rparr>"
  define a where "a = snapshot_if (lo_snapshot loc) (page_list_if ok (az_new z))"
  have a: "az_world a = z" "az_snapshot a = None" using assms(2) by (simp_all add: a_def)
  obtain n a1 where p: "run_provision (client (lo_blob loc)) opts' a = Inr (n, a1)"
    using start unfolding opts'_def [symmetric] a_def [symmetric] run_start_def by (auto split: sum.splits)
  then have size: "\<exists>m. az_size (client (lo_blob loc)) a = (m, a1)" and snap: "az_snapshot a1 = None"
    using assms(7,8) a(2)
    by (auto simp: run_provision_def opts'_def az_size_def Let_def split: sum.splits prod.splits if_splits)
  then have held: "active (az_world a1) \<noteq> None" using assms(4) [OF svc] a(1) assms(5) by metis
  have "\<exists>e w. acquire_lock lks (az_world a1) = (Inl e, w)"
  proof (cases lks)
    case (Inr t)
    then obtain lcl where l: "lc_leases LC (lo_endpoint loc) (lo_container loc) auth = Inr lcl"
      and t: "\<exists>cfg. t = (None, azure_blob_lock (lcl (lo_blob loc)), cfg)"
      using lks assms(7) by (auto simp: lock_setup_def Let_def split: sum.splits)
    then obtain cfg where t: "t = (None, azure_blob_lock (lcl (lo_blob loc)), cfg)" by blast
    obtain q w where q: "coordinator_acquire None (azure_blob_lock (lcl (lo_blob loc))) cfg (az_world a1) = (q, w)"
      by (metis surj_pair)
    from lock_world.coordinator_alone_refuses [OF assms(3) [OF l] held q] Inr t q show ?thesis
      by (auto simp: acquire_lock_def)
  qed (simp add: acquire_lock_def)
  then obtain e w where "acquire_lock lks (az_world a1) = (Inl e, w)" by blast
  then have "run_lock (acquire_lock lks) opts' a1 = Inl e"
    using assms(6) snap by (simp add: run_lock_def opts'_def)
  with p start show False unfolding opts'_def [symmetric] a_def [symmetric] run_start_def by simp
qed

section \<open>Two lease services\<close>

text \<open>Over the simulated page-blob service: one whose leases are free, and one where another process holds them.\<close>

definition free_leases :: "sim lease_service" where
  "free_leases = \<lparr>le_acquire = (\<lambda>z secs. (Inr (Inr (Some ''lease'')), z)), le_renew = (\<lambda>z lid. (Inr (), z)),
     le_release = (\<lambda>z lid. (Inr (), z)), le_break = (\<lambda>z p. (Inr (), z))\<rparr>"

definition held_leases :: "sim lease_service" where
  "held_leases = \<lparr>le_acquire = (\<lambda>z secs. (Inl (HttpResponse 409), z)), le_renew = (\<lambda>z lid. (Inl (HttpResponse 409), z)),
     le_release = (\<lambda>z lid. (Inl (HttpResponse 409), z)), le_break = (\<lambda>z p. (Inl (HttpResponse 403), z))\<rparr>"

definition no_kubernetes :: "sim k8s_api" where
  "no_kubernetes = \<lparr>api_get = (\<lambda>z. (Inl Panic, z)), api_create = (\<lambda>z sp. (Inl Panic, z)),
     api_replace = (\<lambda>z ver sp. (Inl Panic, z)), api_now = (\<lambda>z. 0)\<rparr>"

definition lock_sim_cloud :: "sim lease_service \<Rightarrow> sim lock_cloud" where
  "lock_sim_cloud L = \<lparr>lc_leases = (\<lambda>ep ct auth. Inr (\<lambda>b. L)), lc_kubernetes = (\<lambda>ns name. Inr no_kubernetes)\<rparr>"

definition one_blob_cloud :: "sim cloud" where
  "one_blob_cloud = \<lparr>cl_container = (\<lambda>ep ct auth. Inr (\<lambda>b. sim_service [] [])), cl_pipeline = (\<lambda>_. False)\<rparr>"

lemma free_locks_keep: "locks_keep view (lock_sim_cloud free_leases)"
  by (simp add: locks_keep_def lock_sim_cloud_def leases_keep_def free_leases_def api_keeps_def no_kubernetes_def)

lemma held_lock_world: "lock_world held_leases no_kubernetes (\<lambda>_. Some ''other'') (\<lambda>_. None)"
  by unfold_locales (auto simp: held_leases_def no_kubernetes_def)

definition disk_cli :: cli_auth where
  "disk_cli = \<lparr>cli_blob_url = Some ''https://acct.store/vols/disk'', cli_account_key = Some ''key'', cli_sas_token = None,
     cli_msi = False, cli_msi_client_id = None, cli_msi_object_id = None, cli_msi_resource_id = None,
     cli_workload_identity = False, cli_azure_client_id = None, cli_azure_tenant_id = None,
     cli_azure_federated_token_file = None, cli_azure_client_secret = None\<rparr>"

definition disk_location :: location where
  "disk_location = \<lparr>lo_endpoint = ''https://acct.store/'', lo_account = ''acct'', lo_container = ''vols'', lo_blob = ''disk'',
     lo_snapshot = None, lo_sas = None\<rparr>"

definition disk_locks :: lock_options where
  "disk_locks = \<lparr>lk_recovery_timeout_secs = 120, lk_lease_duration_secs = 60, lk_lease_namespace = None,
     lk_lease_name = None, lk_lease_holder = None\<rparr>"

lemma disk_located: "cli_location simple_urls (cli_blob_url disk_cli) (cli_sas_token disk_cli) = Inr disk_location"
  by code_simp

text \<open>Without a cache the names of container and blob do not matter to the start.\<close>

lemma run_start_names:
  "ro_cache opts = None \<Longrightarrow> run_start E rc S acquire (opts\<lparr>ro_container := c, ro_blob := b\<rparr>) a = run_start E rc S acquire opts a"
proof -
  assume none: "ro_cache opts = None"
  define opts' where "opts' = opts\<lparr>ro_container := c, ro_blob := b\<rparr>"
  have sel: "ro_create opts' = ro_create opts" "ro_size opts' = ro_size opts" "ro_coordination opts' = ro_coordination opts"
    "ro_disable_blob_lock opts' = ro_disable_blob_lock opts" "ro_cache opts' = None" "ro_buffer opts' = ro_buffer opts"
    "ro_clock opts' = ro_clock opts" "ro_upload_secs opts' = ro_upload_secs opts"
    by (simp_all add: opts'_def none)
  have "run_provision S opts' = run_provision S opts" "run_lock acquire opts' = run_lock acquire opts"
    "run_buffer opts' = (run_buffer opts :: bool \<Rightarrow> 'a lower \<Rightarrow> 'a device res)"
    by (intro ext, simp only: run_provision_def run_lock_def run_buffer_def sel)+
  moreover have "run_cache E rc S opts' = run_cache E rc S opts"
    by (intro ext) (simp add: run_cache_def sel none)
  ultimately show ?thesis unfolding opts'_def [symmetric] run_start_def by (simp only:)
qed

lemma disk_runs:
  "\<exists>r dev z'. run_command simple_urls one_blob_cloud False (lock_sim_cloud free_leases) tiny_env retry_config_default (\<lambda>_. None)
     disk_cli plain_run disk_locks (NbdFrontend conns) blank_sim = Some (Inr (r, dev, z'))"
proof -
  have build: "build_azure_backend one_blob_cloud disk_location auth z = Inr (sim_service [] [], az_new z)" for auth z
    by (simp add: build_azure_backend_def one_blob_cloud_def disk_location_def snapshot_if_def page_list_if_def)
  have lock: "lock_setup False (lock_sim_cloud free_leases) (\<lambda>_. None) disk_location auth False disk_locks =
      Inr (None, azure_blob_lock free_leases, coordination_config_new ''unknown-node'' 60000000 120000000)" for auth
    by (simp add: lock_setup_def lock_sim_cloud_def lease_holder_def disk_locks_def nonempty_opt_def or_else_def micros_def Let_def)
  have acquire: "acquire_lock (Inr (None, azure_blob_lock free_leases, cfg)) = sim_acquire" for cfg
    by (simp add: fun_eq_iff acquire_lock_def coordinator_acquire_def acquire_cluster_def acquire_blob_def azure_blob_lock_def
        azlock_acquire_def free_leases_def sim_acquire_def)
  have flags: "\<not> ro_disable_blob_lock plain_run" "\<not> ro_coordination plain_run" "ro_cache plain_run = None"
    by (simp_all add: plain_run_def)
  have auth: "build_auth disk_cli (lo_account disk_location) (lo_sas disk_location) = Inr (SharedKey ''acct'' ''key'')"
    by (simp add: build_auth_def disk_cli_def disk_location_def)
  obtain r dev where run: "run_nbd_target (device_backend (ro_buffer plain_run) tiny_env retry_config_default (sim_service [] []))
      1024 (lo_snapshot disk_location \<noteq> None) conns plain_device = (r, dev)" by (metis surj_pair)
  show ?thesis
    using flags run
    by (simp add: run_command_def disk_located auth build lock acquire run_start_names plain_run_starts serve_device_def
        del: One_nat_def)
qed


theorem run_refuses_locked_blob_witness:
  "\<exists>e. run_command simple_urls one_blob_cloud False (lock_sim_cloud held_leases) tiny_env retry_config_default (\<lambda>_. None)
     disk_cli plain_run disk_locks (NbdFrontend []) blank_sim = Some (Inl e)"
proof (rule run_refuses_locked_blob [OF disk_located, where A = no_kubernetes and active = "\<lambda>_. Some ''other''" and obj = "\<lambda>_. None"])
  show "lock_world (client (lo_blob disk_location)) no_kubernetes (\<lambda>_. Some ''other'') (\<lambda>_. None)"
    if "lc_leases (lock_sim_cloud held_leases) (lo_endpoint disk_location) (lo_container disk_location) auth = Inr client"
    for auth client
    using that held_lock_world by (auto simp: lock_sim_cloud_def)
qed (simp_all add: disk_location_def plain_run_def)

end
