(* ===== verification/Copy_Command.thy ===== *)
theory Copy_Command
  imports Cli
begin

text \<open>
  The \<open>copy\<close> command of \<open>main.rs\<close> (\<open>run_template_copy\<close>): the golden image behind one URL is copied into the blob behind
  another, as the controller does for a volume, with the source addressed by the host of its own URL.
\<close>

definition run_template_copy ::
  "'z cloud \<Rightarrow> url_crate \<Rightarrow> retry_config \<Rightarrow> 'z copy_env \<Rightarrow> cli_auth \<Rightarrow> location \<Rightarrow> string \<Rightarrow> nat \<Rightarrow> 'z \<Rightarrow> unit res \<times> 'z" where
  "run_template_copy C U rc env cli loc template_url min_size z =
     (case parse_blob_url U template_url of
        Inl e \<Rightarrow> (Inl e, z)
      | Inr tmpl \<Rightarrow>
     (case (case tb_sas tmpl of Some sas \<Rightarrow> Inr (Sas sas) | None \<Rightarrow> build_auth cli (tb_account tmpl) None) of
        Inl e \<Rightarrow> (Inl e, z)
      | Inr src_auth \<Rightarrow>
     (case cl_container C (trim_end_matches ''/'' (tb_service_url tmpl) @ ''/'') (tb_container tmpl) src_auth of
        Inl e \<Rightarrow> (Inl e, z)
      | Inr src_container \<Rightarrow>
          (let S = src_container (tb_blob tmpl);
               source = snapshot_if (tb_snapshot tmpl) (page_list_if (cl_pipeline C src_auth) (az_new z))
           in case az_size S source of
                (Inl e, source1) \<Rightarrow> (Inl e, az_world source1)
              | (Inr src_size, source1) \<Rightarrow>
     (case build_auth cli (lo_account loc) (lo_sas loc) of
        Inl e \<Rightarrow> (Inl e, az_world source1)
      | Inr dest_auth \<Rightarrow>
     (case build_azure_backend C loc dest_auth (az_world source1) of
        Inl e \<Rightarrow> (Inl e, az_world source1)
      | Inr (D, dest) \<Rightarrow>
     (case az_create D dest (round_up_512 (max src_size min_size)) of
        (Inl e, dest1) \<Rightarrow> (Inl e, az_world dest1)
      | (Inr _, dest1) \<Rightarrow>
     (case copy_template rc env S D template_url (tb_sas tmpl \<noteq> None) dest_auth src_size
             (source1\<lparr>az_world := az_world dest1\<rparr>, dest1) of
        (r, w) \<Rightarrow> (r, az_world (snd w))))))))))"

text \<open>Where the command finds the image, and the blob it writes.\<close>

definition url_address :: "template_blob_ref \<Rightarrow> address" where
  "url_address t = (trim_end_matches ''/'' (tb_service_url t) @ ''/'', tb_container t, tb_blob t)"

definition location_address :: "location \<Rightarrow> address" where
  "location_address loc = (lo_endpoint loc, lo_container loc, lo_blob loc)"

text \<open>
  What the command leaves behind: no other blob has changed, and after a success the blob holds the image and is as
  large as it and the requested size ask for.
\<close>

definition copied_to ::
  "('z \<Rightarrow> address \<Rightarrow> string option \<Rightarrow> bytes option) \<Rightarrow> address \<Rightarrow> bytes \<Rightarrow> nat \<Rightarrow> 'z \<Rightarrow> unit res \<Rightarrow> 'z \<Rightarrow> bool" where
  "copied_to view ad src min_size z r z' \<longleftrightarrow>
     only_changes view ad z z' \<and>
     (r = Inr () \<longrightarrow> (\<exists>c. view z' ad None = Some c \<and> length c = round_up_512 (max (length src) min_size) \<and>
        take (length src) c = src))"

context blob_cloud
begin

text \<open>The size query: the size of the image, and nothing has changed.\<close>

lemma stat_source:
  assumes "cl_container C ep ct auth = Inr client" and "az_snapshot a = snap"
    and "view (az_world a) (ep, ct, bl) snap = Some c" and "az_size (client bl) a = (r, a1)"
  shows "az_snapshot a1 = snap" "view (az_world a1) = view (az_world a)" "r = Inr n \<Longrightarrow> n = length c"
proof -
  note S = client_service [OF assms(1), of bl]
  show "az_snapshot a1 = snap" using az_snapshot_kept(7) [OF assms(4)] assms(2) by simp
  show "view (az_world a1) = view (az_world a)"
  proof
    fix ad
    show "view (az_world a1) ad = view (az_world a) ad"
      using az_size_keeps [OF _ assms(4), of "\<lambda>z. view z ad"] client_keeps [OF assms(1), of ad bl] own_reads [OF S]
      by (cases "ad = (ep, ct, bl)") auto
  qed
  show "n = length c" if "r = Inr n"
    using page_blob_service.az_size_law [OF S assms(4)] that assms(2,3) by (simp add: az_content_def)
qed

lemma run_template_copy_copies:
  assumes env: "copy_env_ok view env" and t: "parse_blob_url U template_url = Inr tmpl"
    and ne: "url_address tmpl \<noteq> location_address loc" and live: "lo_snapshot loc = None"
    and src: "view z (url_address tmpl) (tb_snapshot tmpl) = Some src"
    and url: "url_reads C view template_url (url_address tmpl) (tb_snapshot tmpl)"
    and n: "max (length src) min_size \<le> u64_limit - 512"
    and run: "run_template_copy C U rc env cli loc template_url min_size z = (r, z')"
  shows "copied_to view (location_address loc) src min_size z r z'"
proof -
  define ep where "ep = trim_end_matches ''/'' (tb_service_url tmpl) @ ''/''"
  have sad: "url_address tmpl = (ep, tb_container tmpl, tb_blob tmpl)" by (simp add: url_address_def ep_def)
  have idle: "copied_to view (location_address loc) src min_size z (Inl e) z1" if "view z1 = view z" for e z1
    using that by (simp add: copied_to_def only_changes_def)
  note body = run [unfolded run_template_copy_def t sum.case, folded ep_def]
  define auth where "auth = (case tb_sas tmpl of Some sas \<Rightarrow> Inr (Sas sas) | None \<Rightarrow> build_auth cli (tb_account tmpl) None)"
  note body = body [folded auth_def]
  show ?thesis
  proof (cases "\<exists>src_auth client. auth = Inr src_auth \<and> cl_container C ep (tb_container tmpl) src_auth = Inr client")
    case False
    with body idle show ?thesis by (auto split: sum.splits)
  next
    case True
    then obtain src_auth client where auth: "auth = Inr src_auth"
      and client: "cl_container C ep (tb_container tmpl) src_auth = Inr client" by blast
    define a where "a = snapshot_if (tb_snapshot tmpl) (page_list_if (cl_pipeline C src_auth) (az_new z))"
    obtain k a1 where k: "az_size (client (tb_blob tmpl)) a = (k, a1)" by fastforce
    have a: "az_snapshot a = tb_snapshot tmpl" "az_world a = z" by (simp_all add: a_def)
    note stat = stat_source [OF client a(1) _ k, unfolded a(2), OF src [unfolded sad]]
    note body = body [unfolded auth client sum.case Let_def, folded a_def, unfolded k prod.case]
    show ?thesis
    proof (cases "\<exists>m dest_auth D dest. k = Inr m \<and> build_auth cli (lo_account loc) (lo_sas loc) = Inr dest_auth \<and>
        build_azure_backend C loc dest_auth (az_world a1) = Inr (D, dest)")
      case False
      with body idle stat(2) show ?thesis by (auto split: sum.splits)
    next
      case True
      then obtain m dest_auth D dest where parts: "k = Inr m" "build_auth cli (lo_account loc) (lo_sas loc) = Inr dest_auth"
        "build_azure_backend C loc dest_auth (az_world a1) = Inr (D, dest)" by blast
      obtain dclient where dclient: "cl_container C (lo_endpoint loc) (lo_container loc) dest_auth = Inr dclient" "D = dclient (lo_blob loc)"
        and dest: "az_snapshot dest = None" "az_world dest = az_world a1"
        using parts(3) live by (auto simp: build_azure_backend_def split: sum.splits)
      have m: "m = length src" using stat(3) parts(1) by simp
      define sz where "sz = round_up_512 (max m min_size)"
      have sz: "0 < sz" "sz < u64_limit" "m \<le> sz"
        using round_up_512_spec [OF n] m by (auto simp: sz_def round_up_512_def)
      obtain u d1 where u: "az_create D dest sz = (u, d1)" by fastforce
      obtain v w where v: "copy_template rc env (client (tb_blob tmpl)) D template_url (tb_sas tmpl \<noteq> None) dest_auth m
          (a1\<lparr>az_world := az_world d1\<rparr>, d1) = (v, w)" by (metis surj_pair)
      have "only_changes view (location_address loc) (az_world a1) (az_world d1) \<and>
        (u = Inr () \<longrightarrow> only_changes view (location_address loc) (az_world a1) (az_world (snd w)) \<and>
          (v = Inr () \<longrightarrow> (\<exists>d. view (az_world (snd w)) (location_address loc) None = Some d \<and> length d = sz \<and> take m d = src)))"
        unfolding location_address_def
        by (rule create_and_copy [OF client_service [OF client, of "tb_blob tmpl"] _ _ stat(1) _ m dclient(1) _ url [unfolded sad] _ _
              sz dest u [unfolded dclient(2)] v [unfolded dclient(2)]])
           (use client_keeps [OF client] ranges_cover [OF client] env ne src stat(2) in
             \<open>auto simp: copy_env_ok_def sad location_address_def\<close>)
      moreover have "(r, z') = (case u of Inl e \<Rightarrow> (Inl e, az_world d1) | Inr _ \<Rightarrow> (v, az_world (snd w)))"
        using body parts u v by (auto simp: sz_def split: sum.splits)
      ultimately show ?thesis
        using stat(2) m by (cases u) (auto simp: copied_to_def only_changes_def sz_def)
    qed
  qed
qed

end

text \<open>
  C26: The copy command clones the image. Whatever fails on the way, no blob but the one of \<open>--blob-url\<close> changes, and
  when the command succeeds that blob is as large as the image and \<open>--size\<close> ask for, rounded up to
  sectors, and starts with the bytes of the image (or of the snapshot of it that the URL names).
\<close>

theorem copy_command_clones:
  assumes "blob_cloud C view" and "copy_env_ok view env" and "parse_blob_url U template_url = Inr tmpl"
    and "url_address tmpl \<noteq> location_address loc" and "lo_snapshot loc = None"
    and "view z (url_address tmpl) (tb_snapshot tmpl) = Some src"
    and "url_reads C view template_url (url_address tmpl) (tb_snapshot tmpl)"
    and "max (length src) min_size \<le> u64_limit - 512"
    and "run_template_copy C U rc env cli loc template_url min_size z = (r, z')"
  shows "only_changes view (location_address loc) z z' \<and>
    (r = Inr () \<longrightarrow> (\<exists>c. view z' (location_address loc) None = Some c \<and>
       length c = round_up_512 (max (length src) min_size) \<and> take (length src) c = src))"
  using blob_cloud.run_template_copy_copies [OF assms(1,2,3,4,5,6,7,8,9)] by (simp add: copied_to_def)

text \<open>An account key for both accounts; the auth-wired pipeline is available for the source only.\<close>

definition copy_cli :: cli_auth where
  "copy_cli = \<lparr>cli_blob_url = None, cli_account_key = Some ''key'', cli_sas_token = None, cli_msi = False,
     cli_msi_client_id = None, cli_msi_object_id = None, cli_msi_resource_id = None, cli_workload_identity = False,
     cli_azure_client_id = None, cli_azure_tenant_id = None, cli_azure_federated_token_file = None,
     cli_azure_client_secret = None\<rparr>"

definition copy_location :: location where
  "copy_location = \<lparr>lo_endpoint = ''https://acct.store/'', lo_account = ''acct'', lo_container = ''vols'',
     lo_blob = ''ublk-azblob-disk/pv1'', lo_snapshot = None, lo_sas = None\<rparr>"

definition copy_cloud :: "cloud_sim cloud" where
  "copy_cloud = demo_cloud\<lparr>cl_pipeline := (\<lambda>auth. auth = SharedKey ''gold'' ''key'')\<rparr>"

lemma copy_cloud_lawful: "blob_cloud copy_cloud cloud_view" "url_reads copy_cloud cloud_view url gold_address None"
proof -
  have same: "cl_container copy_cloud = cl_container demo_cloud" by (simp add: copy_cloud_def)
  show "blob_cloud copy_cloud cloud_view"
    using sim_accounts.blob_cloud_axioms [of "\<lambda>_. (gold_address, None)"]
    unfolding blob_cloud_def same demo_cloud_def .
  show "url_reads copy_cloud cloud_view url gold_address None"
    using sim_url_reads [of "\<lambda>_. (gold_address, None)" url]
    unfolding url_reads_def same demo_cloud_def by simp
qed

lemma copy_runs:
  "\<exists>z'. run_template_copy copy_cloud demo_url rc demo_env copy_cli copy_location ''https://gold.store/images/base'' 1000 demo_world =
     (Inr (), z')"
proof -
  have sz: "round_up_512 1024 = 1024" by (simp add: round_up_512_def div_ceil_def u64_limit_def)
  have ep: "trim_end_matches ''/'' ''https://gold.store'' @ ''/'' = ''https://gold.store/''" by code_simp
  have auth: "build_auth copy_cli account None = Inr (SharedKey account ''key'')" for account
    by (simp add: build_auth_def copy_cli_def)
  obtain w where "copy_template rc demo_env (sim_blob_client (\<lambda>_. (gold_address, None)) gold_address)
      (sim_blob_client (\<lambda>_. (gold_address, None)) pv_address) ''https://gold.store/images/base'' False
      (SharedKey ''acct'' ''key'') 1024 (demo_source, az_new demo_created) = (Inr (), w)"
    using demo_copy by blast
  then show ?thesis
    by (simp add: run_template_copy_def demo_parse ep [simplified] auth copy_cloud_def demo_cloud_def sim_cloud_def snapshot_if_def demo_size
        copy_location_def build_azure_backend_def page_list_if_def [of False] demo_create sz demo_source_def)
qed

theorem copy_command_clones_witness:
  "\<exists>z' c. run_template_copy copy_cloud demo_url retry_config_default demo_env copy_cli copy_location
       ''https://gold.store/images/base'' 1000 demo_world = (Inr (), z') \<and>
     cloud_view z' pv_address None = Some c \<and> length c = 1024 \<and> take 1024 c = golden_image"
proof -
  obtain z' where run: "run_template_copy copy_cloud demo_url retry_config_default demo_env copy_cli copy_location
      ''https://gold.store/images/base'' 1000 demo_world = (Inr (), z')" using copy_runs by blast
  have env: "copy_env_ok cloud_view demo_env" by (simp add: copy_env_ok_def demo_env_def)
  let ?tmpl = "\<lparr>tb_service_url = ''https://gold.store'', tb_account = ''gold'', tb_container = ''images'', tb_blob = ''base'',
         tb_snapshot = None, tb_sas = None\<rparr>"
  have ad: "url_address ?tmpl = gold_address" "location_address copy_location = pv_address"
    by code_simp+
  have src: "cloud_view demo_world gold_address None = Some golden_image"
    by (simp add: cloud_view_def demo_blobs sim_view_demo page_aligned_def u64_limit_def)
  have sz: "round_up_512 1024 = 1024" by (simp add: round_up_512_def div_ceil_def u64_limit_def)
  from copy_command_clones [OF copy_cloud_lawful(1) env demo_parse _ _ _ _ _ run, of golden_image] run
  show ?thesis by (simp add: ad src copy_cloud_lawful(2) sz u64_limit_def) (simp add: copy_location_def)
qed

end
