(* ===== verification/Cli_Credentials.thy ===== *)
theory Cli_Credentials
  imports Cli
begin

text \<open>
  The driver and the device processes it starts: the process finds its credential in the environment, where the
  node put it (\<open>auth_env\<close> of \<open>node.rs\<close>) and where the plugin's own variables show through, and must come to the
  credential the driver itself uses (\<open>select_driver_auth\<close>).
\<close>

section \<open>Driver and device process authenticate alike\<close>

text \<open>A process started with \<open>env\<close> sees these variables, and below them those of its parent.\<close>

definition process_env :: "(string \<Rightarrow> string option) \<Rightarrow> (string \<times> string) list \<Rightarrow> string \<Rightarrow> string option" where
  "process_env getenv env k = or_else (env_value env k) (getenv k)"

lemma or_else_simps [simp]:
  "or_else (Some x) b = Some x" "or_else None b = b" "or_else a None = a"
  "or_else (or_else a b) c = or_else a (or_else b c)"
  by (auto simp: or_else_def split: option.splits)

lemma or_else_None: "or_else a b = None \<longleftrightarrow> a = None \<and> b = None"
  by (auto simp: or_else_def split: option.splits)

definition CREDENTIAL_VARS :: "string list" where
  "CREDENTIAL_VARS =
     [''AZURE_STORAGE_KEY'', ''AZURE_USE_MSI'', ''AZURE_MSI_CLIENT_ID'', ''AZURE_MSI_OBJECT_ID'', ''AZURE_MSI_RESOURCE_ID'',
      ''AZURE_USE_WORKLOAD_IDENTITY'', ''AZURE_CLIENT_ID'', ''AZURE_TENANT_ID'', ''AZURE_FEDERATED_TOKEN_FILE'',
      ''AZURE_CLIENT_SECRET'']"

lemma env_value_append: "env_value (a @ b) k = or_else (env_value b k) (env_value a k)"
  by (auto simp: env_value_def or_else_def map_add_def split: option.splits)

lemma env_value_Nil [simp]: "env_value [] k = None"
  by (simp add: env_value_def)

lemma env_value_Cons: "env_value ((x, v) # b) k = or_else (env_value b k) (if k = x then Some v else None)"
  using env_value_append [of "[(x, v)]" b k] by (simp add: env_value_def)

lemma env_value_opt_env [simp]: "env_value (opt_env x v) k = (if k = x then v else None)"
  by (auto simp: opt_env_def env_value_Cons split: option.splits)

lemma env_value_absent: "k \<notin> fst ` set env \<Longrightarrow> env_value env k = None"
  by (simp add: env_value_def map_of_eq_None_iff)

text \<open>Only \<open>auth_env\<close> sets a credential variable.\<close>

lemma tuning_env_no_credential:
  assumes "k \<in> set (''AZURE_STORAGE_SAS'' # CREDENTIAL_VARS)"
  shows "env_value (tuning_env ctx) k = None"
proof -
  have "k \<notin> snd ` set TUNING_PARAMS" using assms by (auto simp: TUNING_PARAMS_def CREDENTIAL_VARS_def)
  then show ?thesis using tuning_env_keys [of ctx] by (intro env_value_absent) blast
qed

lemma coordination_env_no_credential:
  assumes "k \<in> set (''AZURE_STORAGE_SAS'' # CREDENTIAL_VARS)"
  shows "env_value (coordination_env node_id ctx ns) k = None"
  by (rule env_value_absent) (use assms in \<open>auto simp: coordination_env_def opt_env_def CREDENTIAL_VARS_def split: option.splits\<close>)


lemma child_env_credentials:
  assumes "child_env U node_id cfg getenv ctx secrets vid = Inr env"
  obtains auth where "auth_env cfg secrets = Inr auth"
    and "\<And>k. k \<in> set CREDENTIAL_VARS \<Longrightarrow> env_value env k = env_value auth k"
    and "env_value env ''AZURE_STORAGE_SAS'' = nonempty_opt (ctx ''sasToken'')"
proof -
  obtain auth url where auth: "auth_env cfg secrets = Inr auth"
    and env: "env = [(''UBLK_BLOB_URL'', url)] @ auth @ coordination_env node_id ctx (getenv ''POD_NAMESPACE'') @
      opt_env ''AZURE_STORAGE_SAS'' (nonempty_opt (ctx ''sasToken'')) @ tuning_env ctx @
      (if cache_share_pages ctx (getenv ''UBLK_CACHE_SHARE_PAGES'') then [(''UBLK_CACHE_INSTANCE'', vid)] else [])"
    using assms by (auto simp: child_env_def Let_def split: option.splits sum.splits)
  have key: "env_value env k = or_else (if k = ''AZURE_STORAGE_SAS'' then nonempty_opt (ctx ''sasToken'') else None)
      (env_value auth k)" if "k \<in> set (''AZURE_STORAGE_SAS'' # CREDENTIAL_VARS)" for k
  proof -
    have "k \<noteq> ''UBLK_BLOB_URL''" "k \<noteq> ''UBLK_CACHE_INSTANCE''" using that by (auto simp: CREDENTIAL_VARS_def)
    then show ?thesis
      using tuning_env_no_credential [OF that] coordination_env_no_credential [OF that]
      by (simp add: env env_value_append env_value_Cons)
  qed
  have "env_value auth ''AZURE_STORAGE_SAS'' = None"
    using auth by (intro env_value_absent) (auto simp: auth_env_def opt_env_def split: option.splits if_splits)
  then have "env_value env ''AZURE_STORAGE_SAS'' = nonempty_opt (ctx ''sasToken'')" using key by simp
  moreover have "env_value env k = env_value auth k" if "k \<in> set CREDENTIAL_VARS" for k
  proof -
    have "k \<noteq> ''AZURE_STORAGE_SAS''" using that by (auto simp: CREDENTIAL_VARS_def)
    then show ?thesis using key [of k] that by simp
  qed
  ultimately show ?thesis using that auth by blast
qed

text \<open>The settings a device process sees, by the way the driver authenticates.\<close>

lemma child_settings:
  assumes "child_env U node_id cfg getenv ctx secrets vid = Inr env" and "k \<in> set CREDENTIAL_VARS"
    and "auth_env cfg secrets = Inr auth"
  shows "setting (\<lambda>_. None) (process_env getenv env) long k = or_else (env_value auth k) (getenv k)"
  using child_env_credentials [OF assms(1)] assms(2,3) by (metis Inr_inject or_else_simps(2) process_env_def setting_def)


lemma cli_auth_parseD:
  assumes "cli_auth_parse P arg getenv = Inr cli"
  shows "\<not> auth_conflict arg getenv"
    and "flag_value P (arg ''msi'') (getenv ''AZURE_USE_MSI'') = Inr (cli_msi cli)"
    and "flag_value P (arg ''workload-identity'') (getenv ''AZURE_USE_WORKLOAD_IDENTITY'') = Inr (cli_workload_identity cli)"
    and "cli_account_key cli = setting arg getenv ''account-key'' ''AZURE_STORAGE_KEY''"
    and "cli_msi_client_id cli = setting arg getenv ''msi-client-id'' ''AZURE_MSI_CLIENT_ID''"
    and "cli_msi_object_id cli = setting arg getenv ''msi-object-id'' ''AZURE_MSI_OBJECT_ID''"
    and "cli_msi_resource_id cli = setting arg getenv ''msi-resource-id'' ''AZURE_MSI_RESOURCE_ID''"
    and "cli_azure_client_id cli = setting arg getenv ''azure-client-id'' ''AZURE_CLIENT_ID''"
    and "cli_azure_tenant_id cli = setting arg getenv ''azure-tenant-id'' ''AZURE_TENANT_ID''"
    and "cli_azure_federated_token_file cli = setting arg getenv ''azure-federated-token-file'' ''AZURE_FEDERATED_TOKEN_FILE''"
    and "cli_azure_client_secret cli = setting arg getenv ''azure-client-secret'' ''AZURE_CLIENT_SECRET''"
  using assms by (auto simp: cli_auth_parse_def split: sum.splits if_splits)

text \<open>The result of parsing settings that do not conflict, as the variables of one process give them.\<close>

lemma cli_auth_parse_env:
  assumes "\<not> auth_conflict (\<lambda>_. None) e"
    and "flag_value P None (e ''AZURE_USE_MSI'') = Inr msi" 
    and "flag_value P None (e ''AZURE_USE_WORKLOAD_IDENTITY'') = Inr wi"
  shows "cli_auth_parse P (\<lambda>_. None) e =
    Inr \<lparr>cli_blob_url = e ''UBLK_BLOB_URL'', cli_account_key = e ''AZURE_STORAGE_KEY'', cli_sas_token = e ''AZURE_STORAGE_SAS'',
      cli_msi = msi, cli_msi_client_id = e ''AZURE_MSI_CLIENT_ID'', cli_msi_object_id = e ''AZURE_MSI_OBJECT_ID'',
      cli_msi_resource_id = e ''AZURE_MSI_RESOURCE_ID'', cli_workload_identity = wi, cli_azure_client_id = e ''AZURE_CLIENT_ID'',
      cli_azure_tenant_id = e ''AZURE_TENANT_ID'', cli_azure_federated_token_file = e ''AZURE_FEDERATED_TOKEN_FILE'',
      cli_azure_client_secret = e ''AZURE_CLIENT_SECRET''\<rparr>"
  using assms by (simp add: cli_auth_parse_def setting_def)

lemma flag_value_simps [simp]:
  "flag_value P None None = Inr False"
  "ca_flag P s = Some b \<Longrightarrow> flag_value P None (Some s) = Inr b"
  by (simp_all add: flag_value_def)

lemma flag_value_False: "flag_value P g v = Inr False \<Longrightarrow> flag_value P None v = Inr False"
  by (auto simp: flag_value_def split: if_splits option.splits)

lemma flag_value_given: "flag_value P (arg k) (getenv v) = Inr True \<Longrightarrow> setting arg getenv k v \<noteq> None"
  by (auto simp: flag_value_def setting_def or_else_None split: if_splits option.splits)

lemma auth_conflict_env:
  "auth_conflict (\<lambda>_. None) e \<longleftrightarrow>
     (let any_msi = e ''AZURE_USE_MSI'' \<noteq> None \<or> e ''AZURE_MSI_CLIENT_ID'' \<noteq> None \<or> e ''AZURE_MSI_OBJECT_ID'' \<noteq> None \<or>
            e ''AZURE_MSI_RESOURCE_ID'' \<noteq> None;
          key = e ''AZURE_STORAGE_KEY'' \<noteq> None in
      key \<and> (any_msi \<or> e ''AZURE_USE_WORKLOAD_IDENTITY'' \<noteq> None) \<or>
      e ''AZURE_MSI_CLIENT_ID'' \<noteq> None \<and> (e ''AZURE_MSI_OBJECT_ID'' \<noteq> None \<or> e ''AZURE_MSI_RESOURCE_ID'' \<noteq> None) \<or>
      e ''AZURE_MSI_OBJECT_ID'' \<noteq> None \<and> e ''AZURE_MSI_RESOURCE_ID'' \<noteq> None \<or>
      e ''AZURE_USE_WORKLOAD_IDENTITY'' \<noteq> None \<and> any_msi \<or>
      e ''AZURE_CLIENT_SECRET'' \<noteq> None \<and> (key \<or> any_msi))"
  by (auto simp: auth_conflict_def setting_def Let_def)


text \<open>What is given of one kind of credential excludes the others.\<close>

lemma given_alone:
  assumes "\<not> auth_conflict arg getenv"
  shows "setting arg getenv ''account-key'' ''AZURE_STORAGE_KEY'' \<noteq> None \<Longrightarrow>
      getenv ''AZURE_USE_MSI'' = None \<and> getenv ''AZURE_MSI_CLIENT_ID'' = None \<and> getenv ''AZURE_MSI_OBJECT_ID'' = None \<and>
      getenv ''AZURE_MSI_RESOURCE_ID'' = None \<and> getenv ''AZURE_USE_WORKLOAD_IDENTITY'' = None \<and>
      getenv ''AZURE_CLIENT_SECRET'' = None"
    and "setting arg getenv ''workload-identity'' ''AZURE_USE_WORKLOAD_IDENTITY'' \<noteq> None \<Longrightarrow>
      getenv ''AZURE_USE_MSI'' = None \<and> getenv ''AZURE_MSI_CLIENT_ID'' = None \<and> getenv ''AZURE_MSI_OBJECT_ID'' = None \<and>
      getenv ''AZURE_MSI_RESOURCE_ID'' = None \<and> getenv ''AZURE_STORAGE_KEY'' = None"
    and "setting arg getenv ''msi'' ''AZURE_USE_MSI'' \<noteq> None \<or> setting arg getenv ''msi-client-id'' ''AZURE_MSI_CLIENT_ID'' \<noteq> None \<Longrightarrow>
      getenv ''AZURE_USE_WORKLOAD_IDENTITY'' = None \<and> getenv ''AZURE_STORAGE_KEY'' = None \<and> getenv ''AZURE_CLIENT_SECRET'' = None"
    and "setting arg getenv ''azure-client-secret'' ''AZURE_CLIENT_SECRET'' \<noteq> None \<Longrightarrow>
      getenv ''AZURE_USE_MSI'' = None \<and> getenv ''AZURE_MSI_CLIENT_ID'' = None \<and> getenv ''AZURE_MSI_OBJECT_ID'' = None \<and>
      getenv ''AZURE_MSI_RESOURCE_ID'' = None \<and> getenv ''AZURE_STORAGE_KEY'' = None"
  using assms unfolding auth_conflict_def setting_def or_else_None Let_def by blast+

text \<open>The variables a device process sees for its credentials.\<close>

definition sees :: "(string \<Rightarrow> string option) \<Rightarrow> (string \<times> string) list \<Rightarrow> (string \<Rightarrow> string option) \<Rightarrow> bool" where
  "sees getenv auth e \<longleftrightarrow> list_all (\<lambda>k. e k = or_else (env_value auth k) (getenv k)) CREDENTIAL_VARS"

lemma child_sees:
  assumes "child_env U node_id cfg getenv ctx secrets vid = Inr env"
  obtains auth where "auth_env cfg secrets = Inr auth" "sees getenv auth (process_env getenv env)"
    "process_env getenv env ''AZURE_STORAGE_SAS'' = or_else (nonempty_opt (ctx ''sasToken'')) (getenv ''AZURE_STORAGE_SAS'')"
proof -
  from assms obtain auth where auth: "auth_env cfg secrets = Inr auth"
    "\<And>k. k \<in> set CREDENTIAL_VARS \<Longrightarrow> env_value env k = env_value auth k"
    "env_value env ''AZURE_STORAGE_SAS'' = nonempty_opt (ctx ''sasToken'')"
    by (rule child_env_credentials) blast
  then show ?thesis by (intro that [of auth]) (simp_all add: sees_def list_all_iff process_env_def)
qed

lemmas sees_vars = sees_def [unfolded CREDENTIAL_VARS_def list.pred_inject]

text \<open>The process starts with the credential \<open>auth\<close>, whatever the account.\<close>

definition comes_up_with :: "clap \<Rightarrow> (string \<Rightarrow> string option) \<Rightarrow> (string \<Rightarrow> auth_config res) \<Rightarrow> bool" where
  "comes_up_with P e auth \<longleftrightarrow>
     (\<exists>c. cli_auth_parse P (\<lambda>_. None) e = Inr c \<and> cli_sas_token c = e ''AZURE_STORAGE_SAS'' \<and>
        (\<forall>account. build_auth c account None = auth account))"

lemma comes_up_withI:
  assumes "\<not> auth_conflict (\<lambda>_. None) e"
    and "flag_value P None (e ''AZURE_USE_MSI'') = Inr msi"
    and "flag_value P None (e ''AZURE_USE_WORKLOAD_IDENTITY'') = Inr wi"
    and "\<And>account c. cli_account_key c = e ''AZURE_STORAGE_KEY'' \<Longrightarrow> cli_msi c = msi \<Longrightarrow> cli_workload_identity c = wi \<Longrightarrow>
      cli_msi_client_id c = e ''AZURE_MSI_CLIENT_ID'' \<Longrightarrow> cli_msi_object_id c = e ''AZURE_MSI_OBJECT_ID'' \<Longrightarrow>
      cli_msi_resource_id c = e ''AZURE_MSI_RESOURCE_ID'' \<Longrightarrow> cli_azure_client_id c = e ''AZURE_CLIENT_ID'' \<Longrightarrow>
      cli_azure_tenant_id c = e ''AZURE_TENANT_ID'' \<Longrightarrow>
      cli_azure_federated_token_file c = e ''AZURE_FEDERATED_TOKEN_FILE'' \<Longrightarrow>
      cli_azure_client_secret c = e ''AZURE_CLIENT_SECRET'' \<Longrightarrow> build_auth c account None = auth account"
  shows "comes_up_with P e auth"
  unfolding comes_up_with_def using assms(4) by (subst cli_auth_parse_env [OF assms(1-3)]) auto

lemma key_starts:
  assumes "\<not> auth_conflict arg getenv" and "setting arg getenv ''account-key'' ''AZURE_STORAGE_KEY'' \<noteq> None"
    and "sees getenv [(''AZURE_STORAGE_KEY'', key)] e"
  shows "comes_up_with P e (\<lambda>account. Inr (SharedKey account key))"
  by (rule comes_up_withI [where msi = False and wi = False])
     (use given_alone(1) [OF assms(1,2)] assms(3) in
       \<open>simp_all add: sees_vars env_value_Cons auth_conflict_env build_auth_def\<close>)

lemma wi_starts:
  assumes "cli_auth_parse P arg getenv = Inr cli" and "cli_workload_identity cli" and "ca_flag P ''1'' = Some True"
    and "sees getenv ([(''AZURE_USE_WORKLOAD_IDENTITY'', ''1'')] @ opt_env ''AZURE_CLIENT_ID'' (cli_azure_client_id cli) @
      opt_env ''AZURE_TENANT_ID'' (cli_azure_tenant_id cli) @
      opt_env ''AZURE_FEDERATED_TOKEN_FILE'' (cli_azure_federated_token_file cli)) e"
  shows "comes_up_with P e (\<lambda>_. Inr (WorkloadIdentity (cli_azure_client_id cli) (cli_azure_tenant_id cli)
      (cli_azure_federated_token_file cli)))"
proof -
  note p = cli_auth_parseD [OF assms(1)]
  have alone: "getenv ''AZURE_USE_MSI'' = None \<and> getenv ''AZURE_MSI_CLIENT_ID'' = None \<and> getenv ''AZURE_MSI_OBJECT_ID'' = None \<and>
      getenv ''AZURE_MSI_RESOURCE_ID'' = None \<and> getenv ''AZURE_STORAGE_KEY'' = None"
    using given_alone(2) [OF p(1)] flag_value_given p(3) assms(2) by metis
  have ids: "or_else (cli_azure_client_id cli) (getenv ''AZURE_CLIENT_ID'') = cli_azure_client_id cli"
    "or_else (cli_azure_tenant_id cli) (getenv ''AZURE_TENANT_ID'') = cli_azure_tenant_id cli"
    "or_else (cli_azure_federated_token_file cli) (getenv ''AZURE_FEDERATED_TOKEN_FILE'') = cli_azure_federated_token_file cli"
    unfolding p(8-10) setting_def by (simp_all add: or_else_def split: option.splits)
  show ?thesis
    by (rule comes_up_withI [where msi = False and wi = True])
       (use alone ids assms(3,4) in \<open>simp_all add: sees_vars env_value_append env_value_Cons auth_conflict_env build_auth_def\<close>)
qed


lemma msi_starts:
  assumes "cli_auth_parse P arg getenv = Inr cli" and "cli_msi cli \<or> cli_msi_client_id cli \<noteq> None"
    and "cli_msi_object_id cli = None" "cli_msi_resource_id cli = None" and "ca_flag P ''1'' = Some True"
    and "sees getenv ([(''AZURE_USE_MSI'', ''1'')] @ opt_env ''AZURE_MSI_CLIENT_ID'' (cli_msi_client_id cli)) e"
  shows "comes_up_with P e (\<lambda>_. Inr (Msi (map_option ClientId (cli_msi_client_id cli))))"
proof -
  note p = cli_auth_parseD [OF assms(1)]
  have "setting arg getenv ''msi'' ''AZURE_USE_MSI'' \<noteq> None \<or> setting arg getenv ''msi-client-id'' ''AZURE_MSI_CLIENT_ID'' \<noteq> None"
    using assms(2) flag_value_given [of P arg "''msi''" getenv "''AZURE_USE_MSI''"] p(2,5) by auto
  note alone = given_alone(3) [OF p(1) this]
  have ids: "or_else (cli_msi_client_id cli) (getenv ''AZURE_MSI_CLIENT_ID'') = cli_msi_client_id cli"
    "getenv ''AZURE_MSI_OBJECT_ID'' = None" "getenv ''AZURE_MSI_RESOURCE_ID'' = None"
    using assms(3,4) unfolding p(5-7) setting_def by (simp_all add: or_else_def split: option.splits)
  show ?thesis
    by (rule comes_up_withI [where msi = True and wi = False])
       (use alone ids assms(5,6) in \<open>simp_all add: sees_vars env_value_append env_value_Cons auth_conflict_env build_auth_def Let_def\<close>)
qed

lemma sp_starts:
  assumes "cli_auth_parse P arg getenv = Inr cli" and "\<not> cli_workload_identity cli" and "cli_azure_client_secret cli \<noteq> None"
    and "sees getenv [(''AZURE_TENANT_ID'', tenant), (''AZURE_CLIENT_ID'', client), (''AZURE_CLIENT_SECRET'', secret)] e"
  shows "comes_up_with P e (\<lambda>_. Inr (ServicePrincipal tenant client secret))"
proof -
  note p = cli_auth_parseD [OF assms(1)]
  note alone = given_alone(4) [OF p(1) assms(3) [unfolded p(11)]]
  have wi: "flag_value P None (getenv ''AZURE_USE_WORKLOAD_IDENTITY'') = Inr False"
    using p(3) assms(2) by (auto intro: flag_value_False)
  show ?thesis
    by (rule comes_up_withI [where msi = False and wi = False])
       (use alone wi assms(4) in \<open>simp_all add: sees_vars env_value_append env_value_Cons auth_conflict_env build_auth_def Let_def\<close>)
qed

lemma driver_starts:
  assumes "cli_auth_parse P arg getenv = Inr cli" and "ca_flag P ''1'' = Some True"
    and "cli_msi_object_id cli = None" and "cli_msi_resource_id cli = None"
    and "secrets ''accountKey'' = None \<or> cli_account_key cli \<noteq> None"
    and "secrets ''AZURE_CLIENT_SECRET'' = None \<or> cli_azure_client_secret cli \<noteq> None"
    and "auth_env (csi_driver_config cli opts) secrets = Inr auth" and "sees getenv auth e"
  shows "comes_up_with P e (\<lambda>account. select_driver_auth (csi_driver_config cli opts) account secrets)"
proof (cases "or_else (secrets ''accountKey'') (cli_account_key cli)")
  case (Some key)
  then have "setting arg getenv ''account-key'' ''AZURE_STORAGE_KEY'' \<noteq> None"
    using assms(5) cli_auth_parseD(4) [OF assms(1)] by (auto simp: or_else_def split: option.splits)
  from key_starts [OF cli_auth_parseD(1) [OF assms(1)] this, of key e P] Some assms(7,8)
  show ?thesis by (simp add: auth_env_def select_driver_auth_def csi_driver_config_def)
next
  case None
  consider (wi) "cli_workload_identity cli" | (msi) "\<not> cli_workload_identity cli" "cli_msi cli \<or> cli_msi_client_id cli \<noteq> None"
    | (sp) "\<not> cli_workload_identity cli" "\<not> cli_msi cli" "cli_msi_client_id cli = None"
    by blast
  then show ?thesis
  proof cases
    case wi
    with wi_starts [OF assms(1) _ assms(2), of e] None assms(7,8) show ?thesis
      by (simp add: auth_env_def select_driver_auth_def csi_driver_config_def)
  next
    case msi
    with msi_starts [OF assms(1) msi(2) assms(3,4,2), of e] None assms(3,4,7,8) show ?thesis
      by (auto simp add: auth_env_def select_driver_auth_def csi_driver_config_def)
  next
    case sp
    with None assms(3,4,7) obtain t c s where auth: "auth = [(''AZURE_TENANT_ID'', t), (''AZURE_CLIENT_ID'', c), (''AZURE_CLIENT_SECRET'', s)]"
      and ids: "or_else (secrets ''AZURE_TENANT_ID'') (cli_azure_tenant_id cli) = Some t"
      "or_else (secrets ''AZURE_CLIENT_ID'') (cli_azure_client_id cli) = Some c"
      "or_else (secrets ''AZURE_CLIENT_SECRET'') (cli_azure_client_secret cli) = Some s"
      by (auto simp: auth_env_def csi_driver_config_def split: option.splits)
    have "cli_azure_client_secret cli \<noteq> None" using assms(6) ids(3) by auto
    from sp_starts [OF assms(1) sp(1) this assms(8) [unfolded auth]] sp None ids assms(3,4) show ?thesis
      by (simp add: select_driver_auth_def csi_driver_config_def)
  qed
qed


text \<open>
  C37: With a flag parser that takes only true and false, as \<open>clap\<close> documents it for a plain boolean flag, no device
  process of a driver with a workload or managed identity starts: the node sets the flag's variable to 1, and
  the process refuses its command line.
\<close>

theorem identity_flag_stops_device:
  assumes "ca_flag P ''1'' = None"
    and "secrets ''accountKey'' = None" and "dc_account_key cfg = None"
    and "dc_use_workload_identity cfg \<or> dc_use_msi cfg \<or> dc_msi_client_id cfg \<noteq> None"
    and "child_env U node_id cfg getenv ctx secrets vid = Inr env"
  shows "\<exists>e. cli_auth_parse P (\<lambda>_. None) (process_env getenv env) = Inl e"
proof -
  obtain auth where auth: "auth_env cfg secrets = Inr auth" "sees getenv auth (process_env getenv env)"
    by (rule child_sees [OF assms(5)])
  have "process_env getenv env ''AZURE_USE_WORKLOAD_IDENTITY'' = Some ''1'' \<or> process_env getenv env ''AZURE_USE_MSI'' = Some ''1''"
    using auth assms(2-4) by (auto simp: auth_env_def sees_vars env_value_append env_value_Cons split: if_splits)
  with assms(1) show ?thesis
    by (auto simp: cli_auth_parse_def flag_value_def split: sum.splits option.splits)
qed

text \<open>A key among the secrets of a volume contradicts an identity the driver itself has from its environment.\<close>

lemma secret_key_stops_device:
  assumes "secrets ''accountKey'' = Some key"
    and "\<exists>k \<in> {''AZURE_USE_MSI'', ''AZURE_MSI_CLIENT_ID'', ''AZURE_USE_WORKLOAD_IDENTITY'', ''AZURE_CLIENT_SECRET''}. getenv k \<noteq> None"
    and "child_env U node_id cfg getenv ctx secrets vid = Inr env"
  shows "\<exists>e. cli_auth_parse P (\<lambda>_. None) (process_env getenv env) = Inl e"
proof -
  obtain auth where auth: "auth_env cfg secrets = Inr auth" "sees getenv auth (process_env getenv env)"
    by (rule child_sees [OF assms(3)])
  have "auth = [(''AZURE_STORAGE_KEY'', key)]" using auth(1) assms(1) by (simp add: auth_env_def)
  then have "auth_conflict (\<lambda>_. None) (process_env getenv env)"
    using auth(2) assms(2) by (auto simp: sees_vars env_value_Cons auth_conflict_env)
  then show ?thesis by (auto simp: cli_auth_parse_def split: sum.splits)
qed

section \<open>Two drivers\<close>

definition boolish :: clap where
  "boolish = \<lparr>ca_flag = (\<lambda>s. if s \<in> {''1'', ''true''} then Some True else if s \<in> {''0'', ''false''} then Some False else None)\<rparr>"

definition strict :: clap where
  "strict = \<lparr>ca_flag = (\<lambda>s. if s = ''true'' then Some True else if s = ''false'' then Some False else None)\<rparr>"

definition msi_variables :: "string \<Rightarrow> string option" where
  "msi_variables = [''AZURE_USE_MSI'' \<mapsto> ''true'', ''AZURE_MSI_CLIENT_ID'' \<mapsto> ''app'']"

definition demo_options :: csi_options where
  "demo_options = \<lparr>co_account = ''acct'', co_container = ''vols'', co_endpoint = Some ''https://%s.store/'', co_use_nbd = False,
     co_nbd_host = [], co_nbd_port_start = 0\<rparr>"

definition msi_cli :: cli_auth where
  "msi_cli = \<lparr>cli_blob_url = None, cli_account_key = None, cli_sas_token = None, cli_msi = True, cli_msi_client_id = Some ''app'',
     cli_msi_object_id = None, cli_msi_resource_id = None, cli_workload_identity = False, cli_azure_client_id = None,
     cli_azure_tenant_id = None, cli_azure_federated_token_file = None, cli_azure_client_secret = None\<rparr>"

lemma msi_cli_parsed: "cli_auth_parse boolish (\<lambda>_. None) msi_variables = Inr msi_cli"
  by (simp add: cli_auth_parse_def boolish_def msi_variables_def flag_value_def auth_conflict_def setting_def msi_cli_def)

lemma msi_child:
  obtains env where "child_env simple_urls ''node'' (csi_driver_config msi_cli demo_options) msi_variables
    [''blob'' \<mapsto> ''disk''] Map.empty ''v'' = Inr env"
  by (simp add: child_env_def Let_def auth_env_def csi_driver_config_def msi_cli_def)


theorem identity_flag_stops_device_witness:
  "\<exists>env e. child_env simple_urls ''node'' (csi_driver_config msi_cli demo_options) msi_variables
       [''blob'' \<mapsto> ''disk''] Map.empty ''v'' = Inr env \<and>
     cli_auth_parse strict (\<lambda>_. None) (process_env msi_variables env) = Inl e"
proof -
  obtain env where env: "child_env simple_urls ''node'' (csi_driver_config msi_cli demo_options) msi_variables
      [''blob'' \<mapsto> ''disk''] Map.empty ''v'' = Inr env" by (rule msi_child)
  have "ca_flag strict ''1'' = None" "dc_account_key (csi_driver_config msi_cli demo_options) = None"
    "dc_use_msi (csi_driver_config msi_cli demo_options)" by (simp_all add: strict_def csi_driver_config_def msi_cli_def)
  with identity_flag_stops_device [OF _ _ _ _ env, of strict] env show ?thesis by auto
qed

end
