(* ===== verification/Auth_Clients.thy ===== *)
theory Auth_Clients
  imports Auth
begin

text \<open>
  How \<open>auth.rs\<close> puts credentials into clients: the container client of the SDK and the bare pipeline for the requests the
  SDK client does not expose. The SDK is a parameter: the constructors of its credentials and clients, and the
  policies a client applies to each try of a request.
\<close>

section \<open>Credentials and policies\<close>

record 'cred identity_sdk =
  id_managed :: "user_assigned_identity option \<Rightarrow> 'cred res"
  id_workload :: "string option \<Rightarrow> string option \<Rightarrow> string option \<Rightarrow> 'cred res"
  id_client_secret :: "string \<Rightarrow> string \<Rightarrow> string \<Rightarrow> 'cred res"

definition build_token_credential :: "'cred identity_sdk \<Rightarrow> auth_config \<Rightarrow> ('cred option) res" where
  "build_token_credential I auth =
     (case auth of
        Msi user_assigned \<Rightarrow> map_sum id Some (id_managed I user_assigned)
      | WorkloadIdentity client_id tenant_id token_file \<Rightarrow> map_sum id Some (id_workload I client_id tenant_id token_file)
      | ServicePrincipal tenant_id client_id client_secret \<Rightarrow> map_sum id Some (id_client_secret I tenant_id client_id client_secret)
      | SharedKey _ _ \<Rightarrow> Inr None
      | Sas _ \<Rightarrow> Inr None)"

datatype 'cred http_policy =
    SharedKeyAuth shared_key_policy
  | SasAuth "(string \<times> string) list"
  | BearerAuth 'cred "string list"

definition STORAGE_SCOPE :: string where
  "STORAGE_SCOPE = ''https://storage.azure.com/.default''"

text \<open>The codecs the policies are built with: base64 and the query parser.\<close>

record auth_codec =
  ac_b64_decode :: "string \<Rightarrow> bytes option"
  ac_query_pairs :: "string \<Rightarrow> (string \<times> string) list option"

definition build_pipeline :: "'cred identity_sdk \<Rightarrow> auth_codec \<Rightarrow> auth_config \<Rightarrow> ('cred http_policy list) res" where
  "build_pipeline I K auth =
     (case auth of
        SharedKey account_name account_key \<Rightarrow>
          (case shared_key_new (ac_b64_decode K) account_name account_key of
             Inl e \<Rightarrow> Inl e
           | Inr p \<Rightarrow> Inr [SharedKeyAuth p])
      | Sas sas_token \<Rightarrow> Inr [SasAuth (sas_policy_new (ac_query_pairs K) sas_token)]
      | _ \<Rightarrow>
          (case build_token_credential I auth of
             Inl e \<Rightarrow> Inl e
           | Inr None \<Rightarrow> Inl (IoErr ''Entra auth produced no token credential'')
           | Inr (Some cred) \<Rightarrow> Inr [BearerAuth cred [STORAGE_SCOPE]]))"

section \<open>The container client\<close>

text \<open>
  The storage SDK: what \<open>Url::parse\<close> accepts, a service client with a credential, which gives the clients of its
  containers, and a container client with policies of one's own.
\<close>

record ('cred, 'client) storage_sdk =
  sd_url_ok :: "string \<Rightarrow> bool"
  sd_service_client :: "string \<Rightarrow> 'cred \<Rightarrow> (string \<Rightarrow> 'client) res"
  sd_container_client :: "string \<Rightarrow> 'cred http_policy list \<Rightarrow> 'client res"
  sd_policies :: "'client \<Rightarrow> 'cred http_policy list"

definition entra_client ::
  "('cred, 'client) storage_sdk \<Rightarrow> string \<Rightarrow> string \<Rightarrow> 'cred res \<Rightarrow> 'client res" where
  "entra_client D service_url container_name cred =
     (case cred of
        Inl e \<Rightarrow> Inl e
      | Inr c \<Rightarrow>
          (case sd_service_client D service_url c of
             Inl e \<Rightarrow> Inl e
           | Inr svc \<Rightarrow> Inr (svc container_name)))"

definition policy_client ::
  "('cred, 'client) storage_sdk \<Rightarrow> string \<Rightarrow> string \<Rightarrow> 'cred http_policy \<Rightarrow> 'client res" where
  "policy_client D service_url container_name p =
     (let container_url = trim_end_matches ''/'' service_url @ ''/'' @ container_name
      in if \<not> sd_url_ok D container_url then Inl (IoErr ''parse container URL'')
         else sd_container_client D container_url [p])"

definition build_container_client ::
  "('cred, 'client) storage_sdk \<Rightarrow> 'cred identity_sdk \<Rightarrow> auth_codec \<Rightarrow> string \<Rightarrow> string \<Rightarrow> auth_config \<Rightarrow> 'client res" where
  "build_container_client D I K service_url container_name auth =
     (if \<not> sd_url_ok D service_url then Inl (IoErr ''parse service URL'')
      else
        (case auth of
           Msi user_assigned \<Rightarrow> entra_client D service_url container_name (id_managed I user_assigned)
         | WorkloadIdentity client_id tenant_id token_file \<Rightarrow>
             entra_client D service_url container_name (id_workload I client_id tenant_id token_file)
         | ServicePrincipal tenant_id client_id client_secret \<Rightarrow>
             entra_client D service_url container_name (id_client_secret I tenant_id client_id client_secret)
         | SharedKey account_name account_key \<Rightarrow>
             (case shared_key_new (ac_b64_decode K) account_name account_key of
                Inl e \<Rightarrow> Inl e
              | Inr p \<Rightarrow> policy_client D service_url container_name (SharedKeyAuth p))
         | Sas sas_token \<Rightarrow>
             policy_client D service_url container_name (SasAuth (sas_policy_new (ac_query_pairs K) sas_token))))"

section \<open>Sending\<close>

text \<open>
  What each try of a request goes through: \<open>mac\<close> and \<open>now\<close> as for the shared key, \<open>bearer\<close> the token policy of the SDK.
\<close>

definition send_policy ::
  "('cred \<Rightarrow> string list \<Rightarrow> request \<Rightarrow> request) \<Rightarrow> (string \<Rightarrow> bytes \<Rightarrow> string) \<Rightarrow> string \<Rightarrow> 'cred http_policy \<Rightarrow> request \<Rightarrow> request" where
  "send_policy bearer mac now p r =
     (case p of
        SharedKeyAuth k \<Rightarrow> shared_key_send mac k now r
      | SasAuth pairs \<Rightarrow> sas_send pairs r
      | BearerAuth cred scopes \<Rightarrow> bearer cred scopes r)"

definition send_try ::
  "('cred \<Rightarrow> string list \<Rightarrow> request \<Rightarrow> request) \<Rightarrow> (string \<Rightarrow> bytes \<Rightarrow> string) \<Rightarrow> string \<Rightarrow> 'cred http_policy list \<Rightarrow> request \<Rightarrow> request" where
  "send_try bearer mac now ps r = fold (send_policy bearer mac now) ps r"

text \<open>
  What the SDK documents: a client applies the policies it was given, and a service client with a
  credential applies a bearer token for the storage scope.
\<close>

definition sdk_applies :: "('cred, 'client) storage_sdk \<Rightarrow> bool" where
  "sdk_applies D \<longleftrightarrow>
     (\<forall>url cred svc name. sd_service_client D url cred = Inr svc \<longrightarrow> sd_policies D (svc name) = [BearerAuth cred [STORAGE_SCOPE]]) \<and>
     (\<forall>url ps client. sd_container_client D url ps = Inr client \<longrightarrow> sd_policies D client = ps)"

text \<open>A credential is there exactly for the Entra methods.\<close>

lemma build_token_credential_kind:
  "build_token_credential I auth = Inr c \<Longrightarrow> c \<noteq> None \<longleftrightarrow> has_token_credential auth"
  by (cases auth) (auto simp: build_token_credential_def has_token_credential_def map_sum_def split: sum.splits)

text \<open>
  C36: The raw pipeline authenticates like the client. Whenever the container client of a credential can be built, so can
  the pipeline, and it puts the same policies on a request, whatever the credential. With a key or a
  SAS token, a request that is sent again goes out with the signature and parameters of its first try.
\<close>

theorem pipeline_authenticates_like_client:
  assumes "sdk_applies D" and "build_container_client D I K service_url container_name auth = Inr client"
  shows "build_pipeline I K auth = Inr (sd_policies D client) \<and>
    (\<not> has_token_credential auth \<longrightarrow>
       send_try bearer mac later (sd_policies D client) (send_try bearer mac now (sd_policies D client) r) =
         send_try bearer mac now (sd_policies D client) r)"
proof -
  have pl: "build_pipeline I K auth = Inr (sd_policies D client)"
    using assms
    by (cases auth)
       (auto simp: build_container_client_def build_pipeline_def build_token_credential_def entra_client_def policy_client_def
          sdk_applies_def Let_def split: sum.splits if_splits)
  moreover have "send_try bearer mac later ps (send_try bearer mac now ps r) = send_try bearer mac now ps r"
    if "\<not> has_token_credential auth" and "build_pipeline I K auth = Inr ps" for ps
    using that shared_key_resend sas_send_again
    by (cases auth) (auto simp: build_pipeline_def has_token_credential_def send_try_def send_policy_def split: sum.splits)
  ultimately show ?thesis by blast
qed

text \<open>Credentials and clients as plain data.\<close>

definition plain_identity :: "string identity_sdk" where
  "plain_identity = \<lparr>id_managed = (\<lambda>_. Inr ''msi''), id_workload = (\<lambda>_ _ _. Inr ''workload''),
     id_client_secret = (\<lambda>_ client _. Inr client)\<rparr>"

definition plain_sdk :: "(string, string \<times> string http_policy list) storage_sdk" where
  "plain_sdk = \<lparr>sd_url_ok = (\<lambda>u. u \<noteq> []),
     sd_service_client = (\<lambda>url cred. Inr (\<lambda>name. (url @ name, [BearerAuth cred [STORAGE_SCOPE]]))),
     sd_container_client = (\<lambda>url ps. Inr (url, ps)), sd_policies = snd\<rparr>"

definition plain_codec :: auth_codec where
  "plain_codec = \<lparr>ac_b64_decode = (\<lambda>s. if s = [] then None else Some (map of_char s)), ac_query_pairs = (\<lambda>_. None)\<rparr>"

theorem pipeline_authenticates_like_client_witness:
  "\<exists>client. build_container_client plain_sdk plain_identity plain_codec ''https://acct.store/'' ''vols'' (SharedKey ''acct'' ''key'') =
       Inr client \<and>
     fst client = ''https://acct.store/vols'' \<and>
     build_pipeline plain_identity plain_codec (SharedKey ''acct'' ''key'') = Inr (snd client)"
proof -
  have url: "trim_end_matches ''/'' ''https://acct.store/'' @ ''/'' @ ''vols'' = ''https://acct.store/vols''" by code_simp
  obtain client where run: "build_container_client plain_sdk plain_identity plain_codec ''https://acct.store/'' ''vols''
      (SharedKey ''acct'' ''key'') = Inr client" and "fst client = ''https://acct.store/vols''"
    by (simp add: build_container_client_def plain_sdk_def plain_codec_def shared_key_new_def policy_client_def url [simplified] Let_def)
  moreover have "sdk_applies plain_sdk" by (simp add: sdk_applies_def plain_sdk_def)
  from pipeline_authenticates_like_client [OF this run]
  have "build_pipeline plain_identity plain_codec (SharedKey ''acct'' ''key'') = Inr (snd client)"
    by (simp add: plain_sdk_def)
  ultimately show ?thesis by blast
qed

end
