(* ===== verification/Buffered_Conc.thy ===== *)
theory Buffered_Conc
  imports Buffered_Refines
begin

text \<open>
  The write-back buffer of \<open>backend/buffered.rs\<close> under concurrency. The state lock is never held across a request to
  the layer below, so the requests of several clients, the flushes of several pages and the background flush
  interleave between the locked sections. A run is a sequence of these sections, in any order; loads and uploads
  under way are tasks.
\<close>

section \<open>The locked sections\<close>

text \<open>The unlocked part of \<open>ensure_resident\<close>: read the page from below.\<close>

definition load_page :: "buf_config \<Rightarrow> 's backend \<Rightarrow> nat \<Rightarrow> nat \<Rightarrow> 's buffered \<Rightarrow> bytes res \<times> 's buffered" where
  "load_page cfg B idx dev s =
     (let off = idx * page_size cfg;
          read_len = (if 0 < dev then min (dev - off) (page_size cfg) else 0)
      in if 0 < read_len
         then (case b_read B (bf_inner s) off read_len of
                 (Inl e, i') \<Rightarrow> (Inl e, s\<lparr>bf_inner := i'\<rparr>)
               | (Inr data, i') \<Rightarrow>
                   (if length data \<noteq> read_len then Inl ShortRead else Inr (overwrite 0 data (zeros (page_size cfg))),
                    s\<lparr>bf_inner := i'\<rparr>))
         else (Inr (zeros (page_size cfg)), s))"

text \<open>The locked sections of a read and of a write; \<open>None\<close> when the page is not resident, and the loop tries again.\<close>

definition read_locked :: "buf_config \<Rightarrow> nat \<Rightarrow> nat \<Rightarrow> nat \<Rightarrow> buf_state \<Rightarrow> (bytes \<times> buf_state) option" where
  "read_locked cfg idx page_off chunk_len st =
     map_option
       (\<lambda>p. (segment page_off chunk_len (pg_data p),
             enforce_cache_limit cfg (st\<lparr>bs_lru := touch (bs_lru st) idx (\<not> pg_dirty p)\<rparr>) (Some idx)))
       (bm_get (bs_pages st) idx)"

definition store_locked :: "nat \<Rightarrow> nat \<Rightarrow> nat \<Rightarrow> bytes \<Rightarrow> buf_state \<Rightarrow> buf_state option" where
  "store_locked now idx page_off chunk st =
     map_option
       (\<lambda>p. let sq = bs_seq_counter st + 1 in
            st\<lparr>bs_seq_counter := sq,
               bs_pages := bm_insert idx
                 (p\<lparr>pg_data := overwrite page_off chunk (pg_data p), pg_dirty := True, pg_seq := sq\<rparr>) (bs_pages st),
               bs_lru := touch (bs_lru st) idx False,
               bs_last_write := Some now\<rparr>)
       (bm_get (bs_pages st) idx)"

text \<open>The sequential operations are made of these sections.\<close>

lemma ensure_resident_parts:
  "ensure_resident cfg B idx dev s =
     (if bm_contains (bs_pages (bf_state s)) idx then (Inr (), s)
      else (case load_page cfg B idx dev s of
              (Inl e, s') \<Rightarrow> (Inl e, s')
            | (Inr buf, s') \<Rightarrow> (Inr (), s'\<lparr>bf_state := insert_loaded cfg (bf_state s') idx buf\<rparr>)))"
  by (simp add: ensure_resident_def load_page_def Let_def split: prod.splits sum.splits)

lemma read_chunk_parts:
  "read_chunk cfg B idx page_off n dev s =
     (case ensure_resident cfg B idx dev s of
        (Inl e, s') \<Rightarrow> (Inl e, s')
      | (Inr _, s') \<Rightarrow>
          (case read_locked cfg idx page_off n (bf_state s') of
             None \<Rightarrow> (Inl LoopFuel, s')
           | Some (d, st') \<Rightarrow> (Inr d, s'\<lparr>bf_state := st'\<rparr>)))"
  by (simp add: read_chunk_def read_locked_def Let_def split: prod.splits sum.splits option.splits)

lemma store_chunk_parts:
  "store_chunk cfg B idx page_off chunk dev s =
     (case ensure_resident cfg B idx dev s of
        (Inl e, s') \<Rightarrow> (Inl e, s')
      | (Inr _, s') \<Rightarrow>
          (case store_locked (bf_clock s') idx page_off chunk (bf_state s') of
             None \<Rightarrow> (Inl LoopFuel, s')
           | Some st' \<Rightarrow> (Inr (), s'\<lparr>bf_state := st'\<rparr>)))"
  by (simp add: store_chunk_def store_locked_def Let_def split: prod.splits sum.splits option.splits)

section \<open>Interleaved sections\<close>

text \<open>A load or an upload under way, before and after its request took effect.\<close>

datatype task =
    Loading nat
  | Loaded nat bytes
  | Uploading nat nat nat bytes
  | Uploaded nat nat

datatype buf_action =
    FetchPage nat
  | FetchArrives nat
  | FetchInserts nat
  | ReadPage nat nat nat bytes
  | StorePage nat nat bytes
  | FlushSnapshot nat
  | FlushUploads nat
  | FlushMarks nat
  | Abandon nat

fun task_page :: "task \<Rightarrow> nat" where
  "task_page (Loading idx) = idx"
| "task_page (Loaded idx buf) = idx"
| "task_page (Uploading idx sq off data) = idx"
| "task_page (Uploaded idx sq) = idx"

definition nth_task :: "task list \<Rightarrow> nat \<Rightarrow> task option" where
  "nth_task ts k = (if k < length ts then Some (ts ! k) else None)"

definition drop_task :: "nat \<Rightarrow> task list \<Rightarrow> task list" where
  "drop_task k ts = take k ts @ drop (Suc k) ts"

text \<open>A chunk of a request lies inside its page and inside the device.\<close>

definition chunk_in :: "buf_config \<Rightarrow> buf_state \<Rightarrow> nat \<Rightarrow> nat \<Rightarrow> nat \<Rightarrow> bool" where
  "chunk_in cfg st idx page_off n \<longleftrightarrow>
     page_off + n \<le> page_size cfg \<and> idx * page_size cfg + page_off + n \<le> bs_dev_size st"

fun conc_step ::
  "buf_config \<Rightarrow> 's backend \<Rightarrow> buf_action \<Rightarrow> 's buffered \<times> task list \<Rightarrow> ('s buffered \<times> task list) option" where
  "conc_step cfg B (FetchPage idx) (s, ts) =
     (if bm_contains (bs_pages (bf_state s)) idx \<or> bs_dev_size (bf_state s) \<le> idx * page_size cfg then None
      else Some (s, Loading idx # ts))"
| "conc_step cfg B (FetchArrives k) (s, ts) =
     (case nth_task ts k of
        Some (Loading idx) \<Rightarrow>
          (case load_page cfg B idx (bs_dev_size (bf_state s)) s of
             (Inl _, s') \<Rightarrow> Some (s', drop_task k ts)
           | (Inr buf, s') \<Rightarrow> Some (s', ts[k := Loaded idx buf]))
      | _ \<Rightarrow> None)"
| "conc_step cfg B (FetchInserts k) (s, ts) =
     (case nth_task ts k of
        Some (Loaded idx buf) \<Rightarrow>
          Some (s\<lparr>bf_state := insert_loaded cfg (bf_state s) idx buf\<rparr>, drop_task k ts)
      | _ \<Rightarrow> None)"
| "conc_step cfg B (ReadPage idx page_off n d) (s, ts) =
     (case read_locked cfg idx page_off n (bf_state s) of
        Some (d', st') \<Rightarrow>
          if chunk_in cfg (bf_state s) idx page_off n \<and> d' = d then Some (s\<lparr>bf_state := st'\<rparr>, ts) else None
      | None \<Rightarrow> None)"
| "conc_step cfg B (StorePage idx page_off chunk) (s, ts) =
     (case store_locked (bf_clock s) idx page_off chunk (bf_state s) of
        Some st' \<Rightarrow>
          if chunk_in cfg (bf_state s) idx page_off (length chunk) then Some (s\<lparr>bf_state := st'\<rparr>, ts) else None
      | None \<Rightarrow> None)"
| "conc_step cfg B (FlushSnapshot idx) (s, ts) =
     (case flush_snapshot cfg (bf_state s) idx of
        Some (sq, off, write_len, data) \<Rightarrow>
          Some (s, (if 0 < write_len then Uploading idx sq off (take write_len data) else Uploaded idx sq) # ts)
      | None \<Rightarrow> None)"
| "conc_step cfg B (FlushUploads k) (s, ts) =
     (case nth_task ts k of
        Some (Uploading idx sq off data) \<Rightarrow>
          (case b_write B (bf_inner s) off data of
             (Inl _, i') \<Rightarrow> Some (s\<lparr>bf_inner := i'\<rparr>, drop_task k ts)
           | (Inr _, i') \<Rightarrow> Some (s\<lparr>bf_inner := i'\<rparr>, ts[k := Uploaded idx sq]))
      | _ \<Rightarrow> None)"
| "conc_step cfg B (FlushMarks k) (s, ts) =
     (case nth_task ts k of
        Some (Uploaded idx sq) \<Rightarrow> Some (s\<lparr>bf_state := flush_mark (bf_state s) idx sq\<rparr>, drop_task k ts)
      | _ \<Rightarrow> None)"
| "conc_step cfg B (Abandon k) (s, ts) = (if k < length ts then Some (s, drop_task k ts) else None)"

text \<open>
  A page is being loaded, or flushed, once at a time. The code does not enforce this; \<open>conc_run\<close> with \<open>strict\<close>
  is the runs in which it is so.
\<close>

definition is_load :: "task \<Rightarrow> bool" where
  "is_load t = (case t of Loading _ \<Rightarrow> True | Loaded _ _ \<Rightarrow> True | _ \<Rightarrow> False)"

fun apart :: "buf_action \<Rightarrow> task list \<Rightarrow> bool" where
  "apart (FetchPage idx) ts = list_all (\<lambda>t. \<not> (is_load t \<and> task_page t = idx)) ts"
| "apart (FlushSnapshot idx) ts = list_all (\<lambda>t. \<not> (\<not> is_load t \<and> task_page t = idx)) ts"
| "apart _ ts = True"

fun conc_run ::
  "bool \<Rightarrow> buf_config \<Rightarrow> 's backend \<Rightarrow> buf_action list \<Rightarrow> 's buffered \<times> task list \<Rightarrow> ('s buffered \<times> task list) option" where
  "conc_run strict cfg B [] c = Some c"
| "conc_run strict cfg B (a # as) c =
     (if strict \<and> \<not> apart a (snd c) then None
      else (case conc_step cfg B a c of None \<Rightarrow> None | Some c' \<Rightarrow> conc_run strict cfg B as c'))"

text \<open>Each page of a sequential flush, and each chunk of a sequential write, is a run of sections one after the other.\<close>

lemma insert_loaded_size [simp]: "bs_dev_size (insert_loaded cfg st idx buf) = bs_dev_size st"
  by (simp add: insert_loaded_def enforce_cache_limit_def Let_def split: prod.splits)

lemma flush_page_is_run:
  assumes "flush_page cfg B 0 idx s = (Inr e, s')" and "bf_upload_secs s = []"
  shows "\<exists>acts. conc_run True cfg B acts (s, []) = Some (s', [])"
proof (cases "flush_snapshot cfg (bf_state s) idx")
  case None
  with assms(1) have "conc_run True cfg B [] (s, []) = Some (s', [])" by (simp add: flush_page_def)
  then show ?thesis ..
next
  case (Some snap)
  obtain sq off n data where snap: "flush_snapshot cfg (bf_state s) idx = Some (sq, off, n, data)"
    using Some by (cases snap) auto
  have time: "pass_time s = s" "upload_time s = 0" using assms(2) by (simp_all add: pass_time_def upload_time_def)
  have "conc_run True cfg B (if 0 < n then [FlushSnapshot idx, FlushUploads 0, FlushMarks 0] else [FlushSnapshot idx, FlushMarks 0])
      (s, []) = Some (s', [])"
    using assms(1) snap time
    by (auto simp: flush_page_def nth_task_def drop_task_def Let_def split: prod.splits sum.splits if_splits)
  then show ?thesis ..
qed

lemma store_chunk_is_run:
  assumes "store_chunk cfg B idx page_off chunk (bs_dev_size (bf_state s)) s = (Inr (), s')"
    and "chunk_in cfg (bf_state s) idx page_off (length chunk)" and "chunk \<noteq> []"
  shows "\<exists>acts. conc_run True cfg B acts (s, []) = Some (s', [])"
proof -
  have idx: "\<not> bs_dev_size (bf_state s) \<le> idx * page_size cfg" using assms(2,3) by (cases chunk) (auto simp: chunk_in_def)
  have "conc_run True cfg B
      (if bm_contains (bs_pages (bf_state s)) idx then [StorePage idx page_off chunk]
       else [FetchPage idx, FetchArrives 0, FetchInserts 0, StorePage idx page_off chunk]) (s, []) = Some (s', [])"
    using assms(1,2) idx
    by (auto simp: store_chunk_parts ensure_resident_parts nth_task_def drop_task_def chunk_in_def load_page_def Let_def
        split: prod.splits sum.splits if_splits option.splits)
  then show ?thesis ..
qed

section \<open>The atomic device\<close>

text \<open>What the clients may assume: a chunk is read or written at one instant, everything else is invisible.\<close>

fun atomic_step :: "nat \<Rightarrow> buf_action \<Rightarrow> bytes \<Rightarrow> bytes option" where
  "atomic_step ps (ReadPage idx page_off n d) V =
     (if d = segment (idx * ps + page_off) n V then Some V else None)"
| "atomic_step ps (StorePage idx page_off chunk) V = Some (overwrite (idx * ps + page_off) chunk V)"
| "atomic_step ps _ V = Some V"

fun atomic_run :: "nat \<Rightarrow> buf_action list \<Rightarrow> bytes \<Rightarrow> bytes option" where
  "atomic_run ps [] V = Some V"
| "atomic_run ps (a # as) V = (case atomic_step ps a V of None \<Rightarrow> None | Some V' \<Rightarrow> atomic_run ps as V')"

section \<open>The invariant of a run\<close>

definition seq_ok :: "buf_state \<Rightarrow> bool" where
  "seq_ok st \<longleftrightarrow> (\<forall>k p. map_of (bs_pages st) k = Some p \<longrightarrow> pg_seq p \<le> bs_seq_counter st)"

definition loaded_ok :: "nat \<Rightarrow> nat \<Rightarrow> bytes \<Rightarrow> bytes \<Rightarrow> bool" where
  "loaded_ok ps idx buf C \<longleftrightarrow> length buf = ps \<and> (\<forall>i < ps. idx * ps + i < length C \<longrightarrow> buf ! i = C ! (idx * ps + i))"

fun task_ok :: "nat \<Rightarrow> page bmap \<Rightarrow> bytes \<Rightarrow> task \<Rightarrow> bool" where
  "task_ok ps P C (Loading idx) \<longleftrightarrow> map_of P idx = None \<and> idx * ps < length C"
| "task_ok ps P C (Loaded idx buf) \<longleftrightarrow> map_of P idx = None \<and> loaded_ok ps idx buf C"
| "task_ok ps P C (Uploading idx sq off d) \<longleftrightarrow>
     (\<exists>p. map_of P idx = Some p \<and> pg_dirty p \<and> sq \<le> pg_seq p \<and> (pg_seq p = sq \<longrightarrow> d = take (length d) (pg_data p))) \<and>
     off = idx * ps \<and> d \<noteq> [] \<and> length d = min ps (length C - off)"
| "task_ok ps P C (Uploaded idx sq) \<longleftrightarrow>
     (\<exists>p. map_of P idx = Some p \<and> pg_dirty p \<and> sq \<le> pg_seq p \<and> (pg_seq p = sq \<longrightarrow> page_matches ps idx p C))"

definition tasks_ok :: "nat \<Rightarrow> page bmap \<Rightarrow> bytes \<Rightarrow> task list \<Rightarrow> bool" where
  "tasks_ok ps P C ts \<longleftrightarrow> (\<forall>t \<in> set ts. task_ok ps P C t) \<and> distinct (map task_page ts)"

definition conc_inv :: "buf_config \<Rightarrow> ('s \<Rightarrow> bytes) \<Rightarrow> ('s \<Rightarrow> bool) \<Rightarrow> 's buffered \<times> task list \<Rightarrow> bool" where
  "conc_inv cfg content binv c \<longleftrightarrow>
     buf_inv cfg content binv (fst c) \<and> bs_dev_size (bf_state (fst c)) \<noteq> 0 \<and> seq_ok (bf_state (fst c)) \<and>
     tasks_ok (page_size cfg) (bs_pages (bf_state (fst c))) (content (bf_inner (fst c))) (snd c)"

section \<open>Tasks of other pages\<close>

lemma in_page_range:
  fixes k :: nat
  assumes "k \<noteq> idx" and "i < ps"
  shows "k * ps + i < idx * ps \<or> idx * ps + ps \<le> k * ps + i"
proof -
  have "k * ps + ps \<le> idx * ps \<or> idx * ps + ps \<le> k * ps"
    using assms(1) by (metis Suc_leI add.commute mult_Suc mult_le_mono1 nat_neq_iff)
  with assms(2) show ?thesis by linarith
qed

lemma other_page_same:
  assumes "same_outside (idx * ps) n C C'" and "n \<le> ps" and "k \<noteq> idx" and "i < ps" and "k * ps + i < length C"
  shows "C' ! (k * ps + i) = C ! (k * ps + i)"
  using assms in_page_range [OF assms(3,4)] unfolding same_outside_def by fastforce

text \<open>
  A task depends on its own page only: on the bytes below it, on the page while it is dirty, and on its absence.
\<close>

lemma task_ok_cong:
  assumes "task_ok ps P C t" and "length C' = length C"
    and "\<And>i. i < ps \<Longrightarrow> task_page t * ps + i < length C \<Longrightarrow> C' ! (task_page t * ps + i) = C ! (task_page t * ps + i)"
    and "map_of P (task_page t) = None \<Longrightarrow> map_of P' (task_page t) = None"
    and "\<And>p. map_of P (task_page t) = Some p \<Longrightarrow> pg_dirty p \<Longrightarrow> map_of P' (task_page t) = Some p"
  shows "task_ok ps P' C' t"
  using assms by (cases t) (auto simp: loaded_ok_def page_matches_def)

text \<open>A page is absent while it is loaded and resident while it is flushed.\<close>

lemma task_kind: "task_ok ps P C t \<Longrightarrow> is_load t \<longleftrightarrow> map_of P (task_page t) = None"
  by (cases t) (auto simp: is_load_def)

text \<open>Eviction and loads keep dirty pages, and bring in no page but their own.\<close>

definition grows_by :: "nat set \<Rightarrow> buf_state \<Rightarrow> buf_state \<Rightarrow> bool" where
  "grows_by K st st' \<longleftrightarrow>
     (\<forall>k p. k \<notin> K \<longrightarrow> map_of (bs_pages st') k = Some p \<longrightarrow> map_of (bs_pages st) k = Some p) \<and>
     dirty_set (bs_pages st') = dirty_set (bs_pages st)"

lemma evict_loop_sub:
  assumes "evict_loop mx protect P l = (P', l')" and "map_of P' k = Some p"
  shows "map_of P k = Some p"
  using assms
proof (induction mx protect P l arbitrary: P' l' rule: evict_loop.induct)
  case (1 mx protect P l)
  show ?case
  proof (cases "mx < length P \<and> (\<exists>v l1. pop_lru l protect = (Some v, l1))")
    case True
    then obtain v l1 where pop: "mx < length P" "pop_lru l protect = (Some v, l1)" by blast
    with 1 have "map_of (bm_remove v P) k = Some p" by (auto simp: evict_loop.simps [of mx protect P])
    then show ?thesis by (simp add: bmap_simps split: if_splits)
  next
    case False
    with 1 show ?thesis
      by (auto simp: evict_loop.simps [of mx protect P] split: if_splits prod.splits option.splits)
  qed
qed

lemma enforce_cache_limit_grows:
  assumes "st_inv cfg st C" and "0 < page_size cfg"
  shows "grows_by {} st (enforce_cache_limit cfg st protect)"
  using enforce_cache_limit_spec [OF assms, of protect]
  by (auto simp: grows_by_def enforce_cache_limit_def evict_loop_sub split: prod.splits if_splits)

lemma enforce_cache_limit_counter [simp]:
  "bs_seq_counter (enforce_cache_limit cfg st protect) = bs_seq_counter st"
  by (simp add: enforce_cache_limit_def split: prod.splits)

lemma grows_by_task:
  assumes "grows_by K st st'" and "task_ok ps (bs_pages st) C t" and "task_page t \<notin> K"
  shows "task_ok ps (bs_pages st') C t"
proof (rule task_ok_cong [OF assms(2)])
  fix p assume p: "map_of (bs_pages st) (task_page t) = Some p" "pg_dirty p"
  then have "task_page t \<in> dirty_set (bs_pages st')" using assms(1) by (auto simp: grows_by_def dirty_set_def)
  then obtain q where "map_of (bs_pages st') (task_page t) = Some q" by (auto simp: dirty_set_def)
  with assms(1,3) p show "map_of (bs_pages st') (task_page t) = Some p" by (auto simp: grows_by_def)
next
  assume "map_of (bs_pages st) (task_page t) = None"
  with assms(1,3) show "map_of (bs_pages st') (task_page t) = None"
    by (cases "map_of (bs_pages st') (task_page t)") (auto simp: grows_by_def)
qed auto

text \<open>Bookkeeping on the list of tasks.\<close>

lemma nth_taskD: "nth_task ts k = Some t \<Longrightarrow> k < length ts \<and> ts ! k = t"
  by (auto simp: nth_task_def split: if_splits)

lemma set_drop_task: "set (drop_task k ts) \<subseteq> set ts"
  by (auto simp: drop_task_def dest: in_set_takeD in_set_dropD)

lemma distinct_drop_task: "distinct (map task_page ts) \<Longrightarrow> distinct (map task_page (drop_task k ts))"
proof -
  assume d: "distinct (map task_page ts)"
  have "map task_page ts = map task_page (take k ts) @ map task_page (drop k ts)"
    by (metis append_take_drop_id map_append)
  with d have "distinct (map task_page (take k ts) @ map task_page (drop k ts))" by simp
  moreover have "set (map task_page (drop (Suc k) ts)) \<subseteq> set (map task_page (drop k ts))"
    using set_drop_subset_set_drop [of k "Suc k" ts] by auto
  moreover have "distinct (map task_page (drop (Suc k) ts))"
    using d by (simp add: drop_map [symmetric])
  ultimately show ?thesis unfolding drop_task_def by auto
qed

lemma drop_task_other:
  assumes "distinct (map task_page ts)" and "k < length ts" and "t \<in> set (drop_task k ts)"
  shows "task_page t \<noteq> task_page (ts ! k)"
proof -
  have "ts = take k ts @ ts ! k # drop (Suc k) ts" using assms(2) by (rule id_take_nth_drop)
  then have "distinct (map task_page (take k ts @ ts ! k # drop (Suc k) ts))" using assms(1) by simp
  with assms(3) show ?thesis unfolding drop_task_def by (auto simp: image_iff) 
qed

lemma tasks_ok_update:
  assumes "tasks_ok ps P C ts" and "k < length ts" and "task_page t' = task_page (ts ! k)" and "task_ok ps P' C' t'"
    and "\<And>t. t \<in> set ts \<Longrightarrow> task_ok ps P C t \<Longrightarrow> task_page t \<noteq> task_page (ts ! k) \<Longrightarrow> task_ok ps P' C' t"
  shows "tasks_ok ps P' C' (ts[k := t'])"
proof -
  have "map task_page (ts[k := t']) = map task_page ts"
    using assms(2,3) by (simp add: map_update list_update_same_conv)
  moreover have "task_ok ps P' C' t" if "t \<in> set (ts[k := t'])" for t
  proof -
    from that obtain j where j: "j < length ts" "ts[k := t'] ! j = t" by (auto simp: in_set_conv_nth)
    show ?thesis
    proof (cases "j = k")
      case True with j assms(4) show ?thesis by simp
    next
      case False
      with j assms(1,2) have "task_page (ts ! j) \<noteq> task_page (ts ! k)"
        using nth_eq_iff_index_eq [of "map task_page ts" j k] by (simp add: tasks_ok_def)
      with False j assms(1) show ?thesis by (intro assms(5)) (auto simp: tasks_ok_def)
    qed
  qed
  ultimately show ?thesis using assms(1) by (simp add: tasks_ok_def)
qed

lemma tasks_ok_drop:
  assumes "tasks_ok ps P C ts" and "k < length ts"
    and "\<And>t. t \<in> set ts \<Longrightarrow> task_ok ps P C t \<Longrightarrow> task_page t \<noteq> task_page (ts ! k) \<Longrightarrow> task_ok ps P' C' t"
  shows "tasks_ok ps P' C' (drop_task k ts)"
  using assms drop_task_other [of ts k] distinct_drop_task [of ts k] set_drop_task [of k ts]
  unfolding tasks_ok_def by blast

lemma tasks_ok_all:
  assumes "tasks_ok ps P C ts" and "\<And>t. task_ok ps P C t \<Longrightarrow> task_ok ps P' C' t"
  shows "tasks_ok ps P' C' ts"
  using assms by (auto simp: tasks_ok_def)

section \<open>Every section keeps the device\<close>

context buffered_layer
begin

lemma conc_inv_parts:
  assumes "conc_inv cfg content binv (s, ts)"
  shows "buf_inv cfg content binv s" "bs_dev_size (bf_state s) = length (content (bf_inner s))"
    "bs_dev_size (bf_state s) \<noteq> 0" "seq_ok (bf_state s)"
    "tasks_ok (page_size cfg) (bs_pages (bf_state s)) (content (bf_inner s)) ts"
  using assms by (auto simp: conc_inv_def buf_inv_def st_inv_def)

lemma conc_invI:
  assumes "conc_inv cfg content binv (s, ts)" and "buf_keeps cfg content binv s s'" and "seq_ok (bf_state s')"
    and "tasks_ok (page_size cfg) (bs_pages (bf_state s')) (content (bf_inner s')) ts'"
  shows "conc_inv cfg content binv (s', ts') \<and> buf_view cfg content s' = buf_view cfg content s"
  using assms by (simp add: conc_inv_def buf_keeps_def)

lemma load_page_spec:
  assumes "buf_inv cfg content binv s" and "bs_dev_size (bf_state s) \<noteq> 0"
    and "idx * page_size cfg < bs_dev_size (bf_state s)"
    and "load_page cfg B idx (bs_dev_size (bf_state s)) s = (r, s')"
  shows "\<exists>i'. s' = s\<lparr>bf_inner := i'\<rparr> \<and> binv i' \<and> content i' = content (bf_inner s) \<and>
    (\<forall>buf. r = Inr buf \<longrightarrow> loaded_ok (page_size cfg) idx buf (content (bf_inner s)))"
proof -
  define C off n where "C = content (bf_inner s)" and "off = idx * page_size cfg"
    and "n = min (length C - off) (page_size cfg)"
  have len: "bs_dev_size (bf_state s) = length C" using assms(1,2) by (auto simp: buf_inv_def st_inv_def C_def)
  have n: "0 < n" "off + n \<le> length C" using assms(3) len ps_pos by (simp_all add: n_def off_def)
  obtain rd i' where rd: "b_read B (bf_inner s) off n = (rd, i')" by fastforce
  from page_read [OF buf_invD(1) [OF assms(1)] n(1) _ rd] n(2)
  have i': "binv i'" "content i' = C" "\<And>d. rd = Inr d \<Longrightarrow> length d = n \<Longrightarrow> d = segment off n C"
    by (auto simp: C_def)
  have "s' = s\<lparr>bf_inner := i'\<rparr>" and r: "\<And>buf. r = Inr buf \<Longrightarrow> buf = overwrite 0 (segment off n C) (zeros (page_size cfg))"
    using assms(2,4) n(1) rd i'(3)
    by (auto simp: load_page_def Let_def n_def off_def len split: sum.splits if_splits)
  moreover have "loaded_ok (page_size cfg) idx (overwrite 0 (segment off n C) (zeros (page_size cfg))) C"
    using n by (auto simp: loaded_ok_def off_def n_def buf_simps nth_overwrite nth_segment length_segment length_overwrite)
  ultimately show ?thesis using i' by (auto simp: C_def)
qed

lemma insert_loaded_conc:
  assumes "conc_inv cfg content binv (s, ts)" and "map_of (bs_pages (bf_state s)) idx = None"
    and "loaded_ok (page_size cfg) idx buf (content (bf_inner s))"
    and st': "st' = insert_loaded cfg (bf_state s) idx buf"
  shows "st_keeps cfg (content (bf_inner s)) (bf_state s) st' \<and> grows_by {idx} (bf_state s) st' \<and> seq_ok st'"
proof -
  define C where "C = content (bf_inner s)"
  note inv = conc_inv_parts [OF assms(1)]
  have st: "st_inv cfg (bf_state s) C" using buf_invD(2) [OF inv(1)] by (simp add: C_def)
  have spec: "st_keeps cfg C (bf_state s) st'" "dirty_set (bs_pages st') = dirty_set (bs_pages (bf_state s))"
    using insert_loaded_spec [OF st ps_pos inv(3), of buf idx] assms(3)
    by (auto simp: st' loaded_ok_def page_matches_def C_def)
  define sq where "sq = bs_seq_counter (bf_state s) + 1"
  define st1 where "st1 = (bf_state s)\<lparr>bs_seq_counter := sq,
      bs_pages := bm_insert idx \<lparr>pg_data = buf, pg_dirty = False, pg_seq = sq\<rparr> (bs_pages (bf_state s)),
      bs_lru := touch (bs_lru (bf_state s)) idx True\<rparr>"
  have eq: "st' = enforce_cache_limit cfg st1 (Some idx)"
    using assms(2) by (simp add: st' insert_loaded_def st1_def sq_def Let_def bm_contains_def)
  have sub: "map_of (bs_pages st1) k = Some p" if "map_of (bs_pages st') k = Some p" for k p
    using that evict_loop_sub
    by (auto simp: eq enforce_cache_limit_def split: if_splits prod.splits)
  have "pg_seq p \<le> sq" if "map_of (bs_pages st') k = Some p" for k p
    using sub [OF that] inv(4) by (auto simp: st1_def sq_def seq_ok_def bmap_simps split: if_splits intro: le_SucI)
  moreover have "bs_seq_counter st' = sq" by (simp add: eq st1_def)
  ultimately have "seq_ok st'" by (auto simp: seq_ok_def)
  moreover have "grows_by {idx} (bf_state s) st'"
    using spec(2) by (auto simp: grows_by_def st1_def bmap_simps dest!: sub)
  ultimately show ?thesis using spec(1) by (simp add: C_def)
qed

lemma fetch_step:
  assumes inv: "conc_inv cfg content binv (s, ts)" and "conc_step cfg B a (s, ts) = Some (s', ts')"
    and "a = FetchPage idx \<and> apart a ts \<or> a = FetchArrives k \<or> a = FetchInserts k"
  shows "conc_inv cfg content binv (s', ts') \<and> buf_view cfg content s' = buf_view cfg content s"
proof -
  note parts = conc_inv_parts [OF inv]
  let ?P = "bs_pages (bf_state s)" and ?C = "content (bf_inner s)" and ?ps = "page_size cfg"
  from assms(3) consider (page) "a = FetchPage idx" "apart a ts" | (arrives) "a = FetchArrives k" | (inserts) "a = FetchInserts k"
    by blast
  then show ?thesis
  proof cases
    case page
    with assms(2) have new: "s' = s" "ts' = Loading idx # ts" "map_of ?P idx = None" "idx * ?ps < length ?C"
      using parts(2) by (auto simp: bm_contains_def split: if_splits)
    have "task_page t \<noteq> idx" if "t \<in> set ts" for t
      using that page new(3) parts(5) task_kind [of ?ps ?P ?C t] by (auto simp: tasks_ok_def list_all_iff)
    with new parts(5) inv show ?thesis by (auto simp: conc_inv_def tasks_ok_def)
  next
    case arrives
    then obtain i where t: "k < length ts" "ts ! k = Loading i"
      using assms(2) by (auto simp: nth_task_def split: option.splits task.splits if_splits)
    have ok: "map_of ?P i = None" "i * ?ps < bs_dev_size (bf_state s)"
      using t parts(2,5) nth_mem [OF t(1)] by (auto simp: tasks_ok_def)
    obtain r s1 where load: "load_page cfg B i (bs_dev_size (bf_state s)) s = (r, s1)" by fastforce
    obtain i' where i': "s1 = s\<lparr>bf_inner := i'\<rparr>" "binv i'" "content i' = ?C"
      "\<And>buf. r = Inr buf \<Longrightarrow> loaded_ok ?ps i buf ?C"
      using load_page_spec [OF parts(1,3) ok(2) load] by blast
    have s1: "s' = s1" "ts' = (case r of Inl _ \<Rightarrow> drop_task k ts | Inr buf \<Rightarrow> ts[k := Loaded i buf])"
      using assms(2) arrives t load by (auto simp: nth_task_def split: sum.splits)
    have "tasks_ok ?ps ?P ?C ts'"
      using tasks_ok_drop [OF parts(5) t(1)] tasks_ok_update [OF parts(5) t(1), of "Loaded i _"] t(2) ok(1) i'(4)
      by (auto simp: s1(2) split: sum.splits)
    with i' s1(1) show ?thesis
      using conc_invI [OF inv keeps_inner [OF parts(1) i'(2,3)]] parts(4) by simp
  next
    case inserts
    then obtain i buf where t: "k < length ts" "ts ! k = Loaded i buf"
      and new: "s' = s\<lparr>bf_state := insert_loaded cfg (bf_state s) i buf\<rparr>" "ts' = drop_task k ts"
      using assms(2) by (auto simp: nth_task_def split: option.splits task.splits if_splits)
    have ok: "map_of ?P i = None" "loaded_ok ?ps i buf ?C"
      using t parts(5) nth_mem [OF t(1)] by (auto simp: tasks_ok_def)
    note ins = insert_loaded_conc [OF inv ok refl]
    have "tasks_ok ?ps (bs_pages (bf_state s')) ?C ts'"
      unfolding new using ins t grows_by_task [of "{i}"] by (intro tasks_ok_drop [OF parts(5) t(1)]) auto
    then show ?thesis
      using conc_invI [OF inv keeps_state [OF parts(1) _ refl, of "insert_loaded cfg (bf_state s) i buf"]] ins
        buf_invD(1) [OF parts(1)] new by simp
  qed
qed

lemma client_step:
  assumes inv: "conc_inv cfg content binv (s, ts)" and step: "conc_step cfg B a (s, ts) = Some (s', ts')"
    and "a = ReadPage idx page_off n d \<or> a = StorePage idx page_off chunk"
  shows "conc_inv cfg content binv (s', ts') \<and>
    atomic_step (page_size cfg) a (buf_view cfg content s) = Some (buf_view cfg content s')"
proof -
  note parts = conc_inv_parts [OF inv]
  let ?P = "bs_pages (bf_state s)" and ?C = "content (bf_inner s)" and ?ps = "page_size cfg"
  from assms(3) show ?thesis
  proof
    assume a: "a = ReadPage idx page_off n d"
    define st1 where "st1 p = (bf_state s)\<lparr>bs_lru := touch (bs_lru (bf_state s)) idx (\<not> pg_dirty p)\<rparr>" for p :: page
    obtain p where p: "map_of ?P idx = Some p" and d: "d = segment page_off n (pg_data p)"
      and new: "s' = s\<lparr>bf_state := enforce_cache_limit cfg (st1 p) (Some idx)\<rparr>" "ts' = ts"
      and bounds: "page_off + n \<le> ?ps" "idx * ?ps + page_off + n \<le> length ?C"
      using step parts(2) unfolding a
      by (auto simp: read_locked_def chunk_in_def st1_def split: option.splits if_splits)
    have "st_inv cfg (st1 p) ?C"
      using buf_invD(2) [OF parts(1)] lru_ok_touch_resident [OF _ p] by (auto simp: st_inv_def st1_def)
    note limit = enforce_cache_limit_spec [OF this ps_pos, of "Some idx"] enforce_cache_limit_grows [OF this ps_pos, of "Some idx"]
    have keeps: "buf_keeps cfg content binv s s'"
      using keeps_state [OF parts(1) buf_invD(1) [OF parts(1)] refl] limit(1) unfolding new
      by (auto simp: st_keeps_def st1_def)
    have "grows_by {} (bf_state s) (bf_state s')" using limit(2) by (simp add: new grows_by_def st1_def)
    moreover from this parts(4) have "seq_ok (bf_state s')" by (auto simp: seq_ok_def grows_by_def new st1_def)
    moreover have "d = segment (idx * ?ps + page_off) n (buf_view cfg content s)"
      unfolding buf_view_def d by (rule overlay_page_segment [OF p page_inv(1) [OF parts(1) p] bounds])
    ultimately have "seq_ok (bf_state s')" "tasks_ok ?ps (bs_pages (bf_state s')) (content (bf_inner s')) ts"
      "d = segment (idx * ?ps + page_off) n (buf_view cfg content s)"
      using tasks_ok_all [OF parts(5)] grows_by_task [of "{}"] new(1) by auto
    with conc_invI [OF inv keeps] show ?thesis by (simp add: new(2) a)
  next
    assume a: "a = StorePage idx page_off chunk"
    define sq where "sq = bs_seq_counter (bf_state s) + 1"
    define p' where "p' p = p\<lparr>pg_data := overwrite page_off chunk (pg_data p), pg_dirty := True, pg_seq := sq\<rparr>" for p :: page
    obtain p where p: "map_of ?P idx = Some p"
      and new: "s' = s\<lparr>bf_state := (bf_state s)\<lparr>bs_seq_counter := sq, bs_pages := bm_insert idx (p' p) ?P,
          bs_lru := touch (bs_lru (bf_state s)) idx False, bs_last_write := Some (bf_clock s)\<rparr>\<rparr>" "ts' = ts"
      and bounds: "page_off + length chunk \<le> ?ps" "idx * ?ps + page_off + length chunk \<le> length ?C"
      using step parts(2) unfolding a
      by (auto simp: store_locked_def chunk_in_def p'_def sq_def Let_def split: option.splits if_splits)
    note len = page_inv(1) [OF parts(1) p]
    have "buf_inv cfg content binv s'"
      using buf_invD(1,2) [OF parts(1)] st_inv_store [OF buf_invD(2) [OF parts(1)] p, of "p' p" False] bounds(1) len
      by (simp add: new buf_inv_def p'_def length_overwrite)
    moreover have "buf_view cfg content s' = overwrite (idx * ?ps + page_off) chunk (buf_view cfg content s)"
      using overlay_store [OF p len bounds _ ps_pos, of "p' p"] by (simp add: buf_view_def new p'_def)
    moreover have "seq_ok (bf_state s')"
      using parts(4) by (auto simp: seq_ok_def new bmap_simps p'_def sq_def intro: le_SucI)
    moreover have "task_ok ?ps (bm_insert idx (p' p) ?P) ?C t" if "task_ok ?ps ?P ?C t" for t
    proof (cases "task_page t = idx")
      case False
      with that show ?thesis by (auto intro: task_ok_cong simp: bmap_simps)
    next
      case True
      have "pg_seq p \<le> bs_seq_counter (bf_state s)" using parts(4) p by (auto simp: seq_ok_def)
      with True that p show ?thesis by (cases t) (auto simp: bmap_simps p'_def sq_def)
    qed
    then have "tasks_ok ?ps (bs_pages (bf_state s')) ?C ts'" using tasks_ok_all [OF parts(5)] by (simp add: new)
    ultimately show ?thesis using parts(3) by (simp add: conc_inv_def new a)
  qed
qed

text \<open>A successful upload of the page as it is now brings the layer below in line with it.\<close>

lemma upload_matches:
  assumes "length d = min ps (length C - idx * ps)" and "d = take (length d) (pg_data p)"
    and "length (pg_data p) = ps" and "idx * ps + length d \<le> length C"
  shows "page_matches ps idx p (overwrite (idx * ps) d C)"
  unfolding page_matches_def
proof (intro allI impI)
  fix i assume i: "i < ps" "idx * ps + i < length (overwrite (idx * ps) d C)"
  with assms(1,4) have "i < length d" by (simp add: length_overwrite)
  then have "overwrite (idx * ps) d C ! (idx * ps + i) = d ! i" using assms(4) by (simp add: nth_overwrite)
  also have "\<dots> = pg_data p ! i" using \<open>i < length d\<close> assms(2) by (metis nth_take)
  finally show "pg_data p ! i = overwrite (idx * ps) d C ! (idx * ps + i)" by simp
qed

lemma uploads_step:
  assumes inv: "conc_inv cfg content binv (s, ts)" and step: "conc_step cfg B (FlushUploads k) (s, ts) = Some (s', ts')"
  shows "conc_inv cfg content binv (s', ts') \<and> buf_view cfg content s' = buf_view cfg content s"
proof -
  note parts = conc_inv_parts [OF inv]
  let ?P = "bs_pages (bf_state s)" and ?C = "content (bf_inner s)" and ?ps = "page_size cfg"
  obtain idx sq off d where t: "k < length ts" "ts ! k = Uploading idx sq off d"
    using step by (auto simp: nth_task_def split: option.splits task.splits if_splits)
  have ok: "task_ok ?ps ?P ?C (Uploading idx sq off d)"
    using parts(5) nth_mem [OF t(1)] unfolding t(2) tasks_ok_def by blast
  then obtain p where p: "map_of ?P idx = Some p" "pg_dirty p" "sq \<le> pg_seq p" "pg_seq p = sq \<Longrightarrow> d = take (length d) (pg_data p)"
    and off: "off = idx * ?ps" "d \<noteq> []" "length d = min ?ps (length ?C - off)" by auto
  have room: "off + length d \<le> length ?C" using off(2,3) by (cases "length ?C \<le> off") auto
  obtain u i' where w: "b_write B (bf_inner s) off d = (u, i')" by fastforce
  note law = page_write [OF buf_invD(1) [OF parts(1)] off(2) room w]
  have i': "binv i'" "u = Inr () \<Longrightarrow> content i' = overwrite off d ?C" "same_outside off (length d) ?C (content i')"
    using law same_outside_overwrite [OF room] by (blast, blast, metis)
  note frame = i'(3) [unfolded off(1)]
  have small: "length d \<le> ?ps" using off(3) by simp
  have new: "s' = s\<lparr>bf_inner := i'\<rparr>" "ts' = (case u of Inl _ \<Rightarrow> drop_task k ts | Inr _ \<Rightarrow> ts[k := Uploaded idx sq])"
    using step t w by (auto simp: nth_task_def split: sum.splits)
  have keeps: "buf_keeps cfg content binv s s'"
    unfolding new using flush_failed [OF parts(1) _ i'(1) frame small] p(1,2) by (auto simp: dirty_set_def)
  have other: "task_ok ?ps ?P (content i') t" if "task_ok ?ps ?P ?C t" "task_page t \<noteq> idx" for t
    by (rule task_ok_cong [OF that(1)])
       (use that(2) other_page_same [OF frame small] same_outside_length [OF frame] in auto)
  have "task_ok ?ps ?P (content i') (Uploaded idx sq)" if "u = Inr ()"
    using p i'(2) [OF that] upload_matches [of d ?ps ?C idx p] off room page_inv(1) [OF parts(1) p(1)] by auto
  then have "tasks_ok ?ps ?P (content i') ts'"
    unfolding new using other t(2) by (cases u) (auto intro: tasks_ok_update [OF parts(5) t(1)] tasks_ok_drop [OF parts(5) t(1)])
  then show ?thesis using conc_invI [OF inv keeps] parts(4) new by simp
qed

lemma marks_step:
  assumes inv: "conc_inv cfg content binv (s, ts)" and step: "conc_step cfg B (FlushMarks k) (s, ts) = Some (s', ts')"
  shows "conc_inv cfg content binv (s', ts') \<and> buf_view cfg content s' = buf_view cfg content s"
proof -
  note parts = conc_inv_parts [OF inv]
  let ?P = "bs_pages (bf_state s)" and ?C = "content (bf_inner s)" and ?ps = "page_size cfg"
  obtain idx sq where t: "k < length ts" "ts ! k = Uploaded idx sq"
    and new: "s' = s\<lparr>bf_state := flush_mark (bf_state s) idx sq\<rparr>" "ts' = drop_task k ts"
    using step by (auto simp: nth_task_def split: option.splits task.splits if_splits)
  have "task_ok ?ps ?P ?C (Uploaded idx sq)" using parts(5) nth_mem [OF t(1)] unfolding t(2) tasks_ok_def by blast
  then obtain p where p: "map_of ?P idx = Some p" "pg_dirty p" "pg_seq p = sq \<Longrightarrow> page_matches ?ps idx p ?C" by auto
  show ?thesis
  proof (cases "pg_seq p = sq")
    case False
    with p new have "s' = s" by (simp add: flush_mark_def)
    with new show ?thesis using inv tasks_ok_drop [OF parts(5) t(1)] by (simp add: conc_inv_def)
  next
    case True
    have match: "\<forall>i < min ?ps (length ?C - idx * ?ps). ?C ! (idx * ?ps + i) = pg_data p ! i"
      using p(3) [OF True] by (auto simp: page_matches_def)
    have keeps: "buf_keeps cfg content binv s s'"
      using flush_marked [OF parts(1) p(1,2) refl buf_invD(1) [OF parts(1)] _ match refl] True new(1)
      by (simp add: same_outside_def)
    have pages: "bs_pages (bf_state s') = bm_insert idx (p\<lparr>pg_dirty := False\<rparr>) ?P"
      using True p(1) by (simp add: new flush_mark_def)
    moreover have "bs_seq_counter (bf_state s') = bs_seq_counter (bf_state s)"
      using True p(1) by (simp add: new flush_mark_def)
    ultimately have "seq_ok (bf_state s')" using parts(4) p(1) by (auto simp: seq_ok_def bmap_simps)
    moreover have "tasks_ok ?ps (bm_insert idx (p\<lparr>pg_dirty := False\<rparr>) ?P) ?C (drop_task k ts)"
      using t by (intro tasks_ok_drop [OF parts(5) t(1)]) (auto intro: task_ok_cong simp: bmap_simps)
    ultimately show ?thesis using conc_invI [OF inv keeps] pages new by simp
  qed
qed

lemma snapshot_step:
  assumes inv: "conc_inv cfg content binv (s, ts)" and step: "conc_step cfg B (FlushSnapshot idx) (s, ts) = Some (s', ts')"
    and apart: "apart (FlushSnapshot idx) ts"
  shows "conc_inv cfg content binv (s', ts') \<and> buf_view cfg content s' = buf_view cfg content s"
proof -
  note parts = conc_inv_parts [OF inv]
  let ?P = "bs_pages (bf_state s)" and ?C = "content (bf_inner s)" and ?ps = "page_size cfg"
  define n where "n = min ?ps (length ?C - idx * ?ps)"
  obtain p where p: "map_of ?P idx = Some p" "pg_dirty p"
    using step by (auto simp: flush_snapshot_def split: option.splits if_splits)
  have new: "s' = s" "ts' = (if 0 < n then Uploading idx (pg_seq p) (idx * ?ps) (take n (pg_data p)) else Uploaded idx (pg_seq p)) # ts"
    using step flush_snapshot_dirty [OF parts(1) p] by (auto simp: n_def)
  have len: "length (pg_data p) = ?ps" by (rule page_inv(1) [OF parts(1) p(1)])
  have "task_ok ?ps ?P ?C (hd ts')"
    using p len ps_pos by (auto simp: new n_def page_matches_def min_def split: if_splits)
  moreover have "task_page t \<noteq> idx" if "t \<in> set ts" for t
    using that apart p(1) parts(5) task_kind [of ?ps ?P ?C t] by (auto simp: tasks_ok_def list_all_iff)
  ultimately show ?thesis using inv by (auto simp: new conc_inv_def tasks_ok_def split: if_splits)
qed

lemma abandon_step:
  assumes "conc_inv cfg content binv (s, ts)" and "conc_step cfg B (Abandon k) (s, ts) = Some (s', ts')"
  shows "conc_inv cfg content binv (s', ts') \<and> buf_view cfg content s' = buf_view cfg content s"
  using assms tasks_ok_drop [of "page_size cfg" "bs_pages (bf_state s)" "content (bf_inner s)" ts k]
  by (auto simp: conc_inv_def split: if_splits)

lemma conc_step_atomic:
  assumes "conc_inv cfg content binv c" and "conc_step cfg B a c = Some c'" and "apart a (snd c)"
  shows "conc_inv cfg content binv c' \<and>
    atomic_step (page_size cfg) a (buf_view cfg content (fst c)) = Some (buf_view cfg content (fst c'))"
proof -
  obtain s ts s' ts' where c: "c = (s, ts)" "c' = (s', ts')" by fastforce
  note A = assms(1,2) [unfolded c]
  show ?thesis
  proof (cases a)
    case (FetchPage idx) with fetch_step [OF A] assms(3) c show ?thesis by simp
  next
    case (FetchArrives k) with fetch_step [OF A] c show ?thesis by simp
  next
    case (FetchInserts k) with fetch_step [OF A] c show ?thesis by simp
  next
    case (ReadPage idx page_off n d) with client_step [OF A] c show ?thesis by simp
  next
    case (StorePage idx page_off chunk) with client_step [OF A] c show ?thesis by simp
  next
    case (FlushSnapshot idx) with snapshot_step [OF A(1)] A(2) assms(3) c show ?thesis by simp
  next
    case (FlushUploads k) with uploads_step [OF A(1)] A(2) c show ?thesis by simp
  next
    case (FlushMarks k) with marks_step [OF A(1)] A(2) c show ?thesis by simp
  next
    case (Abandon k) with abandon_step [OF A(1)] A(2) c show ?thesis by simp
  qed
qed

lemma conc_run_atomic:
  assumes "conc_inv cfg content binv c" and "conc_run True cfg B acts c = Some c'"
  shows "conc_inv cfg content binv c' \<and>
    atomic_run (page_size cfg) acts (buf_view cfg content (fst c)) = Some (buf_view cfg content (fst c'))"
  using assms
proof (induction acts arbitrary: c)
  case (Cons a acts)
  then obtain c1 where "conc_step cfg B a c = Some c1" "apart a (snd c)" "conc_run True cfg B acts c1 = Some c'"
    by (auto split: if_splits option.splits)
  with Cons.IH [of c1] conc_step_atomic [OF Cons.prems(1)] show ?case by auto
qed simp

end

text \<open>
  C7: The buffer under concurrency is an atomic device. Reads and writes of chunks, loads, evictions, snapshots,
  uploads and their completions may interleave in any order, uploads may fail or be abandoned at any point, and
  pages may be written while they are uploaded: as long as no page is loaded twice or flushed twice at the same
  time, every chunk is read or written at one instant, nothing else is visible, and when no page
  is dirty the layer below holds exactly what the clients see.
\<close>

theorem concurrent_chunks_atomic:
  assumes "page_store B content durable binv" and "buf_config_ok cfg"
    and "conc_inv cfg content binv c" and "conc_run True cfg B acts c = Some c'"
  shows "atomic_run (page_size cfg) acts (buf_view cfg content (fst c)) = Some (buf_view cfg content (fst c')) \<and>
    conc_inv cfg content binv c' \<and>
    (dirty_set (bs_pages (bf_state (fst c'))) = {} \<longrightarrow> content (bf_inner (fst c')) = buf_view cfg content (fst c'))"
proof -
  have run: "conc_inv cfg content binv c'"
    "atomic_run (page_size cfg) acts (buf_view cfg content (fst c)) = Some (buf_view cfg content (fst c'))"
    using buffered_layer.conc_run_atomic [OF buffered_layerI [OF assms(1,2)] assms(3,4)] by auto
  moreover have "0 < page_size cfg" using assms(2) by (auto simp: buf_config_ok_def)
  ultimately show ?thesis
    using overlay_all_clean [of "page_size cfg" "bs_pages (bf_state (fst c'))" "content (bf_inner (fst c'))"]
    by (auto simp: conc_inv_def buf_inv_def st_inv_def buf_view_def)
qed

text \<open>A one-page device whose size is known.\<close>

definition one_page :: "mem_state buffered" where
  "one_page = \<lparr>bf_inner = \<lparr>mem_data = zeros 512, mem_poisoned = False\<rparr>,
     bf_state = buf_state_init\<lparr>bs_dev_size := 512\<rparr>, bf_clock = 0, bf_upload_secs = []\<rparr>"

lemma one_page_inv: "conc_inv tiny_cfg mem_data mem_inv (one_page, [])"
  using lru_ok_clear [of lru_default]
  by (simp add: conc_inv_def one_page_def buf_inv_def st_inv_def buf_state_init_def pages_ok_def lru_clear_def
      lru_default_def mem_inv_def u64_limit_def seq_ok_def tasks_ok_def)

text \<open>
  The two orders of the same sections. Page 0 is written with \<open>a\<close>, its flush begins, and it is written with
  \<open>b\<close> before the upload has taken effect.
\<close>

definition written_during_flush :: "bytes \<Rightarrow> bytes \<Rightarrow> buf_action list" where
  "written_during_flush a b =
     [FetchPage 0, FetchArrives 0, FetchInserts 0, StorePage 0 0 a, FlushSnapshot 0, StorePage 0 0 b]"

lemmas one_page_simps =
  one_page_def written_during_flush_def buf_state_init_def load_page_def insert_loaded_def store_locked_def
  flush_snapshot_def flush_mark_def nth_task_def drop_task_def chunk_in_def mem_backend_def mem_read_def mem_write_def
  check_alignment_def mem_lock_def wrapping_add_def u64_limit_def enforce_cache_limit_def evict_loop.simps
  is_multiple_of_def is_load_def bm_contains_def

lemma overwrite_all: "length a = length xs \<Longrightarrow> overwrite 0 a xs = a"
  by (simp add: overwrite_def)

lemma overlay_single: "length C = ps \<Longrightarrow> length (pg_data p) = ps \<Longrightarrow> overlay ps [(0, p)] C = pg_data p"
  by (rule nth_equalityI) (auto simp: nth_overlay)

theorem concurrent_chunks_atomic_witness:
  "\<exists>s. conc_run True tiny_cfg mem_backend
        (written_during_flush (replicate 512 1) (replicate 512 2) @
           [FlushUploads 0, FlushMarks 0, FlushSnapshot 0, FlushUploads 0, FlushMarks 0]) (one_page, []) = Some (s, []) \<and>
      buf_view tiny_cfg mem_data s = replicate 512 2 \<and> mem_data (bf_inner s) = replicate 512 2"
proof -
  let ?acts = "written_during_flush (replicate 512 1) (replicate 512 2) @
     [FlushUploads 0, FlushMarks 0, FlushSnapshot 0, FlushUploads 0, FlushMarks 0]"
  obtain s where run: "conc_run True tiny_cfg mem_backend ?acts (one_page, []) = Some (s, [])"
    and clean: "dirty_set (bs_pages (bf_state s)) = {}"
    by (simp add: one_page_simps overwrite_all segment_all Let_def buf_simps dirty_set_def)
  note dev = concurrent_chunks_atomic [OF mem.page_store_axioms tiny_cfg_ok one_page_inv run]
  have "buf_view tiny_cfg mem_data one_page = zeros 512" by (simp add: one_page_def buf_view_def buf_state_init_def)
  then have "buf_view tiny_cfg mem_data s = replicate 512 2"
    using dev by (simp add: written_during_flush_def overwrite_all)
  with run dev clean show ?thesis by auto
qed

text \<open>
  Two flushes of one page at the same time lose a write: both take their bytes, the newer ones arrive first, and the
  completion of the newer flush marks the page clean while the layer below holds the older bytes.
\<close>

theorem overlapping_flushes_lose_write:
  assumes "length a = 512" and "length b = 512"
  shows "\<exists>s. conc_run False tiny_cfg mem_backend
        (written_during_flush a b @ [FlushSnapshot 0, FlushUploads 0, FlushUploads 1, FlushMarks 0, FlushMarks 0])
        (one_page, []) = Some (s, []) \<and>
      dirty_set (bs_pages (bf_state s)) = {} \<and> buf_view tiny_cfg mem_data s = b \<and> mem_data (bf_inner s) = a"
  using assms
  by (simp add: one_page_simps overwrite_all segment_all Let_def buf_simps dirty_set_def buf_view_def overlay_single)

text \<open>
  Two loads of one page at the same time bring back old bytes: the page is loaded, written, flushed and evicted
  while the other load, which read before the write, has not been inserted yet. Its insertion then shows the
  device as it was before a write that had been acknowledged and flushed.
\<close>

definition two_page_buf :: "mem_state buffered" where
  "two_page_buf = one_page\<lparr>bf_inner := tiny_mem, bf_state := buf_state_init\<lparr>bs_dev_size := 1024\<rparr>\<rparr>"


theorem overlapping_loads_read_stale:
  assumes "length a = 512"
  shows "\<exists>s. conc_run False tiny_cfg mem_backend
        [FetchPage 0, FetchPage 0, FetchArrives 0, FetchArrives 1, FetchInserts 0, StorePage 0 0 a,
         FlushSnapshot 0, FlushUploads 0, FlushMarks 0, FetchPage 1, FetchArrives 0, FetchInserts 0, FetchInserts 0,
         ReadPage 0 0 512 (zeros 512)] (two_page_buf, []) = Some (s, []) \<and> mem_data (bf_inner s) = overwrite 0 a (zeros 1024)"
  using assms
  by (simp add: two_page_buf_def one_page_simps overwrite_all segment_all Let_def buf_simps read_locked_def touch_def pop_lru_def
     lru_default_def bm_remove_def)
end
