(* ===== verification/Buffered_Durable.thy ===== *)
theory Buffered_Durable
  imports Buffered_Conc
begin

text \<open>
  What a flush of the write-back buffer gives while other requests go on (\<open>flush\<close> and \<open>flush_indices\<close> of
  \<open>backend/buffered.rs\<close>): a client that writes, then flushes, finds its bytes in the layer below, or newer ones, whatever
  is written during the flush.
\<close>

section \<open>One page during a flush\<close>

text \<open>
  How far a flush has come with a page: it waits for its turn, its bytes were taken, or it is safe below. A page that is
  seen clean is safe; an upload that fails may leave the page below in any state.
\<close>

datatype flush_progress =
    PageWaits
  | PageTaken
  | PageSafe

definition page_dirty :: "buf_state \<Rightarrow> nat \<Rightarrow> bool" where
  "page_dirty st k = (case bm_get (bs_pages st) k of Some p \<Rightarrow> pg_dirty p | None \<Rightarrow> False)"

definition uploaded :: "nat \<Rightarrow> task list \<Rightarrow> bool" where
  "uploaded k ts = list_ex (\<lambda>t. case t of Uploaded i _ \<Rightarrow> i = k | _ \<Rightarrow> False) ts"

definition page_progress ::
  "nat \<Rightarrow> buf_action \<Rightarrow> task list \<Rightarrow> 's buffered \<times> task list \<Rightarrow> flush_progress \<Rightarrow> flush_progress" where
  "page_progress k a ts c' m =
     (if \<not> page_dirty (bf_state (fst c')) k then PageSafe
      else
        (case a of
           FlushSnapshot j \<Rightarrow> if j = k \<and> m = PageWaits then PageTaken else m
         | FlushUploads i \<Rightarrow>
             (case nth_task ts i of
                Some (Uploading j _ _ _) \<Rightarrow>
                  if j \<noteq> k then m
                  else if \<not> uploaded k (snd c') \<or> m = PageWaits then PageWaits else PageSafe
              | _ \<Rightarrow> m)
         | _ \<Rightarrow> m))"

fun flush_of_page ::
  "buf_config \<Rightarrow> 's backend \<Rightarrow> nat \<Rightarrow> buf_action list \<Rightarrow> 's buffered \<times> task list \<Rightarrow> flush_progress \<Rightarrow> flush_progress" where
  "flush_of_page cfg B k [] c m = m"
| "flush_of_page cfg B k (a # as) c m =
     (case conc_step cfg B a c of
        None \<Rightarrow> m
      | Some c' \<Rightarrow> flush_of_page cfg B k as c' (page_progress k a (snd c) c' m))"

text \<open>
  Page \<open>k\<close> is safe after the run: it was clean at the beginning or a flush that began there has dealt with it, and no
  upload of it failed afterwards.
\<close>

definition flushed :: "buf_config \<Rightarrow> 's backend \<Rightarrow> buf_action list \<Rightarrow> 's buffered \<times> task list \<Rightarrow> nat \<Rightarrow> bool" where
  "flushed cfg B acts c k \<longleftrightarrow>
     flush_of_page cfg B k acts c (if page_dirty (bf_state (fst c)) k then PageWaits else PageSafe) = PageSafe"

text \<open>What clients see from the beginning to the end of a run.\<close>

fun run_views :: "buf_config \<Rightarrow> ('s \<Rightarrow> bytes) \<Rightarrow> 's backend \<Rightarrow> buf_action list \<Rightarrow> 's buffered \<times> task list \<Rightarrow> bytes list" where
  "run_views cfg content B [] c = [buf_view cfg content (fst c)]"
| "run_views cfg content B (a # as) c =
     buf_view cfg content (fst c) #
       (case conc_step cfg B a c of None \<Rightarrow> [] | Some c' \<Rightarrow> run_views cfg content B as c')"

definition page_bytes :: "nat \<Rightarrow> nat \<Rightarrow> bytes \<Rightarrow> bytes" where
  "page_bytes ps k C = segment (k * ps) ps C"

section \<open>Pages below and pages seen\<close>

lemma page_bytes_eqI:
  assumes "length C' = length C" and "\<And>i. i < ps \<Longrightarrow> k * ps + i < length C \<Longrightarrow> C' ! (k * ps + i) = C ! (k * ps + i)"
  shows "page_bytes ps k C' = page_bytes ps k C"
  unfolding page_bytes_def
  by (rule nth_equalityI) (use assms in \<open>auto simp: segment_def\<close>)

lemma page_bytes_clean:
  assumes "0 < ps" and "pages_ok ps P C" and "k \<notin> dirty_set P"
  shows "page_bytes ps k C = page_bytes ps k (overlay ps P C)"
proof (rule page_bytes_eqI)
  fix i assume i: "i < ps" "k * ps + i < length (overlay ps P C)"
  then have "(k * ps + i) div ps = k" "(k * ps + i) mod ps = i" by (simp_all add: page_of_range)
  moreover have "pg_data p ! i = C ! (k * ps + i)" if "map_of P k = Some p" for p
    using that assms(2,3) i pages_okD(2) [OF assms(2) that] by (auto simp: dirty_set_def page_matches_def)
  ultimately show "C ! (k * ps + i) = overlay ps P C ! (k * ps + i)"
    using i by (simp add: nth_overlay split: option.splits)
qed simp

lemma page_bytes_resident:
  assumes "map_of P k = Some p" and "length (pg_data p) = ps" and "n = min ps (length C - k * ps)"
  shows "take n (pg_data p) = page_bytes ps k (overlay ps P C)"
proof (cases "k * ps \<le> length C")
  case True
  have "take n (pg_data p) = segment 0 n (pg_data p)" by (simp add: segment_def)
  also have "\<dots> = segment (k * ps + 0) n (overlay ps P C)"
    using assms True by (intro overlay_page_segment) auto
  also have "\<dots> = page_bytes ps k (overlay ps P C)"
    by (simp add: page_bytes_def segment_def assms(3) min_def)
  finally show ?thesis .
next
  case False
  with assms(3) show ?thesis by (simp add: page_bytes_def segment_def)
qed

lemma page_bytes_written:
  assumes "length d = min ps (length C - k * ps)" and "k * ps + length d \<le> length C"
  shows "page_bytes ps k (overwrite (k * ps) d C) = d"
proof -
  have "page_bytes ps k (overwrite (k * ps) d C) = segment (k * ps) (length d) (overwrite (k * ps) d C)"
    using assms by (simp add: page_bytes_def segment_def length_overwrite min_def)
  then show ?thesis using assms(2) by (simp add: segment_overwrite_same)
qed

lemma uploaded_task:
  assumes "uploaded k ts" shows "\<exists>t \<in> set ts. task_page t = k"
proof -
  obtain t where "t \<in> set ts" "case t of Uploaded i _ \<Rightarrow> i = k | _ \<Rightarrow> False"
    using assms by (auto simp: uploaded_def list_ex_iff)
  then show ?thesis by - (cases t; force)
qed

lemma page_dirty_iff: "page_dirty st k \<longleftrightarrow> k \<in> dirty_set (bs_pages st)"
  by (auto simp: page_dirty_def dirty_set_def split: option.splits)

section \<open>The progress is right\<close>

text \<open>Bytes of page \<open>k\<close> that some client saw since the flush began.\<close>

definition seen_page :: "nat \<Rightarrow> nat \<Rightarrow> bytes list \<Rightarrow> bytes \<Rightarrow> bool" where
  "seen_page ps k Vs d \<longleftrightarrow> (\<exists>V \<in> set Vs. d = page_bytes ps k V)"

definition progress_ok ::
  "nat \<Rightarrow> nat \<Rightarrow> bytes list \<Rightarrow> flush_progress \<Rightarrow> bytes \<Rightarrow> task list \<Rightarrow> bool" where
  "progress_ok ps k Vs m C ts \<longleftrightarrow>
     (m \<noteq> PageWaits \<longrightarrow> (\<forall>sq off d. Uploading k sq off d \<in> set ts \<longrightarrow> seen_page ps k Vs d)) \<and>
     (m = PageSafe \<longrightarrow> seen_page ps k Vs (page_bytes ps k C))"

lemma progress_ok_later:
  "progress_ok ps k Vs m C ts \<Longrightarrow> set Vs \<subseteq> set Vs' \<Longrightarrow> page_bytes ps k C' = page_bytes ps k C \<Longrightarrow>
   (\<And>sq off d. Uploading k sq off d \<in> set ts' \<Longrightarrow> Uploading k sq off d \<in> set ts) \<Longrightarrow> progress_ok ps k Vs' m C' ts'"
  by (fastforce simp: progress_ok_def seen_page_def)

context buffered_layer
begin

text \<open>Only the sections of page flushes touch the layer below or begin an upload.\<close>

lemma quiet_step:
  assumes inv: "conc_inv cfg content binv (s, ts)" and step: "conc_step cfg B a (s, ts) = Some (s', ts')"
    and "\<And>j. a \<noteq> FlushSnapshot j" and "\<And>i. a \<noteq> FlushUploads i"
  shows "content (bf_inner s') = content (bf_inner s)" "Uploading k sq off d \<in> set ts' \<Longrightarrow> Uploading k sq off d \<in> set ts"
proof -
  note parts = conc_inv_parts [OF inv]
  have dropped: "Uploading k sq off d \<in> set ts" if "Uploading k sq off d \<in> set (drop_task i ts)" for i
    using that set_drop_task by blast
  have loaded: "Uploading k sq off d \<in> set ts" if "Uploading k sq off d \<in> set (ts[i := Loaded j buf])" for i j buf
    using that set_update_subset_insert by fastforce
  have load: "content (bf_inner s1) = content (bf_inner s)"
    if "i < length ts" "ts ! i = Loading j" "load_page cfg B j (bs_dev_size (bf_state s)) s = (r, s1)" for i j r s1
  proof -
    have "j * page_size cfg < bs_dev_size (bf_state s)"
      using that nth_mem [OF that(1)] parts(2,5) by (auto simp: tasks_ok_def)
    from load_page_spec [OF parts(1,3) this that(3)] show ?thesis by auto
  qed
  show "content (bf_inner s') = content (bf_inner s)"
    using assms(2-4) load
    by (cases a) (auto simp: nth_task_def split: option.splits if_splits prod.splits sum.splits task.splits)
  show "Uploading k sq off d \<in> set ts" if "Uploading k sq off d \<in> set ts'"
    using that assms(2-4) dropped loaded
    by (cases a) (auto simp: nth_task_def split: option.splits if_splits prod.splits sum.splits task.splits)
qed

lemma clean_page_safe:
  assumes "conc_inv cfg content binv (s, ts)" and "\<not> page_dirty (bf_state s) k" and "buf_view cfg content s \<in> set Vs"
  shows "progress_ok (page_size cfg) k Vs m (content (bf_inner s)) ts"
proof -
  note parts = conc_inv_parts [OF assms(1)]
  have "Uploading k sq off d \<notin> set ts" for sq off d
  proof
    assume "Uploading k sq off d \<in> set ts"
    then have "task_ok (page_size cfg) (bs_pages (bf_state s)) (content (bf_inner s)) (Uploading k sq off d)"
      using parts(5) unfolding tasks_ok_def by blast
    with assms(2) show False by (auto simp: page_dirty_def)
  qed
  moreover have "page_bytes (page_size cfg) k (content (bf_inner s)) = page_bytes (page_size cfg) k (buf_view cfg content s)"
    using page_bytes_clean [OF ps_pos] buf_invD(2) [OF parts(1)] assms(2)
    by (simp add: st_inv_def buf_view_def page_dirty_iff)
  ultimately show ?thesis using assms(3) by (auto simp: progress_ok_def seen_page_def)
qed

lemma snapshot_progress:
  assumes inv: "conc_inv cfg content binv (s, ts)" and step: "conc_step cfg B (FlushSnapshot j) (s, ts) = Some (s', ts')"
    and inv': "conc_inv cfg content binv (s', ts')" and ok: "progress_ok (page_size cfg) k Vs m (content (bf_inner s)) ts"
    and Vs': "set Vs \<subseteq> set Vs'" "buf_view cfg content s' \<in> set Vs'"
    and m': "m' = (if j = k \<and> m = PageWaits then PageTaken else m)"
  shows "progress_ok (page_size cfg) k Vs' m' (content (bf_inner s')) ts'"
proof -
  note parts = conc_inv_parts [OF inv]
  let ?C = "content (bf_inner s)" and ?ps = "page_size cfg"
  define n where "n = min ?ps (length ?C - j * ?ps)"
  obtain p where p: "map_of (bs_pages (bf_state s)) j = Some p" "pg_dirty p"
    using step by (auto simp: flush_snapshot_def split: option.splits if_splits)
  have new: "s' = s" "ts' = (if 0 < n then Uploading j (pg_seq p) (j * ?ps) (take n (pg_data p)) else Uploaded j (pg_seq p)) # ts"
    using step flush_snapshot_dirty [OF parts(1) p] by (auto simp: n_def)
  have other: "task_page t \<noteq> j" if "t \<in> set ts" for t
    using conc_inv_parts(5) [OF inv'] that by (auto simp: new tasks_ok_def split: if_splits)
  have "take n (pg_data p) = page_bytes ?ps j (buf_view cfg content s)"
    unfolding buf_view_def by (rule page_bytes_resident [OF p(1) page_inv(1) [OF parts(1) p(1)] n_def])
  then have taken: "seen_page ?ps j Vs' (take n (pg_data p))" using Vs'(2) by (auto simp: seen_page_def new)
  have "seen_page ?ps k Vs' d" if "Uploading k sq off d \<in> set ts'" "m' \<noteq> PageWaits" for sq off d
  proof (cases "j = k")
    case True
    with that(1) other have "d = take n (pg_data p)" by (fastforce simp: new split: if_splits)
    with taken True show ?thesis by simp
  next
    case False
    with that m' have "Uploading k sq off d \<in> set ts" "m \<noteq> PageWaits" by (auto simp: new split: if_splits)
    with ok Vs'(1) show ?thesis by (fastforce simp: progress_ok_def seen_page_def)
  qed
  moreover have "m = PageSafe" if "m' = PageSafe" using that by (auto simp: m' split: if_splits)
  ultimately show ?thesis using ok Vs'(1) new(1) by (fastforce simp: progress_ok_def seen_page_def)
qed

lemma upload_progress:
  assumes inv: "conc_inv cfg content binv (s, ts)" and step: "conc_step cfg B (FlushUploads i) (s, ts) = Some (s', ts')"
    and inv': "conc_inv cfg content binv (s', ts')" and ok: "progress_ok (page_size cfg) k Vs m (content (bf_inner s)) ts"
    and Vs': "set Vs \<subseteq> set Vs'" and dirty: "page_dirty (bf_state s') k"
  shows "progress_ok (page_size cfg) k Vs' (page_progress k (FlushUploads i) ts (s', ts') m) (content (bf_inner s')) ts'"
proof -
  note parts = conc_inv_parts [OF inv]
  let ?C = "content (bf_inner s)" and ?ps = "page_size cfg"
  obtain j sq off d where t: "i < length ts" "ts ! i = Uploading j sq off d"
    using step by (auto simp: nth_task_def split: option.splits task.splits if_splits)
  have "task_ok ?ps (bs_pages (bf_state s)) ?C (Uploading j sq off d)"
    using parts(5) nth_mem [OF t(1)] unfolding t(2) tasks_ok_def by blast
  then have off: "off = j * ?ps" "d \<noteq> []" "length d = min ?ps (length ?C - off)" by auto
  have room: "off + length d \<le> length ?C" using off(2,3) by (cases "length ?C \<le> off") auto
  obtain u i' where w: "b_write B (bf_inner s) off d = (u, i')" by fastforce
  note law = page_write [OF buf_invD(1) [OF parts(1)] off(2) room w]
  have frame: "same_outside off (length d) ?C (content i')" using law same_outside_overwrite [OF room] by metis
  have new: "s' = s\<lparr>bf_inner := i'\<rparr>" "ts' = (case u of Inl _ \<Rightarrow> drop_task i ts | Inr _ \<Rightarrow> ts[i := Uploaded j sq])"
    using step t w by (auto simp: nth_task_def split: sum.splits)
  have kept: "Uploading k sq' off' d' \<in> set ts" if "Uploading k sq' off' d' \<in> set ts'" for sq' off' d'
    using that set_drop_task [of i ts] set_update_subset_insert [of ts i "Uploaded j sq"] by (auto simp: new split: sum.splits)
  show ?thesis
  proof (cases "j = k")
    case False
    have "page_bytes ?ps k (content i') = page_bytes ?ps k ?C"
      using other_page_same [OF frame [unfolded off(1)]] off(3) False same_outside_length [OF frame]
      by (intro page_bytes_eqI) auto
    with False dirty t kept show ?thesis
      by (auto simp: page_progress_def nth_task_def new(1) intro: progress_ok_later [OF ok Vs'])
  next
    case True
    show ?thesis
    proof (cases "uploaded k ts' \<and> m \<noteq> PageWaits")
      case False
      with True dirty t show ?thesis by (auto simp: page_progress_def nth_task_def progress_ok_def)
    next
      case safe: True
      have u: "u = Inr ()"
      proof (rule ccontr)
        assume "u \<noteq> Inr ()"
        then have "ts' = drop_task i ts" using new(2) by (cases u) auto
        then have "task_page x \<noteq> k" if "x \<in> set ts'" for x
          using drop_task_other [OF _ t(1)] parts(5) that t(2) True by (auto simp: tasks_ok_def)
        with safe uploaded_task show False by blast
      qed
      have "page_bytes ?ps k (content i') = d"
        using law u page_bytes_written [of d ?ps ?C k] off room True by simp
      moreover have "seen_page ?ps k Vs d" using ok safe nth_mem [OF t(1)] unfolding t(2) True progress_ok_def by blast
      ultimately have "progress_ok ?ps k Vs' PageSafe (content i') ts'"
        using ok safe kept Vs' unfolding progress_ok_def seen_page_def by blast
      with True dirty t safe show ?thesis by (simp add: page_progress_def nth_task_def new(1))
    qed
  qed
qed

lemma step_progress:
  assumes inv: "conc_inv cfg content binv c" and step: "conc_step cfg B a c = Some c'" and "apart a (snd c)"
    and ok: "progress_ok (page_size cfg) k Vs m (content (bf_inner (fst c))) (snd c)"
    and Vs': "set Vs \<subseteq> set Vs'" "buf_view cfg content (fst c') \<in> set Vs'"
  shows "progress_ok (page_size cfg) k Vs' (page_progress k a (snd c) c' m) (content (bf_inner (fst c'))) (snd c')"
proof -
  obtain s ts s' ts' where c: "c = (s, ts)" "c' = (s', ts')" by fastforce
  have inv': "conc_inv cfg content binv (s', ts')" using conc_step_atomic [OF assms(1-3)] c by simp
  show ?thesis
  proof (cases "page_dirty (bf_state s') k")
    case False
    with clean_page_safe [OF inv' False] Vs'(2) c show ?thesis by (simp add: page_progress_def)
  next
    case dirty: True
    note A = inv [unfolded c] step [unfolded c]
    consider (snap) j where "a = FlushSnapshot j" | (up) i where "a = FlushUploads i"
      | (quiet) "\<And>j. a \<noteq> FlushSnapshot j" "\<And>i. a \<noteq> FlushUploads i" by blast
    then show ?thesis
    proof cases
      case snap
      with snapshot_progress [OF A(1) _ inv' _ Vs'(1) _ refl] A(2) ok Vs'(2) dirty c show ?thesis by (simp add: page_progress_def)
    next
      case up
      with upload_progress [OF A(1) _ inv' _ Vs'(1) dirty] A(2) ok c show ?thesis by simp
    next
      case quiet
      have "page_progress k a ts (s', ts') m = m" using quiet dirty by (cases a) (auto simp: page_progress_def)
      with quiet_step [OF A quiet] progress_ok_later [OF ok Vs'(1)] c show ?thesis by auto
    qed
  qed
qed

lemma run_progress:
  assumes "conc_inv cfg content binv c" and "conc_run True cfg B acts c = Some c'"
    and "progress_ok (page_size cfg) k Vs m (content (bf_inner (fst c))) (snd c)"
    and "set Vs \<union> set (run_views cfg content B acts c) \<subseteq> set Ws"
  shows "progress_ok (page_size cfg) k Ws (flush_of_page cfg B k acts c m) (content (bf_inner (fst c'))) (snd c')"
  using assms
proof (induction acts arbitrary: c Vs m)
  case Nil
  then show ?case by (auto intro: progress_ok_later)
next
  case (Cons a acts)
  then obtain c1 where c1: "conc_step cfg B a c = Some c1" "apart a (snd c)" "conc_run True cfg B acts c1 = Some c'"
    by (auto split: if_splits option.splits)
  have views: "set (run_views cfg content B acts c1) \<subseteq> set Ws" using Cons.prems(4) c1(1) by simp
  moreover have "buf_view cfg content (fst c1) \<in> set (run_views cfg content B acts c1)" by (cases acts) simp_all
  ultimately have "progress_ok (page_size cfg) k Ws (page_progress k a (snd c) c1 m) (content (bf_inner (fst c1))) (snd c1)"
    using Cons.prems(4) by (intro step_progress [OF Cons.prems(1) c1(1,2) Cons.prems(3)]) auto
  from Cons.IH [OF _ c1(3) this] conc_step_atomic [OF Cons.prems(1) c1(1,2)] views c1(1) show ?case by simp
qed

end

text \<open>
  C8: A flush is durable while others write. Take any interleaving of requests, loads, evictions and page flushes, some of
  which may fail, in which no page is loaded or flushed twice at the same time. A page that was clean at the beginning, or
  was found clean or uploaded from bytes taken since then, and whose later uploads succeeded, holds below what clients
  saw at the beginning or later: nothing that was written before the flush is missing. When the layer below then flushes
  with success, this is durable.
\<close>

theorem concurrent_flush_durable:
  assumes "page_store B content durable binv" and "buf_config_ok cfg"
    and "conc_inv cfg content binv c" and "conc_run True cfg B acts c = Some c'" and "flushed cfg B acts c k"
    and "b_flush B (bf_inner (fst c')) = (Inr (), i')"
  shows "\<exists>V \<in> set (run_views cfg content B acts c).
      page_bytes (page_size cfg) k (content (bf_inner (fst c'))) = page_bytes (page_size cfg) k V \<and>
      page_bytes (page_size cfg) k (durable i') = page_bytes (page_size cfg) k V"
proof -
  obtain s ts where c: "c = (s, ts)" by fastforce
  let ?Vs = "run_views cfg content B acts c" and ?m = "if page_dirty (bf_state (fst c)) k then PageWaits else PageSafe"
  note layer = buffered_layerI [OF assms(1,2)]
  have "buf_view cfg content s \<in> set ?Vs" by (cases acts) (simp_all add: c)
  then have "progress_ok (page_size cfg) k ?Vs ?m (content (bf_inner (fst c))) (snd c)"
    using buffered_layer.clean_page_safe [OF layer assms(3) [unfolded c], of k ?Vs PageSafe]
    by (auto simp: c progress_ok_def)
  from buffered_layer.run_progress [OF layer assms(3,4) this, of ?Vs] assms(5)
  have "seen_page (page_size cfg) k ?Vs (page_bytes (page_size cfg) k (content (bf_inner (fst c'))))"
    by (simp add: flushed_def progress_ok_def)
  moreover have "binv (bf_inner (fst c'))"
    using buffered_layer.conc_run_atomic [OF layer assms(3,4)] by (simp add: conc_inv_def buf_inv_def)
  from page_store.flush_law [OF assms(1) this assms(6)] have "durable i' = content (bf_inner (fst c'))" by simp
  ultimately show ?thesis by (auto simp: seen_page_def)
qed

text \<open>A page that is written again while its flush uploads it: the flush ends with the page dirty, and the write before it is safe.\<close>

definition stored_run :: "bytes \<Rightarrow> buf_action list" where
  "stored_run a = [FetchPage 0, FetchArrives 0, FetchInserts 0, StorePage 0 0 a]"

definition flush_beside :: "bytes \<Rightarrow> buf_action list" where
  "flush_beside b = [FlushSnapshot 0, StorePage 0 0 b, FlushUploads 0, FlushMarks 0]"

theorem concurrent_flush_durable_witness:
  "\<exists>s s'. conc_run True tiny_cfg mem_backend (stored_run (replicate 512 1)) (one_page, []) = Some (s, []) \<and>
     conc_run True tiny_cfg mem_backend (flush_beside (replicate 512 2)) (s, []) = Some (s', []) \<and>
     page_dirty (bf_state s) 0 \<and> page_dirty (bf_state s') 0 \<and> mem_data (bf_inner s') = replicate 512 1 \<and>
     (\<exists>V \<in> set (run_views tiny_cfg mem_data mem_backend (flush_beside (replicate 512 2)) (s, [])).
        page_bytes 512 0 (mem_data (bf_inner s')) = page_bytes 512 0 V)"
proof -
  let ?b = "flush_beside (replicate 512 2)"
  obtain s s' where s: "conc_run True tiny_cfg mem_backend (stored_run (replicate 512 1)) (one_page, []) = Some (s, [])"
    and s': "conc_run True tiny_cfg mem_backend ?b (s, []) = Some (s', [])"
    and dirty: "page_dirty (bf_state s) 0" "page_dirty (bf_state s') 0"
    and blob: "mem_data (bf_inner s') = replicate 512 1" and safe: "flushed tiny_cfg mem_backend ?b (s, []) 0"
    and flush: "b_flush mem_backend (bf_inner s') = (Inr (), bf_inner s')"
    by (simp add: stored_run_def flush_beside_def one_page_simps overwrite_all segment_all Let_def buf_simps flushed_def page_dirty_def
        page_progress_def uploaded_def mem_flush_def)
  have inv: "conc_inv tiny_cfg mem_data mem_inv (s, [])"
    using buffered_layer.conc_run_atomic [OF buffered_layerI [OF mem.page_store_axioms tiny_cfg_ok] one_page_inv s] by simp
  from concurrent_flush_durable [OF mem.page_store_axioms tiny_cfg_ok inv s' safe, unfolded fst_conv, OF flush]
  show ?thesis using s s' dirty blob by auto
qed

end
