(* ===== verification/Bench.thy ===== *)
theory Bench
  imports Blob_Backend Mem_Backend "HOL-Library.Multiset"
begin

text \<open>
  The benchmark of \<open>bench.rs\<close> and the smoke test of \<open>main.rs\<close>, over any backend. The workers of a phase share the
  counter \<open>next\<close>; their interleaving is a sequence of events, in which a worker takes the next index or completes
  the request it has taken, with the time the request took. The rank of a percentile is floating-point arithmetic
  and a parameter.
\<close>

unbundle bit_operations_syntax

section \<open>Workloads\<close>

datatype bench_op = BenchRead | BenchWrite

datatype access = Sequential | Random

record bench_phase =
  ph_op :: bench_op
  ph_access :: access

datatype workload = SeqPhases | RandPhases | AllPhases

fun phases :: "workload \<Rightarrow> bench_phase list" where
  "phases SeqPhases = [\<lparr>ph_op = BenchWrite, ph_access = Sequential\<rparr>, \<lparr>ph_op = BenchRead, ph_access = Sequential\<rparr>]"
| "phases RandPhases = [\<lparr>ph_op = BenchWrite, ph_access = Random\<rparr>, \<lparr>ph_op = BenchRead, ph_access = Random\<rparr>]"
| "phases AllPhases =
     [\<lparr>ph_op = BenchWrite, ph_access = Sequential\<rparr>, \<lparr>ph_op = BenchRead, ph_access = Sequential\<rparr>,
      \<lparr>ph_op = BenchWrite, ph_access = Random\<rparr>, \<lparr>ph_op = BenchRead, ph_access = Random\<rparr>]"

fun op_label :: "bench_op \<Rightarrow> string" where
  "op_label BenchRead = ''read''"
| "op_label BenchWrite = ''write''"

fun access_label :: "access \<Rightarrow> string" where
  "access_label Sequential = ''seq''"
| "access_label Random = ''rand''"

record bench_config =
  be_size :: nat
  be_block_size :: nat
  be_count :: nat
  be_concurrency :: nat
  be_workload :: workload
  be_create :: bool

definition bench_validate :: "bench_config \<Rightarrow> unit res" where
  "bench_validate cfg =
     (if be_block_size cfg = 0 \<or> \<not> is_multiple_of (be_block_size cfg) 512 then Inl BadConfig
      else if be_size cfg = 0 \<or> \<not> is_multiple_of (be_size cfg) 512 then Inl BadConfig
      else if be_size cfg < be_block_size cfg then Inl BadConfig
      else if be_count cfg = 0 then Inl BadConfig
      else if be_concurrency cfg = 0 then Inl BadConfig
      else Inr ())"

section \<open>The block of an operation\<close>

text \<open>The SplitMix64 output function on the seed plus the golden-ratio increment.\<close>

definition next_rand :: "64 word \<Rightarrow> 64 word" where
  "next_rand seed =
     (let z0 = seed + 0x9E3779B97F4A7C15;
          z1 = (z0 XOR drop_bit 30 z0) * 0xBF58476D1CE4E5B9;
          z2 = (z1 XOR drop_bit 27 z1) * 0x94D049BB133111EB
      in z2 XOR drop_bit 31 z2)"

definition bench_block :: "access \<Rightarrow> nat \<Rightarrow> nat \<Rightarrow> nat \<Rightarrow> nat" where
  "bench_block acc nblocks worker_id idx =
     (case acc of
        Sequential \<Rightarrow> idx mod nblocks
      | Random \<Rightarrow> unat (next_rand (word_of_nat idx + word_of_nat worker_id)) mod nblocks)"

section \<open>A phase\<close>

datatype worker = Ready | Taken nat | Finished | Broken err

text \<open>\<open>br_issued\<close> is not in the program: the index, offset and length of each request, in order.\<close>

record 's bench_run =
  br_next :: nat
  br_workers :: "worker list"
  br_latencies :: "nat list list"
  br_backend :: 's
  br_issued :: "(nat \<times> nat \<times> nat) list"

datatype bench_event = TakeIndex nat | CompleteIo nat nat

definition bench_init :: "bench_config \<Rightarrow> 's \<Rightarrow> 's bench_run" where
  "bench_init cfg s =
     \<lparr>br_next = 0, br_workers = replicate (be_concurrency cfg) Ready,
      br_latencies = replicate (be_concurrency cfg) [], br_backend = s, br_issued = []\<rparr>"

text \<open>\<open>fetch_add\<close>, and the end of the worker when the count is reached.\<close>

definition take_index :: "bench_config \<Rightarrow> nat \<Rightarrow> 's bench_run \<Rightarrow> 's bench_run option" where
  "take_index cfg w b =
     (if w < length (br_workers b) \<and> br_workers b ! w = Ready
      then Some (b\<lparr>br_next := br_next b + 1,
                   br_workers := (br_workers b)[w := if be_count cfg \<le> br_next b then Finished else Taken (br_next b)]\<rparr>)
      else None)"

definition bench_io ::
  "bench_config \<Rightarrow> bench_phase \<Rightarrow> 's backend \<Rightarrow> nat \<Rightarrow> 's \<Rightarrow> unit res \<times> 's" where
  "bench_io cfg ph B off s =
     (case ph_op ph of
        BenchRead \<Rightarrow> (case b_read B s off (be_block_size cfg) of (Inl e, s') \<Rightarrow> (Inl e, s') | (Inr _, s') \<Rightarrow> (Inr (), s'))
      | BenchWrite \<Rightarrow> b_write B s off (replicate (be_block_size cfg) 0xA5))"

definition complete_io ::
  "bench_config \<Rightarrow> bench_phase \<Rightarrow> nat \<Rightarrow> 's backend \<Rightarrow> nat \<Rightarrow> nat \<Rightarrow> 's bench_run \<Rightarrow> 's bench_run option" where
  "complete_io cfg ph nblocks B w elapsed b =
     (if w < length (br_workers b)
      then
        (case br_workers b ! w of
           Taken idx \<Rightarrow>
             (let off = bench_block (ph_access ph) nblocks w idx * be_block_size cfg;
                  b1 = b\<lparr>br_issued := br_issued b @ [(idx, off, be_block_size cfg)]\<rparr>
              in case bench_io cfg ph B off (br_backend b) of
                   (Inl e, s') \<Rightarrow> Some (b1\<lparr>br_backend := s', br_workers := (br_workers b)[w := Broken e]\<rparr>)
                 | (Inr _, s') \<Rightarrow>
                     Some (b1\<lparr>br_backend := s', br_workers := (br_workers b)[w := Ready],
                              br_latencies := (br_latencies b)[w := br_latencies b ! w @ [elapsed]]\<rparr>))
         | _ \<Rightarrow> None)
      else None)"

fun bench_act ::
  "bench_config \<Rightarrow> bench_phase \<Rightarrow> nat \<Rightarrow> 's backend \<Rightarrow> bench_event \<Rightarrow> 's bench_run \<Rightarrow> 's bench_run option" where
  "bench_act cfg ph nblocks B (TakeIndex w) b = take_index cfg w b"
| "bench_act cfg ph nblocks B (CompleteIo w elapsed) b = complete_io cfg ph nblocks B w elapsed b"

fun bench_sched ::
  "bench_config \<Rightarrow> bench_phase \<Rightarrow> nat \<Rightarrow> 's backend \<Rightarrow> bench_event list \<Rightarrow> 's bench_run \<Rightarrow> 's bench_run option" where
  "bench_sched cfg ph nblocks B [] b = Some b"
| "bench_sched cfg ph nblocks B (ev # evs) b =
     (case bench_act cfg ph nblocks B ev b of None \<Rightarrow> None | Some b' \<Rightarrow> bench_sched cfg ph nblocks B evs b')"

section \<open>Latencies\<close>

text \<open>\<open>rank pct n\<close> is the rounded-up share of \<open>n\<close> samples; times are in nanoseconds.\<close>

record latency_stats =
  ls_min :: nat
  ls_avg :: nat
  ls_p50 :: nat
  ls_p95 :: nat
  ls_p99 :: nat
  ls_max :: nat

definition percentile :: "(nat \<Rightarrow> nat \<Rightarrow> nat) \<Rightarrow> nat list \<Rightarrow> nat \<Rightarrow> nat" where
  "percentile rank xs pct =
     (if xs = [] then 0 else xs ! min (rank pct (length xs) - 1) (length xs - 1))"

text \<open>The average divides by the number of samples as a \<open>u32\<close>, which panics on zero.\<close>

definition from_samples :: "(nat \<Rightarrow> nat \<Rightarrow> nat) \<Rightarrow> nat list \<Rightarrow> latency_stats res" where
  "from_samples rank samples =
     (if samples = [] then Inr \<lparr>ls_min = 0, ls_avg = 0, ls_p50 = 0, ls_p95 = 0, ls_p99 = 0, ls_max = 0\<rparr>
      else
        (let s = sort samples; n32 = length s mod 2 ^ 32 in
         if n32 = 0 then Inl Panic
         else Inr \<lparr>ls_min = s ! 0, ls_avg = sum_list s div n32, ls_p50 = percentile rank s 50,
                   ls_p95 = percentile rank s 95, ls_p99 = percentile rank s 99, ls_max = s ! (length s - 1)\<rparr>))"

record phase_result =
  rs_name :: string
  rs_ops :: nat
  rs_bytes :: nat
  rs_latencies :: latency_stats

text \<open>The workers are joined in order: the first failure ends the phase, before the flush.\<close>

fun join_workers :: "worker list \<Rightarrow> nat list list \<Rightarrow> (nat list) res" where
  "join_workers [] lats = Inr []"
| "join_workers (Broken e # ws) lats = Inl e"
| "join_workers (w # ws) lats =
     (case join_workers ws (tl lats) of Inl e \<Rightarrow> Inl e | Inr ls \<Rightarrow> Inr (hd lats @ ls))"

definition finish_phase ::
  "(nat \<Rightarrow> nat \<Rightarrow> nat) \<Rightarrow> bench_config \<Rightarrow> bench_phase \<Rightarrow> 's backend \<Rightarrow> 's bench_run \<Rightarrow> phase_result res \<times> 's" where
  "finish_phase rank cfg ph B b =
     (case join_workers (br_workers b) (br_latencies b) of
        Inl e \<Rightarrow> (Inl e, br_backend b)
      | Inr ls \<Rightarrow>
          (case (if ph_op ph = BenchWrite then b_flush B (br_backend b) else (Inr (), br_backend b)) of
             (Inl e, s) \<Rightarrow> (Inl e, s)
           | (Inr _, s) \<Rightarrow>
               (case from_samples rank ls of
                  Inl e \<Rightarrow> (Inl e, s)
                | Inr stats \<Rightarrow>
                    (Inr \<lparr>rs_name = access_label (ph_access ph) @ ''-'' @ op_label (ph_op ph), rs_ops = length ls,
                          rs_bytes = length ls * be_block_size cfg, rs_latencies = stats\<rparr>, s))))"

text \<open>The join is over when the workers before the first failed one have finished; later ones may still run.\<close>

fun joined :: "worker list \<Rightarrow> bool" where
  "joined [] = True"
| "joined (Finished # ws) = joined ws"
| "joined (Broken e # ws) = True"
| "joined (w # ws) = False"

text \<open>A phase under a schedule; \<open>None\<close> when the schedule is not one of the workers, or the join is not over.\<close>

definition run_phase ::
  "(nat \<Rightarrow> nat \<Rightarrow> nat) \<Rightarrow> bench_config \<Rightarrow> bench_phase \<Rightarrow> 's backend \<Rightarrow> bench_event list \<Rightarrow> 's \<Rightarrow> (phase_result res \<times> 's) option" where
  "run_phase rank cfg ph B evs s =
     (case bench_sched cfg ph (be_size cfg div be_block_size cfg) B evs (bench_init cfg s) of
        None \<Rightarrow> None
      | Some b \<Rightarrow> if joined (br_workers b) then Some (finish_phase rank cfg ph B b) else None)"

text \<open>\<open>run_bench\<close>: one schedule per phase.\<close>

fun run_phases ::
  "(nat \<Rightarrow> nat \<Rightarrow> nat) \<Rightarrow> bench_config \<Rightarrow> 's backend \<Rightarrow> (bench_phase \<times> bench_event list) list \<Rightarrow> 's \<Rightarrow>
   ((phase_result list) res \<times> 's) option" where
  "run_phases rank cfg B [] s = Some (Inr [], s)"
| "run_phases rank cfg B ((ph, evs) # rest) s =
     (case run_phase rank cfg ph B evs s of
        None \<Rightarrow> None
      | Some (Inl e, s1) \<Rightarrow> Some (Inl e, s1)
      | Some (Inr r, s1) \<Rightarrow>
          (case run_phases rank cfg B rest s1 of
             None \<Rightarrow> None
           | Some (Inl e, s2) \<Rightarrow> Some (Inl e, s2)
           | Some (Inr rs, s2) \<Rightarrow> Some (Inr (r # rs), s2)))"

definition run_bench ::
  "(nat \<Rightarrow> nat \<Rightarrow> nat) \<Rightarrow> bench_config \<Rightarrow> 's backend \<Rightarrow> bench_event list list \<Rightarrow> 's \<Rightarrow>
   ((phase_result list) res \<times> 's) option" where
  "run_bench rank cfg B scheds s =
     (case bench_validate cfg of
        Inl e \<Rightarrow> Some (Inl e, s)
      | Inr _ \<Rightarrow>
          (case (if be_create cfg then b_create B s (be_size cfg) else (Inr (), s)) of
             (Inl e, s1) \<Rightarrow> Some (Inl e, s1)
           | (Inr _, s1) \<Rightarrow> run_phases rank cfg B (zip (phases (be_workload cfg)) scheds) s1))"

section \<open>The smoke test\<close>

definition run_smoke_test :: "'s backend \<Rightarrow> nat \<Rightarrow> 's \<Rightarrow> unit res \<times> 's" where
  "run_smoke_test B sz s =
     (let pat = replicate 512 0xAB in
      case b_create B s sz of
        (Inl e, s1) \<Rightarrow> (Inl e, s1)
      | (Inr _, s1) \<Rightarrow>
     (case b_write B s1 0 pat of
        (Inl e, s2) \<Rightarrow> (Inl e, s2)
      | (Inr _, s2) \<Rightarrow>
     (case b_read B s2 0 512 of
        (Inl e, s3) \<Rightarrow> (Inl e, s3)
      | (Inr read_back, s3) \<Rightarrow>
          if read_back \<noteq> pat then (Inl (IoErr ''smoke test FAILED: read-back mismatch''), s3)
          else
     (case b_clear B s3 0 512 of
        (Inl e, s4) \<Rightarrow> (Inl e, s4)
      | (Inr _, s4) \<Rightarrow>
     (case b_read B s4 0 512 of
        (Inl e, s5) \<Rightarrow> (Inl e, s5)
      | (Inr zeroed, s5) \<Rightarrow>
          if \<not> list_all (\<lambda>x. x = 0) zeroed then (Inl (IoErr ''smoke test FAILED: page not zeroed after clear''), s5)
          else (Inr (), s5))))))"

end
