(* ===== verification/Bench_Correct.thy ===== *)
theory Bench_Correct
  imports Bench
begin

text \<open>
  The benchmark is correct: the mixer that spreads its offsets is a bijection, every interleaving of the workers
  issues each operation once and inside the blob, on a reliable device nothing fails, and the summary of the
  latencies is ordered as its names say.
\<close>

section \<open>The mixer is a bijection\<close>

lemma xorshift_inj:
  fixes x y :: "64 word"
  assumes "x XOR drop_bit k x = y XOR drop_bit k y" and "0 < k"
  shows "x = y"
proof (rule bit_eqI)
  have step: "bit x n = bit y n" if "bit x (k + n) = bit y (k + n)" for n
  proof -
    have "bit (x XOR drop_bit k x) n = bit (y XOR drop_bit k y) n" by (simp only: assms(1))
    with that show ?thesis by (auto simp: bit_simps)
  qed
  fix n
  show "bit x n = bit y n"
  proof (induction "64 - n" arbitrary: n rule: less_induct)
    case less
    show ?case
    proof (cases "n < 64")
      case True
      with assms(2) have "64 - (k + n) < 64 - n" by simp
      from less [OF this] show ?thesis by (rule step)
    next
      case False
      then show ?thesis using bit_imp_le_length [of x n] bit_imp_le_length [of y n] by auto
    qed
  qed
qed

lemma mult_inj:
  fixes x y c d :: "64 word"
  assumes "x * c = y * c" and "c * d = 1"
  shows "x = y"
  using arg_cong [OF assms(1), of "\<lambda>z. z * d"] assms(2) by (simp add: mult.assoc)

lemma next_rand_inj: "next_rand x = next_rand y \<Longrightarrow> x = y"
proof -
  let ?c = "0xBF58476D1CE4E5B9 :: 64 word" and ?d = "0x94D049BB133111EB :: 64 word"
  define x0 y0 where "x0 = x + 0x9E3779B97F4A7C15" and "y0 = y + 0x9E3779B97F4A7C15"
  define x1 y1 where "x1 = (x0 XOR drop_bit 30 x0) * ?c" and "y1 = (y0 XOR drop_bit 30 y0) * ?c"
  define x2 y2 where "x2 = (x1 XOR drop_bit 27 x1) * ?d" and "y2 = (y1 XOR drop_bit 27 y1) * ?d"
  assume "next_rand x = next_rand y"
  then have "x2 XOR drop_bit 31 x2 = y2 XOR drop_bit 31 y2"
    unfolding next_rand_def Let_def x2_def y2_def x1_def y1_def x0_def y0_def .
  then have "x2 = y2" by (rule xorshift_inj) simp
  then have "x1 XOR drop_bit 27 x1 = y1 XOR drop_bit 27 y1"
    unfolding x2_def y2_def by (rule mult_inj [where d = "0x319642b2d24d8ec3"]) simp
  then have "x1 = y1" by (rule xorshift_inj) simp
  then have "x0 XOR drop_bit 30 x0 = y0 XOR drop_bit 30 y0"
    unfolding x1_def y1_def by (rule mult_inj [where d = "0x96de1b173f119089"]) simp
  then have "x0 = y0" by (rule xorshift_inj) simp
  then show "x = y" by (simp add: x0_def y0_def)
qed

lemma next_rand_bij: "bij next_rand"
proof -
  have "inj next_rand" using next_rand_inj by (rule injI)
  then show ?thesis unfolding bij_def by (simp add: finite_UNIV_inj_surj)
qed

section \<open>Every operation once, inside the device\<close>

definition taken_of :: "worker \<Rightarrow> nat multiset" where
  "taken_of w = (case w of Taken i \<Rightarrow> {#i#} | _ \<Rightarrow> {#})"

definition all_taken :: "worker list \<Rightarrow> nat multiset" where
  "all_taken ws = (\<Sum>w\<leftarrow>ws. taken_of w)"

definition broken_count :: "worker list \<Rightarrow> nat" where
  "broken_count ws = length (filter (\<lambda>w. case w of Broken _ \<Rightarrow> True | _ \<Rightarrow> False) ws)"

definition finished_count :: "worker list \<Rightarrow> nat" where
  "finished_count ws = length (filter (\<lambda>w. w = Finished) ws)"

definition bench_ok :: "bench_config \<Rightarrow> 's bench_run \<Rightarrow> bool" where
  "bench_ok cfg b \<longleftrightarrow>
     length (br_workers b) = be_concurrency cfg \<and> length (br_latencies b) = be_concurrency cfg \<and>
     mset (map fst (br_issued b)) + all_taken (br_workers b) = mset [0 ..< min (br_next b) (be_count cfg)] \<and>
     br_next b = min (br_next b) (be_count cfg) + finished_count (br_workers b) \<and>
     length (concat (br_latencies b)) + broken_count (br_workers b) = length (br_issued b) \<and>
     (\<forall>(i, off, len) \<in> set (br_issued b). len = be_block_size cfg \<and> be_block_size cfg dvd off \<and> off + len \<le> be_size cfg)"

lemma distinct_subseteq_mset: "mset xs \<subseteq># mset ys \<Longrightarrow> distinct ys \<Longrightarrow> distinct xs"
  by (metis distinct_count_atmost_1 mset_subset_eq_count set_mset_mset count_mset_0_iff distinct_count_atmost_1
      count_eq_zero_iff le_zero_eq nat_less_le less_one)

lemma sum_list_update_mset:
  fixes f :: "'a \<Rightarrow> 'b multiset"
  assumes "k < length xs"
  shows "(\<Sum>x\<leftarrow>xs[k := y]. f x) + f (xs ! k) = (\<Sum>x\<leftarrow>xs. f x) + f y"
  using assms by (induction xs arbitrary: k) (auto simp: ac_simps split: nat.splits)

lemma filter_length_update:
  assumes "k < length xs"
  shows "length (filter P (xs[k := y])) + of_bool (P (xs ! k)) = length (filter P xs) + of_bool (P y)"
  using assms by (induction xs arbitrary: k) (fastforce split: nat.splits)+

lemma concat_length_update:
  assumes "k < length xs"
  shows "length (concat (xs[k := xs ! k @ ys])) = length (concat xs) + length ys"
  using assms by (induction xs arbitrary: k) (auto split: nat.splits)

lemma bench_offset_in:
  assumes "bench_validate cfg = Inr ()"
  shows "bench_block acc (be_size cfg div be_block_size cfg) w idx * be_block_size cfg + be_block_size cfg \<le> be_size cfg"
proof -
  let ?n = "be_size cfg div be_block_size cfg"
  have "0 < be_block_size cfg" "be_block_size cfg \<le> be_size cfg"
    using assms by (auto simp: bench_validate_def split: if_splits)
  then have "0 < ?n" by (simp add: div_greater_zero_iff)
  then have "bench_block acc ?n w idx < ?n" by (auto simp: bench_block_def split: access.splits)
  then have "bench_block acc ?n w idx + 1 \<le> ?n" by simp
  then have "(bench_block acc ?n w idx + 1) * be_block_size cfg \<le> ?n * be_block_size cfg" by (rule mult_le_mono1)
  also have "\<dots> \<le> be_size cfg" by simp
  finally show ?thesis by simp
qed

lemma sum_empty_msets: "sum_list (replicate n {#}) = {#}"
  by (induction n) simp_all

lemma bench_init_ok: "bench_ok cfg (bench_init cfg s)"
  by (simp add: bench_ok_def bench_init_def all_taken_def taken_of_def broken_count_def finished_count_def
      sum_empty_msets filter_replicate flip: length_0_conv)

lemma take_index_ok:
  assumes "bench_ok cfg b" and "take_index cfg w b = Some b'"
  shows "bench_ok cfg b'" and "br_next b' + length (br_issued b') = Suc (br_next b + length (br_issued b))"
proof -
  define y where "y = (if be_count cfg \<le> br_next b then Finished else Taken (br_next b))"
  have w: "w < length (br_workers b)" "br_workers b ! w = Ready"
    and b': "b' = b\<lparr>br_next := br_next b + 1, br_workers := (br_workers b)[w := y]\<rparr>"
    using assms(2) by (auto simp: take_index_def y_def split: if_splits)
  show "br_next b' + length (br_issued b') = Suc (br_next b + length (br_issued b))" by (simp add: b')
  have taken: "all_taken ((br_workers b)[w := y]) = all_taken (br_workers b) + taken_of y"
    using sum_list_update_mset [OF w(1), of taken_of y] w(2) by (simp add: all_taken_def taken_of_def)
  have fin: "finished_count ((br_workers b)[w := y]) = finished_count (br_workers b) + of_bool (y = Finished)"
    using filter_length_update [OF w(1), of "\<lambda>v. v = Finished" y] w(2) by (simp add: finished_count_def)
  have bro: "broken_count ((br_workers b)[w := y]) = broken_count (br_workers b)"
    using filter_length_update [OF w(1), of "\<lambda>v. case v of Broken _ \<Rightarrow> True | _ \<Rightarrow> False" y] w(2)
    by (simp add: broken_count_def y_def split: if_splits)
  show "bench_ok cfg b'"
  proof (cases "be_count cfg \<le> br_next b")
    case True
    then have "min (Suc (br_next b)) (be_count cfg) = min (br_next b) (be_count cfg)" by simp
    with True assms(1) taken fin bro show ?thesis by (simp add: bench_ok_def b' y_def taken_of_def)
  next
    case False
    then have "min (Suc (br_next b)) (be_count cfg) = Suc (br_next b)" "min (br_next b) (be_count cfg) = br_next b" by auto
    with False assms(1) taken fin bro show ?thesis by (simp add: bench_ok_def b' y_def taken_of_def)
  qed
qed

lemma complete_io_ok:
  assumes "bench_ok cfg b" and "bench_validate cfg = Inr ()"
    and "complete_io cfg ph (be_size cfg div be_block_size cfg) B w d b = Some b'"
  shows "bench_ok cfg b'" and "br_next b' + length (br_issued b') = Suc (br_next b + length (br_issued b))"
proof -
  let ?off = "\<lambda>idx. bench_block (ph_access ph) (be_size cfg div be_block_size cfg) w idx * be_block_size cfg"
  obtain idx y lats where w: "w < length (br_workers b)" "br_workers b ! w = Taken idx"
    and b': "br_issued b' = br_issued b @ [(idx, ?off idx, be_block_size cfg)]" "br_next b' = br_next b"
      "br_workers b' = (br_workers b)[w := y]" "br_latencies b' = lats"
    and y: "(y = Ready \<and> lats = (br_latencies b)[w := br_latencies b ! w @ [d]]) \<or> (\<exists>e. y = Broken e) \<and> lats = br_latencies b"
    using assms(3)
    by (fastforce simp: complete_io_def Let_def split: if_splits worker.splits prod.splits sum.splits)
  show "br_next b' + length (br_issued b') = Suc (br_next b + length (br_issued b))" by (simp add: b')
  have "w < length (br_latencies b)" using w(1) assms(1) by (simp add: bench_ok_def)
  note lat = concat_length_update [OF this, of "[d]"]
  have taken: "all_taken ((br_workers b)[w := y]) + {#idx#} = all_taken (br_workers b)"
    using sum_list_update_mset [OF w(1), of taken_of y] w(2) y by (auto simp: all_taken_def taken_of_def)
  have fin: "finished_count ((br_workers b)[w := y]) = finished_count (br_workers b)"
    using filter_length_update [OF w(1), of "\<lambda>v. v = Finished" y] w(2) y by (auto simp: finished_count_def)
  have bro: "broken_count ((br_workers b)[w := y]) = broken_count (br_workers b) + of_bool (\<exists>e. y = Broken e)"
    using filter_length_update [OF w(1), of "\<lambda>v. case v of Broken _ \<Rightarrow> True | _ \<Rightarrow> False" y] w(2) y
    by (auto simp: broken_count_def)
  have len: "length (concat lats) + broken_count ((br_workers b)[w := y]) = Suc (length (br_issued b))"
    using y lat bro assms(1) by (auto simp: bench_ok_def)
  have "mset (map fst (br_issued b)) + {#idx#} + all_taken ((br_workers b)[w := y]) =
      mset [0 ..< min (br_next b) (be_count cfg)]"
    using taken assms(1) by (metis (no_types, lifting) bench_ok_def union_assoc union_commute)
  moreover have "length lats = be_concurrency cfg" using y assms(1) by (auto simp: bench_ok_def)
  ultimately show "bench_ok cfg b'"
    using assms(1) fin len bench_offset_in [OF assms(2), of "ph_access ph" w idx] by (auto simp: bench_ok_def b')
qed

lemma bench_sched_ok:
  assumes "bench_validate cfg = Inr ()" and "bench_ok cfg b"
    and "bench_sched cfg ph (be_size cfg div be_block_size cfg) B evs b = Some b'"
  shows "bench_ok cfg b' \<and> br_next b' + length (br_issued b') = length evs + (br_next b + length (br_issued b))"
  using assms(2,3)
proof (induction evs arbitrary: b)
  case (Cons ev evs)
  then obtain b1 where b1: "bench_act cfg ph (be_size cfg div be_block_size cfg) B ev b = Some b1"
    "bench_sched cfg ph (be_size cfg div be_block_size cfg) B evs b1 = Some b'"
    by (auto split: option.splits)
  have "bench_ok cfg b1 \<and> br_next b1 + length (br_issued b1) = Suc (br_next b + length (br_issued b))"
    using b1(1) take_index_ok [OF Cons.prems(1)] complete_io_ok [OF Cons.prems(1) assms(1)] by (cases ev) auto
  with Cons.IH [OF _ b1(2)] show ?case by simp
qed simp

text \<open>A join without an error found every worker at its end.\<close>

lemma join_workers_ok:
  "joined ws \<Longrightarrow> join_workers ws lats = Inr ls \<Longrightarrow> length lats = length ws \<Longrightarrow>
   all_taken ws = {#} \<and> broken_count ws = 0 \<and> finished_count ws = length ws \<and> ls = concat lats"
proof (induction ws arbitrary: lats ls)
  case (Cons w ws)
  then obtain l ls' where l: "lats = l # ls'" by (cases lats) auto
  with Cons show ?case
    by (cases w) (auto simp: all_taken_def taken_of_def broken_count_def finished_count_def split: sum.splits)
qed (simp add: all_taken_def broken_count_def finished_count_def)

context blob_backend
begin

text \<open>The device of the benchmark is at least as large as its blob, and stays so.\<close>

lemma bench_io_keeps:
  assumes "binv s" and "off + be_block_size cfg \<le> length (content s)" and "bench_io cfg ph B off s = (r, s')"
  shows "binv s' \<and> length (content s') = length (content s)"
proof -
  have lim: "off + be_block_size cfg < u64_limit" using size_aligned [OF assms(1)] assms(2) by simp
  show ?thesis
  proof (cases "ph_op ph")
    case BenchRead
    with assms(3) obtain q where "b_read B s off (be_block_size cfg) = (q, s')"
      by (auto simp: bench_io_def split: prod.splits sum.splits)
    from read_law [OF assms(1) lim this] show ?thesis by simp
  next
    case BenchWrite
    with assms(3) have w: "b_write B s off (replicate (be_block_size cfg) 0xA5) = (r, s')" by (simp add: bench_io_def)
    from write_law [OF assms(1) _ w] lim have "binv s'"
      "r = Inr () \<Longrightarrow> content s' = overwrite off (replicate (be_block_size cfg) 0xA5) (content s)"
      "r \<noteq> Inr () \<Longrightarrow> same_outside off (be_block_size cfg) (content s) (content s')" by auto
    then show ?thesis using assms(2) by (cases "r = Inr ()") (auto simp: buf_simps same_outside_def)
  qed
qed

end

context reliable_backend
begin

text \<open>On a reliable device that is large enough no worker fails.\<close>

lemma bench_sched_reliable:
  assumes "bench_validate cfg = Inr ()" and "be_size cfg \<le> length (content (br_backend b))" and "binv (br_backend b)"
    and "\<forall>e. Broken e \<notin> set (br_workers b)"
    and "bench_sched cfg ph (be_size cfg div be_block_size cfg) B evs b = Some b'"
  shows "\<forall>e. Broken e \<notin> set (br_workers b')"
  using assms(2-5)
proof (induction evs arbitrary: b)
  case (Cons ev evs)
  let ?n = "be_size cfg div be_block_size cfg"
  have bs: "512 dvd be_block_size cfg" using assms(1) by (auto simp: bench_validate_def is_multiple_of_def split: if_splits)
  obtain b1 where b1: "bench_act cfg ph ?n B ev b = Some b1" "bench_sched cfg ph ?n B evs b1 = Some b'"
    using Cons.prems(4) by (auto split: option.splits)
  have "be_size cfg \<le> length (content (br_backend b1)) \<and> binv (br_backend b1) \<and> (\<forall>e. Broken e \<notin> set (br_workers b1))"
  proof (cases ev)
    case (TakeIndex w)
    with b1(1) Cons.prems(1-3) show ?thesis
      by (auto simp: take_index_def split: if_splits dest!: set_update_subset_insert [THEN subsetD])
  next
    case (CompleteIo w d)
    with b1(1) obtain idx where idx: "w < length (br_workers b)" "br_workers b ! w = Taken idx"
      by (auto simp: complete_io_def split: if_splits worker.splits)
    define off where "off = bench_block (ph_access ph) ?n w idx * be_block_size cfg"
    have inside: "off + be_block_size cfg \<le> length (content (br_backend b))"
      using bench_offset_in [OF assms(1), of "ph_access ph" w idx] Cons.prems(1) by (simp add: off_def)
    obtain r s' where io: "bench_io cfg ph B off (br_backend b) = (r, s')" by (metis surj_pair)
    have "is_ok r"
    proof (cases "ph_op ph")
      case BenchRead
      then show ?thesis
        using io read_ok [OF Cons.prems(2), of off "be_block_size cfg"] bs inside
        by (auto simp: bench_io_def off_def is_ok_ex split: prod.splits sum.splits)
    next
      case BenchWrite
      then show ?thesis
        using io write_ok [OF Cons.prems(2), of off "replicate (be_block_size cfg) 0xA5"] bs inside
        by (simp add: bench_io_def off_def)
    qed
    then have "r = Inr ()" by (auto simp: is_ok_ex)
    with io idx b1(1) CompleteIo have "br_backend b1 = s'" "br_workers b1 = (br_workers b)[w := Ready]"
      by (auto simp: complete_io_def off_def Let_def)
    with bench_io_keeps [OF Cons.prems(2) inside io] Cons.prems(1,3) show ?thesis
      by (auto dest!: set_update_subset_insert [THEN subsetD])
  qed
  with Cons.IH [OF _ _ _ b1(2)] show ?case by blast
qed simp

text \<open>The smoke test passes on every reliable device that can be created.\<close>

lemma smoke_test_passes:
  assumes "binv s" and "0 < sz" "512 dvd sz" "sz < u64_limit" and "b_create B s sz = (Inr (), s1)"
  shows "fst (run_smoke_test B sz s) = Inr ()"
proof -
  let ?pat = "replicate 512 0xAB :: bytes"
  have s1: "binv s1" "length (content s1) = sz" using create_law [OF assms(1,4,5)] by auto
  then have len: "512 \<le> length (content s1)" using assms(2,3) by (auto dest: dvd_imp_le)
  obtain s2 s3 where w: "b_write B s1 0 ?pat = (Inr (), s2)" and r: "b_read B s2 0 512 = (Inr ?pat, s3)"
    using write_read_roundtrip [OF s1(1), of 0 ?pat] len by auto
  have lim: "length (content s1) < u64_limit" using size_aligned [OF s1(1)] by simp
  have s2: "binv s2" "length (content s2) = length (content s1)"
    using write_law [OF s1(1) _ w] lim len by (auto simp: buf_simps)
  have s3: "binv s3" "length (content s3) = length (content s1)"
    using read_law [OF s2(1) _ r] lim len s2 by auto
  obtain u s4 where c: "b_clear B s3 0 512 = (u, s4)" by (metis surj_pair)
  have u: "u = Inr ()" using clear_ok [OF s3(1), of 0 512] c len s3 by (auto simp: is_ok_ex)
  have s4: "binv s4" "content s4 = overwrite 0 (zeros 512) (content s3)"
    using clear_law [OF s3(1) _ c] u lim len by auto
  then have len4: "length (content s4) = length (content s1)" using s3 len by (simp add: buf_simps)
  obtain q s5 where q: "b_read B s4 0 512 = (q, s5)" by (metis surj_pair)
  have "is_ok q" using read_ok [OF s4(1), of 0 512] q len4 len by simp
  then obtain d where d: "q = Inr d" by (auto simp: is_ok_ex)
  have "d = segment 0 512 (content s4)" using read_law [OF s4(1) _ q] d lim len len4 by auto
  also have "\<dots> = zeros 512" using s4(2) s3(2) len segment_overwrite_same [of 0 "zeros 512" "content s3"] by simp
  finally have "list_all (\<lambda>x. x = 0) d" by (simp add: zeros_def list_all_iff)
  with assms(5) w r c u q d show ?thesis by (simp add: run_smoke_test_def Let_def)
qed

end

section \<open>Properties\<close>

text \<open>
  C38: A benchmark phase issues each of its operations exactly once, whatever the interleaving of its workers. No
  request leaves the blob or is unaligned, no index is used twice, a schedule has a bounded length, and a
  phase that reports success has issued exactly the configured number of operations.
\<close>

theorem bench_phase_exact:
  assumes "bench_validate cfg = Inr ()"
    and "bench_sched cfg ph (be_size cfg div be_block_size cfg) B evs (bench_init cfg s) = Some b"
  shows "length evs \<le> 2 * be_count cfg + be_concurrency cfg \<and> distinct (map fst (br_issued b)) \<and>
    (\<forall>(i, off, len) \<in> set (br_issued b). 512 dvd off \<and> 512 dvd len \<and> off + len \<le> be_size cfg) \<and>
    (\<forall>r s'. joined (br_workers b) \<longrightarrow> finish_phase rank cfg ph B b = (Inr r, s') \<longrightarrow>
       mset (map fst (br_issued b)) = mset [0 ..< be_count cfg] \<and> rs_ops r = be_count cfg)"
proof -
  have ok: "bench_ok cfg b" and count: "br_next b + length (br_issued b) = length evs"
    using bench_sched_ok [OF assms(1) bench_init_ok assms(2)] by (simp_all add: bench_init_def)
  have bs: "512 dvd be_block_size cfg" "0 < be_concurrency cfg"
    using assms(1) by (auto simp: bench_validate_def is_multiple_of_def split: if_splits)
  let ?m = "min (br_next b) (be_count cfg)"
  have ms: "mset (map fst (br_issued b)) + all_taken (br_workers b) = mset [0 ..< ?m]"
    using ok by (simp add: bench_ok_def)
  have sub: "mset (map fst (br_issued b)) \<subseteq># mset [0 ..< ?m]" using ms by (metis mset_subset_eq_add_left)
  have "length (br_issued b) \<le> ?m" using size_mset_mono [OF sub] by simp
  moreover have "finished_count (br_workers b) \<le> be_concurrency cfg"
    using ok length_filter_le [of "\<lambda>w. w = Finished" "br_workers b"] by (simp add: bench_ok_def finished_count_def)
  moreover have next_eq: "br_next b = ?m + finished_count (br_workers b)" using ok by (simp add: bench_ok_def)
  ultimately have "length evs \<le> 2 * be_count cfg + be_concurrency cfg" using count by linarith
  moreover have "distinct (map fst (br_issued b))"
    by (rule distinct_subseteq_mset [OF sub]) simp
  moreover have "\<forall>(i, off, len) \<in> set (br_issued b). 512 dvd off \<and> 512 dvd len \<and> off + len \<le> be_size cfg"
    using ok bs(1) by (fastforce simp: bench_ok_def intro: dvd_trans)
  moreover have "mset (map fst (br_issued b)) = mset [0 ..< be_count cfg] \<and> rs_ops r = be_count cfg"
    if j: "joined (br_workers b)" and f: "finish_phase rank cfg ph B b = (Inr r, s')" for r s'
  proof -
    obtain ls where ls: "join_workers (br_workers b) (br_latencies b) = Inr ls" "rs_ops r = length ls"
      using f by (auto simp: finish_phase_def split: sum.splits prod.splits)
    have "length (br_latencies b) = length (br_workers b)" using ok by (simp add: bench_ok_def)
    from join_workers_ok [OF j ls(1) this] have fin: "all_taken (br_workers b) = {#}" "broken_count (br_workers b) = 0"
      "finished_count (br_workers b) = length (br_workers b)" "ls = concat (br_latencies b)" by auto
    then have m: "?m = be_count cfg" using next_eq bs(2) ok by (auto simp: bench_ok_def)
    have "length ls = length (br_issued b)" using ok fin by (simp add: bench_ok_def)
    moreover have "mset (map fst (br_issued b)) = mset [0 ..< be_count cfg]" using ms fin(1) m by simp
    then have "length (br_issued b) = be_count cfg" by (metis size_mset length_map length_upt diff_zero)
    ultimately show ?thesis using ls(2) ms fin(1) m by simp
  qed
  ultimately show ?thesis by blast
qed

section \<open>The summary of the latencies\<close>

lemma percentile_nth:
  assumes "xs \<noteq> []"
  obtains i where "i = min (rank p (length xs) - 1) (length xs - 1)" and "i < length xs" and "percentile rank xs p = xs ! i"
proof -
  have "min (rank p (length xs) - 1) (length xs - 1) < length xs" using assms by (cases xs) auto
  with assms show ?thesis by (intro that [OF refl]) (simp_all add: percentile_def)
qed

lemma percentile_mono:
  assumes "sorted xs" and "rank p (length xs) \<le> rank q (length xs)" and "xs \<noteq> []"
  shows "percentile rank xs p \<le> percentile rank xs q"
proof -
  obtain i where i: "i = min (rank p (length xs) - 1) (length xs - 1)" "percentile rank xs p = xs ! i"
    using percentile_nth [OF assms(3)] by metis
  obtain k where k: "k = min (rank q (length xs) - 1) (length xs - 1)" "k < length xs" "percentile rank xs q = xs ! k"
    using percentile_nth [OF assms(3)] by metis
  have "i \<le> k" using assms(2) by (simp add: i(1) k(1) min_le_iff_disj) linarith
  then show ?thesis using sorted_nth_mono [OF assms(1) _ k(2)] i k by simp
qed

lemma percentile_within:
  assumes "sorted xs" and "xs \<noteq> []"
  shows "xs ! 0 \<le> percentile rank xs p" and "percentile rank xs p \<le> xs ! (length xs - 1)"
proof -
  obtain i where i: "i < length xs" "percentile rank xs p = xs ! i" using percentile_nth [OF assms(2)] by metis
  then have "i \<le> length xs - 1" "length xs - 1 < length xs" by auto
  with sorted_nth_mono [OF assms(1)] i show "xs ! 0 \<le> percentile rank xs p" "percentile rank xs p \<le> xs ! (length xs - 1)"
    by simp_all
qed

lemma sum_list_between:
  fixes xs :: "nat list"
  assumes "\<forall>x \<in> set xs. a \<le> x \<and> x \<le> c"
  shows "a * length xs \<le> sum_list xs" and "sum_list xs \<le> c * length xs"
  using assms by (induction xs) auto

text \<open>With a monotone rank and fewer than \<open>2 ^ 32\<close> samples the summary is ordered as its names say.\<close>

lemma latency_stats_ordered:
  assumes "from_samples rank samples = Inr st" and "length samples < 2 ^ 32"
    and "\<And>p q n. p \<le> q \<Longrightarrow> rank p n \<le> rank q n"
  shows "ls_min st \<le> ls_p50 st \<and> ls_p50 st \<le> ls_p95 st \<and> ls_p95 st \<le> ls_p99 st \<and> ls_p99 st \<le> ls_max st \<and>
    ls_min st \<le> ls_avg st \<and> ls_avg st \<le> ls_max st"
proof (cases "samples = []")
  case False
  define s where "s = sort samples"
  have s: "sorted s" "length s = length samples" by (simp_all add: s_def)
  then have ne: "s \<noteq> []" using False by (metis length_0_conv)
  have n: "length s mod 2 ^ 32 = length s" using assms(2) s(2) by simp
  have st: "ls_min st = s ! 0" "ls_max st = s ! (length s - 1)" "ls_p50 st = percentile rank s 50"
    "ls_p95 st = percentile rank s 95" "ls_p99 st = percentile rank s 99" "ls_avg st = sum_list s div length s"
    using assms(1) False n ne unfolding from_samples_def Let_def s_def [symmetric] by auto
  have "\<forall>x \<in> set s. s ! 0 \<le> x \<and> x \<le> s ! (length s - 1)"
    using s(1) by (auto simp: in_set_conv_nth intro!: sorted_nth_mono)
  from sum_list_between [OF this] have "s ! 0 * length s div length s \<le> sum_list s div length s"
    "sum_list s div length s \<le> s ! (length s - 1) * length s div length s" by (simp_all only: div_le_mono)
  then have "s ! 0 \<le> sum_list s div length s" "sum_list s div length s \<le> s ! (length s - 1)" using ne by simp_all
  then show ?thesis
    unfolding st using percentile_within [OF s(1) ne] percentile_mono [OF s(1) _ ne] assms(3) by simp
qed (use assms(1) in \<open>auto simp: from_samples_def\<close>)

lemma from_samples_wraps: "length samples = 2 ^ 32 \<Longrightarrow> from_samples rank samples = Inl Panic"
  by (auto simp: from_samples_def Let_def)

section \<open>Two workers on a small device\<close>

definition small_bench :: bench_config where
  "small_bench = \<lparr>be_size = 1024, be_block_size = 512, be_count = 3, be_concurrency = 2, be_workload = SeqPhases, be_create = False\<rparr>"

definition small_schedule :: "bench_event list" where
  "small_schedule = [TakeIndex 0, TakeIndex 1, CompleteIo 1 7, CompleteIo 0 9, TakeIndex 1, TakeIndex 0, CompleteIo 1 5, TakeIndex 1]"

definition small_disk :: mem_state where
  "small_disk = \<lparr>mem_data = replicate 1024 1, mem_poisoned = False\<rparr>"

lemma small_reads: "off \<in> {0, 512} \<Longrightarrow> mem_read small_disk off 512 = (Inr (segment off 512 (replicate 1024 1)), small_disk)"
  by (auto simp: mem_read_def small_disk_def check_alignment_def is_multiple_of_def mem_lock_def wrapping_add_def u64_limit_def Let_def)

lemma small_init:
  "bench_init small_bench s = \<lparr>br_next = 0, br_workers = [Ready, Ready], br_latencies = [[], []], br_backend = s, br_issued = []\<rparr>"
  by (simp add: bench_init_def small_bench_def numeral_2_eq_2)

lemma small_config: "be_count small_bench = 3" "be_block_size small_bench = 512" "be_size small_bench div be_block_size small_bench = 2"
  by (simp_all add: small_bench_def)

lemma small_io:
  "off \<in> {0, 512} \<Longrightarrow>
   bench_io small_bench \<lparr>ph_op = BenchRead, ph_access = Sequential\<rparr> mem_backend off small_disk = (Inr (), small_disk)"
  using small_reads [of off] by (simp add: bench_io_def small_config)

abbreviation (input) small_state :: "nat \<Rightarrow> worker list \<Rightarrow> nat list list \<Rightarrow> (nat \<times> nat \<times> nat) list \<Rightarrow> mem_state bench_run" where
  "small_state n ws ls iss \<equiv> \<lparr>br_next = n, br_workers = ws, br_latencies = ls, br_backend = small_disk, br_issued = iss\<rparr>"

lemma small_take:
  "w < length ws \<Longrightarrow> ws ! w = Ready \<Longrightarrow>
   take_index small_bench w (small_state n ws ls iss) =
     Some (small_state (n + 1) (ws[w := if 3 \<le> n then Finished else Taken n]) ls iss)"
  by (simp add: take_index_def small_config)

lemma small_complete:
  "w < length ws \<Longrightarrow> ws ! w = Taken i \<Longrightarrow>
   complete_io small_bench \<lparr>ph_op = BenchRead, ph_access = Sequential\<rparr> 2 mem_backend w d (small_state n ws ls iss) =
     Some (small_state n (ws[w := Ready]) (ls[w := ls ! w @ [d]]) (iss @ [(i, i mod 2 * 512, 512)]))"
proof -
  assume "w < length ws" "ws ! w = Taken i"
  moreover have "i mod 2 * 512 \<in> {0, 512}" by (auto simp: mod2_eq_if)
  from small_io [OF this] have "bench_io small_bench \<lparr>ph_op = BenchRead, ph_access = Sequential\<rparr> mem_backend (i mod 2 * 512)
      small_disk = (Inr (), small_disk)" .
  ultimately show ?thesis by (simp add: complete_io_def bench_block_def small_config)
qed

lemma small_bench_runs:
  "bench_sched small_bench \<lparr>ph_op = BenchRead, ph_access = Sequential\<rparr> 2 mem_backend small_schedule
     (small_state 0 [Ready, Ready] [[], []] []) =
   Some (small_state 5 [Finished, Finished] [[9], [7, 5]] [(1, 512, 512), (0, 0, 512), (2, 0, 512)])"
  unfolding small_schedule_def by (simp add: small_take small_complete)

theorem bench_phase_exact_witness:
  "\<exists>b. bench_sched small_bench \<lparr>ph_op = BenchRead, ph_access = Sequential\<rparr>
       (be_size small_bench div be_block_size small_bench) mem_backend small_schedule (bench_init small_bench small_disk) = Some b \<and>
     map fst (br_issued b) = [1, 0, 2] \<and> distinct (map fst (br_issued b)) \<and> length small_schedule \<le> 8"
proof -
  have valid: "bench_validate small_bench = Inr ()" by (simp add: bench_validate_def small_bench_def is_multiple_of_def)
  note run = small_bench_runs [folded small_init small_config(3)]
  have size: "2 * be_count small_bench + be_concurrency small_bench = 8" by (simp add: small_bench_def)
  from bench_phase_exact [OF valid run, of "\<lambda>p n. n"] have "length small_schedule \<le> 8"
    unfolding size by (rule conjunct1)
  with run show ?thesis by (intro exI conjI) (assumption, simp_all add: small_config(3))
qed

end
