(* ===== verification/Csi_Service.thy ===== *)
theory Csi_Service
  imports Csi_Unpublish Csi_Volumes
begin

text \<open>
  The CSI process as a whole: the roles and the identity service (\<open>csi/identity.rs\<close>, \<open>run_csi\<close> of \<open>csi/mod.rs\<close>), the
  calls of the controller and the node that answer without doing anything, and the life of a process as a
  state machine: each call of Kubernetes and each restart is a step on the storage world, the host and the
  table of published volumes. A call to a service that the role does not serve is answered by the server library
  as unimplemented.
\<close>

section \<open>Roles and identity\<close>

definition serves_controller :: "role \<Rightarrow> bool" where
  "serves_controller r = (r \<in> {Controller, AllRoles})"

definition serves_node :: "role \<Rightarrow> bool" where
  "serves_node r = (r \<in> {Node, AllRoles})"

datatype plugin_capability = ControllerServiceCap

definition get_plugin_capabilities :: "role \<Rightarrow> plugin_capability list" where
  "get_plugin_capabilities r = (if r \<in> {Controller, AllRoles} then [ControllerServiceCap] else [])"

datatype controller_capability = CreateDeleteVolumeCap

definition controller_get_capabilities :: "controller_capability list" where
  "controller_get_capabilities = [CreateDeleteVolumeCap]"

section \<open>The calls\<close>

datatype csi_call =
    GetPluginCapabilities
  | Probe
  | CreateVolume create_volume_request
  | DeleteVolume string params
  | ControllerGetCapabilities
  | ControllerOther string
  | NodePublishVolume publish_request
  | NodeUnpublishVolume string string
  | NodeGetCapabilities
  | NodeGetInfo
  | NodeOther string

datatype csi_reply =
    ReadyReply
  | PluginCapabilities "plugin_capability list"
  | CreatedVolume volume
  | DoneReply
  | ControllerCapabilities "controller_capability list"
  | NodeCapabilities
  | NodeInfo string nat

record ('z, 'o) process =
  ps_world :: 'z
  ps_host :: 'o
  ps_node :: node_service

text \<open>What the process is connected to.\<close>

record ('z, 'o) surroundings =
  su_cloud :: "'z cloud"
  su_urls :: url_crate
  su_retry :: retry_config
  su_copy :: "'z copy_env"
  su_os :: "'o os"

text \<open>\<open>ControllerOther\<close> and \<open>NodeOther\<close> are the calls the program answers as unimplemented.\<close>

definition controller_call ::
  "('z, 'o) surroundings \<Rightarrow> driver_config \<Rightarrow> csi_call \<Rightarrow> 'z \<Rightarrow> csi_reply rpc \<times> 'z" where
  "controller_call X cfg c z =
     (case c of
        CreateVolume req \<Rightarrow>
          (case create_volume (su_cloud X) (su_urls X) cfg (su_retry X) (su_copy X) req z of
             (Inl e, z') \<Rightarrow> (Inl e, z') | (Inr v, z') \<Rightarrow> (Inr (CreatedVolume v), z'))
      | DeleteVolume vid secrets \<Rightarrow>
          (case delete_volume (su_cloud X) cfg vid secrets z of
             (Inl e, z') \<Rightarrow> (Inl e, z') | (Inr _, z') \<Rightarrow> (Inr DoneReply, z'))
      | ControllerGetCapabilities \<Rightarrow> (Inr (ControllerCapabilities controller_get_capabilities), z)
      | ControllerOther name \<Rightarrow> (Inl (Unimplemented name), z)
      | _ \<Rightarrow> (Inl (Unimplemented ''controller''), z))"

definition node_call ::
  "('z, 'o) surroundings \<Rightarrow> csi_call \<Rightarrow> node_service \<Rightarrow> 'o \<Rightarrow> (csi_reply rpc \<times> node_service \<times> 'o) option" where
  "node_call X c ns w =
     (case c of
        NodePublishVolume req \<Rightarrow>
          map_option (\<lambda>(r, ns', w'). (case r of Inl e \<Rightarrow> Inl e | Inr _ \<Rightarrow> Inr DoneReply, ns', w'))
            (node_publish_volume (su_urls X) (su_os X) req ns w)
      | NodeUnpublishVolume vid target \<Rightarrow>
          map_option (\<lambda>(r, ns', w'). (case r of Inl e \<Rightarrow> Inl e | Inr _ \<Rightarrow> Inr DoneReply, ns', w'))
            (node_unpublish_volume (su_os X) vid target ns w)
      | NodeGetCapabilities \<Rightarrow> Some (Inr NodeCapabilities, ns, w)
      | NodeGetInfo \<Rightarrow> Some (Inr (NodeInfo (ns_node_id ns) 0), ns, w)
      | NodeOther name \<Rightarrow> Some (Inl (Unimplemented name), ns, w)
      | _ \<Rightarrow> Some (Inl (Unimplemented ''node''), ns, w))"

definition is_controller_call :: "csi_call \<Rightarrow> bool" where
  "is_controller_call c =
     (case c of CreateVolume _ \<Rightarrow> True | DeleteVolume _ _ \<Rightarrow> True | ControllerGetCapabilities \<Rightarrow> True
      | ControllerOther _ \<Rightarrow> True | _ \<Rightarrow> False)"

definition serve_call ::
  "('z, 'o) surroundings \<Rightarrow> role \<Rightarrow> driver_config \<Rightarrow> csi_call \<Rightarrow> ('z, 'o) process \<Rightarrow>
   (csi_reply rpc \<times> ('z, 'o) process) option" where
  "serve_call X role cfg c p =
     (if c = Probe then Some (Inr ReadyReply, p)
      else if c = GetPluginCapabilities then Some (Inr (PluginCapabilities (get_plugin_capabilities role)), p)
      else if is_controller_call c
      then (if serves_controller role
            then (case controller_call X cfg c (ps_world p) of (r, z) \<Rightarrow> Some (r, p\<lparr>ps_world := z\<rparr>))
            else Some (Inl (Unimplemented ''service''), p))
      else if serves_node role
      then map_option (\<lambda>(r, ns, w). (r, p\<lparr>ps_node := ns, ps_host := w\<rparr>)) (node_call X c (ps_node p) (ps_host p))
      else Some (Inl (Unimplemented ''service''), p))"

section \<open>The life of the process\<close>

text \<open>\<open>run_csi\<close>: the services of the role, and recovery before the first call of a process that serves the node.\<close>

definition run_csi ::
  "('z, 'o) surroundings \<Rightarrow> role \<Rightarrow> string \<Rightarrow> driver_config \<Rightarrow> 'z \<Rightarrow> 'o \<Rightarrow> ('z, 'o) process" where
  "run_csi X role node_id cfg z w =
     \<lparr>ps_world = z, ps_host = w,
      ps_node = (if serves_node role then recover (su_os X) w (node_new node_id cfg) else node_new node_id cfg)\<rparr>"

text \<open>A step is a call that returns, or a restart; between the steps world and host may change on their own.\<close>

inductive csi_reach ::
  "('z, 'o) surroundings \<Rightarrow> role \<Rightarrow> string \<Rightarrow> driver_config \<Rightarrow> ('z, 'o) process \<Rightarrow> bool"
  for X role node_id cfg where
  start: "csi_reach X role node_id cfg (run_csi X role node_id cfg z w)"
| call: "csi_reach X role node_id cfg p \<Longrightarrow> serve_call X role cfg c p = Some (r, p') \<Longrightarrow> csi_reach X role node_id cfg p'"
| outside: "csi_reach X role node_id cfg p \<Longrightarrow> csi_reach X role node_id cfg (p\<lparr>ps_world := z, ps_host := w\<rparr>)"
| restart: "csi_reach X role node_id cfg p \<Longrightarrow> csi_reach X role node_id cfg (run_csi X role node_id cfg (ps_world p) (ps_host p))"

section \<open>The table of published volumes\<close>

text \<open>An entry is for a named volume, and its child, if it is one of this process, is the device process.\<close>

definition entry_wf :: "published \<Rightarrow> bool" where
  "entry_wf p \<longleftrightarrow> pb_child p \<in> {None, Some (pb_pid p)}"

definition table_wf :: "volumes \<Rightarrow> bool" where
  "table_wf vols \<longleftrightarrow> (\<forall>vid p. vols vid = Some p \<longrightarrow> entry_wf p)"

lemma table_wf_upd [intro]: "table_wf vols \<Longrightarrow> entry_wf p \<Longrightarrow> table_wf (vols(vid \<mapsto> p))"
  and table_wf_del [intro]: "table_wf vols \<Longrightarrow> table_wf (vols(vid := None))"
  and table_wf_empty [simp]: "table_wf Map.empty"
  by (simp_all add: table_wf_def)

lemma publish_device_wf: "publish_device OS cfg plan vid target w = Some (Inr p, w') \<Longrightarrow> entry_wf p"
  by (auto simp: publish_device_def entry_wf_def Let_def split: option.splits sum.splits prod.splits)

lemma node_publish_wf:
  assumes "node_publish_volume U OS req ns w = Some (r, ns', w')" and "table_wf (ns_volumes ns)"
  shows "table_wf (ns_volumes ns')"
  using assms publish_device_wf
  by (fastforce simp: node_publish_volume_def split: if_splits option.splits sum.splits prod.splits)

lemma node_unpublish_wf:
  assumes "node_unpublish_volume OS vid target ns w = Some (r, ns', w')" and "table_wf (ns_volumes ns)"
  shows "table_wf (ns_volumes ns')"
  using assms by (fastforce simp: node_unpublish_volume_def Let_def split: if_splits option.splits sum.splits prod.splits)

lemma readopt_wf: "table_wf vols \<Longrightarrow> table_wf (fst (readopt_targets OS ts w (vols, n)))"
proof (induction ts arbitrary: vols n)
  case (Cons t ts)
  have "table_wf (vols(vid \<mapsto> \<lparr>pb_child = None, pb_pid = pid, pb_device = dev, pb_target = t, pb_overlay = ov\<rparr>))" for vid pid dev ov
    using Cons.prems by (intro table_wf_upd) (simp_all add: entry_wf_def)
  then show ?case using Cons.prems by (auto split: option.splits intro!: Cons.IH)
qed simp

lemma run_csi_wf: "table_wf (ns_volumes (ps_node (run_csi X role node_id cfg z w)))"
  by (simp add: run_csi_def recover_def node_new_def Let_def readopt_wf)

lemma serve_call_wf:
  assumes "serve_call X role cfg c p = Some (r, p')" and "table_wf (ns_volumes (ps_node p))"
  shows "table_wf (ns_volumes (ps_node p'))"
proof -
  have "table_wf (ns_volumes ns')" if "node_call X c (ps_node p) w = Some (q, ns', w')" for q ns' w w'
    using that assms(2) node_publish_wf node_unpublish_wf by (auto simp: node_call_def split: csi_call.splits)
  with assms show ?thesis by (auto simp: serve_call_def split: if_splits prod.splits)
qed


definition example_around :: "(cloud_sim, sim_host) surroundings" where
  "example_around = \<lparr>su_cloud = demo_cloud, su_urls = example_urls, su_retry = retry_config_default, su_copy = demo_env,
     su_os = sim_os\<rparr>"


section \<open>Unpublishing elsewhere\<close>

text \<open>
  A second target path takes the device away from the first. Publishing a volume again at another path is
  refused, but the unpublish of that path, which Kubernetes sends to clean up, succeeds: it stops the device
  process and forgets the volume, while the first path stays mounted, now on a device without a server.
\<close>

theorem unpublish_elsewhere_kills_device:
  assumes "node_host front opts OS view direct"
    and "ns_volumes ns (pr_volume_id req) = Some p" and "pr_volume_id req \<noteq> []" and "pb_target p \<noteq> pr_target_path req"
    and "direct (pr_target_path req)" and "\<not> mounted (view w) (pr_target_path req)"
    and "fst (umount OS (pr_target_path req) w) = Inr ()"
    and "pb_child p = Some (pb_pid p)" and "pb_overlay p = None"
  shows "\<exists>e w'. node_publish_volume U OS req ns w = Some (Inl e, ns, w) \<and>
    node_unpublish_volume OS (pr_volume_id req) (pr_target_path req) ns w =
      Some (Inr (), ns\<lparr>ns_volumes := (ns_volumes ns)(pr_volume_id req := None)\<rparr>, w') \<and>
    pb_pid p \<notin> hv_children (view w') \<and> set (hv_mounts (view w')) = set (hv_mounts (view w))"
proof -
  let ?t = "pr_target_path req"
  have t: "?t \<noteq> []" using node_host.direct_token [OF assms(1,5)] by (auto simp: token_def)
  have refused: "node_publish_volume U OS req ns w =
      Some (Inl (FailedPrecondition ''volume already published at a different target path''), ns, w)"
    using assms(2-4) t by (simp add: node_publish_volume_def)
  obtain w0 where w0: "umount OS ?t w = (Inr (), w0)" using assms(7) by (cases "umount OS ?t w") auto
  note u = node_host.umount_mounts(1,2) [OF assms(1) w0 assms(5)]
  obtain w1 where w1: "teardown OS ?t p w0 = Some w1" and gone: "pb_pid p \<notin> hv_children (view w1)"
    and mounts: "set (hv_mounts (view w1)) \<subseteq> set (hv_mounts (view w0))"
      "\<forall>e \<in> set (hv_mounts (view w0)). me_mountpoint e \<noteq> ?t \<longrightarrow> e \<in> set (hv_mounts (view w1))"
    using node_host.teardown_returns [OF assms(1,5), of p w0] assms(8,9) by auto
  have stays: "e \<in> set (hv_mounts (view w1))" if "e \<in> set (hv_mounts (view w))" for e
  proof -
    have "me_mountpoint e \<noteq> ?t" using assms(6) imageI [OF that, of me_mountpoint] unfolding mounted_def by metis
    with u(2) [OF that this] mounts(2) show ?thesis by blast
  qed
  with mounts(1) u(1) have same: "set (hv_mounts (view w1)) = set (hv_mounts (view w))" by auto
  note rm = node_host.remove_volume_meta_result [OF assms(1), of w1 ?t]
  have "node_unpublish_volume OS (pr_volume_id req) ?t ns w =
      Some (Inr (), ns\<lparr>ns_volumes := (ns_volumes ns)(pr_volume_id req := None)\<rparr>, remove_volume_meta OS ?t w1)"
    using assms(2,3) t w0 w1 by (simp add: node_unpublish_volume_def)
  moreover have "pb_pid p \<notin> hv_children (view (remove_volume_meta OS ?t w1))" using rm gone by (auto simp: quiet_def)
  ultimately show ?thesis using refused rm same by auto
qed

theorem unpublish_elsewhere_kills_device_witness:
  "\<exists>w'. node_unpublish_volume sim_os ''v'' ''/q/m'' (example_node\<lparr>ns_volumes := [''v'' \<mapsto> example_published]\<rparr>) example_mounted =
       Some (Inr (), example_node, w') \<and>
     pb_pid example_published \<notin> hv_children (simhost_view w') \<and> mounted (simhost_view w') ''/p/m''"
proof -
  let ?req = "example_request\<lparr>pr_target_path := ''/q/m''\<rparr>"
    and ?ns = "example_node\<lparr>ns_volumes := [''v'' \<mapsto> example_published]\<rparr>"
  have pre: "ns_volumes ?ns (pr_volume_id ?req) = Some example_published" "pr_volume_id ?req \<noteq> []"
    "pb_target example_published \<noteq> pr_target_path ?req" "sim_direct (pr_target_path ?req)"
    "\<not> mounted (simhost_view example_mounted) (pr_target_path ?req)"
    "fst (umount sim_os (pr_target_path ?req) example_mounted) = Inr ()"
    "pb_child example_published = Some (pb_pid example_published)" "pb_overlay example_published = None"
    by (simp_all add: example_request_def example_published_def sim_direct_def token_def is_whitespace_def
        example_mounted_def sim_mounts_def entry_ok_def sim_entry_def mounted_def umount_def sim_command_def sim_umount_def
        sim_exit_def cmd_success_def str_contains_def starts_with_def)
  have "mounted (simhost_view example_mounted) ''/p/m''"
    by (simp add: mounted_def example_mounted_def sim_mounts_def entry_ok_def sim_entry_def token_def is_whitespace_def)
  moreover have "?ns\<lparr>ns_volumes := (ns_volumes ?ns)(pr_volume_id ?req := None)\<rparr> = example_node"
    by (simp add: example_request_def example_node_def node_new_def)
  ultimately show ?thesis
    using unpublish_elsewhere_kills_device [OF sim.node_host_axioms pre, of example_urls]
    by (auto simp: mounted_def example_request_def)
qed

end
