(* ===== verification/Spec2Isabelle.thy ===== *)
theory Spec2Isabelle
  imports Run_Command Copy_Command Io_Gateway Cli_Credentials Auth_Clients Buffered_Durable Bench_Correct Csi_Service
begin

text \<open>
  A model of \<open>ublk-azblob\<close>, a user-space block device on an Azure page blob, with its caches, its two front ends,
  its locks and its Kubernetes (CSI) driver. All source paths are below \<open>src/ublk-azblob/src\<close>.

  \<^bold>\<open>The program.\<close> A blob is reached through the trait \<open>BlobBackend\<close> (\<open>backend/mod.rs\<close>). The store is
  \<open>backend/azure.rs\<close>, whose requests pass the I/O gateway (\<open>backend/io_gateway.rs\<close>) and are authenticated by
  \<open>auth.rs\<close>; \<open>backend/mem.rs\<close> is a store for tests. Over it the \<open>run\<close> command (\<open>main.rs\<close>) puts an optional disk cache
  (\<open>backend/file.rs\<close>, with the byte budget and the page index that the caches of a node share,
  \<open>backend/cache_budget.rs\<close> and \<open>backend/cache_index.rs\<close>) and an optional write-back buffer (\<open>backend/buffered.rs\<close>), both
  with the eviction order of \<open>backend/cache_lru.rs\<close>. The result is served by the kernel target (\<open>ublk_target.rs\<close>) or the
  NBD server (\<open>nbd_target.rs\<close>), under the locks of \<open>coordination/\<close>. The CSI driver (\<open>csi/\<close>) creates the blobs of volumes
  and, on a node, starts a process of this program for each volume and mounts its device.

  \<^bold>\<open>Conventions.\<close> A component's state is a \<open>record\<close>, an operation a function on it that returns a
  result (\<open>Inl\<close> an error, \<open>Inr\<close> a value) and the new state. A backend is a record of its operations, so layers
  compose as in the code. Machine integers are \<open>nat\<close> with the wrapping, saturating or checked operation of the source
  written out, words where bits matter. Bytes are \<open>8 word\<close>, strings are lists of characters.

  \<^bold>\<open>The theories.\<close>
  \<^item> \<open>Ublk_Prelude\<close>: bytes, errors, \<open>u64\<close> arithmetic, segments of buffers, ordered maps, and the lemma collections
    \<open>buf_simps\<close> and \<open>bmap_simps\<close>. \<open>Rust_Text\<close>: the string functions of the standard library and the locale \<open>text_table\<close> of
    line-per-record files. \<open>Wire\<close>: integers as bytes.
  \<^item> \<open>Blob_Backend\<close>: the trait, its default methods, and its contract as the locales \<open>page_store\<close>, \<open>blob_backend\<close> and
    \<open>reliable_backend\<close>. \<open>Mem_Backend\<close> interprets all three.
  \<^item> \<open>Cache_Lru\<close>: the recency index. \<open>Buffered\<close>, \<open>Buffered_Refines\<close>: the buffer as it runs alone; over any
    \<open>page_store\<close> it is a \<open>blob_backend\<close> (\<open>buffered_layer\<close>), a flush is durable, the limits hold, the background task flushes.
    \<open>Buffered_Conc\<close>: its locked sections in any interleaving refine a device with atomic chunks, provided no page is
    loaded or flushed twice at once; two runs show that the proviso is needed. \<open>Buffered_Durable\<close>: what a flush makes
    durable while other requests go on.
  \<^item> \<open>Cache_Budget\<close>, \<open>Cache_Index\<close>: the shared files, refining a ledger and a table of pages. \<open>File_Cache\<close>,
    \<open>File_Cache_Refines\<close>, \<open>File_Cache_Recovery\<close>: the disk cache; it is a \<open>blob_backend\<close> over any \<open>page_store\<close>, and its files
    give back the device after a restart and after a power loss.
  \<^item> \<open>Azure\<close>, \<open>Azure_Copy\<close>, \<open>Azure_Service\<close>: retries, the page-blob operations, page ranges and the server-side
    copy, over any service with the laws of the locale \<open>page_blob_service\<close>; a simulated service with faults is an instance.
    \<open>Io_Gateway\<close>: the queues, permits and rate limits as a step relation, with bounds, progress and fairness.
    \<open>Auth\<close>, \<open>Auth_Clients\<close>: signing, SAS, credentials, and the clients and pipelines built from them.
  \<^item> \<open>Nbd\<close>, \<open>Nbd_Correct\<close>: the NBD server on bytes refines a server on requests. \<open>Ublk_Device\<close>: the kernel
    target's handler and shutdown.
  \<^item> \<open>Coordination\<close>, \<open>Coordination_Safety\<close>: the blob lease, the Kubernetes lease and the coordinator; exclusion
    under any interleaving of API calls, and what every path of a start leaves behind.
  \<^item> \<open>Blob_Url\<close>: blob URLs and the backend of one. \<open>Device_Stack\<close>: how \<open>run\<close> stacks the layers. \<open>Cli\<close>,
    \<open>Cli_Credentials\<close>: options, variables and credentials, of commands and of the device processes of the driver.
    \<open>Run_Command\<close>: \<open>run\<close> from the command line to the release of its locks. \<open>Copy_Command\<close>: the \<open>copy\<close> command.
    \<open>Bench\<close>, \<open>Bench_Correct\<close>: the benchmark with its interleaved workers, and the smoke test.
  \<^item> \<open>Csi\<close>, \<open>Template_Copy\<close>, \<open>Csi_Controller\<close>, \<open>Csi_Volumes\<close>: volume ids, the copy of a template and the controller over
    any storage with the laws of the locale \<open>blob_cloud\<close>. \<open>Csi_Mount\<close>, \<open>Csi_Node\<close>: the node service over the operating
    system; \<open>Csi_Host\<close> has the laws of a host (\<open>mount_table\<close>, \<open>node_host\<close>), \<open>Csi_Sim_Host\<close> an instance,
    \<open>Csi_Published\<close>, \<open>Csi_Unpublish\<close> what publishing, restarting and unpublishing guarantee. \<open>Csi_Device_Url\<close>: the way of
    an address from the controller to the device process. \<open>Csi_Service\<close>: the process as a state machine over calls
    and restarts.

  \<^bold>\<open>Termination.\<close> Recursion that is not structural has a measure (pages left, attempts left, bytes left). A loop
  that waits for the outside world or trusts an outside answer to advance (\<open>list_pages\<close>, \<open>warmup_loop\<close>, the \<open>poll_\<close> loops
  of the mount helpers) is a \<open>partial_function\<close> whose value \<open>None\<close> means that it never ends; that it ends is proved, from
  the laws of the service or the host. The \<open>continue\<close> of the buffer's page loops is \<open>LoopFuel\<close> when an operation
  runs alone, where it is proved not to happen, and a disabled step in \<open>Buffered_Conc\<close>. Runs of interleaved components
  are finite sequences of actions; nothing bounds their length.

  \<^bold>\<open>Parameters.\<close> Code that is not in the repository is an argument of the definitions that use it: the Azure SDK
  (\<open>page_service\<close>, \<open>lease_service\<close>, \<open>cloud\<close>, \<open>storage_sdk\<close>), the Kubernetes client (\<open>k8s_api\<close>), the \<open>url\<close> crate
  (\<open>url_crate\<close>), the flag parser of \<open>clap\<close>, \<open>leaky_bucket\<close>, \<open>libublk\<close> (\<open>ublk_sys\<close>), cryptography, and the operating system (\<open>os\<close>). What
  the code relies on is a locale or a named predicate, and each has an instance.

  \<^bold>\<open>Not modelled.\<close> Sockets and the gRPC server, generated protocol types, logging and help texts, floating-point
  output of the benchmark, and the set-up of global state (signal handlers, the process-wide gateway). The disk cache and
  the node service are modelled one operation at a time; the background warm-up that \<open>run\<close> spawns is not part of
  the run, though \<open>warmup\<close> itself is modelled. An upload that is abandoned at a time-out has taken effect before or never
  does. The local files of the disk cache do not fail, apart from hole punching.
\<close>

section \<open>The whole device\<close>



end
